(* ===== verification/JsBase.thy ===== *)
theory JsBase
  imports Main "HOL-Library.Multiset" "HOL-Library.Sublist" Complex_Main
begin

text \<open>
  Shared vocabulary of the development: the JavaScript values the client code reads and
  writes, its number comparisons, its string methods and its stable array sort, with the
  lemmas the component theories lean on.

  Numbers are IEEE doubles in the program. The code modelled here compares, floors and adds
  millisecond clocks, counters and stroop amounts, all integers far below two to the 53, so a
  finite number is a rational and its arithmetic exact; NaN and the two infinities are kept,
  because several guards of the code are about them.

  A string is a list of characters, one per UTF-16 code unit; a code unit above 255 does not
  occur in the model.
\<close>

named_theorems js_simps \<open>defining equations of the JavaScript library functions\<close>

section \<open>Numbers\<close>

datatype jsnum = JsNaN | NegInf | Fin rat | PosInf

abbreviation ms :: "int \<Rightarrow> jsnum" where
  "ms t \<equiv> Fin (of_int t)"

fun num_less :: "jsnum \<Rightarrow> jsnum \<Rightarrow> bool" where
  "num_less JsNaN _ = False"
| "num_less _ JsNaN = False"
| "num_less (Fin a) (Fin b) = (a < b)"
| "num_less NegInf NegInf = False"
| "num_less NegInf _ = True"
| "num_less (Fin _) NegInf = False"
| "num_less (Fin _) PosInf = True"
| "num_less PosInf _ = False"

fun num_sub :: "jsnum \<Rightarrow> jsnum \<Rightarrow> jsnum" where
  "num_sub (Fin a) (Fin b) = Fin (a - b)"
| "num_sub JsNaN _ = JsNaN"
| "num_sub _ JsNaN = JsNaN"
| "num_sub PosInf PosInf = JsNaN"
| "num_sub NegInf NegInf = JsNaN"
| "num_sub PosInf _ = PosInf"
| "num_sub NegInf _ = NegInf"
| "num_sub (Fin _) PosInf = NegInf"
| "num_sub (Fin _) NegInf = PosInf"

fun num_add :: "jsnum \<Rightarrow> jsnum \<Rightarrow> jsnum" where
  "num_add (Fin a) (Fin b) = Fin (a + b)"
| "num_add JsNaN _ = JsNaN"
| "num_add _ JsNaN = JsNaN"
| "num_add PosInf NegInf = JsNaN"
| "num_add NegInf PosInf = JsNaN"
| "num_add PosInf _ = PosInf"
| "num_add NegInf _ = NegInf"
| "num_add (Fin _) x = x"

fun num_finite :: "jsnum \<Rightarrow> bool" where
  "num_finite (Fin _) = True"
| "num_finite _ = False"

definition num_positive :: "jsnum \<Rightarrow> bool" where
  "num_positive x = num_less (Fin 0) x"

lemma num_positive_simps [simp]:
  "num_positive (Fin a) = (0 < a)"
  "num_positive PosInf"
  "\<not> num_positive NegInf"
  "\<not> num_positive JsNaN"
  by (simp_all add: num_positive_def)

lemma num_less_irrefl [simp]: "\<not> num_less x x"
  by (cases x) simp_all

lemma num_less_asym: "num_less x y \<Longrightarrow> \<not> num_less y x"
  by (cases x; cases y) simp_all

lemma num_less_trans: "num_less x y \<Longrightarrow> num_less y z \<Longrightarrow> num_less x z"
  by (cases x; cases y; cases z) simp_all

text \<open>
  The order IndexedDB gives number keys, as the class instance: it agrees with \<open>num_less\<close>
  away from NaN, which is no key and is put below everything only to make the order total.
\<close>

fun num_rank :: "jsnum \<Rightarrow> nat \<times> rat" where
  "num_rank JsNaN = (0, 0)"
| "num_rank NegInf = (1, 0)"
| "num_rank (Fin a) = (2, a)"
| "num_rank PosInf = (3, 0)"

lemma num_rank_inject: "num_rank x = num_rank y \<Longrightarrow> x = y"
  by (cases x; cases y) simp_all

instantiation jsnum :: linorder
begin

definition less_eq_jsnum :: "jsnum \<Rightarrow> jsnum \<Rightarrow> bool" where
  "less_eq_jsnum x y = (fst (num_rank x) < fst (num_rank y) \<or>
     fst (num_rank x) = fst (num_rank y) \<and> snd (num_rank x) \<le> snd (num_rank y))"

definition less_jsnum :: "jsnum \<Rightarrow> jsnum \<Rightarrow> bool" where
  "less_jsnum x y = (fst (num_rank x) < fst (num_rank y) \<or>
     fst (num_rank x) = fst (num_rank y) \<and> snd (num_rank x) < snd (num_rank y))"

instance
proof
  fix x y z :: jsnum
  show "x < y \<longleftrightarrow> x \<le> y \<and> \<not> y \<le> x"
    by (auto simp: less_eq_jsnum_def less_jsnum_def)
  show "x \<le> x" "x \<le> y \<or> y \<le> x"
    by (auto simp: less_eq_jsnum_def)
  show "x \<le> y \<Longrightarrow> y \<le> z \<Longrightarrow> x \<le> z"
    by (auto simp: less_eq_jsnum_def)
  show "x \<le> y \<Longrightarrow> y \<le> x \<Longrightarrow> x = y"
    by (auto simp: less_eq_jsnum_def prod_eq_iff intro!: num_rank_inject)
qed

end

lemma num_less_iff: "x \<noteq> JsNaN \<Longrightarrow> num_less x y \<longleftrightarrow> x < y"
  by (cases x; cases y) (simp_all add: less_jsnum_def)

lemma num_sub_positive: "x \<noteq> JsNaN \<Longrightarrow> y \<noteq> JsNaN \<Longrightarrow> num_positive (num_sub x y) \<longleftrightarrow> y < x"
  by (cases x; cases y) (simp_all add: less_jsnum_def)

lemma Fin_less [simp]: "Fin a < Fin b \<longleftrightarrow> a < b" "Fin a \<le> Fin b \<longleftrightarrow> a \<le> b"
  by (simp_all add: less_jsnum_def less_eq_jsnum_def)

section \<open>Values of unknown shape\<close>

text \<open>
  What \<open>JSON.parse\<close> and IndexedDB hand back. An absent property reads as \<open>undefined\<close>.
\<close>

datatype jsval =
    JUndefined
  | JNull
  | JBool bool
  | JNumber jsnum
  | JString string
  | JArray "jsval list"
  | JObject "(string \<times> jsval) list"

fun jprop :: "jsval \<Rightarrow> string \<Rightarrow> jsval" where
  "jprop (JObject fs) k = (case map_of fs k of None \<Rightarrow> JUndefined | Some v \<Rightarrow> v)"
| "jprop _ k = JUndefined"

fun has_prop :: "jsval \<Rightarrow> string \<Rightarrow> bool" where
  "has_prop (JObject fs) k = (map_of fs k \<noteq> None)"
| "has_prop _ k = False"

fun truthy :: "jsval \<Rightarrow> bool" where
  "truthy JUndefined = False"
| "truthy JNull = False"
| "truthy (JBool b) = b"
| "truthy (JNumber n) = (n \<noteq> JsNaN \<and> n \<noteq> Fin 0)"
| "truthy (JString s) = (s \<noteq> [])"
| "truthy (JArray _) = True"
| "truthy (JObject _) = True"

fun is_object :: "jsval \<Rightarrow> bool" where
  "is_object (JArray _) = True"
| "is_object (JObject _) = True"
| "is_object _ = False"

fun nullish :: "jsval \<Rightarrow> bool" where
  "nullish JUndefined = True"
| "nullish JNull = True"
| "nullish _ = False"

text \<open>The operator \<open>a ?? b\<close>.\<close>

definition coalesce :: "jsval \<Rightarrow> jsval \<Rightarrow> jsval" where
  "coalesce a b = (if nullish a then b else a)"

fun as_string :: "jsval \<Rightarrow> string option" where
  "as_string (JString s) = Some s"
| "as_string _ = None"

fun as_number :: "jsval \<Rightarrow> jsnum option" where
  "as_number (JNumber n) = Some n"
| "as_number _ = None"

lemma as_string_Some [simp]: "as_string v = Some s \<longleftrightarrow> v = JString s"
  by (cases v) auto

lemma as_number_Some [simp]: "as_number v = Some n \<longleftrightarrow> v = JNumber n"
  by (cases v) auto

section \<open>Array.prototype.sort\<close>

text \<open>
  \<open>xs.sort(cmp)\<close> is stable, and a comparator whose sign is consistent leaves it one result
  (\<open>stable_sort_unique\<close>): the insertion sort below computes it. An element moves behind
  another only where the comparator is positive, so a NaN difference counts as equal.
\<close>

fun js_insert :: "('a \<Rightarrow> 'a \<Rightarrow> jsnum) \<Rightarrow> 'a \<Rightarrow> 'a list \<Rightarrow> 'a list" where
  "js_insert cmp x [] = [x]"
| "js_insert cmp x (y # ys) =
     (if num_positive (cmp x y) then y # js_insert cmp x ys else x # y # ys)"

fun js_sort :: "('a \<Rightarrow> 'a \<Rightarrow> jsnum) \<Rightarrow> 'a list \<Rightarrow> 'a list" where
  "js_sort cmp [] = []"
| "js_sort cmp (x # xs) = js_insert cmp x (js_sort cmp xs)"

lemma mset_js_insert [simp]: "mset (js_insert cmp x xs) = add_mset x (mset xs)"
  by (induction xs) auto

lemma mset_js_sort [simp]: "mset (js_sort cmp xs) = mset xs"
  by (induction xs) auto

lemma set_js_sort [simp]: "set (js_sort cmp xs) = set xs"
  using mset_js_sort by (metis set_mset_mset)

lemma length_js_sort [simp]: "length (js_sort cmp xs) = length xs"
  using mset_js_sort by (metis size_mset)

lemma js_insert_key:
  assumes "\<And>y. y \<in> set ys \<Longrightarrow> num_positive (cmp x y) \<longleftrightarrow> (f y :: 'b::linorder) < f x"
  shows "js_insert cmp x ys = insort_key f x ys"
  using assms by (induction ys) (auto simp: not_less)

text \<open>A comparator that compares a key sorts by that key.\<close>

lemma js_sort_key:
  assumes "\<And>x y. x \<in> set xs \<Longrightarrow> y \<in> set xs \<Longrightarrow>
    num_positive (cmp x y) \<longleftrightarrow> (f y :: 'b::linorder) < f x"
  shows "js_sort cmp xs = sort_key f xs"
  using assms
proof (induction xs)
  case (Cons x xs)
  have "js_insert cmp x (sort_key f xs) = insort_key f x (sort_key f xs)"
    by (rule js_insert_key) (simp add: Cons.prems)
  with Cons show ?case by simp
qed simp

lemma js_sort_numbers:
  assumes "\<And>x. x \<in> set xs \<Longrightarrow> g x = Fin (f x)"
  shows "js_sort (\<lambda>a b. num_sub (g a) (g b)) xs = sort_key f xs"
  by (rule js_sort_key) (simp add: assms)

lemma js_sort_jsnum:
  assumes "\<And>x. x \<in> set xs \<Longrightarrow> g x \<noteq> JsNaN"
  shows "js_sort (\<lambda>a b. num_sub (g a) (g b)) xs = sort_key g xs"
  by (rule js_sort_key) (simp add: assms num_sub_positive)

lemma stable_sort_unique:
  assumes "mset ys = mset xs"
    and "\<And>k. filter (\<lambda>x. f x = k) ys = filter (\<lambda>x. f x = k) xs"
    and "sorted (map f ys)"
  shows "ys = sort_key f xs"
proof -
  have "filter (\<lambda>x. f k = f x) ys = filter (\<lambda>x. f k = f x) xs" for k
    using assms(2) [of "f k"] by (simp add: eq_commute)
  then show ?thesis
    using properties_for_sort_key [OF assms(1) _ assms(3)] by metis
qed

lemma filter_sort_key_commute: "filter P (sort_key f xs) = sort_key f (filter P xs)"
  by (rule filter_sort)

lemma find_filter: "List.find P xs = (case filter P xs of [] \<Rightarrow> None | x # _ \<Rightarrow> Some x)"
  by (induction xs) auto

lemma map_sort_key: "map g (sort_key (\<lambda>x. f (g x)) xs) = sort_key f (map g xs)"
proof (induction xs)
  case (Cons x xs)
  have "map g (insort_key (\<lambda>x. f (g x)) x ys) = insort_key f (g x) (map g ys)" for ys
    by (induction ys) auto
  with Cons show ?case by simp
qed simp

lemma sort_key_same: "(\<And>x. x \<in> set xs \<Longrightarrow> f x = g x) \<Longrightarrow> sort_key f xs = sort_key g xs"
proof (induction xs)
  case (Cons x xs)
  have "insort_key f x ys = insort_key g x ys" if "set ys \<subseteq> set xs" for ys
    using that by (induction ys) (auto simp: Cons.prems)
  with Cons show ?case by simp
qed simp

lemma distinct_map_sort_key [simp]: "distinct (map f (sort_key g xs)) = distinct (map f xs)"
proof (rule mset_eq_imp_distinct_iff)
  show "mset (map f (sort_key g xs)) = mset (map f xs)" by simp
qed

section \<open>Batches and partial maps over lists\<close>

lemma upt_split: "a \<le> b \<Longrightarrow> b \<le> c \<Longrightarrow> [a..<b] @ [b..<c] = [a..<c]"
  by (metis le_add_diff_inverse upt_add_eq_append)

lemma map_filter_id: "List.map_filter id (map f xs) = List.map_filter f xs"
  by (simp add: List.map_filter_def comp_def filter_map)

lemma map_filter_append: "List.map_filter f (xs @ ys) = List.map_filter f xs @ List.map_filter f ys"
  by (simp add: List.map_filter_def)

lemma map_filter_None: "(\<And>x. x \<in> set xs \<Longrightarrow> f x = None) \<Longrightarrow> List.map_filter f xs = []"
  by (auto simp: List.map_filter_def)

lemma map_filter_Some: "(\<And>x. x \<in> set xs \<Longrightarrow> f x = Some (g x)) \<Longrightarrow> List.map_filter f xs = map g xs"
  by (auto simp: List.map_filter_def intro: filter_True [THEN arg_cong])

section \<open>String methods\<close>

text \<open>Template literals and \<open>String(n)\<close> of an integer.\<close>

definition digit_char :: "nat \<Rightarrow> char" where
  "digit_char d = char_of (48 + d)"

fun show_nat :: "nat \<Rightarrow> string" where
  "show_nat n = (if n < 10 then [digit_char n] else show_nat (n div 10) @ [digit_char (n mod 10)])"

declare show_nat.simps [simp del]

definition show_int :: "int \<Rightarrow> string" where
  "show_int i = (if i < 0 then ''-'' @ show_nat (nat (- i)) else show_nat (nat i))"

fun read_nat :: "nat \<Rightarrow> string \<Rightarrow> nat" where
  "read_nat acc [] = acc"
| "read_nat acc (c # cs) = read_nat (10 * acc + (of_char c - 48)) cs"

lemma read_nat_append: "read_nat acc (xs @ ys) = read_nat (read_nat acc xs) ys"
  by (induction xs arbitrary: acc) auto

lemma of_char_digit [simp]: "d < 10 \<Longrightarrow> of_char (digit_char d) = 48 + d"
  by (simp add: digit_char_def)

lemma read_show_nat: "read_nat 0 (show_nat n) = n"
proof (induction n rule: show_nat.induct)
  case (1 n)
  then show ?case
    by (subst show_nat.simps) (auto simp: read_nat_append)
qed

lemma show_nat_inject [simp]: "show_nat m = show_nat n \<longleftrightarrow> m = n"
  by (metis read_show_nat)

lemma show_nat_nonempty [simp]: "show_nat n \<noteq> []"
  by (subst show_nat.simps) simp

lemma show_nat_digits: "c \<in> set (show_nat n) \<Longrightarrow> \<exists>d<10. c = digit_char d"
proof (induction n rule: show_nat.induct)
  case (1 n)
  show ?case
  proof (cases "n < 10")
    case True
    with "1.prems" show ?thesis by (auto simp: show_nat.simps [of n])
  next
    case False
    with "1.prems" have "c \<in> set (show_nat (n div 10)) \<or> c = digit_char (n mod 10)"
      by (auto simp: show_nat.simps [of n])
    with "1.IH" False show ?thesis by (metis mod_less_divisor zero_less_numeral)
  qed
qed

definition is_space :: "char \<Rightarrow> bool" where
  "is_space c = (c \<in> {CHR 0x09, CHR 0x0A, CHR 0x0B, CHR 0x0C, CHR 0x0D, CHR '' '', CHR 0xA0})"

definition trim_left :: "string \<Rightarrow> string" where
  "trim_left s = dropWhile is_space s"

definition trim :: "string \<Rightarrow> string" where
  "trim s = rev (trim_left (rev (trim_left s)))"

definition lower_char :: "char \<Rightarrow> char" where
  "lower_char c =
     (let n = of_char c :: nat
      in if (65 \<le> n \<and> n \<le> 90) \<or> (192 \<le> n \<and> n \<le> 222 \<and> n \<noteq> 215) then char_of (n + 32) else c)"

definition to_lower :: "string \<Rightarrow> string" where
  "to_lower s = map lower_char s"

lemma lower_char_idem [simp]: "lower_char (lower_char c) = lower_char c"
  by (auto simp: lower_char_def Let_def)

definition starts_with :: "string \<Rightarrow> string \<Rightarrow> bool" where
  "starts_with s p = (take (length p) s = p)"

fun index_of :: "string \<Rightarrow> string \<Rightarrow> nat option" where
  "index_of [] p = (if p = [] then Some 0 else None)"
| "index_of (c # cs) p =
     (if starts_with (c # cs) p then Some 0 else map_option Suc (index_of cs p))"

definition str_includes :: "string \<Rightarrow> string \<Rightarrow> bool" where
  "str_includes s p = (index_of s p \<noteq> None)"

fun join :: "string \<Rightarrow> string list \<Rightarrow> string" where
  "join sep [] = []"
| "join sep [x] = x"
| "join sep (x # y # ys) = x @ sep @ join sep (y # ys)"

fun split_char :: "char \<Rightarrow> string \<Rightarrow> string list" where
  "split_char c [] = [[]]"
| "split_char c (x # xs) =
     (case split_char c xs of
        [] \<Rightarrow> [[x]]
      | p # ps \<Rightarrow> if x = c then [] # p # ps else (x # p) # ps)"

definition pad_start :: "nat \<Rightarrow> char \<Rightarrow> string \<Rightarrow> string" where
  "pad_start n c s = replicate (n - length s) c @ s"

lemma starts_with_iff: "starts_with s p \<longleftrightarrow> (\<exists>r. s = p @ r)"
  unfolding starts_with_def by (metis append_eq_conv_conj append_take_drop_id)

lemma index_of_None: "index_of s p = None \<longleftrightarrow> \<not> sublist p s"
proof (induction s p rule: index_of.induct)
  case (1 p)
  then show ?case by simp
next
  case (2 c cs p)
  have "starts_with (c # cs) p \<longleftrightarrow> prefix p (c # cs)"
    by (auto simp: starts_with_iff prefix_def)
  with 2 show ?case by (auto simp: sublist_Cons_right)
qed

lemma str_includes_iff [simp]: "str_includes s p \<longleftrightarrow> sublist p s"
  by (simp add: str_includes_def index_of_None)

lemma split_char_nonempty [simp]: "split_char c s \<noteq> []"
  by (induction s) (auto split: list.splits)

lemma join_split_char: "join [c] (split_char c s) = s"
proof (induction s)
  case (Cons x xs)
  then show ?case
    by (cases "split_char c xs"; cases "tl (split_char c xs)") auto
qed simp

lemma trim_Nil [simp]: "trim [] = []"
  by (simp add: trim_def trim_left_def)

lemma trim_left_idem [simp]: "trim_left (trim_left s) = trim_left s"
  by (simp add: trim_left_def)

lemma trim_left_fixed: "trim_left s = s \<longleftrightarrow> s = [] \<or> \<not> is_space (hd s)"
  unfolding trim_left_def
  by (cases s) (auto, metis append_self_conv2 length_Cons length_append
    not_add_less2 takeWhile_dropWhile_id impossible_Cons le_add2)

lemma trim_idem [simp]: "trim (trim s) = trim s"
proof -
  let ?t = "trim_left s"
  have ends: "rev (trim_left (rev ?t)) = [] \<or> \<not> is_space (hd (rev (trim_left (rev ?t))))"
  proof (cases "trim_left (rev ?t) = []")
    case False
    then obtain ys where ys: "?t = rev (trim_left (rev ?t)) @ ys"
      by (metis rev_append rev_rev_ident takeWhile_dropWhile_id trim_left_def)
    with False have "hd (rev (trim_left (rev ?t))) = hd ?t"
      by (metis hd_append2 rev_is_Nil_conv)
    moreover have "?t \<noteq> []"
      using False by (metis dropWhile.simps(1) rev.simps(1) trim_left_def)
    moreover from this have "\<not> is_space (hd ?t)"
      using \<open>?t \<noteq> []\<close> trim_left_idem trim_left_fixed by blast
    ultimately show ?thesis by simp
  qed simp
  then have "trim_left (rev (trim_left (rev ?t))) = rev (trim_left (rev ?t))"
    by (simp only: trim_left_fixed)
  then show ?thesis by (simp add: trim_def)
qed

end
