(* ===== verification/JsResult.thy ===== *)
theory JsResult
  imports JsBase
begin

text \<open>
  Exceptions of the back end's services as values: a computation answers \<open>Inl\<close> what it throws or
  \<open>Inr\<close> its result, \<open>bnd\<close> runs the rest of a function after a call that may throw, \<open>ensure\<close> is a
  guard that throws. The equations for \<open>Inr\<close> turn a successful run into the facts each step
  established.
\<close>

text \<open>What the handlers read from an exception they catch.\<close>

record thrown =
  th_message :: string
  th_code :: "string option"
  th_result_codes :: "string option option"
  th_response :: "nat option"
  th_status :: "nat option"

definition plain_error :: "string \<Rightarrow> thrown" where
  "plain_error msg = \<lparr>th_message = msg, th_code = None, th_result_codes = None,
     th_response = None, th_status = None\<rparr>"

definition http_error :: "nat \<Rightarrow> string \<Rightarrow> thrown" where
  "http_error st msg = (plain_error msg)\<lparr>th_status := Some st\<rparr>"

definition bnd :: "'e + 'a \<Rightarrow> ('a \<Rightarrow> 'e + 'b) \<Rightarrow> 'e + 'b" where
  "bnd m f = (case m of Inl e \<Rightarrow> Inl e | Inr x \<Rightarrow> f x)"

definition ensure :: "bool \<Rightarrow> 'e \<Rightarrow> 'e + unit" where
  "ensure p e = (if p then Inr () else Inl e)"

lemma bnd_simps [simp]: "bnd (Inl e) f = Inl e" "bnd (Inr x) f = f x"
  by (simp_all add: bnd_def)

lemma bnd_Inr: "bnd m f = Inr y \<longleftrightarrow> (\<exists>x. m = Inr x \<and> f x = Inr y)"
  by (cases m) simp_all

lemma ensure_Inr [simp]: "ensure p e = Inr u \<longleftrightarrow> p"
  by (simp add: ensure_def)

lemma ensure_simps [simp]: "ensure True e = Inr ()" "ensure False e = Inl e"
  by (simp_all add: ensure_def)

lemma bnd_ensure_Inr: "bnd (ensure p e) f = Inr y \<longleftrightarrow> p \<and> f () = Inr y"
  by (simp add: bnd_Inr)

lemma bnd_assoc: "bnd (bnd m f) g = bnd m (\<lambda>x. bnd (f x) g)"
  by (cases m) simp_all

lemmas ok_steps = bnd_ensure_Inr bnd_Inr

text \<open>\<open>a || b\<close> over optional texts: the empty text is falsy.\<close>

definition truthy_text :: "string option \<Rightarrow> string option" where
  "truthy_text m = (if m = Some [] then None else m)"

definition overlay :: "'a option \<Rightarrow> 'a \<Rightarrow> 'a" where
  "overlay u x = (case u of None \<Rightarrow> x | Some y \<Rightarrow> y)"

definition quoted :: "string \<Rightarrow> string" where
  "quoted s = CHR 0x27 # s @ [CHR 0x27]"

end
