(* ===== verification/SqlTable.thy ===== *)
theory SqlTable
  imports JsBase "HOL-Library.Option_ord"
begin

text \<open>
  Tables of the back end's database, as the query builder's clients see them: rows in the order
  they were inserted, under a primary key. Each query is one atomic step. \<open>insert\<close> fails on a
  taken key, \<open>update\<close> and \<open>del\<close> answer the number of rows their condition selects. The locale
  states what the services rely on; the association list provides it. Where two rows tie in an
  \<open>ORDER BY\<close> the model keeps them in table order.
\<close>

type_synonym ('k, 'r) table = "('k \<times> 'r) list"

definition tb_row :: "('k, 'r) table \<Rightarrow> 'k \<Rightarrow> 'r option" where
  "tb_row t k = map_of t k"

definition tb_insert :: "'k \<Rightarrow> 'r \<Rightarrow> ('k, 'r) table \<Rightarrow> ('k, 'r) table option" where
  "tb_insert k r t = (if tb_row t k = None then Some (t @ [(k, r)]) else None)"

definition tb_select :: "('k \<Rightarrow> 'r \<Rightarrow> bool) \<Rightarrow> ('k, 'r) table \<Rightarrow> ('k \<times> 'r) list" where
  "tb_select P t = filter (\<lambda>(k, r). P k r) t"

definition tb_update ::
  "('k \<Rightarrow> 'r \<Rightarrow> bool) \<Rightarrow> ('r \<Rightarrow> 'r) \<Rightarrow> ('k, 'r) table \<Rightarrow> nat \<times> ('k, 'r) table" where
  "tb_update P f t = (length (tb_select P t), map (\<lambda>(k, r). (k, if P k r then f r else r)) t)"

definition tb_delete :: "('k \<Rightarrow> 'r \<Rightarrow> bool) \<Rightarrow> ('k, 'r) table \<Rightarrow> nat \<times> ('k, 'r) table" where
  "tb_delete P t = (length (tb_select P t), filter (\<lambda>(k, r). \<not> P k r) t)"

definition tb_wf :: "('k, 'r) table \<Rightarrow> bool" where
  "tb_wf t = distinct (map fst t)"

text \<open>\<open>.where("id", k).update(f)\<close>: the common case, a single row by its key.\<close>

abbreviation tb_set :: "'k \<Rightarrow> ('r \<Rightarrow> 'r) \<Rightarrow> ('k, 'r) table \<Rightarrow> ('k, 'r) table" where
  "tb_set k f t \<equiv> snd (tb_update (\<lambda>k' _. k' = k) f t)"

locale sql_table =
  fixes row :: "'t \<Rightarrow> 'k \<Rightarrow> 'r option"
    and ins :: "'k \<Rightarrow> 'r \<Rightarrow> 't \<Rightarrow> 't option"
    and sel :: "('k \<Rightarrow> 'r \<Rightarrow> bool) \<Rightarrow> 't \<Rightarrow> ('k \<times> 'r) list"
    and upd :: "('k \<Rightarrow> 'r \<Rightarrow> bool) \<Rightarrow> ('r \<Rightarrow> 'r) \<Rightarrow> 't \<Rightarrow> nat \<times> 't"
    and del :: "('k \<Rightarrow> 'r \<Rightarrow> bool) \<Rightarrow> 't \<Rightarrow> nat \<times> 't"
    and wf :: "'t \<Rightarrow> bool"
  assumes ins_None: "ins k r t = None \<longleftrightarrow> row t k \<noteq> None"
    and row_ins: "ins k r t = Some t' \<Longrightarrow> row t' = (row t)(k \<mapsto> r)"
    and row_upd: "row (snd (upd P f t)) k = map_option (\<lambda>r. if P k r then f r else r) (row t k)"
    and row_del: "wf t \<Longrightarrow> row (snd (del P t)) k =
      (case row t k of Some r \<Rightarrow> if P k r then None else Some r | None \<Rightarrow> None)"
    and in_sel: "wf t \<Longrightarrow> (k, r) \<in> set (sel P t) \<longleftrightarrow> row t k = Some r \<and> P k r"
    and sel_distinct: "wf t \<Longrightarrow> distinct (map fst (sel P t))"
    and upd_count: "fst (upd P f t) = length (sel P t)"
    and del_count: "fst (del P t) = length (sel P t)"
    and wf_ins: "wf t \<Longrightarrow> ins k r t = Some t' \<Longrightarrow> wf t'"
    and wf_upd: "wf t \<Longrightarrow> wf (snd (upd P f t))"
    and wf_del: "wf t \<Longrightarrow> wf (snd (del P t))"
begin

text \<open>A guarded update of one row is a compare and set: it answers 1 or 0, and the guard decides.\<close>

lemma cas_count:
  assumes "wf t"
  shows "fst (upd (\<lambda>k' r. k' = k \<and> G r) f t) = (case row t k of Some r \<Rightarrow> if G r then 1 else 0 | None \<Rightarrow> 0)"
proof -
  let ?s = "sel (\<lambda>k' r. k' = k \<and> G r) t"
  have in_s: "(k', r) \<in> set ?s \<longleftrightarrow> row t k' = Some r \<and> k' = k \<and> G r" for k' r
    using in_sel [OF assms] by auto
  have keys: "set (map fst ?s) = (case row t k of Some r \<Rightarrow> if G r then {k} else {} | None \<Rightarrow> {})"
  proof (intro set_eqI iffI)
    fix x assume "x \<in> set (map fst ?s)"
    then obtain r where "(x, r) \<in> set ?s" by auto
    then have "row t x = Some r \<and> x = k \<and> G r" using in_s by blast
    then show "x \<in> (case row t k of Some r \<Rightarrow> if G r then {k} else {} | None \<Rightarrow> {})" by auto
  next
    fix x assume "x \<in> (case row t k of Some r \<Rightarrow> if G r then {k} else {} | None \<Rightarrow> {})"
    then obtain r where "row t x = Some r" "x = k" "G r" by (auto split: option.splits if_splits)
    then have "(x, r) \<in> set ?s" by (simp only: in_s)
    then show "x \<in> set (map fst ?s)" by force
  qed
  have "length ?s = card (case row t k of Some r \<Rightarrow> if G r then {k} else {} | None \<Rightarrow> {})"
    unfolding keys [symmetric] using sel_distinct [OF assms] distinct_card by (metis length_map)
  then show ?thesis by (simp add: upd_count split: option.splits)
qed

lemma cas_wins:
  assumes "wf t"
  shows "fst (upd (\<lambda>k' r. k' = k \<and> G r) f t) = 1 \<longleftrightarrow> (\<exists>r. row t k = Some r \<and> G r)"
  by (simp add: cas_count [OF assms] split: option.splits)

text \<open>The loser changes nothing.\<close>

lemma cas_loses:
  assumes "wf t" and "fst (upd (\<lambda>k' r. k' = k \<and> G r) f t) \<noteq> 1"
  shows "row (snd (upd (\<lambda>k' r. k' = k \<and> G r) f t)) = row t"
proof
  fix x
  have "\<And>r. row t k = Some r \<Longrightarrow> \<not> G r"
    using assms(2) cas_wins [OF assms(1), of k G f] by blast
  then show "row (snd (upd (\<lambda>k' r. k' = k \<and> G r) f t)) x = row t x"
    by (cases "row t x") (auto simp: row_upd)
qed

lemma row_upd_eq:
  "row (snd (upd P f t)) = (\<lambda>k. map_option (\<lambda>r. if P k r then f r else r) (row t k))"
  by (rule ext) (rule row_upd)

end

lemma map_of_filter_distinct:
  "distinct (map fst t) \<Longrightarrow> map_of (filter (\<lambda>(k, r). Q k r) t) k =
     (case map_of t k of Some r \<Rightarrow> if Q k r then Some r else None | None \<Rightarrow> None)"
proof (induction t)
  case (Cons p t)
  obtain k' r where [simp]: "p = (k', r)" by (cases p)
  have "map_of t k = None" if "k' = k" using that Cons.prems by (simp add: map_of_eq_None_iff)
  with Cons show ?case by auto
qed simp

interpretation db: sql_table tb_row tb_insert tb_select tb_update tb_delete tb_wf
proof
  show "tb_row (snd (tb_update P f t)) k = map_option (\<lambda>r. if P k r then f r else r) (tb_row t k)"
    for P f t and k :: 'a
    by (induction t) (auto simp: tb_row_def tb_update_def)
  show "tb_row (snd (tb_delete P t)) k =
      (case tb_row t k of Some r \<Rightarrow> if P k r then None else Some r | None \<Rightarrow> None)"
    if "tb_wf t" for P and t :: "('a, 'b) table" and k
    using that map_of_filter_distinct [of t "\<lambda>k r. \<not> P k r" k]
    by (auto simp: tb_row_def tb_delete_def tb_wf_def split: option.splits)
  show "tb_wf (snd (tb_update P f t))" if "tb_wf t" for P f and t :: "('a, 'b) table"
    using that by (auto simp: tb_wf_def tb_update_def comp_def split_beta)
  show "distinct (map fst (tb_select P t))" if "tb_wf t" for P and t :: "('a, 'b) table"
    using that by (simp add: tb_wf_def tb_select_def distinct_map_filter)
  then show "tb_wf (snd (tb_delete P t))" if "tb_wf t" for P and t :: "('a, 'b) table"
    using that by (simp add: tb_wf_def tb_delete_def distinct_map_filter)
  show "(k, r) \<in> set (tb_select P t) \<longleftrightarrow> tb_row t k = Some r \<and> P k r"
    if "tb_wf t" for P and t :: "('a, 'b) table" and k r
    using that by (auto simp: tb_wf_def tb_select_def tb_row_def)
  show "tb_row t' = (tb_row t)(k \<mapsto> r)" if "tb_insert k r t = Some t'"
    for k r and t t' :: "('a, 'b) table"
    using that by (auto simp: tb_insert_def tb_row_def fun_eq_iff map_add_def
        split: if_splits option.splits)
qed (auto simp: tb_insert_def tb_update_def tb_delete_def tb_wf_def tb_row_def map_of_eq_None_iff
  split: if_splits)

declare db.wf_upd [simp] db.wf_del [simp]

lemmas tb_facts = db.row_ins db.row_upd_eq db.row_del

lemma tb_wf_Nil [simp]: "tb_wf []"
  by (simp add: tb_wf_def)

lemma tb_row_Nil [simp]: "tb_row [] k = None"
  by (simp add: tb_row_def)

lemma tb_row_Cons [simp]: "tb_row ((k', r) # t) k = (if k = k' then Some r else tb_row t k)"
  by (simp add: tb_row_def)

lemma tb_row_set:
  "tb_row (tb_set k f t) = (\<lambda>k'. if k' = k then map_option f (tb_row t k) else tb_row t k')"
  by (rule ext) (simp add: db.row_upd option.map_id0 [unfolded id_def])

lemma fst_tb_set [simp]: "map fst (tb_set k f t) = map fst t"
  by (simp add: tb_update_def comp_def split_beta)

lemma tb_row_outside:
  "(\<And>r. \<not> P k r) \<Longrightarrow> tb_row (snd (tb_update P f t)) k = tb_row t k"
  by (cases "tb_row t k") (simp_all add: db.row_upd)

lemma tb_row_inside:
  "tb_row (snd (tb_update P f t)) k = Some r' \<Longrightarrow> (\<And>r. tb_row t k = Some r \<Longrightarrow> P k r) \<Longrightarrow>
    \<exists>r. tb_row t k = Some r \<and> r' = f r"
  by (cases "tb_row t k") (simp_all add: db.row_upd)

lemma tb_row_set_Some:
  "tb_row t k = Some r \<Longrightarrow> tb_row (tb_set k f t) = (tb_row t)(k \<mapsto> f r)"
  by (auto simp: tb_row_set)

lemma tb_insert_fresh: "tb_insert k r t = Some t' \<Longrightarrow> tb_row t k = None"
  by (simp add: tb_insert_def split: if_splits)

lemma tb_set_id: "tb_row t k = None \<Longrightarrow> tb_set k f t = t"
  by (induction t) (auto simp: tb_update_def tb_row_def split: if_splits)

end
