(* ===== verification/JsDate.thy ===== *)
theory JsDate
  imports JsBase
begin

text \<open>
  The proleptic Gregorian calendar of the language's \<open>Date\<close>: a time value is an integer number of
  milliseconds since 1970, and the UTC getters and setters the services call are computed from
  it as the standard defines them. Months count from 0, days of the month from 1.
\<close>

section \<open>Days and years\<close>

definition msPerDay :: int where
  "msPerDay = 86400000"

definition day_of :: "int \<Rightarrow> int" where
  "day_of t = t div msPerDay"

definition time_within_day :: "int \<Rightarrow> int" where
  "time_within_day t = t mod msPerDay"

definition leap_year :: "int \<Rightarrow> bool" where
  "leap_year y \<longleftrightarrow> (4 dvd y \<and> \<not> 100 dvd y) \<or> 400 dvd y"

definition day_from_year :: "int \<Rightarrow> int" where
  "day_from_year y =
     365 * (y - 1970) + (y - 1969) div 4 - (y - 1901) div 100 + (y - 1601) div 400"

text \<open>An estimate that is at most one year off, corrected.\<close>

definition year_from_day :: "int \<Rightarrow> int" where
  "year_from_day d =
     (let y = 1970 + (400 * d) div 146097
      in if d < day_from_year y then y - 1
         else if day_from_year (y + 1) \<le> d then y + 1 else y)"

lemma div_step: "0 < (k::int) \<Longrightarrow> (n + 1) div k = n div k + (if k dvd n + 1 then 1 else 0)"
proof -
  assume k: "0 < k"
  have n: "n = k * (n div k) + n mod k" by simp
  have m: "0 \<le> n mod k" "n mod k < k" using k by simp_all
  show ?thesis
  proof (cases "n mod k = k - 1")
    case True
    with n have "n + 1 = k * (n div k + 1)" by (simp add: algebra_simps)
    then show ?thesis using k by (metis dvd_triv_left nonzero_mult_div_cancel_left not_less_iff_gr_or_eq)
  next
    case False
    with m have lt: "n mod k + 1 < k" by simp
    have "n + 1 = k * (n div k) + (n mod k + 1)" by simp
    then have "(n + 1) div k = n div k \<and> (n + 1) mod k = n mod k + 1"
      using lt m by (metis div_pos_pos_trivial div_mult_self4 mod_mult_self4 mod_pos_pos_trivial
          add.commute add_cancel_right_right add_nonneg_nonneg k less_le mult.commute zero_le_one)
    then show ?thesis using m by (auto simp: dvd_eq_mod_eq_0)
  qed
qed

lemma div_step_shift:
  "0 < (k::int) \<Longrightarrow> k dvd c - 1 \<Longrightarrow> (y + 1 - c) div k = (y - c) div k + (if k dvd y then 1 else 0)"
proof -
  assume k: "0 < k" and c: "k dvd c - 1"
  have "y = (y - c) + 1 + (c - 1)" by simp
  then have "k dvd (y - c) + 1 \<longleftrightarrow> k dvd y" using c by (metis dvd_add_left_iff)
  moreover have "y + 1 - c = (y - c) + 1" by simp
  ultimately show ?thesis using div_step [OF k, of "y - c"] by metis
qed

lemma day_from_year_Suc:
  "day_from_year (y + 1) = day_from_year y + (if leap_year y then 366 else 365)"
proof -
  have d: "100 dvd y \<Longrightarrow> 4 dvd y" by (rule dvd_trans [of 4 100]) simp_all
  have d': "400 dvd y \<Longrightarrow> 100 dvd y" by (rule dvd_trans [of 100 400]) simp_all
  have "(y + 1 - 1969) div 4 = (y - 1969) div 4 + (if 4 dvd y then 1 else 0)"
    "(y + 1 - 1901) div 100 = (y - 1901) div 100 + (if 100 dvd y then 1 else 0)"
    "(y + 1 - 1601) div 400 = (y - 1601) div 400 + (if 400 dvd y then 1 else 0)"
    by (rule div_step_shift; simp)+
  then have "day_from_year (y + 1) = day_from_year y + 365 + (if 4 dvd y then 1 else 0)
      - (if 100 dvd y then 1 else 0) + (if 400 dvd y then 1 else 0)"
    unfolding day_from_year_def by (simp add: algebra_simps del: div_mult_self4)
  then show ?thesis using d d' unfolding leap_year_def by (auto split: if_splits)
qed

lemma div_bounds: "0 < (k::int) \<Longrightarrow> k * (n div k) \<le> n \<and> n < k * (n div k) + k"
proof -
  assume "0 < k"
  then have "0 \<le> n mod k" "n mod k < k" by simp_all
  moreover have "k * (n div k) + n mod k = n" by simp
  ultimately have "k * (n div k) \<le> n" "n < k * (n div k) + k" by linarith+
  then show ?thesis ..
qed

lemma day_from_year_bounds:
  "146097 * (y - 1970) - 506 \<le> 400 * day_from_year y \<and>
   400 * day_from_year y \<le> 146097 * (y - 1970) + 589"
proof -
  obtain a b c where abc: "a = (y - 1969) div 4" "b = (y - 1901) div 100" "c = (y - 1601) div 400"
    by blast
  have "4 * a \<le> y - 1969" "y - 1969 < 4 * a + 4" "100 * b \<le> y - 1901" "y - 1901 < 100 * b + 100"
    "400 * c \<le> y - 1601" "y - 1601 < 400 * c + 400"
    using div_bounds [of 4 "y - 1969"] div_bounds [of 100 "y - 1901"] div_bounds [of 400 "y - 1601"]
    unfolding abc by simp_all
  then show ?thesis unfolding day_from_year_def abc [symmetric] by (simp add: algebra_simps)
qed

lemma year_from_day_bounds:
  "day_from_year (year_from_day d) \<le> d \<and> d < day_from_year (year_from_day d + 1)"
proof -
  define y where "y = 1970 + (400 * d) div 146097"
  have est: "146097 * (y - 1970) \<le> 400 * d" "400 * d < 146097 * (y - 1970) + 146097"
    using div_bounds [of 146097 "400 * d"] unfolding y_def by simp_all
  have "400 * day_from_year (y - 1) \<le> 400 * d"
    using est day_from_year_bounds [of "y - 1", THEN conjunct2] by (simp add: algebra_simps)
  moreover have "400 * d < 400 * day_from_year (y + 2)"
    using est day_from_year_bounds [of "y + 2", THEN conjunct1] by (simp add: algebra_simps)
  ultimately show ?thesis
    unfolding year_from_day_def y_def [symmetric] Let_def by (auto simp: add.commute)
qed

lemma day_from_year_mono: "day_from_year y \<le> day_from_year (y + int n)"
proof (induction n)
  case (Suc n)
  have "day_from_year (y + int n) \<le> day_from_year (y + int n + 1)"
    by (simp add: day_from_year_Suc)
  with Suc show ?case by (simp add: algebra_simps)
qed simp

lemma day_from_year_le: "y \<le> z \<Longrightarrow> day_from_year y \<le> day_from_year z"
  using day_from_year_mono [of y "nat (z - y)"] by simp

lemma year_from_day_unique:
  assumes "day_from_year y \<le> d" and "d < day_from_year (y + 1)"
  shows "year_from_day d = y"
proof (rule ccontr)
  assume "year_from_day d \<noteq> y"
  then consider "year_from_day d + 1 \<le> y" | "y + 1 \<le> year_from_day d" by linarith
  then show False
    using assms year_from_day_bounds [of d] day_from_year_le by cases force+
qed

section \<open>Months\<close>

definition month_start :: "bool \<Rightarrow> int \<Rightarrow> int" where
  "month_start l m =
     (if m \<le> 0 then 0 else if m = 1 then 31
      else [59, 90, 120, 151, 181, 212, 243, 273, 304, 334] ! nat (m - 2) + (if l then 1 else 0))"

definition month_length :: "bool \<Rightarrow> int \<Rightarrow> int" where
  "month_length l m =
     (if m = 1 then (if l then 29 else 28) else if m \<in> {3, 5, 8, 10} then 30 else 31)"

definition month_in_year :: "bool \<Rightarrow> int \<Rightarrow> int" where
  "month_in_year l k =
     (let b = (if l then 1 else 0) in
      if k < 31 then 0 else if k < 59 + b then 1 else if k < 90 + b then 2
      else if k < 120 + b then 3 else if k < 151 + b then 4 else if k < 181 + b then 5
      else if k < 212 + b then 6 else if k < 243 + b then 7 else if k < 273 + b then 8
      else if k < 304 + b then 9 else if k < 334 + b then 10 else 11)"

definition make_day :: "int \<Rightarrow> int \<Rightarrow> int \<Rightarrow> int" where
  "make_day y m d =
     (let y' = y + m div 12
      in day_from_year y' + month_start (leap_year y') (m mod 12) + d - 1)"

lemma month_cases:
  assumes "0 \<le> m" "m < (12::int)"
  obtains "m = 0" | "m = 1" | "m = 2" | "m = 3" | "m = 4" | "m = 5" | "m = 6" | "m = 7"
    | "m = 8" | "m = 9" | "m = 10" | "m = 11"
proof -
  have "m \<in> set [0..11]" using assms by (simp only: set_upto) simp
  then show ?thesis using that by (auto simp: upto.simps)
qed

lemma month_of_start:
  assumes "0 \<le> m" "m < 12" "1 \<le> d" "d \<le> month_length l m"
  shows "month_in_year l (month_start l m + d - 1) = m"
  using assms(1,2)
proof (cases rule: month_cases)
qed (use assms in \<open>simp_all add: month_in_year_def month_start_def month_length_def Let_def
  split: if_splits\<close>)

lemma month_start_bounds:
  assumes "0 \<le> m" "m < 12" "1 \<le> d" "d \<le> month_length l m"
  shows "0 \<le> month_start l m + d - 1" "month_start l m + d - 1 < (if l then 366 else 365)"
proof -
  have "0 \<le> month_start l m \<and> month_start l m + month_length l m \<le> (if l then 366 else 365)"
    using assms(1,2) by (cases rule: month_cases) (simp_all add: month_start_def month_length_def)
  with assms show "0 \<le> month_start l m + d - 1" "month_start l m + d - 1 < (if l then 366 else 365)"
    by linarith+
qed

section \<open>Getters and setters\<close>

definition getUTCMinutes :: "int \<Rightarrow> int" where
  "getUTCMinutes t = t div 60000 mod 60"

definition getUTCHours :: "int \<Rightarrow> int" where
  "getUTCHours t = t div 3600000 mod 24"

definition getUTCDay :: "int \<Rightarrow> int" where
  "getUTCDay t = (day_of t + 4) mod 7"

definition getUTCFullYear :: "int \<Rightarrow> int" where
  "getUTCFullYear t = year_from_day (day_of t)"

definition day_in_year :: "int \<Rightarrow> int" where
  "day_in_year t = day_of t - day_from_year (getUTCFullYear t)"

definition getUTCMonth :: "int \<Rightarrow> int" where
  "getUTCMonth t = month_in_year (leap_year (getUTCFullYear t)) (day_in_year t)"

definition getUTCDate :: "int \<Rightarrow> int" where
  "getUTCDate t =
     day_in_year t - month_start (leap_year (getUTCFullYear t)) (getUTCMonth t) + 1"

definition setUTCDate :: "int \<Rightarrow> int \<Rightarrow> int" where
  "setUTCDate d t = make_day (getUTCFullYear t) (getUTCMonth t) d * msPerDay + time_within_day t"

definition setUTCMonth :: "int \<Rightarrow> int \<Rightarrow> int" where
  "setUTCMonth m t = make_day (getUTCFullYear t) m (getUTCDate t) * msPerDay + time_within_day t"

lemma time_within_day_bounds: "0 \<le> time_within_day t" "time_within_day t < msPerDay"
  by (simp_all add: time_within_day_def msPerDay_def)

lemma day_of_date [simp]: "day_of (d * msPerDay + time_within_day t) = d"
  using time_within_day_bounds [of t]
  by (simp add: day_of_def msPerDay_def div_pos_pos_trivial)

lemma time_of_date [simp]: "time_within_day (d * msPerDay + time_within_day t) = time_within_day t"
  by (simp add: time_within_day_def)

lemma date_of_day: "t = day_of t * msPerDay + time_within_day t"
  by (simp add: day_of_def time_within_day_def)

lemma day_in_year_bounds:
  "0 \<le> day_in_year t \<and> day_in_year t < (if leap_year (getUTCFullYear t) then 366 else 365)"
  using year_from_day_bounds [of "day_of t"]
  by (auto simp: day_in_year_def getUTCFullYear_def day_from_year_Suc)

lemma getUTCMonth_bounds: "0 \<le> getUTCMonth t \<and> getUTCMonth t < 12"
  by (simp add: getUTCMonth_def month_in_year_def Let_def)

lemma getUTCDate_ge1: "1 \<le> getUTCDate t"
  using day_in_year_bounds [of t]
  by (simp add: getUTCDate_def getUTCMonth_def month_in_year_def month_start_def Let_def
      split: if_splits)

text \<open>Setting the day of the month moves the time by whole days.\<close>

lemma setUTCDate_shift: "setUTCDate (getUTCDate t + n) t = t + n * msPerDay"
proof -
  have "make_day (getUTCFullYear t) (getUTCMonth t) (getUTCDate t + n) = day_of t + n"
    using getUTCMonth_bounds [of t]
    by (simp add: make_day_def Let_def getUTCDate_def day_in_year_def)
  then have "setUTCDate (getUTCDate t + n) t = day_of t * msPerDay + time_within_day t + n * msPerDay"
    by (simp add: setUTCDate_def algebra_simps)
  then show ?thesis by (simp add: date_of_day [symmetric])
qed

text \<open>Reading back a day that the month has.\<close>

lemma civil_roundtrip:
  assumes "t' = make_day y m d * msPerDay + time_within_day t"
    and "1 \<le> d" and "d \<le> month_length (leap_year (y + m div 12)) (m mod 12)"
  shows "getUTCFullYear t' = y + m div 12" "getUTCMonth t' = m mod 12" "getUTCDate t' = d"
    "time_within_day t' = time_within_day t"
proof -
  define y' where "y' = y + m div 12"
  define k where "k = month_start (leap_year y') (m mod 12) + d - 1"
  have m: "0 \<le> m mod 12" "m mod 12 < 12" by simp_all
  have d: "d \<le> month_length (leap_year y') (m mod 12)" using assms(3) by (simp add: y'_def)
  have day: "day_of t' = day_from_year y' + k"
    by (simp add: assms(1) make_day_def Let_def y'_def k_def)
  have k: "0 \<le> k" "k < (if leap_year y' then 366 else 365)"
    using month_start_bounds [OF m assms(2) d] by (simp_all add: k_def)
  have y: "getUTCFullYear t' = y'"
    unfolding getUTCFullYear_def day
    by (rule year_from_day_unique) (use k in \<open>auto simp: day_from_year_Suc\<close>)
  moreover have diy: "day_in_year t' = k"
    by (simp add: day_in_year_def y day)
  moreover have mo: "getUTCMonth t' = m mod 12"
    unfolding getUTCMonth_def y diy k_def by (rule month_of_start [OF m assms(2) d])
  ultimately show "getUTCFullYear t' = y + m div 12" "getUTCMonth t' = m mod 12" "getUTCDate t' = d"
    by (simp_all add: y'_def getUTCDate_def k_def)
  show "time_within_day t' = time_within_day t" by (simp add: assms(1))
qed

end
