(* ===== verification/ScheduledTransactions.thy ===== *)
theory ScheduledTransactions
  imports JsResult SqlTable JsDate
begin

text \<open>
  \<open>backend/src/services/scheduledTransactionService.js\<close>: the schedules of an account, the cron jobs
  that turn a due schedule into an unsigned transaction, and the submission of the transaction
  its owner signed. The state is the two tables, the map of running cron jobs and what the
  service sent out: webhook deliveries and transactions handed to Horizon.
\<close>

section \<open>Data\<close>

record schedule =
  sc_owner :: string
  sc_recipient :: string
  sc_amount :: string
  sc_asset :: string
  sc_memo :: "string option"
  sc_frequency :: string
  sc_cron :: string
  sc_start :: string
  sc_next_run :: "int option"
  sc_status :: string
  sc_created :: int

record pending =
  pe_schedule :: string
  pe_owner :: string
  pe_xdr :: string
  pe_status :: string
  pe_hash :: "string option"
  pe_error :: "string option"
  pe_resolved :: "int option"
  pe_created :: int

record tx_spec =
  tx_destination :: string
  tx_asset :: "(string \<times> string) option"
  tx_amount :: string
  tx_memo :: "string option"

record signed_tx =
  stx_source :: string
  stx_body :: string

text \<open>What a webhook is called with: the hook, the payload's event name and schedule, the event type.\<close>

record hook_call =
  hc_hook :: string
  hc_event :: string
  hc_schedule :: string
  hc_execution :: string
  hc_type :: string

text \<open>
  What comes from outside: \<open>new Date(text)\<close>, whose accepted formats the language leaves to the
  implementation, the cron and Stellar libraries, Horizon, and the webhooks registered for an
  account.
\<close>

record sched_env =
  se_date :: "string \<Rightarrow> int option"
  se_cron_valid :: "string \<Rightarrow> bool"
  se_account :: "string \<Rightarrow> thrown option"
  se_encode :: "string \<Rightarrow> tx_spec \<Rightarrow> thrown + string"
  se_from_xdr :: "string \<Rightarrow> string + signed_tx"
  se_submit :: "signed_tx \<Rightarrow> string + string"
  se_hooks :: "string \<Rightarrow> string list"
  se_max :: nat

record sched_db =
  sd_schedules :: "(string, schedule) table"
  sd_pendings :: "(string, pending) table"
  sd_jobs :: "string \<rightharpoonup> string"
  sd_calls :: "hook_call list"
  sd_horizon :: "signed_tx list"

section \<open>Assets, frequencies, dates\<close>

definition normalizeAsset :: "string \<Rightarrow> thrown + string" where
  "normalizeAsset s =
     (if s = [] \<or> s = ''XLM'' then Inr ''XLM''
      else let parts = split_char (CHR '':'') s
           in bnd (ensure (length parts = 2 \<and> parts ! 0 \<noteq> [] \<and> parts ! 1 \<noteq> [])
                (http_error 400 ''Non-XLM asset must be formatted as CODE:ISSUER''))
              (\<lambda>_. Inr s))"

definition toAsset :: "string \<Rightarrow> thrown + (string \<times> string) option" where
  "toAsset s = bnd (normalizeAsset s) (\<lambda>n.
     if n = ''XLM'' then Inr None
     else let parts = split_char (CHR '':'') n in Inr (Some (parts ! 0, parts ! 1)))"

definition frequencyToCron ::
  "sched_env \<Rightarrow> string \<Rightarrow> string \<Rightarrow> string option \<Rightarrow> thrown + string" where
  "frequencyToCron env frequency start expr =
     (if frequency = ''cron'' then
        (case expr of
           None \<Rightarrow> Inl (http_error 400 (''A valid cron_expression is required when frequency is '' @ quoted ''cron''))
         | Some e \<Rightarrow> if e = [] \<or> \<not> se_cron_valid env e
             then Inl (http_error 400 (''A valid cron_expression is required when frequency is '' @ quoted ''cron''))
             else Inr e)
      else case se_date env start of
        None \<Rightarrow> Inl (http_error 400 ''startDate must be a valid date'')
      | Some d \<Rightarrow>
          let minute = show_int (getUTCMinutes d); hour = show_int (getUTCHours d)
          in if frequency = ''daily'' then Inr (minute @ '' '' @ hour @ '' * * *'')
             else if frequency = ''weekly'' then
               Inr (minute @ '' '' @ hour @ '' * * '' @ show_int (getUTCDay d))
             else if frequency = ''monthly'' then
               Inr (minute @ '' '' @ hour @ '' '' @ show_int (getUTCDate d) @ '' * *'')
             else Inl (http_error 400
               (''frequency must be '' @ quoted ''daily'' @ '', '' @ quoted ''weekly'' @ '', ''
                  @ quoted ''monthly'' @ '', or '' @ quoted ''cron'')))"

definition estimateNextRun :: "string \<Rightarrow> int \<Rightarrow> int option" where
  "estimateNextRun frequency t =
     (if frequency = ''daily'' then Some (setUTCDate (getUTCDate t + 1) t)
      else if frequency = ''weekly'' then Some (setUTCDate (getUTCDate t + 7) t)
      else if frequency = ''monthly'' then Some (setUTCMonth (getUTCMonth t + 1) t)
      else None)"

definition buildUnsignedPaymentXDR :: "sched_env \<Rightarrow> schedule \<Rightarrow> thrown + string" where
  "buildUnsignedPaymentXDR env s =
     (case se_account env (sc_owner s) of
        Some e \<Rightarrow> Inl e
      | None \<Rightarrow> bnd (toAsset (sc_asset s)) (\<lambda>a.
          se_encode env (sc_owner s)
            \<lparr>tx_destination = sc_recipient s, tx_asset = a, tx_amount = sc_amount s,
             tx_memo = truthy_text (sc_memo s)\<rparr>))"

text \<open>\<open>stellarService.js\<close>: \<open>/^G[A-Z0-9]{55}$/\<close>.\<close>

definition upper_or_digit :: "char \<Rightarrow> bool" where
  "upper_or_digit c = (let n = of_char c :: nat in (65 \<le> n \<and> n \<le> 90) \<or> (48 \<le> n \<and> n \<le> 57))"

definition public_key_format :: "string \<Rightarrow> bool" where
  "public_key_format k \<longleftrightarrow> length k = 56 \<and> hd k = CHR ''G'' \<and> list_all upper_or_digit (tl k)"

definition validatePublicKey :: "string \<Rightarrow> thrown + unit" where
  "validatePublicKey k =
     ensure (public_key_format k) (http_error 400 ''Invalid Stellar public key format'')"

section \<open>Cron jobs\<close>

definition unregisterCronJob :: "string \<Rightarrow> sched_db \<Rightarrow> sched_db" where
  "unregisterCronJob i d = d\<lparr>sd_jobs := (sd_jobs d)(i := None)\<rparr>"

definition registerCronJob :: "string \<Rightarrow> schedule \<Rightarrow> sched_db \<Rightarrow> sched_db" where
  "registerCronJob i s d =
     (let d' = unregisterCronJob i d in d'\<lparr>sd_jobs := (sd_jobs d')(i \<mapsto> sc_cron s)\<rparr>)"

definition loadActiveSchedules :: "sched_db \<Rightarrow> sched_db" where
  "loadActiveSchedules d =
     foldl (\<lambda>d (i, s). registerCronJob i s d) d
       (tb_select (\<lambda>_ s. sc_status s = ''active'') (sd_schedules d))"

definition notifyOwner :: "sched_env \<Rightarrow> string \<Rightarrow> schedule \<Rightarrow> string \<Rightarrow> sched_db \<Rightarrow> sched_db" where
  "notifyOwner env i s pid d = d\<lparr>sd_calls := sd_calls d @
     map (\<lambda>h. \<lparr>hc_hook = h, hc_event = ''scheduled_transaction.pending_signature'',
       hc_schedule = i, hc_execution = pid,
       hc_type = ''scheduled_transaction.pending_signature''\<rparr>) (se_hooks env (sc_owner s))\<rparr>"

text \<open>
  A cron job fires: the tick reads the clock at \<open>now\<close>, \<open>pid\<close> is the fresh id. A failure, an id
  that is taken included, is logged and leaves the tables as they are at that point.
\<close>

definition executeSchedule ::
  "sched_env \<Rightarrow> int \<Rightarrow> string \<Rightarrow> string \<Rightarrow> sched_db \<Rightarrow> sched_db" where
  "executeSchedule env now pid i d =
     (case tb_row (sd_schedules d) i of
        None \<Rightarrow> d
      | Some s \<Rightarrow>
          if sc_status s \<noteq> ''active'' then d
          else case buildUnsignedPaymentXDR env s of
            Inl e \<Rightarrow> d
          | Inr xdr \<Rightarrow>
              (case tb_insert pid \<lparr>pe_schedule = i, pe_owner = sc_owner s, pe_xdr = xdr,
                     pe_status = ''awaiting_signature'', pe_hash = None, pe_error = None,
                     pe_resolved = None, pe_created = now\<rparr> (sd_pendings d) of
                 None \<Rightarrow> d
               | Some ps \<Rightarrow>
                   let d' = notifyOwner env i s pid (d\<lparr>sd_pendings := ps\<rparr>)
                   in d'\<lparr>sd_schedules := tb_set i
                        (\<lambda>r. r\<lparr>sc_next_run := estimateNextRun (sc_frequency s) now\<rparr>)
                        (sd_schedules d')\<rparr>))"

section \<open>Schedules\<close>

record schedule_body =
  bd_owner :: string
  bd_recipient :: string
  bd_amount :: string
  bd_asset :: "string option"
  bd_memo :: "string option"
  bd_frequency :: string
  bd_cron :: "string option"
  bd_start :: string

definition active_of :: "string \<Rightarrow> sched_db \<Rightarrow> (string \<times> schedule) list" where
  "active_of owner d =
     tb_select (\<lambda>_ s. sc_owner s = owner \<and> sc_status s = ''active'') (sd_schedules d)"

text \<open>\<open>i\<close> is the fresh id, \<open>now\<close> the database's clock; a missing field of the body is empty.\<close>

definition first_run :: "sched_env \<Rightarrow> schedule_body \<Rightarrow> int option" where
  "first_run env b =
     (case se_date env (bd_start b) of
        None \<Rightarrow> None
      | Some t \<Rightarrow> (case estimateNextRun (bd_frequency b) t of None \<Rightarrow> Some t | Some n \<Rightarrow> Some n))"

definition createSchedule ::
  "sched_env \<Rightarrow> int \<Rightarrow> string \<Rightarrow> schedule_body \<Rightarrow> sched_db \<Rightarrow> thrown + schedule \<times> sched_db" where
  "createSchedule env now i b d =
     bnd (normalizeAsset (overlay (bd_asset b) ''XLM'')) (\<lambda>asset.
     bnd (ensure (bd_owner b \<noteq> [] \<and> bd_recipient b \<noteq> [] \<and> bd_amount b \<noteq> []
            \<and> bd_frequency b \<noteq> [] \<and> bd_start b \<noteq> [])
          (http_error 400 ''ownerPk, recipient, amount, frequency, and startDate are required'')) (\<lambda>_.
     bnd (validatePublicKey (bd_owner b)) (\<lambda>_.
     bnd (validatePublicKey (bd_recipient b)) (\<lambda>_.
     bnd (ensure (length (active_of (bd_owner b) d) < se_max env)
          (http_error 400 (''Maximum of '' @ show_nat (se_max env)
             @ '' active schedules per account reached''))) (\<lambda>_.
     bnd (frequencyToCron env (bd_frequency b) (bd_start b) (bd_cron b)) (\<lambda>cron.
       let s = \<lparr>sc_owner = bd_owner b, sc_recipient = bd_recipient b, sc_amount = bd_amount b,
                sc_asset = asset, sc_memo = truthy_text (bd_memo b),
                sc_frequency = bd_frequency b, sc_cron = cron, sc_start = bd_start b,
                sc_next_run = first_run env b, sc_status = ''active'', sc_created = now\<rparr>
       in case tb_insert i s (sd_schedules d) of
            None \<Rightarrow> Inl (plain_error ''UNIQUE constraint failed'')
          | Some t \<Rightarrow> Inr (s, registerCronJob i s (d\<lparr>sd_schedules := t\<rparr>))))))))"

definition listSchedules :: "string \<Rightarrow> sched_db \<Rightarrow> thrown + (string \<times> schedule) list" where
  "listSchedules owner d = bnd (validatePublicKey owner) (\<lambda>_.
     Inr (sort_key (\<lambda>(i, s). - sc_created s)
       (tb_select (\<lambda>_ s. sc_owner s = owner) (sd_schedules d))))"

text \<open>The columns a caller may name in an update, by their database names, and \<open>cronExpression\<close>.\<close>

record schedule_update =
  up_recipient :: "string option"
  up_amount :: "string option"
  up_asset :: "string option"
  up_memo :: "string option"
  up_frequency :: "string option"
  up_cronExpression :: "string option"
  up_cron :: "string option"
  up_start :: "string option"
  up_status :: "string option"

definition merged_asset :: "schedule_update \<Rightarrow> schedule \<Rightarrow> thrown + string" where
  "merged_asset u s =
     (case truthy_text (up_asset u) of
        None \<Rightarrow> Inr (overlay (up_asset u) (sc_asset s))
      | Some a \<Rightarrow> normalizeAsset a)"

definition merged_cron :: "sched_env \<Rightarrow> schedule_update \<Rightarrow> schedule \<Rightarrow> thrown + string" where
  "merged_cron env u s =
     (if truthy_text (up_frequency u) \<noteq> None \<or> truthy_text (up_cronExpression u) \<noteq> None
      then frequencyToCron env (overlay (up_frequency u) (sc_frequency s))
        (overlay (up_start u) (sc_start s))
        (Some (overlay (truthy_text (up_cronExpression u)) (overlay (up_cron u) (sc_cron s))))
      else Inr (sc_cron s))"

definition updateSchedule ::
  "sched_env \<Rightarrow> string \<Rightarrow> schedule_update \<Rightarrow> sched_db \<Rightarrow> thrown + schedule \<times> sched_db" where
  "updateSchedule env i u d =
     (case tb_row (sd_schedules d) i of
        None \<Rightarrow> Inl (http_error 404 ''Scheduled transaction not found'')
      | Some s \<Rightarrow>
          bnd (merged_asset u s) (\<lambda>asset.
          bnd (merged_cron env u s) (\<lambda>cron.
            let s' = s\<lparr>sc_recipient := overlay (up_recipient u) (sc_recipient s),
                       sc_amount := overlay (up_amount u) (sc_amount s),
                       sc_asset := asset,
                       sc_memo := (case up_memo u of None \<Rightarrow> sc_memo s
                                   | Some m \<Rightarrow> truthy_text (Some m)),
                       sc_frequency := overlay (up_frequency u) (sc_frequency s),
                       sc_cron := cron,
                       sc_status := overlay (up_status u) (sc_status s)\<rparr>;
                d' = d\<lparr>sd_schedules := tb_set i (\<lambda>_. s') (sd_schedules d)\<rparr>
            in Inr (s', if sc_status s' = ''active'' then registerCronJob i s' d'
                        else unregisterCronJob i d'))))"

text \<open>Deleting a schedule takes its pending executions along (the foreign key cascades).\<close>

definition deleteSchedule :: "string \<Rightarrow> sched_db \<Rightarrow> bool \<times> sched_db" where
  "deleteSchedule i d =
     (case tb_row (sd_schedules d) i of
        None \<Rightarrow> (False, d)
      | Some s \<Rightarrow>
          let d' = unregisterCronJob i d
          in (True, d'\<lparr>sd_schedules := snd (tb_delete (\<lambda>k _. k = i) (sd_schedules d')),
                       sd_pendings := snd (tb_delete (\<lambda>_ p. pe_schedule p = i) (sd_pendings d'))\<rparr>))"

definition getScheduleById :: "string \<Rightarrow> sched_db \<Rightarrow> schedule option" where
  "getScheduleById i d = tb_row (sd_schedules d) i"

section \<open>Pending executions\<close>

definition getPendingExecutionById :: "string \<Rightarrow> sched_db \<Rightarrow> pending option" where
  "getPendingExecutionById i d = tb_row (sd_pendings d) i"

definition listPendingExecutions ::
  "string \<Rightarrow> sched_db \<Rightarrow> thrown + (string \<times> pending \<times> schedule) list" where
  "listPendingExecutions owner d = bnd (validatePublicKey owner) (\<lambda>_.
     Inr (sort_key (\<lambda>(i, p, s). - pe_created p)
       (List.map_filter
         (\<lambda>(i, p). map_option (\<lambda>s. (i, p, s)) (tb_row (sd_schedules d) (pe_schedule p)))
         (tb_select (\<lambda>_ p. pe_owner p = owner \<and> pe_status p = ''awaiting_signature'')
           (sd_pendings d)))))"

text \<open>
  The submission up to the claim (\<open>claimPending\<close>) and after it. The claim is one guarded update;
  between it and the resolution other requests may run, so the two halves are separate steps.
\<close>

definition checkPending ::
  "sched_env \<Rightarrow> string \<Rightarrow> string \<Rightarrow> sched_db \<Rightarrow> thrown + signed_tx" where
  "checkPending env i xdr d =
     (case tb_row (sd_pendings d) i of
        None \<Rightarrow> Inl (http_error 404 ''Pending execution not found'')
      | Some p \<Rightarrow>
          bnd (ensure (pe_status p = ''awaiting_signature'')
               (http_error 409 (''Pending execution is already '' @ pe_status p))) (\<lambda>_.
          case se_from_xdr env xdr of
            Inl msg \<Rightarrow> Inl (http_error 400 (''Invalid signed XDR: '' @ msg))
          | Inr tx \<Rightarrow>
              bnd (ensure (stx_source tx = pe_owner p) (http_error 403
                ''Signed XDR source account must match the pending execution owner'')) (\<lambda>_.
              Inr tx)))"

definition claimPending :: "string \<Rightarrow> sched_db \<Rightarrow> thrown + sched_db" where
  "claimPending i d =
     (let (n, ps) = tb_update (\<lambda>k p. k = i \<and> pe_status p = ''awaiting_signature'')
            (\<lambda>p. p\<lparr>pe_status := ''submitting''\<rparr>) (sd_pendings d)
      in if n = 0
         then Inl (http_error 409 (''Pending execution is already '' @
           (case tb_row (sd_pendings d) i of None \<Rightarrow> ''resolved'' | Some p \<Rightarrow> pe_status p)))
         else Inr (d\<lparr>sd_pendings := ps\<rparr>))"

definition resolvePending ::
  "sched_env \<Rightarrow> int \<Rightarrow> string \<Rightarrow> signed_tx \<Rightarrow> sched_db \<Rightarrow> (thrown + string) \<times> sched_db" where
  "resolvePending env now i tx d =
     (let d' = d\<lparr>sd_horizon := sd_horizon d @ [tx]\<rparr>
      in case se_submit env tx of
           Inr hash \<Rightarrow>
             (Inr hash, d'\<lparr>sd_pendings := tb_set i
                (\<lambda>p. p\<lparr>pe_status := ''submitted'', pe_hash := Some hash, pe_resolved := Some now\<rparr>)
                (sd_pendings d')\<rparr>)
         | Inl msg \<Rightarrow>
             (Inl (http_error 400 (''Submission failed: '' @ msg)),
              d'\<lparr>sd_pendings := snd (tb_update (\<lambda>k p. k = i \<and> pe_status p = ''submitting'')
                (\<lambda>p. p\<lparr>pe_status := ''failed'', pe_error := Some msg, pe_resolved := Some now\<rparr>)
                (sd_pendings d'))\<rparr>))"

definition submitPendingExecution ::
  "sched_env \<Rightarrow> int \<Rightarrow> string \<Rightarrow> string \<Rightarrow> sched_db \<Rightarrow> (thrown + string) \<times> sched_db" where
  "submitPendingExecution env now i xdr d =
     (case checkPending env i xdr d of
        Inl e \<Rightarrow> (Inl e, d)
      | Inr tx \<Rightarrow>
          (case claimPending i d of
             Inl e \<Rightarrow> (Inl e, d)
           | Inr d' \<Rightarrow> resolvePending env now i tx d'))"


section \<open>Next runs\<close>

text \<open>
  A monthly schedule whose day every month has keeps its day and its time of day and moves to the
  next month; daily and weekly schedules move by whole days.
\<close>

lemma next_run_days:
  "estimateNextRun ''daily'' t = Some (t + msPerDay)"
  "estimateNextRun ''weekly'' t = Some (t + 7 * msPerDay)"
  using setUTCDate_shift [of t 1] setUTCDate_shift [of t 7] by (simp_all add: estimateNextRun_def)

lemma month_length_ge28: "28 \<le> month_length l m"
  by (simp add: month_length_def)

text \<open>For a date that every month has (a day up to the 28th), the next run of a monthly schedule
  is in the following month, the year carried over after December, on the same day of the month
  and at the same time of day.\<close>

lemma monthly_next_run:
  assumes "getUTCDate t \<le> 28"
  shows "\<exists>t'. estimateNextRun ''monthly'' t = Some t' \<and>
    getUTCDate t' = getUTCDate t \<and> time_within_day t' = time_within_day t \<and>
    12 * getUTCFullYear t' + getUTCMonth t' = 12 * getUTCFullYear t + getUTCMonth t + 1"
proof -
  define m where "m = getUTCMonth t + 1"
  define t' where "t' = setUTCMonth m t"
  have eq: "t' = make_day (getUTCFullYear t) m (getUTCDate t) * msPerDay + time_within_day t"
    by (simp add: t'_def setUTCMonth_def)
  have len: "getUTCDate t \<le> month_length (leap_year (getUTCFullYear t + m div 12)) (m mod 12)"
    using assms month_length_ge28 order_trans by blast
  note civil = civil_roundtrip [OF eq getUTCDate_ge1 len]
  have "12 * (m div 12) + m mod 12 = m" by simp
  with civil have "12 * getUTCFullYear t' + getUTCMonth t' = 12 * getUTCFullYear t + m"
    by (simp add: algebra_simps)
  with civil show ?thesis
    by (intro exI [of _ t']) (simp add: estimateNextRun_def t'_def m_def)
qed

text \<open>15 December 2024, 10:30.\<close>

lemma monthly_next_run_example:
  "\<exists>t'. estimateNextRun ''monthly'' 1734258600000 = Some t' \<and> getUTCDate t' = getUTCDate 1734258600000 \<and>
    time_within_day t' = time_within_day 1734258600000 \<and>
    12 * getUTCFullYear t' + getUTCMonth t' =
      12 * getUTCFullYear 1734258600000 + getUTCMonth 1734258600000 + 1"
  by (rule monthly_next_run [of 1734258600000]) code_simp

text \<open>Without that bound a month is skipped: 31 January 2025 is followed by 3 March.\<close>

lemma month_end_skips:
  "let t = 1738315800000
   in getUTCMonth t = 0 \<and> getUTCDate t = 31 \<and>
      map_option getUTCMonth (estimateNextRun ''monthly'' t) = Some 2 \<and>
      map_option getUTCDate (estimateNextRun ''monthly'' t) = Some 3"
  by code_simp

section \<open>The invariant\<close>

text \<open>
  Keys are unique; the running cron jobs are those of the active schedules, with their expressions,
  and of schedules the executor has failed; every pending execution belongs to a stored schedule of its owner and its status is
  one of the four the service writes.
\<close>

definition pending_statuses :: "string set" where
  "pending_statuses = {''awaiting_signature'', ''submitting'', ''submitted'', ''failed''}"

definition job_of :: "schedule option \<Rightarrow> string option" where
  "job_of r = (case r of Some s \<Rightarrow> if sc_status s = ''active'' then Some (sc_cron s) else None
                       | None \<Rightarrow> None)"

definition pendings_ok :: "sched_db \<Rightarrow> bool" where
  "pendings_ok d \<longleftrightarrow> (\<forall>i p. tb_row (sd_pendings d) i = Some p \<longrightarrow>
     pe_status p \<in> pending_statuses \<and>
     (\<exists>s. tb_row (sd_schedules d) (pe_schedule p) = Some s \<and> sc_owner s = pe_owner p))"

definition left_running :: "string option \<Rightarrow> schedule option \<Rightarrow> bool" where
  "left_running job r \<longleftrightarrow> (\<exists>s. r = Some s \<and> sc_status s = ''failed'' \<and> job = Some (sc_cron s))"

definition job_ok :: "string option \<Rightarrow> schedule option \<Rightarrow> bool" where
  "job_ok job r \<longleftrightarrow> job = job_of r \<or> left_running job r"

definition sched_inv :: "sched_db \<Rightarrow> bool" where
  "sched_inv d \<longleftrightarrow> tb_wf (sd_schedules d) \<and> tb_wf (sd_pendings d) \<and>
     (\<forall>i. job_ok (sd_jobs d i) (tb_row (sd_schedules d) i)) \<and> pendings_ok d"

lemma job_ok_simps [simp]:
  "job_ok None None" "sc_status s = ''active'' \<Longrightarrow> job_ok job (Some s) \<longleftrightarrow> job = Some (sc_cron s)"
  "sc_status s \<noteq> ''active'' \<Longrightarrow> job_ok None (Some s)"
  by (auto simp: job_ok_def job_of_def left_running_def)

lemma job_of_simps [simp]:
  "job_of None = None"
  "job_of (Some s) = (if sc_status s = ''active'' then Some (sc_cron s) else None)"
  by (simp_all add: job_of_def)

lemma register_fields [simp]:
  "sd_jobs (registerCronJob i s d) = (sd_jobs d)(i \<mapsto> sc_cron s)"
  "sd_schedules (registerCronJob i s d) = sd_schedules d"
  "sd_pendings (registerCronJob i s d) = sd_pendings d"
  "sd_jobs (unregisterCronJob i d) = (sd_jobs d)(i := None)"
  "sd_schedules (unregisterCronJob i d) = sd_schedules d"
  "sd_pendings (unregisterCronJob i d) = sd_pendings d"
  by (simp_all add: registerCronJob_def unregisterCronJob_def Let_def)

lemma pendings_okD:
  "pendings_ok d \<Longrightarrow> tb_row (sd_pendings d) i = Some p \<Longrightarrow> pe_status p \<in> pending_statuses"
  "pendings_ok d \<Longrightarrow> tb_row (sd_pendings d) i = Some p \<Longrightarrow>
    \<exists>s. tb_row (sd_schedules d) (pe_schedule p) = Some s \<and> sc_owner s = pe_owner p"
  unfolding pendings_ok_def by blast+

text \<open>Writes to schedules that keep their owners keep the references.\<close>

lemma pendings_ok_owner:
  assumes "pendings_ok d" and "sd_pendings d' = sd_pendings d"
    and "\<And>i s. tb_row (sd_schedules d) i = Some s \<Longrightarrow>
      \<exists>s'. tb_row (sd_schedules d') i = Some s' \<and> sc_owner s' = sc_owner s"
  shows "pendings_ok d'"
  using assms unfolding pendings_ok_def by metis

text \<open>Writes to pendings that keep owner and schedule.\<close>

lemma pendings_ok_status:
  assumes "pendings_ok d" and "sd_schedules d' = sd_schedules d"
    and "\<And>i p'. tb_row (sd_pendings d') i = Some p' \<Longrightarrow>
      \<exists>p. tb_row (sd_pendings d) i = Some p \<and> pe_owner p' = pe_owner p \<and>
        pe_schedule p' = pe_schedule p \<and> pe_status p' \<in> insert (pe_status p) pending_statuses"
  shows "pendings_ok d'"
  unfolding pendings_ok_def
proof (intro allI impI)
  fix i p' assume "tb_row (sd_pendings d') i = Some p'"
  then obtain p where "tb_row (sd_pendings d) i = Some p" "pe_owner p' = pe_owner p"
    "pe_schedule p' = pe_schedule p" "pe_status p' \<in> insert (pe_status p) pending_statuses"
    using assms(3) by blast
  with pendings_okD [OF assms(1)] assms(2)
  show "pe_status p' \<in> pending_statuses \<and>
      (\<exists>s. tb_row (sd_schedules d') (pe_schedule p') = Some s \<and> sc_owner s = pe_owner p')"
    by auto
qed

lemma createSchedule_Inr:
  assumes "createSchedule env now i b d = Inr (s, d')"
  shows "\<exists>t. tb_insert i s (sd_schedules d) = Some t \<and>
      d' = registerCronJob i s (d\<lparr>sd_schedules := t\<rparr>)"
    and "sc_status s = ''active''" and "sc_owner s = bd_owner b"
    and "length (active_of (bd_owner b) d) < se_max env"
  using assms by (simp_all only: createSchedule_def ok_steps Let_def split: option.splits) auto

lemma create_inv:
  assumes inv: "sched_inv d" and run: "createSchedule env now i b d = Inr (s, d')"
  shows "sched_inv d'"
proof -
  obtain t where t: "tb_insert i s (sd_schedules d) = Some t"
    and d': "d' = registerCronJob i s (d\<lparr>sd_schedules := t\<rparr>)"
    using createSchedule_Inr(1) [OF run] by blast
  note act = createSchedule_Inr(2) [OF run]
  have row: "tb_row t = (tb_row (sd_schedules d))(i \<mapsto> s)" by (rule db.row_ins [OF t])
  note new = tb_insert_fresh [OF t]
  have "pendings_ok d'"
    by (rule pendings_ok_owner [of d]) (use inv new in \<open>auto simp: sched_inv_def d' row\<close>)
  then show ?thesis
    using inv db.wf_ins [OF _ t] by (simp add: sched_inv_def d' row act)
qed

lemma updateSchedule_Inr:
  assumes "updateSchedule env i u d = Inr (s', d')"
  shows "\<exists>s. tb_row (sd_schedules d) i = Some s \<and> sc_owner s' = sc_owner s"
    and "d' = (if sc_status s' = ''active'' then registerCronJob i s' else unregisterCronJob i)
      (d\<lparr>sd_schedules := tb_set i (\<lambda>_. s') (sd_schedules d)\<rparr>)"
  using assms by (auto simp: updateSchedule_def ok_steps Let_def split: option.splits)

lemma update_inv:
  assumes inv: "sched_inv d" and run: "updateSchedule env i u d = Inr (s', d')"
  shows "sched_inv d'"
proof -
  obtain s where s: "tb_row (sd_schedules d) i = Some s" "sc_owner s' = sc_owner s"
    using updateSchedule_Inr(1) [OF run] by blast
  note d' = updateSchedule_Inr(2) [OF run]
  have row: "tb_row (sd_schedules d') = (tb_row (sd_schedules d))(i \<mapsto> s')"
    using s(1) by (auto simp: d' tb_row_set)
  have "sd_pendings d' = sd_pendings d" by (simp add: d')
  then have "pendings_ok d'"
    by (rule pendings_ok_owner [of d, rotated]) (use inv s in \<open>auto simp: sched_inv_def row\<close>)
  moreover have "tb_wf (sd_schedules d')" "tb_wf (sd_pendings d')"
    using inv by (simp_all add: sched_inv_def d')
  moreover have "sd_jobs d' = (sd_jobs d)(i := job_of (Some s'))" "job_ok (job_of (Some s')) (Some s')"
    by (simp_all add: d' job_ok_def)
  ultimately show ?thesis
    using inv by (simp add: sched_inv_def row)
qed

lemma delete_inv:
  assumes inv: "sched_inv d" and run: "deleteSchedule i d = (r, d')"
  shows "sched_inv d'"
proof (cases "tb_row (sd_schedules d) i")
  case None
  with run inv show ?thesis by (simp add: deleteSchedule_def)
next
  case (Some s)
  have wf: "tb_wf (sd_schedules d)" "tb_wf (sd_pendings d)" using inv by (simp_all add: sched_inv_def)
  have d': "sd_jobs d' = (sd_jobs d)(i := None)"
    "sd_schedules d' = snd (tb_delete (\<lambda>k _. k = i) (sd_schedules d))"
    "sd_pendings d' = snd (tb_delete (\<lambda>_ p. pe_schedule p = i) (sd_pendings d))"
    using run Some by (auto simp: deleteSchedule_def)
  have row: "tb_row (sd_schedules d') = (tb_row (sd_schedules d))(i := None)"
    by (auto simp: fun_eq_iff d' db.row_del [OF wf(1)] split: option.splits)
  have prow: "tb_row (sd_pendings d') k = Some p \<longleftrightarrow>
      tb_row (sd_pendings d) k = Some p \<and> pe_schedule p \<noteq> i" for k p
    by (auto simp: d' db.row_del [OF wf(2)] split: option.splits if_splits)
  have "pendings_ok d'"
    using inv by (auto simp: pendings_ok_def sched_inv_def row prow)
  moreover have "tb_wf (sd_schedules d')" "tb_wf (sd_pendings d')"
    using wf by (simp_all add: d')
  ultimately show ?thesis using inv by (simp add: sched_inv_def row d'(1))
qed

lemma execute_inv:
  assumes inv: "sched_inv d"
  shows "sched_inv (executeSchedule env now pid i d)"
proof -
  have "sched_inv d'" if new: "tb_row (sd_schedules d) i = Some s" "sc_status s = ''active''"
    and ins: "tb_insert pid p (sd_pendings d) = Some ps"
    and p: "pe_schedule p = i" "pe_owner p = sc_owner s" "pe_status p = ''awaiting_signature''"
    and d': "sd_schedules d' = tb_set i (\<lambda>r. r\<lparr>sc_next_run := n\<rparr>) (sd_schedules d)"
      "sd_pendings d' = ps" "sd_jobs d' = sd_jobs d" for s p ps n d'
  proof -
    have row: "tb_row (sd_schedules d') = (tb_row (sd_schedules d))(i \<mapsto> s\<lparr>sc_next_run := n\<rparr>)"
      by (auto simp: d' tb_row_set new)
    have prow: "tb_row ps = (tb_row (sd_pendings d))(pid \<mapsto> p)" by (rule db.row_ins [OF ins])
    have ok: "pendings_ok d" using inv by (simp add: sched_inv_def)
    have "pendings_ok d'"
      unfolding pendings_ok_def row d'(2) prow
    proof (intro allI impI)
      fix k q assume q: "((tb_row (sd_pendings d))(pid \<mapsto> p)) k = Some q"
      show "pe_status q \<in> pending_statuses \<and> (\<exists>r. ((tb_row (sd_schedules d))
          (i \<mapsto> s\<lparr>sc_next_run := n\<rparr>)) (pe_schedule q) = Some r \<and> sc_owner r = pe_owner q)"
      proof (cases "k = pid")
        case True
        with q p show ?thesis by (auto simp: pending_statuses_def)
      next
        case False
        with q have "tb_row (sd_pendings d) k = Some q" by simp
        from pendings_okD [OF ok this] new show ?thesis by auto
      qed
    qed
    moreover have "tb_wf (sd_schedules d')" "tb_wf (sd_pendings d')"
      using inv db.wf_ins [OF _ ins] by (simp_all add: sched_inv_def d')
    moreover have "job_ok (sd_jobs d i) (Some s)" using inv new(1) unfolding sched_inv_def by metis
    ultimately show ?thesis
      using inv new by (simp add: sched_inv_def row d'(3))
  qed
  then show ?thesis
    using inv by (auto simp: executeSchedule_def notifyOwner_def Let_def
        split: option.splits sum.splits)
qed

lemma claim_inv:
  assumes inv: "sched_inv d" and run: "claimPending i d = Inr d'"
  shows "sched_inv d'"
proof -
  have d': "d' = d\<lparr>sd_pendings := snd (tb_update (\<lambda>k p. k = i \<and> pe_status p = ''awaiting_signature'')
      (\<lambda>p. p\<lparr>pe_status := ''submitting''\<rparr>) (sd_pendings d))\<rparr>"
    using run by (auto simp: claimPending_def Let_def split: prod.splits if_splits)
  have "pendings_ok d'"
    by (rule pendings_ok_status [of d]) (use inv in \<open>auto simp: sched_inv_def d' db.row_upd pending_statuses_def\<close>)
  then show ?thesis using inv by (simp add: sched_inv_def d')
qed

lemma resolve_inv:
  assumes inv: "sched_inv d" and run: "resolvePending env now i tx d = (r, d')"
  shows "sched_inv d'"
proof -
  obtain P f where d': "sd_pendings d' = snd (tb_update P f (sd_pendings d))"
      "sd_schedules d' = sd_schedules d" "sd_jobs d' = sd_jobs d"
    and f: "\<And>p. pe_owner (f p) = pe_owner p \<and> pe_schedule (f p) = pe_schedule p \<and>
      pe_status (f p) \<in> pending_statuses"
  proof (cases "se_submit env tx")
    case (Inl msg)
    show ?thesis
      by (rule that [of "\<lambda>k p. k = i \<and> pe_status p = ''submitting''"
          "\<lambda>p. p\<lparr>pe_status := ''failed'', pe_error := Some msg, pe_resolved := Some now\<rparr>"])
        (use run Inl in \<open>auto simp: resolvePending_def pending_statuses_def\<close>)
  next
    case (Inr hash)
    show ?thesis
      by (rule that [of "\<lambda>k _. k = i"
          "\<lambda>p. p\<lparr>pe_status := ''submitted'', pe_hash := Some hash, pe_resolved := Some now\<rparr>"])
        (use run Inr in \<open>auto simp: resolvePending_def pending_statuses_def\<close>)
  qed
  have "pendings_ok d'"
    by (rule pendings_ok_status [of d]) (use inv f in \<open>auto simp: sched_inv_def d' db.row_upd\<close>)
  then show ?thesis using inv by (simp add: sched_inv_def d')
qed

text \<open>After a restart no job runs; loading the active schedules brings back exactly theirs.\<close>

lemma load_jobs:
  "sd_jobs (foldl (\<lambda>d (i, s). registerCronJob i s d) d xs) =
     sd_jobs d ++ map_of (rev (map (\<lambda>(i, s). (i, sc_cron s)) xs))"
  "sd_schedules (foldl (\<lambda>d (i, s). registerCronJob i s d) d xs) = sd_schedules d"
  "sd_pendings (foldl (\<lambda>d (i, s). registerCronJob i s d) d xs) = sd_pendings d"
  by (induction xs arbitrary: d) (auto simp: fun_upd_def map_add_def fun_eq_iff split: option.splits)

lemma restart_restores_jobs:
  assumes "sched_inv d"
  shows "sched_inv (loadActiveSchedules (d\<lparr>sd_jobs := Map.empty\<rparr>))"
proof -
  let ?xs = "tb_select (\<lambda>_ s. sc_status s = ''active'') (sd_schedules d)"
  let ?js = "map (\<lambda>(i, s). (i, sc_cron s)) ?xs"
  have wf: "tb_wf (sd_schedules d)" using assms by (simp add: sched_inv_def)
  have keys: "distinct (map fst ?js)"
    using db.sel_distinct [OF wf] by (simp add: comp_def split_beta)
  have "map_of (rev ?js) i = job_of (tb_row (sd_schedules d) i)" for i
  proof (cases "job_of (tb_row (sd_schedules d) i)")
    case None
    then have "i \<notin> fst ` set ?js"
      using db.in_sel [OF wf] by (auto simp: job_of_def split: option.splits if_splits)
    then show ?thesis by (simp add: None map_of_eq_None_iff)
  next
    case (Some c)
    then obtain s where "tb_row (sd_schedules d) i = Some s" "sc_status s = ''active''" "c = sc_cron s"
      by (auto simp: job_of_def split: option.splits if_splits)
    then have "(i, c) \<in> set ?js"
      using db.in_sel [OF wf, of i s "\<lambda>_ s. sc_status s = ''active''"] by force
    then show ?thesis using keys by (simp add: Some rev_map [symmetric])
  qed
  then show ?thesis
    using assms by (simp add: sched_inv_def loadActiveSchedules_def load_jobs pendings_ok_def job_ok_def)
qed

text \<open>
  What \<open>backend/src/services/scheduledExecutor.js\<close> writes into the table of schedules: the status of a
  schedule whose execution has failed for good, without touching its cron job, and the next run of
  one that was executed.
\<close>

definition mark_failed :: "string \<Rightarrow> sched_db \<Rightarrow> sched_db" where
  "mark_failed i d = d\<lparr>sd_schedules := tb_set i (\<lambda>s. s\<lparr>sc_status := ''failed''\<rparr>) (sd_schedules d)\<rparr>"

definition set_next_run :: "int \<Rightarrow> string \<Rightarrow> sched_db \<Rightarrow> sched_db" where
  "set_next_run t i d = d\<lparr>sd_schedules := tb_set i (\<lambda>s. s\<lparr>sc_next_run := Some t\<rparr>) (sd_schedules d)\<rparr>"

lemma set_inv:
  assumes inv: "sched_inv d" and f: "\<And>s. sc_owner (f s) = sc_owner s"
    and job: "\<And>s job. job_ok job (Some s) \<Longrightarrow> job_ok job (Some (f s))"
  shows "sched_inv (d\<lparr>sd_schedules := tb_set i f (sd_schedules d)\<rparr>)"
proof -
  let ?d = "d\<lparr>sd_schedules := tb_set i f (sd_schedules d)\<rparr>"
  have row: "tb_row (sd_schedules ?d) k = (if k = i then map_option f (tb_row (sd_schedules d) i) else tb_row (sd_schedules d) k)" for k
    by (simp add: tb_row_set)
  have "pendings_ok ?d"
    by (rule pendings_ok_owner [of d]) (use inv f in \<open>auto simp: sched_inv_def tb_row_set\<close>)
  moreover have "job_ok (sd_jobs d k) (tb_row (sd_schedules ?d) k)" for k
  proof -
    have "job_ok (sd_jobs d k) (tb_row (sd_schedules d) k)" using inv unfolding sched_inv_def by blast
    then show ?thesis using job unfolding row by (cases "tb_row (sd_schedules d) i") auto
  qed
  ultimately show ?thesis using inv by (simp add: sched_inv_def)
qed

lemma fail_inv: "sched_inv d \<Longrightarrow> sched_inv (mark_failed i d)"
  unfolding mark_failed_def by (rule set_inv) (auto simp: job_ok_def job_of_def left_running_def split: if_splits)

lemma advance_inv: "sched_inv d \<Longrightarrow> sched_inv (set_next_run t i d)"
  unfolding set_next_run_def by (rule set_inv) (auto simp: job_ok_def left_running_def split: if_splits)

lemma executor_pendings [simp]:
  "sd_pendings (mark_failed i d) = sd_pendings d" "sd_pendings (set_next_run t i d) = sd_pendings d"
  "sd_pendings (loadActiveSchedules d) = sd_pendings d"
  by (simp_all add: mark_failed_def set_next_run_def load_jobs loadActiveSchedules_def split: option.split)

section \<open>Requests that interleave\<close>

text \<open>
  Every call of the service is one step but for the submission, whose check, claim and resolution
  are separate requests' steps. The executor's writes to schedules and a restart of the server, which
  drops all requests and jobs and loads the active schedules, are steps too. \<open>sw_owner\<close> records whom each pending execution was made for and
  \<open>sw_log\<close> which executions were handed to Horizon with which transaction; the ids of pending
  executions are fresh.
\<close>

datatype request = NoRequest | Checked string signed_tx | Claimed string signed_tx

record sworld =
  sw_db :: sched_db
  sw_requests :: "nat \<Rightarrow> request"
  sw_owner :: "string \<rightharpoonup> string"
  sw_log :: "(string \<times> signed_tx) list"

abbreviation with_request :: "nat \<Rightarrow> request \<Rightarrow> sworld \<Rightarrow> sworld" where
  "with_request r q w \<equiv> w\<lparr>sw_requests := (sw_requests w)(r := q)\<rparr>"

inductive sched_step :: "sched_env \<Rightarrow> sworld \<Rightarrow> sworld \<Rightarrow> bool" for env where
  create: "createSchedule env now i b (sw_db w) = Inr (s, d') \<Longrightarrow>
     sched_step env w (w\<lparr>sw_db := d'\<rparr>)"
| update: "updateSchedule env i u (sw_db w) = Inr (s, d') \<Longrightarrow>
     sched_step env w (w\<lparr>sw_db := d'\<rparr>)"
| delete: "deleteSchedule i (sw_db w) = (b, d') \<Longrightarrow> sched_step env w (w\<lparr>sw_db := d'\<rparr>)"
| fire: "sw_owner w pid = None \<Longrightarrow> tb_row (sd_schedules (sw_db w)) i = Some s \<Longrightarrow>
     sched_step env w (w\<lparr>sw_db := executeSchedule env now pid i (sw_db w),
       sw_owner := (sw_owner w)(pid \<mapsto> sc_owner s)\<rparr>)"
| check: "sw_requests w r = NoRequest \<Longrightarrow> checkPending env i xdr (sw_db w) = Inr tx \<Longrightarrow>
     sched_step env w (with_request r (Checked i tx) w)"
| claim: "sw_requests w r = Checked i tx \<Longrightarrow> claimPending i (sw_db w) = Inr d' \<Longrightarrow>
     sched_step env w (with_request r (Claimed i tx) (w\<lparr>sw_db := d'\<rparr>))"
| lost: "sw_requests w r = Checked i tx \<Longrightarrow> claimPending i (sw_db w) = Inl e \<Longrightarrow>
     sched_step env w (with_request r NoRequest w)"
| failed: "sched_step env w (w\<lparr>sw_db := mark_failed i (sw_db w)\<rparr>)"
| advanced: "sched_step env w (w\<lparr>sw_db := set_next_run t i (sw_db w)\<rparr>)"
| restarted: "sched_step env w (w\<lparr>sw_db := loadActiveSchedules ((sw_db w)\<lparr>sd_jobs := Map.empty\<rparr>),
     sw_requests := (\<lambda>_. NoRequest)\<rparr>)"
| resolve: "sw_requests w r = Claimed i tx \<Longrightarrow>
     resolvePending env now i tx (sw_db w) = (res, d') \<Longrightarrow>
     sched_step env w (with_request r NoRequest
       (w\<lparr>sw_db := d', sw_log := sw_log w @ [(i, tx)]\<rparr>))"

definition empty_db :: sched_db where
  "empty_db = \<lparr>sd_schedules = [], sd_pendings = [], sd_jobs = Map.empty, sd_calls = [],
     sd_horizon = []\<rparr>"

definition first_world :: sworld where
  "first_world = \<lparr>sw_db = empty_db, sw_requests = (\<lambda>_. NoRequest), sw_owner = Map.empty,
     sw_log = []\<rparr>"

inductive sched_reached :: "sched_env \<Rightarrow> sworld \<Rightarrow> bool" for env where
  sched_start: "sched_reached env first_world"
| sched_next: "sched_reached env w \<Longrightarrow> sched_step env w w' \<Longrightarrow> sched_reached env w'"

text \<open>
  The invariant, over the pending rows \<open>R\<close>, their owners, the requests and the lg: a checked
  transaction comes from the owner; a claimed execution is claimed by one request, not yet handed
  to Horizon, and stored as submitting unless its schedule was deleted; a logged one is resolved.
\<close>

definition in_submission :: "pending \<Rightarrow> bool" where
  "in_submission p \<longleftrightarrow> pe_status p = ''submitting''"

definition resolved :: "pending \<Rightarrow> bool" where
  "resolved p \<longleftrightarrow> pe_status p = ''submitted'' \<or> pe_status p = ''failed''"

definition claims_inv ::
  "(string \<rightharpoonup> pending) \<Rightarrow> (string \<rightharpoonup> string) \<Rightarrow> (nat \<Rightarrow> request) \<Rightarrow> (string \<times> signed_tx) list \<Rightarrow> bool"
  where
  "claims_inv R own req lg \<longleftrightarrow>
     (\<forall>i p. R i = Some p \<longrightarrow> own i = Some (pe_owner p)) \<and>
     (\<forall>r i tx. req r = Checked i tx \<longrightarrow> own i = Some (stx_source tx)) \<and>
     (\<forall>r i tx. req r = Claimed i tx \<longrightarrow> own i = Some (stx_source tx)) \<and>
     (\<forall>r i tx. req r = Claimed i tx \<longrightarrow> i \<notin> fst ` set lg) \<and>
     (\<forall>r i tx p. req r = Claimed i tx \<longrightarrow> R i = Some p \<longrightarrow> in_submission p) \<and>
     (\<forall>r r' i tx tx'. req r = Claimed i tx \<longrightarrow> req r' = Claimed i tx' \<longrightarrow> r = r') \<and>
     (\<forall>i tx. (i, tx) \<in> set lg \<longrightarrow> own i = Some (stx_source tx)) \<and>
     (\<forall>i tx p. (i, tx) \<in> set lg \<longrightarrow> R i = Some p \<longrightarrow> resolved p) \<and>
     distinct (map fst lg)"

abbreviation claims_ok :: "sworld \<Rightarrow> bool" where
  "claims_ok w \<equiv>
     claims_inv (tb_row (sd_pendings (sw_db w))) (sw_owner w) (sw_requests w) (sw_log w)"

lemma claims_invD:
  assumes "claims_inv R own req lg"
  shows "R i = Some p \<Longrightarrow> own i = Some (pe_owner p)"
    and "req r = Checked i tx \<Longrightarrow> own i = Some (stx_source tx)"
    and "req r = Claimed i tx \<Longrightarrow> own i = Some (stx_source tx)"
    and "req r = Claimed i tx \<Longrightarrow> i \<notin> fst ` set lg"
    and "req r = Claimed i tx \<Longrightarrow> R i = Some p \<Longrightarrow> in_submission p"
    and "req r = Claimed i tx \<Longrightarrow> req r' = Claimed i tx' \<Longrightarrow> r = r'"
    and "(i, tx) \<in> set lg \<Longrightarrow> own i = Some (stx_source tx)"
    and "(i, tx) \<in> set lg \<Longrightarrow> R i = Some p \<Longrightarrow> resolved p"
    and "distinct (map fst lg)"
  using assms unfolding claims_inv_def by - (elim conjE; meson)+

lemma claims_invI:
  assumes "\<And>i p. R i = Some p \<Longrightarrow> own i = Some (pe_owner p)"
    and "\<And>r i tx. req r = Checked i tx \<Longrightarrow> own i = Some (stx_source tx)"
    and "\<And>r i tx. req r = Claimed i tx \<Longrightarrow> own i = Some (stx_source tx)"
    and "\<And>r i tx. req r = Claimed i tx \<Longrightarrow> i \<notin> fst ` set lg"
    and "\<And>r i tx p. req r = Claimed i tx \<Longrightarrow> R i = Some p \<Longrightarrow> in_submission p"
    and "\<And>r r' i tx tx'. req r = Claimed i tx \<Longrightarrow> req r' = Claimed i tx' \<Longrightarrow> r = r'"
    and "\<And>i tx. (i, tx) \<in> set lg \<Longrightarrow> own i = Some (stx_source tx)"
    and "\<And>i tx p. (i, tx) \<in> set lg \<Longrightarrow> R i = Some p \<Longrightarrow>
      resolved p"
    and "distinct (map fst lg)"
  shows "claims_inv R own req lg"
  unfolding claims_inv_def by (intro conjI allI impI) (rule assms; assumption)+

lemma claims_inv_sub:
  assumes "claims_inv R own req lg" and "\<And>i p. R' i = Some p \<Longrightarrow> R i = Some p"
  shows "claims_inv R' own req lg"
  by (rule claims_invI) (use claims_invD [OF assms(1)] assms(2) in metis)+

lemma claims_inv_fresh:
  assumes "claims_inv R own req lg" and "own i = None"
  shows "claims_inv R (own(i \<mapsto> u)) req lg"
    and "pe_owner p = u \<Longrightarrow> claims_inv (R(i \<mapsto> p)) (own(i \<mapsto> u)) req lg"
proof -
  note D = claims_invD [OF assms(1)]
  have new: "R i \<noteq> Some p" "req r \<noteq> Checked i tx" "req r \<noteq> Claimed i tx" "(i, tx) \<notin> set lg" for p r tx
    using D(1,2,3,7) assms(2) by (metis option.distinct(1))+
  show "claims_inv R (own(i \<mapsto> u)) req lg"
    by (rule claims_invI) (use D new in \<open>metis fun_upd_apply\<close>)+
  show "claims_inv (R(i \<mapsto> p)) (own(i \<mapsto> u)) req lg" if "pe_owner p = u"
    by (rule claims_invI) (use D new that in \<open>metis fun_upd_apply option.inject\<close>)+
qed

lemma claims_inv_check:
  assumes "claims_inv R own req lg" and "req r = NoRequest" and "own i = Some (stx_source tx)"
  shows "claims_inv R own (req(r := Checked i tx)) lg"
  by (rule claims_invI)
    (use claims_invD [OF assms(1)] assms(2,3) in \<open>metis fun_upd_apply request.inject request.distinct\<close>)+

lemma claims_inv_drop:
  assumes "claims_inv R own req lg"
  shows "claims_inv R own (req(r := NoRequest)) lg"
  by (rule claims_invI)
    (use claims_invD [OF assms(1)] in \<open>metis fun_upd_apply request.distinct\<close>)+

lemma claims_inv_claim:
  assumes inv: "claims_inv R own req lg" and r: "req r = Checked i tx"
    and p: "R i = Some p" "\<not> in_submission p" "\<not> resolved p"
    and q: "in_submission q" "pe_owner q = pe_owner p"
  shows "claims_inv (R(i \<mapsto> q)) own (req(r := Claimed i tx)) lg"
proof -
  note D = claims_invD [OF inv]
  have free: "req r' \<noteq> Claimed i tx'" "(i, tx') \<notin> set lg" for r' tx'
    using D(5,8) p by metis+
  show ?thesis
  proof (rule claims_invI)
    fix r' k tx' p' assume "(req(r := Claimed i tx)) r' = Claimed k tx'" "(R(i \<mapsto> q)) k = Some p'"
    then show "in_submission p'" using D(5) q by (auto split: if_splits)
  next
    fix k tx' p' assume "(k, tx') \<in> set lg" "(R(i \<mapsto> q)) k = Some p'"
    then show "resolved p'" using D(8) free by (cases "k = i") auto
  next
    fix k p' assume "(R(i \<mapsto> q)) k = Some p'"
    then show "own k = Some (pe_owner p')" using D(1) p(1) q(2) by (auto split: if_splits)
  next
    fix r1 r2 k tx1 tx2
    assume "(req(r := Claimed i tx)) r1 = Claimed k tx1" "(req(r := Claimed i tx)) r2 = Claimed k tx2"
    then show "r1 = r2" using D(6) free by (auto split: if_splits)
  next
    fix r' k tx' assume "(req(r := Claimed i tx)) r' = Claimed k tx'"
    then show "k \<notin> fst ` set lg" using D(4) free by (auto split: if_splits)
  next
    fix r' k tx' assume "(req(r := Claimed i tx)) r' = Claimed k tx'"
    then show "own k = Some (stx_source tx')" using D(2,3) r by (auto split: if_splits)
  qed (use D in \<open>auto split: if_splits\<close>)
qed

lemma claims_inv_resolve:
  assumes inv: "claims_inv R own req lg" and r: "req r = Claimed i tx"
    and R': "\<And>k. k \<noteq> i \<Longrightarrow> R' k = R k"
      "\<And>q. R' i = Some q \<Longrightarrow> \<exists>p. R i = Some p \<and> pe_owner q = pe_owner p \<and>
        resolved q"
  shows "claims_inv R' own (req(r := NoRequest)) (lg @ [(i, tx)])"
proof -
  note D = claims_invD [OF inv]
  have alone: "r' = r" if "req r' = Claimed i tx'" for r' tx' using D(6) r that by blast
  have new: "i \<notin> fst ` set lg" using D(4) r by blast
  show ?thesis
  proof (rule claims_invI)
    fix k q assume "R' k = Some q"
    then show "own k = Some (pe_owner q)"
      using D(1) R' by (cases "k = i") (metis, simp)
  next
    fix k tx' q assume "(k, tx') \<in> set (lg @ [(i, tx)])" "R' k = Some q"
    then show "resolved q"
      using D(8) R' by (cases "k = i") (blast, auto)
  next
    fix r' k tx' q assume "(req(r := NoRequest)) r' = Claimed k tx'" "R' k = Some q"
    then show "in_submission q"
      using D(5) R' alone by (cases "k = i") (auto split: if_splits)
  next
    fix r' k tx' assume "(req(r := NoRequest)) r' = Claimed k tx'"
    then show "k \<notin> fst ` set (lg @ [(i, tx)])"
      using D(4) alone by (auto split: if_splits)
  qed (use D r new in \<open>auto split: if_splits\<close>)
qed

lemma fire_pendings:
  assumes "tb_row (sd_schedules d) i = Some s"
  shows "sd_pendings (executeSchedule env now pid i d) = sd_pendings d \<or>
    (\<exists>p. tb_row (sd_pendings (executeSchedule env now pid i d)) = (tb_row (sd_pendings d))(pid \<mapsto> p) \<and>
      pe_owner p = sc_owner s)"
  using assms
  by (auto simp: executeSchedule_def notifyOwner_def Let_def dest!: db.row_ins
      split: option.splits sum.splits)

lemma delete_pendings:
  assumes "tb_wf (sd_pendings d)" and "deleteSchedule i d = (b, d')"
    and "tb_row (sd_pendings d') k = Some p"
  shows "tb_row (sd_pendings d) k = Some p"
  using assms by (auto simp: deleteSchedule_def Let_def db.row_del split: option.splits if_splits)

lemma checkPending_source:
  assumes "checkPending env i xdr d = Inr tx"
  shows "\<exists>p. tb_row (sd_pendings d) i = Some p \<and> pe_owner p = stx_source tx"
  using assms by (auto simp: checkPending_def ok_steps split: option.splits sum.splits)

lemma claimPending_Inr:
  assumes wf: "tb_wf (sd_pendings d)" and run: "claimPending i d = Inr d'"
  shows "\<exists>p. tb_row (sd_pendings d) i = Some p \<and> pe_status p = ''awaiting_signature'' \<and>
    tb_row (sd_pendings d') = (tb_row (sd_pendings d))(i \<mapsto> p\<lparr>pe_status := ''submitting''\<rparr>)"
proof -
  let ?u = "tb_update (\<lambda>k p. k = i \<and> pe_status p = ''awaiting_signature'')
    (\<lambda>p. p\<lparr>pe_status := ''submitting''\<rparr>) (sd_pendings d)"
  have n: "fst ?u \<noteq> 0" and d': "sd_pendings d' = snd ?u"
    using run by (auto simp: claimPending_def Let_def split: prod.splits if_splits)
  obtain p where p: "tb_row (sd_pendings d) i = Some p" "pe_status p = ''awaiting_signature''"
    using n unfolding db.cas_count [OF wf] by (auto split: option.splits if_splits)
  moreover have "tb_row (snd ?u) = (tb_row (sd_pendings d))(i \<mapsto> p\<lparr>pe_status := ''submitting''\<rparr>)"
    using p by (intro ext) (auto simp: db.row_upd option.map_ident)
  ultimately show ?thesis by (auto simp: d')
qed

lemma resolve_pendings:
  assumes "resolvePending env now i tx d = (res, d')"
    and "\<And>p. tb_row (sd_pendings d) i = Some p \<Longrightarrow> in_submission p"
  shows "k \<noteq> i \<Longrightarrow> tb_row (sd_pendings d') k = tb_row (sd_pendings d) k"
    and "tb_row (sd_pendings d') i = Some q \<Longrightarrow>
      \<exists>p. tb_row (sd_pendings d) i = Some p \<and> pe_owner q = pe_owner p \<and> resolved q"
proof -
  obtain P f where d': "sd_pendings d' = snd (tb_update P f (sd_pendings d))"
    and P: "\<And>k p. P k p \<Longrightarrow> k = i" "\<And>p. in_submission p \<Longrightarrow> P i p"
    and f: "\<And>p. pe_owner (f p) = pe_owner p \<and> resolved (f p)"
  proof (cases "se_submit env tx")
    case (Inl msg)
    show ?thesis
      by (rule that [of "\<lambda>k p. k = i \<and> pe_status p = ''submitting''"
          "\<lambda>p. p\<lparr>pe_status := ''failed'', pe_error := Some msg, pe_resolved := Some now\<rparr>"])
        (use assms(1) Inl in \<open>auto simp: resolvePending_def in_submission_def resolved_def\<close>)
  next
    case (Inr hash)
    show ?thesis
      by (rule that [of "\<lambda>k p. k = i"
          "\<lambda>p. p\<lparr>pe_status := ''submitted'', pe_hash := Some hash, pe_resolved := Some now\<rparr>"])
        (use assms(1) Inr in \<open>auto simp: resolvePending_def in_submission_def resolved_def\<close>)
  qed
  show "tb_row (sd_pendings d') k = tb_row (sd_pendings d) k" if "k \<noteq> i"
    unfolding d' by (rule tb_row_outside) (use P that in blast)
  show "\<exists>p. tb_row (sd_pendings d) i = Some p \<and> pe_owner q = pe_owner p \<and> resolved q"
    if "tb_row (sd_pendings d') i = Some q"
    using tb_row_inside [OF that [unfolded d'] P(2)] assms(2) f by blast
qed

lemma sched_step_inv:
  assumes "sched_step env w w'" and "sched_inv (sw_db w)" and "claims_ok w"
  shows "sched_inv (sw_db w') \<and> claims_ok w'"
  using assms
proof (cases rule: sched_step.cases)
  case (create now i b s d')
  have "sd_pendings d' = sd_pendings (sw_db w)"
    using createSchedule_Inr(1) [OF create(2)] by auto
  then show ?thesis using create assms(2,3) create_inv by auto
next
  case (update i u s d')
  then have "sd_pendings d' = sd_pendings (sw_db w)"
    using updateSchedule_Inr(2) [OF update(2)] by auto
  then show ?thesis using update assms(2,3) update_inv by auto
next
  case (delete i b d')
  have "tb_wf (sd_pendings (sw_db w))" using assms(2) by (simp add: sched_inv_def)
  note claims_inv_sub [OF assms(3) delete_pendings [OF this delete(2)]]
  then show ?thesis using delete assms(2) delete_inv by auto
next
  case (fire pid i s now)
  note fresh = claims_inv_fresh [OF assms(3) fire(2)]
  from fire_pendings [OF fire(3), of env now pid] have "claims_ok w'"
  proof
    assume "sd_pendings (executeSchedule env now pid i (sw_db w)) = sd_pendings (sw_db w)"
    then show ?thesis using fresh(1) by (simp add: fire(1))
  next
    assume "\<exists>p. tb_row (sd_pendings (executeSchedule env now pid i (sw_db w))) =
        (tb_row (sd_pendings (sw_db w)))(pid \<mapsto> p) \<and> pe_owner p = sc_owner s"
    then show ?thesis using fresh(2) [of _ "sc_owner s"] by (auto simp: fire(1))
  qed
  then show ?thesis using fire execute_inv assms(2) by simp
next
  case (check r i xdr tx)
  obtain p where "tb_row (sd_pendings (sw_db w)) i = Some p" "pe_owner p = stx_source tx"
    using checkPending_source [OF check(3)] by blast
  then have "sw_owner w i = Some (stx_source tx)" using claims_invD(1) [OF assms(3)] by metis
  then show ?thesis using claims_inv_check [OF assms(3) check(2)] assms(2) by (simp add: check(1))
next
  case (claim r i tx d')
  have "tb_wf (sd_pendings (sw_db w))" using assms(2) by (simp add: sched_inv_def)
  from claimPending_Inr [OF this claim(3)] obtain p where
    p: "tb_row (sd_pendings (sw_db w)) i = Some p" "pe_status p = ''awaiting_signature''"
      "tb_row (sd_pendings d') = (tb_row (sd_pendings (sw_db w)))(i \<mapsto> p\<lparr>pe_status := ''submitting''\<rparr>)"
    by blast
  have "claims_inv (tb_row (sd_pendings d')) (sw_owner w) ((sw_requests w)(r := Claimed i tx)) (sw_log w)"
    unfolding p(3)
    by (rule claims_inv_claim [OF assms(3) claim(2) p(1)])
      (use p(2) in \<open>simp_all add: in_submission_def resolved_def\<close>)
  then show ?thesis using claim_inv [OF assms(2) claim(3)] by (simp add: claim(1))
next
  case (lost r i tx e)
  then show ?thesis using claims_inv_drop [OF assms(3)] assms(2) by simp
next
  case (failed i)
  then show ?thesis using assms(2,3) fail_inv by simp
next
  case (advanced now i)
  then show ?thesis using assms(2,3) advance_inv by simp
next
  case restarted
  have "claims_inv (tb_row (sd_pendings (sw_db w))) (sw_owner w) (\<lambda>_. NoRequest) (sw_log w)"
    by (rule claims_invI) (use claims_invD [OF assms(3)] in auto)
  then show ?thesis using assms(2) restart_restores_jobs by (simp add: restarted)
next
  case (resolve r i tx now res d')
  note busy = claims_invD(5) [OF assms(3) resolve(2)]
  have "claims_inv (tb_row (sd_pendings d')) (sw_owner w) ((sw_requests w)(r := NoRequest))
      (sw_log w @ [(i, tx)])"
    by (rule claims_inv_resolve [OF assms(3) resolve(2)])
      (rule resolve_pendings [OF resolve(3)], use busy in blast, assumption?)+
  then show ?thesis using resolve_inv [OF assms(2) resolve(3)] by (simp add: resolve(1))
qed

lemma sched_reached_inv: "sched_reached env w \<Longrightarrow> sched_inv (sw_db w) \<and> claims_ok w"
proof (induction rule: sched_reached.induct)
  case sched_start
  show ?case
    by (simp add: first_world_def empty_db_def sched_inv_def pendings_ok_def claims_inv_def)
next
  case (sched_next w w')
  then show ?case using sched_step_inv by blast
qed

text \<open>C6. However requests interleave, a pending execution is handed to Horizon at most once, and only
  with a transaction whose source is the account the execution was made for.\<close>

theorem no_double_submission:
  assumes "sched_reached env w"
  shows "distinct (map fst (sw_log w)) \<and>
    (\<forall>(i, tx) \<in> set (sw_log w). sw_owner w i = Some (stx_source tx))"
proof -
  have "claims_ok w" using sched_reached_inv [OF assms] by blast
  then show ?thesis using claims_invD(7,9) by blast
qed


text \<open>A run: a schedule is created, fires, and its owner submits.\<close>

definition demo_key :: string where
  "demo_key = CHR ''G'' # replicate 55 (CHR ''A'')"

definition demo_env :: sched_env where
  "demo_env = \<lparr>se_date = (\<lambda>_. Some 0), se_cron_valid = (\<lambda>_. True), se_account = (\<lambda>_. None),
     se_encode = (\<lambda>_ _. Inr ''AAAA''), se_from_xdr = (\<lambda>x. Inr \<lparr>stx_source = demo_key, stx_body = x\<rparr>),
     se_submit = (\<lambda>_. Inr ''hash''), se_hooks = (\<lambda>_. []), se_max = 50\<rparr>"

definition demo_body :: schedule_body where
  "demo_body = \<lparr>bd_owner = demo_key, bd_recipient = demo_key, bd_amount = ''5'', bd_asset = None,
     bd_memo = None, bd_frequency = ''daily'', bd_cron = None, bd_start = ''1970-01-01''\<rparr>"

definition demo1 :: sched_db where
  "demo1 = snd (projr (createSchedule demo_env 0 ''s'' demo_body empty_db))"

definition demo2 :: sched_db where
  "demo2 = executeSchedule demo_env 1 ''p'' ''s'' demo1"

definition demo3 :: sched_db where
  "demo3 = projr (claimPending ''p'' demo2)"

definition demo_tx :: signed_tx where
  "demo_tx = \<lparr>stx_source = demo_key, stx_body = ''BBBB''\<rparr>"

definition demo_world :: sworld where
  "demo_world = \<lparr>sw_db = snd (resolvePending demo_env 2 ''p'' demo_tx demo3),
     sw_requests = (\<lambda>_. NoRequest)(0 := NoRequest), sw_owner = Map.empty(''p'' \<mapsto> demo_key),
     sw_log = [(''p'', demo_tx)]\<rparr>"

lemma demo_runs:
  "isl (createSchedule demo_env 0 ''s'' demo_body empty_db) = False"
  "map_option sc_owner (tb_row (sd_schedules demo1) ''s'') = Some demo_key"
  "checkPending demo_env ''p'' ''BBBB'' demo2 = Inr demo_tx"
  "isl (claimPending ''p'' demo2) = False"
  "map_option pe_status (tb_row (sd_pendings (sw_db demo_world)) ''p'') = Some ''submitted''"
  by code_simp+

lemma sum_ok: "\<not> isl m \<Longrightarrow> m = Inr (projr m)"
  by (cases m) auto

lemma demo_reached: "sched_reached demo_env demo_world"
proof -
  have "createSchedule demo_env 0 ''s'' demo_body empty_db =
      Inr (fst (projr (createSchedule demo_env 0 ''s'' demo_body empty_db)), demo1)"
    using sum_ok demo_runs(1) by (metis demo1_def prod.collapse)
  then have 1: "sched_reached demo_env (first_world\<lparr>sw_db := demo1\<rparr>)"
    by (intro sched_next [OF sched_start] sched_step.create) (simp add: first_world_def)
  obtain s where s: "tb_row (sd_schedules demo1) ''s'' = Some s" "sc_owner s = demo_key"
    using demo_runs(2) by auto
  let ?w = "\<lparr>sw_db = demo2, sw_requests = (\<lambda>_. NoRequest), sw_owner = Map.empty(''p'' \<mapsto> demo_key),
    sw_log = []\<rparr>"
  have "sched_step demo_env (first_world\<lparr>sw_db := demo1\<rparr>) ?w"
    using sched_step.fire [of "first_world\<lparr>sw_db := demo1\<rparr>" "''p''" "''s''" s demo_env 1] s
    by (simp add: first_world_def demo2_def)
  with 1 have 2: "sched_reached demo_env ?w" by (rule sched_next)
  let ?w' = "?w\<lparr>sw_requests := (\<lambda>_. NoRequest)(0 := Checked ''p'' demo_tx)\<rparr>"
  have "sched_step demo_env ?w ?w'"
    using sched_step.check [of ?w 0 demo_env "''p''" "''BBBB''" demo_tx] demo_runs(3) by simp
  with 2 have 3: "sched_reached demo_env ?w'" by (rule sched_next)
  let ?w'' = "?w'\<lparr>sw_db := demo3, sw_requests := (\<lambda>_. NoRequest)(0 := Claimed ''p'' demo_tx)\<rparr>"
  have "sched_step demo_env ?w' ?w''"
    using sched_step.claim [of ?w' 0 "''p''" demo_tx demo3 demo_env] sum_ok demo_runs(4)
    by (simp add: demo3_def)
  with 3 have 4: "sched_reached demo_env ?w''" by (rule sched_next)
  have "sched_step demo_env ?w'' demo_world"
    using sched_step.resolve [of ?w'' 0 "''p''" demo_tx demo_env 2
        "fst (resolvePending demo_env 2 ''p'' demo_tx demo3)" "sw_db demo_world"]
    by (simp add: demo_world_def)
  with 4 show ?thesis by (rule sched_next)
qed

lemma no_double_submission_witness:
  "sw_log demo_world = [(''p'', demo_tx)] \<and> distinct (map fst (sw_log demo_world)) \<and>
    sw_owner demo_world ''p'' = Some (stx_source demo_tx)"
  using no_double_submission [OF demo_reached] by (simp add: demo_world_def)



section \<open>The cap, the route\<close>

text \<open>Creating keeps an account within its cap; resuming a paused schedule does not look at it.\<close>

lemma create_cap:
  assumes "createSchedule env now i b d = Inr (s, d')"
  shows "length (active_of (bd_owner b) d') \<le> se_max env"
proof -
  have "sd_schedules d' = sd_schedules d @ [(i, s)]"
    using createSchedule_Inr(1) [OF assms] by (auto simp: tb_insert_def split: if_splits)
  then show ?thesis
    using createSchedule_Inr(2-4) [OF assms] by (simp add: active_of_def tb_select_def)
qed

definition status_update :: "string \<Rightarrow> schedule_update" where
  "status_update st = \<lparr>up_recipient = None, up_amount = None, up_asset = None, up_memo = None,
     up_frequency = None, up_cronExpression = None, up_cron = None, up_start = None,
     up_status = Some st\<rparr>"

lemma resume_ignores_cap:
  "let env = demo_env\<lparr>se_max := 1\<rparr>;
       create = (\<lambda>i d. snd (projr (createSchedule env 0 i demo_body d)));
       set = (\<lambda>i st d. snd (projr (updateSchedule env i (status_update st) d)));
       d = set ''a'' ''active'' (create ''b'' (set ''a'' ''paused'' (create ''a'' empty_db)))
   in length (active_of demo_key d) = 2"
  by code_simp

text \<open>
  \<open>POST /api/scheduled-transactions\<close> (\<open>routes/scheduledTransactions.js\<close>) passes on the signed
  transaction and a time, which \<open>createSchedule\<close> does not read, and none of the fields it requires.
\<close>

definition postSchedule ::
  "sched_env \<Rightarrow> int \<Rightarrow> string \<Rightarrow> string \<Rightarrow> string option \<Rightarrow> sched_db \<Rightarrow> thrown + schedule \<times> sched_db" where
  "postSchedule env now i user publicKey d =
     bnd (ensure (truthy_text publicKey = None \<or> publicKey = Some user)
          (http_error 403 ''Forbidden: publicKey in body must match authenticated user.'')) (\<lambda>_.
       createSchedule env now i
         \<lparr>bd_owner = user, bd_recipient = [], bd_amount = [], bd_asset = None, bd_memo = None,
          bd_frequency = [], bd_cron = None, bd_start = []\<rparr> d)"

text \<open>The endpoint that schedules a transaction creates none: every request is answered with an
  error, 403 for another account's key and 400 otherwise.\<close>

lemma post_schedules_nothing:
  "\<exists>e. postSchedule env now i user publicKey d = Inl e \<and>
     th_status e = Some (if truthy_text publicKey = None \<or> publicKey = Some user then 400 else 403)"
  by (simp add: postSchedule_def createSchedule_def overlay_def normalizeAsset_def ensure_def
      http_error_def)

end
