(* ===== verification/ScheduledExecutor.thy ===== *)
theory ScheduledExecutor
  imports ScheduledTransactions
begin

text \<open>
  \<open>backend/src/services/scheduledExecutor.js\<close>: the engine that runs due schedules. Each run of a
  schedule is a row of the executions table under an id every worker computes alike; a worker
  claims it by inserting it (or, for a retry, by a guarded update) with a lease, behind a Redis
  lock where Redis is available, and resolves the claim with the outcome. Handlers read the clock
  when they claim (\<open>t1\<close>) and when they resolve (\<open>t2\<close>); a cycle reads it once.
\<close>

section \<open>Data\<close>

record execution =
  ex_schedule :: string
  ex_owner :: string
  ex_status :: string
  ex_attempt :: nat
  ex_hash :: "string option"
  ex_error :: "string option"
  ex_code :: "string option"
  ex_claim :: "string option"
  ex_lease :: "int option"
  ex_retry :: "int option"
  ex_resolved :: "int option"
  ex_executed :: int

record exec_env =
  xe_sched :: sched_env
  xe_redis :: bool
  xe_lease :: int
  xe_interval :: int
  xe_max :: nat
  xe_nulls_first :: bool

record exec_state =
  xs_db :: sched_db
  xs_execs :: "(string, execution) table"
  xs_locks :: "string \<rightharpoonup> int"
  xs_running :: bool
  xs_timer :: bool

text \<open>The defaults of the code: a lease of two minutes, three attempts, five minutes apart.\<close>

definition EXECUTION_LEASE_MS :: int where "EXECUTION_LEASE_MS = 120000"
definition MAX_RETRIES :: nat where "MAX_RETRIES = 3"
definition RETRY_INTERVAL_MS :: int where "RETRY_INTERVAL_MS = 5 * 60 * 1000"
definition LOCK_KEY_PREFIX :: string where "LOCK_KEY_PREFIX = ''scheduled_execution:lock:''"
definition CLAIMED :: string where "CLAIMED = ''claimed''"
definition EXECUTED :: string where "EXECUTED = ''executed''"
definition FAILED :: string where "FAILED = ''failed''"

definition default_env :: "sched_env \<Rightarrow> bool \<Rightarrow> bool \<Rightarrow> exec_env" where
  "default_env env redis nulls = \<lparr>xe_sched = env, xe_redis = redis, xe_lease = EXECUTION_LEASE_MS,
     xe_interval = RETRY_INTERVAL_MS, xe_max = MAX_RETRIES, xe_nulls_first = nulls\<rparr>"

section \<open>Errors\<close>

record horizon_error =
  he_code :: string
  he_message :: string
  he_status :: nat

definition parseHorizonError :: "thrown \<Rightarrow> horizon_error" where
  "parseHorizonError e =
     (case th_result_codes e of
        Some tx \<Rightarrow> \<lparr>he_code = (case truthy_text tx of None \<Rightarrow> ''UNKNOWN_ERROR'' | Some c \<Rightarrow> c),
          he_message = th_message e, he_status = overlay (th_response e) 0\<rparr>
      | None \<Rightarrow>
          if th_code e = Some ''ECONNREFUSED'' \<or> th_code e = Some ''ENOTFOUND''
          then \<lparr>he_code = ''NETWORK_ERROR'', he_message = th_message e, he_status = 0\<rparr>
          else if str_includes (th_message e) ''timeout''
          then \<lparr>he_code = ''TIMEOUT'', he_message = th_message e, he_status = 0\<rparr>
          else \<lparr>he_code = ''SUBMISSION_ERROR'', he_message = th_message e,
                he_status = overlay (th_response e) 0\<rparr>)"

definition permanentErrors :: "string list" where
  "permanentErrors = [''tx_failed'', ''tx_too_early'', ''tx_too_late'', ''tx_missing_operation'',
     ''tx_missing_memo'', ''tx_duplicate'', ''tx_insufficient_fee'', ''op_underfunded'',
     ''op_malformed'', ''op_invalid_account'']"

definition isRetryableError :: "string \<Rightarrow> bool" where
  "isRetryableError c \<longleftrightarrow> c \<notin> set permanentErrors"

definition isUniqueViolation :: "thrown \<Rightarrow> bool" where
  "isUniqueViolation e \<longleftrightarrow>
     th_code e \<in> {Some ''23505'', Some ''SQLITE_CONSTRAINT'', Some ''SQLITE_CONSTRAINT_UNIQUE'',
       Some ''SQLITE_CONSTRAINT_PRIMARYKEY''} \<or>
     str_includes (to_lower (th_message e)) ''unique constraint''"

text \<open>What the database throws where the key is taken.\<close>

definition unique_error :: thrown where
  "unique_error = (plain_error ''duplicate key value'')\<lparr>th_code := Some ''23505''\<rparr>"

section \<open>Claims\<close>

definition executionIdForRun :: "int \<Rightarrow> string \<Rightarrow> schedule \<Rightarrow> string" where
  "executionIdForRun now i s = i @ '':'' @ show_int (overlay (sc_next_run s) now)"

datatype lock_result = Acquired | Held | Unavailable

text \<open>\<open>SET key 1 PX ttl NX\<close>: a key that has expired is free.\<close>

definition acquireLock :: "exec_env \<Rightarrow> int \<Rightarrow> string \<Rightarrow> exec_state \<Rightarrow> lock_result \<times> exec_state" where
  "acquireLock xe now k st =
     (if \<not> xe_redis xe then (Unavailable, st)
      else case xs_locks st k of
        Some expiry \<Rightarrow> if now < expiry then (Held, st)
          else (Acquired, st\<lparr>xs_locks := (xs_locks st)(k \<mapsto> now + xe_lease xe)\<rparr>)
      | None \<Rightarrow> (Acquired, st\<lparr>xs_locks := (xs_locks st)(k \<mapsto> now + xe_lease xe)\<rparr>))"

definition releaseLock :: "exec_env \<Rightarrow> string \<Rightarrow> exec_state \<Rightarrow> exec_state" where
  "releaseLock xe k st =
     (if \<not> xe_redis xe then st else st\<lparr>xs_locks := (xs_locks st)(k := None)\<rparr>)"

definition release_if_acquired ::
  "exec_env \<Rightarrow> lock_result \<Rightarrow> string \<Rightarrow> exec_state \<Rightarrow> exec_state" where
  "release_if_acquired xe l k st = (if l = Acquired then releaseLock xe k st else st)"

record claim =
  cl_id :: string
  cl_lock :: string
  cl_lease :: int

definition new_execution :: "int \<Rightarrow> int \<Rightarrow> string \<Rightarrow> schedule \<Rightarrow> execution" where
  "new_execution now lease i s = \<lparr>ex_schedule = i, ex_owner = sc_owner s, ex_status = ''pending'',
     ex_attempt = 1, ex_hash = None, ex_error = None, ex_code = None, ex_claim = Some CLAIMED,
     ex_lease = Some lease, ex_retry = None, ex_resolved = None, ex_executed = now\<rparr>"

definition claimExecution ::
  "exec_env \<Rightarrow> int \<Rightarrow> string \<Rightarrow> string \<Rightarrow> schedule \<Rightarrow> exec_state \<Rightarrow>
     (thrown + claim option) \<times> exec_state" where
  "claimExecution xe now eid i s st =
     (let lk = LOCK_KEY_PREFIX @ eid; lease = now + xe_lease xe;
          (l, st1) = acquireLock xe now lk st
      in if l = Held then (Inr None, st1)
         else case tb_insert eid (new_execution now lease i s) (xs_execs st1) of
           Some t \<Rightarrow>
             (Inr (Some \<lparr>cl_id = eid, cl_lock = lk, cl_lease = lease\<rparr>), st1\<lparr>xs_execs := t\<rparr>)
         | None \<Rightarrow>
             (if isUniqueViolation unique_error then Inr None else Inl unique_error,
              release_if_acquired xe l lk st1))"

text \<open>A row may be claimed again: pending, and unclaimed or with a lease that is over.\<close>

definition reclaimable :: "int \<Rightarrow> execution \<Rightarrow> bool" where
  "reclaimable now x \<longleftrightarrow> ex_status x = ''pending'' \<and>
     (ex_claim x = None \<or> ex_claim x = Some CLAIMED \<and>
       (case ex_lease x of None \<Rightarrow> True | Some l \<Rightarrow> l \<le> now))"

definition claimRetry :: "exec_env \<Rightarrow> int \<Rightarrow> string \<Rightarrow> exec_state \<Rightarrow> claim option \<times> exec_state" where
  "claimRetry xe now eid st =
     (let lk = LOCK_KEY_PREFIX @ eid; lease = now + xe_lease xe;
          (l, st1) = acquireLock xe now lk st
      in if l = Held then (None, st1)
         else let (n, t) = tb_update (\<lambda>k x. k = eid \<and> reclaimable now x)
                    (\<lambda>x. x\<lparr>ex_claim := Some CLAIMED, ex_lease := Some lease\<rparr>) (xs_execs st1)
              in if n \<noteq> 1 then (None, release_if_acquired xe l lk (st1\<lparr>xs_execs := t\<rparr>))
                 else (Some \<lparr>cl_id = eid, cl_lock = lk, cl_lease = lease\<rparr>, st1\<lparr>xs_execs := t\<rparr>))"

definition finalizeClaim ::
  "exec_env \<Rightarrow> claim \<Rightarrow> (execution \<Rightarrow> execution) \<Rightarrow> exec_state \<Rightarrow> exec_state" where
  "finalizeClaim xe c f st = releaseLock xe (cl_lock c)
     (st\<lparr>xs_execs := tb_set (cl_id c) (\<lambda>x. (f x)\<lparr>ex_lease := None\<rparr>) (xs_execs st)\<rparr>)"

section \<open>What is due\<close>

definition has_pending :: "string \<Rightarrow> exec_state \<Rightarrow> bool" where
  "has_pending i st \<longleftrightarrow>
     tb_select (\<lambda>_ x. ex_schedule x = i \<and> ex_status x = ''pending'') (xs_execs st) \<noteq> []"

definition is_due :: "int \<Rightarrow> exec_state \<Rightarrow> string \<Rightarrow> schedule \<Rightarrow> bool" where
  "is_due now st i s \<longleftrightarrow> sc_status s = ''active'' \<and>
     (case sc_next_run s of None \<Rightarrow> False | Some t \<Rightarrow> t \<le> now) \<and> \<not> has_pending i st"

definition getDueTransactions :: "int \<Rightarrow> exec_state \<Rightarrow> (string \<times> schedule) list" where
  "getDueTransactions now st =
     sort_key (\<lambda>(i, s). sc_next_run s) (tb_select (is_due now st) (sd_schedules (xs_db st)))"

definition retry_due :: "exec_env \<Rightarrow> int \<Rightarrow> execution \<Rightarrow> bool" where
  "retry_due xe now x \<longleftrightarrow> ex_status x = ''pending'' \<and> ex_attempt x < xe_max xe + 1 \<and>
     (case ex_retry x of None \<Rightarrow> True | Some t \<Rightarrow> t \<le> now) \<and>
     (ex_claim x = None \<or> (case ex_lease x of None \<Rightarrow> False | Some l \<Rightarrow> l \<le> now))"

definition retry_key :: "exec_env \<Rightarrow> execution \<Rightarrow> nat \<times> int" where
  "retry_key xe x = (case ex_retry x of
     Some t \<Rightarrow> (1, t) | None \<Rightarrow> (if xe_nulls_first xe then 0 else 2, 0))"

definition retry_before :: "exec_env \<Rightarrow> string \<times> execution \<Rightarrow> string \<times> execution \<Rightarrow> jsnum" where
  "retry_before xe p q =
     (let (a, s) = retry_key xe (snd p); (b, t) = retry_key xe (snd q)
      in if a = b then Fin (of_int (s - t)) else Fin (of_int (int a - int b)))"

definition getPendingRetries :: "exec_env \<Rightarrow> int \<Rightarrow> exec_state \<Rightarrow> (string \<times> execution) list" where
  "getPendingRetries xe now st =
     take 50 (js_sort (retry_before xe) (tb_select (\<lambda>_. retry_due xe now) (xs_execs st)))"

section \<open>Submission and notification\<close>

datatype submit_result = Success string | Failure horizon_error

definition submitScheduledTransaction :: "exec_env \<Rightarrow> schedule \<Rightarrow> submit_result" where
  "submitScheduledTransaction xe s =
     (case bnd (buildUnsignedPaymentXDR (xe_sched xe) s) (\<lambda>xdr.
             case se_from_xdr (xe_sched xe) xdr of Inl msg \<Rightarrow> Inl (plain_error msg) | Inr tx \<Rightarrow> Inr tx) of
        Inr tx \<Rightarrow> Failure \<lparr>he_code = ''AWAITING_SIGNATURE'',
          he_message = ''Transaction queued; awaiting owner signature via webhook'', he_status = 0\<rparr>
      | Inl e \<Rightarrow> Failure (parseHorizonError e))"

definition on_db :: "(sched_db \<Rightarrow> sched_db) \<Rightarrow> exec_state \<Rightarrow> exec_state" where
  "on_db f st = st\<lparr>xs_db := f (xs_db st)\<rparr>"

text \<open>\<open>deliverWebhook(h, payload)\<close> without an event type, whose default is \<open>payment.received\<close>.\<close>

definition notifyFailure :: "exec_env \<Rightarrow> string \<Rightarrow> schedule \<Rightarrow> string \<Rightarrow> exec_state \<Rightarrow> exec_state" where
  "notifyFailure xe i s eid = on_db (\<lambda>d. d\<lparr>sd_calls := sd_calls d @
     map (\<lambda>h. \<lparr>hc_hook = h, hc_event = ''scheduled_transaction.failed'', hc_schedule = i,
       hc_execution = eid, hc_type = ''payment.received''\<rparr>)
       (se_hooks (xe_sched xe) (sc_owner s))\<rparr>)"

definition advanceSchedule :: "int \<Rightarrow> string \<Rightarrow> schedule \<Rightarrow> exec_state \<Rightarrow> exec_state" where
  "advanceSchedule now i s st =
     (case estimateNextRun (sc_frequency s) now of
        None \<Rightarrow> st
      | Some n \<Rightarrow> on_db (\<lambda>d. d\<lparr>sd_schedules :=
          tb_set i (\<lambda>r. r\<lparr>sc_next_run := Some n\<rparr>) (sd_schedules d)\<rparr>) st)"

definition fail_schedule :: "string \<Rightarrow> exec_state \<Rightarrow> exec_state" where
  "fail_schedule i = on_db (\<lambda>d. d\<lparr>sd_schedules :=
     tb_set i (\<lambda>r. r\<lparr>sc_status := ''failed''\<rparr>) (sd_schedules d)\<rparr>)"

section \<open>Handlers\<close>

definition succeed :: "exec_env \<Rightarrow> int \<Rightarrow> claim \<Rightarrow> string \<Rightarrow> exec_state \<Rightarrow> exec_state" where
  "succeed xe now c hash = finalizeClaim xe c (\<lambda>x. x\<lparr>ex_status := ''submitted'',
     ex_claim := Some EXECUTED, ex_hash := Some hash, ex_resolved := Some now\<rparr>)"

definition requeue :: "exec_env \<Rightarrow> int \<Rightarrow> claim \<Rightarrow> nat \<Rightarrow> horizon_error \<Rightarrow> exec_state \<Rightarrow> exec_state" where
  "requeue xe now c n e = finalizeClaim xe c (\<lambda>x. x\<lparr>ex_status := ''pending'', ex_claim := None,
     ex_attempt := n, ex_error := Some (he_message e), ex_code := Some (he_code e),
     ex_retry := Some (now + xe_interval xe)\<rparr>)"

definition give_up :: "exec_env \<Rightarrow> int \<Rightarrow> claim \<Rightarrow> nat \<Rightarrow> horizon_error \<Rightarrow> exec_state \<Rightarrow> exec_state" where
  "give_up xe now c n e = finalizeClaim xe c (\<lambda>x. x\<lparr>ex_status := ''failed'',
     ex_claim := Some FAILED, ex_attempt := n, ex_error := Some (he_message e),
     ex_code := Some (he_code e), ex_resolved := Some now\<rparr>)"

definition executeDueTransaction ::
  "exec_env \<Rightarrow> int \<Rightarrow> int \<Rightarrow> string \<Rightarrow> schedule \<Rightarrow> exec_state \<Rightarrow> exec_state" where
  "executeDueTransaction xe t1 t2 i s st =
     (case claimExecution xe t1 (executionIdForRun t1 i s) i s st of
        (Inl e, st1) \<Rightarrow> st1
      | (Inr None, st1) \<Rightarrow> st1
      | (Inr (Some c), st1) \<Rightarrow>
          (case submitScheduledTransaction xe s of
             Success hash \<Rightarrow> advanceSchedule t2 i s (succeed xe t2 c hash st1)
           | Failure e \<Rightarrow>
               if isRetryableError (he_code e) then requeue xe t2 c 1 e st1
               else notifyFailure xe i s (cl_id c) (fail_schedule i (give_up xe t2 c 1 e st1))))"

definition handleRetry ::
  "exec_env \<Rightarrow> int \<Rightarrow> int \<Rightarrow> string \<Rightarrow> execution \<Rightarrow> exec_state \<Rightarrow> exec_state" where
  "handleRetry xe t1 t2 eid x st =
     (case tb_row (sd_schedules (xs_db st)) (ex_schedule x) of
        None \<Rightarrow> st
      | Some s \<Rightarrow>
          (case claimRetry xe t1 eid st of
             (None, st1) \<Rightarrow> st1
           | (Some c, st1) \<Rightarrow>
               (case submitScheduledTransaction xe s of
                  Success hash \<Rightarrow> advanceSchedule t2 (ex_schedule x) s (succeed xe t2 c hash st1)
                | Failure e \<Rightarrow>
                    let n = ex_attempt x + 1
                    in if isRetryableError (he_code e) \<and> n < xe_max xe then requeue xe t2 c n e st1
                       else notifyFailure xe (ex_schedule x) s (cl_id c)
                         (fail_schedule (ex_schedule x) (give_up xe t2 c n e st1)))))"

text \<open>
  A cycle at the time \<open>now\<close>: what is due, then the retries, each listed once before its loop. A
  cycle that finds another running is skipped.
\<close>

definition run_due :: "exec_env \<Rightarrow> int \<Rightarrow> exec_state \<Rightarrow> exec_state" where
  "run_due xe now st =
     fold (\<lambda>(i, s). executeDueTransaction xe now now i s) (getDueTransactions now st) st"

definition run_retries :: "exec_env \<Rightarrow> int \<Rightarrow> exec_state \<Rightarrow> exec_state" where
  "run_retries xe now st =
     fold (\<lambda>(eid, x). handleRetry xe now now eid x) (getPendingRetries xe now st) st"

definition executeCycle :: "exec_env \<Rightarrow> int \<Rightarrow> exec_state \<Rightarrow> exec_state" where
  "executeCycle xe now st =
     (if xs_running st then st
      else (run_retries xe now (run_due xe now (st\<lparr>xs_running := True\<rparr>)))\<lparr>xs_running := False\<rparr>)"

definition start_executor :: "exec_env \<Rightarrow> int \<Rightarrow> exec_state \<Rightarrow> exec_state" where
  "start_executor xe now st =
     (if xs_timer st then st else (executeCycle xe now st)\<lparr>xs_timer := True\<rparr>)"

definition stop_executor :: "exec_state \<Rightarrow> exec_state" where
  "stop_executor st = (if xs_timer st then st\<lparr>xs_timer := False\<rparr> else st)"

definition isStarted :: "exec_state \<Rightarrow> bool" where
  "isStarted st = xs_timer st"

section \<open>Manual execution\<close>

definition logExecution ::
  "int \<Rightarrow> string \<Rightarrow> string \<Rightarrow> string \<Rightarrow> string \<Rightarrow> string option \<Rightarrow> horizon_error option \<Rightarrow> int option
     \<Rightarrow> exec_state \<Rightarrow> thrown + exec_state" where
  "logExecution now eid i owner status hash err retry st =
     (case tb_insert eid \<lparr>ex_schedule = i, ex_owner = owner, ex_status = status, ex_attempt = 1,
             ex_hash = hash, ex_error = truthy_text (map_option he_message err),
             ex_code = truthy_text (map_option he_code err),
             ex_claim = None, ex_lease = None, ex_retry = retry,
             ex_resolved = (if status = ''submitted'' \<or> status = ''failed'' then Some now else None),
             ex_executed = now\<rparr> (xs_execs st) of
        None \<Rightarrow> Inl unique_error
      | Some t \<Rightarrow> Inr (st\<lparr>xs_execs := t\<rparr>))"

definition executeNow ::
  "exec_env \<Rightarrow> int \<Rightarrow> string \<Rightarrow> string \<Rightarrow> exec_state \<Rightarrow> thrown + submit_result \<times> exec_state" where
  "executeNow xe now eid i st =
     (case tb_row (sd_schedules (xs_db st)) i of
        None \<Rightarrow> Inl (http_error 404 ''Scheduled transaction not found'')
      | Some s \<Rightarrow>
          (case submitScheduledTransaction xe s of
             Success hash \<Rightarrow>
               bnd (logExecution now eid i (sc_owner s) ''submitted'' (Some hash) None None st)
                 (\<lambda>st'. Inr (Success hash, st'))
           | Failure e \<Rightarrow>
               bnd (logExecution now eid i (sc_owner s) ''pending'' None (Some e)
                      (if isRetryableError (he_code e) then Some (now + xe_interval xe) else None) st)
                 (\<lambda>st'. Inr (Failure e, st'))))"

definition getExecutionHistory :: "string \<Rightarrow> exec_state \<Rightarrow> (string \<times> execution) list" where
  "getExecutionHistory i st =
     sort_key (\<lambda>(k, x). - ex_executed x) (tb_select (\<lambda>_ x. ex_schedule x = i) (xs_execs st))"

end
