(* ===== verification/ExecutorLiveness.thy ===== *)
theory ExecutorLiveness
  imports ScheduledExecutor
begin

text \<open>
  What a run of executor cycles comes to. Every handler either leaves the tables alone or takes one
  of four steps (\<open>xstep\<close>): a due run is queued or refused, a pending run is put off or given up.
  Each step lowers a measure (the attempts that are left), a cycle with a retry that is due takes at
  least one step, and so in a run whose clock passes every bound each execution is given up: none
  is ever submitted, because \<open>submitScheduledTransaction\<close> has no path that answers success.
\<close>

section \<open>The steps\<close>

type_synonym rows = "string \<rightharpoonup> execution"
type_synonym scheds = "string \<rightharpoonup> schedule"

abbreviation exec_rows :: "exec_state \<Rightarrow> rows" where
  "exec_rows st \<equiv> tb_row (xs_execs st)"

abbreviation sched_rows :: "exec_state \<Rightarrow> scheds" where
  "sched_rows st \<equiv> tb_row (sd_schedules (xs_db st))"

definition unresolved :: "execution \<Rightarrow> bool" where
  "unresolved x \<longleftrightarrow> ex_status x = ''pending''"

definition given_up :: "execution \<Rightarrow> bool" where
  "given_up x \<longleftrightarrow> ex_status x = ''failed''"

definition runs :: "schedule \<Rightarrow> bool" where
  "runs s \<longleftrightarrow> sc_status s = ''active''"

definition failed_schedule :: "schedule \<Rightarrow> schedule" where
  "failed_schedule s = s\<lparr>sc_status := ''failed''\<rparr>"

text \<open>A pending row waits unclaimed, or was left claimed under a lease.\<close>

definition row_ok :: "nat \<Rightarrow> execution \<Rightarrow> bool" where
  "row_ok mx x \<longleftrightarrow> (unresolved x \<longrightarrow> ex_attempt x \<le> mx \<and>
     (ex_claim x = None \<or> ex_claim x = Some CLAIMED \<and> ex_lease x \<noteq> None))"

definition waits :: "rows \<Rightarrow> string \<Rightarrow> bool" where
  "waits R i \<longleftrightarrow> (\<exists>k x. R k = Some x \<and> ex_schedule x = i \<and> unresolved x)"

inductive xstep :: "nat \<Rightarrow> rows \<times> scheds \<Rightarrow> rows \<times> scheds \<Rightarrow> bool" for mx where
  queued: "R k = None \<Longrightarrow> Sc i = Some s \<Longrightarrow> runs s \<Longrightarrow> \<not> waits R i \<Longrightarrow> ex_schedule x = i \<Longrightarrow>
     unresolved x \<Longrightarrow> ex_attempt x = 1 \<Longrightarrow> row_ok mx x \<Longrightarrow> xstep mx (R, Sc) (R(k \<mapsto> x), Sc)"
| refused: "R k = None \<Longrightarrow> Sc i = Some s \<Longrightarrow> runs s \<Longrightarrow> \<not> waits R i \<Longrightarrow> ex_schedule x = i \<Longrightarrow>
     given_up x \<Longrightarrow> xstep mx (R, Sc) (R(k \<mapsto> x), Sc(i \<mapsto> failed_schedule s))"
| put_off: "R k = Some x \<Longrightarrow> unresolved x \<Longrightarrow> ex_attempt x < mx \<Longrightarrow> ex_schedule x' = ex_schedule x \<Longrightarrow>
     unresolved x' \<Longrightarrow> ex_attempt x' = ex_attempt x + 1 \<Longrightarrow> row_ok mx x' \<Longrightarrow>
     xstep mx (R, Sc) (R(k \<mapsto> x'), Sc)"
| exhausted: "R k = Some x \<Longrightarrow> unresolved x \<Longrightarrow> ex_schedule x' = ex_schedule x \<Longrightarrow> given_up x' \<Longrightarrow>
     Sc (ex_schedule x) = Some s \<Longrightarrow>
     xstep mx (R, Sc) (R(k \<mapsto> x'), Sc(ex_schedule x \<mapsto> failed_schedule s))"

inductive_cases xstepE: "xstep mx (R, Sc) (R', Sc')"

lemma status_disjoint: "unresolved x \<Longrightarrow> \<not> given_up x"
  by (simp add: unresolved_def given_up_def)

lemma failed_not_runs [simp]: "\<not> runs (failed_schedule s)"
  by (simp add: runs_def failed_schedule_def)

section \<open>The measure\<close>

definition row_weight :: "nat \<Rightarrow> execution option \<Rightarrow> nat" where
  "row_weight mx r = (case r of Some x \<Rightarrow> if unresolved x then Suc (mx - ex_attempt x) else 0
                                | None \<Rightarrow> 0)"

definition sched_weight :: "nat \<Rightarrow> rows \<Rightarrow> string \<Rightarrow> schedule option \<Rightarrow> nat" where
  "sched_weight mx R i r = (case r of Some s \<Rightarrow> if runs s \<and> \<not> waits R i then Suc mx else 0
                                   | None \<Rightarrow> 0)"

text \<open>Summed over any finite sets of keys that hold the keys of the tables.\<close>

definition work :: "nat \<Rightarrow> string set \<Rightarrow> string set \<Rightarrow> rows \<times> scheds \<Rightarrow> nat" where
  "work mx K I = (\<lambda>(R, Sc). (\<Sum>k\<in>K. row_weight mx (R k)) + (\<Sum>i\<in>I. sched_weight mx R i (Sc i)))"

lemma sum_at:
  assumes "finite K" and "k \<in> K" and "\<And>j. j \<in> K \<Longrightarrow> j \<noteq> k \<Longrightarrow> g j = f j"
  shows "sum g K + f k = sum f K + (g k :: nat)"
proof -
  have "sum g (K - {k}) = sum f (K - {k})" by (rule sum.cong) (use assms(3) in auto)
  then show ?thesis using assms(1,2) by (simp add: sum.remove [of K k])
qed

lemma sum_le_at:
  assumes "\<And>j. j \<in> K \<Longrightarrow> g j \<le> (f j :: nat)"
  shows "sum g K \<le> sum f K"
  using assms by (rule sum_mono)

lemma waits_upd:
  assumes "R k = None \<or> (\<exists>x. R k = Some x \<and> ex_schedule x = ex_schedule x')"
    and "j \<noteq> ex_schedule x'"
  shows "waits (R(k \<mapsto> x')) j \<longleftrightarrow> waits R j"
  using assms unfolding waits_def by (metis fun_upd_apply option.distinct(1) option.inject)

lemma waits_put_off:
  assumes "R k = Some x" and "unresolved x" and "unresolved x'" and "ex_schedule x' = ex_schedule x"
  shows "waits (R(k \<mapsto> x')) j \<longleftrightarrow> waits R j"
  using assms unfolding waits_def by (metis fun_upd_apply option.inject)

lemma xstep_work:
  assumes "xstep mx (R, Sc) (R', Sc')" and "finite K" "dom R' \<subseteq> K" and "finite I" "dom Sc \<subseteq> I"
  shows "work mx K I (R', Sc') < work mx K I (R, Sc)"
  using assms(1)
proof (cases rule: xstepE [consumes 1, case_names queued refused put_off exhausted])
  case (queued k s x)
  let ?i = "ex_schedule x"
  have kK: "k \<in> K" and iI: "?i \<in> I" using queued(2,8) assms(3,5) by auto
  have w: "waits R' ?i" using queued(5,8) unfolding waits_def by auto
  have other: "waits R' j \<longleftrightarrow> waits R j" if "j \<noteq> ?i" for j
    using waits_upd [of R k x j] queued(1,8) that by auto
  have "(\<Sum>j\<in>K. row_weight mx (R' j)) + row_weight mx (R k) =
      (\<Sum>j\<in>K. row_weight mx (R j)) + row_weight mx (R' k)"
    using queued(8) by (intro sum_at [OF assms(2) kK]) simp
  moreover have "(\<Sum>j\<in>I. sched_weight mx R' j (Sc' j)) + sched_weight mx R ?i (Sc ?i) =
      (\<Sum>j\<in>I. sched_weight mx R j (Sc j)) + sched_weight mx R' ?i (Sc' ?i)"
    using queued(9) other by (intro sum_at [OF assms(4) iI]) (simp add: sched_weight_def split: option.splits)
  moreover have "1 \<le> mx" using queued(5,6,7) by (simp add: row_ok_def)
  ultimately show ?thesis
    using queued w by (simp add: work_def row_weight_def sched_weight_def)
next
  case (refused k s x)
  let ?i = "ex_schedule x"
  have kK: "k \<in> K" and iI: "?i \<in> I" using refused(2,6) assms(3,5) by auto
  have w: "waits R' j \<longleftrightarrow> waits R j" for j
    using refused(1,5,6) status_disjoint [of x] unfolding waits_def
    by (metis fun_upd_apply option.distinct(1) option.inject)
  have "(\<Sum>j\<in>K. row_weight mx (R' j)) + row_weight mx (R k) =
      (\<Sum>j\<in>K. row_weight mx (R j)) + row_weight mx (R' k)"
    using refused(6) by (intro sum_at [OF assms(2) kK]) simp
  moreover have "(\<Sum>j\<in>I. sched_weight mx R' j (Sc' j)) + sched_weight mx R ?i (Sc ?i) =
      (\<Sum>j\<in>I. sched_weight mx R j (Sc j)) + sched_weight mx R' ?i (Sc' ?i)"
    using refused(7) w by (intro sum_at [OF assms(4) iI]) (simp add: sched_weight_def split: option.splits)
  ultimately show ?thesis
    using refused status_disjoint [of x] by (auto simp: work_def row_weight_def sched_weight_def)
next
  case (put_off k x x')
  have kK: "k \<in> K" using put_off(8) assms(3) by auto
  have w: "waits R' j \<longleftrightarrow> waits R j" for j
    unfolding put_off(8) using put_off(1,2,4,5) by (rule_tac waits_put_off) auto
  have "(\<Sum>j\<in>K. row_weight mx (R' j)) + row_weight mx (R k) =
      (\<Sum>j\<in>K. row_weight mx (R j)) + row_weight mx (R' k)"
    using put_off(8) by (intro sum_at [OF assms(2) kK]) simp
  moreover have "row_weight mx (R' k) < row_weight mx (R k)"
    using put_off by (simp add: row_weight_def)
  moreover have "sched_weight mx R' j (Sc' j) = sched_weight mx R j (Sc j)" for j
    using w put_off(9) by (simp add: sched_weight_def split: option.splits)
  ultimately show ?thesis by (simp add: work_def)
next
  case (exhausted k x x' s)
  have kK: "k \<in> K" using exhausted(6) assms(3) by auto
  have other: "waits R' j \<longleftrightarrow> waits R j" if "j \<noteq> ex_schedule x" for j
    using waits_upd [of R k x' j] exhausted(1,3,6) that by auto
  have "(\<Sum>j\<in>K. row_weight mx (R' j)) + row_weight mx (R k) =
      (\<Sum>j\<in>K. row_weight mx (R j)) + row_weight mx (R' k)"
    using exhausted(6) by (intro sum_at [OF assms(2) kK]) simp
  moreover have "(\<Sum>j\<in>I. sched_weight mx R' j (Sc' j)) \<le> (\<Sum>j\<in>I. sched_weight mx R j (Sc j))"
    by (rule sum_mono) (use exhausted(7) other in \<open>auto simp: sched_weight_def split: option.splits if_splits\<close>)
  moreover have "row_weight mx (R' k) < row_weight mx (R k)"
    using exhausted status_disjoint [of x'] by (auto simp: row_weight_def)
  ultimately show ?thesis by (simp add: work_def)
qed

section \<open>What the steps keep\<close>

definition tables_ok :: "nat \<Rightarrow> rows \<times> scheds \<Rightarrow> bool" where
  "tables_ok mx = (\<lambda>(R, Sc). \<forall>k x. R k = Some x \<longrightarrow> row_ok mx x \<and> Sc (ex_schedule x) \<noteq> None)"

lemma row_ok_given_up: "given_up x \<Longrightarrow> row_ok mx x"
  using status_disjoint by (auto simp: row_ok_def)

lemma xstep_tables_ok:
  assumes "xstep mx p p'" and "tables_ok mx p"
  shows "tables_ok mx p'"
  using assms by (cases rule: xstep.cases) (auto simp: tables_ok_def row_ok_given_up)

text \<open>A row stays as it is or moves on, never away from given up; a failed schedule stays failed.\<close>

lemma xstep_rows:
  assumes "xstep mx (R, Sc) (R', Sc')" and "R k = Some x"
  shows "\<exists>x'. R' k = Some x' \<and> ex_schedule x' = ex_schedule x \<and> (\<not> unresolved x \<longrightarrow> x' = x)"
  using assms by (cases rule: xstepE) auto

lemma xstep_scheds:
  assumes "xstep mx (R, Sc) (R', Sc')" and "Sc i = Some s"
  shows "Sc' i = Some s \<or> Sc' i = Some (failed_schedule s)"
  using assms by (cases rule: xstepE) auto

lemma xstep_dom: "xstep mx (R, Sc) (R', Sc') \<Longrightarrow> dom Sc' = dom Sc"
  by (cases rule: xstepE) (auto split: if_splits)

text \<open>A row is resolved together with its schedule.\<close>

lemma xstep_resolves:
  assumes "xstep mx (R, Sc) (R', Sc')" and "R k = Some x" "unresolved x"
    and "R' k = Some x'" "\<not> unresolved x'"
  shows "given_up x' \<and> (\<exists>s. Sc' (ex_schedule x) = Some (failed_schedule s))"
  using assms by (cases rule: xstepE) (auto split: if_splits)

section \<open>Handlers take steps\<close>

definition tables :: "exec_state \<Rightarrow> rows \<times> scheds" where
  "tables st = (exec_rows st, sched_rows st)"

definition keys_unique :: "exec_state \<Rightarrow> bool" where
  "keys_unique st \<longleftrightarrow> tb_wf (xs_execs st) \<and> tb_wf (sd_schedules (xs_db st))"

text \<open>No lock is live: those that remain were left by workers that died, and have expired.\<close>

definition locks_over :: "int \<Rightarrow> exec_state \<Rightarrow> bool" where
  "locks_over now st \<longleftrightarrow> (\<forall>k e. xs_locks st k = Some e \<longrightarrow> e \<le> now)"

text \<open>The source has no other result.\<close>

lemma submit_fails: "\<exists>e. submitScheduledTransaction xe s = Failure e"
  by (simp add: submitScheduledTransaction_def split: sum.splits)

lemma acquire_over:
  assumes "locks_over now st" and "acquireLock xe now k st = (l, st1)"
  shows "l \<noteq> Held" "xs_execs st1 = xs_execs st" "xs_db st1 = xs_db st"
    "locks_over now (releaseLock xe k st1)" "locks_over now (release_if_acquired xe l k st1)"
  using assms
  by (auto simp: acquireLock_def locks_over_def releaseLock_def release_if_acquired_def
      split: if_splits option.splits dest: leD)

lemma release_fields [simp]:
  "xs_execs (releaseLock xe k st) = xs_execs st" "xs_db (releaseLock xe k st) = xs_db st"
  "xs_execs (release_if_acquired xe l k st) = xs_execs st"
  "xs_db (release_if_acquired xe l k st) = xs_db st"
  by (simp_all add: releaseLock_def release_if_acquired_def)

lemma on_db_fields [simp]:
  "xs_execs (on_db f st) = xs_execs st" "xs_locks (on_db f st) = xs_locks st"
  "xs_db (on_db f st) = f (xs_db st)" "xs_running (on_db f st) = xs_running st"
  by (simp_all add: on_db_def)

lemma notify_fields [simp]:
  "xs_execs (notifyFailure xe i s k st) = xs_execs st"
  "xs_locks (notifyFailure xe i s k st) = xs_locks st"
  "sd_schedules (xs_db (notifyFailure xe i s k st)) = sd_schedules (xs_db st)"
  by (simp_all add: notifyFailure_def)

lemma fail_schedule_fields [simp]:
  "xs_execs (fail_schedule i st) = xs_execs st" "xs_locks (fail_schedule i st) = xs_locks st"
  "sd_schedules (xs_db (fail_schedule i st)) =
     tb_set i failed_schedule (sd_schedules (xs_db st))"
  by (simp_all add: fail_schedule_def failed_schedule_def [abs_def])

lemma locks_over_cong: "xs_locks st' = xs_locks st \<Longrightarrow> locks_over now st' = locks_over now st"
  by (simp add: locks_over_def)

lemma finalize_fields [simp]:
  "xs_db (finalizeClaim xe c f st) = xs_db st"
  "xs_execs (finalizeClaim xe c f st) =
     tb_set (cl_id c) (\<lambda>x. (f x)\<lparr>ex_lease := None\<rparr>) (xs_execs st)"
  "xs_locks (finalizeClaim xe c f st) = xs_locks (releaseLock xe (cl_lock c) st)"
  by (simp_all add: finalizeClaim_def releaseLock_def)

text \<open>How a failed submission is resolved: the row is put off, or given up with its schedule.\<close>

definition resolve_failure ::
  "exec_env \<Rightarrow> int \<Rightarrow> string \<Rightarrow> schedule \<Rightarrow> claim \<Rightarrow> nat \<Rightarrow> horizon_error \<Rightarrow> bool \<Rightarrow> exec_state \<Rightarrow> exec_state"
  where
  "resolve_failure xe t i s c n e again st =
     (if again then requeue xe t c n e st
      else notifyFailure xe i s (cl_id c) (fail_schedule i (give_up xe t c n e st)))"

lemma resolve_failure_rows:
  assumes "exec_rows st (cl_id c) = Some x" and "sched_rows st i = Some s"
    and "i = ex_schedule x" and "tb_wf (xs_execs st)" "tb_wf (sd_schedules (xs_db st))"
    and "locks_over now (releaseLock xe (cl_lock c) st)"
    and "st' = resolve_failure xe t i s c n e again st"
  shows "\<exists>x'. exec_rows st' = (exec_rows st)(cl_id c \<mapsto> x') \<and> ex_schedule x' = ex_schedule x \<and>
      (if again then unresolved x' \<and> ex_attempt x' = n \<and> ex_claim x' = None \<and>
           ex_retry x' = Some (t + xe_interval xe) \<and> sched_rows st' = sched_rows st
       else given_up x' \<and> ex_attempt x' = n \<and>
         sched_rows st' = (sched_rows st)(i \<mapsto> failed_schedule s))"
    and "keys_unique st'" and "locks_over now st'"
  using assms
  by (auto simp: resolve_failure_def requeue_def give_up_def tb_row_set_Some unresolved_def
      given_up_def keys_unique_def locks_over_def)

lemma due_unfold:
  "executeDueTransaction xe t1 t2 i s st =
     (case claimExecution xe t1 (executionIdForRun t1 i s) i s st of
        (Inr (Some c), st1) \<Rightarrow> (case submitScheduledTransaction xe s of
             Success hash \<Rightarrow> advanceSchedule t2 i s (succeed xe t2 c hash st1)
           | Failure e \<Rightarrow> resolve_failure xe t2 i s c 1 e (isRetryableError (he_code e)) st1)
      | (_, st1) \<Rightarrow> st1)"
  by (simp add: executeDueTransaction_def resolve_failure_def
      split: prod.splits sum.splits option.splits submit_result.splits)

lemma retry_unfold:
  "handleRetry xe t1 t2 eid x st =
     (case tb_row (sd_schedules (xs_db st)) (ex_schedule x) of
        None \<Rightarrow> st
      | Some s \<Rightarrow> (case claimRetry xe t1 eid st of
           (None, st1) \<Rightarrow> st1
         | (Some c, st1) \<Rightarrow> (case submitScheduledTransaction xe s of
             Success hash \<Rightarrow> advanceSchedule t2 (ex_schedule x) s (succeed xe t2 c hash st1)
           | Failure e \<Rightarrow> resolve_failure xe t2 (ex_schedule x) s c (ex_attempt x + 1) e
               (isRetryableError (he_code e) \<and> ex_attempt x + 1 < xe_max xe) st1)))"
  by (simp add: handleRetry_def resolve_failure_def Let_def
      split: prod.splits option.splits submit_result.splits)

lemma release_execs: "releaseLock xe k (st\<lparr>xs_execs := t\<rparr>) = (releaseLock xe k st)\<lparr>xs_execs := t\<rparr>"
  by (simp add: releaseLock_def)

lemma locks_over_execs [simp]: "locks_over now (st\<lparr>xs_execs := t\<rparr>) = locks_over now st"
  by (simp add: locks_over_def)

lemma unique_detected: "isUniqueViolation unique_error"
  by (simp add: isUniqueViolation_def unique_error_def)

lemma claim_new:
  assumes over: "locks_over now st" and wf: "keys_unique st"
    and run: "claimExecution xe now eid i s st = (r, st1)"
  shows "(r = Inr None \<and> tables st1 = tables st \<and> keys_unique st1 \<and> locks_over now st1 \<and>
      exec_rows st eid \<noteq> None) \<or>
    (\<exists>c. r = Inr (Some c) \<and> cl_id c = eid \<and> exec_rows st eid = None \<and> keys_unique st1 \<and>
      exec_rows st1 = (exec_rows st)(eid \<mapsto> new_execution now (now + xe_lease xe) i s) \<and>
      sched_rows st1 = sched_rows st \<and> locks_over now (releaseLock xe (cl_lock c) st1))"
proof -
  define lk where "lk = LOCK_KEY_PREFIX @ eid"
  obtain l sl where acq: "acquireLock xe now lk st = (l, sl)" by force
  note A = acquire_over [OF over acq]
  show ?thesis
  proof (cases "tb_insert eid (new_execution now (now + xe_lease xe) i s) (xs_execs sl)")
    case None
    then have "r = Inr None" "st1 = release_if_acquired xe l lk sl"
      using run A(1) unique_detected
      by (simp_all add: claimExecution_def Let_def acq lk_def [symmetric])
    moreover have "exec_rows st eid \<noteq> None" using None A(2) db.ins_None by metis
    ultimately show ?thesis using A wf by (simp add: tables_def keys_unique_def)
  next
    case (Some t)
    then have "r = Inr (Some \<lparr>cl_id = eid, cl_lock = lk, cl_lease = now + xe_lease xe\<rparr>)"
      "st1 = sl\<lparr>xs_execs := t\<rparr>"
      using run A(1) by (simp_all add: claimExecution_def Let_def acq lk_def [symmetric])
    then show ?thesis
      using A wf db.row_ins [OF Some] tb_insert_fresh [OF Some] db.wf_ins [OF _ Some]
      by (simp add: keys_unique_def release_execs)
  qed
qed

lemma claim_again:
  assumes over: "locks_over now st" and wf: "keys_unique st"
    and run: "claimRetry xe now eid st = (r, st1)"
    and x: "exec_rows st eid = Some x" "reclaimable now x"
  shows "\<exists>c x'. r = Some c \<and> cl_id c = eid \<and> keys_unique st1 \<and>
      exec_rows st1 = (exec_rows st)(eid \<mapsto> x') \<and> ex_schedule x' = ex_schedule x \<and>
      sched_rows st1 = sched_rows st \<and> locks_over now (releaseLock xe (cl_lock c) st1)"
proof -
  define lk where "lk = LOCK_KEY_PREFIX @ eid"
  obtain l sl where acq: "acquireLock xe now lk st = (l, sl)" by force
  note A = acquire_over [OF over acq]
  let ?f = "\<lambda>x. x\<lparr>ex_claim := Some CLAIMED, ex_lease := Some (now + xe_lease xe)\<rparr>"
  let ?u = "tb_update (\<lambda>k x. k = eid \<and> reclaimable now x) ?f (xs_execs sl)"
  have wf': "tb_wf (xs_execs sl)" using wf A(2) by (simp add: keys_unique_def)
  have "fst ?u = 1"
    unfolding db.cas_wins [OF wf'] using x A(2) by auto
  then have "r = Some \<lparr>cl_id = eid, cl_lock = lk, cl_lease = now + xe_lease xe\<rparr>"
    "st1 = sl\<lparr>xs_execs := snd ?u\<rparr>"
    using run A(1)
    by (simp_all add: claimRetry_def Let_def acq lk_def [symmetric] split_beta)
  moreover have "tb_row (snd ?u) = (exec_rows st)(eid \<mapsto> ?f x)"
  proof
    fix k show "tb_row (snd ?u) k = ((exec_rows st)(eid \<mapsto> ?f x)) k"
      using x A(2) by (cases "tb_row (xs_execs st) k") (auto simp: db.row_upd)
  qed
  ultimately show ?thesis
    using A wf by (intro exI [of _ "\<lparr>cl_id = eid, cl_lock = lk, cl_lease = now + xe_lease xe\<rparr>"]
        exI [of _ "?f x"]) (simp add: keys_unique_def release_execs)
qed

lemma due_step:
  assumes over: "locks_over t1 st" and wf: "keys_unique st" and mx: "1 \<le> xe_max xe"
    and s: "sched_rows st i = Some s" "runs s" "\<not> waits (exec_rows st) i"
    and st'_def: "st' = executeDueTransaction xe t1 t2 i s st"
  shows "(tables st' = tables st \<or> xstep (xe_max xe) (tables st) (tables st')) \<and>
    keys_unique st' \<and> locks_over t1 st' \<and>
    (\<forall>j. j \<noteq> i \<longrightarrow> sched_rows st' j = sched_rows st j \<and>
      (waits (exec_rows st') j \<longleftrightarrow> waits (exec_rows st) j))"
proof -
  let ?k = "executionIdForRun t1 i s"
  obtain r st1 where run: "claimExecution xe t1 ?k i s st = (r, st1)" by force
  from claim_new [OF over wf run] show ?thesis
  proof
    assume "r = Inr None \<and> tables st1 = tables st \<and> keys_unique st1 \<and> locks_over t1 st1 \<and>
      exec_rows st ?k \<noteq> None"
    then show ?thesis using run by (simp add: st'_def due_unfold tables_def)
  next
    assume "\<exists>c. r = Inr (Some c) \<and> cl_id c = ?k \<and> exec_rows st ?k = None \<and> keys_unique st1 \<and>
      exec_rows st1 = (exec_rows st)(?k \<mapsto> new_execution t1 (t1 + xe_lease xe) i s) \<and>
      sched_rows st1 = sched_rows st \<and> locks_over t1 (releaseLock xe (cl_lock c) st1)"
    then obtain c where c: "r = Inr (Some c)" "cl_id c = ?k" "exec_rows st ?k = None"
      "keys_unique st1" "sched_rows st1 = sched_rows st" "locks_over t1 (releaseLock xe (cl_lock c) st1)"
      "exec_rows st1 = (exec_rows st)(?k \<mapsto> new_execution t1 (t1 + xe_lease xe) i s)" by blast
    obtain e where e: "submitScheduledTransaction xe s = Failure e" using submit_fails by blast
    define again where "again = isRetryableError (he_code e)"
    have st': "st' = resolve_failure xe t2 i s c 1 e again st1"
      by (simp add: st'_def due_unfold run c(1) e again_def)
    have row: "exec_rows st1 (cl_id c) = Some (new_execution t1 (t1 + xe_lease xe) i s)"
      by (simp add: c(2,7))
    have sched: "sched_rows st1 i = Some s" using s(1) c(5) by simp
    have wf1: "tb_wf (xs_execs st1)" "tb_wf (sd_schedules (xs_db st1))"
      using c(4) by (simp_all add: keys_unique_def)
    note RF = resolve_failure_rows [OF row sched _ wf1 c(6) st']
    have i: "i = ex_schedule (new_execution t1 (t1 + xe_lease xe) i s)"
      by (simp add: new_execution_def)
    obtain x' where x': "exec_rows st' = (exec_rows st)(?k \<mapsto> x')" "ex_schedule x' = i"
      "if again then unresolved x' \<and> ex_attempt x' = 1 \<and> ex_claim x' = None \<and>
           ex_retry x' = Some (t2 + xe_interval xe) \<and> sched_rows st' = sched_rows st
       else given_up x' \<and> ex_attempt x' = 1 \<and>
         sched_rows st' = (sched_rows st)(i \<mapsto> failed_schedule s)"
      using RF(1) [OF i] unfolding c(2,5,7) i [symmetric] fun_upd_upd by blast
    note keep = RF(2,3) [OF i]
    have "xstep (xe_max xe) (tables st) (tables st')"
    proof (cases again)
      case True
      then show ?thesis
        using x' c s mx by (auto simp: tables_def row_ok_def intro!: xstep.queued)
    next
      case False
      then show ?thesis
        using x' c s by (auto simp: tables_def intro!: xstep.refused)
    qed
    moreover have "sched_rows st' j = sched_rows st j" if "j \<noteq> i" for j
      using x'(3) that by (simp split: if_splits)
    moreover have "waits (exec_rows st') j \<longleftrightarrow> waits (exec_rows st) j" if "j \<noteq> i" for j
      unfolding x'(1) using waits_upd c(3) x'(2) that by blast
    ultimately show ?thesis using keep by blast
  qed
qed

lemma retry_step:
  assumes over: "locks_over t1 st" and wf: "keys_unique st"
    and x: "exec_rows st eid = Some x" "reclaimable t1 x" "sched_rows st (ex_schedule x) \<noteq> None"
    and st'_def: "st' = handleRetry xe t1 t2 eid x st"
  shows "xstep (xe_max xe) (tables st) (tables st') \<and> keys_unique st' \<and> locks_over t1 st' \<and>
    (\<forall>k. k \<noteq> eid \<longrightarrow> exec_rows st' k = exec_rows st k)"
proof -
  obtain s where s: "sched_rows st (ex_schedule x) = Some s" using x(3) by blast
  obtain r st1 where run: "claimRetry xe t1 eid st = (r, st1)" by force
  from claim_again [OF over wf run x(1,2)] obtain c y where
    c: "r = Some c" "cl_id c = eid" "keys_unique st1" "exec_rows st1 = (exec_rows st)(eid \<mapsto> y)"
      "ex_schedule y = ex_schedule x" "sched_rows st1 = sched_rows st"
      "locks_over t1 (releaseLock xe (cl_lock c) st1)" by blast
  obtain e where e: "submitScheduledTransaction xe s = Failure e" using submit_fails by blast
  define again where "again \<longleftrightarrow> isRetryableError (he_code e) \<and> ex_attempt x + 1 < xe_max xe"
  have st': "st' = resolve_failure xe t2 (ex_schedule x) s c (ex_attempt x + 1) e again st1"
    by (simp add: st'_def retry_unfold s run c(1) e again_def)
  have row: "exec_rows st1 (cl_id c) = Some y" by (simp add: c(2,4))
  have sched: "sched_rows st1 (ex_schedule x) = Some s" using s c(6) by simp
  have wf1: "tb_wf (xs_execs st1)" "tb_wf (sd_schedules (xs_db st1))"
    using c(3) by (simp_all add: keys_unique_def)
  note RF = resolve_failure_rows [OF row sched c(5) [symmetric] wf1 c(7) st']
  obtain x' where x': "exec_rows st' = (exec_rows st)(eid \<mapsto> x')" "ex_schedule x' = ex_schedule x"
    "if again then unresolved x' \<and> ex_attempt x' = ex_attempt x + 1 \<and> ex_claim x' = None \<and>
         ex_retry x' = Some (t2 + xe_interval xe) \<and> sched_rows st' = sched_rows st
     else given_up x' \<and> ex_attempt x' = ex_attempt x + 1 \<and>
       sched_rows st' = (sched_rows st)(ex_schedule x \<mapsto> failed_schedule s)"
    using RF(1) unfolding c(2,4,5,6) fun_upd_upd by blast
  have un: "unresolved x" using x(2) by (simp add: reclaimable_def unresolved_def)
  have "xstep (xe_max xe) (tables st) (tables st')"
  proof (cases again)
    case True
    then have "ex_attempt x + 1 < xe_max xe" by (simp add: again_def)
    with True x' x(1) un show ?thesis
      by (auto simp: tables_def row_ok_def intro!: xstep.put_off)
  next
    case False
    with x' x(1) un s show ?thesis
      by (auto simp: tables_def intro!: xstep.exhausted)
  qed
  moreover have "\<forall>k. k \<noteq> eid \<longrightarrow> exec_rows st' k = exec_rows st k"
    by (simp add: x'(1))
  ultimately show ?thesis using RF(2,3) by blast
qed

section \<open>Cycles\<close>

lemma nonempty_pairs: "xs \<noteq> [] \<longleftrightarrow> (\<exists>k x. (k, x) \<in> set xs)"
  by (cases xs) auto

lemma has_pending_iff: "keys_unique st \<Longrightarrow> has_pending i st \<longleftrightarrow> waits (exec_rows st) i"
proof -
  assume "keys_unique st"
  then have wf: "tb_wf (xs_execs st)" by (simp add: keys_unique_def)
  let ?s = "tb_select (\<lambda>_ x. ex_schedule x = i \<and> ex_status x = ''pending'') (xs_execs st)"
  show ?thesis
    unfolding has_pending_def nonempty_pairs waits_def unresolved_def db.in_sel [OF wf] by blast
qed

abbreviation steps :: "nat \<Rightarrow> rows \<times> scheds \<Rightarrow> rows \<times> scheds \<Rightarrow> bool" where
  "steps mx \<equiv> (xstep mx)\<^sup>*\<^sup>*"

lemma due_loop:
  assumes "locks_over now st" and "keys_unique st" and "1 \<le> xe_max xe"
    and "distinct (map fst L)"
    and "\<forall>(i, s) \<in> set L. sched_rows st i = Some s \<and> runs s \<and> \<not> waits (exec_rows st) i"
  shows "let st' = fold (\<lambda>(i, s). executeDueTransaction xe now now i s) L st
    in steps (xe_max xe) (tables st) (tables st') \<and> keys_unique st' \<and> locks_over now st'"
  using assms
proof (induction L arbitrary: st)
  case (Cons p L)
  obtain i s where p: "p = (i, s)" by (cases p)
  let ?st = "executeDueTransaction xe now now i s st"
  have D: "(tables ?st = tables st \<or> xstep (xe_max xe) (tables st) (tables ?st)) \<and>
    keys_unique ?st \<and> locks_over now ?st \<and>
    (\<forall>j. j \<noteq> i \<longrightarrow> sched_rows ?st j = sched_rows st j \<and>
      (waits (exec_rows ?st) j \<longleftrightarrow> waits (exec_rows st) j))"
    by (rule due_step [OF Cons.prems(1,2,3)]) (use Cons.prems(5) p in auto)
  have "sched_rows ?st j = Some r \<and> runs r \<and> \<not> waits (exec_rows ?st) j"
    if jr: "(j, r) \<in> set L" for j r
  proof -
    have "j \<noteq> i" using Cons.prems(4) p jr by force
    with D jr Cons.prems(5) show ?thesis by auto
  qed
  then have "\<forall>(j, r) \<in> set L. sched_rows ?st j = Some r \<and> runs r \<and> \<not> waits (exec_rows ?st) j"
    by blast
  with D Cons.prems have "let st' = fold (\<lambda>(i, s). executeDueTransaction xe now now i s) L ?st
    in steps (xe_max xe) (tables ?st) (tables st') \<and> keys_unique st' \<and> locks_over now st'"
    by (intro Cons.IH) auto
  moreover have "steps (xe_max xe) (tables st) (tables ?st)" using D by auto
  ultimately show ?case by (auto simp: p Let_def)
qed simp

lemma retry_loop:
  assumes "locks_over now st" and "keys_unique st" and "distinct (map fst L)"
    and "\<forall>(k, x) \<in> set L. exec_rows st k = Some x \<and> reclaimable now x \<and> sched_rows st (ex_schedule x) \<noteq> None"
  shows "let st' = fold (\<lambda>(k, x). handleRetry xe now now k x) L st
    in steps (xe_max xe) (tables st) (tables st') \<and> keys_unique st' \<and> locks_over now st' \<and>
      (L \<noteq> [] \<longrightarrow> (xstep (xe_max xe))\<^sup>+\<^sup>+ (tables st) (tables st'))"
  using assms
proof (induction L arbitrary: st)
  case (Cons p L)
  obtain k x where p: "p = (k, x)" by (cases p)
  let ?st = "handleRetry xe now now k x st"
  have D: "xstep (xe_max xe) (tables st) (tables ?st) \<and> keys_unique ?st \<and> locks_over now ?st \<and>
    (\<forall>j. j \<noteq> k \<longrightarrow> exec_rows ?st j = exec_rows st j)"
    by (rule retry_step [OF Cons.prems(1,2)]) (use Cons.prems(4) p in auto)
  have dom: "dom (sched_rows ?st) = dom (sched_rows st)"
    using D xstep_dom unfolding tables_def by blast
  have "exec_rows ?st j = Some y \<and> reclaimable now y \<and> sched_rows ?st (ex_schedule y) \<noteq> None"
    if jy: "(j, y) \<in> set L" for j y
  proof -
    have "j \<noteq> k" using Cons.prems(3) p jy by force
    moreover have "exec_rows st j = Some y" "reclaimable now y" "ex_schedule y \<in> dom (sched_rows st)"
      using jy Cons.prems(4) by auto
    ultimately show ?thesis using D dom by auto
  qed
  then have "\<forall>(j, y) \<in> set L. exec_rows ?st j = Some y \<and> reclaimable now y \<and>
      sched_rows ?st (ex_schedule y) \<noteq> None" by blast
  with D Cons.prems have "let st' = fold (\<lambda>(k, x). handleRetry xe now now k x) L ?st
    in steps (xe_max xe) (tables ?st) (tables st') \<and> keys_unique st' \<and> locks_over now st' \<and>
      (L \<noteq> [] \<longrightarrow> (xstep (xe_max xe))\<^sup>+\<^sup>+ (tables ?st) (tables st'))"
    by (intro Cons.IH) auto
  with D show ?case by (auto simp: p Let_def)
qed simp

definition good :: "exec_env \<Rightarrow> exec_state \<Rightarrow> bool" where
  "good xe st \<longleftrightarrow> keys_unique st \<and> tables_ok (xe_max xe) (tables st) \<and> \<not> xs_running st \<and> 1 \<le> xe_max xe"

lemma running_fields [simp]:
  "tables (st\<lparr>xs_running := b\<rparr>) = tables st" "keys_unique (st\<lparr>xs_running := b\<rparr>) = keys_unique st"
  "locks_over now (st\<lparr>xs_running := b\<rparr>) = locks_over now st"
  by (simp_all add: tables_def keys_unique_def locks_over_def)

lemma steps_tables_ok: "steps mx p p' \<Longrightarrow> tables_ok mx p \<Longrightarrow> tables_ok mx p'"
  by (induction rule: rtranclp.induct) (auto dest: xstep_tables_ok)

lemma distinct_js_sort: "distinct (map f (js_sort cmp xs)) = distinct (map f xs)"
  by (rule mset_eq_imp_distinct_iff) simp

lemma run_due_steps:
  assumes "locks_over now st" and "keys_unique st" and "1 \<le> xe_max xe"
  shows "steps (xe_max xe) (tables st) (tables (run_due xe now st)) \<and>
    keys_unique (run_due xe now st) \<and> locks_over now (run_due xe now st)"
proof -
  let ?L = "getDueTransactions now st"
  have wf: "tb_wf (sd_schedules (xs_db st))" using assms(2) by (simp add: keys_unique_def)
  have "\<forall>(i, s) \<in> set ?L. sched_rows st i = Some s \<and> runs s \<and> \<not> waits (exec_rows st) i"
    using db.in_sel [OF wf]
    by (auto simp: getDueTransactions_def is_due_def runs_def has_pending_iff [OF assms(2)])
  moreover have "distinct (map fst ?L)"
    by (simp add: getDueTransactions_def db.sel_distinct [OF wf])
  ultimately show ?thesis
    using due_loop [OF assms] unfolding run_due_def Let_def by blast
qed

lemma retry_due_reclaimable:
  "retry_due xe now x \<Longrightarrow> row_ok mx x \<Longrightarrow> reclaimable now x"
  by (auto simp: retry_due_def row_ok_def reclaimable_def unresolved_def split: option.splits)

lemma run_retries_steps:
  assumes "locks_over now st" and "keys_unique st" and "tables_ok (xe_max xe) (tables st)"
  shows "steps (xe_max xe) (tables st) (tables (run_retries xe now st)) \<and>
    keys_unique (run_retries xe now st) \<and> locks_over now (run_retries xe now st) \<and>
    (\<forall>k x. exec_rows st k = Some x \<and> retry_due xe now x \<longrightarrow>
      (xstep (xe_max xe))\<^sup>+\<^sup>+ (tables st) (tables (run_retries xe now st)))"
proof -
  let ?S = "tb_select (\<lambda>_. retry_due xe now) (xs_execs st)"
  let ?L = "getPendingRetries xe now st"
  have wf: "tb_wf (xs_execs st)" using assms(2) by (simp add: keys_unique_def)
  have sub: "(k, x) \<in> set ?S" if "(k, x) \<in> set ?L" for k x
    using that set_take_subset unfolding getPendingRetries_def by (metis set_js_sort subsetD)
  have "exec_rows st k = Some x \<and> reclaimable now x \<and> sched_rows st (ex_schedule x) \<noteq> None"
    if "(k, x) \<in> set ?L" for k x
  proof -
    have "exec_rows st k = Some x" "retry_due xe now x"
      using sub [OF that] db.in_sel [OF wf] by auto
    then show ?thesis
      using assms(3) retry_due_reclaimable unfolding tables_ok_def tables_def by blast
  qed
  then have "\<forall>(k, x) \<in> set ?L. exec_rows st k = Some x \<and> reclaimable now x \<and>
      sched_rows st (ex_schedule x) \<noteq> None" by blast
  moreover have "distinct (map fst ?L)"
    using db.sel_distinct [OF wf] unfolding getPendingRetries_def take_map [symmetric]
    by (intro distinct_take) (simp add: distinct_js_sort)
  ultimately have "let st' = run_retries xe now st
    in steps (xe_max xe) (tables st) (tables st') \<and> keys_unique st' \<and> locks_over now st' \<and>
      (?L \<noteq> [] \<longrightarrow> (xstep (xe_max xe))\<^sup>+\<^sup>+ (tables st) (tables st'))"
    using retry_loop [OF assms(1,2)] unfolding run_retries_def by blast
  moreover have "?L \<noteq> []" if "exec_rows st k = Some x" "retry_due xe now x" for k x
  proof -
    have "(k, x) \<in> set ?S" using that db.in_sel [OF wf] by simp
    then have "js_sort (retry_before xe) ?S \<noteq> []" by (metis empty_iff empty_set set_js_sort)
    then show ?thesis by (simp add: getPendingRetries_def)
  qed
  ultimately show ?thesis by (meson)
qed

lemma cycle_steps:
  assumes "locks_over now st" and "good xe st"
  shows "steps (xe_max xe) (tables st) (tables (executeCycle xe now st)) \<and>
    good xe (executeCycle xe now st) \<and> locks_over now (executeCycle xe now st) \<and>
    (\<forall>k x. exec_rows st k = Some x \<and> retry_due xe now x \<longrightarrow>
      (xstep (xe_max xe))\<^sup>+\<^sup>+ (tables st) (tables (executeCycle xe now st)))"
proof -
  let ?a = "st\<lparr>xs_running := True\<rparr>"
  let ?b = "run_due xe now ?a" and ?c = "run_retries xe now (run_due xe now ?a)"
  have run: "executeCycle xe now st = ?c\<lparr>xs_running := False\<rparr>"
    using assms(2) by (simp add: executeCycle_def good_def)
  have due: "steps (xe_max xe) (tables st) (tables ?b) \<and> keys_unique ?b \<and> locks_over now ?b"
    using run_due_steps [of now ?a xe] assms by (simp add: good_def)
  then have ok: "tables_ok (xe_max xe) (tables ?b)"
    using steps_tables_ok assms(2) unfolding good_def by blast
  note retries = run_retries_steps [of now ?b xe, OF _ _ ok]
  have all: "steps (xe_max xe) (tables ?b) (tables ?c)" "keys_unique ?c" "locks_over now ?c"
    using retries due by blast+
  then have "good xe (executeCycle xe now st)"
    using steps_tables_ok [OF all(1) ok] assms(2) by (simp add: run good_def)
  moreover have "(xstep (xe_max xe))\<^sup>+\<^sup>+ (tables st) (tables ?c)"
    if x: "exec_rows st k = Some x" "retry_due xe now x" for k x
  proof (cases "tables ?b = tables st")
    case True
    then have "exec_rows ?b k = Some x" using x by (simp add: tables_def)
    then show ?thesis using retries due x True by metis
  next
    case False
    then have "(xstep (xe_max xe))\<^sup>+\<^sup>+ (tables st) (tables ?b)" using due by (metis rtranclpD)
    then show ?thesis using all(1) by (rule tranclp_rtranclp_tranclp)
  qed
  ultimately show ?thesis
    using due all by (auto simp: run)
qed

section \<open>Runs\<close>

fun cycles :: "exec_env \<Rightarrow> (nat \<Rightarrow> int) \<Rightarrow> exec_state \<Rightarrow> nat \<Rightarrow> exec_state" where
  "cycles xe T st 0 = st"
| "cycles xe T st (Suc n) = executeCycle xe (T n) (cycles xe T st n)"

definition load :: "nat \<Rightarrow> rows \<times> scheds \<Rightarrow> nat" where
  "load mx p = work mx (dom (fst p)) (dom (snd p)) p"

definition finite_tables :: "rows \<times> scheds \<Rightarrow> bool" where
  "finite_tables p \<longleftrightarrow> finite (dom (fst p)) \<and> finite (dom (snd p))"

lemma work_supersets:
  assumes "finite K" "finite I" "dom R \<subseteq> K" "dom Sc \<subseteq> I"
  shows "work mx K I (R, Sc) = load mx (R, Sc)"
proof -
  have "(\<Sum>k\<in>K. row_weight mx (R k)) = (\<Sum>k\<in>dom R. row_weight mx (R k))"
    by (rule sum.mono_neutral_right) (use assms in \<open>auto simp: row_weight_def domIff\<close>)
  moreover have "(\<Sum>i\<in>I. sched_weight mx R i (Sc i)) = (\<Sum>i\<in>dom Sc. sched_weight mx R i (Sc i))"
    by (rule sum.mono_neutral_right) (use assms in \<open>auto simp: sched_weight_def domIff\<close>)
  ultimately show ?thesis by (simp add: work_def load_def)
qed

lemma xstep_load:
  assumes step: "xstep mx p p'" and fin: "finite_tables p"
  shows "load mx p' < load mx p" and "finite_tables p'"
proof -
  obtain R Sc R' Sc' where p: "p = (R, Sc)" "p' = (R', Sc')" by fastforce
  obtain k x where "R' = R(k \<mapsto> x)"
    using step unfolding p by (cases rule: xstepE) blast+
  then have sub: "dom R \<subseteq> dom R'" and fin': "finite (dom R')"
    using fin by (auto simp: finite_tables_def p)
  have dom: "dom Sc' = dom Sc" using step xstep_dom unfolding p by blast
  show "finite_tables p'" using fin fin' dom by (simp add: finite_tables_def p)
  have "work mx (dom R') (dom Sc) (R', Sc') < work mx (dom R') (dom Sc) (R, Sc)"
    using xstep_work [OF step [unfolded p] fin' subset_refl] fin by (simp add: finite_tables_def p)
  moreover have "work mx (dom R') (dom Sc) (R, Sc) = load mx (R, Sc)"
    by (rule work_supersets) (use fin fin' sub in \<open>auto simp: finite_tables_def p\<close>)
  ultimately show "load mx p' < load mx p" by (simp add: load_def p dom)
qed

lemma steps_load:
  "(xstep mx)\<^sup>+\<^sup>+ p p' \<Longrightarrow> finite_tables p \<Longrightarrow> load mx p' < load mx p \<and> finite_tables p'"
proof (induction rule: tranclp.induct)
  case (trancl_into_trancl p q r)
  then show ?case using xstep_load [of mx q r] by simp
qed (use xstep_load in blast)

lemma tables_finite: "finite_tables (tables st)"
  by (simp add: finite_tables_def tables_def tb_row_def [abs_def] finite_dom_map_of)

text \<open>What a row and its schedule come to, over any number of steps.\<close>

lemma steps_rows:
  assumes "steps mx p p'" and "fst p k = Some x" "unresolved x"
  shows "\<exists>x'. fst p' k = Some x' \<and> ex_schedule x' = ex_schedule x \<and> (unresolved x' \<or>
    given_up x' \<and> (\<exists>s. snd p' (ex_schedule x) = Some s \<and> sc_status s = ''failed''))"
  using assms(1)
proof (induction rule: rtranclp_induct)
  case (step q r)
  obtain R1 Sc1 R' Sc' where q: "q = (R1, Sc1)" "r = (R', Sc')" by fastforce
  have move: "xstep mx (R1, Sc1) (R', Sc')" using step(2) q by simp
  obtain x1 where x1: "R1 k = Some x1" "ex_schedule x1 = ex_schedule x" and
    or: "unresolved x1 \<or> given_up x1 \<and> (\<exists>s. Sc1 (ex_schedule x) = Some s \<and> sc_status s = ''failed'')"
    using step(3) q by auto
  obtain x' where x': "R' k = Some x'" "ex_schedule x' = ex_schedule x1" "\<not> unresolved x1 \<longrightarrow> x' = x1"
    using xstep_rows [OF move x1(1)] by blast
  show ?case
  proof (cases "unresolved x1")
    case True
    show ?thesis
    proof (cases "unresolved x'")
      case False
      from xstep_resolves [OF move x1(1) True x'(1) this] x1 x' q show ?thesis
        by (auto simp: failed_schedule_def)
    qed (use x' x1 q in simp)
  next
    case False
    then obtain s where s: "given_up x1" "Sc1 (ex_schedule x) = Some s" "sc_status s = ''failed''"
      using or by blast
    moreover from xstep_scheds [OF move s(2)]
    have "\<exists>s'. Sc' (ex_schedule x) = Some s' \<and> sc_status s' = ''failed''"
      using s(3) by (auto simp: failed_schedule_def)
    ultimately show ?thesis using x' x1 False q by auto
  qed
qed (use assms in blast)

text \<open>No step records a submission.\<close>

lemma steps_submitted:
  "steps mx p p' \<Longrightarrow> fst p' k = Some x \<Longrightarrow> ex_status x = ''submitted'' \<Longrightarrow> fst p k = Some x"
proof (induction rule: rtranclp_induct)
  case (step q r)
  obtain R1 Sc1 R' Sc' where q: "q = (R1, Sc1)" "r = (R', Sc')" by fastforce
  have "xstep mx (R1, Sc1) (R', Sc')" using step(2) q by simp
  then have "R1 k = Some x"
    using step(4,5) q
    by (cases rule: xstepE) (auto simp: unresolved_def given_up_def split: if_splits)
  then show ?case using step(3,5) q by simp
qed simp

lemma cycles_good:
  assumes "good xe st" and "locks_over (T 0) st" and "\<And>n. T n \<le> T (Suc n)"
  shows "good xe (cycles xe T st n) \<and> locks_over (T n) (cycles xe T st n) \<and>
    steps (xe_max xe) (tables st) (tables (cycles xe T st n))"
proof (induction n)
  case (Suc n)
  then have "good xe (cycles xe T st (Suc n))" "locks_over (T n) (cycles xe T st (Suc n))"
    "steps (xe_max xe) (tables (cycles xe T st n)) (tables (cycles xe T st (Suc n)))"
    using cycle_steps [of "T n" "cycles xe T st n" xe] by auto
  moreover from this(2) have "locks_over (T (Suc n)) (cycles xe T st (Suc n))"
    using assms(3) [of n] unfolding locks_over_def by (meson order_trans)
  ultimately show ?case using Suc by (meson rtranclp_trans)
qed (use assms in simp)

text \<open>A natural number that falls whenever something happens: from some point on nothing does.\<close>

lemma settles:
  fixes f :: "nat \<Rightarrow> nat"
  assumes step: "\<And>n. f (Suc n) < f n \<or> (P n \<and> f (Suc n) = f n)"
  shows "\<exists>N. \<forall>n \<ge> N. P n"
proof -
  obtain N where N: "\<And>n. f N \<le> f n"
    using ex_has_least_nat [of "\<lambda>_. True" 0 f] by auto
  have dec: "f (N + d) \<le> f N" for d
  proof (induction d)
    case (Suc d)
    have "f (N + Suc d) \<le> f (N + d)" using step [of "N + d"] by auto
    with Suc show ?case by linarith
  qed simp
  have "P n" if le: "N \<le> n" for n
  proof -
    obtain d where d: "n = N + d" using le_Suc_ex [OF le] by blast
    have "f n = f N" unfolding d using dec N by (rule le_antisym)
    then show ?thesis using step [of n] N [of "Suc n"] by linarith
  qed
  then show ?thesis by blast
qed

text \<open>From some cycle on the tables stand still.\<close>

lemma cycles_settle:
  assumes "good xe st" and "locks_over (T 0) st" and "\<And>n. T n \<le> T (Suc n)"
  shows "\<exists>N. \<forall>n \<ge> N. tables (cycles xe T st (Suc n)) = tables (cycles xe T st n)"
proof (rule settles [where f = "\<lambda>n. load (xe_max xe) (tables (cycles xe T st n))"])
  fix n
  let ?S = "cycles xe T st"
  have "steps (xe_max xe) (tables (?S n)) (tables (?S (Suc n)))"
    using cycle_steps [of "T n" "?S n" xe] cycles_good [where T = T, OF assms] by simp
  then show "load (xe_max xe) (tables (?S (Suc n))) < load (xe_max xe) (tables (?S n)) \<or>
      (tables (?S (Suc n)) = tables (?S n) \<and>
       load (xe_max xe) (tables (?S (Suc n))) = load (xe_max xe) (tables (?S n)))"
    using steps_load [OF _ tables_finite] by (metis rtranclpD)
qed

lemma tables_still:
  assumes "\<forall>n \<ge> N. f (Suc n) = f n"
  shows "f (N + d) = f N"
  using assms by (induction d) simp_all

text \<open>Once the tables stand still, nothing in them is left to do.\<close>

lemma still_resolved:
  assumes good: "good xe st" and over: "locks_over (T 0) st"
    and mono: "\<And>n. T n \<le> T (Suc n)" and unbounded: "\<And>b. \<exists>n. b \<le> T n"
    and still: "\<And>m. N \<le> m \<Longrightarrow> tables (cycles xe T st m) = tables (cycles xe T st N)"
    and x: "exec_rows (cycles xe T st N) k = Some x"
  shows "\<not> unresolved x"
proof
  let ?S = "cycles xe T st" and ?mx = "xe_max xe"
  note inv = cycles_good [where T = T, OF good over mono]
  have mono': "m \<le> n \<Longrightarrow> T m \<le> T n" for m n
    using lift_Suc_mono_le [of T m n] mono by blast
  assume un: "unresolved x"
  have ok: "row_ok ?mx x"
    using inv [of N] x unfolding good_def tables_ok_def tables_def by blast
  obtain b where b: "\<And>t. b \<le> t \<Longrightarrow> retry_due xe t x"
  proof
    fix t assume "max (overlay (ex_retry x) 0) (overlay (ex_lease x) 0) \<le> t"
    then show "retry_due xe t x"
      using un ok by (auto simp: retry_due_def row_ok_def unresolved_def overlay_def
          split: option.splits)
  qed
  obtain n where "b \<le> T n" using unbounded by blast
  define m where "m = max n N"
  have "b \<le> T m" using \<open>b \<le> T n\<close> mono' [of n m] by (simp add: m_def)
  moreover have "exec_rows (?S m) k = Some x"
    using still [of m] x by (simp add: tables_def m_def)
  moreover have "\<forall>k x. exec_rows (?S m) k = Some x \<and> retry_due xe (T m) x \<longrightarrow>
      (xstep ?mx)\<^sup>+\<^sup>+ (tables (?S m)) (tables (?S (Suc m)))"
    using cycle_steps [of "T m" "?S m" xe] inv [of m] unfolding cycles.simps(2) by blast
  ultimately have "(xstep ?mx)\<^sup>+\<^sup>+ (tables (?S m)) (tables (?S (Suc m)))"
    using b by blast
  then have "load ?mx (tables (?S (Suc m))) < load ?mx (tables (?S m))"
    using steps_load tables_finite by blast
  moreover have "tables (?S (Suc m)) = tables (?S N)" "tables (?S m) = tables (?S N)"
    using still [of "Suc m"] still [of m] by (simp_all add: m_def)
  ultimately show False by simp
qed

text \<open>C4. Liveness: run the executor's cycles at times that pass every bound, from a state whose keys
  are unique, whose pending rows are well formed and whose old locks have expired. Whatever the
  network answers, from some cycle on no execution is pending: each that was is recorded as failed
  after its attempts, its schedule is marked failed with it, and none was submitted.\<close>

theorem executions_resolve:
  assumes good: "good xe st" and over: "locks_over (T 0) st"
    and mono: "\<And>n. T n \<le> T (Suc n)" and unbounded: "\<And>b. \<exists>n. b \<le> T n"
  shows "\<exists>N. \<forall>m \<ge> N. let st' = cycles xe T st m in
    (\<forall>k x. exec_rows st' k = Some x \<longrightarrow> \<not> unresolved x) \<and>
    (\<forall>k x. exec_rows st' k = Some x \<and> ex_status x = ''submitted'' \<longrightarrow> exec_rows st k = Some x) \<and>
    (\<forall>k x. exec_rows st k = Some x \<and> unresolved x \<longrightarrow>
      (\<exists>x' s. exec_rows st' k = Some x' \<and> given_up x' \<and>
         sched_rows st' (ex_schedule x) = Some s \<and> sc_status s = ''failed''))"
proof -
  let ?S = "cycles xe T st" and ?mx = "xe_max xe"
  note inv = cycles_good [where T = T, OF good over mono]
  obtain N where "\<forall>n \<ge> N. tables (?S (Suc n)) = tables (?S n)"
    using cycles_settle [where T = T, OF good over mono] by blast
  then have still: "tables (?S m) = tables (?S N)" if "N \<le> m" for m
    using tables_still [of N "\<lambda>n. tables (?S n)" "m - N"] that by simp
  have settled: "\<not> unresolved x" if "exec_rows (?S N) k = Some x" for k x
    using still_resolved [where T = T, OF good over mono unbounded still that] by blast
  have "(\<forall>k x. exec_rows (?S m) k = Some x \<longrightarrow> \<not> unresolved x) \<and>
    (\<forall>k x. exec_rows (?S m) k = Some x \<and> ex_status x = ''submitted'' \<longrightarrow> exec_rows st k = Some x) \<and>
    (\<forall>k x. exec_rows st k = Some x \<and> unresolved x \<longrightarrow>
      (\<exists>x' s. exec_rows (?S m) k = Some x' \<and> given_up x' \<and>
         sched_rows (?S m) (ex_schedule x) = Some s \<and> sc_status s = ''failed''))"
    if "N \<le> m" for m
  proof (intro conjI allI impI)
    have steps: "steps ?mx (tables st) (tables (?S m))" using inv [of m] by blast
    show un: "\<not> unresolved x" if "exec_rows (?S m) k = Some x" for k x
      using settled still [OF \<open>N \<le> m\<close>] that by (simp add: tables_def)
    show "exec_rows st k = Some x" if "exec_rows (?S m) k = Some x \<and> ex_status x = ''submitted''"
      for k x using steps_submitted [OF steps, of k x] that by (simp add: tables_def)
    show "\<exists>x' s. exec_rows (?S m) k = Some x' \<and> given_up x' \<and>
         sched_rows (?S m) (ex_schedule x) = Some s \<and> sc_status s = ''failed''"
      if "exec_rows st k = Some x \<and> unresolved x" for k x
      using steps_rows [OF steps, of k x] that un by (auto simp: tables_def)
  qed
  then show ?thesis unfolding Let_def by blast
qed

definition demo_schedule :: schedule where
  "demo_schedule = \<lparr>sc_owner = ''A'', sc_recipient = ''B'', sc_amount = ''5'', sc_asset = ''XLM'',
     sc_memo = None, sc_frequency = ''daily'', sc_cron = ''0 0 * * *'', sc_start = ''s'',
     sc_next_run = Some 0, sc_status = ''active'', sc_created = 0\<rparr>"

definition demo_state :: exec_state where
  "demo_state = \<lparr>xs_db = empty_db\<lparr>sd_schedules := [(''s'', demo_schedule)]\<rparr>,
     xs_execs = [(''s:0'', new_execution 0 120000 ''s'' demo_schedule)],
     xs_locks = Map.empty, xs_running = False, xs_timer = False\<rparr>"

lemma executions_resolve_witness:
  "\<exists>n x s. exec_rows (cycles (default_env demo_env True True) (\<lambda>n. 60000 * int n) demo_state n) ''s:0''
      = Some x \<and> given_up x \<and>
    sched_rows (cycles (default_env demo_env True True) (\<lambda>n. 60000 * int n) demo_state n) ''s'' = Some s \<and>
    sc_status s = ''failed''"
proof -
  let ?xe = "default_env demo_env True True" and ?T = "\<lambda>n. 60000 * int n"
  have good: "good ?xe demo_state"
    by (simp add: good_def keys_unique_def demo_state_def empty_db_def tb_wf_def tables_ok_def
        tables_def row_ok_def new_execution_def default_env_def MAX_RETRIES_def)
  have over: "locks_over (?T 0) demo_state"
    by (simp add: locks_over_def demo_state_def)
  have unbounded: "\<exists>n. b \<le> ?T n" for b :: int
    by (rule exI [of _ "nat b"]) simp
  obtain N where "\<forall>m \<ge> N. let st' = cycles ?xe ?T demo_state m in
    (\<forall>k x. exec_rows st' k = Some x \<longrightarrow> \<not> unresolved x) \<and>
    (\<forall>k x. exec_rows st' k = Some x \<and> ex_status x = ''submitted'' \<longrightarrow> exec_rows demo_state k = Some x) \<and>
    (\<forall>k x. exec_rows demo_state k = Some x \<and> unresolved x \<longrightarrow>
      (\<exists>x' s. exec_rows st' k = Some x' \<and> given_up x' \<and>
         sched_rows st' (ex_schedule x) = Some s \<and> sc_status s = ''failed''))"
    using executions_resolve [where T = ?T, OF good over _ unbounded] by auto
  moreover have "exec_rows demo_state ''s:0'' = Some (new_execution 0 120000 ''s'' demo_schedule)"
    "unresolved (new_execution 0 120000 ''s'' demo_schedule)"
    "ex_schedule (new_execution 0 120000 ''s'' demo_schedule) = ''s''"
    by (simp_all add: demo_state_def new_execution_def unresolved_def)
  ultimately show ?thesis unfolding Let_def by (metis order_refl)
qed

section \<open>A run is executed once\<close>

text \<open>No handler takes a row out of the table of executions, and a claim that is not locked out leaves one.\<close>

lemma acquire_tables:
  "acquireLock xe now k st = (l, st1) \<Longrightarrow> xs_execs st1 = xs_execs st \<and> xs_db st1 = xs_db st"
  by (auto simp: acquireLock_def split: if_splits option.splits)

lemma set_None: "tb_row (tb_set i f t) k = None \<longleftrightarrow> tb_row t k = None"
  by (simp add: tb_row_set)

lemma set_keeps: "tb_row t k \<noteq> None \<Longrightarrow> tb_row (tb_set i f t) k \<noteq> None"
  "tb_row t k \<noteq> None \<Longrightarrow> tb_row (snd (tb_update P f t)) k \<noteq> None"
  "tb_row t k \<noteq> None \<Longrightarrow> tb_insert i r t = Some t' \<Longrightarrow> tb_row t' k \<noteq> None"
  using db.row_ins [of i r t t'] by (auto simp: tb_row_set db.row_upd)

lemma resolve_keeps: "exec_rows st k \<noteq> None \<Longrightarrow> exec_rows (resolve_failure xe t i s c n e again st) k \<noteq> None"
  by (simp add: resolve_failure_def requeue_def give_up_def set_None del: not_None_eq)

lemma succeed_keeps: "exec_rows st k \<noteq> None \<Longrightarrow> exec_rows (advanceSchedule t i s (succeed xe t c hash st)) k \<noteq> None"
  by (simp add: advanceSchedule_def succeed_def set_None del: not_None_eq split: option.split)

lemma claim_keeps:
  assumes "claimExecution xe now eid i s st = (r, st1)"
  shows "exec_rows st k \<noteq> None \<Longrightarrow> exec_rows st1 k \<noteq> None"
    and "fst (acquireLock xe now (LOCK_KEY_PREFIX @ eid) st) \<noteq> Held \<Longrightarrow> exec_rows st1 eid \<noteq> None"
proof -
  obtain l sl where acq: "acquireLock xe now (LOCK_KEY_PREFIX @ eid) st = (l, sl)" by force
  note same = acquire_tables [OF acq]
  let ?x = "new_execution now (now + xe_lease xe) i s"
  show "exec_rows st1 k \<noteq> None" if "exec_rows st k \<noteq> None"
    using assms that set_keeps(3) [of "xs_execs st" k eid ?x] same
    by (auto simp: claimExecution_def acq Let_def split: if_splits option.splits)
  show "exec_rows st1 eid \<noteq> None" if "fst (acquireLock xe now (LOCK_KEY_PREFIX @ eid) st) \<noteq> Held"
    using assms that db.row_ins [of eid ?x "xs_execs st"] db.ins_None [of eid ?x "xs_execs st"] same
    by (auto simp: claimExecution_def acq Let_def split: if_splits option.splits)
qed

lemma due_keeps:
  "exec_rows st k \<noteq> None \<Longrightarrow> exec_rows (executeDueTransaction xe t1 t2 i s st) k \<noteq> None"
  "fst (acquireLock xe t1 (LOCK_KEY_PREFIX @ executionIdForRun t1 i s) st) \<noteq> Held \<Longrightarrow>
     exec_rows (executeDueTransaction xe t1 t2 i s st) (executionIdForRun t1 i s) \<noteq> None"
proof -
  obtain r st1 where run: "claimExecution xe t1 (executionIdForRun t1 i s) i s st = (r, st1)" by force
  have after: "exec_rows (executeDueTransaction xe t1 t2 i s st) j \<noteq> None" if "exec_rows st1 j \<noteq> None" for j
    using that resolve_keeps [OF that] succeed_keeps [OF that]
    by (simp add: due_unfold run split: sum.split option.split submit_result.split)
  show "exec_rows st k \<noteq> None \<Longrightarrow> exec_rows (executeDueTransaction xe t1 t2 i s st) k \<noteq> None"
    using after claim_keeps(1) [OF run] by blast
  show "fst (acquireLock xe t1 (LOCK_KEY_PREFIX @ executionIdForRun t1 i s) st) \<noteq> Held \<Longrightarrow>
     exec_rows (executeDueTransaction xe t1 t2 i s st) (executionIdForRun t1 i s) \<noteq> None"
    using after claim_keeps(2) [OF run] by blast
qed

lemma retry_keeps: "exec_rows st k \<noteq> None \<Longrightarrow> exec_rows (handleRetry xe t1 t2 eid x st) k \<noteq> None"
proof -
  assume row: "exec_rows st k \<noteq> None"
  obtain r st1 where run: "claimRetry xe t1 eid st = (r, st1)" by force
  obtain l sl where acq: "acquireLock xe t1 (LOCK_KEY_PREFIX @ eid) st = (l, sl)" by force
  have "exec_rows st1 k \<noteq> None"
    using run row acquire_tables [OF acq] set_keeps(2) [OF row]
    by (auto simp: claimRetry_def acq Let_def split_beta split: if_splits)
  from resolve_keeps [OF this] succeed_keeps [OF this] this row show ?thesis
    by (simp add: retry_unfold run split: option.split submit_result.split)
qed

lemma fold_holds: "(\<And>x s. P s \<Longrightarrow> P (f x s)) \<Longrightarrow> P s \<Longrightarrow> P (fold f xs s)"
  by (induction xs arbitrary: s) simp_all

lemma cycle_keeps:
  assumes "exec_rows st k \<noteq> None"
  shows "exec_rows (executeCycle xe now st) k \<noteq> None"
proof -
  have "exec_rows (run_due xe now s) k \<noteq> None" if "exec_rows s k \<noteq> None" for s
    unfolding run_due_def by (rule fold_holds [where P = "\<lambda>s. exec_rows s k \<noteq> None"]) (use that due_keeps(1) in \<open>auto split: prod.split\<close>)
  moreover have "exec_rows (run_retries xe now s) k \<noteq> None" if "exec_rows s k \<noteq> None" for s
    unfolding run_retries_def by (rule fold_holds [where P = "\<lambda>s. exec_rows s k \<noteq> None"]) (use that retry_keeps in \<open>auto split: prod.split\<close>)
  ultimately show ?thesis using assms by (simp add: executeCycle_def)
qed

lemma recorded_run_skipped:
  assumes "exec_rows st (executionIdForRun t1 i s) \<noteq> None"
  shows "xs_execs (executeDueTransaction xe t1 t2 i s st) = xs_execs st \<and>
    xs_db (executeDueTransaction xe t1 t2 i s st) = xs_db st"
proof -
  obtain r st1 where run: "claimExecution xe t1 (executionIdForRun t1 i s) i s st = (r, st1)"
    by force
  have "r = Inr None \<and> xs_execs st1 = xs_execs st \<and> xs_db st1 = xs_db st"
    using run assms unique_detected
    by (auto simp: claimExecution_def acquireLock_def tb_insert_def Let_def release_if_acquired_def
        releaseLock_def split: if_splits option.splits)
  then show ?thesis by (simp add: due_unfold run)
qed

text \<open>C24. A run of a schedule is executed once: after a handler that was not locked out has run for a
  schedule due at \<open>t\<close>, and after any executor cycles at any times, another handler that sees the schedule
  due at the same \<open>t\<close>, at whatever time and with whatever else changed in it, leaves the tables,
  the notifications and Horizon untouched. The execution is found again because its id is made of
  the run's due time and not of the clock.\<close>

theorem run_executes_once:
  assumes "sc_next_run s = Some t" and "sc_next_run s' = Some t"
    and "fst (acquireLock xe t1 (LOCK_KEY_PREFIX @ executionIdForRun t1 i s) st) \<noteq> Held"
  shows "let later = fold (executeCycle xe) ticks (executeDueTransaction xe t1 t2 i s st)
    in xs_execs (executeDueTransaction xe t3 t4 i s' later) = xs_execs later \<and>
      xs_db (executeDueTransaction xe t3 t4 i s' later) = xs_db later"
proof -
  define later where "later = fold (executeCycle xe) ticks (executeDueTransaction xe t1 t2 i s st)"
  have "exec_rows later (executionIdForRun t1 i s) \<noteq> None"
    unfolding later_def
    by (rule fold_holds [where P = "\<lambda>st. exec_rows st (executionIdForRun t1 i s) \<noteq> None"])
      (use cycle_keeps due_keeps(2) [OF assms(3)] in blast)+
  moreover have "executionIdForRun t1 i s = executionIdForRun t3 i s'"
    using assms(1,2) by (simp add: executionIdForRun_def overlay_def)
  ultimately show ?thesis
    using recorded_run_skipped [of later t3 i s'] unfolding later_def [symmetric] Let_def by simp
qed

text \<open>
  The other side of it: a schedule that failed and is set active again by its owner keeps its
  \<open>next_run_at\<close>, so its run is recorded already and the executor passes it over for good.
\<close>

definition revived_state :: exec_state where
  "revived_state = \<lparr>xs_db = empty_db\<lparr>sd_schedules := [(''s'', demo_schedule)]\<rparr>,
     xs_execs = [(''s:0'', (new_execution 0 120000 ''s'' demo_schedule)\<lparr>ex_status := ''failed''\<rparr>)],
     xs_locks = Map.empty, xs_running = False, xs_timer = False\<rparr>"

lemma revived_run_passed_over:
  "getDueTransactions 5 revived_state = [(''s'', demo_schedule)] \<and>
    xs_execs (executeDueTransaction (default_env demo_env True True) 5 6 ''s'' demo_schedule revived_state)
      = xs_execs revived_state"
proof -
  have "executionIdForRun 5 ''s'' demo_schedule = ''s:0''"
    by code_simp
  then have "exec_rows revived_state (executionIdForRun 5 ''s'' demo_schedule) \<noteq> None"
    by (simp add: revived_state_def)
  from recorded_run_skipped [OF this] show ?thesis
    by (simp add: getDueTransactions_def revived_state_def empty_db_def demo_schedule_def
        tb_select_def is_due_def has_pending_def new_execution_def)
qed

lemma run_executes_once_witness:
  "let later = executeCycle (default_env demo_env True True) 400000
        (executeDueTransaction (default_env demo_env True True) 5 6 ''s'' demo_schedule demo_state)
    in xs_execs (executeDueTransaction (default_env demo_env True True) 500000 500001 ''s'' demo_schedule later) = xs_execs later"
proof -
  have "fst (acquireLock (default_env demo_env True True) 5 (LOCK_KEY_PREFIX @ executionIdForRun 5 ''s'' demo_schedule) demo_state) \<noteq> Held"
    by code_simp
  moreover have "sc_next_run demo_schedule = Some 0" by code_simp
  ultimately show ?thesis
    using run_executes_once [of demo_schedule 0 demo_schedule "default_env demo_env True True" 5 "''s''" demo_state "[400000]" 6 500000 500001]
    by (simp add: Let_def)
qed

text \<open>
  \<open>executeNow\<close> writes a permanent error down as pending with no retry time, which is what the
  retry sweep takes for a retry that is due now.
\<close>

lemma executeNow_permanent_is_retried:
  assumes "executeNow xe now eid i st = Inr (Failure e, st')" and "\<not> isRetryableError (he_code e)"
    and "1 \<le> xe_max xe"
  shows "\<exists>x. exec_rows st' eid = Some x \<and> retry_due xe t x"
proof -
  obtain s where s: "sched_rows st i = Some s" "submitScheduledTransaction xe s = Failure e"
    using assms(1) submit_fails [of xe]
    by (auto simp: executeNow_def bnd_Inr split: option.splits submit_result.splits)
  obtain x t' where "tb_insert eid x (xs_execs st) = Some t'" "st' = st\<lparr>xs_execs := t'\<rparr>"
    "ex_status x = ''pending''" "ex_retry x = None" "ex_claim x = None" "ex_attempt x = 1"
    using assms s by (auto simp: executeNow_def bnd_Inr logExecution_def split: option.splits)
  then show ?thesis
    using db.row_ins [of eid x "xs_execs st" t'] assms(3) by (simp add: retry_due_def)
qed

end
