(* ===== verification/ExecutorClaims.thy ===== *)
theory ExecutorClaims
  imports ExecutorLiveness
begin

text \<open>
  Several executors over one database: any number of workers claim runs, resolve their claims
  before the lease ends, or crash and leave claim and lock behind, while the clock moves on. The
  Redis lock only saves queries: what keeps two workers apart is the insert under the run's key
  and the guarded update of a retry.
\<close>

record claims_world =
  cw_now :: int
  cw_st :: exec_state
  cw_held :: "nat \<Rightarrow> claim option"

abbreviation hold :: "nat \<Rightarrow> claim option \<Rightarrow> claims_world \<Rightarrow> claims_world" where
  "hold w c cw \<equiv> cw\<lparr>cw_held := (cw_held cw)(w := c)\<rparr>"

inductive claims_step :: "exec_env \<Rightarrow> claims_world \<Rightarrow> claims_world \<Rightarrow> bool" for xe where
  clock: "cw_now cw \<le> t \<Longrightarrow> claims_step xe cw (cw\<lparr>cw_now := t\<rparr>)"
| take_new: "cw_held cw w = None \<Longrightarrow>
     claimExecution xe (cw_now cw) eid i s (cw_st cw) = (Inr c, st') \<Longrightarrow>
     claims_step xe cw (hold w c (cw\<lparr>cw_st := st'\<rparr>))"
| take_retry: "cw_held cw w = None \<Longrightarrow> claimRetry xe (cw_now cw) eid (cw_st cw) = (c, st') \<Longrightarrow>
     claims_step xe cw (hold w c (cw\<lparr>cw_st := st'\<rparr>))"
| finish_submitted: "cw_held cw w = Some c \<Longrightarrow> cw_now cw < cl_lease c \<Longrightarrow>
     claims_step xe cw (hold w None (cw\<lparr>cw_st := succeed xe (cw_now cw) c h (cw_st cw)\<rparr>))"
| finish_requeued: "cw_held cw w = Some c \<Longrightarrow> cw_now cw < cl_lease c \<Longrightarrow>
     claims_step xe cw (hold w None (cw\<lparr>cw_st := requeue xe (cw_now cw) c n e (cw_st cw)\<rparr>))"
| finish_failed: "cw_held cw w = Some c \<Longrightarrow> cw_now cw < cl_lease c \<Longrightarrow>
     claims_step xe cw (hold w None (cw\<lparr>cw_st := give_up xe (cw_now cw) c n e (cw_st cw)\<rparr>))"
| crash: "claims_step xe cw (hold w None cw)"

inductive_cases claims_stepE: "claims_step xe cw cw'"

definition no_claims :: "exec_state \<Rightarrow> claims_world" where
  "no_claims st = \<lparr>cw_now = 0, cw_st = st, cw_held = (\<lambda>_. None)\<rparr>"

inductive claims_reached :: "exec_env \<Rightarrow> exec_state \<Rightarrow> claims_world \<Rightarrow> bool" for xe st where
  claims_start: "claims_reached xe st (no_claims st)"
| claims_next: "claims_reached xe st cw \<Longrightarrow> claims_step xe cw cw' \<Longrightarrow> claims_reached xe st cw'"

text \<open>A live claim is written in its row, with its lease.\<close>

definition live :: "int \<Rightarrow> claim \<Rightarrow> bool" where
  "live now c \<longleftrightarrow> now < cl_lease c"

definition lease_inv :: "int \<Rightarrow> rows \<Rightarrow> (nat \<Rightarrow> claim option) \<Rightarrow> bool" where
  "lease_inv now R H \<longleftrightarrow>
     (\<forall>w c. H w = Some c \<and> live now c \<longrightarrow> (\<exists>x. R (cl_id c) = Some x \<and>
        ex_claim x = Some CLAIMED \<and> ex_lease x = Some (cl_lease c))) \<and>
     (\<forall>w w' c c'. H w = Some c \<and> H w' = Some c' \<and> cl_id c = cl_id c' \<and> live now c \<and> live now c'
        \<longrightarrow> w = w')"

lemma lease_invD:
  assumes "lease_inv now R H"
  shows "H w = Some c \<Longrightarrow> live now c \<Longrightarrow>
      \<exists>x. R (cl_id c) = Some x \<and> ex_claim x = Some CLAIMED \<and> ex_lease x = Some (cl_lease c)"
    and "H w = Some c \<Longrightarrow> H w' = Some c' \<Longrightarrow> cl_id c = cl_id c' \<Longrightarrow> live now c \<Longrightarrow> live now c' \<Longrightarrow>
      w = w'"
  using assms unfolding lease_inv_def by blast+

lemma lease_inv_later:
  assumes "lease_inv now R H" and "now \<le> t"
  shows "lease_inv t R H"
proof -
  have "live now c" if "live t c" for c using that assms(2) by (simp add: live_def)
  then show ?thesis using assms(1) unfolding lease_inv_def by blast
qed

lemma lease_inv_drop:
  assumes "lease_inv now R H"
  shows "lease_inv now R (H(w := None))"
proof -
  have sub: "(H(w := None)) v = Some c \<Longrightarrow> H v = Some c" for v c by (simp split: if_splits)
  show ?thesis unfolding lease_inv_def
    using lease_invD [OF assms] sub by blast
qed

text \<open>Taking a run nobody holds a live claim on.\<close>

lemma lease_inv_take:
  assumes inv: "lease_inv now R H"
    and free: "\<And>v c'. H v = Some c' \<Longrightarrow> live now c' \<Longrightarrow> cl_id c' \<noteq> cl_id c"
    and x: "ex_claim x = Some CLAIMED" "ex_lease x = Some (cl_lease c)"
  shows "lease_inv now (R(cl_id c \<mapsto> x)) (H(w := Some c))"
  unfolding lease_inv_def
proof (intro conjI allI impI)
  fix v d assume "(H(w := Some c)) v = Some d \<and> live now d"
  then show "\<exists>y. (R(cl_id c \<mapsto> x)) (cl_id d) = Some y \<and> ex_claim y = Some CLAIMED \<and>
      ex_lease y = Some (cl_lease d)"
    using lease_invD(1) [OF inv, of v d] free [of v d] x by (auto split: if_splits)
next
  fix v v' d d'
  assume "(H(w := Some c)) v = Some d \<and> (H(w := Some c)) v' = Some d' \<and> cl_id d = cl_id d' \<and>
    live now d \<and> live now d'"
  then show "v = v'"
    using lease_invD(2) [OF inv, of v d v' d'] free [of v d] free [of v' d']
    by (auto split: if_splits)
qed

text \<open>Resolving a live claim changes a row no other live claim is on.\<close>

lemma lease_inv_finish:
  assumes inv: "lease_inv now R H" and c: "H w = Some c" "live now c"
    and R': "\<And>k. k \<noteq> cl_id c \<Longrightarrow> R' k = R k"
  shows "lease_inv now R' (H(w := None))"
  unfolding lease_inv_def
proof (intro conjI allI impI)
  fix v d assume d: "(H(w := None)) v = Some d \<and> live now d"
  then have "cl_id d \<noteq> cl_id c"
    using lease_invD(2) [OF inv, of v d w c] c by (auto split: if_splits)
  then show "\<exists>y. R' (cl_id d) = Some y \<and> ex_claim y = Some CLAIMED \<and> ex_lease y = Some (cl_lease d)"
    using lease_invD(1) [OF inv, of v d] d R' by (auto split: if_splits)
next
  fix v v' d d'
  assume "(H(w := None)) v = Some d \<and> (H(w := None)) v' = Some d' \<and> cl_id d = cl_id d' \<and>
    live now d \<and> live now d'"
  then show "v = v'"
    using lease_invD(2) [OF inv, of v d v' d'] by (auto split: if_splits)
qed

abbreviation world_ok :: "claims_world \<Rightarrow> bool" where
  "world_ok cw \<equiv> lease_inv (cw_now cw) (exec_rows (cw_st cw)) (cw_held cw) \<and>
     tb_wf (xs_execs (cw_st cw))"

text \<open>What the two ways to claim do to the table, whatever the lock says.\<close>

lemma claimExecution_result:
  assumes "claimExecution xe now eid i s st = (Inr r, st')"
  shows "(r = None \<and> xs_execs st' = xs_execs st) \<or>
    (\<exists>c. r = Some c \<and> cl_id c = eid \<and> cl_lease c = now + xe_lease xe \<and>
      tb_insert eid (new_execution now (now + xe_lease xe) i s) (xs_execs st) = Some (xs_execs st'))"
proof -
  have acq: "xs_execs (snd (acquireLock xe now k st)) = xs_execs st" for k
    by (simp add: acquireLock_def split: option.splits)
  show ?thesis
    using assms unique_detected acq
    by (auto simp: claimExecution_def Let_def split_beta split: if_splits option.splits)
qed

lemma claimRetry_result:
  assumes wf: "tb_wf (xs_execs st)" and run: "claimRetry xe now eid st = (r, st')"
  shows "tb_wf (xs_execs st') \<and> ((r = None \<and> exec_rows st' = exec_rows st) \<or>
    (\<exists>c x. r = Some c \<and> cl_id c = eid \<and> cl_lease c = now + xe_lease xe \<and>
      exec_rows st eid = Some x \<and> reclaimable now x \<and>
      exec_rows st' = (exec_rows st)(eid \<mapsto> x\<lparr>ex_claim := Some CLAIMED, ex_lease := Some (cl_lease c)\<rparr>)))"
proof -
  have acq: "xs_execs (snd (acquireLock xe now k st)) = xs_execs st" for k
    by (simp add: acquireLock_def split: option.splits)
  let ?f = "\<lambda>x. x\<lparr>ex_claim := Some CLAIMED, ex_lease := Some (now + xe_lease xe)\<rparr>"
  let ?u = "tb_update (\<lambda>k x. k = eid \<and> reclaimable now x) ?f (xs_execs st)"
  consider "r = None" "xs_execs st' = xs_execs st"
    | "fst ?u \<noteq> 1" "r = None" "xs_execs st' = snd ?u"
    | c where "fst ?u = 1" "r = Some c" "cl_id c = eid" "cl_lease c = now + xe_lease xe"
      "xs_execs st' = snd ?u"
    using run acq by (auto simp: claimRetry_def Let_def split_beta split: if_splits)
  then show ?thesis
  proof cases
    case 1
    then show ?thesis using wf by simp
  next
    case 2
    then show ?thesis using wf db.cas_loses [OF wf 2(1)] by simp
  next
    case (3 c)
    from 3(1) obtain x where x: "exec_rows st eid = Some x" "reclaimable now x"
      unfolding db.cas_wins [OF wf] by blast
    have "tb_row (snd ?u) = (exec_rows st)(eid \<mapsto> ?f x)"
    proof
      fix k show "tb_row (snd ?u) k = ((exec_rows st)(eid \<mapsto> ?f x)) k"
        using x by (cases "exec_rows st k") (auto simp: db.row_upd)
    qed
    then show ?thesis using 3 x wf by auto
  qed
qed

lemma finalize_other:
  "k \<noteq> cl_id c \<Longrightarrow> exec_rows (finalizeClaim xe c f st) k = exec_rows st k"
  "tb_wf (xs_execs st) \<Longrightarrow> tb_wf (xs_execs (finalizeClaim xe c f st))"
  by (simp_all add: tb_row_set)

lemma claims_step_ok:
  assumes "claims_step xe cw cw'" and ok: "world_ok cw"
  shows "world_ok cw'"
proof -
  note inv = ok [THEN conjunct1] and wf = ok [THEN conjunct2]
  have finish: "world_ok (hold w None (cw\<lparr>cw_st := finalizeClaim xe c f (cw_st cw)\<rparr>))"
    if "cw_held cw w = Some c" "cw_now cw < cl_lease c" for w c f
    using lease_inv_finish [OF inv that(1)] that(2) finalize_other wf by (auto simp: live_def)
  from assms(1) show ?thesis
  proof (cases rule: claims_step.cases)
    case (clock t)
    then show ?thesis using lease_inv_later [OF inv] wf by simp
  next
    case (take_new w eid i s c st')
    from claimExecution_result [OF take_new(3)] show ?thesis
    proof
      assume "c = None \<and> xs_execs st' = xs_execs (cw_st cw)"
      then show ?thesis using lease_inv_drop [OF inv] wf by (simp add: take_new(1))
    next
      assume "\<exists>d. c = Some d \<and> cl_id d = eid \<and> cl_lease d = cw_now cw + xe_lease xe \<and>
        tb_insert eid (new_execution (cw_now cw) (cw_now cw + xe_lease xe) i s)
          (xs_execs (cw_st cw)) = Some (xs_execs st')"
      then obtain d where d: "c = Some d" "cl_id d = eid" "cl_lease d = cw_now cw + xe_lease xe"
        and ins: "tb_insert eid (new_execution (cw_now cw) (cw_now cw + xe_lease xe) i s)
          (xs_execs (cw_st cw)) = Some (xs_execs st')" by blast
      have "lease_inv (cw_now cw) (exec_rows st') ((cw_held cw)(w := Some d))"
        unfolding db.row_ins [OF ins] d(2) [symmetric]
      proof (rule lease_inv_take [OF inv])
        show "cl_id c' \<noteq> cl_id d" if "cw_held cw v = Some c'" "live (cw_now cw) c'" for v c'
          using lease_invD(1) [OF inv that] tb_insert_fresh [OF ins] d(2) by auto
      qed (simp_all add: new_execution_def d(3))
      then show ?thesis using db.wf_ins [OF wf ins] by (simp add: take_new(1) d(1))
    qed
  next
    case (take_retry w eid c st')
    note res = claimRetry_result [OF wf take_retry(3)]
    from res [THEN conjunct2] show ?thesis
    proof
      assume "c = None \<and> exec_rows st' = exec_rows (cw_st cw)"
      then show ?thesis using lease_inv_drop [OF inv] res by (simp add: take_retry(1))
    next
      assume "\<exists>d x. c = Some d \<and> cl_id d = eid \<and> cl_lease d = cw_now cw + xe_lease xe \<and>
        exec_rows (cw_st cw) eid = Some x \<and> reclaimable (cw_now cw) x \<and> exec_rows st' =
        (exec_rows (cw_st cw))(eid \<mapsto> x\<lparr>ex_claim := Some CLAIMED, ex_lease := Some (cl_lease d)\<rparr>)"
      then obtain d x where d: "c = Some d" "cl_id d = eid"
        "exec_rows (cw_st cw) eid = Some x" "reclaimable (cw_now cw) x"
        "exec_rows st' = (exec_rows (cw_st cw))
          (eid \<mapsto> x\<lparr>ex_claim := Some CLAIMED, ex_lease := Some (cl_lease d)\<rparr>)" by blast
      have "lease_inv (cw_now cw) (exec_rows st') ((cw_held cw)(w := Some d))"
        unfolding d(5) d(2) [symmetric]
      proof (rule lease_inv_take [OF inv])
        show "cl_id c' \<noteq> cl_id d" if "cw_held cw v = Some c'" "live (cw_now cw) c'" for v c'
          using lease_invD(1) [OF inv that] that(2) d(2-4)
          by (auto simp: reclaimable_def live_def)
      qed simp_all
      then show ?thesis using res by (simp add: take_retry(1) d(1))
    qed
  next
    case crash
    then show ?thesis using lease_inv_drop [OF inv] wf by simp
  qed (use finish in \<open>simp_all only: succeed_def requeue_def give_up_def\<close>)
qed

lemma claims_reached_ok: "claims_reached xe st cw \<Longrightarrow> tb_wf (xs_execs st) \<Longrightarrow> world_ok cw"
proof (induction rule: claims_reached.induct)
  case claims_start
  then show ?case by (simp add: no_claims_def lease_inv_def)
qed (use claims_step_ok in blast)

text \<open>C5. Workers over one database: while their leases last, no two of them hold a claim on the same
  run, and a held claim is the one its row records. It holds with and without Redis, for new runs
  and for retries, and whichever workers crash.\<close>

theorem single_live_claim:
  assumes "claims_reached xe st cw" and "tb_wf (xs_execs st)"
    and "cw_held cw w = Some c" and "cw_held cw w' = Some c'"
    and "cw_now cw < cl_lease c" and "cw_now cw < cl_lease c'" and "cl_id c = cl_id c'"
  shows "w = w' \<and> c = c' \<and> (\<exists>x. exec_rows (cw_st cw) (cl_id c) = Some x \<and>
    ex_claim x = Some CLAIMED \<and> ex_lease x = Some (cl_lease c))"
proof -
  have "lease_inv (cw_now cw) (exec_rows (cw_st cw)) (cw_held cw)"
    using claims_reached_ok assms(1,2) by blast
  from lease_invD [OF this] have "w = w'"
    "\<exists>x. exec_rows (cw_st cw) (cl_id c) = Some x \<and> ex_claim x = Some CLAIMED \<and>
      ex_lease x = Some (cl_lease c)"
    using assms(3-7) unfolding live_def by blast+
  then show ?thesis using assms(3,4) by simp
qed

text \<open>A worker that claims a new run.\<close>

lemma single_live_claim_witness:
  "\<exists>cw c. claims_reached (default_env demo_env True True) (demo_state\<lparr>xs_execs := []\<rparr>) cw \<and>
    cw_held cw 0 = Some c \<and> cw_now cw < cl_lease c \<and>
    (\<exists>x. exec_rows (cw_st cw) (cl_id c) = Some x \<and> ex_lease x = Some (cl_lease c))"
proof -
  let ?xe = "default_env demo_env True True" and ?st = "demo_state\<lparr>xs_execs := []\<rparr>"
  obtain r st' where run: "claimExecution ?xe 0 ''s:0'' ''s'' demo_schedule ?st = (Inr r, st')" and r: "r \<noteq> None"
    by (simp add: claimExecution_def acquireLock_def default_env_def demo_state_def tb_insert_def
        Let_def tb_row_def)
  obtain c where c: "r = Some c" using r by blast
  let ?cw = "hold 0 (Some c) ((no_claims ?st)\<lparr>cw_st := st'\<rparr>)"
  have "claims_step ?xe (no_claims ?st) ?cw"
    using claims_step.take_new [of "no_claims ?st" 0 ?xe "''s:0''" "''s''" demo_schedule "Some c" st'] run c
    by (simp add: no_claims_def)
  then have reached: "claims_reached ?xe ?st ?cw" by (rule claims_next [OF claims_start])
  have "cl_lease c = 120000"
    using claimExecution_result [OF run] c by (simp add: default_env_def EXECUTION_LEASE_MS_def)
  then have "cw_now ?cw < cl_lease c" by (simp add: no_claims_def)
  then show ?thesis
    using single_live_claim [OF reached, of 0 c 0 c] reached by auto
qed

end
