(* ===== verification/JsText.thy ===== *)
theory JsText
  imports JsBase
begin

text \<open>
  The text side of JavaScript numbers and JSON: \<open>Number(s)\<close>, \<open>parseFloat(s)\<close>,
  \<open>n.toString(16)\<close> and the string literals of \<open>JSON.stringify\<close>. A numeral denotes its exact
  rational value.
\<close>

section \<open>Reading numbers\<close>

definition is_digit :: "char \<Rightarrow> bool" where
  "is_digit c = (48 \<le> (of_char c :: nat) \<and> of_char c \<le> (57 :: nat))"

definition scan_exponent :: "string \<Rightarrow> (int \<times> string) option" where
  "scan_exponent s =
     (case s of
        [] \<Rightarrow> None
      | c # t \<Rightarrow>
          if c \<noteq> CHR ''e'' \<and> c \<noteq> CHR ''E'' then None
          else
            (let neg = (t \<noteq> [] \<and> hd t = CHR ''-'');
                 u = (if t \<noteq> [] \<and> (hd t = CHR ''-'' \<or> hd t = CHR ''+'') then tl t else t);
                 ds = takeWhile is_digit u
             in if ds = [] then None
                else Some (if neg then - int (read_nat 0 ds) else int (read_nat 0 ds),
                           dropWhile is_digit u)))"

text \<open>The longest unsigned decimal literal at the front of \<open>s\<close>, with what follows it.\<close>

definition scan_decimal :: "string \<Rightarrow> (rat \<times> string) option" where
  "scan_decimal s =
     (let ip = takeWhile is_digit s;
          r1 = dropWhile is_digit s;
          dot = (r1 \<noteq> [] \<and> hd r1 = CHR ''.'');
          fp = (if dot then takeWhile is_digit (tl r1) else []);
          r2 = (if dot then dropWhile is_digit (tl r1) else r1)
      in if ip = [] \<and> fp = [] then None
         else
           (let m = of_nat (read_nat 0 (ip @ fp)) / 10 ^ length fp
            in case scan_exponent r2 of
                 None \<Rightarrow> Some (m, r2)
               | Some (e, r3) \<Rightarrow> Some (m * 10 powi e, r3)))"

definition scan_signed :: "string \<Rightarrow> (jsnum \<times> string) option" where
  "scan_signed s =
     (let neg = (s \<noteq> [] \<and> hd s = CHR ''-'');
          u = (if s \<noteq> [] \<and> (hd s = CHR ''-'' \<or> hd s = CHR ''+'') then tl s else s)
      in if starts_with u ''Infinity'' then Some (if neg then NegInf else PosInf, drop 8 u)
         else case scan_decimal u of
                None \<Rightarrow> None
              | Some (m, r) \<Rightarrow> Some (Fin (if neg then - m else m), r))"

definition parseFloat :: "string \<Rightarrow> jsnum" where
  "parseFloat s = (case scan_signed (trim_left s) of None \<Rightarrow> JsNaN | Some (n, r) \<Rightarrow> n)"

definition digit_value :: "char \<Rightarrow> nat option" where
  "digit_value c =
     (let n = of_char c :: nat
      in if 48 \<le> n \<and> n \<le> 57 then Some (n - 48)
         else if 97 \<le> n \<and> n \<le> 122 then Some (n - 87)
         else if 65 \<le> n \<and> n \<le> 90 then Some (n - 55) else None)"

fun read_radix :: "nat \<Rightarrow> nat \<Rightarrow> string \<Rightarrow> nat option" where
  "read_radix b acc [] = Some acc"
| "read_radix b acc (c # cs) =
     (case digit_value c of
        None \<Rightarrow> None
      | Some d \<Rightarrow> if d < b then read_radix b (b * acc + d) cs else None)"

definition radix_prefix :: "string \<Rightarrow> nat option" where
  "radix_prefix s =
     (if take 1 s \<noteq> ''0'' then None
      else if take 1 (tl s) \<in> {''x'', ''X''} then Some 16
      else if take 1 (tl s) \<in> {''o'', ''O''} then Some 8
      else if take 1 (tl s) \<in> {''b'', ''B''} then Some 2 else None)"

definition toNumber :: "string \<Rightarrow> jsnum" where
  "toNumber s =
     (let t = trim s
      in if t = [] then Fin 0
         else case radix_prefix t of
           Some b \<Rightarrow>
             (if drop 2 t = [] then JsNaN
              else case read_radix b 0 (drop 2 t) of None \<Rightarrow> JsNaN | Some n \<Rightarrow> Fin (of_nat n))
         | None \<Rightarrow>
             (case scan_signed t of
                Some (n, []) \<Rightarrow> n
              | _ \<Rightarrow> JsNaN))"

definition trunc :: "rat \<Rightarrow> int" where
  "trunc r = (if r < 0 then \<lceil>r\<rceil> else \<lfloor>r\<rfloor>)"

text \<open>\<open>x.toFixed(d)\<close> for a number below \<open>10 ^ 21\<close>.\<close>

definition fixed_text :: "nat \<Rightarrow> rat \<Rightarrow> string" where
  "fixed_text d r =
     (let n = nat \<lfloor>r * 10 ^ d + 1 / 2\<rfloor>; digits = pad_start (Suc d) CHR ''0'' (show_nat n);
          k = length digits - d
      in take k digits @ (if d = 0 then [] else ''.'' @ drop k digits))"

fun toFixed :: "nat \<Rightarrow> jsnum \<Rightarrow> string" where
  "toFixed d JsNaN = ''NaN''"
| "toFixed d PosInf = ''Infinity''"
| "toFixed d NegInf = ''-Infinity''"
| "toFixed d (Fin r) = (if r < 0 then ''-'' @ fixed_text d (- r) else fixed_text d r)"

lemma trunc_of_int [simp]: "trunc (of_int i) = i"
  by (simp add: trunc_def)

lemma is_digit_digit [simp]: "d < 10 \<Longrightarrow> is_digit (digit_char d)"
  by (simp add: is_digit_def)

lemma show_nat_is_digit: "c \<in> set (show_nat n) \<Longrightarrow> is_digit c"
  using show_nat_digits by fastforce

lemma scan_decimal_show_nat: "scan_decimal (show_nat n) = Some (of_nat n, [])"
proof -
  have scan: "takeWhile is_digit (show_nat n) = show_nat n" "dropWhile is_digit (show_nat n) = []"
    by (auto simp: show_nat_is_digit takeWhile_eq_all_conv dropWhile_eq_Nil_conv)
  show ?thesis
    unfolding scan_decimal_def scan by (simp add: scan_exponent_def read_show_nat Let_def)
qed

lemma scan_decimal_point:
  assumes "\<forall>c \<in> set ip. is_digit c" "\<forall>c \<in> set fp. is_digit c" "ip \<noteq> []"
  shows "scan_decimal (ip @ CHR ''.'' # fp) = Some (of_nat (read_nat 0 (ip @ fp)) / 10 ^ length fp, [])"
proof -
  have dot: "\<not> is_digit CHR ''.''" by (simp add: is_digit_def)
  have scan: "takeWhile is_digit (ip @ CHR ''.'' # fp) = ip" "dropWhile is_digit (ip @ CHR ''.'' # fp) = CHR ''.'' # fp"
    "takeWhile is_digit fp = fp" "dropWhile is_digit fp = []"
    using assms dot by (auto simp: takeWhile_append dropWhile_append takeWhile_eq_all_conv dropWhile_eq_Nil_conv)
  show ?thesis
    unfolding scan_decimal_def scan using assms(3) by (simp add: scan scan_exponent_def Let_def)
qed

lemma read_nat_zeros: "read_nat 0 (replicate k CHR ''0'' @ s) = read_nat 0 s"
  by (induction k) simp_all

lemma is_digit_not:
  "is_digit c \<Longrightarrow> c \<noteq> CHR ''-'' \<and> c \<noteq> CHR ''+'' \<and> c \<noteq> CHR ''I'' \<and> \<not> is_space c"
  by (auto simp: is_digit_def is_space_def)

lemma show_nat_hd: "show_nat n = c # cs \<Longrightarrow> is_digit c"
  using show_nat_is_digit [of c n] by simp

lemma show_nat_cases: obtains c cs where "show_nat n = c # cs" "is_digit c"
  using show_nat_hd by (cases "show_nat n") auto

lemma scan_signed_show_int: "scan_signed (show_int i) = Some (Fin (of_int i), [])"
proof -
  obtain c cs where c: "show_nat (nat i) = c # cs" "is_digit c"
    by (rule show_nat_cases)
  obtain d ds where d: "show_nat (nat (- i)) = d # ds" "is_digit d"
    by (rule show_nat_cases)
  have "\<not> starts_with (c # cs) ''Infinity''" "\<not> starts_with (d # ds) ''Infinity''"
    using is_digit_not [OF c(2)] is_digit_not [OF d(2)] by (auto simp: starts_with_def)
  then show ?thesis
    using c d is_digit_not [OF c(2)] is_digit_not [OF d(2)]
      scan_decimal_show_nat [of "nat i"] scan_decimal_show_nat [of "nat (- i)"]
    by (auto simp: scan_signed_def show_int_def Let_def)
qed

lemma trim_no_space:
  assumes "\<forall>c \<in> set s. \<not> is_space c"
  shows "trim s = s"
proof -
  have "trim_left t = t" if "\<forall>c \<in> set t. \<not> is_space c" for t
    using that by (cases t) (simp_all add: trim_left_def)
  with assms show ?thesis by (simp add: trim_def)
qed

lemma show_int_no_space: "c \<in> set (show_int i) \<Longrightarrow> \<not> is_space c"
  using show_nat_is_digit is_digit_not
  by (fastforce simp: show_int_def is_space_def split: if_splits)

lemma show_int_nonempty [simp]: "show_int i \<noteq> []"
  by (simp add: show_int_def)

lemma trim_show_int [simp]: "trim (show_int i) = show_int i"
  by (rule trim_no_space) (simp add: show_int_no_space)

lemma radix_prefix_show_int: "radix_prefix (show_int i) = None"
proof -
  have sn: "radix_prefix (show_nat n) = None" for n
  proof (cases "n < 10")
    case False
    have "tl (show_nat n) \<noteq> [] \<longrightarrow> is_digit (hd (tl (show_nat n)))"
      using show_nat_is_digit [of _ n] by (cases "show_nat n") auto
    then show ?thesis
      by (cases "tl (show_nat n)") (auto simp: radix_prefix_def is_digit_def)
  qed (simp add: radix_prefix_def show_nat.simps [of n])
  then show ?thesis
    by (simp add: show_int_def) (simp add: radix_prefix_def)
qed

lemma toNumber_show_int [simp]: "toNumber (show_int i) = Fin (of_int i)"
  by (simp add: toNumber_def radix_prefix_show_int scan_signed_show_int Let_def)

lemma show_int_inject [simp]: "show_int i = show_int j \<longleftrightarrow> i = j"
  by (metis jsnum.inject of_int_eq_iff toNumber_show_int)

section \<open>Hexadecimal\<close>

definition hex_char :: "nat \<Rightarrow> char" where
  "hex_char d = char_of (if d < 10 then 48 + d else 87 + d)"

fun show_hex :: "nat \<Rightarrow> string" where
  "show_hex n = (if n < 16 then [hex_char n] else show_hex (n div 16) @ [hex_char (n mod 16)])"

declare show_hex.simps [simp del]

lemma length_show_hex: "n < 16 ^ Suc k \<Longrightarrow> length (show_hex n) \<le> Suc k"
proof (induction k arbitrary: n)
  case (Suc k)
  then have "n div 16 < 16 ^ Suc k" by auto
  from Suc.IH [OF this] show ?case by (subst show_hex.simps) simp
qed (simp add: show_hex.simps)

section \<open>JSON string literals\<close>

definition hex2 :: "nat \<Rightarrow> string" where
  "hex2 n = [hex_char (n div 16), hex_char (n mod 16)]"

definition json_escape :: "char \<Rightarrow> string" where
  "json_escape c =
     (let n = of_char c :: nat
      in if n = 34 then [CHR 0x5C, CHR 0x22]
         else if n = 92 then [CHR 0x5C, CHR 0x5C]
         else if n = 8 then [CHR 0x5C, CHR ''b'']
         else if n = 12 then [CHR 0x5C, CHR ''f'']
         else if n = 10 then [CHR 0x5C, CHR ''n'']
         else if n = 13 then [CHR 0x5C, CHR ''r'']
         else if n = 9 then [CHR 0x5C, CHR ''t'']
         else if n < 32 then [CHR 0x5C, CHR ''u'', CHR ''0'', CHR ''0''] @ hex2 n
         else [c])"

definition json_string :: "string \<Rightarrow> string" where
  "json_string s = [CHR 0x22] @ concat (map json_escape s) @ [CHR 0x22]"

text \<open>A decoder of the escapes, used to show that the literal determines the string.\<close>

definition unhex :: "char \<Rightarrow> nat" where
  "unhex c = (let n = of_char c in if n < 58 then n - 48 else n - 87)"

definition unescape :: "char \<Rightarrow> char" where
  "unescape c = (if c = CHR ''b'' then CHR 0x08 else if c = CHR ''f'' then CHR 0x0C
     else if c = CHR ''n'' then CHR 0x0A else if c = CHR ''r'' then CHR 0x0D
     else if c = CHR ''t'' then CHR 0x09 else c)"

fun json_decode :: "string \<Rightarrow> (string \<times> string) option" where
  "json_decode [] = None"
| "json_decode (c # cs) =
     (if c = CHR 0x22 then Some ([], cs)
      else if c = CHR 0x5C then
        (case cs of
           [] \<Rightarrow> None
         | d # ds \<Rightarrow>
             if d = CHR ''u'' then
               map_option (apfst ((#) (char_of (16 * unhex (ds ! 2) + unhex (ds ! 3)))))
                 (json_decode (drop 4 ds))
             else map_option (apfst ((#) (unescape d))) (json_decode ds))
      else map_option (apfst ((#) c)) (json_decode cs))"

lemma unhex_hex_char: "d < 16 \<Longrightarrow> unhex (hex_char d) = d"
  by (auto simp: unhex_def hex_char_def Let_def)

lemma json_decode_escape:
  "json_decode (json_escape c @ r) = map_option (apfst ((#) c)) (json_decode r)"
proof -
  let ?n = "of_char c :: nat"
  have c: "char_of ?n = c" by simp
  have lit: "c = CHR 0x22 \<longleftrightarrow> ?n = 34" "c = CHR 0x5C \<longleftrightarrow> ?n = 92" "c = CHR 0x08 \<longleftrightarrow> ?n = 8"
    "c = CHR 0x0C \<longleftrightarrow> ?n = 12" "c = CHR 0x0A \<longleftrightarrow> ?n = 10" "c = CHR 0x0D \<longleftrightarrow> ?n = 13"
    "c = CHR 0x09 \<longleftrightarrow> ?n = 9"
    by (simp_all flip: of_char_eq_iff [where ?'a = nat])
  consider "?n \<in> {34, 92, 8, 12, 10, 13, 9}" | "?n \<notin> {34, 92, 8, 12, 10, 13, 9}" "?n < 32"
    | "?n \<notin> {34, 92, 8, 12, 10, 13, 9}" "\<not> ?n < 32" by blast
  then show ?thesis
  proof cases
    case 1
    then have "c \<in> {CHR 0x22, CHR 0x5C, CHR 0x08, CHR 0x0C, CHR 0x0A, CHR 0x0D, CHR 0x09}"
      using lit by simp
    then show ?thesis
      by (elim insertE emptyE) (simp_all add: json_escape_def unescape_def)
  next
    case 2
    have "16 * unhex (hex_char (?n div 16)) + unhex (hex_char (?n mod 16)) = ?n"
      using 2(2) by (simp add: unhex_hex_char)
    moreover have "json_escape c = [CHR 0x5C, CHR ''u'', CHR ''0'', CHR ''0'',
        hex_char (?n div 16), hex_char (?n mod 16)]"
      using 2 by (simp add: json_escape_def hex2_def Let_def)
    ultimately show ?thesis by simp
  next
    case 3
    then show ?thesis
      by (simp add: json_escape_def Let_def lit)
  qed
qed

lemma json_decode_literal: "json_decode (concat (map json_escape s) @ CHR 0x22 # r) = Some (s, r)"
  by (induction s) (simp_all add: json_decode_escape)

lemma json_string_prefix:
  assumes "json_string s @ r = json_string t @ u"
  shows "s = t \<and> r = u"
proof -
  have "json_decode (concat (map json_escape s) @ CHR 0x22 # r) =
      json_decode (concat (map json_escape t) @ CHR 0x22 # u)"
    using assms by (simp add: json_string_def)
  then show ?thesis by (simp add: json_decode_literal)
qed

end
