(* ===== verification/WebhookDelivery.thy ===== *)
theory WebhookDelivery
  imports JsResult SqlTable JsText
begin

text \<open>
  \<open>backend/src/services/webhookService.js\<close>, \<open>webhookTopics.js\<close> and the worker
  \<open>backend/src/jobs/webhookDeliveryWorker.js\<close>: registration of webhooks, delivery with an
  idempotency key, retries with backoff, the dead letter queue, replay and the streams that watch
  accounts. The state is the four tables, the process's cache of webhooks, the set of accounts
  watched and the log of requests sent.

  A webhook object is passed by reference, and a failed delivery counts on it (\<open>webhook.attempts\<close>).
  \<open>hook_ref\<close> says which object it is: the one in the cache under an id, which later calls share, or
  one built for this call, whose count is gone afterwards.
\<close>

section \<open>Data\<close>

record webhook_row =
  wr_owner :: string
  wr_url :: string
  wr_secret :: string
  wr_topics :: "string list"
  wr_created :: int

record event_row =
  ev_webhook :: string
  ev_type :: string
  ev_payload :: string
  ev_key :: string
  ev_created :: int
  ev_delivered :: "int option"

record delivery_row =
  dl_webhook :: string
  dl_type :: string
  dl_payload :: string
  dl_key :: string
  dl_status :: string
  dl_attempts :: nat
  dl_last :: "int option"
  dl_error :: "string option"
  dl_retry :: "int option"
  dl_priority :: int
  dl_created :: int

record dead_letter =
  dd_delivery :: string
  dd_webhook :: string
  dd_payload :: string
  dd_attempt :: "nat option"
  dd_error :: string
  dd_created :: int

record hook =
  ho_id :: string
  ho_owner :: string
  ho_url :: string
  ho_secret :: string
  ho_topics :: "string list option"
  ho_attempts :: nat

datatype hook_ref = Shared string | Fresh hook

text \<open>A request sent to an endpoint: address, body, idempotency key.\<close>

record sent_request =
  sr_url :: string
  sr_payload :: string
  sr_key :: string

datatype reply = Ok | HttpStatus nat | Broken string

text \<open>
  From outside: the id generator, the digest, the cipher, \<open>JSON.parse\<close>'s verdict on a text, what
  the \<open>n\<close>th request is answered, and whether the driver answers an insert with the number of
  rows (the query builder documents that for Amazon Redshift only; for SQLite an insert answers an
  array of ids). \<open>we_nulls_first\<close> is where an ascending order puts NULL: first in SQLite, last in
  PostgreSQL.
\<close>

record hook_env =
  we_uuid :: "nat \<Rightarrow> string"
  we_hash :: "string \<Rightarrow> string"
  we_encrypt :: "string \<Rightarrow> string"
  we_decrypt :: "string \<Rightarrow> string option"
  we_json :: "string \<Rightarrow> bool"
  we_net :: "nat \<Rightarrow> sent_request \<Rightarrow> reply"
  we_counts :: bool
  we_nulls_first :: bool

record hook_db =
  wd_webhooks :: "(string, webhook_row) table"
  wd_events :: "(string, event_row) table"
  wd_deliveries :: "(string, delivery_row) table"
  wd_dead :: "(string, dead_letter) table"
  wd_cache :: "string \<rightharpoonup> hook"
  wd_streams :: "string set"
  wd_timer :: bool
  wd_sent :: "sent_request list"
  wd_uuid :: nat

definition MAX_RETRIES :: nat where "MAX_RETRIES = 6"
definition RETRY_INTERVALS_SECONDS :: "int list" where
  "RETRY_INTERVALS_SECONDS = [60, 300, 900, 3600, 21600, 86400]"
definition MAX_WEBHOOKS_PER_ACCOUNT :: nat where "MAX_WEBHOOKS_PER_ACCOUNT = 10"

definition generateId :: "hook_env \<Rightarrow> hook_db \<Rightarrow> string \<times> hook_db" where
  "generateId env st = (we_uuid env (wd_uuid st), st\<lparr>wd_uuid := Suc (wd_uuid st)\<rparr>)"

section \<open>Topics\<close>

text \<open>\<open>[...new Set(topics)]\<close> keeps the first of equal topics.\<close>

definition normalizeTopics :: "string list \<Rightarrow> string list" where
  "normalizeTopics ts =
     (if ts = [] \<or> ''all'' \<in> set ts then [''all''] else rev (remdups (rev ts)))"

definition matchesWebhookTopic :: "string list \<Rightarrow> string \<Rightarrow> bool" where
  "matchesWebhookTopic ts t \<longleftrightarrow>
     ''all'' \<in> set (normalizeTopics ts) \<or> t \<in> set (normalizeTopics ts)"

section \<open>Registration\<close>

definition startMonitoring :: "string \<Rightarrow> hook_db \<Rightarrow> hook_db" where
  "startMonitoring pk st =
     (if pk \<in> wd_streams st then st else st\<lparr>wd_streams := insert pk (wd_streams st)\<rparr>)"

definition hook_of_row :: "string \<Rightarrow> webhook_row \<Rightarrow> hook" where
  "hook_of_row i r = \<lparr>ho_id = i, ho_owner = wr_owner r, ho_url = wr_url r, ho_secret = wr_secret r,
     ho_topics = Some (normalizeTopics (wr_topics r)), ho_attempts = 0\<rparr>"

definition registerWebhook ::
  "hook_env \<Rightarrow> int \<Rightarrow> string \<Rightarrow> string \<Rightarrow> string \<Rightarrow> string list \<Rightarrow> hook_db \<Rightarrow> thrown + string \<times> hook_db"
  where
  "registerWebhook env now pk url secret topics st =
     bnd (ensure (length (tb_select (\<lambda>_ r. wr_owner r = pk) (wd_webhooks st)) < MAX_WEBHOOKS_PER_ACCOUNT)
          (http_error 400 (''Maximum of '' @ show_nat MAX_WEBHOOKS_PER_ACCOUNT
             @ '' webhooks per account reached''))) (\<lambda>_.
       let (i, st1) = generateId env st;
           r = \<lparr>wr_owner = pk, wr_url = url, wr_secret = we_encrypt env secret,
                wr_topics = normalizeTopics topics, wr_created = now\<rparr>
       in case tb_insert i r (wd_webhooks st1) of
            None \<Rightarrow> Inl (plain_error ''UNIQUE constraint failed'')
          | Some t \<Rightarrow> Inr (i, startMonitoring pk
              (st1\<lparr>wd_webhooks := t, wd_cache := (wd_cache st1)(i \<mapsto> hook_of_row i r)\<rparr>)))"

definition getWebhooksByPublicKey :: "string \<Rightarrow> hook_db \<Rightarrow> hook list" where
  "getWebhooksByPublicKey pk st =
     map (\<lambda>(i, r). hook_of_row i r) (tb_select (\<lambda>_ r. wr_owner r = pk) (wd_webhooks st))"

text \<open>
  Deleting a webhook deletes its events along (the foreign key cascades), not its deliveries. The
  account, and with it the stream to close, is known only if the webhook was in the cache.
\<close>

definition deleteWebhook :: "string \<Rightarrow> hook_db \<Rightarrow> bool \<times> hook_db" where
  "deleteWebhook i st =
     (let owner = map_option ho_owner (wd_cache st i);
          (n, t) = tb_delete (\<lambda>k _. k = i) (wd_webhooks st);
          st1 = st\<lparr>wd_webhooks := t, wd_cache := (wd_cache st)(i := None),
                   wd_events := snd (tb_delete (\<lambda>_ e. ev_webhook e = i) (wd_events st))\<rparr>
      in if n = 0 then (False, st\<lparr>wd_cache := (wd_cache st)(i := None)\<rparr>)
         else (True,
           (case owner of None \<Rightarrow> st1
            | Some pk \<Rightarrow> if \<exists>h \<in> ran (wd_cache st1). ho_owner h = pk then st1
                else st1\<lparr>wd_streams := wd_streams st1 - {pk}\<rparr>)))"

definition getWebhookById :: "string \<Rightarrow> hook_db \<Rightarrow> hook option \<times> hook_db" where
  "getWebhookById i st =
     (case wd_cache st i of
        Some h \<Rightarrow> (Some h, st)
      | None \<Rightarrow>
          (case tb_row (wd_webhooks st) i of
             None \<Rightarrow> (None, st)
           | Some r \<Rightarrow> (Some (hook_of_row i r),
               st\<lparr>wd_cache := (wd_cache st)(i \<mapsto> hook_of_row i r)\<rparr>)))"

definition restore_row :: "string \<times> webhook_row \<Rightarrow> hook_db \<Rightarrow> hook_db" where
  "restore_row = (\<lambda>(i, r) st. startMonitoring (wr_owner r)
     (if wd_cache st i = None then st\<lparr>wd_cache := (wd_cache st)(i \<mapsto> hook_of_row i r)\<rparr> else st))"

definition restoreWebhooks :: "hook_db \<Rightarrow> nat \<times> hook_db" where
  "restoreWebhooks st =
     (length (remdups (map (\<lambda>(i, r). wr_owner r) (wd_webhooks st))),
      fold restore_row (wd_webhooks st) st)"

section \<open>Delivery\<close>

definition deref :: "hook_ref \<Rightarrow> hook_db \<Rightarrow> hook option" where
  "deref r st = (case r of Shared i \<Rightarrow> wd_cache st i | Fresh h \<Rightarrow> Some h)"

text \<open>\<open>webhook.attempts = n\<close>: seen by later calls only on a shared object.\<close>

definition set_attempts :: "hook_ref \<Rightarrow> nat \<Rightarrow> hook_db \<Rightarrow> hook_db" where
  "set_attempts r n st =
     (case r of
        Shared i \<Rightarrow> st\<lparr>wd_cache := (wd_cache st)(i := map_option (\<lambda>h. h\<lparr>ho_attempts := n\<rparr>) (wd_cache st i))\<rparr>
      | Fresh h \<Rightarrow> st)"

definition generateIdempotencyKey :: "hook_env \<Rightarrow> string \<Rightarrow> string \<Rightarrow> string \<Rightarrow> string" where
  "generateIdempotencyKey env i type payload = we_hash env (i @ '':'' @ type @ '':'' @ payload)"

definition attemptDelivery :: "hook_env \<Rightarrow> hook \<Rightarrow> string \<Rightarrow> string \<Rightarrow> hook_db \<Rightarrow> reply \<times> hook_db" where
  "attemptDelivery env h payload key st =
     (case we_decrypt env (ho_secret h) of
        None \<Rightarrow> (Broken ''decryption failed'', st)
      | Some _ \<Rightarrow>
          let q = \<lparr>sr_url = ho_url h, sr_payload = payload,
                   sr_key = (if key = [] then ''legacy-retry'' else key)\<rparr>
          in (we_net env (length (wd_sent st)) q, st\<lparr>wd_sent := wd_sent st @ [q]\<rparr>))"

definition writeToDeadLetterQueue ::
  "hook_env \<Rightarrow> int \<Rightarrow> string \<Rightarrow> string \<Rightarrow> string \<Rightarrow> nat option \<Rightarrow> string \<Rightarrow> hook_db \<Rightarrow> hook_db" where
  "writeToDeadLetterQueue env now did wid payload attempt msg st =
     (let (i, st1) = generateId env st
      in if tb_row (wd_deliveries st1) did = None then st1
         else case tb_insert i \<lparr>dd_delivery = did, dd_webhook = wid, dd_payload = payload,
                dd_attempt = attempt, dd_error = msg, dd_created = now\<rparr> (wd_dead st1) of
           None \<Rightarrow> st1
         | Some t \<Rightarrow> st1\<lparr>wd_dead := t\<rparr>)"

definition retry_delay :: "nat \<Rightarrow> int" where
  "retry_delay n =
     RETRY_INTERVALS_SECONDS ! min (n - 1) (length RETRY_INTERVALS_SECONDS - 1) * 1000"

definition handleDeliveryFailure ::
  "hook_env \<Rightarrow> int \<Rightarrow> string \<Rightarrow> hook_ref \<Rightarrow> hook \<Rightarrow> string \<Rightarrow> string \<Rightarrow> hook_db \<Rightarrow> hook_db" where
  "handleDeliveryFailure env now did ref h msg payload st =
     (let n = ho_attempts h + 1; dead = MAX_RETRIES \<le> n;
          st1 = st\<lparr>wd_deliveries := tb_set did (\<lambda>d. d\<lparr>dl_attempts := n, dl_last := Some now,
                  dl_error := Some msg, dl_retry := (if dead then None else Some (now + retry_delay n)),
                  dl_status := (if dead then ''dead'' else ''pending'')\<rparr>) (wd_deliveries st)\<rparr>;
          st2 = set_attempts ref n st1
      in if dead then writeToDeadLetterQueue env now did (ho_id h) payload
             (map_option (\<lambda>_. n) (tb_row (wd_deliveries st2) did)) msg st2
         else st2)"

definition mark_delivered :: "int \<Rightarrow> string \<Rightarrow> string \<Rightarrow> hook_db \<Rightarrow> hook_db" where
  "mark_delivered now did key st =
     st\<lparr>wd_deliveries := tb_set did (\<lambda>d. d\<lparr>dl_status := ''delivered'', dl_last := Some now\<rparr>)
          (wd_deliveries st),
        wd_events := (if key = [] then wd_events st
          else snd (tb_update (\<lambda>_ e. ev_key e = key) (\<lambda>e. e\<lparr>ev_delivered := Some now\<rparr>) (wd_events st)))\<rparr>"

definition reply_error :: "reply \<Rightarrow> string" where
  "reply_error r = (case r of HttpStatus n \<Rightarrow> ''HTTP '' @ show_nat n | Broken m \<Rightarrow> m | Ok \<Rightarrow> [])"

text \<open>One attempt and its outcome, as \<open>deliverWebhook\<close> and the retry queue both run it.\<close>

definition run_attempt ::
  "hook_env \<Rightarrow> int \<Rightarrow> string \<Rightarrow> hook_ref \<Rightarrow> hook \<Rightarrow> string \<Rightarrow> string \<Rightarrow> hook_db \<Rightarrow> hook_db" where
  "run_attempt env now did ref h payload key st =
     (let (r, st1) = attemptDelivery env h payload key st
      in if r = Ok then mark_delivered now did key st1
         else handleDeliveryFailure env now did ref h (reply_error r) payload st1)"

text \<open>
  \<open>insert(...).onConflict("idempotency_key").ignore()\<close>: the event is new, known, or refused because
  its webhook is gone.
\<close>

definition record_event ::
  "hook_env \<Rightarrow> int \<Rightarrow> string \<Rightarrow> string \<Rightarrow> string \<Rightarrow> string \<Rightarrow> hook_db \<Rightarrow> bool \<times> hook_db" where
  "record_event env now wid type payload key st =
     (let (i, st1) = generateId env st
      in if tb_row (wd_webhooks st1) wid = None then (False, st1)
         else if tb_select (\<lambda>_ e. ev_key e = key) (wd_events st1) \<noteq> [] then (\<not> we_counts env, st1)
         else case tb_insert i \<lparr>ev_webhook = wid, ev_type = type, ev_payload = payload, ev_key = key,
                     ev_created = now, ev_delivered = None\<rparr> (wd_events st1) of
           None \<Rightarrow> (False, st1)
         | Some t \<Rightarrow> (True, st1\<lparr>wd_events := t\<rparr>))"

definition resolve_hook :: "hook_ref \<Rightarrow> hook_db \<Rightarrow> hook_ref \<times> hook_db" where
  "resolve_hook ref st =
     (case deref ref st of
        None \<Rightarrow> (ref, st)
      | Some h \<Rightarrow>
          if ho_secret h = [] \<and> ho_id h \<noteq> []
          then (case getWebhookById (ho_id h) st of
                  (None, st1) \<Rightarrow> (ref, st1)
                | (Some _, st1) \<Rightarrow> (Shared (ho_id h), st1))
          else (ref, st))"

definition deliverWebhook ::
  "hook_env \<Rightarrow> int \<Rightarrow> hook_ref \<Rightarrow> string \<Rightarrow> string \<Rightarrow> hook_db \<Rightarrow> hook_db" where
  "deliverWebhook env now ref0 payload type st0 =
     (let (ref, st) = resolve_hook ref0 st0
      in case deref ref st of
           None \<Rightarrow> st
         | Some h \<Rightarrow>
             if ho_secret h = [] then st
             else if (case ho_topics h of None \<Rightarrow> False | Some ts \<Rightarrow> \<not> matchesWebhookTopic ts type) then st
             else
               let (did, st1) = generateId env st;
                   key = generateIdempotencyKey env (ho_id h) type payload;
                   (new, st2) = record_event env now (ho_id h) type payload key st1
               in if \<not> new then st2
                  else case tb_insert did \<lparr>dl_webhook = ho_id h, dl_type = type, dl_payload = payload,
                              dl_key = key, dl_status = ''pending'', dl_attempts = 0, dl_last = None,
                              dl_error = None, dl_retry = None, dl_priority = 0, dl_created = now\<rparr>
                              (wd_deliveries st2) of
                         None \<Rightarrow> st2
                       | Some t \<Rightarrow> run_attempt env now did ref h payload key (st2\<lparr>wd_deliveries := t\<rparr>))"

section \<open>The retry queue\<close>

text \<open>Sorting is stable, so sorting by the least significant column first gives the query's order.\<close>

definition queue_order :: "hook_env \<Rightarrow> (string \<times> delivery_row) list \<Rightarrow> (string \<times> delivery_row) list" where
  "queue_order env ds =
     sort_key (\<lambda>(i, d). - dl_priority d)
       (sort_key (\<lambda>(i, d). dl_attempts d)
         (sort_key (\<lambda>(i, d). case dl_retry d of None \<Rightarrow> if we_nulls_first env then 0 else 2 | Some _ \<Rightarrow> (1::nat))
           (sort_key (\<lambda>(i, d). case dl_retry d of None \<Rightarrow> 0 | Some t \<Rightarrow> t) ds)))"

definition retry_due :: "int \<Rightarrow> delivery_row \<Rightarrow> bool" where
  "retry_due now d \<longleftrightarrow> (case dl_retry d of None \<Rightarrow> True | Some t \<Rightarrow> t \<le> now)"

definition pending_retries :: "hook_env \<Rightarrow> int \<Rightarrow> hook_db \<Rightarrow> (string \<times> delivery_row) list" where
  "pending_retries env now st =
     take 50 (queue_order env (tb_select (\<lambda>_ d. dl_status d = ''pending'' \<and> dl_attempts d < MAX_RETRIES
       \<and> retry_due now d) (wd_deliveries st)))"

definition retry_one :: "hook_env \<Rightarrow> int \<Rightarrow> string \<times> delivery_row \<Rightarrow> hook_db \<Rightarrow> hook_db" where
  "retry_one env now = (\<lambda>(did, d) st.
     let wid = dl_webhook d
     in case getWebhookById wid st of
          (None, st1) \<Rightarrow> st1
        | (Some h, st1) \<Rightarrow>
            if \<not> we_json env (dl_payload d)
            then handleDeliveryFailure env now did (Shared wid) h ''Invalid payload'' (dl_payload d) st1
            else run_attempt env now did (Shared wid) h (dl_payload d) (dl_key d) st1)"

definition processRetryQueue :: "hook_env \<Rightarrow> int \<Rightarrow> hook_db \<Rightarrow> hook_db" where
  "processRetryQueue env now st = fold (retry_one env now) (pending_retries env now st) st"

definition startRetryWorker :: "hook_db \<Rightarrow> hook_db" where
  "startRetryWorker st = (if wd_timer st then st else st\<lparr>wd_timer := True\<rparr>)"

definition stopRetryWorker :: "hook_db \<Rightarrow> hook_db" where
  "stopRetryWorker st = (if wd_timer st then st\<lparr>wd_timer := False\<rparr> else st)"

definition closeAllStreams :: "hook_db \<Rightarrow> hook_db" where
  "closeAllStreams st = (stopRetryWorker st)\<lparr>wd_streams := {}\<rparr>"

section \<open>The dead letter queue\<close>

text \<open>The inner join with the account's webhooks.\<close>

definition owned_by :: "hook_db \<Rightarrow> string \<Rightarrow> string \<Rightarrow> bool" where
  "owned_by st pk wid \<longleftrightarrow>
     (case tb_row (wd_webhooks st) wid of None \<Rightarrow> False | Some r \<Rightarrow> wr_owner r = pk)"

definition getDeadDeliveries :: "string \<Rightarrow> hook_db \<Rightarrow> (string \<times> delivery_row) list" where
  "getDeadDeliveries pk st =
     sort_key (\<lambda>(i, d). - dl_created d)
       (tb_select (\<lambda>_ d. owned_by st pk (dl_webhook d) \<and> dl_status d = ''dead'') (wd_deliveries st))"

definition retryDeadDeliveries :: "string \<Rightarrow> hook_db \<Rightarrow> nat \<times> hook_db" where
  "retryDeadDeliveries pk st =
     (let ids = map fst (tb_select (\<lambda>_ r. wr_owner r = pk) (wd_webhooks st))
      in if ids = [] then (0, st)
         else let (n, t) = tb_update (\<lambda>_ d. dl_webhook d \<in> set ids \<and> dl_status d = ''dead'')
                    (\<lambda>d. d\<lparr>dl_status := ''pending'', dl_attempts := 0, dl_retry := None\<rparr>) (wd_deliveries st)
              in (n, st\<lparr>wd_deliveries := t\<rparr>))"

section \<open>Streams and replay\<close>

text \<open>A payment as the stream reports it.\<close>

record payment =
  py_type :: string
  py_id :: string
  py_from :: string
  py_to :: string
  py_amount :: string
  py_asset_type :: string
  py_asset_code :: string
  py_created_at :: string

text \<open>An object literal in the text \<open>JSON.stringify\<close> gives.\<close>

definition json_obj :: "(string \<times> string) list \<Rightarrow> string" where
  "json_obj kvs = ''{'' @ join '','' (map (\<lambda>(k, v). json_string k @ '':'' @ v) kvs) @ ''}''"

definition payment_payload :: "string \<Rightarrow> payment \<Rightarrow> string" where
  "payment_payload pk p =
     json_obj [(''event'', json_string ''payment.received''), (''publicKey'', json_string pk),
       (''payment'', json_obj [(''id'', json_string (py_id p)), (''from'', json_string (py_from p)),
          (''to'', json_string (py_to p)), (''amount'', json_string (py_amount p)),
          (''asset'', json_string (if py_asset_type p = ''native'' then ''XLM'' else py_asset_code p)),
          (''createdAt'', json_string (py_created_at p))])]"

definition deliver_all :: "hook_env \<Rightarrow> int \<Rightarrow> string \<Rightarrow> string \<Rightarrow> hook list \<Rightarrow> hook_db \<Rightarrow> hook_db" where
  "deliver_all env now payload type hs st = fold (\<lambda>h. deliverWebhook env now (Fresh h) payload type) hs st"

definition onmessage :: "hook_env \<Rightarrow> int \<Rightarrow> string \<Rightarrow> payment \<Rightarrow> hook_db \<Rightarrow> hook_db" where
  "onmessage env now pk p st =
     (if py_type p \<noteq> ''payment'' \<or> py_to p \<noteq> pk then st
      else deliver_all env now (payment_payload pk p) ''payment.received'' (getWebhooksByPublicKey pk st) st)"

definition onerror :: "string \<Rightarrow> hook_db \<Rightarrow> hook_db" where
  "onerror pk st = st\<lparr>wd_streams := wd_streams st - {pk}\<rparr>"

definition in_window :: "int option \<Rightarrow> int option \<Rightarrow> int \<Rightarrow> bool" where
  "in_window since until t \<longleftrightarrow> (case since of None \<Rightarrow> True | Some a \<Rightarrow> a \<le> t)
     \<and> (case until of None \<Rightarrow> True | Some b \<Rightarrow> t \<le> b)"

definition events_to_replay ::
  "string \<Rightarrow> string list \<Rightarrow> int option \<Rightarrow> int option \<Rightarrow> hook_db \<Rightarrow> (string \<times> event_row) list" where
  "events_to_replay pk ids since until st =
     tb_select (\<lambda>i e. owned_by st pk (ev_webhook e)
       \<and> (if ids \<noteq> [] then i \<in> set ids else in_window since until (ev_created e))) (wd_events st)"

text \<open>The loop over the events: a count, or what \<open>JSON.parse\<close> throws.\<close>

fun replay_loop ::
  "hook_env \<Rightarrow> int \<Rightarrow> (string \<times> event_row) list \<Rightarrow> nat \<Rightarrow> hook_db \<Rightarrow> (thrown + nat) \<times> hook_db" where
  "replay_loop env now [] n st = (Inr n, st)"
| "replay_loop env now ((i, e) # es) n st =
     (case getWebhookById (ev_webhook e) st of
        (None, st1) \<Rightarrow> replay_loop env now es n st1
      | (Some h, st1) \<Rightarrow>
          if \<not> we_json env (ev_payload e) then (Inl (plain_error ''Unexpected token''), st1)
          else replay_loop env now es (n + 1)
                 (deliverWebhook env now (Shared (ev_webhook e)) (ev_payload e) (ev_type e) st1))"

definition replayEvents ::
  "hook_env \<Rightarrow> int \<Rightarrow> string \<Rightarrow> string list \<Rightarrow> int option \<Rightarrow> int option \<Rightarrow> hook_db
     \<Rightarrow> (thrown + nat) \<times> hook_db" where
  "replayEvents env now pk ids since until st =
     replay_loop env now (events_to_replay pk ids since until st) 0 st"

section \<open>Queries\<close>

definition getEventStats :: "string \<Rightarrow> hook_db \<Rightarrow> (string \<times> nat) list" where
  "getEventStats pk st =
     (let es = map snd (tb_select (\<lambda>_ e. owned_by st pk (ev_webhook e)) (wd_events st))
      in map (\<lambda>t. (t, length (filter (\<lambda>e. ev_type e = t) es))) (remdups (map ev_type es)))"

definition getDeliveries ::
  "string \<Rightarrow> string option \<Rightarrow> int \<Rightarrow> nat \<Rightarrow> hook_db \<Rightarrow> (string \<times> delivery_row) list \<times> nat" where
  "getDeliveries pk status page limit st =
     (let offset = nat (max 1 page - 1) * limit;
          base = tb_select (\<lambda>_ d. owned_by st pk (dl_webhook d)
            \<and> (case truthy_text status of None \<Rightarrow> True | Some s \<Rightarrow> dl_status d = s)) (wd_deliveries st)
      in (take limit (drop offset (sort_key (\<lambda>(i, d). - dl_priority d)
            (sort_key (\<lambda>(i, d). - dl_created d) base))), length base))"

definition getDeliveryById :: "string \<Rightarrow> string \<Rightarrow> hook_db \<Rightarrow> delivery_row option" where
  "getDeliveryById pk i st =
     (case tb_row (wd_deliveries st) i of
        None \<Rightarrow> None
      | Some d \<Rightarrow> if owned_by st pk (dl_webhook d) then Some d else None)"

section \<open>The delivery worker\<close>

definition getDueDeliveries :: "hook_env \<Rightarrow> int \<Rightarrow> hook_db \<Rightarrow> (string \<times> delivery_row) list" where
  "getDueDeliveries env now st =
     take 50 (queue_order env (tb_select (\<lambda>_ d. dl_status d \<in> {''pending'', ''failed''}
       \<and> retry_due now d) (wd_deliveries st)))"

definition processDelivery :: "hook_env \<Rightarrow> int \<Rightarrow> string \<times> delivery_row \<Rightarrow> hook_db \<Rightarrow> hook_db" where
  "processDelivery env now = (\<lambda>(did, d) st.
     let st1 = st\<lparr>wd_deliveries := tb_set did (\<lambda>d. d\<lparr>dl_status := ''in_flight''\<rparr>) (wd_deliveries st)\<rparr>
     in case tb_row (wd_webhooks st1) (dl_webhook d) of
          None \<Rightarrow> st1\<lparr>wd_deliveries := tb_set did
             (\<lambda>d. d\<lparr>dl_status := ''failed'', dl_error := Some ''Webhook not found''\<rparr>) (wd_deliveries st1)\<rparr>
        | Some r \<Rightarrow>
            if \<not> we_json env (dl_payload d) then st1
            else deliverWebhook env now
              (Fresh \<lparr>ho_id = dl_webhook d, ho_owner = wr_owner r, ho_url = wr_url r,
                 ho_secret = wr_secret r, ho_topics = None, ho_attempts = dl_attempts d\<rparr>)
              (dl_payload d) (dl_type d) st1)"

text \<open>\<open>isRunning\<close> keeps cycles of one process apart; each cycle is one step here.\<close>

definition runCycle :: "hook_env \<Rightarrow> int \<Rightarrow> hook_db \<Rightarrow> hook_db" where
  "runCycle env now st = fold (processDelivery env now) (getDueDeliveries env now st) st"

section \<open>The running service\<close>

definition restarted :: "hook_db \<Rightarrow> hook_db" where
  "restarted st = snd (restoreWebhooks (st\<lparr>wd_cache := (\<lambda>_. None), wd_streams := {}, wd_timer := False\<rparr>))"

inductive hook_step :: "hook_env \<Rightarrow> hook_db \<Rightarrow> hook_db \<Rightarrow> bool" for env where
  register: "registerWebhook env now pk url sec ts st = Inr (i, st') \<Longrightarrow> hook_step env st st'"
| remove: "hook_step env st (snd (deleteWebhook i st))"
| payment_received: "hook_step env st (onmessage env now pk p st)"
| notify: "hook_step env st (deliver_all env now payload type (getWebhooksByPublicKey pk st) st)"
| stream_error: "hook_step env st (onerror pk st)"
| retry: "hook_step env st (processRetryQueue env now st)"
| reset: "hook_step env st (snd (retryDeadDeliveries pk st))"
| replay: "hook_step env st (snd (replayEvents env now pk ids since until st))"
| timer_on: "hook_step env st (startRetryWorker st)"
| close: "hook_step env st (closeAllStreams st)"
| restart: "hook_step env st (restarted st)"
| worker: "hook_step env st (runCycle env now st)"

definition fresh_service :: hook_db where
  "fresh_service = \<lparr>wd_webhooks = [], wd_events = [], wd_deliveries = [], wd_dead = [],
     wd_cache = (\<lambda>_. None), wd_streams = {}, wd_timer = False, wd_sent = [], wd_uuid = 0\<rparr>"

abbreviation hook_reachable :: "hook_env \<Rightarrow> hook_db \<Rightarrow> bool" where
  "hook_reachable env st \<equiv> (hook_step env)\<^sup>*\<^sup>* fresh_service st"

end
