(* ===== verification/WebhookClaims.thy ===== *)
theory WebhookClaims
  imports WebhookDelivery
begin

text \<open>
  What holds of the webhook service in every state it can reach, and what its retry counter,
  its duplicate check and its second worker do.

  Most operations are quiet: they leave the webhooks alone and keep of each event and each
  delivery its core, the columns no operation changes. The invariant speaks of cores only.
\<close>

definition ev_core :: "event_row \<Rightarrow> string \<times> string \<times> string \<times> string" where
  "ev_core e = (ev_webhook e, ev_type e, ev_payload e, ev_key e)"

definition dl_core :: "delivery_row \<Rightarrow> string \<times> string \<times> string \<times> string" where
  "dl_core d = (dl_webhook d, dl_type d, dl_payload d, dl_key d)"

definition ev_cores :: "hook_db \<Rightarrow> string \<Rightarrow> (string \<times> string \<times> string \<times> string) option" where
  "ev_cores st i = map_option ev_core (tb_row (wd_events st) i)"

definition dl_cores :: "hook_db \<Rightarrow> string \<Rightarrow> (string \<times> string \<times> string \<times> string) option" where
  "dl_cores st i = map_option dl_core (tb_row (wd_deliveries st) i)"

definition registered :: "hook_db \<Rightarrow> string \<Rightarrow> bool" where
  "registered st w \<longleftrightarrow> tb_row (wd_webhooks st) w \<noteq> None"

definition copy_of :: "string \<Rightarrow> webhook_row \<Rightarrow> hook \<Rightarrow> bool" where
  "copy_of i r h \<longleftrightarrow> ho_id h = i \<and> ho_owner h = wr_owner r \<and> ho_url h = wr_url r
     \<and> ho_secret h = wr_secret r \<and> ho_topics h = Some (normalizeTopics (wr_topics r))"

lemma copy_of_simps [simp]:
  "copy_of i r (h\<lparr>ho_attempts := n\<rparr>) = copy_of i r h" "copy_of i r (hook_of_row i r)"
  by (simp_all add: copy_of_def hook_of_row_def)

definition cache_ok :: "hook_db \<Rightarrow> bool" where
  "cache_ok st \<longleftrightarrow> (\<forall>i h. wd_cache st i = Some h \<longrightarrow>
     (\<exists>r. tb_row (wd_webhooks st) i = Some r \<and> copy_of i r h))"

definition tables_ok :: "hook_db \<Rightarrow> bool" where
  "tables_ok st \<longleftrightarrow> tb_wf (wd_webhooks st) \<and> tb_wf (wd_events st) \<and> tb_wf (wd_deliveries st)"

definition uuids :: "hook_env \<Rightarrow> hook_db \<Rightarrow> string set" where
  "uuids env st = we_uuid env ` {..<wd_uuid st}"

definition ids_ok :: "hook_env \<Rightarrow> hook_db \<Rightarrow> bool" where
  "ids_ok env st \<longleftrightarrow> (\<forall>w. registered st w \<longrightarrow> w \<in> uuids env st)
     \<and> (\<forall>i w t p k. dl_cores st i = Some (w, t, p, k) \<longrightarrow> w \<in> uuids env st \<and> i \<in> uuids env st)
     \<and> (\<forall>i. ev_cores st i \<noteq> None \<longrightarrow> i \<in> uuids env st)"

definition events_ok :: "hook_env \<Rightarrow> hook_db \<Rightarrow> bool" where
  "events_ok env st \<longleftrightarrow> (\<forall>i w t p k. ev_cores st i = Some (w, t, p, k) \<longrightarrow>
     registered st w \<and> k = generateIdempotencyKey env w t p)"

text \<open>A delivery of a registered webhook has its event.\<close>

definition covered :: "hook_db \<Rightarrow> bool" where
  "covered st \<longleftrightarrow> (\<forall>i w t p k. dl_cores st i = Some (w, t, p, k) \<longrightarrow> registered st w \<longrightarrow>
     (\<exists>j t' p'. ev_cores st j = Some (w, t', p', k)))"

definition keys_ok :: "hook_env \<Rightarrow> hook_db \<Rightarrow> bool" where
  "keys_ok env st \<longleftrightarrow> (\<forall>i w t p k. dl_cores st i = Some (w, t, p, k) \<longrightarrow>
     k = generateIdempotencyKey env w t p)"

definition once :: "hook_db \<Rightarrow> bool" where
  "once st \<longleftrightarrow> (\<forall>i j w t p t' p' k. dl_cores st i = Some (w, t, p, k) \<longrightarrow>
     dl_cores st j = Some (w, t', p', k) \<longrightarrow> registered st w \<longrightarrow> i = j)"

definition capped :: "hook_db \<Rightarrow> bool" where
  "capped st \<longleftrightarrow> (\<forall>pk. length (tb_select (\<lambda>_ r. wr_owner r = pk) (wd_webhooks st))
     \<le> MAX_WEBHOOKS_PER_ACCOUNT)"

definition hook_inv :: "hook_env \<Rightarrow> hook_db \<Rightarrow> bool" where
  "hook_inv env st \<longleftrightarrow> tables_ok st \<and> cache_ok st \<and> ids_ok env st \<and> events_ok env st
     \<and> keys_ok env st \<and> capped st \<and> (we_counts env \<longrightarrow> covered st \<and> once st)"

lemmas hook_inv_defs = hook_inv_def tables_ok_def cache_ok_def ids_ok_def events_ok_def covered_def
  capped_def once_def

section \<open>Quiet operations\<close>

definition quiet :: "hook_db \<Rightarrow> hook_db \<Rightarrow> bool" where
  "quiet st st' \<longleftrightarrow> wd_webhooks st' = wd_webhooks st \<and> ev_cores st' = ev_cores st
     \<and> dl_cores st' = dl_cores st \<and> wd_uuid st \<le> wd_uuid st'
     \<and> (tables_ok st \<longrightarrow> tables_ok st') \<and> (cache_ok st \<longrightarrow> cache_ok st')"

lemma quiet_refl [simp]: "quiet st st"
  by (simp add: quiet_def)

lemma quiet_trans: "quiet a b \<Longrightarrow> quiet b c \<Longrightarrow> quiet a c"
  by (simp add: quiet_def)

lemma uuids_mono: "wd_uuid st \<le> wd_uuid st' \<Longrightarrow> w \<in> uuids env st \<Longrightarrow> w \<in> uuids env st'"
  by (auto simp: uuids_def)

lemma quiet_inv:
  assumes "quiet st st'" and "hook_inv env st"
  shows "hook_inv env st'"
proof -
  have r: "registered st' = registered st"
    using assms(1) by (simp add: registered_def quiet_def fun_eq_iff)
  have "ids_ok env st'"
    using assms uuids_mono [of st st'] by (auto simp: ids_ok_def hook_inv_def quiet_def r)
  then show ?thesis
    using assms unfolding hook_inv_def quiet_def
    by (simp add: events_ok_def covered_def keys_ok_def once_def capped_def r)
qed

lemma cores_fields [simp]:
  "ev_cores (st\<lparr>wd_uuid := n\<rparr>) = ev_cores st" "dl_cores (st\<lparr>wd_uuid := n\<rparr>) = dl_cores st"
  "ev_cores (st\<lparr>wd_sent := l\<rparr>) = ev_cores st" "dl_cores (st\<lparr>wd_sent := l\<rparr>) = dl_cores st"
  "ev_cores (st\<lparr>wd_dead := q\<rparr>) = ev_cores st" "dl_cores (st\<lparr>wd_dead := q\<rparr>) = dl_cores st"
  "ev_cores (st\<lparr>wd_cache := c\<rparr>) = ev_cores st" "dl_cores (st\<lparr>wd_cache := c\<rparr>) = dl_cores st"
  "ev_cores (st\<lparr>wd_streams := s\<rparr>) = ev_cores st" "dl_cores (st\<lparr>wd_streams := s\<rparr>) = dl_cores st"
  "ev_cores (st\<lparr>wd_timer := b\<rparr>) = ev_cores st" "dl_cores (st\<lparr>wd_timer := b\<rparr>) = dl_cores st"
  "ev_cores (st\<lparr>wd_webhooks := t\<rparr>) = ev_cores st" "dl_cores (st\<lparr>wd_webhooks := t\<rparr>) = dl_cores st"
  "ev_cores (st\<lparr>wd_deliveries := ds\<rparr>) = ev_cores st" "dl_cores (st\<lparr>wd_events := es\<rparr>) = dl_cores st"
  by (simp_all add: ev_cores_def dl_cores_def fun_eq_iff)

lemma ok_fields [simp]:
  "tables_ok (st\<lparr>wd_uuid := n\<rparr>) = tables_ok st" "cache_ok (st\<lparr>wd_uuid := n\<rparr>) = cache_ok st"
  "tables_ok (st\<lparr>wd_sent := l\<rparr>) = tables_ok st" "cache_ok (st\<lparr>wd_sent := l\<rparr>) = cache_ok st"
  "tables_ok (st\<lparr>wd_dead := q\<rparr>) = tables_ok st" "cache_ok (st\<lparr>wd_dead := q\<rparr>) = cache_ok st"
  "tables_ok (st\<lparr>wd_streams := s\<rparr>) = tables_ok st" "cache_ok (st\<lparr>wd_streams := s\<rparr>) = cache_ok st"
  "tables_ok (st\<lparr>wd_timer := b\<rparr>) = tables_ok st" "cache_ok (st\<lparr>wd_timer := b\<rparr>) = cache_ok st"
  "tables_ok (st\<lparr>wd_cache := c\<rparr>) = tables_ok st"
  "cache_ok (st\<lparr>wd_deliveries := ds\<rparr>) = cache_ok st" "cache_ok (st\<lparr>wd_events := es\<rparr>) = cache_ok st"
  by (simp_all add: tables_ok_def cache_ok_def)

lemma quiet_fields [simp]:
  "quiet st (st'\<lparr>wd_sent := l\<rparr>) = quiet st st'" "quiet st (st'\<lparr>wd_dead := q\<rparr>) = quiet st st'"
  "quiet st (st'\<lparr>wd_streams := s\<rparr>) = quiet st st'" "quiet st (st'\<lparr>wd_timer := b\<rparr>) = quiet st st'"
  by (simp_all add: quiet_def)

lemma quiet_uuid: "quiet st st' \<Longrightarrow> wd_uuid st' \<le> n \<Longrightarrow> quiet st (st'\<lparr>wd_uuid := n\<rparr>)"
  by (simp add: quiet_def)

lemma quiet_deliveries:
  assumes "\<And>d. dl_core (f d) = dl_core d"
  shows "quiet st (st\<lparr>wd_deliveries := snd (tb_update P f (wd_deliveries st))\<rparr>)"
proof -
  have "dl_cores (st\<lparr>wd_deliveries := snd (tb_update P f (wd_deliveries st))\<rparr>) i = dl_cores st i" for i
    using assms by (cases "tb_row (wd_deliveries st) i") (simp_all add: dl_cores_def db.row_upd)
  then show ?thesis by (simp add: quiet_def tables_ok_def fun_eq_iff)
qed

lemma quiet_events:
  assumes "\<And>e. ev_core (f e) = ev_core e"
  shows "quiet st (st\<lparr>wd_events := snd (tb_update P f (wd_events st))\<rparr>)"
proof -
  have "ev_cores (st\<lparr>wd_events := snd (tb_update P f (wd_events st))\<rparr>) i = ev_cores st i" for i
    using assms by (cases "tb_row (wd_events st) i") (simp_all add: ev_cores_def db.row_upd)
  then show ?thesis by (simp add: quiet_def tables_ok_def fun_eq_iff)
qed

lemma quiet_cache: "(cache_ok st \<Longrightarrow> cache_ok (st\<lparr>wd_cache := c\<rparr>)) \<Longrightarrow> quiet st (st\<lparr>wd_cache := c\<rparr>)"
  by (simp add: quiet_def)

lemma quiet_generateId: "generateId env st = (i, st') \<Longrightarrow> quiet st st'"
  by (auto simp: generateId_def intro: quiet_uuid)

lemma quiet_getWebhookById:
  assumes "getWebhookById i st = (x, st')"
  shows "quiet st st'"
proof -
  have "cache_ok (st\<lparr>wd_cache := (wd_cache st)(i \<mapsto> hook_of_row i r)\<rparr>)"
    if "cache_ok st" "tb_row (wd_webhooks st) i = Some r" for r
    using that by (auto simp: cache_ok_def)
  then show ?thesis
    using assms by (auto simp: getWebhookById_def split: option.splits intro!: quiet_cache)
qed

lemma quiet_set_attempts: "quiet st (set_attempts ref n st)"
proof (cases ref)
  case (Shared i)
  have "cache_ok st \<Longrightarrow> cache_ok (st\<lparr>wd_cache := (wd_cache st)
      (i := map_option (\<lambda>h. h\<lparr>ho_attempts := n\<rparr>) (wd_cache st i))\<rparr>)"
    by (cases "wd_cache st i") (auto simp: cache_ok_def)
  with Shared show ?thesis by (simp add: set_attempts_def quiet_cache)
qed (simp add: set_attempts_def)

lemma quiet_writeToDeadLetterQueue: "quiet st (writeToDeadLetterQueue env now did w p a m st)"
  by (auto simp: writeToDeadLetterQueue_def generateId_def quiet_uuid split: option.splits)

lemma quiet_handleDeliveryFailure: "quiet st (handleDeliveryFailure env now did ref h m p st)"
  unfolding handleDeliveryFailure_def Let_def
  by (cases "MAX_RETRIES \<le> ho_attempts h + 1"; simp only: if_True if_False;
      intro quiet_trans [OF quiet_trans [OF quiet_deliveries quiet_set_attempts] quiet_writeToDeadLetterQueue]
        quiet_trans [OF quiet_deliveries quiet_set_attempts])
    (simp_all add: dl_core_def)

lemma quiet_mark_delivered: "quiet st (mark_delivered now did key st)"
proof -
  let ?f = "\<lambda>d. d\<lparr>dl_status := ''delivered'', dl_last := Some now\<rparr>"
  let ?st1 = "st\<lparr>wd_deliveries := tb_set did ?f (wd_deliveries st)\<rparr>"
  have 1: "quiet st ?st1" by (rule quiet_deliveries) (simp add: dl_core_def)
  moreover have "quiet ?st1 (mark_delivered now did key st)"
  proof (cases "key = []")
    case False
    let ?g = "\<lambda>e. e\<lparr>ev_delivered := Some now\<rparr>"
    have "quiet ?st1 (?st1\<lparr>wd_events := snd (tb_update (\<lambda>_ e. ev_key e = key) ?g (wd_events ?st1))\<rparr>)"
      by (rule quiet_events) (simp add: ev_core_def)
    with False show ?thesis by (simp add: mark_delivered_def)
  next
    case True
    have "mark_delivered now did key st = ?st1"
      using True by (simp add: mark_delivered_def)
    then show ?thesis by simp
  qed
  ultimately show ?thesis by (rule quiet_trans)
qed

lemma quiet_attemptDelivery: "attemptDelivery env h p k st = (r, st') \<Longrightarrow> quiet st st'"
  by (auto simp: attemptDelivery_def Let_def split: option.splits)

lemma quiet_run_attempt: "quiet st (run_attempt env now did ref h p k st)"
proof -
  obtain r st1 where a: "attemptDelivery env h p k st = (r, st1)" by fastforce
  show ?thesis
    using quiet_trans [OF quiet_attemptDelivery [OF a]] quiet_mark_delivered
      quiet_handleDeliveryFailure by (simp add: run_attempt_def a)
qed

lemma quiet_retry_one: "quiet st (retry_one env now x st)"
proof -
  obtain did d where x: "x = (did, d)" by (cases x)
  obtain o1 st1 where g: "getWebhookById (dl_webhook d) st = (o1, st1)" by fastforce
  show ?thesis
    using quiet_trans [OF quiet_getWebhookById [OF g]] quiet_getWebhookById [OF g]
      quiet_run_attempt quiet_handleDeliveryFailure
    by (cases o1) (simp_all add: retry_one_def x g Let_def)
qed

lemma quiet_fold: "(\<And>x s. quiet s (f x s)) \<Longrightarrow> quiet st (fold f xs st)"
  by (induction xs arbitrary: st) (auto intro: quiet_trans)

lemma quiet_processRetryQueue: "quiet st (processRetryQueue env now st)"
  unfolding processRetryQueue_def by (rule quiet_fold) (rule quiet_retry_one)

lemma quiet_retryDeadDeliveries: "quiet st (snd (retryDeadDeliveries pk st))"
proof -
  have "quiet st (st\<lparr>wd_deliveries := snd (tb_update P
      (\<lambda>d. d\<lparr>dl_status := ''pending'', dl_attempts := 0, dl_retry := None\<rparr>) (wd_deliveries st))\<rparr>)" for P
    by (rule quiet_deliveries) (simp add: dl_core_def)
  then show ?thesis by (simp add: retryDeadDeliveries_def Let_def split_beta)
qed

lemma quiet_startMonitoring: "quiet st (startMonitoring pk st)"
  by (simp add: startMonitoring_def)

lemma quiet_restore_rows:
  "set rs \<subseteq> set (wd_webhooks st) \<Longrightarrow> tables_ok st \<Longrightarrow> cache_ok st \<Longrightarrow> quiet st (fold restore_row rs st)"
proof (induction rs arbitrary: st)
  case (Cons x rs)
  obtain i r where x: "x = (i, r)" by (cases x)
  have row: "tb_row (wd_webhooks st) i = Some r"
    using Cons.prems x by (simp add: tables_ok_def tb_wf_def tb_row_def)
  have ok: "cache_ok (st\<lparr>wd_cache := (wd_cache st)(i \<mapsto> hook_of_row i r)\<rparr>)"
    using Cons.prems(3) row by (auto simp: cache_ok_def)
  have q: "quiet st (restore_row x st)"
    using ok by (auto simp: restore_row_def x startMonitoring_def intro!: quiet_cache)
  have "quiet (restore_row x st) (fold restore_row rs (restore_row x st))"
    using Cons.prems q by (intro Cons.IH) (simp_all add: quiet_def)
  with q show ?case by (auto intro: quiet_trans)
qed simp

lemma quiet_restarted:
  assumes "tables_ok st"
  shows "quiet st (restarted st)"
proof -
  let ?s = "st\<lparr>wd_cache := (\<lambda>_. None), wd_streams := {}, wd_timer := False\<rparr>"
  have "quiet st ?s" by (simp, rule quiet_cache) (simp add: cache_ok_def)
  moreover have "quiet ?s (fold restore_row (wd_webhooks ?s) ?s)"
    using assms by (intro quiet_restore_rows) (simp_all add: cache_ok_def)
  ultimately show ?thesis
    unfolding restarted_def restoreWebhooks_def snd_conv by (rule quiet_trans)
qed

section \<open>Delivery\<close>

abbreviation new_delivery :: "int \<Rightarrow> string \<Rightarrow> string \<Rightarrow> string \<Rightarrow> string \<Rightarrow> delivery_row" where
  "new_delivery now w type payload key \<equiv> \<lparr>dl_webhook = w, dl_type = type, dl_payload = payload,
     dl_key = key, dl_status = ''pending'', dl_attempts = 0, dl_last = None, dl_error = None,
     dl_retry = None, dl_priority = 0, dl_created = now\<rparr>"

lemma generateId_same: "generateId env st = (i, st') \<Longrightarrow> st' = st\<lparr>wd_uuid := Suc (wd_uuid st)\<rparr>"
  by (auto simp: generateId_def)

lemma getWebhookById_same:
  assumes "getWebhookById i st = (x, st')"
  shows "wd_deliveries st' = wd_deliveries st \<and> wd_sent st' = wd_sent st \<and> wd_events st' = wd_events st
    \<and> wd_dead st' = wd_dead st"
  using assms by (auto simp: getWebhookById_def split: option.splits)

lemma resolve_hook_same:
  assumes "resolve_hook ref0 st0 = (ref, st)"
  shows "quiet st0 st \<and> wd_deliveries st = wd_deliveries st0 \<and> wd_sent st = wd_sent st0
    \<and> wd_events st = wd_events st0"
proof (cases "deref ref0 st0")
  case (Some h)
  obtain x s where g: "getWebhookById (ho_id h) st0 = (x, s)" by fastforce
  have "st = st0 \<or> st = s"
    using assms Some g by (auto simp: resolve_hook_def split: if_splits option.splits)
  then show ?thesis using quiet_getWebhookById [OF g] getWebhookById_same [OF g] by auto
qed (use assms in \<open>simp add: resolve_hook_def\<close>)

lemma resolve_hook_id:
  assumes "resolve_hook ref0 st0 = (ref, st)" and "deref ref st = Some h" and "cache_ok st0"
  shows "\<exists>h0. deref ref0 st0 = Some h0 \<and> ho_id h = ho_id h0"
proof (cases "deref ref0 st0")
  case None
  then show ?thesis using assms by (auto simp: resolve_hook_def)
next
  case (Some h0)
  obtain x s where g: "getWebhookById (ho_id h0) st0 = (x, s)" by fastforce
  have ok: "cache_ok s" using quiet_getWebhookById [OF g] assms(3) by (simp add: quiet_def)
  have "ho_id h = ho_id h0"
  proof (cases "ho_secret h0 = [] \<and> ho_id h0 \<noteq> [] \<and> x \<noteq> None")
    case True
    then have "ref = Shared (ho_id h0)" "st = s" using assms(1) Some g by (auto simp: resolve_hook_def)
    then have "wd_cache s (ho_id h0) = Some h" using assms(2) by (simp add: deref_def)
    then show ?thesis using ok by (auto simp: cache_ok_def copy_of_def)
  next
    case False
    then have "ref = ref0 \<and> (st = st0 \<or> st = s \<and> x = None)"
      using assms(1) Some g by (auto simp: resolve_hook_def split: if_splits option.splits)
    moreover have "s = st0" if "x = None" using g that by (auto simp: getWebhookById_def split: option.splits)
    ultimately show ?thesis using assms(2) Some by auto
  qed
  with Some show ?thesis by simp
qed

text \<open>The three ways through \<open>deliverWebhook\<close>: nothing to do, nothing new, one attempt.\<close>

lemma deliver_ways:
  obtains (skipped) st where "deliverWebhook env now ref0 p ty st0 = st" "quiet st0 st"
      "wd_deliveries st = wd_deliveries st0" "wd_sent st = wd_sent st0"
  | (known) h :: hook and st1 new st2 where "deliverWebhook env now ref0 p ty st0 = st2" "quiet st0 st1"
      "wd_deliveries st1 = wd_deliveries st0" "wd_sent st1 = wd_sent st0"
      "record_event env now (ho_id h) ty p (generateIdempotencyKey env (ho_id h) ty p) st1 = (new, st2)"
      "cache_ok st0 \<longrightarrow> (\<exists>h0. deref ref0 st0 = Some h0 \<and> ho_id h = ho_id h0)"
  | (tried) h :: hook and ref st1 st2 did t where
      "deliverWebhook env now ref0 p ty st0 = run_attempt env now did ref h p
         (generateIdempotencyKey env (ho_id h) ty p) (st2\<lparr>wd_deliveries := t\<rparr>)"
      "quiet st0 st1" "wd_deliveries st1 = wd_deliveries st0" "wd_sent st1 = wd_sent st0"
      "record_event env now (ho_id h) ty p (generateIdempotencyKey env (ho_id h) ty p) st1 = (True, st2)"
      "tb_insert did (new_delivery now (ho_id h) ty p (generateIdempotencyKey env (ho_id h) ty p))
         (wd_deliveries st2) = Some t"
      "cache_ok st0 \<longrightarrow> (\<exists>h0. deref ref0 st0 = Some h0 \<and> ho_id h = ho_id h0)" "did \<in> uuids env st1"
proof -
  obtain ref st where r: "resolve_hook ref0 st0 = (ref, st)" by fastforce
  note q = resolve_hook_same [OF r]
  show thesis
  proof (cases "deref ref st")
    case None
    then show ?thesis using q by (intro skipped [of st]) (simp_all add: deliverWebhook_def r)
  next
    case (Some h)
    let ?key = "generateIdempotencyKey env (ho_id h) ty p"
    let ?skip = "ho_secret h = [] \<or> (case ho_topics h of None \<Rightarrow> False | Some ts \<Rightarrow> \<not> matchesWebhookTopic ts ty)"
    show ?thesis
    proof (cases ?skip)
      case True
      have "deliverWebhook env now ref0 p ty st0 = st"
        unfolding deliverWebhook_def r Let_def prod.case Some option.case using True by (simp del: split_paired_All) blast
      then show ?thesis using q by (intro skipped [of st]) simp_all
    next
      case False
      obtain did st1 where g: "generateId env st = (did, st1)" by fastforce
      obtain new st2 where e: "record_event env now (ho_id h) ty p ?key st1 = (new, st2)" by fastforce
      have q1: "quiet st0 st1" "wd_deliveries st1 = wd_deliveries st0" "wd_sent st1 = wd_sent st0"
        using q quiet_trans [OF _ quiet_generateId [OF g]] generateId_same [OF g] by auto
      have did: "did \<in> uuids env st1" using g by (auto simp: generateId_def uuids_def)
      have same: "cache_ok st0 \<longrightarrow> (\<exists>h0. deref ref0 st0 = Some h0 \<and> ho_id h = ho_id h0)"
        using resolve_hook_id [OF r Some] by blast
      have eq: "deliverWebhook env now ref0 p ty st0 =
        (if \<not> new then st2 else case tb_insert did (new_delivery now (ho_id h) ty p ?key) (wd_deliveries st2) of
           None \<Rightarrow> st2 | Some t \<Rightarrow> run_attempt env now did ref h p ?key (st2\<lparr>wd_deliveries := t\<rparr>))"
        unfolding deliverWebhook_def r Let_def prod.case Some option.case g e
        using False by (simp del: split_paired_All)
      show ?thesis
      proof (cases "new \<and> tb_insert did (new_delivery now (ho_id h) ty p ?key) (wd_deliveries st2) \<noteq> None")
        case False
        then have "deliverWebhook env now ref0 p ty st0 = st2" unfolding eq by (auto split: option.split)
        then show ?thesis using q1 e same by (rule known)
      next
        case True
        then obtain t where t: "new" "tb_insert did (new_delivery now (ho_id h) ty p ?key) (wd_deliveries st2) = Some t"
          by blast
        then have "deliverWebhook env now ref0 p ty st0 = run_attempt env now did ref h p ?key (st2\<lparr>wd_deliveries := t\<rparr>)"
          unfolding eq by simp
        then show ?thesis using tried q1 e t same did by simp
      qed
    qed
  qed
qed

lemma no_such_event:
  assumes "tb_wf (wd_events st)" and "tb_select (\<lambda>_ e. ev_key e = k) (wd_events st) = []"
  shows "ev_cores st j \<noteq> Some (w, t, p, k)"
proof
  assume "ev_cores st j = Some (w, t, p, k)"
  then obtain e where "tb_row (wd_events st) j = Some e" "ev_key e = k"
    by (auto simp: ev_cores_def ev_core_def)
  then have "(j, e) \<in> set (tb_select (\<lambda>_ e. ev_key e = k) (wd_events st))"
    using db.in_sel [OF assms(1)] by simp
  then show False using assms(2) by simp
qed

text \<open>Inserting an event and a delivery, as changes of the cores.\<close>

lemma insert_event_cores:
  assumes "tb_insert i e (wd_events st) = Some t"
  shows "ev_cores (st\<lparr>wd_events := t\<rparr>) = (ev_cores st)(i \<mapsto> ev_core e)"
  using db.row_ins [OF assms] by (auto simp: ev_cores_def)

lemma insert_delivery_cores:
  assumes "tb_insert i d (wd_deliveries st) = Some t"
  shows "dl_cores (st\<lparr>wd_deliveries := t\<rparr>) = (dl_cores st)(i \<mapsto> dl_core d)"
  using db.row_ins [OF assms] by (auto simp: dl_cores_def)

lemma record_event_inv:
  assumes rec: "record_event env now w ty p (generateIdempotencyKey env w ty p) st = (new, st')"
    and inv: "hook_inv env st"
  shows "hook_inv env st' \<and> wd_deliveries st' = wd_deliveries st \<and> wd_sent st' = wd_sent st
    \<and> uuids env st \<subseteq> uuids env st'
    \<and> (new \<longrightarrow> registered st' w)
    \<and> (new \<and> we_counts env \<longrightarrow> (\<exists>j. ev_cores st' j = Some (w, ty, p, generateIdempotencyKey env w ty p))
        \<and> (\<forall>i t q. dl_cores st' i \<noteq> Some (w, t, q, generateIdempotencyKey env w ty p)))"
proof -
  let ?k = "generateIdempotencyKey env w ty p"
  obtain i st1 where g: "generateId env st = (i, st1)" by fastforce
  have st1: "st1 = st\<lparr>wd_uuid := Suc (wd_uuid st)\<rparr>" by (rule generateId_same [OF g])
  have inv1: "hook_inv env st1" using quiet_inv [OF quiet_generateId [OF g] inv] .
  let ?e = "\<lparr>ev_webhook = w, ev_type = ty, ev_payload = p, ev_key = ?k, ev_created = now, ev_delivered = None\<rparr>"
  consider (gone) "tb_row (wd_webhooks st1) w = None" "new = False" "st' = st1"
    | (known) "tb_row (wd_webhooks st1) w \<noteq> None" "new = (\<not> we_counts env)" "st' = st1"
    | (failed) "new = False" "st' = st1"
    | (fresh) t where "tb_row (wd_webhooks st1) w \<noteq> None"
        "tb_select (\<lambda>_ e. ev_key e = ?k) (wd_events st1) = []"
        "tb_insert i ?e (wd_events st1) = Some t" "new = True" "st' = st1\<lparr>wd_events := t\<rparr>"
    using rec unfolding record_event_def g prod.case
    by (cases "tb_row (wd_webhooks st1) w"; cases "tb_select (\<lambda>_ e. ev_key e = ?k) (wd_events st1)";
        cases "tb_insert i ?e (wd_events st1)") auto
  then show ?thesis
  proof cases
    case fresh
    have reg: "registered st1 w" using fresh(1) by (simp add: registered_def)
    have wf: "tb_wf (wd_events st1)" using inv1 by (simp add: hook_inv_def tables_ok_def)
    have c: "ev_cores st' = (ev_cores st1)(i \<mapsto> (w, ty, p, ?k))"
      using insert_event_cores [OF fresh(3)] by (simp add: fresh(5) ev_core_def)
    have free: "ev_cores st1 i = None"
      using tb_insert_fresh [OF fresh(3)] by (simp add: ev_cores_def)
    have up: "uuids env st \<subseteq> uuids env st'" using fresh(5) by (auto simp: uuids_def st1)
    have i: "i \<in> uuids env st1" using g by (auto simp: generateId_def uuids_def)
    have same: "dl_cores st' = dl_cores st1" "registered st' = registered st1" "uuids env st' = uuids env st1"
      using fresh(5) by (simp_all add: registered_def fun_eq_iff uuids_def)
    have unsent: "dl_cores st1 j \<noteq> Some (w, t', q, ?k)" if "we_counts env" for j t' q
      using that inv1 reg no_such_event [OF wf fresh(2)] unfolding hook_inv_def covered_def by blast
    have "covered st'" if "we_counts env"
      unfolding covered_def
    proof (intro allI impI)
      fix j w' t' q k' assume d: "dl_cores st' j = Some (w', t', q, k')" "registered st' w'"
      then obtain m t2 p2 where "ev_cores st1 m = Some (w', t2, p2, k')"
        using inv1 \<open>we_counts env\<close> unfolding hook_inv_def covered_def same by blast
      then have "ev_cores st' m = Some (w', t2, p2, k')" using free c by auto
      then show "\<exists>m t2 p2. ev_cores st' m = Some (w', t2, p2, k')" by blast
    qed
    moreover have "events_ok env st'"
      using inv1 reg by (auto simp: hook_inv_def events_ok_def c same)
    moreover have "tables_ok st'"
      using inv1 db.wf_ins [OF wf fresh(3)] by (simp add: hook_inv_def tables_ok_def fresh(5))
    moreover have "cache_ok st'" "capped st'"
      using inv1 by (simp_all add: hook_inv_def capped_def fresh(5))
    ultimately have "hook_inv env st'"
      using inv1 i by (simp add: hook_inv_def ids_ok_def keys_ok_def once_def same c)
    moreover have "\<exists>j. ev_cores st' j = Some (w, ty, p, ?k)" by (rule exI [of _ i]) (simp add: c)
    ultimately show ?thesis using fresh(4,5) reg same unsent st1 up by simp
  qed (use inv1 st1 in \<open>auto simp: registered_def uuids_def\<close>)
qed

lemma insert_delivery_inv:
  assumes ins: "tb_insert i (new_delivery now w ty p (generateIdempotencyKey env w ty p)) (wd_deliveries st) = Some t"
    and inv: "hook_inv env st" and reg: "registered st w" and i: "i \<in> uuids env st"
    and ev: "we_counts env \<Longrightarrow> \<exists>j. ev_cores st j = Some (w, ty, p, generateIdempotencyKey env w ty p)"
    and fresh: "\<And>i t q. we_counts env \<Longrightarrow> dl_cores st i \<noteq> Some (w, t, q, generateIdempotencyKey env w ty p)"
  shows "hook_inv env (st\<lparr>wd_deliveries := t\<rparr>)"
proof -
  let ?s = "st\<lparr>wd_deliveries := t\<rparr>" let ?k = "generateIdempotencyKey env w ty p"
  have c: "dl_cores ?s = (dl_cores st)(i \<mapsto> (w, ty, p, ?k))"
    using insert_delivery_cores [OF ins] by (simp add: dl_core_def)
  have same: "registered ?s = registered st" "uuids env ?s = uuids env st"
    by (simp_all add: registered_def fun_eq_iff uuids_def)
  have "tables_ok ?s"
    using inv db.wf_ins [OF _ ins] by (simp add: hook_inv_def tables_ok_def)
  moreover have "ids_ok env ?s" using inv reg i by (auto simp: hook_inv_def ids_ok_def c same)
  moreover have "keys_ok env ?s" using inv by (auto simp: hook_inv_def keys_ok_def c)
  moreover have "covered ?s" if "we_counts env"
    using inv ev that by (fastforce simp: hook_inv_def covered_def c same)
  moreover have "once ?s" if cnt: "we_counts env"
    unfolding once_def same
  proof (intro allI impI)
    fix a b w' t1 p1 t2 p2 k'
    assume h: "dl_cores ?s a = Some (w', t1, p1, k')" "dl_cores ?s b = Some (w', t2, p2, k')" "registered st w'"
    have "once st" using inv cnt by (simp add: hook_inv_def)
    with h fresh [OF cnt] show "a = b"
      unfolding c once_def by (auto split: if_splits)
  qed
  ultimately show ?thesis
    using inv by (simp add: hook_inv_def events_ok_def capped_def same)
qed

lemma deliverWebhook_inv:
  assumes "hook_inv env st"
  shows "hook_inv env (deliverWebhook env now ref p ty st)"
proof (cases rule: deliver_ways [of env now ref p ty st])
  case (skipped st1)
  with assms quiet_inv show ?thesis by simp
next
  case (known h st1 new st2)
  then show ?thesis using record_event_inv quiet_inv assms by metis
next
  case (tried h ref' st1 st2 did t)
  note r = record_event_inv [OF tried(5) quiet_inv [OF tried(2) assms]]
  have "hook_inv env (st2\<lparr>wd_deliveries := t\<rparr>)"
    by (rule insert_delivery_inv [OF tried(6)]) (use r tried(8) in auto)
  then show ?thesis unfolding tried(1) by (rule quiet_inv [OF quiet_run_attempt])
qed

lemma fold_inv: "(\<And>x s. P s \<Longrightarrow> P (f x s)) \<Longrightarrow> P st \<Longrightarrow> P (fold f xs st)"
  by (induction xs arbitrary: st) simp_all

lemma deliver_all_inv: "hook_inv env st \<Longrightarrow> hook_inv env (deliver_all env now p ty hs st)"
  unfolding deliver_all_def by (rule fold_inv) (rule deliverWebhook_inv)

lemma onmessage_inv: "hook_inv env st \<Longrightarrow> hook_inv env (onmessage env now pk p st)"
  by (simp add: onmessage_def deliver_all_inv)

lemma replay_loop_inv: "hook_inv env st \<Longrightarrow> hook_inv env (snd (replay_loop env now es n st))"
proof (induction env now es n st rule: replay_loop.induct)
  case (2 env now i e es n st)
  obtain x s where g: "getWebhookById (ev_webhook e) st = (x, s)" by fastforce
  have "hook_inv env s" using quiet_inv [OF quiet_getWebhookById [OF g]] 2 by simp
  then show ?case using 2 g deliverWebhook_inv by (auto simp: split: option.splits)
qed simp

lemma replayEvents_inv: "hook_inv env st \<Longrightarrow> hook_inv env (snd (replayEvents env now pk ids since until st))"
  by (simp add: replayEvents_def replay_loop_inv)

section \<open>Registration and removal\<close>

lemma register_inv:
  assumes reg: "registerWebhook env now pk url sec ts st = Inr (i, st')"
    and inj: "inj (we_uuid env)" and inv: "hook_inv env st"
  shows "hook_inv env st'"
proof -
  let ?r = "\<lparr>wr_owner = pk, wr_url = url, wr_secret = we_encrypt env sec, wr_topics = normalizeTopics ts,
    wr_created = now\<rparr>"
  let ?s = "st\<lparr>wd_uuid := Suc (wd_uuid st)\<rparr>"
  have room: "length (tb_select (\<lambda>_ r. wr_owner r = pk) (wd_webhooks st)) < MAX_WEBHOOKS_PER_ACCOUNT"
    using reg unfolding registerWebhook_def bnd_ensure_Inr by blast
  obtain t where i: "i = we_uuid env (wd_uuid st)" and t: "tb_insert i ?r (wd_webhooks st) = Some t"
    and st': "st' = startMonitoring pk (?s\<lparr>wd_webhooks := t, wd_cache := (wd_cache st)(i \<mapsto> hook_of_row i ?r)\<rparr>)"
    using reg unfolding registerWebhook_def bnd_ensure_Inr
    by (auto simp: generateId_def Let_def split: option.splits)
  let ?u = "?s\<lparr>wd_webhooks := t, wd_cache := (wd_cache st)(i \<mapsto> hook_of_row i ?r)\<rparr>"
  have row: "tb_row t = (tb_row (wd_webhooks st))(i \<mapsto> ?r)" using db.row_ins [OF t] .
  have regs: "registered ?u w \<longleftrightarrow> w = i \<or> registered st w" for w
    by (simp add: registered_def row)
  have used: "uuids env ?u = insert i (uuids env st)"
    by (simp add: uuids_def i lessThan_Suc)
  have new: "i \<notin> uuids env st" using inj by (auto simp: uuids_def i inj_def)
  have unused: "dl_cores st j \<noteq> Some (i, ty, p, k)" for j ty p k
    using inv new unfolding hook_inv_def ids_ok_def by blast
  have t_app: "t = wd_webhooks st @ [(i, ?r)]" using t by (auto simp: tb_insert_def split: if_splits)
  have "tables_ok ?u" using inv db.wf_ins [OF _ t] by (simp add: hook_inv_def tables_ok_def)
  moreover have "cache_ok ?u" using inv by (auto simp: hook_inv_def cache_ok_def row)
  moreover have "ids_ok env ?u" using inv by (auto simp: hook_inv_def ids_ok_def regs used)
  moreover have "events_ok env ?u" using inv by (auto simp: hook_inv_def events_ok_def regs)
  moreover have "keys_ok env ?u" using inv by (simp add: hook_inv_def keys_ok_def)
  moreover have "covered ?u" if "we_counts env"
    using inv that unused by (auto simp: hook_inv_def covered_def regs)
  moreover have "once ?u" if "we_counts env"
    using inv that unused by (auto simp: hook_inv_def once_def regs)
  moreover have "capped ?u"
    unfolding capped_def
  proof
    fix q
    have "length (tb_select (\<lambda>_ r. wr_owner r = q) (wd_webhooks st)) \<le> MAX_WEBHOOKS_PER_ACCOUNT"
      using inv by (simp add: hook_inv_def capped_def)
    then show "length (tb_select (\<lambda>_ r. wr_owner r = q) (wd_webhooks ?u)) \<le> MAX_WEBHOOKS_PER_ACCOUNT"
      using room by (cases "q = pk") (simp_all add: t_app tb_select_def)
  qed
  ultimately have "hook_inv env ?u" by (simp add: hook_inv_def)
  then show ?thesis unfolding st' by (rule quiet_inv [OF quiet_startMonitoring])
qed

lemma select_after_filter: "length (filter P (filter Q xs)) \<le> length (filter P xs)"
  by (induction xs) auto

lemma hook_delete_inv:
  assumes inv: "hook_inv env st"
  shows "hook_inv env (snd (deleteWebhook i st))"
proof -
  have wf: "tb_wf (wd_webhooks st)" "tb_wf (wd_events st)" using inv by (simp_all add: hook_inv_def tables_ok_def)
  let ?c = "st\<lparr>wd_cache := (wd_cache st)(i := None)\<rparr>"
  let ?u = "st\<lparr>wd_webhooks := snd (tb_delete (\<lambda>k _. k = i) (wd_webhooks st)),
    wd_cache := (wd_cache st)(i := None),
    wd_events := snd (tb_delete (\<lambda>_ e. ev_webhook e = i) (wd_events st))\<rparr>"
  have "cache_ok ?c" if "cache_ok st" using that by (simp add: cache_ok_def)
  then have c: "hook_inv env ?c" using inv quiet_inv quiet_cache by blast
  have rows: "tb_row (wd_webhooks ?u) w = (if w = i then None else tb_row (wd_webhooks st) w)" for w
    by (simp add: db.row_del [OF wf(1)] split: option.splits)
  have regs: "registered ?u w \<longleftrightarrow> w \<noteq> i \<and> registered st w" for w
    unfolding registered_def rows by simp
  have ev: "ev_cores ?u j = Some (w, ty, p, k) \<longleftrightarrow> w \<noteq> i \<and> ev_cores st j = Some (w, ty, p, k)" for j w ty p k
    by (auto simp: ev_cores_def ev_core_def db.row_del [OF wf(2)] split: option.splits)
  have dl: "dl_cores ?u = dl_cores st" by (simp add: dl_cores_def fun_eq_iff)
  have "tables_ok ?u" using inv by (simp add: hook_inv_def tables_ok_def)
  moreover have "cache_ok ?u" using inv rows by (auto simp: hook_inv_def cache_ok_def)
  moreover have "ids_ok env ?u"
  proof -
    have u: "uuids env ?u = uuids env st" by (simp add: uuids_def)
    have sub: "ev_cores st j \<noteq> None" if some: "ev_cores ?u j \<noteq> None" for j
    proof -
      obtain y where y: "ev_cores ?u j = Some y" using some by (auto simp del: split_paired_Ex)
      obtain w ty p k where "y = (w, ty, p, k)" by (cases y)
      with y have "ev_cores ?u j = Some (w, ty, p, k)" by (simp only:)
      then have "ev_cores st j = Some (w, ty, p, k)" unfolding ev by blast
      then show ?thesis by simp
    qed
    have old: "ids_ok env st" using inv by (simp add: hook_inv_def)
    show ?thesis
      unfolding ids_ok_def u dl regs
    proof (intro conjI allI impI)
      fix w assume "w \<noteq> i \<and> registered st w"
      then show "w \<in> uuids env st" using old unfolding ids_ok_def by blast
    next
      fix j assume "ev_cores ?u j \<noteq> None"
      then have "ev_cores st j \<noteq> None" by (rule sub)
      then show "j \<in> uuids env st" using old unfolding ids_ok_def by blast
    qed (use old in \<open>unfold ids_ok_def, blast\<close>)+
  qed
  moreover have "events_ok env ?u" using inv by (auto simp: hook_inv_def events_ok_def regs ev)
  moreover have "keys_ok env ?u" using inv by (simp add: hook_inv_def keys_ok_def dl)
  moreover have "covered ?u" if "we_counts env"
    using inv that by (fastforce simp: hook_inv_def covered_def regs ev dl)
  moreover have "once ?u" if "we_counts env"
    using inv that by (auto simp: hook_inv_def once_def regs dl)
  moreover have "capped ?u"
    unfolding capped_def
  proof
    fix q
    have "length (tb_select (\<lambda>_ r. wr_owner r = q) (wd_webhooks ?u))
        \<le> length (tb_select (\<lambda>_ r. wr_owner r = q) (wd_webhooks st))"
      by (simp add: tb_select_def tb_delete_def select_after_filter del: filter_filter)
    moreover have "length (tb_select (\<lambda>_ r. wr_owner r = q) (wd_webhooks st)) \<le> MAX_WEBHOOKS_PER_ACCOUNT"
      using inv by (simp add: hook_inv_def capped_def)
    ultimately show "length (tb_select (\<lambda>_ r. wr_owner r = q) (wd_webhooks ?u)) \<le> MAX_WEBHOOKS_PER_ACCOUNT"
      by linarith
  qed
  ultimately have u: "hook_inv env ?u" by (simp add: hook_inv_def)
  have "quiet ?u (?u\<lparr>wd_streams := s\<rparr>)" for s by simp
  then have "hook_inv env (?u\<lparr>wd_streams := s\<rparr>)" for s using quiet_inv u by blast
  then show ?thesis using c u
    by (simp add: deleteWebhook_def Let_def split_beta split: option.split)
qed

section \<open>The invariant\<close>

lemma processDelivery_inv:
  assumes "hook_inv env st"
  shows "hook_inv env (processDelivery env now x st)"
proof -
  obtain did d where x: "x = (did, d)" by (cases x)
  let ?s = "st\<lparr>wd_deliveries := tb_set did (\<lambda>d. d\<lparr>dl_status := ''in_flight''\<rparr>) (wd_deliveries st)\<rparr>"
  let ?f = "?s\<lparr>wd_deliveries := tb_set did (\<lambda>d. d\<lparr>dl_status := ''failed'', dl_error := Some ''Webhook not found''\<rparr>)
    (wd_deliveries ?s)\<rparr>"
  have "quiet st ?s" by (rule quiet_deliveries) (simp add: dl_core_def)
  then have s: "hook_inv env ?s" using assms by (rule quiet_inv)
  have "quiet ?s ?f" by (rule quiet_deliveries) (simp add: dl_core_def)
  then have f: "hook_inv env ?f" using s by (rule quiet_inv)
  show ?thesis
    using s f deliverWebhook_inv by (simp add: processDelivery_def x Let_def split: option.split)
qed

lemma fresh_inv: "hook_inv env fresh_service"
  by (simp add: hook_inv_def hook_inv_defs covered_def keys_ok_def fresh_service_def ev_cores_def
      dl_cores_def registered_def tb_select_def)

lemma hook_step_inv:
  assumes "hook_step env st st'" and "inj (we_uuid env)" and inv: "hook_inv env st"
  shows "hook_inv env st'"
  using assms(1)
proof cases
  case (register now pk url sec ts i)
  then show ?thesis using register_inv assms by blast
next
  case restart
  then show ?thesis using quiet_inv [OF quiet_restarted inv] inv by (simp add: hook_inv_def)
next
  case (worker now)
  then show ?thesis using fold_inv [of "hook_inv env", OF processDelivery_inv inv] by (simp add: runCycle_def)
next
  case (retry now)
  then show ?thesis using quiet_inv [OF quiet_processRetryQueue inv] by simp
next
  case (reset pk)
  then show ?thesis using quiet_inv [OF quiet_retryDeadDeliveries inv] by simp
next
  case (stream_error pk)
  then show ?thesis using quiet_inv [OF _ inv] by (simp add: onerror_def)
next
  case timer_on
  then show ?thesis using quiet_inv [OF _ inv] by (simp add: startRetryWorker_def)
next
  case close
  then show ?thesis using quiet_inv [OF _ inv] by (simp add: closeAllStreams_def stopRetryWorker_def)
qed (simp_all add: inv hook_delete_inv onmessage_inv deliver_all_inv replayEvents_inv)

lemma reachable_inv:
  assumes "hook_reachable env st" and "inj (we_uuid env)"
  shows "hook_inv env st"
  using assms(1) by (induction rule: rtranclp_induct) (use fresh_inv hook_step_inv assms(2) in blast)+

section \<open>Which rows an operation touches\<close>

lemma set_attempts_rows [simp]:
  "wd_deliveries (set_attempts ref n st) = wd_deliveries st" "wd_sent (set_attempts ref n st) = wd_sent st"
  by (cases ref; simp add: set_attempts_def)+

lemma dead_letter_rows [simp]:
  "wd_deliveries (writeToDeadLetterQueue env now did w p a m st) = wd_deliveries st"
  "wd_sent (writeToDeadLetterQueue env now did w p a m st) = wd_sent st"
  "wd_cache (writeToDeadLetterQueue env now did w p a m st) = wd_cache st"
  by (simp_all add: writeToDeadLetterQueue_def generateId_def split: option.splits)

text \<open>A failure, written out: the count comes from the webhook.\<close>

lemma failure_row:
  "tb_row (wd_deliveries (handleDeliveryFailure env now did ref h m p st)) j =
     (if j = did then map_option (\<lambda>d. d\<lparr>dl_attempts := ho_attempts h + 1, dl_last := Some now, dl_error := Some m,
         dl_retry := (if MAX_RETRIES \<le> ho_attempts h + 1 then None else Some (now + retry_delay (ho_attempts h + 1))),
         dl_status := (if MAX_RETRIES \<le> ho_attempts h + 1 then ''dead'' else ''pending'')\<rparr>) (tb_row (wd_deliveries st) did)
      else tb_row (wd_deliveries st) j)"
  by (simp add: handleDeliveryFailure_def Let_def tb_row_set)

lemma failure_sent [simp]: "wd_sent (handleDeliveryFailure env now did ref h m p st) = wd_sent st"
  by (simp add: handleDeliveryFailure_def Let_def)

lemma attempt_rows:
  assumes "attemptDelivery env h p k st = (r, st')"
  shows "wd_deliveries st' = wd_deliveries st \<and> wd_cache st' = wd_cache st"
  using assms by (auto simp: attemptDelivery_def Let_def split: option.splits)

lemma run_attempt_row:
  "j \<noteq> did \<Longrightarrow> tb_row (wd_deliveries (run_attempt env now did ref h p k st)) j = tb_row (wd_deliveries st) j"
  using attempt_rows [OF prod.collapse [symmetric], of env h p k st]
  by (simp add: run_attempt_def mark_delivered_def tb_row_set failure_row split_beta)

lemma run_attempt_sent:
  "we_decrypt env (ho_secret h) \<noteq> None \<Longrightarrow> k \<noteq> [] \<Longrightarrow>
     wd_sent (run_attempt env now did ref h p k st) =
       wd_sent st @ [\<lparr>sr_url = ho_url h, sr_payload = p, sr_key = k\<rparr>]"
  by (auto simp: run_attempt_def attemptDelivery_def Let_def mark_delivered_def split: option.splits)

text \<open>A delivery leaves every existing row as it is.\<close>

lemma deliver_row:
  assumes inv: "hook_inv env st" and row: "tb_row (wd_deliveries st) j = Some d"
  shows "tb_row (wd_deliveries (deliverWebhook env now ref p ty st)) j = Some d"
proof (cases rule: deliver_ways [of env now ref p ty st])
  case (skipped st1)
  then show ?thesis using row by simp
next
  case (known h st1 new st2)
  then show ?thesis using record_event_inv [OF known(5) quiet_inv [OF known(2) inv]] row by simp
next
  case (tried h ref' st1 st2 did t)
  have eq: "wd_deliveries st2 = wd_deliveries st"
    using record_event_inv [OF tried(5) quiet_inv [OF tried(2) inv]] tried(3) by simp
  have "tb_row (wd_deliveries st) did = None" using tb_insert_fresh [OF tried(6)] eq by simp
  then have "j \<noteq> did" using row by auto
  then show ?thesis using run_attempt_row db.row_ins [OF tried(6)] row eq by (simp add: tried(1))
qed

lemma fold_keeps:
  assumes "\<And>x s. P s \<Longrightarrow> x \<in> set xs \<Longrightarrow> P (f x s)" and "P st"
  shows "P (fold f xs st)"
  using assms by (induction xs arbitrary: st) simp_all

lemma deliver_all_row:
  assumes "hook_inv env st" and "tb_row (wd_deliveries st) j = Some d"
  shows "tb_row (wd_deliveries (deliver_all env now p ty hs st)) j = Some d"
proof -
  have "hook_inv env (deliver_all env now p ty hs st)
      \<and> tb_row (wd_deliveries (deliver_all env now p ty hs st)) j = Some d"
    unfolding deliver_all_def
    by (rule fold_keeps) (use assms deliverWebhook_inv deliver_row in blast)+
  then show ?thesis ..
qed

lemma replay_loop_row:
  "hook_inv env st \<Longrightarrow> tb_row (wd_deliveries st) j = Some d \<Longrightarrow>
     tb_row (wd_deliveries (snd (replay_loop env now es n st))) j = Some d"
proof (induction env now es n st rule: replay_loop.induct)
  case (2 env now i e es n st)
  obtain x s where g: "getWebhookById (ev_webhook e) st = (x, s)" by fastforce
  have s: "hook_inv env s" "tb_row (wd_deliveries s) j = Some d"
    using quiet_inv [OF quiet_getWebhookById [OF g]] getWebhookById_same [OF g] 2 by simp_all
  show ?case
  proof (cases x)
    case None
    then show ?thesis using 2(1) g s by simp
  next
    case (Some h)
    show ?thesis
    proof (cases "we_json env (ev_payload e)")
      case True
      then show ?thesis
        using 2(2) [OF g [symmetric] Some] deliverWebhook_inv [OF s(1)] deliver_row [OF s] by (simp add: g Some)
    qed (simp add: g Some s)
  qed
qed simp

lemma retry_one_row:
  assumes "j \<noteq> fst x"
  shows "tb_row (wd_deliveries (retry_one env now x st)) j = tb_row (wd_deliveries st) j"
proof -
  obtain did d where x: "x = (did, d)" by (cases x)
  obtain o1 st1 where g: "getWebhookById (dl_webhook d) st = (o1, st1)" by fastforce
  show ?thesis
    using getWebhookById_same [OF g] assms run_attempt_row failure_row
    by (cases o1) (simp_all add: retry_one_def x Let_def g)
qed

lemma worker_one_row:
  assumes "hook_inv env st" and "j \<noteq> fst x" and "tb_row (wd_deliveries st) j = Some d"
  shows "tb_row (wd_deliveries (processDelivery env now x st)) j = Some d"
proof -
  obtain did d' where x: "x = (did, d')" by (cases x)
  let ?s = "st\<lparr>wd_deliveries := tb_set did (\<lambda>d. d\<lparr>dl_status := ''in_flight''\<rparr>) (wd_deliveries st)\<rparr>"
  have "quiet st ?s" by (rule quiet_deliveries) (simp add: dl_core_def)
  then have "hook_inv env ?s" using assms(1) by (rule quiet_inv)
  moreover have "tb_row (wd_deliveries ?s) j = Some d" using assms x by (simp add: tb_row_set)
  ultimately show ?thesis
    using assms deliver_row by (auto simp: processDelivery_def x Let_def tb_row_set split: option.split)
qed

text \<open>A row that no queue selects is frozen.\<close>

definition frozen :: "delivery_row \<Rightarrow> bool" where
  "frozen d \<longleftrightarrow> dl_status d = ''delivered'' \<or> dl_status d = ''in_flight''"

lemma in_queue_order [simp]: "set (queue_order env ds) = set ds"
  by (simp add: queue_order_def)

lemma selected_row:
  "tb_wf t \<Longrightarrow> x \<in> set (take 50 (queue_order env (tb_select P t))) \<Longrightarrow>
     tb_row t (fst x) = Some (snd x) \<and> P (fst x) (snd x)"
  using db.in_sel [of t "fst x" "snd x" P] by (auto dest!: in_set_takeD)

lemma frozen_step:
  assumes "hook_step env st st'" and inv: "hook_inv env st"
    and row: "tb_row (wd_deliveries st) j = Some d" and fr: "frozen d"
  shows "tb_row (wd_deliveries st') j = Some d"
  using assms(1)
proof cases
  case (register now pk url sec ts i)
  then show ?thesis
    using row by (auto simp: registerWebhook_def bnd_ensure_Inr Let_def generateId_def startMonitoring_def
        split: option.splits)
next
  case (retry now)
  have wf: "tb_wf (wd_deliveries st)" using inv by (simp add: hook_inv_def tables_ok_def)
  have other: "j \<noteq> fst x" if "x \<in> set (pending_retries env now st)" for x
    using selected_row [OF wf that [unfolded pending_retries_def]] row fr by (auto simp: frozen_def)
  have "tb_row (wd_deliveries (fold (retry_one env now) (pending_retries env now st) st)) j = Some d"
    by (rule fold_keeps [where P = "\<lambda>s. tb_row (wd_deliveries s) j = Some d"])
      (use retry_one_row [OF other] row in simp_all)
  then show ?thesis using retry by (simp add: processRetryQueue_def)
next
  case (worker now)
  have wf: "tb_wf (wd_deliveries st)" using inv by (simp add: hook_inv_def tables_ok_def)
  have other: "j \<noteq> fst x" if "x \<in> set (getDueDeliveries env now st)" for x
    using selected_row [OF wf that [unfolded getDueDeliveries_def]] row fr by (auto simp: frozen_def)
  have "hook_inv env (fold (processDelivery env now) (getDueDeliveries env now st) st)
      \<and> tb_row (wd_deliveries (fold (processDelivery env now) (getDueDeliveries env now st) st)) j = Some d"
    by (rule fold_keeps) (use processDelivery_inv worker_one_row other inv row in blast)+
  then show ?thesis using worker by (simp add: runCycle_def)
next
  case (reset pk)
  show ?thesis
    using row fr by (auto simp: reset(1) retryDeadDeliveries_def Let_def split_beta db.row_upd frozen_def)
next
  case restart
  have "wd_deliveries (fold restore_row rs s) = wd_deliveries s" for rs s
    by (induction rs arbitrary: s) (auto simp: restore_row_def startMonitoring_def split_beta)
  then show ?thesis using row restart by (simp add: restarted_def restoreWebhooks_def)
next
  case (remove i)
  then show ?thesis using row by (auto simp: deleteWebhook_def Let_def split_beta split: option.split)
next
  case (payment_received now pk p)
  then show ?thesis using row inv deliver_all_row by (simp add: onmessage_def)
next
  case (notify now payload type pk)
  then show ?thesis using row inv deliver_all_row by simp
next
  case (replay now pk ids since until)
  then show ?thesis using row inv replay_loop_row by (simp add: replayEvents_def)
qed (use row in \<open>simp_all add: onerror_def startRetryWorker_def closeAllStreams_def stopRetryWorker_def\<close>)

lemma frozen_forever:
  assumes "(hook_step env)\<^sup>*\<^sup>* st st'" and "inj (we_uuid env)" and "hook_inv env st"
    and "tb_row (wd_deliveries st) j = Some d" and "frozen d"
  shows "tb_row (wd_deliveries st') j = Some d"
proof -
  have "hook_inv env st' \<and> tb_row (wd_deliveries st') j = Some d"
    using assms(1)
    by (induction rule: rtranclp_induct) (use assms hook_step_inv frozen_step in blast)+
  then show ?thesis ..
qed

section \<open>Receipts of one event\<close>

definition event_known :: "hook_db \<Rightarrow> string \<Rightarrow> bool" where
  "event_known st k \<longleftrightarrow> tb_select (\<lambda>_ e. ev_key e = k) (wd_events st) \<noteq> []"

text \<open>A webhook that can be delivered to: registered, with a secret the cipher reads, for this topic.\<close>

definition deliverable :: "hook_env \<Rightarrow> hook_db \<Rightarrow> string \<Rightarrow> webhook_row \<Rightarrow> string \<Rightarrow> bool" where
  "deliverable env st i r type \<longleftrightarrow> tb_row (wd_webhooks st) i = Some r \<and> wr_secret r \<noteq> []
     \<and> we_decrypt env (wr_secret r) \<noteq> None \<and> matchesWebhookTopic (normalizeTopics (wr_topics r)) type"

lemma next_id_free:
  assumes "hook_inv env st" and "inj (we_uuid env)" and "wd_uuid st \<le> n"
  shows "tb_row (wd_events st) (we_uuid env n) = None" "tb_row (wd_deliveries st) (we_uuid env n) = None"
proof -
  have n: "we_uuid env n \<notin> uuids env st" using assms(3) by (auto simp: uuids_def dest!: injD [OF assms(2)])
  have "ev_cores st (we_uuid env n) = None" using n assms(1) unfolding hook_inv_def ids_ok_def by blast
  then show "tb_row (wd_events st) (we_uuid env n) = None" by (simp add: ev_cores_def)
  have "dl_cores st (we_uuid env n) = None"
    using n assms(1) unfolding hook_inv_def ids_ok_def
    by (cases "dl_cores st (we_uuid env n)") (auto simp del: split_paired_All)
  then show "tb_row (wd_deliveries st) (we_uuid env n) = None" by (simp add: dl_cores_def)
qed

lemma known_attempt: "event_known (run_attempt env now j ref g q k' s) k = event_known s k"
proof -
  have iff: "event_known s k \<longleftrightarrow> k \<in> ev_key ` snd ` set (wd_events s)" for s
    by (auto simp: event_known_def tb_select_def filter_empty_conv image_iff split_beta)
  have mark: "event_known (mark_delivered now j k' s) k = event_known s k" for s
    by (force simp: iff mark_delivered_def tb_update_def image_image split_beta)
  have "wd_events (writeToDeadLetterQueue env now j w p a m s) = wd_events s" for w p a m s
    by (simp add: writeToDeadLetterQueue_def generateId_def split: option.splits)
  moreover have "wd_events (set_attempts ref n s) = wd_events s" for n s
    by (cases ref) (simp_all add: set_attempts_def)
  ultimately have fail: "wd_events (handleDeliveryFailure env now j ref g m p s) = wd_events s" for m p s
    by (simp add: handleDeliveryFailure_def Let_def)
  obtain r s1 where a: "attemptDelivery env g q k' s = (r, s1)" by fastforce
  then have "wd_events s1 = wd_events s"
    by (auto simp: attemptDelivery_def Let_def split: option.splits)
  with mark fail show ?thesis by (simp add: run_attempt_def a iff)
qed

lemma one_receipt:
  fixes now type p
  assumes inv: "hook_inv env st" and inj: "inj (we_uuid env)" and d: "deliverable env st i r type"
  defines "k \<equiv> generateIdempotencyKey env i type p"
  defines "st' \<equiv> deliverWebhook env now (Fresh (hook_of_row i r)) p type st"
  assumes k: "k \<noteq> []"
  shows "wd_sent st' = wd_sent st @ (if we_counts env \<and> event_known st k then []
       else [\<lparr>sr_url = wr_url r, sr_payload = p, sr_key = k\<rparr>])"
    and "event_known st' k" and "wd_webhooks st' = wd_webhooks st"
proof -
  let ?h = "hook_of_row i r"
  let ?s1 = "st\<lparr>wd_uuid := Suc (wd_uuid st)\<rparr>" let ?s2 = "st\<lparr>wd_uuid := Suc (Suc (wd_uuid st))\<rparr>"
  let ?e = "\<lparr>ev_webhook = i, ev_type = type, ev_payload = p, ev_key = k, ev_created = now, ev_delivered = None\<rparr>"
  let ?eid = "we_uuid env (Suc (wd_uuid st))" let ?did = "we_uuid env (wd_uuid st)"
  let ?s3 = "?s2\<lparr>wd_events := wd_events st @ [(?eid, ?e)]\<rparr>"
  have h: "ho_secret ?h = wr_secret r" "ho_id ?h = i" "ho_topics ?h = Some (normalizeTopics (wr_topics r))"
    "ho_url ?h = wr_url r" by (simp_all add: hook_of_row_def)
  have rec: "record_event env now i type p k ?s1 =
      (if event_known st k then (\<not> we_counts env, ?s2) else (True, ?s3))"
    using d next_id_free [OF inv inj, of "Suc (wd_uuid st)"]
    by (auto simp: record_event_def generateId_def deliverable_def event_known_def tb_insert_def)
  have ins: "tb_insert ?did x (wd_deliveries st) = Some (wd_deliveries st @ [(?did, x)])" for x
    using next_id_free [OF inv inj, of "wd_uuid st"] by (simp add: tb_insert_def)
  have eq: "st' = (if we_counts env \<and> event_known st k then ?s2
      else run_attempt env now ?did (Fresh ?h) ?h p k
        ((if event_known st k then ?s2 else ?s3)\<lparr>wd_deliveries := wd_deliveries st @ [(?did, new_delivery now i type p k)]\<rparr>))"
    using d rec ins
    by (auto simp: st'_def deliverWebhook_def resolve_hook_def deref_def h generateId_def Let_def
        k_def [symmetric] deliverable_def)
  show "wd_sent st' = wd_sent st @ (if we_counts env \<and> event_known st k then []
       else [\<lparr>sr_url = wr_url r, sr_payload = p, sr_key = k\<rparr>])"
    using d run_attempt_sent [OF _ k] by (simp add: eq h deliverable_def)
  show "event_known st' k"
    by (auto simp: eq known_attempt, auto simp: event_known_def tb_select_def)
  show "wd_webhooks st' = wd_webhooks st"
    using quiet_run_attempt by (simp add: eq quiet_def)
qed

lemma receipts:
  fixes now type p
  assumes "hook_inv env st" and inj: "inj (we_uuid env)" and "deliverable env st i r type"
    and k: "generateIdempotencyKey env i type p \<noteq> []"
  shows "wd_sent ((deliverWebhook env now (Fresh (hook_of_row i r)) p type ^^ n) st) = wd_sent st @
    replicate (if we_counts env then if event_known st (generateIdempotencyKey env i type p) then 0 else min n 1 else n)
      \<lparr>sr_url = wr_url r, sr_payload = p, sr_key = generateIdempotencyKey env i type p\<rparr>"
  using assms(1,3)
proof (induction n arbitrary: st)
  case (Suc n)
  let ?st = "deliverWebhook env now (Fresh (hook_of_row i r)) p type st"
  note one = one_receipt [OF Suc.prems(1) inj Suc.prems(2) k, where now = now]
  have "deliverable env ?st i r type" using Suc.prems(2) one(3) by (simp add: deliverable_def)
  from Suc.IH [OF deliverWebhook_inv [OF Suc.prems(1)] this] show ?case
    using one by (cases n) (simp_all add: funpow_Suc_right del: funpow.simps)
qed simp

section \<open>The counter of the webhook\<close>

text \<open>
  Every attempt fails: each delivery of a run through the queue gets the webhook's next count,
  whatever its own count was.
\<close>

lemma retry_fails:
  assumes cache: "wd_cache st w = Some h" and d: "dl_webhook d = w"
    and row: "tb_row (wd_deliveries st) i \<noteq> None" and down: "\<And>n q. we_net env n q \<noteq> Ok"
  shows "\<exists>r. tb_row (wd_deliveries (retry_one env now (i, d) st)) i = Some r
      \<and> dl_attempts r = ho_attempts h + 1
      \<and> dl_status r = (if MAX_RETRIES \<le> ho_attempts h + 1 then ''dead'' else ''pending'')"
    and "wd_cache (retry_one env now (i, d) st) w = Some (h\<lparr>ho_attempts := ho_attempts h + 1\<rparr>)"
proof -
  have fail: "\<exists>m s. retry_one env now (i, d) st = handleDeliveryFailure env now i (Shared w) h m (dl_payload d) s
      \<and> wd_deliveries s = wd_deliveries st \<and> wd_cache s = wd_cache st"
  proof (cases "we_json env (dl_payload d)")
    case True
    obtain r s where a: "attemptDelivery env h (dl_payload d) (dl_key d) st = (r, s)" by fastforce
    have "r \<noteq> Ok" using a down by (auto simp: attemptDelivery_def Let_def split: option.splits)
    then show ?thesis
      using attempt_rows [OF a] by (auto simp: retry_one_def d getWebhookById_def cache True run_attempt_def a)
  qed (use cache in \<open>auto simp: retry_one_def d getWebhookById_def\<close>)
  then obtain m s where s: "retry_one env now (i, d) st = handleDeliveryFailure env now i (Shared w) h m (dl_payload d) s"
    "wd_deliveries s = wd_deliveries st" "wd_cache s = wd_cache st" by blast
  show "\<exists>r. tb_row (wd_deliveries (retry_one env now (i, d) st)) i = Some r
      \<and> dl_attempts r = ho_attempts h + 1
      \<and> dl_status r = (if MAX_RETRIES \<le> ho_attempts h + 1 then ''dead'' else ''pending'')"
    using row s by (auto simp: failure_row)
  show "wd_cache (retry_one env now (i, d) st) w = Some (h\<lparr>ho_attempts := ho_attempts h + 1\<rparr>)"
    using cache s by (simp add: handleDeliveryFailure_def Let_def set_attempts_def)
qed

lemma retries_count_on:
  assumes down: "\<And>n q. we_net env n q \<noteq> Ok"
    and "wd_cache st w = Some h" and "distinct (map fst xs)"
    and "\<forall>x \<in> set xs. dl_webhook (snd x) = w \<and> tb_row (wd_deliveries st) (fst x) \<noteq> None"
    and "k < length xs"
  shows "\<exists>r. tb_row (wd_deliveries (fold (retry_one env now) xs st)) (fst (xs ! k)) = Some r
    \<and> dl_attempts r = ho_attempts h + k + 1
    \<and> dl_status r = (if MAX_RETRIES \<le> ho_attempts h + k + 1 then ''dead'' else ''pending'')"
  using assms(2-)
proof (induction xs arbitrary: st h k)
  case (Cons x xs)
  obtain i d where x: "x = (i, d)" by (cases x)
  let ?st = "retry_one env now x st" let ?h = "h\<lparr>ho_attempts := ho_attempts h + 1\<rparr>"
  have fx: "dl_webhook d = w" "tb_row (wd_deliveries st) i \<noteq> None" using Cons.prems(3) by (simp_all add: x)
  note one = retry_fails [OF Cons.prems(1) fx down, where now = now, folded x]
  have ne: "i \<noteq> fst y" if "y \<in> set xs" for y using Cons.prems(2) that by (force simp: x)
  have keep: "tb_row (wd_deliveries (fold (retry_one env now) xs s)) i = tb_row (wd_deliveries s) i" for s
    by (rule fold_keeps [where P = "\<lambda>s'. tb_row (wd_deliveries s') i = tb_row (wd_deliveries s) i"])
      (simp_all add: retry_one_row [OF ne])
  show ?case
  proof (cases k)
    case 0
    then show ?thesis using one(1) keep by (simp add: x)
  next
    case (Suc k')
    have "\<forall>y \<in> set xs. dl_webhook (snd y) = w \<and> tb_row (wd_deliveries ?st) (fst y) \<noteq> None"
    proof
      fix y assume y: "y \<in> set xs"
      have "fst y \<noteq> fst x" using ne [OF y] by (auto simp: x)
      with y show "dl_webhook (snd y) = w \<and> tb_row (wd_deliveries ?st) (fst y) \<noteq> None"
        using Cons.prems(3) y retry_one_row [of "fst y" x] by simp
    qed
    from Cons.IH [OF one(2) _ this, of k'] Cons.prems Suc show ?thesis by simp
  qed
qed simp

section \<open>Replay\<close>

lemma record_known:
  assumes "we_counts env" and "tb_wf (wd_events st)" and "ev_cores st j = Some (w, ty', p', k)"
  shows "record_event env now w ty p k st = (False, st\<lparr>wd_uuid := Suc (wd_uuid st)\<rparr>)"
proof -
  have "tb_select (\<lambda>_ e. ev_key e = k) (wd_events st) \<noteq> []"
    using no_such_event [OF assms(2)] assms(3) by blast
  with assms(1) show ?thesis by (simp add: record_event_def generateId_def)
qed

lemma deliver_known:
  fixes now ref ty p
  assumes inv: "hook_inv env st" and cnt: "we_counts env" and ref: "deref ref st = Some h0"
    and ev: "ev_cores st j = Some (ho_id h0, ty, p, k)"
  defines "st' \<equiv> deliverWebhook env now ref p ty st"
  shows "wd_sent st' = wd_sent st \<and> wd_deliveries st' = wd_deliveries st \<and> ev_cores st' = ev_cores st"
proof -
  have cache: "cache_ok st" and k: "k = generateIdempotencyKey env (ho_id h0) ty p"
    using inv ev by (auto simp: hook_inv_def events_ok_def)
  have rec: "record_event env now w ty p (generateIdempotencyKey env w ty p) s = (False, s\<lparr>wd_uuid := Suc (wd_uuid s)\<rparr>)"
    if "quiet st s" and "w = ho_id h0" for s w
  proof (rule record_known [OF cnt])
    show "tb_wf (wd_events s)" using inv that by (simp add: hook_inv_def quiet_def tables_ok_def)
    show "ev_cores s j = Some (w, ty, p, generateIdempotencyKey env w ty p)"
      using that ev k by (simp add: quiet_def)
  qed
  show ?thesis
  proof (cases rule: deliver_ways [of env now ref p ty st])
    case (skipped s)
    then show ?thesis by (simp add: st'_def quiet_def)
  next
    case (known h s new s2)
    have "ho_id h = ho_id h0" using known(6) cache ref by simp
    then have "s2 = s\<lparr>wd_uuid := Suc (wd_uuid s)\<rparr>" using known(2,5) rec by simp
    then show ?thesis using known(1-4) by (simp add: st'_def quiet_def)
  next
    case (tried h ref' s s2 did t)
    have "ho_id h = ho_id h0" using tried(7) cache ref by simp
    then have False using tried(2,5) rec by simp
    then show ?thesis ..
  qed
qed

lemma replay_loop_known:
  assumes "we_counts env" and "\<And>p. we_json env p" and "hook_inv env st"
    and "\<forall>x \<in> set es. ev_cores st (fst x) = Some (ev_core (snd x))"
  shows "fst (replay_loop env now es n st) = Inr (n + length es)
    \<and> wd_sent (snd (replay_loop env now es n st)) = wd_sent st
    \<and> wd_deliveries (snd (replay_loop env now es n st)) = wd_deliveries st"
  using assms(3,4)
proof (induction es arbitrary: n st)
  case (Cons x es)
  obtain i e where x: "x = (i, e)" by (cases x)
  obtain y s where g: "getWebhookById (ev_webhook e) st = (y, s)" by fastforce
  have q: "quiet st s" by (rule quiet_getWebhookById [OF g])
  have s: "hook_inv env s" "wd_deliveries s = wd_deliveries st" "wd_sent s = wd_sent st"
    using quiet_inv [OF q Cons.prems(1)] getWebhookById_same [OF g] by simp_all
  have ev: "ev_cores s i = Some (ev_webhook e, ev_type e, ev_payload e, ev_key e)"
    using Cons.prems(2) q by (simp add: x quiet_def ev_core_def)
  have "registered s (ev_webhook e)" using s(1) ev by (auto simp: hook_inv_def events_ok_def)
  then have "registered st (ev_webhook e)" using q by (simp add: registered_def quiet_def)
  then have "y = None \<Longrightarrow> False"
    using g by (auto simp: getWebhookById_def registered_def split: option.splits)
  then obtain h where y: "y = Some h" by (cases y) blast+
  then have h: "wd_cache s (ev_webhook e) = Some h"
    using g by (auto simp: getWebhookById_def split: option.splits)
  then have id: "ho_id h = ev_webhook e" using s(1) by (auto simp: hook_inv_def cache_ok_def copy_of_def)
  let ?s = "deliverWebhook env now (Shared (ev_webhook e)) (ev_payload e) (ev_type e) s"
  have d: "wd_sent ?s = wd_sent s \<and> wd_deliveries ?s = wd_deliveries s \<and> ev_cores ?s = ev_cores s"
    using deliver_known [OF s(1) assms(1), of "Shared (ev_webhook e)" h i] h ev id by (simp add: deref_def)
  have "\<forall>z \<in> set es. ev_cores ?s (fst z) = Some (ev_core (snd z))"
    using Cons.prems(2) d q by (simp add: quiet_def)
  from Cons.IH [OF deliverWebhook_inv [OF s(1)] this, of "n + 1"]
  show ?case using d s by (simp add: x g y assms(2))
qed simp

section \<open>The worker\<close>

lemma deliver_webhooks: "wd_webhooks (deliverWebhook env now ref p ty st) = wd_webhooks st"
proof -
  have rec: "wd_webhooks s' = wd_webhooks s" if "record_event env now w ty p k s = (b, s')" for w k s b s'
    using that by (auto simp: record_event_def generateId_def split: if_splits option.splits)
  show ?thesis
  proof (cases rule: deliver_ways [of env now ref p ty st])
    case (tried h ref' s s2 did t)
    have "wd_webhooks (run_attempt env now did ref' h p k s3) = wd_webhooks s3" for k s3
      using quiet_run_attempt by (simp add: quiet_def)
    with tried rec show ?thesis by (simp add: quiet_def)
  next
    case (known h s new s2)
    with rec show ?thesis by (simp add: quiet_def)
  qed (simp add: quiet_def)
qed

lemma worker_webhooks: "wd_webhooks (processDelivery env now x st) = wd_webhooks st"
  by (cases x) (simp add: processDelivery_def Let_def deliver_webhooks split: option.split)

lemma worker_in_flight:
  assumes inv: "hook_inv env st" and row: "tb_row (wd_deliveries st) i \<noteq> None"
    and reg: "tb_row (wd_webhooks st) (dl_webhook d) \<noteq> None"
  shows "\<exists>r. tb_row (wd_deliveries (processDelivery env now (i, d) st)) i = Some r \<and> dl_status r = ''in_flight''"
proof -
  let ?s = "st\<lparr>wd_deliveries := tb_set i (\<lambda>d. d\<lparr>dl_status := ''in_flight''\<rparr>) (wd_deliveries st)\<rparr>"
  have "quiet st ?s" by (rule quiet_deliveries) (simp add: dl_core_def)
  then have s: "hook_inv env ?s" using inv by (rule quiet_inv)
  obtain r where r: "tb_row (wd_deliveries ?s) i = Some r" "dl_status r = ''in_flight''"
    using row by (auto simp: tb_row_set)
  then show ?thesis
    using reg deliver_row [OF s r(1)] by (auto simp: processDelivery_def Let_def split: option.split)
qed

lemma cycle_strands:
  assumes "hook_inv env st" and "x \<in> set xs" and "distinct (map fst xs)"
    and "\<forall>y \<in> set xs. tb_row (wd_deliveries st) (fst y) = Some (snd y)"
    and "tb_row (wd_webhooks st) (dl_webhook (snd x)) \<noteq> None"
  shows "\<exists>r. tb_row (wd_deliveries (fold (processDelivery env now) xs st)) (fst x) = Some r
    \<and> dl_status r = ''in_flight''"
  using assms
proof (induction xs arbitrary: st)
  case (Cons y ys)
  let ?st = "processDelivery env now y st"
  have inv: "hook_inv env ?st" by (rule processDelivery_inv [OF Cons.prems(1)])
  have other: "fst z \<noteq> fst y" if "z \<in> set ys" for z using Cons.prems(3) that by (metis distinct.simps(2) image_eqI list.set_map list.simps(9))
  have rest: "\<forall>z \<in> set ys. tb_row (wd_deliveries ?st) (fst z) = Some (snd z)"
    using Cons.prems(4) worker_one_row [OF Cons.prems(1) other] by simp
  show ?case
  proof (cases "x = y")
    case False
    then have "x \<in> set ys" using Cons.prems(2) by simp
    from Cons.IH [OF inv this _ rest] Cons.prems(3,5) show ?thesis by (simp add: worker_webhooks)
  next
    case True
    obtain r where r: "tb_row (wd_deliveries ?st) (fst x) = Some r" "dl_status r = ''in_flight''"
      using worker_in_flight [OF Cons.prems(1), of "fst x" "snd x"] Cons.prems(4,5) True by auto
    have "hook_inv env (fold (processDelivery env now) ys ?st)
        \<and> tb_row (wd_deliveries (fold (processDelivery env now) ys ?st)) (fst x) = Some r"
      by (rule fold_keeps) (use processDelivery_inv worker_one_row other True inv r in metis)+
    then show ?thesis using r by auto
  qed
qed simp

section \<open>What the claims say of a running service\<close>

text \<open>A service with one webhook of account \<open>A\<close>; \<open>counts\<close> and the network's answer vary.\<close>

definition demo_hooks :: "bool \<Rightarrow> reply \<Rightarrow> hook_env" where
  "demo_hooks counts answer = \<lparr>we_uuid = (\<lambda>n. replicate (Suc n) CHR ''u''), we_hash = (\<lambda>s. s),
     we_encrypt = (\<lambda>s. s), we_decrypt = Some, we_json = (\<lambda>_. True), we_net = (\<lambda>_ _. answer),
     we_counts = counts, we_nulls_first = True\<rparr>"

definition demo_row :: webhook_row where
  "demo_row = \<lparr>wr_owner = ''A'', wr_url = ''x'', wr_secret = ''s'', wr_topics = [''all''], wr_created = 1\<rparr>"

definition demo_service :: "bool \<Rightarrow> reply \<Rightarrow> hook_db" where
  "demo_service counts answer =
     (case registerWebhook (demo_hooks counts answer) 1 ''A'' ''x'' ''s'' [] fresh_service of
        Inr (_, st) \<Rightarrow> st | Inl _ \<Rightarrow> fresh_service)"

definition demo_sent :: "bool \<Rightarrow> reply \<Rightarrow> hook_db" where
  "demo_sent counts answer = deliver_all (demo_hooks counts answer) 2 ''e'' ''t''
     (getWebhooksByPublicKey ''A'' (demo_service counts answer)) (demo_service counts answer)"

lemma demo_inj: "inj (we_uuid (demo_hooks counts answer))"
proof (rule injI)
  fix m n assume "we_uuid (demo_hooks counts answer) m = we_uuid (demo_hooks counts answer) n"
  then have "length (replicate (Suc m) CHR ''u'') = length (replicate (Suc n) CHR ''u'')"
    unfolding demo_hooks_def by (simp only: hook_env.simps)
  then show "m = n" by simp
qed

lemma demo_registered:
  "registerWebhook (demo_hooks counts answer) 1 ''A'' ''x'' ''s'' [] fresh_service
     = Inr (''u'', demo_service counts answer)"
  by (simp add: demo_service_def registerWebhook_def fresh_service_def generateId_def demo_hooks_def
      tb_select_def tb_insert_def MAX_WEBHOOKS_PER_ACCOUNT_def Let_def)

lemma demo_service_reachable: "hook_reachable (demo_hooks counts answer) (demo_service counts answer)"
  using hook_step.register [OF demo_registered] by (rule r_into_rtranclp)

lemma demo_sent_reachable: "hook_reachable (demo_hooks counts answer) (demo_sent counts answer)"
  using demo_service_reachable hook_step.notify unfolding demo_sent_def by (rule rtranclp.rtrancl_into_rtrancl)

lemma selected_distinct:
  assumes "tb_wf t"
  shows "distinct (map fst (take 50 (queue_order env (tb_select P t))))"
proof -
  have "inj_on fst (set (tb_select P t))" "distinct (tb_select P t)"
    using db.sel_distinct [OF assms, of P] by (simp_all add: distinct_map)
  then have "distinct (map fst (queue_order env (tb_select P t)))"
    unfolding distinct_map in_queue_order by (simp add: queue_order_def)
  then show ?thesis by (simp add: take_map [symmetric])
qed

text \<open>With a driver that answers row counts, the duplicate check holds in every state the
  service can reach: however deliveries, retries, replays, resets, restarts and worker cycles
  interleave with registrations and deletions, a registered webhook has at most one delivery per
  event type and payload, and no account has more than the allowed number of webhooks.\<close>

lemma one_delivery_per_event:
  assumes "hook_reachable env st" and "inj (we_uuid env)" and "we_counts env"
    and a: "tb_row (wd_deliveries st) i = Some a" and b: "tb_row (wd_deliveries st) j = Some b"
    and "tb_row (wd_webhooks st) (dl_webhook a) \<noteq> None"
    and same: "dl_webhook b = dl_webhook a" "dl_type b = dl_type a" "dl_payload b = dl_payload a"
  shows "i = j \<and> length (tb_select (\<lambda>_ r. wr_owner r = pk) (wd_webhooks st)) \<le> MAX_WEBHOOKS_PER_ACCOUNT"
proof -
  have inv: "hook_inv env st" by (rule reachable_inv) fact+
  then have "keys_ok env st" "once st" "capped st" using assms(3) by (simp_all add: hook_inv_def)
  moreover have rows: "dl_cores st i = Some (dl_webhook a, dl_type a, dl_payload a, dl_key a)"
    "dl_cores st j = Some (dl_webhook a, dl_type a, dl_payload a, dl_key b)"
    using a b same by (simp_all add: dl_cores_def dl_core_def)
  moreover have "dl_key b = dl_key a" using \<open>keys_ok env st\<close> rows unfolding keys_ok_def by metis
  moreover have "registered st (dl_webhook a)" using assms(6) by (simp add: registered_def)
  ultimately show ?thesis unfolding once_def capped_def by metis
qed

lemma demo_sent_rows:
  "tb_row (wd_deliveries (demo_sent counts Ok)) ''uu'' =
     Some (new_delivery 2 ''u'' ''t'' ''e'' ''u:t:e''\<lparr>dl_status := ''delivered'', dl_last := Some 2\<rparr>)"
  "tb_row (wd_webhooks (demo_sent counts Ok)) ''u'' = Some demo_row"
  by (cases counts; code_simp)+

theorem one_delivery_per_event_example:
  "length (tb_select (\<lambda>_ r. wr_owner r = ''A'') (wd_webhooks (demo_sent True Ok))) \<le> MAX_WEBHOOKS_PER_ACCOUNT"
  using one_delivery_per_event [OF demo_sent_reachable demo_inj _ demo_sent_rows(1) demo_sent_rows(1), of True "''A''"]
    demo_sent_rows(2) [of True]
  by (simp add: demo_hooks_def)

text \<open>C7. How often an event is sent when it is received \<open>n\<close> times: once, or not at all if it is
  on record, with a driver that answers row counts; every time with the SQLite and PostgreSQL
  drivers, whose insert answers no integer, so that the duplicate check lets every receipt pass.\<close>

theorem receipts_sent:
  assumes "hook_reachable env st" and "inj (we_uuid env)" and "deliverable env st i r type"
    and "generateIdempotencyKey env i type p \<noteq> []"
  shows "wd_sent ((deliverWebhook env now (Fresh (hook_of_row i r)) p type ^^ n) st) = wd_sent st @
    replicate (if we_counts env then if event_known st (generateIdempotencyKey env i type p) then 0 else min n 1 else n)
      \<lparr>sr_url = wr_url r, sr_payload = p, sr_key = generateIdempotencyKey env i type p\<rparr>"
  by (rule receipts [OF reachable_inv [OF assms(1,2)] assms(2-4)])

theorem receipts_sent_witness:
  "wd_sent ((deliverWebhook (demo_hooks False Ok) 3 (Fresh (hook_of_row ''u'' demo_row)) ''e'' ''t'' ^^ 2) (demo_sent False Ok))
     = wd_sent (demo_sent False Ok) @ replicate 2 \<lparr>sr_url = ''x'', sr_payload = ''e'', sr_key = ''u:t:e''\<rparr>"
proof -
  have d: "deliverable (demo_hooks False Ok) (demo_sent False Ok) ''u'' demo_row ''t''"
    by code_simp
  have k: "generateIdempotencyKey (demo_hooks False Ok) ''u'' ''t'' ''e'' = ''u:t:e''" by code_simp
  show ?thesis
    using receipts_sent [OF demo_sent_reachable demo_inj d, where p = "''e''" and now = 3 and n = 2]
    by (simp add: k) (simp add: demo_hooks_def demo_row_def)
qed

text \<open>C8. The retry count is the webhook's, not the delivery's: in a run of the retry queue that
  finds due deliveries of one webhook and an endpoint that is down, the \<open>k\<close>th of them gets the
  webhook's count plus \<open>k + 1\<close>, and from the sixth failure of the webhook on every delivery is
  dead at once, however often it has been tried itself.\<close>

theorem retry_counter_shared:
  assumes "hook_reachable env st" and "inj (we_uuid env)" and "\<And>n q. we_net env n q \<noteq> Ok"
    and "wd_cache st w = Some h"
    and "\<forall>x \<in> set (pending_retries env now st). dl_webhook (snd x) = w"
    and "k < length (pending_retries env now st)"
  shows "\<exists>r. tb_row (wd_deliveries (processRetryQueue env now st)) (fst (pending_retries env now st ! k)) = Some r
    \<and> dl_attempts r = ho_attempts h + k + 1
    \<and> dl_status r = (if MAX_RETRIES \<le> ho_attempts h + k + 1 then ''dead'' else ''pending'')"
proof -
  have wf: "tb_wf (wd_deliveries st)"
    using reachable_inv [OF assms(1,2)] by (simp add: hook_inv_def tables_ok_def)
  have "\<forall>x \<in> set (pending_retries env now st). dl_webhook (snd x) = w \<and> tb_row (wd_deliveries st) (fst x) \<noteq> None"
    using assms(5) selected_row [OF wf] unfolding pending_retries_def by fastforce
  then show ?thesis
    unfolding processRetryQueue_def
    using retries_count_on [OF assms(3,4) selected_distinct [OF wf] _ assms(6) [unfolded pending_retries_def]]
    unfolding pending_retries_def by blast
qed

theorem retry_counter_shared_witness:
  "\<exists>r. tb_row (wd_deliveries (processRetryQueue (demo_hooks True (HttpStatus 500)) 70000 (demo_sent True (HttpStatus 500)))) ''uu'' = Some r
    \<and> dl_attempts r = 1"
proof -
  let ?e = "demo_hooks True (HttpStatus 500)" let ?s = "demo_sent True (HttpStatus 500)"
  have c: "wd_cache ?s ''u'' = Some (hook_of_row ''u'' demo_row)" by code_simp
  have p: "map (\<lambda>(i, d). (i, dl_webhook d)) (pending_retries ?e 70000 ?s) = [(''uu'', ''u'')]" by code_simp
  then obtain d where d: "pending_retries ?e 70000 ?s = [(''uu'', d)]" "dl_webhook d = ''u''" by auto
  show ?thesis
    using retry_counter_shared [OF demo_sent_reachable demo_inj _ c, where now = 70000 and k = 0] d
    by (auto simp: demo_hooks_def hook_of_row_def)
qed

text \<open>Once a delivery is recorded as delivered, no operation of the service changes its row again, as
  long as operations run one after the other: it is not retried, not reset and not taken by the worker.
  What an overlap does is in WebhookOverlap.\<close>

lemma delivered_final:
  assumes "hook_reachable env st" and "inj (we_uuid env)"
    and "tb_row (wd_deliveries st) i = Some d" and "dl_status d = ''delivered''"
    and "(hook_step env)\<^sup>*\<^sup>* st st'"
  shows "tb_row (wd_deliveries st') i = Some d"
  using frozen_forever [OF assms(5,2) reachable_inv [OF assms(1,2)] assms(3)] assms(4)
  by (simp add: frozen_def)

theorem delivered_final_example:
  "tb_row (wd_deliveries (runCycle (demo_hooks False Ok) 9 (demo_sent False Ok))) ''uu'' =
     Some (new_delivery 2 ''u'' ''t'' ''e'' ''u:t:e''\<lparr>dl_status := ''delivered'', dl_last := Some 2\<rparr>)"
  by (rule delivered_final [OF demo_sent_reachable demo_inj demo_sent_rows(1)])
    (auto intro: hook_step.worker)

text \<open>The second worker strands what it takes up: a due delivery of a registered webhook is set
  to \<open>in_flight\<close> by its cycle and keeps that status in every later state, for no queue selects it.\<close>

lemma worker_strands_deliveries:
  assumes "hook_reachable env st" and "inj (we_uuid env)"
    and due: "x \<in> set (getDueDeliveries env now st)"
    and "tb_row (wd_webhooks st) (dl_webhook (snd x)) \<noteq> None"
    and later: "(hook_step env)\<^sup>*\<^sup>* (runCycle env now st) st'"
  shows "\<exists>r. tb_row (wd_deliveries st') (fst x) = Some r \<and> dl_status r = ''in_flight''"
proof -
  have inv: "hook_inv env st" by (rule reachable_inv) fact+
  then have wf: "tb_wf (wd_deliveries st)" by (simp add: hook_inv_def tables_ok_def)
  have rows: "\<forall>y \<in> set (getDueDeliveries env now st). tb_row (wd_deliveries st) (fst y) = Some (snd y)"
    using selected_row [OF wf] unfolding getDueDeliveries_def by fastforce
  have "distinct (map fst (getDueDeliveries env now st))"
    unfolding getDueDeliveries_def by (rule selected_distinct [OF wf])
  then obtain r where r: "tb_row (wd_deliveries (runCycle env now st)) (fst x) = Some r" "dl_status r = ''in_flight''"
    using cycle_strands [OF inv due _ rows assms(4)] unfolding runCycle_def by blast
  have "hook_inv env (runCycle env now st)" by (rule hook_step_inv [OF hook_step.worker assms(2) inv])
  then show ?thesis using frozen_forever [OF later assms(2) _ r(1)] r(2) by (simp add: frozen_def)
qed

theorem worker_strands_deliveries_example:
  "\<exists>r. tb_row (wd_deliveries (runCycle (demo_hooks True (HttpStatus 500)) 70000 (demo_sent True (HttpStatus 500)))) ''uu'' = Some r
    \<and> dl_status r = ''in_flight''"
proof -
  let ?e = "demo_hooks True (HttpStatus 500)" let ?s = "demo_sent True (HttpStatus 500)"
  have p: "map (\<lambda>(i, d). (i, dl_webhook d)) (getDueDeliveries ?e 70000 ?s) = [(''uu'', ''u'')]" by code_simp
  then obtain d where d: "getDueDeliveries ?e 70000 ?s = [(''uu'', d)]" "dl_webhook d = ''u''" by auto
  have "tb_row (wd_webhooks ?s) ''u'' = Some demo_row" by code_simp
  then show ?thesis
    using worker_strands_deliveries [OF demo_sent_reachable demo_inj [of True "HttpStatus 500"] _ _ rtranclp.rtrancl_refl,
        where x = "(''uu'', d)" and now = 70000] d by simp
qed

text \<open>With a driver that answers row counts a replay sends nothing: every event it selects is
  on record, so the duplicate check drops it, while the answer counts each as replayed.\<close>

lemma replay_sends_nothing:
  assumes "hook_reachable env st" and "inj (we_uuid env)" and "we_counts env"
    and "\<And>p. we_json env p"
  shows "fst (replayEvents env now pk ids since until st) = Inr (length (events_to_replay pk ids since until st))
    \<and> wd_sent (snd (replayEvents env now pk ids since until st)) = wd_sent st
    \<and> wd_deliveries (snd (replayEvents env now pk ids since until st)) = wd_deliveries st"
proof -
  have inv: "hook_inv env st" by (rule reachable_inv) fact+
  then have wf: "tb_wf (wd_events st)" by (simp add: hook_inv_def tables_ok_def)
  have "\<forall>x \<in> set (events_to_replay pk ids since until st). ev_cores st (fst x) = Some (ev_core (snd x))"
    using db.in_sel [OF wf] by (fastforce simp: events_to_replay_def ev_cores_def)
  then show ?thesis
    using replay_loop_known [OF assms(3,4) inv, where n = 0] unfolding replayEvents_def by simp
qed

theorem replay_sends_nothing_example:
  "fst (replayEvents (demo_hooks True Ok) 5 ''A'' [] None None (demo_sent True Ok)) = Inr 1
    \<and> wd_sent (snd (replayEvents (demo_hooks True Ok) 5 ''A'' [] None None (demo_sent True Ok))) = wd_sent (demo_sent True Ok)"
proof -
  have "length (events_to_replay ''A'' [] None None (demo_sent True Ok)) = 1" by code_simp
  then show ?thesis
    using replay_sends_nothing [OF demo_sent_reachable demo_inj, of True Ok 5 "''A''" "[]" None None]
    by (simp add: demo_hooks_def)
qed

end
