(* ===== verification/WebhookOverlap.thy ===== *)
theory WebhookOverlap
  imports WebhookClaims
begin

text \<open>
  A delivery that is still waiting for its answer while the retry worker runs.
  \<open>deliverWebhook\<close> of \<open>backend/src/services/webhookService.js\<close> inserts the delivery as \<open>pending\<close> with no
  retry time before it sends the request, and records the outcome under the delivery's id alone after the
  answer. The two parts are given apart, with the run between them that the timer of the retry worker
  makes every thirty seconds.
\<close>

section \<open>The parts of a delivery\<close>

text \<open>Everything before the request: the delivery to attempt, by its webhook object, its id and its key.\<close>

definition start_delivery ::
  "hook_env \<Rightarrow> int \<Rightarrow> hook_ref \<Rightarrow> string \<Rightarrow> string \<Rightarrow> hook_db \<Rightarrow> (hook_ref \<times> hook \<times> string \<times> string) option \<times> hook_db" where
  "start_delivery env now ref0 payload type st0 =
     (let (ref, st) = resolve_hook ref0 st0
      in case deref ref st of
           None \<Rightarrow> (None, st)
         | Some h \<Rightarrow>
             if ho_secret h = [] then (None, st)
             else if (case ho_topics h of None \<Rightarrow> False | Some ts \<Rightarrow> \<not> matchesWebhookTopic ts type) then (None, st)
             else
               let (did, st1) = generateId env st;
                   key = generateIdempotencyKey env (ho_id h) type payload;
                   (new, st2) = record_event env now (ho_id h) type payload key st1
               in if \<not> new then (None, st2)
                  else case tb_insert did (new_delivery now (ho_id h) type payload key) (wd_deliveries st2) of
                         None \<Rightarrow> (None, st2)
                       | Some t \<Rightarrow> (Some (ref, h, did, key), st2\<lparr>wd_deliveries := t\<rparr>))"

text \<open>What is recorded once the answer is there.\<close>

definition settle_delivery ::
  "hook_env \<Rightarrow> int \<Rightarrow> string \<Rightarrow> hook_ref \<Rightarrow> hook \<Rightarrow> string \<Rightarrow> string \<Rightarrow> reply \<Rightarrow> hook_db \<Rightarrow> hook_db" where
  "settle_delivery env now did ref h payload key answer st =
     (if answer = Ok then mark_delivered now did key st
      else handleDeliveryFailure env now did ref h (reply_error answer) payload st)"

lemma deliver_in_parts:
  "deliverWebhook env now ref0 payload type st0 =
     (case start_delivery env now ref0 payload type st0 of
        (None, st) \<Rightarrow> st
      | (Some (ref, h, did, key), st) \<Rightarrow>
          (case attemptDelivery env h payload key st of
             (answer, st') \<Rightarrow> settle_delivery env now did ref h payload key answer st'))"
  by (auto simp: deliverWebhook_def start_delivery_def settle_delivery_def run_attempt_def
      Let_def split: prod.splits option.splits if_splits)

section \<open>The retry queue, seen from one delivery\<close>

lemma retry_sent_grows: "\<exists>l. wd_sent (retry_one env now x s) = wd_sent s @ l"
proof -
  obtain did d where x: "x = (did, d)" by (cases x)
  obtain o1 s1 where g: "getWebhookById (dl_webhook d) s = (o1, s1)" by fastforce
  have "\<exists>l. wd_sent (run_attempt env now did ref h p k s1) = wd_sent s1 @ l" for ref h p k
    by (auto simp: run_attempt_def attemptDelivery_def Let_def mark_delivered_def split: option.splits)
  then show ?thesis
    using getWebhookById_same [OF g] by (cases o1) (simp_all add: retry_one_def x Let_def g)
qed

lemma queue_sent_grows: "\<exists>l. wd_sent (fold (retry_one env now) xs s) = wd_sent s @ l"
proof (induction xs arbitrary: s)
  case (Cons x xs)
  then show ?case using retry_sent_grows [of env now x s] by (metis append.assoc fold_simps(2))
qed simp

text \<open>The webhook the retry queue sends to is the stored one.\<close>

lemma found_hook:
  assumes "cache_ok s" and "tb_row (wd_webhooks s) i = Some r"
  obtains h s1 where "getWebhookById i s = (Some h, s1)" "ho_url h = wr_url r" "ho_secret h = wr_secret r"
proof (cases "wd_cache s i")
  case None
  then show thesis using that [of "hook_of_row i r"] assms(2) by (simp add: getWebhookById_def hook_of_row_def)
next
  case (Some h)
  have "\<exists>r'. tb_row (wd_webhooks s) i = Some r' \<and> copy_of i r' h"
    using assms(1) Some unfolding cache_ok_def by blast
  then have "copy_of i r h" using assms(2) by simp
  then show thesis using that [of h s] Some by (simp add: getWebhookById_def copy_of_def)
qed

lemma one_redelivers:
  assumes inv: "cache_ok s" and web: "tb_row (wd_webhooks s) (dl_webhook d) = Some r"
    and row: "tb_row (wd_deliveries s) did \<noteq> None"
    and ok: "we_decrypt env (wr_secret r) \<noteq> None" "we_json env (dl_payload d)" "dl_key d \<noteq> []"
    and net: "\<And>n q. length (wd_sent s) \<le> n \<Longrightarrow> we_net env n q = Ok"
  shows "\<exists>d'. tb_row (wd_deliveries (retry_one env now (did, d) s)) did = Some d' \<and> dl_status d' = ''delivered''"
    and "wd_sent (retry_one env now (did, d) s) = wd_sent s @
      [\<lparr>sr_url = wr_url r, sr_payload = dl_payload d, sr_key = dl_key d\<rparr>]"
proof -
  obtain h s1 where g: "getWebhookById (dl_webhook d) s = (Some h, s1)" "ho_url h = wr_url r" "ho_secret h = wr_secret r"
    by (rule found_hook [OF inv web])
  have same: "wd_deliveries s1 = wd_deliveries s" "wd_sent s1 = wd_sent s"
    using getWebhookById_same [OF g(1)] by simp_all
  have one: "retry_one env now (did, d) s = run_attempt env now did (Shared (dl_webhook d)) h (dl_payload d) (dl_key d) s1"
    using ok(2) by (simp add: retry_one_def Let_def g(1))
  show "wd_sent (retry_one env now (did, d) s) = wd_sent s @
      [\<lparr>sr_url = wr_url r, sr_payload = dl_payload d, sr_key = dl_key d\<rparr>]"
    using run_attempt_sent [of env h "dl_key d"] ok(1,3) by (simp add: one g same)
  obtain st2 where a: "attemptDelivery env h (dl_payload d) (dl_key d) s1 = (Ok, st2)"
    using ok(1) net by (auto simp: attemptDelivery_def Let_def g same)
  have "wd_deliveries st2 = wd_deliveries s" using attempt_rows [OF a] same by simp
  then show "\<exists>d'. tb_row (wd_deliveries (retry_one env now (did, d) s)) did = Some d' \<and> dl_status d' = ''delivered''"
    using row by (auto simp: one run_attempt_def a mark_delivered_def tb_row_set)
qed

lemma queue_redelivers:
  assumes "cache_ok s" and "tb_row (wd_webhooks s) (dl_webhook d) = Some r"
    and "tb_row (wd_deliveries s) did \<noteq> None"
    and ok: "we_decrypt env (wr_secret r) \<noteq> None" "we_json env (dl_payload d)" "dl_key d \<noteq> []"
    and "\<And>n q. length (wd_sent s) \<le> n \<Longrightarrow> we_net env n q = Ok"
    and "distinct (map fst xs)" and "(did, d) \<in> set xs"
  shows "(\<exists>d'. tb_row (wd_deliveries (fold (retry_one env now) xs s)) did = Some d' \<and> dl_status d' = ''delivered'')
    \<and> (\<exists>l. wd_sent (fold (retry_one env now) xs s) = wd_sent s @ l
         \<and> \<lparr>sr_url = wr_url r, sr_payload = dl_payload d, sr_key = dl_key d\<rparr> \<in> set l)"
  using assms(1-3,7-)
proof (induction xs arbitrary: s)
  case (Cons y ys)
  let ?s = "retry_one env now y s"
  have inv: "cache_ok ?s" using quiet_retry_one [of s env now y] Cons.prems(1) by (simp add: quiet_def)
  obtain l1 where l1: "wd_sent ?s = wd_sent s @ l1" using retry_sent_grows by blast
  show ?case
  proof (cases "y = (did, d)")
    case True
    note one = one_redelivers [OF Cons.prems(1-3) ok Cons.prems(4), where now = now, folded True]
    have "did \<noteq> fst z" if "z \<in> set ys" for z using Cons.prems(5) that by (force simp: True)
    then have "tb_row (wd_deliveries (fold (retry_one env now) ys ?s)) did = tb_row (wd_deliveries ?s) did"
      by (intro fold_keeps [where P = "\<lambda>s'. tb_row (wd_deliveries s') did = tb_row (wd_deliveries ?s) did"])
        (simp_all add: retry_one_row)
    moreover obtain l where "wd_sent (fold (retry_one env now) ys ?s) = wd_sent ?s @ l" using queue_sent_grows by blast
    ultimately show ?thesis using one by simp
  next
    case False
    then have y: "(did, d) \<in> set ys" using Cons.prems(6) by simp
    have "fst y \<notin> fst ` set ys" using Cons.prems(5) by simp
    then have other: "did \<noteq> fst y" using imageI [OF y, of fst] by (metis fst_conv)
    have "(\<exists>d'. tb_row (wd_deliveries (fold (retry_one env now) ys ?s)) did = Some d' \<and> dl_status d' = ''delivered'')
      \<and> (\<exists>l. wd_sent (fold (retry_one env now) ys ?s) = wd_sent ?s @ l
         \<and> \<lparr>sr_url = wr_url r, sr_payload = dl_payload d, sr_key = dl_key d\<rparr> \<in> set l)"
    proof (rule Cons.IH [OF inv])
      show "tb_row (wd_webhooks ?s) (dl_webhook d) = Some r"
        using quiet_retry_one [of s env now y] Cons.prems(2) by (simp add: quiet_def)
    qed (use Cons.prems y other in \<open>simp_all add: retry_one_row l1\<close>)
    then show ?thesis by (auto simp: l1)
  qed
qed simp

section \<open>The outcomes overtake each other\<close>

lemma started:
  assumes ok: "tables_ok st0" "cache_ok st0" and "deliverable env st0 i r type"
    and "start_delivery env now (Fresh (hook_of_row i r)) p type st0 = (Some (ref, h, did, key), st1)"
  shows "ref = Fresh (hook_of_row i r)" "h = hook_of_row i r" "key = generateIdempotencyKey env i type p"
    "tb_row (wd_deliveries st1) did = Some (new_delivery now i type p key)"
    "tb_row (wd_webhooks st1) i = Some r" "cache_ok st1" "tb_wf (wd_deliveries st1)"
proof -
  let ?h = "hook_of_row i r"
  have h: "ho_secret ?h = wr_secret r" "ho_id ?h = i" "ho_topics ?h = Some (normalizeTopics (wr_topics r))"
    by (simp_all add: hook_of_row_def)
  have refs: "resolve_hook (Fresh ?h) st0 = (Fresh ?h, st0)" "deref (Fresh ?h) st0 = Some ?h"
    using assms(3) by (simp_all add: resolve_hook_def deref_def h deliverable_def)
  obtain did' s1 where gen: "generateId env st0 = (did', s1)" by fastforce
  obtain new s2 where rec: "record_event env now i type p (generateIdempotencyKey env i type p) s1 = (new, s2)" by fastforce
  have all: "ref = Fresh ?h \<and> h = ?h \<and> key = generateIdempotencyKey env i type p \<and> did = did' \<and> new \<and>
    (\<exists>t. tb_insert did (new_delivery now i type p key) (wd_deliveries s2) = Some t \<and> st1 = s2\<lparr>wd_deliveries := t\<rparr>)"
    using assms(3,4) by (auto simp: start_delivery_def refs h gen rec Let_def deliverable_def split: if_splits option.splits)
  then show "ref = Fresh ?h" "h = ?h" "key = generateIdempotencyKey env i type p" by simp_all
  from all obtain t where t: "tb_insert did (new_delivery now i type p key) (wd_deliveries s2) = Some t"
    "st1 = s2\<lparr>wd_deliveries := t\<rparr>" by blast
  then show "tb_row (wd_deliveries st1) did = Some (new_delivery now i type p key)"
    using db.row_ins [OF t(1)] by simp
  have same: "wd_webhooks s2 = wd_webhooks st0 \<and> wd_cache s2 = wd_cache st0 \<and> wd_deliveries s2 = wd_deliveries st0"
    using rec generateId_same [OF gen]
    by (auto simp: record_event_def generateId_def Let_def split: if_splits option.splits)
  then show "tb_row (wd_webhooks st1) i = Some r" using t(2) assms(3) by (simp add: deliverable_def)
  show "cache_ok st1" using ok(2) same t(2) by (simp add: cache_ok_def)
  show "tb_wf (wd_deliveries st1)" using db.wf_ins [OF _ t(1)] ok(1) same t(2) by (simp add: tables_ok_def)
qed

text \<open>C9. A delivery whose request is slow to fail is reopened after it was delivered. The retry queue
  finds it while the first request is under way, for it is stored as pending and due, sends the same
  request again and records it as delivered; the failure of the first request then makes the row
  pending again, with a retry time, so the endpoint that has accepted it is sent it once more.\<close>

theorem overlapping_retry_reopens:
  assumes "hook_reachable env st0" and "inj (we_uuid env)" and "deliverable env st0 i r type" and "we_json env p"
    and start: "start_delivery env now (Fresh (hook_of_row i r)) p type st0 = (Some (ref, h, did, key), st1)" and "key \<noteq> []"
    and first: "attemptDelivery env h p key st1 = (answer, st2)" "answer \<noteq> Ok"
    and due: "did \<in> fst ` set (pending_retries env later st2)"
    and up: "\<And>n q. length (wd_sent st1) < n \<Longrightarrow> we_net env n q = Ok"
  shows "\<exists>d3 d4 others. tb_row (wd_deliveries (processRetryQueue env later st2)) did = Some d3 \<and> dl_status d3 = ''delivered''
    \<and> tb_row (wd_deliveries (settle_delivery env late did ref h p key answer (processRetryQueue env later st2))) did = Some d4
    \<and> dl_status d4 = ''pending'' \<and> dl_retry d4 = Some (late + retry_delay 1)
    \<and> wd_sent (processRetryQueue env later st2)
        = wd_sent st1 @ \<lparr>sr_url = wr_url r, sr_payload = p, sr_key = key\<rparr> # others
    \<and> \<lparr>sr_url = wr_url r, sr_payload = p, sr_key = key\<rparr> \<in> set others"
proof -
  let ?q = "\<lparr>sr_url = wr_url r, sr_payload = p, sr_key = key\<rparr>"
  have ok: "tables_ok st0" "cache_ok st0" using reachable_inv [OF assms(1,2)] by (simp_all add: hook_inv_def)
  note s = started [OF ok assms(3) start]
  have secret: "we_decrypt env (wr_secret r) \<noteq> None" using assms(3) by (simp add: deliverable_def)
  have sent: "wd_sent st2 = wd_sent st1 @ [?q]" "wd_webhooks st2 = wd_webhooks st1"
    using first(1) secret assms(6) by (auto simp: s(2) attemptDelivery_def Let_def hook_of_row_def split: option.splits)
  have same: "wd_deliveries st2 = wd_deliveries st1" "cache_ok st2"
    using attempt_rows [OF first(1)] s(6) sent(2) by (simp_all add: cache_ok_def)
  have wf: "tb_wf (wd_deliveries st2)" using s(7) same by simp
  obtain d where d: "(did, d) \<in> set (pending_retries env later st2)" using due by force
  then have "d = new_delivery now i type p key"
    using selected_row [OF wf] s(4) same(1) unfolding pending_retries_def by fastforce
  then have fields: "dl_webhook d = i" "dl_payload d = p" "dl_key d = key" by simp_all
  have "(\<exists>d'. tb_row (wd_deliveries (processRetryQueue env later st2)) did = Some d' \<and> dl_status d' = ''delivered'')
    \<and> (\<exists>l. wd_sent (processRetryQueue env later st2) = wd_sent st2 @ l
         \<and> \<lparr>sr_url = wr_url r, sr_payload = dl_payload d, sr_key = dl_key d\<rparr> \<in> set l)"
    unfolding processRetryQueue_def
  proof (rule queue_redelivers [OF same(2) _ _ secret _ _ _ _ d])
    show "distinct (map fst (pending_retries env later st2))"
      unfolding pending_retries_def by (rule selected_distinct [OF wf])
  qed (use s(4,5) same sent up assms(4,6) fields in simp_all)
  then obtain d3 l where 3: "tb_row (wd_deliveries (processRetryQueue env later st2)) did = Some d3" "dl_status d3 = ''delivered''"
    "wd_sent (processRetryQueue env later st2) = wd_sent st2 @ l" "?q \<in> set l"
    using fields by auto
  define d4 where "d4 = d3\<lparr>dl_attempts := 1, dl_last := Some late, dl_error := Some (reply_error answer),
    dl_retry := Some (late + retry_delay 1), dl_status := ''pending''\<rparr>"
  have "tb_row (wd_deliveries (settle_delivery env late did ref h p key answer (processRetryQueue env later st2))) did = Some d4"
    using first(2) 3(1) by (simp add: settle_delivery_def failure_row s(2) hook_of_row_def MAX_RETRIES_def d4_def)
  moreover have "dl_status d4 = ''pending''" "dl_retry d4 = Some (late + retry_delay 1)" by (simp_all add: d4_def)
  ultimately show ?thesis using 3 sent(1) by force
qed

section \<open>A service whose first request fails late\<close>

definition slow_hooks :: hook_env where
  "slow_hooks = (demo_hooks False Ok)\<lparr>we_net := (\<lambda>n q. if n = 0 then Broken ''timeout'' else Ok)\<rparr>"

lemma slow_registered:
  "registerWebhook slow_hooks 1 ''A'' ''x'' ''s'' [] fresh_service = Inr (''u'', demo_service False Ok)"
  using demo_registered [of False Ok] by (simp add: registerWebhook_def slow_hooks_def generateId_def)

theorem overlapping_retry_reopens_witness:
  "\<exists>d4 st1 st2. attemptDelivery slow_hooks (hook_of_row ''u'' demo_row) ''e'' ''u:t:e'' st1 = (Broken ''timeout'', st2)
    \<and> tb_row (wd_deliveries (settle_delivery slow_hooks 40000 ''uu'' (Fresh (hook_of_row ''u'' demo_row)) (hook_of_row ''u'' demo_row)
        ''e'' ''u:t:e'' (Broken ''timeout'') (processRetryQueue slow_hooks 30000 st2))) ''uu'' = Some d4
    \<and> dl_status d4 = ''pending''"
proof -
  let ?h = "hook_of_row ''u'' demo_row"
  define st1 where "st1 = snd (start_delivery slow_hooks 2 (Fresh ?h) ''e'' ''t'' (demo_service False Ok))"
  have start: "start_delivery slow_hooks 2 (Fresh ?h) ''e'' ''t'' (demo_service False Ok) = (Some (Fresh ?h, ?h, ''uu'', ''u:t:e''), st1)"
  proof -
    have "fst (start_delivery slow_hooks 2 (Fresh ?h) ''e'' ''t'' (demo_service False Ok)) = Some (Fresh ?h, ?h, ''uu'', ''u:t:e'')"
      by code_simp
    then show ?thesis unfolding st1_def by (metis prod.collapse)
  qed
  have reach: "hook_reachable slow_hooks (demo_service False Ok)"
    using hook_step.register [OF slow_registered] by (rule r_into_rtranclp)
  have inj: "inj (we_uuid slow_hooks)" using demo_inj [of False Ok] by (simp add: slow_hooks_def)
  have sent: "wd_sent st1 = []" unfolding st1_def by code_simp
  obtain st2 where first: "attemptDelivery slow_hooks ?h ''e'' ''u:t:e'' st1 = (Broken ''timeout'', st2)"
    and st2: "st2 = snd (attemptDelivery slow_hooks ?h ''e'' ''u:t:e'' st1)"
    using sent by (simp add: attemptDelivery_def slow_hooks_def demo_hooks_def Let_def)
  have due: "''uu'' \<in> fst ` set (pending_retries slow_hooks 30000 st2)" unfolding st2 st1_def by code_simp
  have d: "deliverable slow_hooks (demo_service False Ok) ''u'' demo_row ''t''" by code_simp
  show ?thesis
    using overlapping_retry_reopens [OF reach inj d _ start _ first _ due, of 40000] first
    by (auto simp: sent slow_hooks_def demo_hooks_def)
qed

end
