(* ===== verification/JsDict.thy ===== *)
theory JsDict
  imports JsBase "HOL-Library.AList"
begin

text \<open>
  Plain objects used as dictionaries and \<open>Map\<close> objects: keys in insertion order, an update of
  a present key keeping its place. The locale is what the client code relies on, the association
  list of \<open>HOL-Library.AList\<close> provides it. A time-to-live check over such a dictionary is the
  second interface, because four components keep one.
\<close>

type_synonym ('k, 'v) dict = "('k \<times> 'v) list"

definition d_get :: "('k, 'v) dict \<Rightarrow> 'k \<Rightarrow> 'v option" where
  "d_get d k = map_of d k"

definition d_set :: "'k \<Rightarrow> 'v \<Rightarrow> ('k, 'v) dict \<Rightarrow> ('k, 'v) dict" where
  "d_set k v d = AList.update k v d"

definition d_delete :: "'k \<Rightarrow> ('k, 'v) dict \<Rightarrow> ('k, 'v) dict" where
  "d_delete k d = AList.delete k d"

definition d_entries :: "('k, 'v) dict \<Rightarrow> ('k \<times> 'v) list" where
  "d_entries d = d"

definition d_ok :: "('k, 'v) dict \<Rightarrow> bool" where
  "d_ok d = distinct (map fst d)"

lemma update_fresh: "k \<notin> fst ` set d \<Longrightarrow> AList.update k v d = d @ [(k, v)]"
  by (induction d) auto

locale dictionary =
  fixes get :: "'d \<Rightarrow> 'k \<Rightarrow> 'v option"
    and set_key :: "'k \<Rightarrow> 'v \<Rightarrow> 'd \<Rightarrow> 'd"
    and delete :: "'k \<Rightarrow> 'd \<Rightarrow> 'd"
    and entries :: "'d \<Rightarrow> ('k \<times> 'v) list"
    and ok :: "'d \<Rightarrow> bool"
  assumes get_set: "get (set_key k v d) = (get d)(k \<mapsto> v)"
    and get_delete: "get (delete k d) = (get d)(k := None)"
    and ok_set: "ok d \<Longrightarrow> ok (set_key k v d)"
    and ok_delete: "ok d \<Longrightarrow> ok (delete k d)"
    and entries_get: "ok d \<Longrightarrow> (k, v) \<in> set (entries d) \<longleftrightarrow> get d k = Some v"
    and keys_set: "map fst (entries (set_key k v d)) =
      (if get d k = None then map fst (entries d) @ [k] else map fst (entries d))"
begin

lemma get_set_same [simp]: "get (set_key k v d) k = Some v"
  by (simp add: get_set)

lemma get_delete_same [simp]: "get (delete k d) k = None"
  by (simp add: get_delete)

lemma values_set:
  assumes "\<And>k' w. get d k' = Some w \<Longrightarrow> P k' w" "P k v" "get (set_key k v d) k' = Some w"
  shows "P k' w"
  using assms by (auto simp: get_set split: if_splits)

lemma values_delete:
  assumes "\<And>k' w. get d k' = Some w \<Longrightarrow> P k' w" "get (delete k d) k' = Some w"
  shows "P k' w"
  using assms by (auto simp: get_delete split: if_splits)

lemma length_set_fresh: "get d k = None \<Longrightarrow> length (entries (set_key k v d)) = Suc (length (entries d))"
  by (metis keys_set length_append_singleton length_map)

lemma length_set_present: "get d k = Some w \<Longrightarrow> length (entries (set_key k v d)) = length (entries d)"
  by (metis keys_set length_map option.distinct(1))

end

interpretation dict: dictionary d_get d_set d_delete d_entries d_ok
proof
  show "d_get (d_set k v d) = (d_get d)(k \<mapsto> v)" for k :: 'a and v :: 'b and d
    by (simp add: d_get_def d_set_def update_conv' fun_eq_iff)
  show "d_get (d_delete k d) = (d_get d)(k := None)" for k :: 'a and d :: "('a, 'b) dict"
    by (simp add: d_get_def d_delete_def delete_conv' fun_eq_iff)
  show "map fst (d_entries (d_set k v d)) =
      (if d_get d k = None then map fst (d_entries d) @ [k] else map fst (d_entries d))"
    for k :: 'a and v :: 'b and d
    by (auto simp: d_get_def d_set_def d_entries_def update_keys map_of_eq_None_iff)
qed (auto simp: d_ok_def d_set_def d_delete_def d_entries_def d_get_def distinct_update distinct_delete)

lemmas dict_get = dict.get_set dict.get_delete

lemma d_ok_Nil [simp]: "d_ok []" "d_get [] k = None"
  by (simp_all add: d_ok_def d_get_def)

section \<open>Values that expire\<close>

locale expiring =
  fixes stamp :: "'v \<Rightarrow> int"
    and fresh :: "int \<Rightarrow> 'v \<Rightarrow> bool"
    and ttl :: int
  assumes fresh_iff: "fresh now v \<longleftrightarrow> now - stamp v < ttl"
begin

lemma fresh_window: "stamp v \<le> now \<Longrightarrow> fresh now v \<longleftrightarrow> now \<in> {stamp v ..< stamp v + ttl}"
  by (auto simp: fresh_iff)

lemma stale_stays: "\<not> fresh now v \<Longrightarrow> now \<le> later \<Longrightarrow> \<not> fresh later v"
  by (simp add: fresh_iff)

lemma fresh_until: "fresh later v \<Longrightarrow> now \<le> later \<Longrightarrow> fresh now v"
  by (simp add: fresh_iff)

end

end
