(* ===== verification/RefreshTokens.thy ===== *)
theory RefreshTokens
  imports JsResult SqlTable JsText JsDict
begin

text \<open>
  \<open>backend/src/services/tokenService.js\<close> and the handlers of \<open>backend/src/routes/auth.js\<close> that
  call it: refresh tokens in families, rotated on use, with a replay check that revokes every token
  of the account. Each operation works on the table \<open>refresh_tokens\<close> or, when that cannot be
  reached, on a \<open>Map\<close> in memory; the argument \<open>db\<close> says which.
\<close>

section \<open>Durations\<close>

definition DURATION_UNITS :: "char \<Rightarrow> nat option" where
  "DURATION_UNITS c =
     (if c = CHR ''s'' then Some 1 else if c = CHR ''m'' then Some 60
      else if c = CHR ''h'' then Some 3600 else if c = CHR ''d'' then Some 86400
      else if c = CHR ''w'' then Some 604800 else None)"

text \<open>\<open>Math.round\<close> of a number that is not negative.\<close>

definition math_round :: "rat \<Rightarrow> int" where
  "math_round r = \<lfloor>r + 1 / 2\<rfloor>"

text \<open>The number of \<open>/^(\d+(?:\.\d+)?)\s*([smhdw])$/\<close>, with the blanks before the unit.\<close>

definition duration_number :: "string \<Rightarrow> rat option" where
  "duration_number s =
     (let body = rev (dropWhile is_space (rev s));
          whole = takeWhile is_digit body; rest = dropWhile is_digit body
      in if whole = [] then None
         else if rest = [] then Some (of_nat (read_nat 0 whole))
         else if hd rest = CHR ''.'' \<and> tl rest \<noteq> [] \<and> list_all is_digit (tl rest)
         then Some (of_nat (read_nat 0 (whole @ tl rest)) / 10 ^ length (tl rest))
         else None)"

definition parseDurationToSeconds :: "string option \<Rightarrow> int \<Rightarrow> int" where
  "parseDurationToSeconds v fallback =
     (let s = to_lower (trim (case v of None \<Rightarrow> [] | Some s \<Rightarrow> s))
      in if s \<noteq> [] \<and> list_all is_digit s then int (read_nat 0 s)
         else if s = [] then fallback
         else case DURATION_UNITS (last s) of
                None \<Rightarrow> fallback
              | Some u \<Rightarrow> (case duration_number (butlast s) of
                    None \<Rightarrow> fallback
                  | Some r \<Rightarrow> math_round (r * of_nat u)))"

section \<open>State\<close>

record refresh_row =
  rt_owner :: string
  rt_hash :: string
  rt_family :: string
  rt_device :: "string option"
  rt_ip :: "string option"
  rt_expires :: int
  rt_revoked :: bool
  rt_revoked_at :: "int option"
  rt_revoked_by :: "string option"
  rt_created :: int
  rt_used :: "int option"

text \<open>
  From outside: the digest, the random tokens and ids, the signature of an access token, what
  \<open>jwt.decode\<close> reads from a text without checking its signature, and two environment variables.
\<close>

record token_env =
  te_hash :: "string \<Rightarrow> string"
  te_random :: "nat \<Rightarrow> string"
  te_uuid :: "nat \<Rightarrow> string"
  te_sign :: "string \<Rightarrow> string \<Rightarrow> int \<Rightarrow> string"
  te_decode :: "string \<Rightarrow> string option"
  te_access_ttl :: "string option"
  te_refresh_ttl :: "string option"

text \<open>The table has its own counter of ids and so has the \<open>Map\<close>, which is keyed by the digest.\<close>

record token_store =
  tk_rows :: "(nat, refresh_row) table"
  tk_next :: nat
  tk_memory :: "(string, nat \<times> refresh_row) dict"
  tk_memory_next :: nat
  tk_drawn :: nat

record token_pair =
  tp_access :: string
  tp_refresh :: string
  tp_expires :: int

definition getAccessTokenTTLSeconds :: "token_env \<Rightarrow> int" where
  "getAccessTokenTTLSeconds te = parseDurationToSeconds (te_access_ttl te) (10 * 60)"

definition getRefreshTokenTTLSeconds :: "token_env \<Rightarrow> int" where
  "getRefreshTokenTTLSeconds te = parseDurationToSeconds (te_refresh_ttl te) (7 * 24 * 60 * 60)"

section \<open>Operations\<close>

definition new_refresh :: "token_env \<Rightarrow> int \<Rightarrow> string \<Rightarrow> string \<Rightarrow> string \<Rightarrow> string option
    \<Rightarrow> string option \<Rightarrow> refresh_row" where
  "new_refresh te now owner h family device ip =
     \<lparr>rt_owner = owner, rt_hash = h, rt_family = family, rt_device = truthy_text device,
      rt_ip = truthy_text ip, rt_expires = now + getRefreshTokenTTLSeconds te * 1000,
      rt_revoked = False, rt_revoked_at = None, rt_revoked_by = None, rt_created = now, rt_used = None\<rparr>"

text \<open>The table refuses a digest it has; the \<open>Map\<close> replaces its entry.\<close>

definition issueTokens ::
  "token_env \<Rightarrow> bool \<Rightarrow> int \<Rightarrow> string \<Rightarrow> string option \<Rightarrow> string option \<Rightarrow> string option
     \<Rightarrow> token_store \<Rightarrow> (thrown + token_pair) \<times> token_store" where
  "issueTokens te db now owner device ip family st =
     (let n = tk_drawn st; token = te_random te n; h = te_hash te token;
          fam = (case truthy_text family of None \<Rightarrow> te_uuid te (2 * n) | Some f \<Rightarrow> f);
          row = new_refresh te now owner h fam device ip;
          pair = \<lparr>tp_access = te_sign te owner (te_uuid te (2 * n + 1)) (getAccessTokenTTLSeconds te),
                  tp_refresh = token, tp_expires = getAccessTokenTTLSeconds te\<rparr>;
          st1 = st\<lparr>tk_drawn := Suc n\<rparr>
      in if db then
           (if tb_select (\<lambda>_ r. rt_hash r = h) (tk_rows st) \<noteq> []
            then (Inl (plain_error ''UNIQUE constraint failed''), st1)
            else case tb_insert (tk_next st) row (tk_rows st) of
                   None \<Rightarrow> (Inl (plain_error ''UNIQUE constraint failed''), st1)
                 | Some t \<Rightarrow> (Inr pair, st1\<lparr>tk_rows := t, tk_next := Suc (tk_next st)\<rparr>))
         else (Inr pair, st1\<lparr>tk_memory := d_set h (tk_memory_next st, row) (tk_memory st),
                             tk_memory_next := Suc (tk_memory_next st)\<rparr>))"

definition revoked_row :: "int \<Rightarrow> string \<Rightarrow> refresh_row \<Rightarrow> refresh_row" where
  "revoked_row now by r = r\<lparr>rt_revoked := True, rt_revoked_at := Some now, rt_revoked_by := Some by\<rparr>"

text \<open>An update of every row that satisfies a condition, in either store, and how many there are.\<close>

definition update_rows ::
  "bool \<Rightarrow> (nat \<Rightarrow> refresh_row \<Rightarrow> bool) \<Rightarrow> (refresh_row \<Rightarrow> refresh_row) \<Rightarrow> token_store \<Rightarrow> nat \<times> token_store"
  where
  "update_rows db P f st =
     (if db then let (n, t) = tb_update P f (tk_rows st) in (n, st\<lparr>tk_rows := t\<rparr>)
      else (length (filter (\<lambda>(h, i, r). P i r) (tk_memory st)),
            st\<lparr>tk_memory := map (\<lambda>(h, i, r). (h, i, if P i r then f r else r)) (tk_memory st)\<rparr>))"

definition find_token :: "bool \<Rightarrow> string \<Rightarrow> token_store \<Rightarrow> (nat \<times> refresh_row) option" where
  "find_token db h st =
     (if db then (case tb_select (\<lambda>_ r. rt_hash r = h) (tk_rows st) of [] \<Rightarrow> None | x # _ \<Rightarrow> Some x)
      else d_get (tk_memory st) h)"

text \<open>
  The first half of a rotation reads the record and answers whether to go on; a revoked one is a
  replay, upon which every token of its account is revoked.
\<close>

definition rotate_check ::
  "token_env \<Rightarrow> bool \<Rightarrow> int \<Rightarrow> string \<Rightarrow> token_store \<Rightarrow> (nat \<times> refresh_row) option \<times> token_store" where
  "rotate_check te db now token st =
     (if token = [] then (None, st)
      else case find_token db (te_hash te token) st of
        None \<Rightarrow> (None, st)
      | Some (i, r) \<Rightarrow>
          if rt_revoked r
          then (None, snd (update_rows db (\<lambda>_ x. rt_owner x = rt_owner r) (revoked_row now ''reuse'') st))
          else if rt_expires r < now then (None, st)
          else (Some (i, r), st))"

text \<open>The second half writes the record as revoked, whatever it is by then, and issues a pair.\<close>

definition rotate_finish ::
  "token_env \<Rightarrow> bool \<Rightarrow> int \<Rightarrow> nat \<times> refresh_row \<Rightarrow> string option \<Rightarrow> string option \<Rightarrow> token_store
     \<Rightarrow> (thrown + token_pair) \<times> token_store" where
  "rotate_finish te db now = (\<lambda>(i, r) device ip st.
     issueTokens te db now (rt_owner r)
       (case truthy_text device of None \<Rightarrow> rt_device r | Some d \<Rightarrow> Some d)
       (case truthy_text ip of None \<Rightarrow> rt_ip r | Some a \<Rightarrow> Some a) (Some (rt_family r))
       (snd (update_rows db (\<lambda>k x. if db then k = i else rt_hash x = rt_hash r)
          (\<lambda>x. (revoked_row now ''rotation'' x)\<lparr>rt_used := Some now\<rparr>) st)))"

definition rotateRefreshToken ::
  "token_env \<Rightarrow> bool \<Rightarrow> int \<Rightarrow> string \<Rightarrow> string option \<Rightarrow> string option \<Rightarrow> token_store
     \<Rightarrow> (thrown + token_pair option) \<times> token_store" where
  "rotateRefreshToken te db now token device ip st =
     (case rotate_check te db now token st of
        (None, st1) \<Rightarrow> (Inr None, st1)
      | (Some x, st1) \<Rightarrow> apfst (map_sum id Some) (rotate_finish te db now x device ip st1))"

definition revokeToken :: "token_env \<Rightarrow> bool \<Rightarrow> int \<Rightarrow> string \<Rightarrow> string \<Rightarrow> token_store \<Rightarrow> bool \<times> token_store" where
  "revokeToken te db now token by st =
     (if token = [] then (False, st)
      else let (n, st1) = update_rows db (\<lambda>_ r. rt_hash r = te_hash te token) (revoked_row now by) st
           in (n > 0, st1))"

text \<open>\<open>sid\<close> is what \<open>parseInt\<close> makes of the session's id. The loop over the \<open>Map\<close> stops at a match.\<close>

fun revoke_first ::
  "(nat \<Rightarrow> refresh_row \<Rightarrow> bool) \<Rightarrow> (refresh_row \<Rightarrow> refresh_row)
     \<Rightarrow> (string, nat \<times> refresh_row) dict \<Rightarrow> bool \<times> (string, nat \<times> refresh_row) dict" where
  "revoke_first P f [] = (False, [])"
| "revoke_first P f ((h, i, r) # m) =
     (if P i r then (True, (h, i, f r) # m) else apsnd ((#) (h, i, r)) (revoke_first P f m))"

definition revokeSessionById :: "bool \<Rightarrow> int \<Rightarrow> int option \<Rightarrow> string \<Rightarrow> token_store \<Rightarrow> bool \<times> token_store" where
  "revokeSessionById db now sid pk st =
     (case sid of
        None \<Rightarrow> (False, st)
      | Some s \<Rightarrow>
          if s = 0 \<or> pk = [] then (False, st)
          else if db then
            (let (n, st1) = update_rows True (\<lambda>k r. int k = s \<and> rt_owner r = pk) (revoked_row now ''session'') st
             in (n > 0, st1))
          else
            (let (b, m) = revoke_first (\<lambda>k r. int k = s \<and> rt_owner r = pk) (revoked_row now ''session'') (tk_memory st)
             in (b, st\<lparr>tk_memory := m\<rparr>)))"

definition revokeAllUserTokens :: "bool \<Rightarrow> int \<Rightarrow> string \<Rightarrow> string \<Rightarrow> token_store \<Rightarrow> nat \<times> token_store" where
  "revokeAllUserTokens db now pk by st =
     (if pk = [] then (0, st)
      else update_rows db (\<lambda>_ r. rt_owner r = pk \<and> \<not> rt_revoked r) (revoked_row now by) st)"

definition revokeTokenFamily :: "bool \<Rightarrow> int \<Rightarrow> string \<Rightarrow> token_store \<Rightarrow> nat \<times> token_store" where
  "revokeTokenFamily db now pk st = revokeAllUserTokens db now pk ''logout'' st"

definition active :: "int \<Rightarrow> string \<Rightarrow> refresh_row \<Rightarrow> bool" where
  "active now pk r \<longleftrightarrow> rt_owner r = pk \<and> \<not> rt_revoked r \<and> now < rt_expires r"

definition all_rows :: "bool \<Rightarrow> token_store \<Rightarrow> (nat \<times> refresh_row) list" where
  "all_rows db st = (if db then tk_rows st else map snd (tk_memory st))"

definition getActiveSessions :: "bool \<Rightarrow> int \<Rightarrow> string \<Rightarrow> token_store \<Rightarrow> (nat \<times> refresh_row) list" where
  "getActiveSessions db now pk st =
     (if pk = [] then []
      else sort_key (\<lambda>(i, r). - rt_created r) (filter (\<lambda>(i, r). active now pk r) (all_rows db st)))"

definition getRefreshTokenData :: "token_env \<Rightarrow> bool \<Rightarrow> string \<Rightarrow> token_store \<Rightarrow> (nat \<times> refresh_row) option" where
  "getRefreshTokenData te db token st = (if token = [] then None else find_token db (te_hash te token) st)"

definition clearAll :: "bool \<Rightarrow> token_store \<Rightarrow> token_store" where
  "clearAll db st = st\<lparr>tk_memory := [], tk_memory_next := 1, tk_rows := (if db then [] else tk_rows st)\<rparr>"

section \<open>Handlers\<close>

text \<open>
  What the handlers read of a request: the bearer text, the body's fields, the cookie. A session id
  is absent or falsy, or what \<open>parseInt\<close> makes of it.
\<close>

record auth_request =
  aq_bearer :: "string option"
  aq_all :: bool
  aq_session :: "int option option"
  aq_refresh :: "string option"
  aq_cookie :: "string option"
  aq_agent :: "string option"
  aq_ip :: "string option"

text \<open>\<open>jwt.decode\<close> checks no signature; an empty name is falsy.\<close>

definition claimed_account :: "token_env \<Rightarrow> auth_request \<Rightarrow> string option" where
  "claimed_account te q =
     (case aq_bearer q of None \<Rightarrow> None | Some b \<Rightarrow> truthy_text (te_decode te b))"

definition presented_token :: "auth_request \<Rightarrow> string option" where
  "presented_token q = (case truthy_text (aq_refresh q) of Some t \<Rightarrow> Some t | None \<Rightarrow> truthy_text (aq_cookie q))"

datatype auth_reply = Refreshed token_pair | Refused | Failed | MissingField | AllRevoked | SessionRevoked bool
  | TokenRevoked | LoggedOut

definition postRefresh :: "token_env \<Rightarrow> bool \<Rightarrow> int \<Rightarrow> auth_request \<Rightarrow> token_store \<Rightarrow> auth_reply \<times> token_store" where
  "postRefresh te db now q st =
     (case presented_token q of
        None \<Rightarrow> (MissingField, st)
      | Some t \<Rightarrow>
          (case rotateRefreshToken te db now t (aq_agent q) (aq_ip q) st of
             (Inl e, st1) \<Rightarrow> (Failed, st1)
           | (Inr None, st1) \<Rightarrow> (Refused, st1)
           | (Inr (Some p), st1) \<Rightarrow> (Refreshed p, st1)))"

definition postRevoke :: "token_env \<Rightarrow> bool \<Rightarrow> int \<Rightarrow> auth_request \<Rightarrow> token_store \<Rightarrow> auth_reply \<times> token_store" where
  "postRevoke te db now q st =
     (case (aq_all q, aq_session q, claimed_account te q) of
        (True, _, Some pk) \<Rightarrow> (AllRevoked, snd (revokeAllUserTokens db now pk ''revoke-all'' st))
      | (False, Some s, Some pk) \<Rightarrow>
          let (b, st1) = revokeSessionById db now s pk st in (SessionRevoked b, st1)
      | _ \<Rightarrow>
          (case presented_token q of
             Some t \<Rightarrow> (TokenRevoked, snd (revokeToken te db now t ''revoke'' st))
           | None \<Rightarrow> (MissingField, st)))"

definition postLogout :: "token_env \<Rightarrow> bool \<Rightarrow> int \<Rightarrow> auth_request \<Rightarrow> token_store \<Rightarrow> auth_reply \<times> token_store" where
  "postLogout te db now q st =
     (let owner = (case presented_token q of
            None \<Rightarrow> claimed_account te q
          | Some t \<Rightarrow> (case getRefreshTokenData te db t st of
                None \<Rightarrow> claimed_account te q
              | Some (i, r) \<Rightarrow> truthy_text (Some (rt_owner r))))
      in (LoggedOut, case owner of None \<Rightarrow> st | Some pk \<Rightarrow> snd (revokeTokenFamily db now pk st)))"

section \<open>Sequences of requests\<close>

datatype auth_cmd = Login string "string option" "string option" | Refresh auth_request
  | Revoke auth_request | Logout auth_request | Sessions string

datatype auth_answer = Tokens "thrown + token_pair" | Reply auth_reply | Listed "(nat \<times> refresh_row) list"

fun exec_auth :: "token_env \<Rightarrow> bool \<Rightarrow> int \<Rightarrow> auth_cmd \<Rightarrow> token_store \<Rightarrow> auth_answer \<times> token_store" where
  "exec_auth te db now (Login pk device ip) st = apfst Tokens (issueTokens te db now pk device ip None st)"
| "exec_auth te db now (Refresh q) st = apfst Reply (postRefresh te db now q st)"
| "exec_auth te db now (Revoke q) st = apfst Reply (postRevoke te db now q st)"
| "exec_auth te db now (Logout q) st = apfst Reply (postLogout te db now q st)"
| "exec_auth te db now (Sessions pk) st = (Listed (getActiveSessions db now pk st), st)"

fun auth_run :: "token_env \<Rightarrow> bool \<Rightarrow> (int \<times> auth_cmd) list \<Rightarrow> token_store \<Rightarrow> auth_answer list \<times> token_store" where
  "auth_run te db [] st = ([], st)"
| "auth_run te db ((now, c) # cs) st =
     (let (a, st1) = exec_auth te db now c st in apfst ((#) a) (auth_run te db cs st1))"

definition no_tokens :: token_store where
  "no_tokens = \<lparr>tk_rows = [], tk_next = 1, tk_memory = [], tk_memory_next = 1, tk_drawn = 0\<rparr>"

text \<open>What is documented of the digest and the generators: distinct results, no empty id.\<close>

definition good_tokens :: "token_env \<Rightarrow> bool" where
  "good_tokens te \<longleftrightarrow> inj (\<lambda>n. te_hash te (te_random te n)) \<and> inj (te_uuid te) \<and> (\<forall>n. te_uuid te n \<noteq> [])"

end
