(* ===== verification/TokenClaims.thy ===== *)
theory TokenClaims
  imports RefreshTokens
begin

text \<open>
  What the refresh tokens of \<open>RefreshTokens\<close> promise: the table and the \<open>Map\<close> in memory answer every
  sequence of requests alike, a family has one live token, a token used twice closes the sessions
  of its account; and where two rotations overlap or a bearer token is forged, what happens.
\<close>

section \<open>The two stores agree\<close>

definition mirrors :: "token_store \<Rightarrow> token_store \<Rightarrow> bool" where
  "mirrors a b \<longleftrightarrow> tk_rows a = map snd (tk_memory b) \<and> tk_next a = tk_memory_next b \<and> tk_drawn a = tk_drawn b"

text \<open>What holds of the table in every state, with the digests and families drawn so far.\<close>

definition rows_ok :: "token_env \<Rightarrow> token_store \<Rightarrow> bool" where
  "rows_ok te st \<longleftrightarrow> tb_wf (tk_rows st) \<and> distinct (map (\<lambda>(i, r). rt_hash r) (tk_rows st))
     \<and> (\<forall>(i, r) \<in> set (tk_rows st). i < tk_next st
          \<and> rt_hash r \<in> (\<lambda>n. te_hash te (te_random te n)) ` {..<tk_drawn st}
          \<and> rt_family r \<in> (\<lambda>n. te_uuid te (2 * n)) ` {..<tk_drawn st})
     \<and> (\<forall>(i, r) \<in> set (tk_rows st). \<forall>(j, x) \<in> set (tk_rows st).
          rt_family r = rt_family x \<longrightarrow> \<not> rt_revoked r \<longrightarrow> \<not> rt_revoked x \<longrightarrow> i = j)"

definition keyed :: "token_store \<Rightarrow> bool" where
  "keyed st \<longleftrightarrow> (\<forall>(h, i, r) \<in> set (tk_memory st). rt_hash r = h)"

definition keeps_core :: "(refresh_row \<Rightarrow> refresh_row) \<Rightarrow> bool" where
  "keeps_core f \<longleftrightarrow> (\<forall>r. rt_hash (f r) = rt_hash r \<and> rt_family (f r) = rt_family r
     \<and> rt_owner (f r) = rt_owner r \<and> rt_expires (f r) = rt_expires r \<and> (rt_revoked r \<longrightarrow> rt_revoked (f r)))"

lemma keeps_core_revoked [simp]:
  "keeps_core (revoked_row now by)" "keeps_core (\<lambda>x. (revoked_row now by x)\<lparr>rt_used := u\<rparr>)"
  by (simp_all add: keeps_core_def revoked_row_def)

lemma keeps_coreD:
  assumes "keeps_core f"
  shows "rt_hash (f r) = rt_hash r" "rt_family (f r) = rt_family r" "rt_owner (f r) = rt_owner r"
    "rt_expires (f r) = rt_expires r" "\<not> rt_revoked (f r) \<Longrightarrow> \<not> rt_revoked r"
  using assms by (auto simp: keeps_core_def)

lemma rows_okD:
  assumes "rows_ok te st" and "(i, r) \<in> set (tk_rows st)"
  shows "i < tk_next st" "rt_hash r \<in> (\<lambda>n. te_hash te (te_random te n)) ` {..<tk_drawn st}"
    "rt_family r \<in> (\<lambda>n. te_uuid te (2 * n)) ` {..<tk_drawn st}"
    "(j, x) \<in> set (tk_rows st) \<Longrightarrow> rt_family r = rt_family x \<Longrightarrow> \<not> rt_revoked r \<Longrightarrow> \<not> rt_revoked x \<Longrightarrow> i = j"
  using assms unfolding rows_ok_def by blast+

lemma update_ok:
  assumes ok: "rows_ok te st" and f: "keeps_core f"
  shows "rows_ok te (snd (update_rows True P f st))"
proof -
  let ?st = "snd (update_rows True P f st)"
  have eq: "tk_rows ?st = map (\<lambda>(i, r). (i, if P i r then f r else r)) (tk_rows st)"
    "tk_next ?st = tk_next st" "tk_drawn ?st = tk_drawn st"
    by (simp_all add: update_rows_def tb_update_def)
  have hashes: "map (\<lambda>(i, r). rt_hash r) (tk_rows ?st) = map (\<lambda>(i, r). rt_hash r) (tk_rows st)"
    using f by (simp add: eq keeps_core_def split_beta comp_def)
  have keys: "map fst (tk_rows ?st) = map fst (tk_rows st)" by (simp add: eq split_beta comp_def)
  have old: "\<exists>r0. (i, r0) \<in> set (tk_rows st) \<and> rt_hash r = rt_hash r0 \<and> rt_family r = rt_family r0
      \<and> (\<not> rt_revoked r \<longrightarrow> \<not> rt_revoked r0)" if "(i, r) \<in> set (tk_rows ?st)" for i r
    using that f unfolding eq keeps_core_def by (auto split: if_splits)
  have "\<forall>(i, r) \<in> set (tk_rows ?st). i < tk_next ?st
      \<and> rt_hash r \<in> (\<lambda>n. te_hash te (te_random te n)) ` {..<tk_drawn ?st}
      \<and> rt_family r \<in> (\<lambda>n. te_uuid te (2 * n)) ` {..<tk_drawn ?st}"
    using old rows_okD(1-3) [OF ok] unfolding eq(2,3) by fastforce
  moreover have "i = j" if "(i, r) \<in> set (tk_rows ?st)" "(j, x) \<in> set (tk_rows ?st)" "rt_family r = rt_family x"
    "\<not> rt_revoked r" "\<not> rt_revoked x" for i j r x
    using old [OF that(1)] old [OF that(2)] that(3-5) rows_okD(4) [OF ok] by metis
  ultimately show ?thesis
    using ok hashes keys unfolding rows_ok_def tb_wf_def by auto
qed

text \<open>The row and the pair of a call of \<open>issueTokens\<close> are new in either store.\<close>

definition issued_row :: "token_env \<Rightarrow> int \<Rightarrow> string \<Rightarrow> string option \<Rightarrow> string option \<Rightarrow> string option
    \<Rightarrow> token_store \<Rightarrow> refresh_row" where
  "issued_row te now owner device ip family st =
     new_refresh te now owner (te_hash te (te_random te (tk_drawn st)))
       (case truthy_text family of None \<Rightarrow> te_uuid te (2 * tk_drawn st) | Some f \<Rightarrow> f) device ip"

definition issued_pair :: "token_env \<Rightarrow> string \<Rightarrow> token_store \<Rightarrow> token_pair" where
  "issued_pair te owner st =
     \<lparr>tp_access = te_sign te owner (te_uuid te (2 * tk_drawn st + 1)) (getAccessTokenTTLSeconds te),
      tp_refresh = te_random te (tk_drawn st), tp_expires = getAccessTokenTTLSeconds te\<rparr>"

lemma hash_unused:
  assumes "good_tokens te" and "rows_ok te st" and "(i, r) \<in> set (tk_rows st)"
  shows "rt_hash r \<noteq> te_hash te (te_random te (tk_drawn st))"
  using rows_okD(2) [OF assms(2,3)] assms(1) by (auto simp: good_tokens_def dest: injD)

lemma issue_db:
  assumes "good_tokens te" and ok: "rows_ok te st"
  shows "issueTokens te True now owner device ip family st = (Inr (issued_pair te owner st),
    st\<lparr>tk_rows := tk_rows st @ [(tk_next st, issued_row te now owner device ip family st)],
       tk_next := Suc (tk_next st), tk_drawn := Suc (tk_drawn st)\<rparr>)"
proof -
  have "tb_select (\<lambda>_ r. rt_hash r = te_hash te (te_random te (tk_drawn st))) (tk_rows st) = []"
    using hash_unused [OF assms] by (force simp: tb_select_def filter_empty_conv)
  moreover have "tb_row (tk_rows st) (tk_next st) = None"
    using rows_okD(1) [OF ok] by (force simp: tb_row_def map_of_eq_None_iff)
  ultimately show ?thesis
    by (simp add: issueTokens_def Let_def tb_insert_def issued_pair_def issued_row_def)
qed

lemma issue_memory:
  assumes "good_tokens te" and ok: "rows_ok te a" and m: "mirrors a b" and k: "keyed b"
  shows "issueTokens te False now owner device ip family b = (Inr (issued_pair te owner a),
    b\<lparr>tk_drawn := Suc (tk_drawn b),
       tk_memory := tk_memory b @ [(te_hash te (te_random te (tk_drawn a)),
         tk_memory_next b, issued_row te now owner device ip family a)],
       tk_memory_next := Suc (tk_memory_next b)\<rparr>)"
proof -
  have "te_hash te (te_random te (tk_drawn a)) \<notin> fst ` set (tk_memory b)"
  proof
    assume "te_hash te (te_random te (tk_drawn a)) \<in> fst ` set (tk_memory b)"
    then obtain i r where e: "(te_hash te (te_random te (tk_drawn a)), i, r) \<in> set (tk_memory b)" by auto
    then have "(i, r) \<in> set (tk_rows a)" using m by (force simp: mirrors_def)
    moreover have "rt_hash r = te_hash te (te_random te (tk_drawn a))" using e k by (auto simp: keyed_def)
    ultimately show False using hash_unused [OF assms(1) ok] by blast
  qed
  then show ?thesis
    using m by (cases "truthy_text family")
      (simp_all add: issueTokens_def Let_def d_set_def update_fresh mirrors_def issued_pair_def issued_row_def)
qed

lemma issue_mirrors:
  assumes "good_tokens te" and "rows_ok te a" and "mirrors a b" and "keyed b"
  shows "fst (issueTokens te False now owner device ip family b) = fst (issueTokens te True now owner device ip family a)"
    and "mirrors (snd (issueTokens te True now owner device ip family a)) (snd (issueTokens te False now owner device ip family b))"
    and "keyed (snd (issueTokens te False now owner device ip family b))"
  using assms
  by (simp_all add: issue_db issue_memory mirrors_def keyed_def issued_row_def new_refresh_def)

lemma issue_ok:
  assumes good: "good_tokens te" and ok: "rows_ok te st"
    and fam: "\<And>f. truthy_text family = Some f \<Longrightarrow> f \<in> (\<lambda>n. te_uuid te (2 * n)) ` {..<tk_drawn st}
      \<and> (\<forall>(j, x) \<in> set (tk_rows st). rt_family x = f \<longrightarrow> rt_revoked x)"
  shows "rows_ok te (snd (issueTokens te True now owner device ip family st))"
proof -
  let ?r = "issued_row te now owner device ip family st"
  have hash: "rt_hash ?r = te_hash te (te_random te (tk_drawn st))"
    by (simp add: issued_row_def new_refresh_def)
  have old: "rt_revoked x" if "(j, x) \<in> set (tk_rows st)" "rt_family x = rt_family ?r" for j x
  proof (cases "truthy_text family")
    case None
    then have "rt_family x = te_uuid te (2 * tk_drawn st)" using that by (simp add: issued_row_def new_refresh_def)
    then show ?thesis using rows_okD(3) [OF ok that(1)] good by (auto simp: good_tokens_def dest: injD)
  next
    case (Some f)
    then show ?thesis using fam that by (auto simp: issued_row_def new_refresh_def)
  qed
  have family: "rt_family ?r \<in> (\<lambda>n. te_uuid te (2 * n)) ` {..<Suc (tk_drawn st)}"
    using fam by (cases "truthy_text family") (auto simp: issued_row_def new_refresh_def)
  have old_drawn: "i < Suc (tk_next st)" "rt_hash r \<in> (\<lambda>n. te_hash te (te_random te n)) ` {..<Suc (tk_drawn st)}"
    "rt_family r \<in> (\<lambda>n. te_uuid te (2 * n)) ` {..<Suc (tk_drawn st)}" if "(i, r) \<in> set (tk_rows st)" for i r
    using rows_okD(1-3) [OF ok that] by (auto simp: less_Suc_eq)
  have id: "tk_next st \<notin> fst ` set (tk_rows st)" using rows_okD(1) [OF ok] by fastforce
  have h: "rt_hash ?r \<notin> (\<lambda>(i, r). rt_hash r) ` set (tk_rows st)"
    using hash_unused [OF good ok] unfolding hash by fastforce
  have "i = j" if "(i, r) \<in> set (tk_rows st) \<or> (i, r) = (tk_next st, ?r)"
    "(j, x) \<in> set (tk_rows st) \<or> (j, x) = (tk_next st, ?r)" "rt_family r = rt_family x"
    "\<not> rt_revoked r" "\<not> rt_revoked x" for i j r x
    using that old rows_okD(4) [OF ok] by (metis prod.inject)
  then show ?thesis
    using ok id h old_drawn family hash
    unfolding issue_db [OF good ok] rows_ok_def tb_wf_def
    by (auto simp del: not_None_eq)
qed

definition agree :: "token_env \<Rightarrow> token_store \<Rightarrow> token_store \<Rightarrow> bool" where
  "agree te a b \<longleftrightarrow> rows_ok te a \<and> mirrors a b \<and> keyed b"

lemma update_agree:
  assumes ag: "agree te a b" and f: "keeps_core f"
    and PQ: "\<And>i r. (i, r) \<in> set (tk_rows a) \<Longrightarrow> P i r = Q i r"
  shows "fst (update_rows False Q f b) = fst (update_rows True P f a)"
    and "agree te (snd (update_rows True P f a)) (snd (update_rows False Q f b))"
proof -
  have rows: "tk_rows a = map snd (tk_memory b)" using ag by (simp add: agree_def mirrors_def)
  have sel: "(case x of (h, i, r) \<Rightarrow> Q i r) = (case snd x of (i, r) \<Rightarrow> P i r)" if "x \<in> set (tk_memory b)" for x
  proof -
    obtain h i r where x: "x = (h, i, r)" by (cases x)
    have "snd x \<in> snd ` set (tk_memory b)" using that by (rule imageI)
    then have "(i, r) \<in> set (tk_rows a)" by (simp add: rows x)
    then show ?thesis using PQ by (simp add: x)
  qed
  have "length (filter (\<lambda>(h, i, r). Q i r) (tk_memory b)) = length (filter (\<lambda>(i, r). P i r) (map snd (tk_memory b)))"
    using sel by (simp add: filter_map comp_def cong: filter_cong)
  then show "fst (update_rows False Q f b) = fst (update_rows True P f a)"
    by (simp add: update_rows_def tb_update_def tb_select_def rows)
  have "map snd (map (\<lambda>(h, i, r). (h, i, if Q i r then f r else r)) (tk_memory b)) =
      map (\<lambda>(i, r). (i, if P i r then f r else r)) (map snd (tk_memory b))"
    using sel by (auto simp: split_beta)
  then have "mirrors (snd (update_rows True P f a)) (snd (update_rows False Q f b))"
    using ag by (simp add: agree_def mirrors_def update_rows_def tb_update_def)
  moreover have "keyed (snd (update_rows False Q f b))"
    using ag f by (auto simp: agree_def keyed_def update_rows_def keeps_core_def)
  moreover have "rows_ok te (snd (update_rows True P f a))"
    using update_ok f ag by (simp add: agree_def)
  ultimately show "agree te (snd (update_rows True P f a)) (snd (update_rows False Q f b))"
    by (simp add: agree_def)
qed

lemma find_keyed:
  "\<forall>(k, i, r) \<in> set m. rt_hash r = k \<Longrightarrow>
    (case filter (\<lambda>(i, r). rt_hash r = h) (map snd m) of [] \<Rightarrow> None | x # _ \<Rightarrow> Some x) = map_of m h"
  by (induction m) (auto simp: split_beta)

lemma find_agree: "agree te a b \<Longrightarrow> find_token False h b = find_token True h a"
  using find_keyed [of "tk_memory b" h]
  by (simp add: find_token_def agree_def mirrors_def keyed_def d_get_def tb_select_def)

lemma find_row: "find_token True h st = Some (i, r) \<Longrightarrow> (i, r) \<in> set (tk_rows st) \<and> rt_hash r = h"
  by (cases "tb_select (\<lambda>_ r. rt_hash r = h) (tk_rows st)")
    (force simp: find_token_def tb_select_def filter_eq_Cons_iff)+

lemma same_row:
  assumes "rows_ok te st" and "(i, r) \<in> set (tk_rows st)" and "(j, x) \<in> set (tk_rows st)"
  shows "j = i \<longleftrightarrow> rt_hash x = rt_hash r"
proof -
  have d: "distinct (map fst (tk_rows st))" "distinct (map (\<lambda>(i, r). rt_hash r) (tk_rows st))"
    using assms(1) by (simp_all add: rows_ok_def tb_wf_def)
  have "j = i \<Longrightarrow> (j, x) = (i, r)" using d(1) assms(2,3) by (metis eq_key_imp_eq_value)
  moreover have "rt_hash x = rt_hash r \<Longrightarrow> (j, x) = (i, r)"
    using inj_onD [OF conjunct2 [OF d(2) [unfolded distinct_map]], of "(j, x)" "(i, r)"] assms(2,3) by simp
  ultimately show ?thesis by auto
qed

lemma issue_agree:
  assumes "good_tokens te" and "agree te a b"
    and "\<And>f. truthy_text family = Some f \<Longrightarrow> f \<in> (\<lambda>n. te_uuid te (2 * n)) ` {..<tk_drawn a}
      \<and> (\<forall>(j, x) \<in> set (tk_rows a). rt_family x = f \<longrightarrow> rt_revoked x)"
  shows "fst (issueTokens te False now owner device ip family b) = fst (issueTokens te True now owner device ip family a)"
    and "agree te (snd (issueTokens te True now owner device ip family a)) (snd (issueTokens te False now owner device ip family b))"
proof -
  have ag: "rows_ok te a" "mirrors a b" "keyed b" using assms(2) by (simp_all add: agree_def)
  show "fst (issueTokens te False now owner device ip family b) = fst (issueTokens te True now owner device ip family a)"
    by (rule issue_mirrors(1) [OF assms(1) ag])
  show "agree te (snd (issueTokens te True now owner device ip family a)) (snd (issueTokens te False now owner device ip family b))"
    unfolding agree_def
    by (intro conjI issue_ok [OF assms(1) ag(1) assms(3)] issue_mirrors(2,3) [OF assms(1) ag])
qed

lemma finish_agree:
  assumes good: "good_tokens te" and ag: "agree te a b" and row: "(i, r) \<in> set (tk_rows a)" and live: "\<not> rt_revoked r"
  shows "fst (rotate_finish te False now (i, r) device ip b) = fst (rotate_finish te True now (i, r) device ip a)"
    and "agree te (snd (rotate_finish te True now (i, r) device ip a)) (snd (rotate_finish te False now (i, r) device ip b))"
proof -
  let ?f = "\<lambda>x. (revoked_row now ''rotation'' x)\<lparr>rt_used := Some now\<rparr>"
  let ?a = "snd (update_rows True (\<lambda>k x. k = i) ?f a)"
  let ?b = "snd (update_rows False (\<lambda>k x. rt_hash x = rt_hash r) ?f b)"
  have ok: "rows_ok te a" using ag by (simp add: agree_def)
  have ag2: "agree te ?a ?b"
    by (rule update_agree(2) [OF ag keeps_core_revoked(2)]) (rule same_row [OF ok row])
  have drawn: "tk_drawn ?a = tk_drawn a" by (simp add: update_rows_def split_beta)
  have "rt_revoked x" if "(j, x) \<in> set (tk_rows ?a)" "rt_family x = rt_family r" for j x
  proof (rule ccontr)
    assume "\<not> rt_revoked x"
    then have "(j, x) \<in> set (tk_rows a)" "j \<noteq> i"
      using that by (auto simp: update_rows_def tb_update_def revoked_row_def split: if_splits)
    then show False using rows_okD(4) [OF ok row, of j x] that(2) live \<open>\<not> rt_revoked x\<close> by simp
  qed
  then have "f \<in> (\<lambda>n. te_uuid te (2 * n)) ` {..<tk_drawn ?a} \<and> (\<forall>(j, x) \<in> set (tk_rows ?a). rt_family x = f \<longrightarrow> rt_revoked x)"
    if "truthy_text (Some (rt_family r)) = Some f" for f
    using that rows_okD(3) [OF ok row] unfolding drawn by (auto simp: truthy_text_def split: if_splits)
  from issue_agree [OF good ag2 this]
  show "fst (rotate_finish te False now (i, r) device ip b) = fst (rotate_finish te True now (i, r) device ip a)"
    "agree te (snd (rotate_finish te True now (i, r) device ip a)) (snd (rotate_finish te False now (i, r) device ip b))"
    by (simp_all add: rotate_finish_def)
qed

lemma check_agree:
  assumes "agree te a b"
  shows "fst (rotate_check te False now t b) = fst (rotate_check te True now t a)"
    and "agree te (snd (rotate_check te True now t a)) (snd (rotate_check te False now t b))"
    and "fst (rotate_check te True now t a) = Some x \<Longrightarrow> snd (rotate_check te True now t a) = a
      \<and> x \<in> set (tk_rows a) \<and> \<not> rt_revoked (snd x)"
  using update_agree [OF assms keeps_core_revoked(1)] assms find_row [of "te_hash te t" a]
  by (auto simp: rotate_check_def find_agree [OF assms] split: option.split if_splits)

lemma rotate_agree:
  assumes good: "good_tokens te" and ag: "agree te a b"
  shows "fst (rotateRefreshToken te False now t device ip b) = fst (rotateRefreshToken te True now t device ip a)"
    and "agree te (snd (rotateRefreshToken te True now t device ip a)) (snd (rotateRefreshToken te False now t device ip b))"
proof -
  note c = check_agree [OF ag, of now t]
  have "fst (rotateRefreshToken te False now t device ip b) = fst (rotateRefreshToken te True now t device ip a)
    \<and> agree te (snd (rotateRefreshToken te True now t device ip a)) (snd (rotateRefreshToken te False now t device ip b))"
  proof (cases "fst (rotate_check te True now t a)")
    case None
    then show ?thesis using c by (simp add: rotateRefreshToken_def split_beta)
  next
    case (Some x)
    obtain i r where x: "x = (i, r)" by (cases x)
    have "(i, r) \<in> set (tk_rows a)" "\<not> rt_revoked r" using c(3) [OF Some] x by auto
    from finish_agree [OF good c(2) , of i r] this Some c(1) c(3) [OF Some]
    show ?thesis by (simp add: rotateRefreshToken_def split_beta x)
  qed
  then show "fst (rotateRefreshToken te False now t device ip b) = fst (rotateRefreshToken te True now t device ip a)"
    "agree te (snd (rotateRefreshToken te True now t device ip a)) (snd (rotateRefreshToken te False now t device ip b))"
    by simp_all
qed

lemma revoke_first_map:
  assumes "distinct (map (\<lambda>(h, i, r). i) m)" and "\<And>i j r x. P i r \<Longrightarrow> P j x \<Longrightarrow> i = j"
  shows "map snd (snd (revoke_first P f m)) = map (\<lambda>(i, r). (i, if P i r then f r else r)) (map snd m)
    \<and> fst (revoke_first P f m) = (filter (\<lambda>(i, r). P i r) (map snd m) \<noteq> [])"
  using assms(1)
proof (induction m)
  case (Cons x m)
  obtain h i r where x: "x = (h, i, r)" by (cases x)
  have "\<not> P j y" if "P i r" "(k, j, y) \<in> set m" for k j y
    using assms(2) [OF that(1), of j y] that(2) Cons.prems x by force
  then have "P i r \<Longrightarrow> map (\<lambda>(i, r). (i, if P i r then f r else r)) (map snd m) = map snd m"
    by (intro map_idI) auto
  then show ?case using Cons by (auto simp: x)
qed simp

lemma revoke_first_keyed:
  "\<forall>(k, i, r) \<in> set m. rt_hash r = k \<Longrightarrow> keeps_core f \<Longrightarrow>
    \<forall>(k, i, r) \<in> set (snd (revoke_first P f m)). rt_hash r = k"
  by (induction m) (auto simp: keeps_core_def split: if_splits)

lemma session_agree:
  assumes ag: "agree te a b"
  shows "fst (revokeSessionById False now sid pk b) = fst (revokeSessionById True now sid pk a)"
    and "agree te (snd (revokeSessionById True now sid pk a)) (snd (revokeSessionById False now sid pk b))"
proof -
  have rows: "tk_rows a = map snd (tk_memory b)" and ok: "rows_ok te a" using ag by (simp_all add: agree_def mirrors_def)
  have d: "distinct (map (\<lambda>(h, i, r). i) (tk_memory b))"
    using ok unfolding rows_ok_def tb_wf_def rows by (simp add: comp_def case_prod_unfold)
  have *: "fst (revokeSessionById False now sid pk b) = fst (revokeSessionById True now sid pk a)
    \<and> agree te (snd (revokeSessionById True now sid pk a)) (snd (revokeSessionById False now sid pk b))"
  proof (cases "sid = None \<or> sid = Some 0 \<or> pk = []")
    case False
    then obtain s where s: "sid = Some s" "s \<noteq> 0" "pk \<noteq> []" by auto
    let ?P = "\<lambda>k r. int k = s \<and> rt_owner r = pk" let ?f = "revoked_row now ''session''"
    note m = revoke_first_map [OF d, of ?P ?f]
    have "rows_ok te (snd (update_rows True ?P ?f a))" by (rule update_ok [OF ok keeps_core_revoked(1)])
    then show ?thesis
      using m ag revoke_first_keyed [of "tk_memory b" ?f ?P] s
      by (auto simp: revokeSessionById_def update_rows_def tb_update_def tb_select_def rows agree_def mirrors_def
          keyed_def split_beta filter_map comp_def)
  qed (use ag in \<open>cases sid; auto simp: revokeSessionById_def\<close>)
  then show "fst (revokeSessionById False now sid pk b) = fst (revokeSessionById True now sid pk a)"
    "agree te (snd (revokeSessionById True now sid pk a)) (snd (revokeSessionById False now sid pk b))"
    by simp_all
qed

lemma revoke_agree:
  assumes ag: "agree te a b"
  shows "agree te (snd (revokeToken te True now t by1 a)) (snd (revokeToken te False now t by1 b))"
    and "agree te (snd (revokeAllUserTokens True now pk by1 a)) (snd (revokeAllUserTokens False now pk by1 b))"
  using update_agree(2) [OF ag keeps_core_revoked(1)] ag
  by (simp_all add: revokeToken_def revokeAllUserTokens_def split_beta)

lemma sessions_agree: "agree te a b \<Longrightarrow> getActiveSessions False now pk b = getActiveSessions True now pk a"
  by (simp add: getActiveSessions_def all_rows_def agree_def mirrors_def)

lemma exec_agree:
  assumes good: "good_tokens te" and ag: "agree te a b"
  shows "fst (exec_auth te False now c b) = fst (exec_auth te True now c a)
    \<and> agree te (snd (exec_auth te True now c a)) (snd (exec_auth te False now c b))"
proof (cases c)
  case (Login pk device ip)
  then show ?thesis using issue_agree [OF good ag, of None] by (simp add: truthy_text_def)
next
  case (Refresh q)
  then show ?thesis
    using rotate_agree [OF good ag] ag
    by (auto simp: postRefresh_def split_beta split: option.split sum.split)
next
  case (Revoke q)
  then show ?thesis
    using revoke_agree [OF ag] session_agree [OF ag] ag
    by (auto simp: postRevoke_def split_beta split: option.split bool.split)
next
  case (Logout q)
  then show ?thesis
    using revoke_agree(2) [OF ag] ag find_agree [OF ag]
    by (auto simp: postLogout_def getRefreshTokenData_def revokeTokenFamily_def Let_def split: option.split)
next
  case (Sessions pk)
  then show ?thesis using sessions_agree [OF ag] ag by simp
qed

lemma run_agree:
  "good_tokens te \<Longrightarrow> agree te a b \<Longrightarrow> fst (auth_run te False cs b) = fst (auth_run te True cs a)
    \<and> agree te (snd (auth_run te True cs a)) (snd (auth_run te False cs b))"
proof (induction cs arbitrary: a b)
  case (Cons x cs)
  obtain now c where x: "x = (now, c)" by (cases x)
  note e = exec_agree [OF Cons.prems, of now c]
  from Cons.IH [OF Cons.prems(1) conjunct2 [OF e]] e show ?case by (simp add: x split_beta Let_def)
qed simp

lemma no_tokens_agree: "agree te no_tokens no_tokens"
  by (simp add: agree_def rows_ok_def mirrors_def keyed_def no_tokens_def)

section \<open>Replay\<close>

text \<open>No request clears the mark of a revoked token.\<close>

definition still_revoked :: "string \<Rightarrow> string \<Rightarrow> token_store \<Rightarrow> bool" where
  "still_revoked h pk st \<longleftrightarrow> (\<exists>i r. (i, r) \<in> set (tk_rows st) \<and> rt_hash r = h \<and> rt_revoked r \<and> rt_owner r = pk)"

lemma still_update:
  assumes "still_revoked h pk st" and "keeps_core f"
  shows "still_revoked h pk (snd (update_rows True P f st))"
proof -
  obtain i r where r: "(i, r) \<in> set (tk_rows st)" "rt_hash r = h" "rt_revoked r" "rt_owner r = pk"
    using assms(1) by (auto simp: still_revoked_def)
  let ?r = "if P i r then f r else r"
  have "(i, ?r) \<in> set (tk_rows (snd (update_rows True P f st)))"
    using r(1) by (force simp: update_rows_def tb_update_def)
  moreover have "rt_hash ?r = h" "rt_revoked ?r" "rt_owner ?r = pk"
    using r assms(2) by (auto simp: keeps_core_def)
  ultimately show ?thesis unfolding still_revoked_def by blast
qed

lemma still_issue:
  assumes "good_tokens te" and "rows_ok te st" and "still_revoked h pk st"
  shows "still_revoked h pk (snd (issueTokens te True now owner device ip family st))"
  using assms(3) by (auto simp: issue_db [OF assms(1,2)] still_revoked_def)

lemma still_exec:
  assumes good: "good_tokens te" and ok: "rows_ok te st" and still: "still_revoked h pk st"
  shows "still_revoked h pk (snd (exec_auth te True now c st))"
proof -
  have upd: "still_revoked h pk (snd (update_rows True P (revoked_row now by1) st))" for P by1
    by (rule still_update [OF still keeps_core_revoked(1)])
  have finish: "still_revoked h pk (snd (rotate_finish te True now x d a st))" for x d a
    unfolding rotate_finish_def split_beta
    by (intro still_issue [OF good] update_ok [OF ok] still_update [OF still] keeps_core_revoked(2))
  have check: "still_revoked h pk (snd (rotate_check te True now t st))" for t
    using upd still by (simp add: rotate_check_def split: option.split)
  have rotate: "still_revoked h pk (snd (rotateRefreshToken te True now t d a st))" for t d a
  proof (cases "fst (rotate_check te True now t st)")
    case None
    then show ?thesis using check [of t] by (simp add: rotateRefreshToken_def split_beta)
  next
    case (Some x)
    then have "snd (rotate_check te True now t st) = st"
      by (auto simp: rotate_check_def split: option.splits if_splits)
    then show ?thesis using finish Some by (simp add: rotateRefreshToken_def split_beta)
  qed
  show ?thesis
  proof (cases c)
    case (Login pk device ip)
    then show ?thesis using still_issue [OF good ok still] by simp
  next
    case (Refresh q)
    then show ?thesis using rotate still by (auto simp: postRefresh_def split_beta split: option.split sum.split)
  next
    case (Revoke q)
    then show ?thesis using upd still
      by (auto simp: postRevoke_def revokeSessionById_def revokeToken_def revokeAllUserTokens_def split_beta
          split: option.split bool.split)
  next
    case (Logout q)
    then show ?thesis using upd still
      by (auto simp: postLogout_def revokeTokenFamily_def revokeAllUserTokens_def Let_def split: option.split)
  qed (simp add: still)
qed

lemma run_still:
  assumes "good_tokens te"
  shows "agree te a b \<Longrightarrow> still_revoked h pk a \<Longrightarrow> still_revoked h pk (snd (auth_run te True cs a))"
proof (induction cs arbitrary: a b)
  case (Cons x cs)
  obtain now c where x: "x = (now, c)" by (cases x)
  have e: "agree te (snd (exec_auth te True now c a)) (snd (exec_auth te False now c b))"
    using exec_agree [OF assms Cons.prems(1)] by blast
  have "still_revoked h pk (snd (exec_auth te True now c a))"
    using still_exec [OF assms _ Cons.prems(2)] Cons.prems(1) by (simp add: agree_def)
  from Cons.IH [OF e this] show ?case by (simp add: x split_beta Let_def)
qed simp

lemma find_still:
  assumes ok: "rows_ok te st" and "still_revoked h pk st"
  shows "\<exists>i r. find_token True h st = Some (i, r) \<and> rt_revoked r \<and> rt_owner r = pk"
proof -
  obtain i r where r: "(i, r) \<in> set (tk_rows st)" "rt_hash r = h" "rt_revoked r" "rt_owner r = pk"
    using assms(2) by (auto simp: still_revoked_def)
  have "tb_select (\<lambda>_ r. rt_hash r = h) (tk_rows st) \<noteq> []"
    using r by (auto simp: tb_select_def filter_empty_conv)
  then obtain j x where f: "find_token True h st = Some (j, x)"
    by (cases "tb_select (\<lambda>_ r. rt_hash r = h) (tk_rows st)") (auto simp: find_token_def)
  have "(j, x) \<in> set (tk_rows st)" "rt_hash x = h" using find_row [OF f] by auto
  then have "(j, x) = (i, r)"
    using same_row [OF ok r(1)] r(1,2) ok by (metis eq_key_imp_eq_value rows_ok_def tb_wf_def)
  then show ?thesis using f r by auto
qed

text \<open>After a replay the account has no session, in either store; the others keep theirs.\<close>

lemma replay_closes:
  assumes ag: "agree te a b" and still: "still_revoked (te_hash te t) pk a" and t: "t \<noteq> []" and pk: "pk \<noteq> []"
  shows "fst (rotateRefreshToken te True now t d ip a) = Inr None"
    and "getActiveSessions True later pk (snd (rotateRefreshToken te True now t d ip a)) = []"
    and "other \<noteq> pk \<Longrightarrow> getActiveSessions True later other (snd (rotateRefreshToken te True now t d ip a))
      = getActiveSessions True later other a"
proof -
  obtain i r where r: "find_token True (te_hash te t) a = Some (i, r)" "rt_revoked r" "rt_owner r = pk"
    using find_still [of te a "te_hash te t" pk] still ag by (auto simp: agree_def)
  let ?u = "snd (update_rows True (\<lambda>_ x. rt_owner x = pk) (revoked_row now ''reuse'') a)"
  have eq: "rotateRefreshToken te True now t d ip a = (Inr None, ?u)"
    using r t by (simp add: rotateRefreshToken_def rotate_check_def)
  have rows: "all_rows True ?u = map (\<lambda>(i, x). (i, if rt_owner x = pk then revoked_row now ''reuse'' x else x)) (tk_rows a)"
    by (simp add: all_rows_def update_rows_def tb_update_def)
  show "fst (rotateRefreshToken te True now t d ip a) = Inr None" by (simp add: eq)
  have "filter (\<lambda>(i, r). active later pk r) (all_rows True ?u) = []"
    unfolding rows by (auto simp: filter_empty_conv active_def revoked_row_def split: if_splits)
  then show "getActiveSessions True later pk (snd (rotateRefreshToken te True now t d ip a)) = []"
    by (simp add: eq getActiveSessions_def)
  assume other: "other \<noteq> pk"
  have same: "active later other (if rt_owner x = pk then revoked_row now ''reuse'' x else x) = active later other x" for x
    using other by (cases "rt_owner x = pk") (auto simp: active_def revoked_row_def)
  have diff: "active later other x \<Longrightarrow> rt_owner x \<noteq> pk" for x using other by (simp add: active_def)
  have flt: "filter (\<lambda>(i, r). active later other r) (map (\<lambda>(i, x). (i, if rt_owner x = pk then revoked_row now ''reuse'' x else x)) rs)
      = filter (\<lambda>(i, r). active later other r) rs" for rs
    by (induction rs) (auto simp: same dest: diff)
  then show "getActiveSessions True later other (snd (rotateRefreshToken te True now t d ip a))
      = getActiveSessions True later other a"
    by (simp only: eq snd_conv getActiveSessions_def rows flt) (simp add: all_rows_def)
qed

text \<open>A rotation leaves the token it consumed revoked.\<close>

lemma rotated_revoked:
  assumes good: "good_tokens te" and ag: "agree te a b"
    and rot: "fst (rotateRefreshToken te True now t d ip a) = Inr (Some p)"
  shows "t \<noteq> [] \<and> (\<exists>pk. still_revoked (te_hash te t) pk (snd (rotateRefreshToken te True now t d ip a))
    \<and> (\<exists>i r. find_token True (te_hash te t) a = Some (i, r) \<and> rt_owner r = pk))"
proof -
  obtain x where c: "rotate_check te True now t a = (Some x, a)"
    using rot by (auto simp: rotateRefreshToken_def rotate_check_def split: option.splits if_splits)
  obtain i r where x: "x = (i, r)" by (cases x)
  have f: "find_token True (te_hash te t) a = Some (i, r)" and t: "t \<noteq> []"
    using c x by (auto simp: rotate_check_def split: option.splits if_splits)
  have row: "(i, r) \<in> set (tk_rows a)" "rt_hash r = te_hash te t" using find_row [OF f] by auto
  let ?f = "\<lambda>x. (revoked_row now ''rotation'' x)\<lparr>rt_used := Some now\<rparr>"
  let ?u = "snd (update_rows True (\<lambda>k x. k = i) ?f a)"
  have ok: "rows_ok te ?u" using update_ok [OF _ keeps_core_revoked(2)] ag by (simp add: agree_def)
  have "(i, ?f r) \<in> set (tk_rows ?u)" using row(1) by (force simp: update_rows_def tb_update_def)
  then have "still_revoked (te_hash te t) (rt_owner r) ?u"
    using row(2) unfolding still_revoked_def by (force simp: revoked_row_def)
  then have "still_revoked (te_hash te t) (rt_owner r) (snd (rotateRefreshToken te True now t d ip a))"
    using still_issue [OF good ok] by (simp add: rotateRefreshToken_def c x rotate_finish_def)
  then show ?thesis using f t by blast
qed

section \<open>Claims\<close>

text \<open>A digest, two generators and a decoder that any text passes.\<close>

definition demo_tokens :: token_env where
  "demo_tokens = \<lparr>te_hash = (\<lambda>t. t), te_random = (\<lambda>n. replicate (Suc n) CHR ''r''),
     te_uuid = (\<lambda>n. replicate (Suc n) CHR ''u''), te_sign = (\<lambda>pk j n. pk @ j), te_decode = Some,
     te_access_ttl = Some ''5m'', te_refresh_ttl = None\<rparr>"

definition asks :: "string option \<Rightarrow> auth_request" where
  "asks t = \<lparr>aq_bearer = None, aq_all = False, aq_session = None, aq_refresh = t, aq_cookie = None,
     aq_agent = None, aq_ip = None\<rparr>"

lemma inj_replicate: "inj (\<lambda>n. replicate (Suc n) c)"
proof (rule injI)
  fix m n assume "replicate (Suc m) c = replicate (Suc n) c"
  then have "length (replicate (Suc m) c) = length (replicate (Suc n) c)" by (simp only:)
  then show "m = n" by simp
qed

lemma demo_good: "good_tokens demo_tokens"
  using inj_replicate [of "CHR ''r''"] inj_replicate [of "CHR ''u''"]
  by (simp add: good_tokens_def demo_tokens_def del: replicate_Suc)

text \<open>C17. The fallback in memory is equivalent to the table: with distinct digests and ids, every
  sequence of logins, refreshes, revocations, logouts and listings is answered alike by both, and
  leaves the same tokens.\<close>

theorem token_stores_agree:
  assumes "good_tokens te"
  shows "fst (auth_run te False cs no_tokens) = fst (auth_run te True cs no_tokens)
    \<and> all_rows False (snd (auth_run te False cs no_tokens)) = all_rows True (snd (auth_run te True cs no_tokens))"
  using run_agree [OF assms no_tokens_agree, of cs] by (simp add: agree_def mirrors_def all_rows_def)

theorem token_stores_agree_witness:
  "fst (auth_run demo_tokens False [(1, Login ''A'' None None), (2, Refresh (asks (Some ''r'')))] no_tokens)
     = fst (auth_run demo_tokens True [(1, Login ''A'' None None), (2, Refresh (asks (Some ''r'')))] no_tokens)"
  using token_stores_agree [OF demo_good] by blast

lemma run_stores:
  assumes "good_tokens te"
  shows "\<exists>a b. agree te a b \<and> snd (auth_run te db cs no_tokens) = (if db then a else b)
    \<and> a = snd (auth_run te True cs no_tokens) \<and> b = snd (auth_run te False cs no_tokens)"
  using run_agree [OF assms no_tokens_agree, of cs] by auto

text \<open>C18. While requests are handled one after the other, a token family has at most one token that
  is not revoked, in the table as in memory.\<close>

theorem one_live_token_per_family:
  assumes "good_tokens te"
    and "(i, r) \<in> set (all_rows db (snd (auth_run te db cs no_tokens)))"
    and "(j, x) \<in> set (all_rows db (snd (auth_run te db cs no_tokens)))"
    and "rt_family x = rt_family r" and "\<not> rt_revoked r" and "\<not> rt_revoked x"
  shows "(j, x) = (i, r)"
proof -
  let ?a = "snd (auth_run te True cs no_tokens)"
  have rows: "all_rows db (snd (auth_run te db cs no_tokens)) = tk_rows ?a"
    using run_agree [OF assms(1) no_tokens_agree, of cs]
    by (cases db) (simp_all add: all_rows_def agree_def mirrors_def)
  have ok: "rows_ok te ?a" using run_agree [OF assms(1) no_tokens_agree, of cs] by (simp add: agree_def)
  have in_a: "(i, r) \<in> set (tk_rows ?a)" "(j, x) \<in> set (tk_rows ?a)" using assms(2,3) by (simp_all only: rows)
  have "i = j" by (rule rows_okD(4) [OF ok in_a assms(4) [symmetric] assms(5,6)])
  moreover have "distinct (map fst (tk_rows ?a))" using ok by (simp add: rows_ok_def tb_wf_def)
  ultimately show ?thesis using eq_key_imp_eq_value [of "tk_rows ?a" i r x] in_a by simp
qed

lemma live_witness_rows:
  "(2, new_refresh demo_tokens 2 ''A'' ''rr'' ''u'' None None) \<in> set (all_rows True (snd (auth_run demo_tokens True
     [(1, Login ''A'' None None), (2, Refresh (asks (Some ''r'')))] no_tokens)))"
  by code_simp

theorem one_live_token_per_family_witness:
  "(2, new_refresh demo_tokens 2 ''A'' ''rr'' ''u'' None None) = (2, new_refresh demo_tokens 2 ''A'' ''rr'' ''u'' None None)"
  using one_live_token_per_family [OF demo_good live_witness_rows live_witness_rows]
  by (simp add: new_refresh_def)

lemma postRefresh_token:
  "presented_token q = Some t \<Longrightarrow> postRefresh te db now q st =
     (case rotateRefreshToken te db now t (aq_agent q) (aq_ip q) st of
        (Inl e, st1) \<Rightarrow> (Failed, st1) | (Inr None, st1) \<Rightarrow> (Refused, st1) | (Inr (Some p), st1) \<Rightarrow> (Refreshed p, st1))"
  by (simp add: postRefresh_def)

lemma refreshed_iff:
  "presented_token q = Some t \<Longrightarrow> fst (postRefresh te db now q st) = Refreshed p \<longleftrightarrow>
     fst (rotateRefreshToken te db now t (aq_agent q) (aq_ip q) st) = Inr (Some p)"
  by (auto simp: postRefresh_token split_beta split: sum.split option.split)

lemma snd_postRefresh:
  "presented_token q = Some t \<Longrightarrow>
     snd (postRefresh te db now q st) = snd (rotateRefreshToken te db now t (aq_agent q) (aq_ip q) st)"
  by (simp add: postRefresh_token split_beta split: sum.split option.split)

lemma reuse_db:
  fixes cs now
  assumes good: "good_tokens te" and ag: "agree te a b"
    and q: "presented_token q = Some t" "presented_token q' = Some t"
    and first: "fst (postRefresh te True now q a) = Refreshed p"
    and owner: "find_token True (te_hash te t) a = Some (i, r)" "rt_owner r \<noteq> []"
  defines "c \<equiv> snd (auth_run te True cs (snd (postRefresh te True now q a)))"
    and "d \<equiv> snd (auth_run te False cs (snd (postRefresh te False now q b)))"
  shows "fst (postRefresh te True n q' c) = Refused"
    and "getActiveSessions True later (rt_owner r) (snd (postRefresh te True n q' c)) = []"
    and "agree te c d" and "agree te (snd (postRefresh te True n q' c)) (snd (postRefresh te False n q' d))"
    and "fst (postRefresh te False n q' d) = Refused"
proof -
  have rot: "fst (rotateRefreshToken te True now t (aq_agent q) (aq_ip q) a) = Inr (Some p)"
    using first refreshed_iff [OF q(1)] by blast
  have e: "agree te (snd (postRefresh te True now q a)) (snd (postRefresh te False now q b))"
    using exec_agree [OF good ag, of now "Refresh q"] by simp
  have t: "t \<noteq> []" and still: "still_revoked (te_hash te t) (rt_owner r) (snd (postRefresh te True now q a))"
    using rotated_revoked [OF good ag rot] owner(1) unfolding snd_postRefresh [OF q(1)] by auto
  show cd: "agree te c d" unfolding c_def d_def using run_agree [OF good e] by blast
  have "still_revoked (te_hash te t) (rt_owner r) c" unfolding c_def by (rule run_still [OF good e still])
  note close = replay_closes [OF cd this t owner(2)]
  show "fst (postRefresh te True n q' c) = Refused"
    using close(1) by (simp add: postRefresh_token [OF q(2)] split_beta)
  show "getActiveSessions True later (rt_owner r) (snd (postRefresh te True n q' c)) = []"
    unfolding snd_postRefresh [OF q(2)] by (rule close(2))
  show "agree te (snd (postRefresh te True n q' c)) (snd (postRefresh te False n q' d))"
    using exec_agree [OF good cd, of n "Refresh q'"] by simp
  show "fst (postRefresh te False n q' d) = Refused"
    using close(1) rotate_agree(1) [OF good cd, of n t] by (simp add: postRefresh_token [OF q(2)] split_beta)
qed

text \<open>C16. Replay detection: a refresh token that was exchanged once is refused for good; presenting
  it again, after any requests in between, leaves its account without an active session, in either
  store.\<close>

theorem reused_token_closes_sessions:
  assumes good: "good_tokens te" and q: "presented_token q = Some t" "presented_token q' = Some t"
    and first: "postRefresh te db now q (snd (auth_run te db before no_tokens)) = (Refreshed p, st)"
    and owner: "find_token db (te_hash te t) (snd (auth_run te db before no_tokens)) = Some (i, r)" "rt_owner r \<noteq> []"
  shows "fst (postRefresh te db n q' (snd (auth_run te db between st))) = Refused
    \<and> getActiveSessions db later (rt_owner r) (snd (postRefresh te db n q' (snd (auth_run te db between st)))) = []"
proof -
  let ?a = "snd (auth_run te True before no_tokens)" let ?b = "snd (auth_run te False before no_tokens)"
  have ag: "agree te ?a ?b" using run_agree [OF good no_tokens_agree] by blast
  have eq: "fst (postRefresh te False now q ?b) = fst (postRefresh te True now q ?a)"
    using exec_agree [OF good ag, of now "Refresh q"] by simp
  have find: "find_token True (te_hash te t) ?a = Some (i, r)"
    using owner(1) find_agree [OF ag] by (cases db) simp_all
  have ok: "fst (postRefresh te True now q ?a) = Refreshed p" using first eq by (cases db) simp_all
  note r = reuse_db [OF good ag q ok find owner(2), where cs = between]
  show ?thesis
  proof (cases db)
    case True
    then show ?thesis using r first by simp
  next
    case False
    then have st: "st = snd (postRefresh te False now q ?b)" using first by simp
    show ?thesis using r(2,5) sessions_agree [OF r(4)] False by (simp add: st)
  qed
qed

theorem reused_token_closes_sessions_witness:
  "getActiveSessions False 9 ''A'' (snd (postRefresh demo_tokens False 5 (asks (Some ''r''))
     (snd (auth_run demo_tokens False [(4, Login ''A'' None None)]
       (snd (postRefresh demo_tokens False 2 (asks (Some ''r''))
         (snd (auth_run demo_tokens False [(1, Login ''A'' None None)] no_tokens)))))))) = []"
proof -
  have p: "presented_token (asks (Some ''r'')) = Some ''r''" by (simp add: presented_token_def asks_def truthy_text_def)
  let ?s = "snd (auth_run demo_tokens False [(1, Login ''A'' None None)] no_tokens)"
  have f: "find_token False (te_hash demo_tokens ''r'') ?s = Some (1, new_refresh demo_tokens 1 ''A'' ''r'' ''u'' None None)"
    by code_simp
  have "fst (postRefresh demo_tokens False 2 (asks (Some ''r'')) ?s) =
      Refreshed \<lparr>tp_access = ''Auuuu'', tp_refresh = ''rr'', tp_expires = 300\<rparr>" by code_simp
  then have r: "postRefresh demo_tokens False 2 (asks (Some ''r'')) ?s =
      (Refreshed \<lparr>tp_access = ''Auuuu'', tp_refresh = ''rr'', tp_expires = 300\<rparr>,
       snd (postRefresh demo_tokens False 2 (asks (Some ''r'')) ?s))" by (simp add: prod_eq_iff)
  show ?thesis
    using reused_token_closes_sessions [OF demo_good p p r f, of 5 "[(4, Login ''A'' None None)]" 9]
    by (simp add: new_refresh_def)
qed

text \<open>Two rotations of one token that overlap both succeed: if both requests have read the
  record before either writes, each gets a pair, and the family then has two live tokens, which no
  replay check has seen.\<close>

lemma concurrent_rotations_fork_family:
  assumes good: "good_tokens te" and ttl: "0 < getRefreshTokenTTLSeconds te"
    and read: "rotate_check te True now t (snd (auth_run te True cs no_tokens)) = (Some (i, r), st)"
  shows "\<exists>p1 st1 p2 st2. rotate_finish te True now (i, r) d1 ip1 st = (Inr p1, st1)
    \<and> rotate_finish te True now (i, r) d2 ip2 st1 = (Inr p2, st2) \<and> tp_refresh p1 = te_random te (tk_drawn st)
    \<and> tp_refresh p2 = te_random te (Suc (tk_drawn st))
    \<and> 2 \<le> length (filter (\<lambda>(j, x). rt_family x = rt_family r \<and> active now (rt_owner r) x) (tk_rows st2))"
proof -
  let ?f = "\<lambda>x. (revoked_row now ''rotation'' x)\<lparr>rt_used := Some now\<rparr>"
  have st: "st = snd (auth_run te True cs no_tokens)"
    using read by (auto simp: rotate_check_def split: option.splits if_splits)
  have ag: "agree te st (snd (auth_run te False cs no_tokens))"
    unfolding st using run_agree [OF good no_tokens_agree] by blast
  have row: "(i, r) \<in> set (tk_rows st)" and live: "\<not> rt_revoked r"
    using check_agree(3) [OF ag] read st by (metis fst_conv snd_conv)+
  have ok: "rows_ok te st" using ag by (simp add: agree_def)
  have fam: "truthy_text (Some (rt_family r)) = Some (rt_family r)"
  proof -
    have "rt_family r \<noteq> []" using rows_okD(3) [OF ok row] good unfolding good_tokens_def by (metis imageE)
    then show ?thesis by (simp add: truthy_text_def)
  qed
  define u1 where "u1 = snd (update_rows True (\<lambda>k x. k = i) ?f st)"
  define s1 where "s1 = snd (rotate_finish te True now (i, r) d1 ip1 st)"
  define u2 where "u2 = snd (update_rows True (\<lambda>k x. k = i) ?f s1)"
  define s2 where "s2 = snd (rotate_finish te True now (i, r) d2 ip2 s1)"
  have ok1: "rows_ok te u1" unfolding u1_def by (rule update_ok [OF ok keeps_core_revoked(2)])
  have oks1: "rows_ok te s1"
    using finish_agree(2) [OF good ag row live] by (simp add: s1_def agree_def)
  have ok2: "rows_ok te u2" unfolding u2_def by (rule update_ok [OF oks1 keeps_core_revoked(2)])
  define dd where "dd d = (case truthy_text d of None \<Rightarrow> rt_device r | Some d \<Rightarrow> Some d)" for d
  define ii where "ii ip = (case truthy_text ip of None \<Rightarrow> rt_ip r | Some d \<Rightarrow> Some d)" for ip
  let ?r1 = "issued_row te now (rt_owner r) (dd d1) (ii ip1) (Some (rt_family r)) u1"
  let ?r2 = "issued_row te now (rt_owner r) (dd d2) (ii ip2) (Some (rt_family r)) u2"
  have e1: "rotate_finish te True now (i, r) d1 ip1 st = (Inr (issued_pair te (rt_owner r) u1), s1)"
    "s1 = u1\<lparr>tk_rows := tk_rows u1 @ [(tk_next u1, ?r1)], tk_next := Suc (tk_next u1), tk_drawn := Suc (tk_drawn u1)\<rparr>"
    using issue_db [OF good ok1] by (simp_all add: s1_def rotate_finish_def u1_def dd_def ii_def)
  have e2: "rotate_finish te True now (i, r) d2 ip2 s1 = (Inr (issued_pair te (rt_owner r) u2), s2)"
    "s2 = u2\<lparr>tk_rows := tk_rows u2 @ [(tk_next u2, ?r2)], tk_next := Suc (tk_next u2), tk_drawn := Suc (tk_drawn u2)\<rparr>"
    using issue_db [OF good ok2] by (simp_all add: s2_def rotate_finish_def u2_def dd_def ii_def)
  have "i < tk_next u1" using rows_okD(1) [OF ok row] by (simp add: u1_def update_rows_def split_beta)
  then have "(tk_next u1, ?r1) \<in> set (tk_rows u2)"
    by (force simp: u2_def update_rows_def tb_update_def e1(2))
  then obtain as bs where split: "tk_rows u2 = as @ (tk_next u1, ?r1) # bs" by (meson split_list)
  have drawn: "tk_drawn u1 = tk_drawn st" "tk_drawn u2 = Suc (tk_drawn st)"
    by (simp_all add: u1_def u2_def e1(2) update_rows_def split_beta)
  have "rt_family ?r1 = rt_family r \<and> active now (rt_owner r) ?r1" "rt_family ?r2 = rt_family r \<and> active now (rt_owner r) ?r2"
    using ttl by (simp_all add: issued_row_def new_refresh_def fam active_def)
  then have "2 \<le> length (filter (\<lambda>(j, x). rt_family x = rt_family r \<and> active now (rt_owner r) x) (tk_rows s2))"
    by (simp add: e2(2) split)
  then show ?thesis using e1(1) e2(1) by (auto simp: issued_pair_def drawn)
qed

theorem concurrent_rotations_fork_family_example:
  "\<exists>p1 st1 p2 st2. rotate_finish demo_tokens True 2 (1, new_refresh demo_tokens 1 ''A'' ''r'' ''u'' None None) None None
       (snd (auth_run demo_tokens True [(1, Login ''A'' None None)] no_tokens)) = (Inr p1, st1)
    \<and> rotate_finish demo_tokens True 2 (1, new_refresh demo_tokens 1 ''A'' ''r'' ''u'' None None) None None st1 = (Inr p2, st2)
    \<and> tp_refresh p1 \<noteq> tp_refresh p2"
proof -
  let ?s = "snd (auth_run demo_tokens True [(1, Login ''A'' None None)] no_tokens)"
  have "fst (rotate_check demo_tokens True 2 ''r'' ?s) = Some (1, new_refresh demo_tokens 1 ''A'' ''r'' ''u'' None None)"
    "tk_drawn (snd (rotate_check demo_tokens True 2 ''r'' ?s)) = 1" by code_simp+
  moreover from this(1) have "snd (rotate_check demo_tokens True 2 ''r'' ?s) = ?s"
    by (auto simp: rotate_check_def split: option.splits if_splits)
  ultimately have read: "rotate_check demo_tokens True 2 ''r'' ?s =
      (Some (1, new_refresh demo_tokens 1 ''A'' ''r'' ''u'' None None), ?s)" and drawn: "tk_drawn ?s = 1"
    by (simp_all add: prod_eq_iff)
  have ttl: "0 < getRefreshTokenTTLSeconds demo_tokens" by code_simp
  show ?thesis
    using concurrent_rotations_fork_family [OF demo_good ttl read, of None None None None]
    by (force simp: drawn demo_tokens_def)
qed

lemma revoke_all_closes:
  assumes "pk \<noteq> []"
  shows "getActiveSessions db later pk (snd (revokeAllUserTokens db now pk by1 st)) = []"
proof -
  let ?f = "\<lambda>(i, r). (i, if rt_owner r = pk \<and> \<not> rt_revoked r then revoked_row now by1 r else r)"
  have rows: "all_rows db (snd (revokeAllUserTokens db now pk by1 st)) = map ?f (all_rows db st)"
    using assms by (simp add: all_rows_def revokeAllUserTokens_def update_rows_def tb_update_def split_beta)
  have flt: "filter (\<lambda>(i, r). active later pk r) (map ?f rs) = []" for rs
    by (auto simp: filter_empty_conv active_def revoked_row_def split: if_splits)
  show ?thesis unfolding getActiveSessions_def rows flt by simp
qed

text \<open>C25. Neither \<open>/revoke\<close> nor \<open>/logout\<close> checks the signature of the bearer token: whatever text
  decodes to an account's name closes every session of that account.\<close>

theorem unverified_bearer_closes_sessions:
  assumes "aq_bearer q = Some b" and "te_decode te b = Some pk" and "pk \<noteq> []"
    and "aq_all q" and "presented_token q = None"
  shows "fst (postRevoke te db now q st) = AllRevoked
    \<and> getActiveSessions db later pk (snd (postRevoke te db now q st)) = []
    \<and> getActiveSessions db later pk (snd (postLogout te db now q st)) = []"
proof -
  have "claimed_account te q = Some pk" using assms(1-3) by (simp add: claimed_account_def truthy_text_def)
  then show ?thesis
    using assms revoke_all_closes by (simp add: postRevoke_def postLogout_def revokeTokenFamily_def)
qed

definition forged :: auth_request where
  "forged = (asks None)\<lparr>aq_bearer := Some ''A'', aq_all := True\<rparr>"

lemma forged_reads:
  "aq_bearer forged = Some ''A''" "te_decode demo_tokens ''A'' = Some ''A''" "''A'' \<noteq> []" "aq_all forged"
  "presented_token forged = None"
  by (simp_all add: forged_def asks_def presented_token_def truthy_text_def demo_tokens_def)

theorem unverified_bearer_closes_sessions_witness:
  "fst (postRevoke demo_tokens True 3 forged no_tokens) = AllRevoked
    \<and> getActiveSessions True 5 ''A'' (snd (postRevoke demo_tokens True 3 forged no_tokens)) = []
    \<and> getActiveSessions True 5 ''A'' (snd (postLogout demo_tokens True 3 forged no_tokens)) = []"
  by (rule unverified_bearer_closes_sessions [OF forged_reads])

lemma parse_durations:
  "parseDurationToSeconds (Some ''900'') 0 = 900" "parseDurationToSeconds (Some ''1 y'') 7 = 7"
  "parseDurationToSeconds None 7 = 7"
  by code_simp+

lemma duration_with_unit:
  "duration_number ''1.5 '' = Some (3 / 2)" "math_round (3 / 2 * 3600) = 5400"
proof -
  show "duration_number ''1.5 '' = Some (3 / 2)"
    by (simp add: duration_number_def is_space_def is_digit_def Let_def)
  show "math_round (3 / 2 * 3600) = 5400"
    unfolding math_round_def by (rule floor_unique) simp_all
qed

end
