(* ===== verification/JsNet.thy ===== *)
theory JsNet
  imports JsText
begin

text \<open>
  What \<open>fetch\<close> answers, and the arithmetic the fee code does on numbers read from JSON.
\<close>

record http_response =
  resp_ok :: bool
  resp_status :: int
  resp_statusText :: string
  resp_json :: "jsval option"  \<comment> \<open>\<open>None\<close>: the body is no JSON\<close>

datatype fetch_result = FetchThrows string | Responded http_response

text \<open>
  \<open>Number(v)\<close>; an object or array converts through its own \<open>toString\<close>, the argument.
\<close>

fun number_of :: "(jsval \<Rightarrow> jsnum) \<Rightarrow> jsval \<Rightarrow> jsnum" where
  "number_of prim JUndefined = JsNaN"
| "number_of prim JNull = Fin 0"
| "number_of prim (JBool b) = Fin (if b then 1 else 0)"
| "number_of prim (JNumber n) = n"
| "number_of prim (JString s) = toNumber s"
| "number_of prim v = prim v"

text \<open>The operator \<open>a || b\<close>.\<close>

definition or_else :: "jsval \<Rightarrow> jsval \<Rightarrow> jsval" where
  "or_else a b = (if truthy a then a else b)"

definition num_max :: "jsnum \<Rightarrow> jsnum \<Rightarrow> jsnum" where
  "num_max x y = (if x = JsNaN \<or> y = JsNaN then JsNaN else max x y)"

text \<open>The product with a positive integer.\<close>

fun num_times :: "jsnum \<Rightarrow> nat \<Rightarrow> jsnum" where
  "num_times (Fin a) n = Fin (a * of_nat n)"
| "num_times x n = x"

lemma num_max_Fin [simp]: "num_max (Fin a) (Fin b) = Fin (max a b)"
  by (auto simp: num_max_def max_def)

end
