(* ===== verification/OrderBook.thy ===== *)
theory OrderBook
  imports JsResult JsNet
begin

text \<open>
  \<open>backend/src/services/sep/orderBookService.js\<close>: asset identifiers, the cached order book and the
  walk over its levels that prices a sale, with slippage and price impact. Every
  arithmetic operation rounds to a double; the rounding is an argument of the definitions, and the
  bounds on the price of a sale are those of exact arithmetic (\<open>Fin\<close> in its place), which rounding
  breaks by small amounts: a sale into one bid may have an average price just below that bid's.
\<close>

section \<open>Arithmetic on prices\<close>

definition num_sign :: "jsnum \<Rightarrow> int" where
  "num_sign x = (if num_less (Fin 0) x then 1 else if num_less x (Fin 0) then - 1 else 0)"

definition signed_inf :: "int \<Rightarrow> jsnum" where
  "signed_inf s = (if s > 0 then PosInf else if s < 0 then NegInf else JsNaN)"

fun num_mult :: "jsnum \<Rightarrow> jsnum \<Rightarrow> jsnum" where
  "num_mult (Fin a) (Fin b) = Fin (a * b)"
| "num_mult JsNaN y = JsNaN"
| "num_mult x JsNaN = JsNaN"
| "num_mult x y = signed_inf (num_sign x * num_sign y)"

text \<open>Division; the sign of a zero divisor is taken as positive.\<close>

fun num_div :: "jsnum \<Rightarrow> jsnum \<Rightarrow> jsnum" where
  "num_div (Fin a) (Fin b) = (if b = 0 then signed_inf (num_sign (Fin a)) else Fin (a / b))"
| "num_div JsNaN y = JsNaN"
| "num_div x JsNaN = JsNaN"
| "num_div (Fin a) y = Fin 0"
| "num_div x (Fin b) = signed_inf (num_sign x * (if b < 0 then - 1 else 1))"
| "num_div x y = JsNaN"

definition num_min :: "jsnum \<Rightarrow> jsnum \<Rightarrow> jsnum" where
  "num_min x y = (if x = JsNaN \<or> y = JsNaN then JsNaN else min x y)"

definition num_le :: "jsnum \<Rightarrow> jsnum \<Rightarrow> bool" where
  "num_le x y \<longleftrightarrow> num_less x y \<or> (x = y \<and> x \<noteq> JsNaN)"

section \<open>Assets\<close>

definition upper_char :: "char \<Rightarrow> char" where
  "upper_char c = (let n = of_char c :: nat in if 97 \<le> n \<and> n \<le> 122 then char_of (n - 32) else c)"

datatype asset = Native | Issued string string

definition getCode :: "asset \<Rightarrow> string" where
  "getCode a = (case a of Native \<Rightarrow> ''XLM'' | Issued c i \<Rightarrow> c)"

text \<open>
  The argument \<open>valid\<close> is the check of the SDK's constructor, \<open>usdc\<close> the configured issuer. An
  asset object passes through.
\<close>

definition new_asset :: "(string \<Rightarrow> string \<Rightarrow> bool) \<Rightarrow> string \<Rightarrow> string \<Rightarrow> thrown + asset" where
  "new_asset valid c i = (if valid c i then Inr (Issued c i) else Inl (plain_error ''Asset is invalid''))"

datatype asset_input = NoInput | AssetObject asset | AssetText string

definition parseAsset :: "(string \<Rightarrow> string \<Rightarrow> bool) \<Rightarrow> string \<Rightarrow> asset_input \<Rightarrow> thrown + asset" where
  "parseAsset valid usdc inp =
     (case inp of
        NoInput \<Rightarrow> Inl (http_error 400 ''sell_asset and buy_asset are required'')
      | AssetObject a \<Rightarrow> Inr a
      | AssetText [] \<Rightarrow> Inl (http_error 400 ''sell_asset and buy_asset are required'')
      | AssetText t \<Rightarrow>
          let s = trim t; u = map upper_char s; parts = split_char CHR '':'' s in
          if s = ''stellar:native'' \<or> s = ''native'' \<or> u = ''XLM'' \<or> u = ''STELLAR:XLM'' then Inr Native
          else if starts_with s ''stellar:'' \<and> length parts = 3 then new_asset valid (parts ! 1) (parts ! 2)
          else if str_includes s '':'' \<and> length parts = 2 then new_asset valid (parts ! 0) (parts ! 1)
          else if u = ''USDC'' then new_asset valid ''USDC'' usdc
          else Inl (http_error 400 (''Unsupported or invalid asset identifier: '' @ s)))"

definition formatAssetString :: "asset \<Rightarrow> string" where
  "formatAssetString a = (case a of Native \<Rightarrow> ''native'' | Issued c i \<Rightarrow> c @ '':'' @ i)"

section \<open>The order book\<close>

record level =
  lv_price :: string
  lv_amount :: string

record order_book =
  ob_bids :: "level list"
  ob_asks :: "level list"

definition ORDERBOOK_CACHE_TTL_SEC :: nat where "ORDERBOOK_CACHE_TTL_SEC = 2"
definition DEFAULT_DEPTH :: nat where "DEFAULT_DEPTH = 20"

text \<open>
  The cache service answers a value, nothing or an error, and may refuse a write; Horizon answers a
  book, whose missing sides are empty, or throws. The result is the book and what is written to the
  cache, with its time to live.
\<close>

record book_env =
  be_cached :: "string \<Rightarrow> thrown + order_book option"
  be_write_fails :: "string \<Rightarrow> bool"
  be_server :: bool
  be_horizon :: "asset \<Rightarrow> asset \<Rightarrow> nat \<Rightarrow> thrown + (level list option \<times> level list option)"
  be_valid :: "string \<Rightarrow> string \<Rightarrow> bool"
  be_usdc :: string

definition orderbook_key :: "asset \<Rightarrow> asset \<Rightarrow> nat \<Rightarrow> string" where
  "orderbook_key s b depth =
     ''orderbook:'' @ formatAssetString s @ '':'' @ formatAssetString b @ '':'' @ show_nat depth"

definition or_empty :: "level list option \<Rightarrow> level list" where
  "or_empty ls = (case ls of None \<Rightarrow> [] | Some l \<Rightarrow> l)"

definition getOrderBook ::
  "book_env \<Rightarrow> asset_input \<Rightarrow> asset_input \<Rightarrow> nat \<Rightarrow> thrown + order_book \<times> (string \<times> order_book \<times> nat) option" where
  "getOrderBook be sellAsset buyAsset depth =
     bnd (parseAsset (be_valid be) (be_usdc be) sellAsset) (\<lambda>selling.
     bnd (parseAsset (be_valid be) (be_usdc be) buyAsset) (\<lambda>buying.
       let key = orderbook_key selling buying depth in
       case be_cached be key of
         Inr (Some book) \<Rightarrow> Inr (book, None)
       | _ \<Rightarrow>
           bnd (ensure (be_server be) (plain_error ''Horizon server orderbook client is not available'')) (\<lambda>_.
           bnd (be_horizon be selling buying depth) (\<lambda>(bids, asks).
             let book = \<lparr>ob_bids = or_empty bids, ob_asks = or_empty asks\<rparr>
             in Inr (book, if be_write_fails be key then None else Some (key, book, ORDERBOOK_CACHE_TTL_SEC))))))"

section \<open>Pricing a sale\<close>

record fill =
  fi_remaining :: jsnum
  fi_sold :: jsnum
  fi_bought :: jsnum
  fi_levels :: nat
  fi_marginal :: jsnum

definition EPSILON :: rat where "EPSILON = 1 / 1000000000"

text \<open>\<open>rnd\<close> takes the exact result of an operation to the nearest double, or to an infinity.\<close>

definition rounded :: "(rat \<Rightarrow> jsnum) \<Rightarrow> jsnum \<Rightarrow> jsnum" where
  "rounded rnd x = (case x of Fin q \<Rightarrow> rnd q | _ \<Rightarrow> x)"

fun walk_levels :: "(rat \<Rightarrow> jsnum) \<Rightarrow> level list \<Rightarrow> fill \<Rightarrow> fill" where
  "walk_levels rnd [] f = f"
| "walk_levels rnd (l # ls) f =
     (if num_le (fi_remaining f) (rounded rnd (Fin EPSILON)) then f
      else
        let price = rounded rnd (parseFloat (lv_price l)); amount = rounded rnd (parseFloat (lv_amount l)) in
        if price = JsNaN \<or> amount = JsNaN \<or> num_le price (Fin 0) \<or> num_le amount (Fin 0)
        then walk_levels rnd ls f
        else
          let sell = num_min (fi_remaining f) amount; buy = rounded rnd (num_mult sell price) in
          walk_levels rnd ls \<lparr>fi_remaining = rounded rnd (num_sub (fi_remaining f) sell),
            fi_sold = rounded rnd (num_add (fi_sold f) sell), fi_bought = rounded rnd (num_add (fi_bought f) buy),
            fi_levels = Suc (fi_levels f), fi_marginal = price\<rparr>)"

record priced =
  pr_sold :: jsnum
  pr_bought :: jsnum
  pr_weighted :: jsnum
  pr_top :: jsnum
  pr_marginal :: jsnum
  pr_levels :: nat
  pr_full :: bool
  pr_remaining :: jsnum

definition calculateWeightedPrice :: "(rat \<Rightarrow> jsnum) \<Rightarrow> level list \<Rightarrow> jsnum \<Rightarrow> thrown + priced" where
  "calculateWeightedPrice rnd orders required =
     bnd (ensure (num_less (Fin 0) required) (http_error 400 ''sell_amount must be a positive number'')) (\<lambda>_.
       let f = walk_levels rnd orders \<lparr>fi_remaining = required, fi_sold = Fin 0, fi_bought = Fin 0, fi_levels = 0,
                 fi_marginal = Fin 0\<rparr>
       in Inr \<lparr>pr_sold = fi_sold f, pr_bought = fi_bought f,
            pr_weighted = (if num_less (Fin 0) (fi_sold f) then rounded rnd (num_div (fi_bought f) (fi_sold f)) else Fin 0),
            pr_top = (case orders of [] \<Rightarrow> Fin 0 | l # _ \<Rightarrow> rounded rnd (parseFloat (lv_price l))),
            pr_marginal = fi_marginal f, pr_levels = fi_levels f,
            pr_full = num_le (fi_remaining f) (rounded rnd (Fin EPSILON)),
            pr_remaining = num_max (Fin 0) (fi_remaining f)\<rparr>)"

text \<open>How far a price lies below the best one, in percent.\<close>

definition below_top :: "(rat \<Rightarrow> jsnum) \<Rightarrow> jsnum \<Rightarrow> jsnum \<Rightarrow> jsnum" where
  "below_top rnd best p =
     (if num_less (Fin 0) best \<and> num_less (Fin 0) p \<and> num_less p best
      then rounded rnd (num_mult (rounded rnd (num_div (rounded rnd (num_sub best p)) best)) (Fin 100)) else Fin 0)"

record slippage =
  sl_slippage :: string
  sl_impact :: string
  sl_top :: string
  sl_weighted :: string
  sl_priced :: priced

definition estimateSlippage :: "(rat \<Rightarrow> jsnum) \<Rightarrow> level list \<Rightarrow> jsnum \<Rightarrow> thrown + slippage" where
  "estimateSlippage rnd orders required =
     bnd (calculateWeightedPrice rnd orders required) (\<lambda>r.
       Inr \<lparr>sl_slippage = toFixed 2 (below_top rnd (pr_top r) (pr_weighted r)),
            sl_impact = toFixed 2 (below_top rnd (pr_top r) (pr_marginal r)),
            sl_top = toFixed 4 (pr_top r), sl_weighted = toFixed 4 (pr_weighted r), sl_priced = r\<rparr>)"

section \<open>What a sale costs, in exact arithmetic\<close>

definition level_values :: "level \<Rightarrow> rat \<times> rat" where
  "level_values l = (case (parseFloat (lv_price l), parseFloat (lv_amount l)) of
     (Fin p, Fin a) \<Rightarrow> (p, a) | _ \<Rightarrow> (0, 0))"

abbreviation level_price :: "level \<Rightarrow> rat" where
  "level_price l \<equiv> fst (level_values l)"

abbreviation level_amount :: "level \<Rightarrow> rat" where
  "level_amount l \<equiv> snd (level_values l)"

text \<open>A level as Horizon lists it: a positive price and a positive amount.\<close>

definition sound_level :: "level \<Rightarrow> bool" where
  "sound_level l \<longleftrightarrow> 0 < level_price l \<and> 0 < level_amount l"

text \<open>Bids come with the best price first.\<close>

definition best_first :: "level list \<Rightarrow> bool" where
  "best_first ls \<longleftrightarrow> list_all sound_level ls \<and> sorted_wrt (\<lambda>l m. level_price m \<le> level_price l) ls"

abbreviation filled :: "rat \<Rightarrow> rat \<Rightarrow> rat \<Rightarrow> nat \<Rightarrow> rat \<Rightarrow> fill" where
  "filled rem sold bought n m \<equiv> \<lparr>fi_remaining = Fin rem, fi_sold = Fin sold, fi_bought = Fin bought,
     fi_levels = n, fi_marginal = Fin m\<rparr>"

lemma sound_parse:
  assumes "sound_level l"
  shows "parseFloat (lv_price l) = Fin (level_price l)" "parseFloat (lv_amount l) = Fin (level_amount l)"
  using assms by (auto simp: sound_level_def level_values_def split: jsnum.splits)

lemma rounded_Fin [simp]: "rounded Fin x = x"
  by (cases x) (simp_all add: rounded_def)

lemma num_Fin_simps [simp]:
  "num_le (Fin a) (Fin b) \<longleftrightarrow> a \<le> b" "num_min (Fin a) (Fin b) = Fin (min a b)"
  by (auto simp: num_le_def num_min_def min_def)

lemma walk_step:
  assumes "sound_level l" and "EPSILON < rem"
  shows "walk_levels Fin (l # ls) (filled rem sold bought n m) =
    walk_levels Fin ls (filled (rem - min rem (level_amount l)) (sold + min rem (level_amount l))
      (bought + min rem (level_amount l) * level_price l) (Suc n) (level_price l))"
  using assms by (simp add: sound_parse) (simp add: sound_level_def)

lemma walk_spec:
  assumes "best_first ls" and "\<forall>l \<in> set ls. level_price l \<le> best" and "\<forall>l \<in> set ls. sold = 0 \<or> level_price l \<le> m"
    and "0 \<le> rem" "0 \<le> sold" "m * sold \<le> bought" "bought \<le> best * sold" "m \<le> best" "sold = 0 \<or> 0 < m"
  shows "\<exists>rem' sold' bought' n' m'. walk_levels Fin ls (filled rem sold bought n m) = filled rem' sold' bought' n' m'
    \<and> 0 \<le> rem' \<and> sold \<le> sold' \<and> sold' + rem' = sold + rem \<and> m' * sold' \<le> bought' \<and> bought' \<le> best * sold'
    \<and> m' \<le> best \<and> (sold' = 0 \<or> 0 < m') \<and> sold' \<le> sold + sum_list (map level_amount ls)
    \<and> (rem' \<le> EPSILON \<or> sold' = sold + sum_list (map level_amount ls))
    \<and> (ls = [] \<or> rem \<le> EPSILON \<or> sold < sold')"
  using assms
proof (induction ls arbitrary: rem sold bought n m)
  case (Cons l ls)
  have sound: "sound_level l" "\<forall>k \<in> set ls. sound_level k" and tail: "best_first ls"
    and below: "\<forall>k \<in> set ls. level_price k \<le> level_price l"
    using Cons.prems(1) by (auto simp: best_first_def list_all_iff)
  have amounts: "0 \<le> sum_list (map level_amount ls)"
    using sound(2) by (intro sum_list_nonneg) (auto simp: sound_level_def less_imp_le)
  have pos: "0 < level_price l" "0 < level_amount l" using sound(1) by (simp_all add: sound_level_def)
  show ?case
  proof (cases "rem \<le> EPSILON")
    case True
    then show ?thesis using Cons.prems pos amounts by (auto simp: add_nonneg_nonneg less_imp_le)
  next
    case False
    define s where "s = min rem (level_amount l)"
    have s: "0 < s" "s \<le> rem" "s \<le> level_amount l" "s = rem \<or> s = level_amount l"
      using False pos by (auto simp: s_def EPSILON_def min_def)
    have low: "level_price l * sold \<le> bought"
    proof (cases "sold = 0")
      case False
      then have "level_price l \<le> m" using Cons.prems(3) by simp
      then have "level_price l * sold \<le> m * sold" using Cons.prems(5) by (rule mult_right_mono)
      then show ?thesis using Cons.prems(6) by simp
    qed (use Cons.prems(6) in simp)
    have high: "s * level_price l \<le> best * s"
      using Cons.prems(2) s(1) by (simp add: mult.commute mult_right_mono)
    have "\<exists>rem' sold' bought' n' m'. walk_levels Fin ls (filled (rem - s) (sold + s) (bought + s * level_price l) (Suc n)
        (level_price l)) = filled rem' sold' bought' n' m'
      \<and> 0 \<le> rem' \<and> sold + s \<le> sold' \<and> sold' + rem' = (sold + s) + (rem - s) \<and> m' * sold' \<le> bought'
      \<and> bought' \<le> best * sold' \<and> m' \<le> best \<and> (sold' = 0 \<or> 0 < m')
      \<and> sold' \<le> sold + s + sum_list (map level_amount ls)
      \<and> (rem' \<le> EPSILON \<or> sold' = sold + s + sum_list (map level_amount ls))
      \<and> (ls = [] \<or> rem - s \<le> EPSILON \<or> sold + s < sold')"
    proof (rule Cons.IH [OF tail])
      show "\<forall>k \<in> set ls. level_price k \<le> best" "level_price l \<le> best" using Cons.prems(2) by simp_all
      show "\<forall>k \<in> set ls. sold + s = 0 \<or> level_price k \<le> level_price l" using below by simp
      show "0 \<le> rem - s" "0 \<le> sold + s" "sold + s = 0 \<or> 0 < level_price l"
        using s Cons.prems(5) pos by simp_all
      show "level_price l * (sold + s) \<le> bought + s * level_price l"
        using low by (simp add: algebra_simps)
      show "bought + s * level_price l \<le> best * (sold + s)"
        using high Cons.prems(7) by (simp add: algebra_simps)
    qed
    then obtain rem' sold' bought' n' m' where r:
      "walk_levels Fin ls (filled (rem - s) (sold + s) (bought + s * level_price l) (Suc n) (level_price l))
         = filled rem' sold' bought' n' m'"
      "0 \<le> rem'" "sold + s \<le> sold'" "sold' + rem' = (sold + s) + (rem - s)" "m' * sold' \<le> bought'"
      "bought' \<le> best * sold'" "m' \<le> best" "sold' = 0 \<or> 0 < m'"
      "sold' \<le> sold + s + sum_list (map level_amount ls)"
      "rem' \<le> EPSILON \<or> sold' = sold + s + sum_list (map level_amount ls)" by blast
    have w: "walk_levels Fin (l # ls) (filled rem sold bought n m) = filled rem' sold' bought' n' m'"
      using walk_step [OF sound(1), of rem ls sold bought n m] False r(1) by (simp add: s_def)
    have e: "0 \<le> EPSILON" by (simp add: EPSILON_def)
    have "rem' \<le> EPSILON \<or> sold' = sold + sum_list (map level_amount (l # ls))"
    proof (cases "s = level_amount l")
      case False
      then have "s = rem" using s(4) by blast
      then have "rem' = 0" using r(2,3,4) by linarith
      then show ?thesis using e by simp
    qed (use r(10) in auto)
    moreover have "sold' \<le> sold + sum_list (map level_amount (l # ls))" using r(9) s(3) by simp
    ultimately show ?thesis using w r(2-8) s(1) by (intro exI [of _ rem'] exI [of _ sold'] exI [of _ bought'] exI [of _ n'] exI [of _ m']) simp
  qed
qed simp

text \<open>Percentages below the best price, for positive prices.\<close>

lemma below_top_Fin:
  "0 < t \<Longrightarrow> 0 < p \<Longrightarrow> p \<le> t \<Longrightarrow> below_top Fin (Fin t) (Fin p) = Fin ((t - p) / t * 100)"
  by (auto simp: below_top_def)

text \<open>In exact arithmetic, selling more than the tolerance into bids that come best first: what is sold and what remains add up to the amount
  asked, the sale is full exactly if the bids hold the amount up to the tolerance, the average price
  lies between the last price reached and the best one, and so does the slippage between nothing
  and the price impact.\<close>

lemma weighted_price_bounds:
  assumes book: "best_first orders" "orders \<noteq> []" and amount: "EPSILON < a"
  shows "\<exists>r rem sold w m t. calculateWeightedPrice Fin orders (Fin a) = Inr r
    \<and> pr_remaining r = Fin rem \<and> pr_sold r = Fin sold \<and> 0 \<le> rem \<and> 0 < sold \<and> sold + rem = a
    \<and> (pr_full r \<longleftrightarrow> a - EPSILON \<le> sum_list (map level_amount orders))
    \<and> pr_weighted r = Fin w \<and> pr_marginal r = Fin m \<and> pr_top r = Fin t \<and> 0 < m \<and> m \<le> w \<and> w \<le> t
    \<and> (\<exists>x y. below_top Fin (pr_top r) (pr_weighted r) = Fin x \<and> below_top Fin (pr_top r) (pr_marginal r) = Fin y
        \<and> 0 \<le> x \<and> x \<le> y \<and> y < 100)"
proof -
  obtain l ls where orders: "orders = l # ls" using book(2) by (cases orders) auto
  let ?t = "level_price l"
  have pos: "0 < a" using amount by (simp add: EPSILON_def)
  have sound: "sound_level l" using book(1) by (simp add: orders best_first_def)
  have "\<forall>k \<in> set orders. level_price k \<le> ?t" using book(1) by (auto simp: orders best_first_def)
  moreover have "0 \<le> ?t" using sound by (simp add: sound_level_def)
  ultimately have "\<exists>rem sold bought n m. walk_levels Fin orders (filled a 0 0 0 0) = filled rem sold bought n m
    \<and> 0 \<le> rem \<and> 0 \<le> sold \<and> sold + rem = 0 + a \<and> m * sold \<le> bought \<and> bought \<le> ?t * sold
    \<and> m \<le> ?t \<and> (sold = 0 \<or> 0 < m) \<and> sold \<le> 0 + sum_list (map level_amount orders)
    \<and> (rem \<le> EPSILON \<or> sold = 0 + sum_list (map level_amount orders))
    \<and> (orders = [] \<or> a \<le> EPSILON \<or> 0 < sold)"
    using book(1) pos by (intro walk_spec) simp_all
  then obtain rem sold bought n m where w: "walk_levels Fin orders (filled a 0 0 0 0) = filled rem sold bought n m"
    and rem: "0 \<le> rem" and total: "sold + rem = a" and m: "m * sold \<le> bought" "bought \<le> ?t * sold" "m \<le> ?t" "0 < m"
    and sold: "0 < sold" "sold \<le> sum_list (map level_amount orders)"
    and full: "rem \<le> EPSILON \<or> sold = sum_list (map level_amount orders)"
    using amount book(2) by auto
  let ?w = "bought / sold"
  let ?r = "\<lparr>pr_sold = Fin sold, pr_bought = Fin bought, pr_weighted = Fin ?w, pr_top = Fin ?t,
    pr_marginal = Fin m, pr_levels = n, pr_full = (rem \<le> EPSILON), pr_remaining = Fin rem\<rparr>"
  have calc: "calculateWeightedPrice Fin orders (Fin a) = Inr ?r"
    using pos sold rem sound_parse(1) [OF sound] by (simp add: calculateWeightedPrice_def w) (simp add: orders)
  have bounds: "m \<le> ?w" "?w \<le> ?t" using m(1,2) sold(1) by (simp_all add: pos_le_divide_eq pos_divide_le_eq)
  have t: "0 < ?t" "0 < ?w" using m(3,4) bounds by linarith+
  have x: "below_top Fin (Fin ?t) (Fin ?w) = Fin ((?t - ?w) / ?t * 100)" "below_top Fin (Fin ?t) (Fin m) = Fin ((?t - m) / ?t * 100)"
    using below_top_Fin t bounds m(3,4) by blast+
  have 1: "0 \<le> (?t - ?w) / ?t * 100"
    by (intro mult_nonneg_nonneg divide_nonneg_nonneg) (use t bounds in linarith)+
  have 2: "(?t - ?w) / ?t * 100 \<le> (?t - m) / ?t * 100"
    using t bounds by (intro mult_right_mono divide_right_mono) simp_all
  have 3: "(?t - m) / ?t * 100 < 100" using t m(4) by (simp add: pos_divide_less_eq)
  have 4: "rem \<le> EPSILON \<longleftrightarrow> a - EPSILON \<le> sum_list (map level_amount orders)"
    using full sold(2) total by linarith
  show ?thesis
    by (intro exI conjI, rule calc) (fact | simp only: priced.simps x 4)+
qed

definition demo_bids :: "level list" where
  "demo_bids = [\<lparr>lv_price = ''2'', lv_amount = ''10''\<rparr>, \<lparr>lv_price = ''1'', lv_amount = ''30''\<rparr>]"

lemma demo_bids_values: "map level_values demo_bids = [(2, 10), (1, 30)]"
  by (simp add: demo_bids_def level_values_def parseFloat_def scan_signed_def scan_decimal_def scan_exponent_def
      trim_left_def is_space_def is_digit_def starts_with_def Let_def)

theorem weighted_price_bounds_example:
  "\<exists>r. calculateWeightedPrice Fin demo_bids (Fin 20) = Inr r \<and> pr_full r"
proof -
  obtain b c where d: "demo_bids = [b, c]" "level_values b = (2, 10)" "level_values c = (1, 30)"
    using demo_bids_values by (simp add: demo_bids_def)
  have "best_first demo_bids" "demo_bids \<noteq> []"
    unfolding d(1) by (simp_all add: best_first_def sound_level_def d(2,3))
  from weighted_price_bounds [OF this, of 20] show ?thesis by (auto simp: d EPSILON_def)
qed

section \<open>Identifiers\<close>

text \<open>A code of the SDK's form, and an issuer that is no reserved word.\<close>

definition plain_code :: "string \<Rightarrow> bool" where
  "plain_code c \<longleftrightarrow> c \<noteq> [] \<and> (\<forall>x \<in> set c. \<not> is_space x \<and> x \<noteq> CHR '':'')"

lemma split_two: "CHR '':'' \<notin> set c \<Longrightarrow> CHR '':'' \<notin> set i \<Longrightarrow> split_char CHR '':'' (c @ '':'' @ i) = [c, i]"
proof -
  have one: "CHR '':'' \<notin> set i \<Longrightarrow> split_char CHR '':'' i = [i]" for i
    by (induction i) auto
  assume "CHR '':'' \<notin> set c" "CHR '':'' \<notin> set i"
  then show ?thesis by (induction c) (auto simp: one)
qed

lemma trim_plain:
  assumes "s \<noteq> []" and "\<forall>x \<in> set s. \<not> is_space x"
  shows "trim s = s"
proof -
  have d: "dropWhile is_space t = t" if "\<forall>x \<in> set t. \<not> is_space x" for t
    using that by (cases t) auto
  show ?thesis using d [of s] d [of "rev s"] assms by (simp add: trim_def trim_left_def)
qed

lemma upper_colon: "upper_char c = CHR '':'' \<longleftrightarrow> c = CHR '':''"
proof -
  have "upper_char c \<noteq> CHR '':''" if "97 \<le> (of_char c :: nat)" "of_char c \<le> (122 :: nat)"
  proof
    assume "upper_char c = CHR '':''"
    then have "(of_char (char_of (of_char c - 32 :: nat)) :: nat) = of_char (CHR '':'')"
      using that by (simp add: upper_char_def)
    then show False using that by simp
  qed
  then show ?thesis by (auto simp: upper_char_def Let_def)
qed

lemma upper_no_colon:
  assumes "CHR '':'' \<notin> set c"
  shows "CHR '':'' \<notin> set (map upper_char c)"
proof
  assume "CHR '':'' \<in> set (map upper_char c)"
  then obtain x where "x \<in> set c" "upper_char x = CHR '':''" unfolding set_map image_iff by metis
  then have "x = CHR '':''" by (simp only: upper_colon)
  then show False using assms \<open>x \<in> set c\<close> by simp
qed

lemma parse_text:
  assumes "t \<noteq> []" and "trim t = t"
  shows "parseAsset valid usdc (AssetText t) =
    (let u = map upper_char t; parts = split_char CHR '':'' t in
     if t = ''stellar:native'' \<or> t = ''native'' \<or> u = ''XLM'' \<or> u = ''STELLAR:XLM'' then Inr Native
     else if starts_with t ''stellar:'' \<and> length parts = 3 then new_asset valid (parts ! 1) (parts ! 2)
     else if str_includes t '':'' \<and> length parts = 2 then new_asset valid (parts ! 0) (parts ! 1)
     else if u = ''USDC'' then new_asset valid ''USDC'' usdc
     else Inl (http_error 400 (''Unsupported or invalid asset identifier: '' @ t)))"
  using assms by (cases t) (simp_all add: parseAsset_def Let_def)

lemma parse_pair:
  assumes "t \<noteq> []" "trim t = t" "split_char CHR '':'' t = [c, i]" "valid c i"
    and "t \<noteq> ''stellar:native''" "t \<noteq> ''native''" "map upper_char t \<noteq> ''XLM''" "map upper_char t \<noteq> ''STELLAR:XLM''"
    and "str_includes t '':''"
  shows "parseAsset valid usdc (AssetText t) = Inr (Issued c i)"
  using assms by (simp add: parse_text Let_def new_asset_def)

text \<open>The text of an asset names it: parsing what \<open>formatAssetString\<close> prints gives the asset
  back, for the native asset and for every issued one the SDK accepts whose issuer is no reserved
  word.\<close>

lemma asset_text_roundtrip:
  assumes "a = Native \<or> (\<exists>c i. a = Issued c i \<and> plain_code c \<and> plain_code i \<and> valid c i
    \<and> i \<noteq> ''native'' \<and> map upper_char i \<noteq> ''XLM'')"
  shows "parseAsset valid usdc (AssetText (formatAssetString a)) = Inr a"
proof (cases a)
  case Native
  have "trim ''native'' = ''native''" by (rule trim_plain) (simp_all add: is_space_def)
  then show ?thesis by (simp add: Native parseAsset_def formatAssetString_def Let_def)
next
  case (Issued c i)
  let ?s = "c @ '':'' @ i"
  have c: "plain_code c" "plain_code i" "valid c i" "i \<noteq> ''native''" "map upper_char i \<noteq> ''XLM''"
    using assms by (simp_all add: Issued)
  have trim: "trim ?s = ?s" using c(1,2) by (intro trim_plain) (auto simp: plain_code_def is_space_def)
  have parts: "split_char CHR '':'' ?s = [c, i]" using c(1,2) by (intro split_two) (auto simp: plain_code_def)
  have colon: "?s \<noteq> t" if "CHR '':'' \<notin> set t" for t using that by auto
  have ucolon: "map upper_char ?s \<noteq> t" if "CHR '':'' \<notin> set t" for t
  proof
    assume "map upper_char ?s = t"
    moreover have "CHR '':'' \<in> set (map upper_char ?s)" using upper_colon by (simp add: image_iff) metis
    ultimately show False using that by blast
  qed
  have uparts: "split_char CHR '':'' (map upper_char ?s) = [map upper_char c, map upper_char i]"
  proof -
    have nc: "CHR '':'' \<notin> set c" "CHR '':'' \<notin> set i" using c(1,2) by (auto simp: plain_code_def)
    have "upper_char CHR '':'' = CHR '':''" by (simp only: upper_colon)
    then have "map upper_char ?s = map upper_char c @ '':'' @ map upper_char i" by (simp only: map_append list.map)
    then show ?thesis by (simp only: split_two [OF upper_no_colon [OF nc(1)] upper_no_colon [OF nc(2)]])
  qed
  have n: "split_char CHR '':'' ''stellar:native'' = [''stellar'', ''native'']" by simp
  have 1: "?s \<noteq> ''stellar:native''"
  proof
    assume h: "?s = ''stellar:native''"
    show False using parts c(4) unfolding h n by simp
  qed
  have x: "split_char CHR '':'' ''STELLAR:XLM'' = [''STELLAR'', ''XLM'']" by simp
  have 2: "map upper_char ?s \<noteq> ''STELLAR:XLM''"
  proof
    assume h: "map upper_char ?s = ''STELLAR:XLM''"
    show False using uparts c(5) unfolding h x by simp
  qed
  have 3: "?s \<noteq> ''native''" "map upper_char ?s \<noteq> ''XLM''" by (intro colon ucolon; simp)+
  have 4: "str_includes ?s '':''" unfolding str_includes_iff sublist_def by blast
  show ?thesis
    unfolding Issued formatAssetString_def asset.case
  proof (rule parse_pair)
    show "?s \<noteq> []" by simp
  qed (fact trim parts c(3) 1 3 2 4)+
qed

lemma demo_asset:
  "plain_code ''EUR'' \<and> plain_code ''G1'' \<and> True \<and> ''G1'' \<noteq> ''native'' \<and> map upper_char ''G1'' \<noteq> ''XLM''"
  by (simp add: plain_code_def is_space_def upper_char_def)

theorem asset_text_roundtrip_example:
  "parseAsset (\<lambda>c i. True) ''GU'' (AssetText ''EUR:G1'') = Inr (Issued ''EUR'' ''G1'')"
  using asset_text_roundtrip [of "Issued ''EUR'' ''G1''" "\<lambda>c i. True" "''GU''"] demo_asset
  by (simp add: formatAssetString_def)

text \<open>A book is cached under its pair and depth, and a read that fails counts as a miss.\<close>

lemma orderbook_miss_fetches:
  assumes "be_cached be (orderbook_key s b depth) = Inl e" and "be_server be"
    and "be_horizon be s b depth = Inr (bids, asks)"
  shows "getOrderBook be (AssetObject s) (AssetObject b) depth =
    Inr (\<lparr>ob_bids = or_empty bids, ob_asks = or_empty asks\<rparr>,
      if be_write_fails be (orderbook_key s b depth) then None
      else Some (orderbook_key s b depth, \<lparr>ob_bids = or_empty bids, ob_asks = or_empty asks\<rparr>, ORDERBOOK_CACHE_TTL_SEC))"
  using assms by (simp add: getOrderBook_def parseAsset_def Let_def)

end
