(* ===== verification/Pagination.thy ===== *)
theory Pagination
  imports JsResult JsText
begin

text \<open>
  \<open>backend/src/utils/paginate.js\<close> and \<open>backend/src/middleware/pagination.js\<close>, which the server
  mounts before every route: opaque cursors, the keyset predicate of a query, a page with the cursor
  of the next one, paging of a list in memory, the parameters of a request.

  A row's columns are read by a function \<open>field\<close>; \<open>JSON.stringify\<close> and \<open>JSON.parse\<close> are parameters.
  Chars are the code units below 256; what a cursor decodes to beyond them (bytes that are not the
  UTF-8 of such a text, characters outside the alphabet) is a parameter too.
\<close>

section \<open>base64url and UTF-8\<close>

definition B64_ALPHABET :: string where
  "B64_ALPHABET = ''ABCDEFGHIJKLMNOPQRSTUVWXYZabcdefghijklmnopqrstuvwxyz0123456789-_''"

definition b64_char :: "nat \<Rightarrow> char" where
  "b64_char n = B64_ALPHABET ! n"

definition b64_value :: "char \<Rightarrow> nat option" where
  "b64_value c = map_of (zip B64_ALPHABET [0..<64]) c"

abbreviation byte :: "char \<Rightarrow> nat" where
  "byte c \<equiv> of_char c"

fun b64_encode :: "string \<Rightarrow> string" where
  "b64_encode [] = []"
| "b64_encode [a] = map b64_char [byte a div 4, byte a mod 4 * 16]"
| "b64_encode [a, b] = map b64_char [byte a div 4, byte a mod 4 * 16 + byte b div 16, byte b mod 16 * 4]"
| "b64_encode (a # b # c # r) = map b64_char [byte a div 4, byte a mod 4 * 16 + byte b div 16,
     byte b mod 16 * 4 + byte c div 64, byte c mod 64] @ b64_encode r"

fun b64_groups :: "nat list \<Rightarrow> string" where
  "b64_groups (w # x # y # z # r) = char_of (w * 4 + x div 16) # char_of (x mod 16 * 16 + y div 4)
     # char_of (y mod 4 * 64 + z) # b64_groups r"
| "b64_groups [w, x, y] = [char_of (w * 4 + x div 16), char_of (x mod 16 * 16 + y div 4)]"
| "b64_groups [w, x] = [char_of (w * 4 + x div 16)]"
| "b64_groups _ = []"

text \<open>\<open>None\<close>: a character outside the alphabet.\<close>

definition b64_decode :: "string \<Rightarrow> string option" where
  "b64_decode s = (let vs = map b64_value s in if None \<in> set vs then None else Some (b64_groups (map the vs)))"

text \<open>The UTF-8 bytes of a text whose code units are below 256, and back.\<close>

definition utf8_char :: "char \<Rightarrow> string" where
  "utf8_char c = (if byte c < 128 then [c] else [char_of (192 + byte c div 64), char_of (128 + byte c mod 64)])"

definition utf8_encode :: "string \<Rightarrow> string" where
  "utf8_encode s = concat (map utf8_char s)"

fun utf8_decode :: "string \<Rightarrow> string option" where
  "utf8_decode [] = Some []"
| "utf8_decode (b # bs) =
     (if byte b < 128 then map_option ((#) b) (utf8_decode bs)
      else case bs of
             [] \<Rightarrow> None
           | b' # r \<Rightarrow> if byte b \<in> {194, 195} \<and> 128 \<le> byte b' \<and> byte b' < 192
               then map_option ((#) (char_of ((byte b - 192) * 64 + (byte b' - 128)))) (utf8_decode r)
               else None)"

section \<open>Cursors\<close>

record cursor_env =
  ce_stringify :: "jsval \<Rightarrow> string"
  ce_parse :: "string \<Rightarrow> jsval option"
  ce_parse_bytes :: "string \<Rightarrow> jsval option"
  ce_foreign :: "string \<Rightarrow> jsval option"

definition encodeCursor :: "cursor_env \<Rightarrow> jsval \<Rightarrow> string" where
  "encodeCursor ce v = b64_encode (utf8_encode (ce_stringify ce v))"

definition parse_buffer :: "cursor_env \<Rightarrow> string \<Rightarrow> jsval option" where
  "parse_buffer ce s =
     (case b64_decode s of
        None \<Rightarrow> ce_foreign ce s
      | Some bs \<Rightarrow> (case utf8_decode bs of None \<Rightarrow> ce_parse_bytes ce bs | Some t \<Rightarrow> ce_parse ce t))"

text \<open>\<open>None\<close>: an \<open>InvalidCursorError\<close>.\<close>

definition decodeCursor :: "cursor_env \<Rightarrow> jsval \<Rightarrow> jsval option" where
  "decodeCursor ce c =
     (case c of
        JString s \<Rightarrow>
          if s = [] then None
          else (case parse_buffer ce s of
                  Some (JObject fs) \<Rightarrow> Some (JObject fs)
                | _ \<Rightarrow> None)
      | _ \<Rightarrow> None)"

definition DEFAULT_LIMIT :: nat where "DEFAULT_LIMIT = 20"
definition MAX_LIMIT :: nat where "MAX_LIMIT = 100"

datatype page_request = InvalidLimit | InvalidCursor | PageRequest nat "jsval option"

text \<open>\<open>Number(rawLimit)\<close> of a query text; a repeated parameter is an array, whose number is NaN here.\<close>

definition query_number :: "jsval \<Rightarrow> jsnum" where
  "query_number v = (case v of JString s \<Rightarrow> toNumber s | _ \<Rightarrow> JsNaN)"

definition given :: "jsval \<Rightarrow> bool" where
  "given v \<longleftrightarrow> v \<noteq> JUndefined \<and> v \<noteq> JString []"

definition paginationMiddleware :: "cursor_env \<Rightarrow> jsval \<Rightarrow> jsval \<Rightarrow> page_request" where
  "paginationMiddleware ce rawLimit rawCursor =
     (let limit = (if \<not> given rawLimit then Some DEFAULT_LIMIT
                   else case query_number rawLimit of
                          Fin q \<Rightarrow> if of_int \<lfloor>q\<rfloor> = q \<and> 1 \<le> q then Some (min (nat \<lfloor>q\<rfloor>) MAX_LIMIT) else None
                        | _ \<Rightarrow> None)
      in case limit of
           None \<Rightarrow> InvalidLimit
         | Some n \<Rightarrow>
             if \<not> given rawCursor then PageRequest n None
             else (case decodeCursor ce rawCursor of None \<Rightarrow> InvalidCursor | Some c \<Rightarrow> PageRequest n (Some c)))"

section \<open>Keyset queries\<close>

datatype direction = Asc | Desc

definition cursorKey :: "string \<Rightarrow> string" where
  "cursorKey col = (if CHR ''.'' \<in> set col then last (split_char CHR ''.'' col) else col)"

text \<open>The predicate \<open>(a < :a) OR (a = :a AND b < :b) OR ...\<close> over the columns, by their positions.\<close>

definition keyset_where ::
  "('r \<Rightarrow> string \<Rightarrow> 'v::linorder) \<Rightarrow> (string \<times> direction) list \<Rightarrow> (string \<Rightarrow> 'v option) \<Rightarrow> 'r \<Rightarrow> bool" where
  "keyset_where field cols cur r \<longleftrightarrow>
     list_ex (\<lambda>i. list_all (\<lambda>j. field r (fst (cols ! j)) = the (cur (cursorKey (fst (cols ! j))))) [0..<i]
       \<and> (let v = the (cur (cursorKey (fst (cols ! i)))) in
          case snd (cols ! i) of Asc \<Rightarrow> v < field r (fst (cols ! i)) | Desc \<Rightarrow> field r (fst (cols ! i)) < v))
       [0..<length cols]"

definition applyKnexKeyset ::
  "('r \<Rightarrow> string \<Rightarrow> 'v::linorder) \<Rightarrow> 'r list \<Rightarrow> (string \<Rightarrow> 'v option) option \<Rightarrow> (string \<times> direction) list
     \<Rightarrow> 'r list" where
  "applyKnexKeyset field rows cursor cols =
     (case cursor of
        None \<Rightarrow> rows
      | Some cur \<Rightarrow>
          if list_all (\<lambda>c. cur (cursorKey (fst c)) \<noteq> None) cols then filter (keyset_where field cols cur) rows
          else rows)"

text \<open>A page of the rows fetched with one more than the limit; the cursor is that of its last row.\<close>

definition buildPage :: "'r list \<Rightarrow> nat \<Rightarrow> ('r \<Rightarrow> 'c) \<Rightarrow> 'r list \<times> 'c option" where
  "buildPage rows limit getCursorFields =
     (let hasMore = length rows > limit; data = (if hasMore then take limit rows else rows)
      in (data, if hasMore \<and> data \<noteq> [] then Some (getCursorFields (last data)) else None))"

section \<open>Paging in memory\<close>

text \<open>The fields of a cursor and of a row as \<open>String(...)\<close> gives them, by name.\<close>

type_synonym row_fields = "(string \<times> string) list"

definition field_text :: "row_fields \<Rightarrow> string \<Rightarrow> string" where
  "field_text fs k = (case map_of fs k of None \<Rightarrow> ''undefined'' | Some v \<Rightarrow> v)"

fun find_from :: "nat \<Rightarrow> ('r \<Rightarrow> bool) \<Rightarrow> 'r list \<Rightarrow> nat option" where
  "find_from n p [] = None"
| "find_from n p (r # rs) = (if p r then Some n else find_from (Suc n) p rs)"

definition paginateInMemory ::
  "'r list \<Rightarrow> nat \<Rightarrow> row_fields option \<Rightarrow> ('r \<Rightarrow> row_fields) \<Rightarrow> ('r \<Rightarrow> 'r \<Rightarrow> jsnum)
     \<Rightarrow> 'r list \<times> row_fields option \<times> nat" where
  "paginateInMemory rows limit cursor getCursorFields compare =
     (let sorted = js_sort compare rows;
          start = (case cursor of
             None \<Rightarrow> 0
           | Some cur \<Rightarrow>
               (case find_from 0 (\<lambda>r. list_all (\<lambda>(k, v). field_text (getCursorFields r) k = v) cur) sorted of
                  None \<Rightarrow> 0
                | Some i \<Rightarrow> i + 1));
          data = take limit (drop start sorted);
          hasMore = start + limit < length sorted
      in (data, if hasMore \<and> data \<noteq> [] then Some (getCursorFields (last data)) else None, length rows))"

section \<open>Answers\<close>

definition exposeHeaders :: "string option \<Rightarrow> string list \<Rightarrow> string" where
  "exposeHeaders existing names =
     (let current = (case truthy_text existing of
            None \<Rightarrow> []
          | Some s \<Rightarrow> filter (\<lambda>h. h \<noteq> []) (map trim (split_char CHR '','' s)))
      in join '', '' (rev (remdups (rev (current @ names)))))"

datatype next_cursor = NoCursor | CursorObject jsval | CursorText string

record 'r page_answer =
  pg_data :: "'r list"
  pg_next :: "string option"
  pg_more :: bool
  pg_total :: "nat option"

definition formatPaginatedResponse ::
  "cursor_env \<Rightarrow> 'r list option \<Rightarrow> next_cursor \<Rightarrow> nat option \<Rightarrow> 'r page_answer" where
  "formatPaginatedResponse ce data cursor amount =
     (let items = (case data of None \<Rightarrow> [] | Some d \<Rightarrow> d);
          nxt = (case cursor of
             NoCursor \<Rightarrow> None
           | CursorObject v \<Rightarrow> Some (encodeCursor ce v)
           | CursorText s \<Rightarrow> if trim s \<noteq> [] then Some (trim s) else None)
      in \<lparr>pg_data = items, pg_next = (if items \<noteq> [] then nxt else None),
          pg_more = (items \<noteq> [] \<and> (case nxt of None \<Rightarrow> False | Some s \<Rightarrow> s \<noteq> [])), pg_total = amount\<rparr>)"

section \<open>Texts that return\<close>

lemma b64_value_char: "n < 64 \<Longrightarrow> b64_value (b64_char n) = Some n"
proof -
  have "list_all (\<lambda>n. b64_value (b64_char n) = Some n) [0..<64]" by code_simp
  then show "n < 64 \<Longrightarrow> b64_value (b64_char n) = Some n" by (simp add: list_all_iff)
qed

lemma b64_groups_digits:
  assumes "\<forall>n \<in> set ns. n < 64"
  shows "b64_decode (map b64_char ns) = Some (b64_groups ns)"
proof -
  have "map (\<lambda>n. b64_value (b64_char n)) ns = map Some ns" using assms b64_value_char by simp
  then have "map b64_value (map b64_char ns) = map Some ns" by (simp add: comp_def)
  then show ?thesis unfolding b64_decode_def by (simp only: Let_def) (auto simp: comp_def)
qed

text \<open>The digits of \<open>b64_encode\<close>.\<close>

fun b64_digits :: "string \<Rightarrow> nat list" where
  "b64_digits [] = []"
| "b64_digits [a] = [byte a div 4, byte a mod 4 * 16]"
| "b64_digits [a, b] = [byte a div 4, byte a mod 4 * 16 + byte b div 16, byte b mod 16 * 4]"
| "b64_digits (a # b # c # r) = [byte a div 4, byte a mod 4 * 16 + byte b div 16,
     byte b mod 16 * 4 + byte c div 64, byte c mod 64] @ b64_digits r"

lemma b64_encode_digits: "b64_encode s = map b64_char (b64_digits s)"
  by (induction s rule: b64_digits.induct) simp_all

lemma byte_bound: "byte c < 256"
  by (rule nat_of_char_less_256)

lemma high_low:
  fixes x y m :: nat
  assumes "y < m"
  shows "(x * m + y) div m = x" "(x * m + y) mod m = y"
  using assms by simp_all

lemma b64_digit_bounds:
  fixes a b c :: nat
  assumes "a < 256" "b < 256" "c < 256"
  shows "a div 4 < 64" "a mod 4 * 16 + b div 16 < 64" "b mod 16 * 4 + c div 64 < 64"
    "a mod 4 * 16 < 64" "b mod 16 * 4 < 64"
proof -
  have d: "a div 4 < 64" "b div 16 < 16" "c div 64 < 4" using assms by (simp_all add: less_mult_imp_div_less)
  have m: "a mod 4 < 4" "b mod 16 < 16" by simp_all
  show "a div 4 < 64" by (fact d)
  show "a mod 4 * 16 + b div 16 < 64" "b mod 16 * 4 + c div 64 < 64" "a mod 4 * 16 < 64" "b mod 16 * 4 < 64"
    using d m by linarith+
qed

lemma b64_digits_bound: "n \<in> set (b64_digits s) \<Longrightarrow> n < 64"
  by (induction s rule: b64_digits.induct) (auto intro: b64_digit_bounds byte_bound)

lemma b64_one: "(a::nat) div 4 * 4 + a mod 4 * 16 div 16 = a"
  by simp

lemma b64_high:
  fixes a b :: nat
  assumes "b < 256"
  shows "a div 4 * 4 + (a mod 4 * 16 + b div 16) div 16 = a"
    "(a mod 4 * 16 + b div 16) mod 16 * 16 + b mod 16 * 4 div 4 = b"
  using high_low [of "b div 16" 16 "a mod 4"] assms by (simp_all add: less_mult_imp_div_less)

lemma b64_low:
  fixes a b c :: nat
  assumes "b < 256" "c < 256"
  shows "(a mod 4 * 16 + b div 16) mod 16 * 16 + (b mod 16 * 4 + c div 64) div 4 = b"
    "(b mod 16 * 4 + c div 64) mod 4 * 64 + c mod 64 = c"
  using high_low [of "b div 16" 16 "a mod 4"] high_low [of "c div 64" 4 "b mod 16"] assms
  by (simp_all add: less_mult_imp_div_less)

lemma b64_groups_inverse: "b64_groups (b64_digits s) = s"
  by (induction s rule: b64_digits.induct) (simp_all only: b64_digits.simps append.simps b64_groups.simps
      b64_one b64_high b64_low byte_bound char_of_char)

lemma b64_roundtrip: "b64_decode (b64_encode s) = Some s"
  unfolding b64_encode_digits
  by (subst b64_groups_digits) (simp_all add: b64_digits_bound b64_groups_inverse)

lemma utf8_roundtrip: "utf8_decode (utf8_encode s) = Some s"
proof (induction s)
  case (Cons c s)
  show ?case
  proof (cases "byte c < 128")
    case False
    have "2 \<le> byte c div 64" using False by (simp add: less_eq_div_iff_mult_less_eq)
    moreover have "byte c div 64 < 4" using byte_bound [of c] by (simp add: less_mult_imp_div_less)
    ultimately have b: "byte c div 64 = 2 \<or> byte c div 64 = 3" "byte c mod 64 < 64" by (linarith, simp)
    then have "byte (char_of (192 + byte c div 64)) = 192 + byte c div 64"
      "byte (char_of (128 + byte c mod 64)) = 128 + byte c mod 64" by auto
    moreover have "(byte c div 64) * 64 + byte c mod 64 = byte c" by simp
    ultimately show ?thesis using b Cons by (auto simp: utf8_encode_def utf8_char_def False)
  qed (use Cons in \<open>simp add: utf8_encode_def utf8_char_def\<close>)
qed (simp add: utf8_encode_def)

text \<open>A cursor survives the trip to the client and back: decoding what \<open>encodeCursor\<close> printed
  gives the fields, for every object that \<open>JSON.parse\<close> reads back from its \<open>JSON.stringify\<close> text.\<close>

lemma cursor_roundtrip:
  assumes "ce_parse ce (ce_stringify ce (JObject fs)) = Some (JObject fs)"
    and "ce_stringify ce (JObject fs) \<noteq> []"
  shows "decodeCursor ce (JString (encodeCursor ce (JObject fs))) = Some (JObject fs)"
proof -
  obtain c t where t: "ce_stringify ce (JObject fs) = c # t" using assms(2) by (cases "ce_stringify ce (JObject fs)") auto
  have "utf8_encode (c # t) \<noteq> []" by (simp add: utf8_encode_def utf8_char_def)
  then have "b64_encode (utf8_encode (ce_stringify ce (JObject fs))) \<noteq> []"
    unfolding t by (cases "utf8_encode (c # t)" rule: b64_encode.cases) simp_all
  then show ?thesis
    using assms(1) by (simp add: decodeCursor_def encodeCursor_def parse_buffer_def b64_roundtrip utf8_roundtrip)
qed

definition demo_cursor_env :: cursor_env where
  "demo_cursor_env = \<lparr>ce_stringify = (\<lambda>v. ''{}''), ce_parse = (\<lambda>s. Some (JObject [])),
     ce_parse_bytes = (\<lambda>s. None), ce_foreign = (\<lambda>s. None)\<rparr>"

theorem cursor_roundtrip_example:
  "decodeCursor demo_cursor_env (JString (encodeCursor demo_cursor_env (JObject []))) = Some (JObject [])"
  by (rule cursor_roundtrip) (simp_all add: demo_cursor_env_def)

section \<open>The keyset predicate\<close>

fun lex_after :: "(direction \<times> 'v::linorder \<times> 'v) list \<Rightarrow> bool" where
  "lex_after [] = False"
| "lex_after ((d, v, x) # zs) =
     ((case d of Asc \<Rightarrow> v < x | Desc \<Rightarrow> x < v) \<or> (x = v \<and> lex_after zs))"

definition beyond :: "direction \<times> 'v::linorder \<times> 'v \<Rightarrow> bool" where
  "beyond z = (case fst z of Asc \<Rightarrow> fst (snd z) < snd (snd z) | Desc \<Rightarrow> snd (snd z) < fst (snd z))"

lemma beyond_triple [simp]: "beyond (d, v, x) \<longleftrightarrow> (case d of Asc \<Rightarrow> v < x | Desc \<Rightarrow> x < v)"
  by (cases d) (simp_all add: beyond_def)

lemma lex_after_cons: "lex_after (z # zs) \<longleftrightarrow> beyond z \<or> (snd (snd z) = fst (snd z) \<and> lex_after zs)"
  by (cases z) simp

lemma lex_after_index:
  "lex_after zs \<longleftrightarrow> (\<exists>i < length zs. (\<forall>j < i. snd (snd (zs ! j)) = fst (snd (zs ! j))) \<and> beyond (zs ! i))"
  by (induction zs) (simp, auto simp: lex_after_cons Ex_less_Suc2 All_less_Suc2)

text \<open>The predicate is the lexicographic comparison of the row with the cursor.\<close>

definition compared ::
  "('r \<Rightarrow> string \<Rightarrow> 'v) \<Rightarrow> (string \<Rightarrow> 'v option) \<Rightarrow> 'r \<Rightarrow> string \<times> direction \<Rightarrow> direction \<times> 'v \<times> 'v" where
  "compared field cur r c = (snd c, the (cur (cursorKey (fst c))), field r (fst c))"

lemma keyset_lexicographic:
  "keyset_where field cols cur r \<longleftrightarrow> lex_after (map (compared field cur r) cols)"
proof -
  have "(\<forall>j\<in>{0..<i}. P j) \<longleftrightarrow> (\<forall>j<i. P j)" for i :: nat and P by auto
  moreover have "(\<exists>i\<in>{0..<n}. P i) \<longleftrightarrow> (\<exists>i<n. P i)" for n :: nat and P by auto
  moreover have "(\<forall>j<i. P (map f cols ! j)) \<longleftrightarrow> (\<forall>j<i. P (f (cols ! j)))" if "i < length cols" for i P and f :: "_ \<Rightarrow> direction \<times> 'b \<times> 'b"
    using that by auto
  ultimately show ?thesis
    unfolding keyset_where_def lex_after_index list_ex_iff list_all_iff Let_def set_upt
    by (simp add: compared_def cong: conj_cong)
qed

lemma lex_after_asym:
  "lex_after (map (\<lambda>z. (f z, g z, h z)) zs) \<Longrightarrow> \<not> lex_after (map (\<lambda>z. (f z, h z, g z)) zs)"
  by (induction zs) (auto split: direction.splits)

lemma lex_after_irrefl: "\<not> lex_after (map (\<lambda>z. (f z, g z, g z)) zs)"
  by (induction zs) (auto split: direction.split)

text \<open>The cursor of a row, and a row that comes after another in the order of the columns.\<close>

definition cursor_of ::
  "('r \<Rightarrow> string \<Rightarrow> 'v) \<Rightarrow> (string \<times> direction) list \<Rightarrow> 'r \<Rightarrow> string \<Rightarrow> 'v option" where
  "cursor_of field cols r = map_of (map (\<lambda>c. (cursorKey (fst c), field r (fst c))) cols)"

definition comes_after ::
  "('r \<Rightarrow> string \<Rightarrow> 'v::linorder) \<Rightarrow> (string \<times> direction) list \<Rightarrow> 'r \<Rightarrow> 'r \<Rightarrow> bool" where
  "comes_after field cols r s \<longleftrightarrow> lex_after (map (\<lambda>c. (snd c, field r (fst c), field s (fst c))) cols)"

definition good_columns :: "(string \<times> direction) list \<Rightarrow> bool" where
  "good_columns cols \<longleftrightarrow> distinct (map (\<lambda>c. cursorKey (fst c)) cols)"

lemma cursor_of_column:
  assumes "good_columns cols" and "c \<in> set cols"
  shows "cursor_of field cols r (cursorKey (fst c)) = Some (field r (fst c))"
proof -
  have "distinct (map fst (map (\<lambda>c. (cursorKey (fst c), field r (fst c))) cols))"
    using assms(1) by (simp add: good_columns_def comp_def)
  then show ?thesis unfolding cursor_of_def using assms(2) by (intro map_of_is_SomeI) force+
qed

lemma keyset_after:
  assumes "good_columns cols"
  shows "keyset_where field cols (cursor_of field cols r) s \<longleftrightarrow> comes_after field cols r s"
proof -
  have "map (compared field (cursor_of field cols r) s) cols = map (\<lambda>c. (snd c, field r (fst c), field s (fst c))) cols"
    by (intro map_cong refl) (simp add: compared_def cursor_of_column [OF assms])
  then show ?thesis unfolding keyset_lexicographic comes_after_def by (rule arg_cong)
qed

lemma comes_after_asym: "comes_after field cols r s \<Longrightarrow> \<not> comes_after field cols s r"
  unfolding comes_after_def by (rule lex_after_asym)

lemma comes_after_irrefl: "\<not> comes_after field cols r r"
  unfolding comes_after_def by (rule lex_after_irrefl)

text \<open>Seeking past a row of the query gives the rows behind it.\<close>

lemma seek_row:
  assumes cols: "good_columns cols" and sorted: "sorted_wrt (comes_after field cols) (xs @ r # ys)"
  shows "applyKnexKeyset field (xs @ r # ys) (Some (cursor_of field cols r)) cols = ys"
proof -
  have all: "list_all (\<lambda>c. cursor_of field cols r (cursorKey (fst c)) \<noteq> None) cols"
    by (simp add: list_all_iff cursor_of_column [OF cols])
  have "\<not> comes_after field cols r x" if "x \<in> set xs" for x
    using sorted that comes_after_asym [of field cols x r] by (auto simp: sorted_wrt_append)
  moreover have "comes_after field cols r y" if "y \<in> set ys" for y
    using sorted that by (simp add: sorted_wrt_append)
  ultimately show ?thesis
    unfolding applyKnexKeyset_def option.case if_P [OF all] keyset_after [OF cols] by (simp add: comes_after_irrefl)
qed

section \<open>Following the cursors\<close>

text \<open>A service's page: the query's rows past the cursor, one more than the limit, cut by \<open>buildPage\<close>.\<close>

definition keyset_page ::
  "('r \<Rightarrow> string \<Rightarrow> 'v::linorder) \<Rightarrow> (string \<times> direction) list \<Rightarrow> 'r list \<Rightarrow> nat
     \<Rightarrow> (string \<Rightarrow> 'v option) option \<Rightarrow> 'r list \<times> (string \<Rightarrow> 'v option) option" where
  "keyset_page field cols rows limit cursor =
     buildPage (take (limit + 1) (applyKnexKeyset field rows cursor cols)) limit (cursor_of field cols)"

text \<open>A client that asks for page after page, at most \<open>n\<close> of them.\<close>

fun follow_pages :: "nat \<Rightarrow> ('c option \<Rightarrow> 'r list \<times> 'c option) \<Rightarrow> 'c option \<Rightarrow> 'r list list" where
  "follow_pages 0 page cursor = []"
| "follow_pages (Suc n) page cursor =
     (case page cursor of
        (data, None) \<Rightarrow> [data]
      | (data, Some c) \<Rightarrow> data # follow_pages n page (Some c))"

text \<open>
  What both ways of paging promise: a cursor made from a row seeks to the rows behind it, and a page
  is the first \<open>limit\<close> rows past the cursor, with the cursor of its last row when more are left.
\<close>

text \<open>Pages cut out of some rows: all but the last are full, and none is empty unless there are no rows.\<close>

definition full_pages :: "nat \<Rightarrow> 'r list \<Rightarrow> 'r list list \<Rightarrow> bool" where
  "full_pages limit rows pages \<longleftrightarrow> concat pages = rows \<and> pages \<noteq> []
     \<and> (\<forall>p \<in> set (butlast pages). length p = limit) \<and> length (last pages) \<le> limit
     \<and> (rows \<noteq> [] \<longrightarrow> [] \<notin> set pages)"

lemma full_pages_Cons:
  assumes "full_pages limit (drop limit rows) pages" and "0 < limit" and "limit < length rows"
  shows "full_pages limit rows (take limit rows # pages)"
  using assms by (auto simp: full_pages_def)

locale paging =
  fixes ok :: "'r list \<Rightarrow> bool"
    and seek :: "'r list \<Rightarrow> 'c option \<Rightarrow> 'r list"
    and cursor :: "'r \<Rightarrow> 'c"
    and page :: "'r list \<Rightarrow> nat \<Rightarrow> 'c option \<Rightarrow> 'r list \<times> 'c option"
  assumes seek_start: "ok rows \<Longrightarrow> seek rows None = rows"
    and seek_row: "ok (xs @ r # ys) \<Longrightarrow> seek (xs @ r # ys) (Some (cursor r)) = ys"
    and page_seek: "ok rows \<Longrightarrow> 0 < limit \<Longrightarrow> page rows limit c =
      (take limit (seek rows c),
       if limit < length (seek rows c) then Some (cursor (last (take limit (seek rows c)))) else None)"
begin

lemma follow_rest:
  assumes "ok rows" and "0 < limit"
  shows "rows = xs @ rest \<Longrightarrow> seek rows c = rest \<Longrightarrow> length rest < n \<Longrightarrow>
    full_pages limit rest (follow_pages n (page rows limit) c)"
proof (induction n arbitrary: xs rest c)
  case (Suc n)
  show ?case
  proof (cases "limit < length rest")
    case False
    then have "page rows limit c = (rest, None)" using page_seek [OF assms, of c] Suc.prems(2) by simp
    then show ?thesis using False by (auto simp: full_pages_def)
  next
    case True
    let ?data = "take limit rest" let ?r = "last ?data"
    have ne: "?data \<noteq> []" using True assms(2) by auto
    have "?data = butlast ?data @ [?r]" using append_butlast_last_id [OF ne] by (rule sym)
    moreover have "rows = xs @ ?data @ drop limit rest" using Suc.prems(1) by simp
    ultimately have split: "rows = (xs @ butlast ?data) @ ?r # drop limit rest"
      by (metis append.assoc append_Cons append_Nil)
    have seek: "seek rows (Some (cursor ?r)) = drop limit rest"
      using seek_row [of "xs @ butlast ?data" ?r "drop limit rest"] assms(1) split by simp
    have "rows = ((xs @ butlast ?data) @ [?r]) @ drop limit rest" using split by simp
    from Suc.IH [OF this seek]
    have "full_pages limit (drop limit rest) (follow_pages n (page rows limit) (Some (cursor ?r)))"
      using Suc.prems(3) True assms(2) by simp
    from full_pages_Cons [OF this assms(2) True] show ?thesis
      using page_seek [OF assms, of c] Suc.prems(2) True by simp
  qed
qed simp

lemma follow_all:
  assumes "ok rows" and "0 < limit" and "length rows < n"
  shows "full_pages limit rows (follow_pages n (page rows limit) None)"
  by (rule follow_rest [OF assms(1,2), where xs = "[]"]) (simp_all add: seek_start assms)

end

lemma keyset_page_seek:
  assumes "0 < limit"
  shows "keyset_page field cols rows limit c =
    (take limit (applyKnexKeyset field rows c cols),
     if limit < length (applyKnexKeyset field rows c cols)
     then Some (cursor_of field cols (last (take limit (applyKnexKeyset field rows c cols)))) else None)"
proof -
  have "take limit (take (limit + 1) xs) = take limit xs" for xs :: "'a list" by (simp add: min_def)
  then show ?thesis using assms by (auto simp: keyset_page_def buildPage_def Let_def not_less)
qed

interpretation keyset: paging "\<lambda>rows. good_columns cols \<and> sorted_wrt (comes_after field cols) rows"
  "\<lambda>rows c. applyKnexKeyset field rows c cols" "cursor_of field cols" "keyset_page field cols"
  for field :: "'r \<Rightarrow> string \<Rightarrow> 'v::linorder" and cols
proof
  show "applyKnexKeyset field rows None cols = rows" for rows by (simp add: applyKnexKeyset_def)
qed (simp_all only: seek_row keyset_page_seek simp_thms)

text \<open>The same of the rows sorted in memory, where a cursor must tell the rows apart.\<close>

definition matches :: "('r \<Rightarrow> row_fields) \<Rightarrow> row_fields \<Rightarrow> 'r \<Rightarrow> bool" where
  "matches getCursorFields cur r \<longleftrightarrow> list_all (\<lambda>(k, v). field_text (getCursorFields r) k = v) cur"

definition memory_seek ::
  "('r \<Rightarrow> row_fields) \<Rightarrow> 'r list \<Rightarrow> row_fields option \<Rightarrow> 'r list" where
  "memory_seek getCursorFields rows cursor =
     (case cursor of
        None \<Rightarrow> rows
      | Some cur \<Rightarrow> (case find_from 0 (matches getCursorFields cur) rows of
          None \<Rightarrow> rows | Some i \<Rightarrow> drop (i + 1) rows))"

definition memory_page ::
  "('r \<Rightarrow> row_fields) \<Rightarrow> ('r \<Rightarrow> 'r \<Rightarrow> jsnum) \<Rightarrow> 'r list \<Rightarrow> nat \<Rightarrow> row_fields option
     \<Rightarrow> 'r list \<times> row_fields option" where
  "memory_page getCursorFields compare rows limit cursor =
     (case paginateInMemory rows limit cursor getCursorFields compare of (data, nxt, _) \<Rightarrow> (data, nxt))"

definition memory_ok :: "('r \<Rightarrow> row_fields) \<Rightarrow> ('r \<Rightarrow> 'r \<Rightarrow> jsnum) \<Rightarrow> 'r list \<Rightarrow> bool" where
  "memory_ok getCursorFields compare rows \<longleftrightarrow> js_sort compare rows = rows \<and> distinct rows
     \<and> (\<forall>r \<in> set rows. \<forall>s \<in> set rows. matches getCursorFields (getCursorFields r) s \<longleftrightarrow> s = r)"

lemma find_from_shift: "find_from n p xs = map_option ((+) n) (find_from 0 p xs)"
proof (induction xs arbitrary: n)
  case (Cons x xs)
  show ?case using Cons.IH [of "Suc n"] Cons.IH [of 1] by (simp add: option.map_comp comp_def)
qed simp

lemma find_from_first: "(\<And>x. x \<in> set xs \<Longrightarrow> \<not> p x) \<Longrightarrow> p y \<Longrightarrow> find_from n p (xs @ y # ys) = Some (n + length xs)"
  by (induction xs arbitrary: n) auto

lemma find_from_none: "(\<And>x. x \<in> set xs \<Longrightarrow> \<not> p x) \<Longrightarrow> find_from n p xs = None"
  by (induction xs arbitrary: n) auto

lemma find_from_bound: "find_from n p xs = Some i \<Longrightarrow> i < n + length xs"
  by (induction xs arbitrary: n) (force split: if_splits)+

lemma memory_page_seek:
  assumes "js_sort compare rows = rows" and "0 < limit"
  shows "memory_page g compare rows limit c =
    (take limit (memory_seek g rows c),
     if limit < length (memory_seek g rows c) then Some (g (last (take limit (memory_seek g rows c)))) else None)"
  using assms find_from_bound [of 0 _ rows]
  by (cases c) (auto simp: memory_page_def memory_seek_def paginateInMemory_def Let_def matches_def [abs_def]
      less_diff_conv add.commute split: option.split dest: find_from_bound)

interpretation memory: paging "memory_ok getCursorFields compare" "memory_seek getCursorFields"
  getCursorFields "memory_page getCursorFields compare"
  for getCursorFields :: "'r \<Rightarrow> row_fields" and compare
proof
  fix xs ys :: "'r list" and r
  assume ok: "memory_ok getCursorFields compare (xs @ r # ys)"
  have "find_from 0 (matches getCursorFields (getCursorFields r)) (xs @ r # ys) = Some (0 + length xs)"
    using ok by (intro find_from_first) (auto simp: memory_ok_def)
  then show "memory_seek getCursorFields (xs @ r # ys) (Some (getCursorFields r)) = ys"
    by (simp add: memory_seek_def)
qed (simp_all add: memory_seek_def memory_ok_def memory_page_seek)

text \<open>Without deletions, paging in memory visits the rows as well.\<close>

lemma memory_paging_complete:
  assumes "memory_ok getCursorFields compare rows" and "0 < limit" and "length rows < n"
  shows "concat (follow_pages n (memory_page getCursorFields compare rows limit) None) = rows"
  using memory.follow_all [OF assms] by (simp add: full_pages_def)

text \<open>C34. A client that follows the cursors is done after finitely many requests and has seen every
  row of the query exactly once, in the query's order: with a budget above the number of rows the
  pages put together are the rows, every page but the last has exactly as many rows as the limit, the
  last has no more, and no page is empty unless there are no rows. The rows are those of a query
  ordered strictly by the sort key, whose last column breaks ties.\<close>

theorem paging_visits_every_row:
  fixes field :: "'r \<Rightarrow> string \<Rightarrow> 'v::linorder"
  assumes "good_columns cols" and "sorted_wrt (comes_after field cols) rows" and "0 < limit"
    and "length rows < n" and "pages = follow_pages n (keyset_page field cols rows limit) None"
  shows "concat pages = rows \<and> pages \<noteq> []
    \<and> (\<forall>p \<in> set (butlast pages). length p = limit) \<and> length (last pages) \<le> limit
    \<and> (rows \<noteq> [] \<longrightarrow> [] \<notin> set pages)"
proof -
  have "full_pages limit rows (follow_pages n (keyset_page field cols rows limit) None)"
    using assms(1-4) by (intro keyset.follow_all) simp_all
  then show ?thesis using assms(5) by (simp add: full_pages_def)
qed

definition demo_columns :: "(string \<times> direction) list" where
  "demo_columns = [(''created_at'', Desc), (''id'', Desc)]"

definition demo_field :: "nat \<times> nat \<Rightarrow> string \<Rightarrow> nat" where
  "demo_field r c = (if c = ''id'' then snd r else fst r)"

lemma demo_rows_sorted: "sorted_wrt (comes_after demo_field demo_columns) [(8, 3), (8, 1), (5, 2)]"
  by code_simp

lemma demo_columns_good: "good_columns demo_columns"
  by code_simp

theorem paging_visits_every_row_witness:
  "concat (follow_pages 4 (keyset_page demo_field demo_columns [(8, 3), (8, 1), (5, 2)] 2) None) = [(8, 3), (8, 1), (5, 2)]"
  using paging_visits_every_row [OF demo_columns_good demo_rows_sorted, of 2 4, OF _ _ refl] by simp

text \<open>Seeking, whatever became of the table.\<close>

lemma lex_after_trans:
  "lex_after (map (\<lambda>z. (f z, g z, h z)) zs) \<Longrightarrow> lex_after (map (\<lambda>z. (f z, h z, k z)) zs) \<Longrightarrow>
     lex_after (map (\<lambda>z. (f z, g z, k z)) zs)"
  by (induction zs) (auto split: direction.splits)

lemma comes_after_trans: "comes_after field cols r s \<Longrightarrow> comes_after field cols s t \<Longrightarrow> comes_after field cols r t"
  unfolding comes_after_def by (rule lex_after_trans)

lemma seek_filters:
  assumes "good_columns cols"
  shows "applyKnexKeyset field rows (Some (cursor_of field cols r)) cols = filter (comes_after field cols r) rows"
proof -
  have all: "list_all (\<lambda>c. cursor_of field cols r (cursorKey (fst c)) \<noteq> None) cols"
    by (simp add: list_all_iff cursor_of_column [OF assms])
  show ?thesis unfolding applyKnexKeyset_def option.case if_P [OF all] keyset_after [OF assms] by simp
qed

lemma page_rows: "fst (buildPage rows limit g) = take limit rows"
  by (simp add: buildPage_def Let_def)

lemma page_cursor:
  assumes "snd (buildPage rows limit g) = Some c"
  shows "take limit rows \<noteq> []" "c = g (last (take limit rows))"
  using assms by (simp_all add: buildPage_def Let_def split: if_splits)

lemma sorted_last:
  assumes "sorted_wrt P xs" and "x \<in> set xs"
  shows "x = last xs \<or> P x (last xs)"
  using assms by (induction xs) auto

text \<open>C35. Pages stay apart while the table changes: whatever was inserted or deleted since a page was
  read, each row of the page its cursor leads to comes strictly after each row of that page, so no row
  is shown twice; and the new page is the first rows of the table past the last one shown.\<close>

theorem next_page_comes_after:
  assumes "good_columns cols" and "sorted_wrt (comes_after field cols) rows"
    and "keyset_page field cols rows limit cursor = (data, Some c)"
    and "keyset_page field cols rows' limit (Some c) = (data', nxt)"
  shows "(\<forall>r \<in> set data. \<forall>s \<in> set data'. comes_after field cols r s)
    \<and> data' = take limit (filter (comes_after field cols (last data)) rows')"
proof -
  let ?fetched = "take (limit + 1) (applyKnexKeyset field rows cursor cols)"
  have data: "data = take limit ?fetched" and c: "c = cursor_of field cols (last data)" and "data \<noteq> []"
    using assms(3) page_rows [of ?fetched limit "cursor_of field cols"]
      page_cursor [of ?fetched limit "cursor_of field cols" c]
    by (auto simp: keyset_page_def)
  have data': "data' = take limit (filter (comes_after field cols (last data)) rows')"
    using assms(4) page_rows [of "take (limit + 1) (applyKnexKeyset field rows' (Some c) cols)" limit "cursor_of field cols"]
    by (simp add: keyset_page_def c seek_filters [OF assms(1)])
  have "sorted_wrt (comes_after field cols) (applyKnexKeyset field rows cursor cols)"
    using assms(2) by (simp add: applyKnexKeyset_def sorted_wrt_filter split: option.split)
  then have sorted: "sorted_wrt (comes_after field cols) data" unfolding data by (intro sorted_wrt_take)
  have "comes_after field cols r s" if "r \<in> set data" and "s \<in> set data'" for r s
  proof -
    have "s \<in> set (filter (comes_after field cols (last data)) rows')" 
      using that(2) unfolding data' by (rule in_set_takeD)
    then have "comes_after field cols (last data) s" by simp
    then show ?thesis using sorted_last [OF sorted that(1)] by (auto intro: comes_after_trans)
  qed
  then show ?thesis using data' by (intro conjI ballI)
qed

lemma demo_first_page:
  "keyset_page demo_field demo_columns [(8, 3), (8, 1), (5, 2)] 2 None
     = ([(8, 3), (8, 1)], Some (cursor_of demo_field demo_columns (8, 1)))"
  by (simp add: keyset_page_seek applyKnexKeyset_def)

lemma demo_second_page:
  "keyset_page demo_field demo_columns [(9, 4), (8, 3), (5, 2)] 2 (Some (cursor_of demo_field demo_columns (8, 1)))
     = ([(5, 2)], None)"
proof -
  have "applyKnexKeyset demo_field [(9, 4), (8, 3), (5, 2)] (Some (cursor_of demo_field demo_columns (8, 1)))
      demo_columns = [(5, 2)]"
    by (simp only: seek_filters [OF demo_columns_good]) code_simp
  then show ?thesis by (simp add: keyset_page_seek)
qed

theorem next_page_comes_after_witness:
  "comes_after demo_field demo_columns (8, 3) (5, 2)"
  using next_page_comes_after [OF demo_columns_good demo_rows_sorted demo_first_page demo_second_page] by simp

section \<open>Lost cursors\<close>

text \<open>A cursor whose row is gone sends the client back to the start: \<open>paginateInMemory\<close> answers
  a cursor that matches no row with the first page, exactly as if no cursor had been given, so a
  client whose last row was deleted between two requests is shown the rows it has seen again.\<close>

lemma lost_cursor_restarts:
  assumes "\<And>r. r \<in> set rows \<Longrightarrow> \<exists>k v. (k, v) \<in> set cur \<and> field_text (getCursorFields r) k \<noteq> v"
  shows "paginateInMemory rows limit (Some cur) getCursorFields compare
    = paginateInMemory rows limit None getCursorFields compare"
proof -
  have "\<not> list_all (\<lambda>(k, v). field_text (getCursorFields r) k = v) cur" if r: "r \<in> set (js_sort compare rows)" for r
  proof -
    obtain k v where "(k, v) \<in> set cur" "field_text (getCursorFields r) k \<noteq> v"
      using assms [of r] r unfolding set_js_sort by blast
    then show ?thesis unfolding list_all_iff by (intro notI) (drule (1) bspec, simp)
  qed
  then have "find_from 0 (\<lambda>r. list_all (\<lambda>(k, v). field_text (getCursorFields r) k = v) cur) (js_sort compare rows) = None"
    by (rule find_from_none)
  then show ?thesis by (simp only: paginateInMemory_def option.case Let_def)
qed

definition demo_row_fields :: "nat \<Rightarrow> row_fields" where
  "demo_row_fields n = [(''id'', show_nat n)]"

theorem lost_cursor_restarts_example:
  "paginateInMemory [2, 1] 1 (Some (demo_row_fields 7)) demo_row_fields (\<lambda>a b. ms (int b - int a))
     = paginateInMemory [2, 1] 1 None demo_row_fields (\<lambda>a b. ms (int b - int a))"
proof (rule lost_cursor_restarts)
  fix r :: nat assume "r \<in> set [2, 1]"
  then have "r = 2 \<or> r = 1" by simp
  moreover have "field_text (demo_row_fields 2) ''id'' \<noteq> ''7'' \<and> field_text (demo_row_fields 1) ''id'' \<noteq> ''7''
      \<and> demo_row_fields 7 = [(''id'', ''7'')]"
    by code_simp
  ultimately show "\<exists>k v. (k, v) \<in> set (demo_row_fields 7) \<and> field_text (demo_row_fields r) k \<noteq> v"
    by (intro exI [of _ "''id''"] exI [of _ "''7''"]) (elim disjE; simp only: list.set insert_iff simp_thms)
qed

end
