(* ===== verification/RequestText.thy ===== *)
theory RequestText
  imports JsResult JsText
begin

text \<open>
  The texts requests carry: account ids and user names as the services check them, and
  \<open>backend/src/middleware/sanitization.js\<close>, which cleans path parameters before the handlers.
\<close>

definition account_id :: "string \<Rightarrow> bool" where
  "account_id s \<longleftrightarrow> length s = 56 \<and> hd s = CHR ''G''
     \<and> list_all (\<lambda>c. is_digit c \<or> (65 \<le> (of_char c :: nat) \<and> of_char c \<le> (90 :: nat))) s"

definition alphanumeric :: "char \<Rightarrow> bool" where
  "alphanumeric c \<longleftrightarrow> is_digit c \<or> (let n = of_char c :: nat in 65 \<le> n \<and> n \<le> 90 \<or> 97 \<le> n \<and> n \<le> 122)"

definition base32_char :: "char \<Rightarrow> bool" where
  "base32_char c \<longleftrightarrow> (let n = of_char c :: nat in 65 \<le> n \<and> n \<le> 90 \<or> 50 \<le> n \<and> n \<le> 55)"

text \<open>\<open>None\<close>: the request is answered with \<open>VAL_INVALID_PUBLIC_KEY\<close>.\<close>

definition sanitizePublicKey :: "string \<Rightarrow> string option" where
  "sanitizePublicKey pk =
     (if pk = [] then Some pk
      else let s = filter alphanumeric pk
           in if length s \<noteq> 56 \<or> \<not> starts_with s ''G'' then None
              else if list_all base32_char (tl s) then Some s else None)"

definition username_text :: "string \<Rightarrow> bool" where
  "username_text s \<longleftrightarrow> 3 \<le> length s \<and> length s \<le> 20 \<and> list_all alphanumeric s"

definition lower_alphanumeric :: "char \<Rightarrow> bool" where
  "lower_alphanumeric c \<longleftrightarrow> is_digit c \<or> (let n = of_char c :: nat in 97 \<le> n \<and> n \<le> 122)"

text \<open>\<open>None\<close>: the request is answered with \<open>VAL_INVALID_USERNAME\<close>.\<close>

definition sanitizeUsername :: "string \<Rightarrow> string option" where
  "sanitizeUsername u =
     (if u = [] then Some u
      else let s = filter lower_alphanumeric (to_lower (trim u))
           in if length s < 3 \<or> 20 < length s then None else Some s)"

lemma split_char_none: "c \<notin> set s \<Longrightarrow> split_char c s = [s]"
  by (induction s) auto

lemma split_char_append: "c \<notin> set s \<Longrightarrow> split_char c (s @ c # r) = s # split_char c r"
  by (induction s) (auto split: list.splits)

lemma to_lower_idem: "to_lower (to_lower s) = to_lower s"
  by (simp add: to_lower_def comp_def lower_char_idem)

lemma find_only: "x \<in> set xs \<Longrightarrow> (\<And>y. y \<in> set xs \<Longrightarrow> P y \<longleftrightarrow> y = x) \<Longrightarrow> List.find P xs = Some x"
  by (induction xs) auto

end
