(* ===== verification/PaymentHistory.thy ===== *)
theory PaymentHistory
  imports Pagination JsDate RequestText
begin

text \<open>
  \<open>backend/src/services/stellarService.js\<close>, \<open>backend/src/services/analyticsService.js\<close> and
  \<open>backend/src/controllers/paymentController.js\<close> with the middleware before it: an account's
  balances, its payments, their pages, and what is computed from them.

  Horizon is a parameter (\<open>stellar_env\<close>): the operations of an account, a transaction's memo, an
  account. A cache is a partial map; an entry may be dropped at any time. Amounts are exact.
\<close>

section \<open>Accounts\<close>

definition validatePublicKey :: "string \<Rightarrow> thrown + unit" where
  "validatePublicKey pk = ensure (account_id pk) (http_error 400 ''Invalid Stellar public key format'')"

record horizon_balance =
  hb_type :: string
  hb_code :: "string option"
  hb_issuer :: "string option"
  hb_balance :: string

record balance =
  ba_code :: "string option"
  ba_balance :: string
  ba_issuer :: "string option"
  ba_type :: string

record account =
  ac_publicKey :: string
  ac_sequence :: string
  ac_balances :: "balance list"
  ac_subentries :: nat

record horizon_account =
  ha_sequence :: string
  ha_balances :: "horizon_balance list"
  ha_subentries :: nat

record operation =
  op_id :: string
  op_type :: string
  op_from :: string
  op_to :: string
  op_asset_type :: string
  op_asset_code :: "string option"
  op_dest_type :: string
  op_dest_code :: "string option"
  op_amount :: string
  op_dest_amount :: string
  op_created :: string
  op_hash :: string
  op_token :: string

record stellar_env =
  se_account :: "string \<Rightarrow> thrown + horizon_account"
  se_operations :: "string \<Rightarrow> nat \<Rightarrow> string option \<Rightarrow> thrown + operation list"
  se_memo :: "operation \<Rightarrow> (string \<times> string option) option"
  se_date :: "string \<Rightarrow> int option"

definition native_or_code :: "horizon_balance \<Rightarrow> balance" where
  "native_or_code b =
     (if hb_type b = ''native'' then \<lparr>ba_code = Some ''XLM'', ba_balance = hb_balance b, ba_issuer = None, ba_type = ''native''\<rparr>
      else \<lparr>ba_code = hb_code b, ba_balance = hb_balance b, ba_issuer = hb_issuer b, ba_type = hb_type b\<rparr>)"

definition getAccount ::
  "stellar_env \<Rightarrow> string \<Rightarrow> (string \<rightharpoonup> account) \<Rightarrow> (thrown + account) \<times> (string \<rightharpoonup> account)" where
  "getAccount env pk ca =
     (case validatePublicKey pk of
        Inl e \<Rightarrow> (Inl e, ca)
      | Inr _ \<Rightarrow>
          (case ca pk of
             Some a \<Rightarrow> (Inr a, ca)
           | None \<Rightarrow>
               (case se_account env pk of
                  Inl e \<Rightarrow> (Inl (if th_response e = Some 404
                     then http_error 404 ''Account not found. It may not be funded yet. Use Friendbot on testnet.''
                     else e), ca)
                | Inr h \<Rightarrow>
                    let a = \<lparr>ac_publicKey = pk, ac_sequence = ha_sequence h,
                          ac_balances = map native_or_code (ha_balances h), ac_subentries = ha_subentries h\<rparr>
                    in (Inr a, ca(pk \<mapsto> a)))))"

definition getXLMBalance ::
  "stellar_env \<Rightarrow> string \<Rightarrow> (string \<rightharpoonup> account) \<Rightarrow> (thrown + string) \<times> (string \<rightharpoonup> account)" where
  "getXLMBalance env pk ca =
     (case getAccount env pk ca of
        (Inl e, ca') \<Rightarrow> (Inl e, ca')
      | (Inr a, ca') \<Rightarrow>
          (Inr (case List.find (\<lambda>b. ba_code b = Some ''XLM'') (ac_balances a) of
                  Some b \<Rightarrow> ba_balance b | None \<Rightarrow> ''0''), ca'))"

section \<open>Payments\<close>

record payment =
  pm_id :: string
  pm_sent :: bool
  pm_amount :: string
  pm_asset :: string
  pm_from :: string
  pm_to :: string
  pm_memo :: "string option"
  pm_createdAt :: string
  pm_hash :: string
  pm_token :: string

definition PAYMENT_TYPES :: "string list" where
  "PAYMENT_TYPES = [''payment'', ''path_payment_strict_send'', ''path_payment_strict_receive'']"

definition is_payment :: "operation \<Rightarrow> bool" where
  "is_payment op \<longleftrightarrow> List.member PAYMENT_TYPES (op_type op)"

definition code_or_unknown :: "string option \<Rightarrow> string" where
  "code_or_unknown m = (case truthy_text m of None \<Rightarrow> ''UNKNOWN'' | Some s \<Rightarrow> s)"

definition payment_of :: "stellar_env \<Rightarrow> string \<Rightarrow> operation \<Rightarrow> payment" where
  "payment_of env pk op =
     (let isPathPayment = op_type op \<noteq> ''payment''; isSent = op_from op = pk;
          received = isPathPayment \<and> \<not> isSent
      in \<lparr>pm_id = op_id op, pm_sent = isSent,
          pm_amount = (if received then op_dest_amount op else op_amount op),
          pm_asset = (if received
             then if op_dest_type op = ''native'' then ''XLM'' else code_or_unknown (op_dest_code op)
             else if op_asset_type op = ''native'' then ''XLM'' else code_or_unknown (op_asset_code op)),
          pm_from = op_from op, pm_to = op_to op,
          pm_memo = (case se_memo env op of
             Some (t, m) \<Rightarrow> if t = ''text'' then truthy_text m else None | None \<Rightarrow> None),
          pm_createdAt = op_created op, pm_hash = op_hash op, pm_token = op_token op\<rparr>)"

definition payments_of :: "stellar_env \<Rightarrow> string \<Rightarrow> operation list \<Rightarrow> payment list" where
  "payments_of env pk ops = map (payment_of env pk) (filter is_payment ops)"

type_synonym payments_cache = "string \<times> nat \<rightharpoonup> payment list"

definition getPayments ::
  "stellar_env \<Rightarrow> string \<Rightarrow> nat \<Rightarrow> string option \<Rightarrow> payments_cache \<Rightarrow> (thrown + payment list) \<times> payments_cache" where
  "getPayments env pk limit cursor ca =
     (case validatePublicKey pk of
        Inl e \<Rightarrow> (Inl e, ca)
      | Inr _ \<Rightarrow>
          (let shouldCache = truthy_text cursor = None \<and> limit = 20
           in case (if shouldCache then ca (pk, limit) else None) of
                Some ps \<Rightarrow> (Inr ps, ca)
              | None \<Rightarrow>
                  (case se_operations env pk limit (truthy_text cursor) of
                     Inl e \<Rightarrow> (Inl e, ca)
                   | Inr ops \<Rightarrow>
                       let ps = payments_of env pk ops
                       in (Inr ps, if shouldCache then ca((pk, limit) \<mapsto> ps) else ca))))"

type_synonym counts_cache = "string \<times> nat \<rightharpoonup> nat"

definition countPaymentsApprox ::
  "stellar_env \<Rightarrow> string \<Rightarrow> nat \<Rightarrow> counts_cache \<Rightarrow> (thrown + nat) \<times> counts_cache" where
  "countPaymentsApprox env pk cap ca =
     (case validatePublicKey pk of
        Inl e \<Rightarrow> (Inl e, ca)
      | Inr _ \<Rightarrow>
          (case ca (pk, cap) of
             Some n \<Rightarrow> (Inr n, ca)
           | None \<Rightarrow>
               (case se_operations env pk cap None of
                  Inl e \<Rightarrow> (Inl e, ca)
                | Inr ops \<Rightarrow>
                    let n = length (filter is_payment ops) in (Inr n, ca((pk, cap) \<mapsto> n)))))"

section \<open>The payment endpoints\<close>

datatype payments_reply =
    BadLimit | BadCursor | Forbidden | BadKey | BadQuery | Failed thrown | Page "payment page_answer"

record payment_state =
  ps_payments :: payments_cache
  ps_counts :: counts_cache

text \<open>\<open>getPayments\<close> of the controller, after its guards.\<close>

definition getPaymentsHandler ::
  "cursor_env \<Rightarrow> stellar_env \<Rightarrow> string \<Rightarrow> nat \<Rightarrow> string option \<Rightarrow> payment_state \<Rightarrow> payments_reply \<times> payment_state" where
  "getPaymentsHandler ce env pk limit cursor st =
     (case getPayments env pk limit cursor (ps_payments st) of
        (r, pca) \<Rightarrow>
          (case countPaymentsApprox env pk 200 (ps_counts st) of
             (n, cca) \<Rightarrow>
               (case bnd r (\<lambda>payments. bnd n (\<lambda>amount.
                       Inr (formatPaginatedResponse ce (Some payments)
                         (if length payments = limit \<and> payments \<noteq> [] then CursorText (pm_token (last payments))
                          else NoCursor) (Some amount)))) of
                  Inl e \<Rightarrow> Failed e | Inr a \<Rightarrow> Page a,
                \<lparr>ps_payments = pca, ps_counts = cca\<rparr>)))"

text \<open>
  \<open>GET /api/payments/:publicKey\<close> for an authenticated account: the pagination middleware of the
  server, the owner check, the key, the query schema and the handler. The schema takes a \<open>limit\<close>
  that the middleware accepted, except the empty text, and a cursor that is a text.
\<close>

definition getPaymentsRoute ::
  "cursor_env \<Rightarrow> stellar_env \<Rightarrow> string \<Rightarrow> string \<Rightarrow> jsval \<Rightarrow> jsval \<Rightarrow> payment_state \<Rightarrow> payments_reply \<times> payment_state" where
  "getPaymentsRoute ce env user pk rawLimit rawCursor st =
     (case paginationMiddleware ce rawLimit rawCursor of
        InvalidLimit \<Rightarrow> (BadLimit, st)
      | InvalidCursor \<Rightarrow> (BadCursor, st)
      | PageRequest limit _ \<Rightarrow>
          if user \<noteq> pk then (Forbidden, st)
          else case sanitizePublicKey pk of
                 None \<Rightarrow> (BadKey, st)
               | Some key \<Rightarrow>
                   if rawLimit = JString [] then (BadQuery, st)
                   else getPaymentsHandler ce env key limit (truthy_text (as_string rawCursor)) st)"

section \<open>Statistics\<close>

definition amount_of :: "payment \<Rightarrow> jsnum" where
  "amount_of p = parseFloat (pm_amount p)"

definition add_amounts :: "payment list \<Rightarrow> jsnum" where
  "add_amounts ps = foldl num_add (Fin 0) (map amount_of ps)"

record payment_stats =
  py_sent :: string
  py_received :: string
  py_sentCount :: nat
  py_receivedCount :: nat
  py_total :: nat

definition stats_of :: "payment list \<Rightarrow> payment_stats" where
  "stats_of ps =
     (let sent = filter pm_sent ps; received = filter (\<lambda>p. \<not> pm_sent p) ps
      in \<lparr>py_sent = toFixed 7 (add_amounts sent), py_received = toFixed 7 (add_amounts received),
          py_sentCount = length sent, py_receivedCount = length received,
          py_total = length sent + length received\<rparr>)"

definition getStats ::
  "stellar_env \<Rightarrow> string \<Rightarrow> payments_cache \<Rightarrow> (thrown + payment_stats) \<times> payments_cache" where
  "getStats env pk ca = (case getPayments env pk 100 None ca of (r, ca') \<Rightarrow> (bnd r (\<lambda>ps. Inr (stats_of ps)), ca'))"

section \<open>Analytics\<close>

definition withCache :: "string \<Rightarrow> (string \<rightharpoonup> 'a) \<Rightarrow> thrown + 'a \<Rightarrow> (thrown + 'a) \<times> (string \<rightharpoonup> 'a)" where
  "withCache key ca result =
     (case ca key of
        Some d \<Rightarrow> (Inr d, ca)
      | None \<Rightarrow> (case result of Inl e \<Rightarrow> (Inl e, ca) | Inr d \<Rightarrow> (Inr d, ca(key \<mapsto> d))))"

definition recent :: "stellar_env \<Rightarrow> string \<Rightarrow> thrown + payment list" where
  "recent env pk = fst (getPayments env pk 200 None Map.empty)"

record summary =
  su_publicKey :: string
  su_sent :: string
  su_received :: string
  su_counterparties :: nat
  su_average :: string
  su_total :: nat

definition num_div_nat :: "jsnum \<Rightarrow> nat \<Rightarrow> jsnum" where
  "num_div_nat x n = (case x of Fin q \<Rightarrow> Fin (q / of_nat n) | y \<Rightarrow> y)"

definition summary_of :: "string \<Rightarrow> payment list \<Rightarrow> summary" where
  "summary_of pk ps =
     (let sent = add_amounts (filter pm_sent ps); received = add_amounts (filter (\<lambda>p. \<not> pm_sent p) ps)
      in \<lparr>su_publicKey = pk, su_sent = toFixed 7 sent, su_received = toFixed 7 received,
          su_counterparties = length (remdups (map (\<lambda>p. if pm_sent p then pm_to p else pm_from p) ps)),
          su_average = (if ps = [] then ''0'' else toFixed 7 (num_div_nat (num_add sent received) (length ps))),
          su_total = length ps\<rparr>)"

definition getSummary ::
  "stellar_env \<Rightarrow> string \<Rightarrow> (string \<rightharpoonup> summary) \<Rightarrow> (thrown + summary) \<times> (string \<rightharpoonup> summary)" where
  "getSummary env pk ca =
     withCache (''analytics:summary:'' @ pk) ca (bnd (recent env pk) (\<lambda>ps. Inr (summary_of pk ps)))"

text \<open>The \<open>Map\<close> from recipients to totals, in the order of their first payment.\<close>

fun add_total :: "string \<Rightarrow> jsnum \<Rightarrow> (string \<times> jsnum) list \<Rightarrow> (string \<times> jsnum) list" where
  "add_total a x [] = [(a, x)]"
| "add_total a x ((b, y) # r) = (if b = a then (b, num_add y x) # r else (b, y) # add_total a x r)"

definition recipient_totals :: "payment list \<Rightarrow> (string \<times> jsnum) list" where
  "recipient_totals ps = foldl (\<lambda>m p. add_total (pm_to p) (amount_of p) m) [] (filter pm_sent ps)"

definition top_recipients :: "payment list \<Rightarrow> (string \<times> string) list" where
  "top_recipients ps =
     take 5 (js_sort (\<lambda>a b. num_sub (parseFloat (snd b)) (parseFloat (snd a)))
       (map (\<lambda>(a, x). (a, toFixed 7 x)) (recipient_totals ps)))"

definition getTopRecipients ::
  "stellar_env \<Rightarrow> string \<Rightarrow> (string \<rightharpoonup> (string \<times> string) list)
     \<Rightarrow> (thrown + (string \<times> string) list) \<times> (string \<rightharpoonup> (string \<times> string) list)" where
  "getTopRecipients env pk ca =
     withCache (''analytics:top-recipients:'' @ pk) ca (bnd (recent env pk) (\<lambda>ps. Inr (top_recipients ps)))"

definition DAYS :: "string list" where
  "DAYS = [''Sunday'', ''Monday'', ''Tuesday'', ''Wednesday'', ''Thursday'', ''Friday'', ''Saturday'']"

definition on_day :: "stellar_env \<Rightarrow> nat \<Rightarrow> payment \<Rightarrow> bool" where
  "on_day env d p \<longleftrightarrow> (case se_date env (pm_createdAt p) of None \<Rightarrow> False | Some t \<Rightarrow> getUTCDay t = int d)"

definition activity_of :: "stellar_env \<Rightarrow> payment list \<Rightarrow> (string \<times> nat \<times> nat) list" where
  "activity_of env ps = map (\<lambda>d. (DAYS ! d, d, length (filter (on_day env d) ps))) [0..<7]"

definition getActivityByDay ::
  "stellar_env \<Rightarrow> string \<Rightarrow> (string \<rightharpoonup> (string \<times> nat \<times> nat) list)
     \<Rightarrow> (thrown + (string \<times> nat \<times> nat) list) \<times> (string \<rightharpoonup> (string \<times> nat \<times> nat) list)" where
  "getActivityByDay env pk ca =
     withCache (''analytics:activity:'' @ pk) ca (bnd (recent env pk) (\<lambda>ps. Inr (activity_of env ps)))"

definition clearCache ::
  "string \<Rightarrow> (string \<rightharpoonup> summary) \<times> (string \<rightharpoonup> (string \<times> string) list) \<times> (string \<rightharpoonup> (string \<times> nat \<times> nat) list)
     \<Rightarrow> (string \<rightharpoonup> summary) \<times> (string \<rightharpoonup> (string \<times> string) list) \<times> (string \<rightharpoonup> (string \<times> nat \<times> nat) list)" where
  "clearCache pk cs =
     (case cs of (s, t, a) \<Rightarrow>
        (s(''analytics:summary:'' @ pk := None), t(''analytics:top-recipients:'' @ pk := None),
         a(''analytics:activity:'' @ pk := None)))"

section \<open>Paging tokens are no cursors\<close>

definition paging_token :: "string \<Rightarrow> bool" where
  "paging_token t \<longleftrightarrow> 2 \<le> length t \<and> list_all is_digit t"

lemma digit_b64: "is_digit c \<Longrightarrow> b64_value c = Some (of_char c + 4)"
proof -
  have "list_all (\<lambda>n. b64_value (char_of n) = Some (n + 4)) [48..<58]" by code_simp
  then have "\<forall>n \<in> {48..<58}. b64_value (char_of n) = Some (n + 4)" unfolding list_all_iff set_upt .
  then have "b64_value (char_of n) = Some (n + 4)" if "48 \<le> n" "n \<le> 57" for n :: nat
    using that by (elim bspec) simp
  then show "is_digit c \<Longrightarrow> b64_value c = Some (of_char c + 4)"
    unfolding is_digit_def by (metis char_of_char)
qed

lemma token_bytes:
  assumes "paging_token t"
  obtains b bs where "b64_decode t = Some (b # bs)" "211 \<le> byte b"
proof -
  obtain c d r where t: "t = c # d # r" and dig: "is_digit c" "is_digit d" "list_all is_digit r"
    using assms by (cases t; cases "tl t") (auto simp: paging_token_def)
  have vals: "map b64_value t = map Some (map (\<lambda>c. of_char c + 4) t)"
    using assms by (auto simp: paging_token_def list_all_iff digit_b64)
  have dec: "b64_decode t = Some (b64_groups (map (\<lambda>c. of_char c + 4) t))"
    unfolding b64_decode_def vals by (simp only: Let_def) (auto simp: comp_def)
  have c: "48 \<le> byte c" "byte c \<le> 57" "48 \<le> byte d" "byte d \<le> 57" using dig by (simp_all add: is_digit_def)
  define n where "n = (byte c + 4) * 4 + (byte d + 4) div 16"
  have "(byte d + 4) div 16 = 3" using c by simp
  then have n: "211 \<le> n" "n < 256" using c by (simp_all add: n_def)
  have "\<exists>bs. b64_groups (map (\<lambda>c. of_char c + 4) t) = char_of n # bs"
    unfolding t n_def by (cases r; cases "tl r") simp_all
  then show thesis using that dec n by (auto simp: less_imp_le)
qed

text \<open>What \<open>JSON.parse\<close> never answers for bytes from 128 on at the front: an object begins with a
  brace, after white space, which are all below 128.\<close>

definition json_objects_ascii :: "cursor_env \<Rightarrow> bool" where
  "json_objects_ascii ce \<longleftrightarrow> (\<forall>b bs fs. 128 \<le> byte b \<longrightarrow> ce_parse_bytes ce (b # bs) \<noteq> Some (JObject fs))"

lemma token_no_cursor:
  assumes "json_objects_ascii ce" and "paging_token t"
  shows "decodeCursor ce (JString t) = None"
proof -
  obtain b bs where b: "b64_decode t = Some (b # bs)" "211 \<le> byte b" by (rule token_bytes [OF assms(2)])
  have "utf8_decode (b # bs) = None" using b(2) by (cases bs) auto
  then have "parse_buffer ce t = ce_parse_bytes ce (b # bs)" using b by (simp add: parse_buffer_def)
  moreover have "ce_parse_bytes ce (b # bs) \<noteq> Some (JObject fs)" for fs
    using assms(1) b(2) by (simp add: json_objects_ascii_def)
  ultimately show ?thesis by (simp add: decodeCursor_def split: option.splits jsval.splits)
qed

lemma token_rejected:
  assumes "json_objects_ascii ce" and "paging_token t"
  shows "paginationMiddleware ce rawLimit (JString t) \<in> {InvalidLimit, InvalidCursor}"
proof -
  have "given (JString t)" using assms(2) by (auto simp: given_def paging_token_def)
  then show ?thesis
    by (simp add: paginationMiddleware_def token_no_cursor [OF assms] Let_def split: option.split)
qed

definition horizon_tokens :: "stellar_env \<Rightarrow> bool" where
  "horizon_tokens env \<longleftrightarrow>
     (\<forall>pk limit cursor ops op. se_operations env pk limit cursor = Inr ops \<and> op \<in> set ops \<longrightarrow> paging_token (op_token op))"

definition cached_tokens :: "payments_cache \<Rightarrow> bool" where
  "cached_tokens ca \<longleftrightarrow> (\<forall>k ps p. ca k = Some ps \<and> p \<in> set ps \<longrightarrow> paging_token (pm_token p))"

lemma payment_of_token [simp]: "pm_token (payment_of env pk op) = op_token op"
  by (simp add: payment_of_def Let_def)

lemma getPayments_tokens:
  assumes "horizon_tokens env" and "cached_tokens ca" and "getPayments env pk limit cursor ca = (Inr ps, ca')"
  shows "\<forall>p \<in> set ps. paging_token (pm_token p)" "cached_tokens ca'"
proof -
  have fresh: "\<forall>p \<in> set (payments_of env pk ops). paging_token (pm_token p)"
    if "se_operations env pk limit (truthy_text cursor) = Inr ops" for ops
    using assms(1) that by (auto simp: horizon_tokens_def payments_of_def)
  show "\<forall>p \<in> set ps. paging_token (pm_token p)" "cached_tokens ca'"
    using assms(2,3) fresh
    by (auto simp: getPayments_def cached_tokens_def Let_def split: sum.splits option.splits if_splits)
qed

lemma digits_trim: "list_all is_digit t \<Longrightarrow> trim t = t"
  by (rule trim_no_space) (simp add: list_all_iff is_digit_not)

lemma handler_next:
  assumes "getPaymentsHandler ce env pk limit cursor st = (Page a, st')" and "pg_next a = Some c"
    and "horizon_tokens env" and "cached_tokens (ps_payments st)"
  shows "paging_token c"
proof -
  obtain r pca where r: "getPayments env pk limit cursor (ps_payments st) = (r, pca)" by (metis surj_pair)
  obtain n cca where n: "countPaymentsApprox env pk 200 (ps_counts st) = (n, cca)" by (metis surj_pair)
  obtain ps amount where ps: "r = Inr ps" "n = Inr amount"
    using assms(1) r n by (cases r; cases n) (simp_all add: getPaymentsHandler_def)
  have "length ps = limit \<and> ps \<noteq> []" and c: "trim (pm_token (last ps)) = c"
    using assms(1,2) r n ps
    by (auto simp: getPaymentsHandler_def formatPaginatedResponse_def Let_def split: if_splits)
  then have "paging_token (pm_token (last ps))"
    using getPayments_tokens(1) [OF assms(3,4)] r ps by auto
  then show ?thesis using c digits_trim [of "pm_token (last ps)"] by (simp add: paging_token_def)
qed

text \<open>C32. The payment history ends after its first page: the cursor a page carries is a paging token
  of Horizon, a number of at least two digits, but the pagination middleware in front of every route
  decodes the cursor parameter as base64url JSON, so no later request with that cursor gets past it,
  whoever sends it and whatever limit it has.\<close>

theorem second_page_rejected:
  assumes "json_objects_ascii ce" and "horizon_tokens env" and "cached_tokens (ps_payments st)"
    and "getPaymentsRoute ce env user pk rawLimit rawCursor st = (Page a, st')" and "pg_next a = Some c"
  shows "getPaymentsRoute ce env user2 pk2 rawLimit2 (JString c) st2 \<in> {(BadLimit, st2), (BadCursor, st2)}"
proof -
  obtain limit key where "getPaymentsHandler ce env key limit (truthy_text (as_string rawCursor)) st = (Page a, st')"
    using assms(4) by (auto simp: getPaymentsRoute_def split: page_request.splits if_splits option.splits)
  then have "paging_token c" using handler_next assms(2,3,5) by blast
  then show ?thesis using token_rejected [OF assms(1), of c rawLimit2]
    by (auto simp: getPaymentsRoute_def)
qed

definition demo_operation :: operation where
  "demo_operation = \<lparr>op_id = ''1'', op_type = ''payment'', op_from = ''A'', op_to = ''B'', op_asset_type = ''native'',
     op_asset_code = None, op_dest_type = [], op_dest_code = None, op_amount = ''5'', op_dest_amount = [],
     op_created = [], op_hash = [], op_token = ''42''\<rparr>"

definition demo_stellar :: stellar_env where
  "demo_stellar = \<lparr>se_account = (\<lambda>_. Inl (plain_error [])),
     se_operations = (\<lambda>_ n _. Inr (replicate n demo_operation)), se_memo = (\<lambda>_. None), se_date = (\<lambda>_. None)\<rparr>"

definition demo_key :: string where
  "demo_key = CHR ''G'' # replicate 55 CHR ''A''"

definition fresh_payments :: payment_state where
  "fresh_payments = \<lparr>ps_payments = Map.empty, ps_counts = Map.empty\<rparr>"

definition demo_payments_reply :: "payments_reply \<times> payment_state" where
  "demo_payments_reply = getPaymentsRoute demo_cursor_env demo_stellar demo_key demo_key JUndefined JUndefined fresh_payments"

lemma demo_key_ok: "sanitizePublicKey demo_key = Some demo_key" "account_id demo_key"
  by code_simp+

lemma demo_is_payment: "is_payment demo_operation"
  by code_simp

lemma demo_page:
  "\<exists>a. fst demo_payments_reply = Page a \<and> pg_next a = Some ''42''"
proof -
  have "paginationMiddleware demo_cursor_env JUndefined JUndefined = PageRequest 20 None"
    by (simp add: paginationMiddleware_def given_def DEFAULT_LIMIT_def)
  moreover have "payments_of demo_stellar demo_key (replicate n demo_operation)
      = replicate n (payment_of demo_stellar demo_key demo_operation)" for n
    by (simp add: payments_of_def filter_replicate demo_is_payment)
  moreover have "op_token demo_operation = ''42''" by (simp add: demo_operation_def)
  moreover have "trim ''42'' = ''42''" by code_simp
  moreover have "se_operations demo_stellar = (\<lambda>_ n _. Inr (replicate n demo_operation))" by (simp add: demo_stellar_def)
  ultimately show ?thesis
    by (simp add: demo_payments_reply_def getPaymentsRoute_def demo_key_ok getPaymentsHandler_def getPayments_def
        countPaymentsApprox_def validatePublicKey_def fresh_payments_def truthy_text_def
        formatPaginatedResponse_def Let_def last_replicate del: replicate.simps)
qed

theorem second_page_rejected_witness:
  "getPaymentsRoute demo_cursor_env demo_stellar demo_key demo_key JUndefined (JString ''42'') fresh_payments
     \<in> {(BadLimit, fresh_payments), (BadCursor, fresh_payments)}"
proof -
  obtain a where a: "demo_payments_reply = (Page a, snd demo_payments_reply)" "pg_next a = Some ''42''"
    using demo_page by (metis prod.collapse)
  show ?thesis
  proof (rule second_page_rejected [OF _ _ _ a(1) [unfolded demo_payments_reply_def] a(2)])
    show "json_objects_ascii demo_cursor_env" by (simp add: json_objects_ascii_def demo_cursor_env_def)
    show "horizon_tokens demo_stellar"
      by (auto simp: horizon_tokens_def demo_stellar_def demo_operation_def paging_token_def is_digit_def)
    show "cached_tokens (ps_payments fresh_payments)" by (simp add: cached_tokens_def fresh_payments_def)
  qed
qed

section \<open>Rounded amounts\<close>

definition cents :: "rat \<Rightarrow> int" where
  "cents q = \<lfloor>q * 10 ^ 7 + 1 / 2\<rfloor>"

lemma scan_signed_digit:
  assumes "is_digit c"
  shows "scan_signed (c # cs) = map_option (\<lambda>(m, r). (Fin m, r)) (scan_decimal (c # cs))"
proof -
  have c: "c \<noteq> CHR ''-''" "c \<noteq> CHR ''+''" "c \<noteq> CHR ''I''" using is_digit_not [OF assms] by auto
  then have "\<not> starts_with (c # cs) ''Infinity''" by (simp add: starts_with_def)
  then show ?thesis using c by (auto simp: scan_signed_def Let_def split: option.split)
qed

lemma parseFloat_show_nat: "parseFloat (show_nat n) = Fin (of_nat n)"
proof -
  obtain c cs where c: "show_nat n = c # cs" "is_digit c" by (rule show_nat_cases)
  have "trim_left (c # cs) = c # cs" using is_digit_not [OF c(2)] by (simp add: trim_left_def)
  then show ?thesis
    using scan_signed_digit [OF c(2), of cs] scan_decimal_show_nat [of n] c(1) by (simp add: parseFloat_def)
qed

lemma pad_start_digits: "c \<in> set (pad_start k CHR ''0'' (show_nat n)) \<Longrightarrow> is_digit c"
  by (auto simp: pad_start_def is_digit_def dest: show_nat_is_digit split: if_splits)

lemma parse_fixed:
  assumes "0 \<le> q" and "0 < d"
  shows "parseFloat (toFixed d (Fin q)) = Fin (of_int \<lfloor>q * 10 ^ d + 1 / 2\<rfloor> / 10 ^ d)"
proof -
  define n where "n = nat \<lfloor>q * 10 ^ d + 1 / 2\<rfloor>"
  define ds where "ds = pad_start (Suc d) CHR ''0'' (show_nat n)"
  define k where "k = length ds - d"
  have dig: "\<And>c. c \<in> set ds \<Longrightarrow> is_digit c" unfolding ds_def by (rule pad_start_digits)
  have len: "d < length ds" by (simp add: ds_def pad_start_def)
  then have k: "0 < k" "length (drop k ds) = d" by (simp_all add: k_def)
  have shape: "toFixed d (Fin q) = take k ds @ CHR ''.'' # drop k ds"
    using assms by (simp add: fixed_text_def Let_def n_def ds_def k_def)
  have ne: "take k ds \<noteq> []" using k(1) len by auto
  have n: "read_nat 0 ds = n" by (simp add: ds_def pad_start_def read_nat_zeros read_show_nat)
  have "scan_decimal (take k ds @ CHR ''.'' # drop k ds) = Some (of_nat (read_nat 0 (take k ds @ drop k ds)) / 10 ^ d, [])"
    using scan_decimal_point [of "take k ds" "drop k ds"] dig ne k(2)
    by (auto dest: in_set_takeD in_set_dropD)
  moreover have "is_digit (hd (take k ds))" by (rule dig [OF in_set_takeD [OF hd_in_set [OF ne]]])
  then obtain c cs where c: "take k ds @ CHR ''.'' # drop k ds = c # cs" "is_digit c"
    using ne by (cases "take k ds") simp_all
  moreover have "trim_left (c # cs) = c # cs" using is_digit_not [OF c(2)] by (simp add: trim_left_def)
  ultimately have "parseFloat (toFixed d (Fin q)) = Fin (of_nat n / 10 ^ d)"
    by (simp add: shape parseFloat_def scan_signed_digit n del: toFixed.simps)
  moreover have "of_nat n = of_int \<lfloor>q * 10 ^ d + 1 / 2\<rfloor>" using assms(1) by (simp add: n_def)
  ultimately show ?thesis by simp
qed

section \<open>The largest recipients\<close>

definition amount_rat :: "payment \<Rightarrow> rat" where
  "amount_rat p = (case amount_of p of Fin q \<Rightarrow> q | _ \<Rightarrow> 0)"

definition sent_to :: "payment list \<Rightarrow> string \<Rightarrow> rat" where
  "sent_to ps a = (\<Sum>p \<leftarrow> filter (\<lambda>p. pm_sent p \<and> pm_to p = a) ps. amount_rat p)"

definition recipients :: "payment list \<Rightarrow> string set" where
  "recipients ps = pm_to ` {p \<in> set ps. pm_sent p}"

definition sound_payments :: "payment list \<Rightarrow> bool" where
  "sound_payments ps \<longleftrightarrow> (\<forall>p \<in> set ps. pm_sent p \<longrightarrow> (\<exists>q. amount_of p = Fin q \<and> 0 \<le> q))"

lemma recipients_list: "recipients ps = set (map pm_to (filter pm_sent ps))"
  by (auto simp: recipients_def)

lemma add_total_keys: "map fst (add_total a x m) = (if a \<in> fst ` set m then map fst m else map fst m @ [a])"
  by (induction m) (simp, force)

lemma add_total_at:
  "map_of (add_total a x m) b =
     (if b = a then Some (case map_of m a of None \<Rightarrow> x | Some y \<Rightarrow> num_add y x) else map_of m b)"
  by (induction m) auto

lemma recipient_totals_snoc:
  "recipient_totals (ps @ [p]) =
     (if pm_sent p then add_total (pm_to p) (amount_of p) (recipient_totals ps) else recipient_totals ps)"
  by (simp add: recipient_totals_def)

lemma sent_to_snoc:
  "sent_to (ps @ [p]) a = (if pm_sent p \<and> pm_to p = a then sent_to ps a + amount_rat p else sent_to ps a)"
  by (simp add: sent_to_def)

lemma sent_to_none: "a \<notin> recipients ps \<Longrightarrow> sent_to ps a = 0"
proof -
  assume "a \<notin> recipients ps"
  then have "filter (\<lambda>p. pm_sent p \<and> pm_to p = a) ps = []" by (auto simp: recipients_def filter_empty_conv)
  then show ?thesis by (simp add: sent_to_def)
qed

lemma recipient_totals_sound:
  assumes "sound_payments ps"
  shows "distinct (map fst (recipient_totals ps)) \<and> fst ` set (recipient_totals ps) = recipients ps
    \<and> (\<forall>a \<in> recipients ps. map_of (recipient_totals ps) a = Some (Fin (sent_to ps a)))"
  using assms
proof (induction ps rule: rev_induct)
  case Nil
  then show ?case by (simp add: recipient_totals_def recipients_def)
next
  case (snoc p ps)
  let ?m = "recipient_totals ps"
  have IH: "distinct (map fst ?m)" "fst ` set ?m = recipients ps"
    "\<And>a. a \<in> recipients ps \<Longrightarrow> map_of ?m a = Some (Fin (sent_to ps a))"
    using snoc by (auto simp: sound_payments_def)
  show ?case
  proof (cases "pm_sent p")
    case True
    obtain q where q: "amount_of p = Fin q" using snoc.prems True by (auto simp: sound_payments_def)
    then have rat: "amount_rat p = q" by (simp add: amount_rat_def)
    have keys: "recipients (ps @ [p]) = insert (pm_to p) (recipients ps)" using True by (auto simp: recipients_def)
    have none: "map_of ?m (pm_to p) = None" if "pm_to p \<notin> recipients ps"
      using that IH(2) by (simp add: map_of_eq_None_iff)
    have "distinct (map fst (recipient_totals (ps @ [p])))"
      using IH(1,2) True by (simp add: recipient_totals_snoc add_total_keys)
    moreover have "set (map fst (recipient_totals (ps @ [p]))) = recipients (ps @ [p])"
      unfolding recipient_totals_snoc keys using IH(2) True by (simp only: if_True add_total_keys) auto
    moreover have "map_of (recipient_totals (ps @ [p])) a = Some (Fin (sent_to (ps @ [p]) a))"
      if "a \<in> recipients (ps @ [p])" for a
    proof (cases "a = pm_to p")
      case a: True
      then show ?thesis
        using True IH(3) [of a] none sent_to_none [of a ps] q rat
        by (cases "a \<in> recipients ps") (auto simp: recipient_totals_snoc add_total_at sent_to_snoc)
    next
      case False
      then show ?thesis using True IH(3) [of a] that keys
        by (simp add: recipient_totals_snoc add_total_at sent_to_snoc)
    qed
    ultimately show ?thesis by simp
  next
    case False
    then have "recipients (ps @ [p]) = recipients ps" "\<And>a. sent_to (ps @ [p]) a = sent_to ps a"
      by (auto simp: recipients_def sent_to_snoc)
    then show ?thesis using IH False by (simp add: recipient_totals_snoc)
  qed
qed

lemma sent_to_nonneg: "sound_payments ps \<Longrightarrow> 0 \<le> sent_to ps a"
  unfolding sent_to_def by (rule sum_list_nonneg) (auto simp: sound_payments_def amount_rat_def)

lemma sorted_take_drop:
  assumes "sorted (map f xs)" and "x \<in> set (take n xs)" and "y \<in> set (drop n xs)"
  shows "f x \<le> (f y :: 'b::linorder)"
proof -
  have "sorted (map f (take n xs) @ map f (drop n xs))"
    using assms(1) by (simp add: map_append [symmetric] del: map_append)
  then show ?thesis using assms(2,3) by (auto simp: sorted_append)
qed

lemma top_recipients_sorted:
  assumes "sound_payments ps"
  shows "top_recipients ps = take 5 (sort_key (\<lambda>(a, t). - cents (sent_to ps a))
    (map (\<lambda>a. (a, toFixed 7 (Fin (sent_to ps a)))) (map fst (recipient_totals ps))))"
proof -
  note totals = recipient_totals_sound [OF assms]
  let ?row = "\<lambda>a. (a, toFixed 7 (Fin (sent_to ps a)))"
  have "map (\<lambda>(a, x). (a, toFixed 7 x)) (recipient_totals ps) = map ?row (map fst (recipient_totals ps))"
    unfolding map_map comp_def
  proof (intro map_cong refl)
    fix r assume r: "r \<in> set (recipient_totals ps)"
    have "map_of (recipient_totals ps) (fst r) = Some (snd r)" using r totals by (intro map_of_is_SomeI) simp_all
    moreover have "fst r \<in> recipients ps" using r totals by blast
    ultimately have "snd r = Fin (sent_to ps (fst r))" using totals by simp
    then show "(case r of (a, x) \<Rightarrow> (a, toFixed 7 x)) = ?row (fst r)" by (cases r) simp
  qed
  moreover have "parseFloat (toFixed 7 (Fin (sent_to ps a))) = Fin (of_int (cents (sent_to ps a)) / 10 ^ 7)" for a
    using parse_fixed [OF sent_to_nonneg [OF assms], of 7 a] by (simp add: cents_def)
  then have "js_sort (\<lambda>a b. num_sub (parseFloat (snd b)) (parseFloat (snd a))) (map ?row names)
      = sort_key (\<lambda>(a, t). - cents (sent_to ps a)) (map ?row names)" for names
    by (intro js_sort_key) (auto simp: divide_less_cancel simp del: toFixed.simps)
  ultimately show ?thesis unfolding top_recipients_def by (simp only:)
qed

text \<open>The five largest recipients: with sound amounts, \<open>getTopRecipients\<close> lists up to five
  distinct accounts that were sent something, each with the exact sum of what was sent to it, of
  whatever asset, rounded to seven digits; and no account that is left out was sent more, after
  rounding, than one that is listed.\<close>

lemma top_recipients_largest:
  assumes "sound_payments ps"
  shows "distinct (map fst (top_recipients ps))
    \<and> length (top_recipients ps) = min 5 (card (recipients ps))
    \<and> (\<forall>(a, t) \<in> set (top_recipients ps). a \<in> recipients ps \<and> t = toFixed 7 (Fin (sent_to ps a)))
    \<and> (\<forall>b \<in> recipients ps - fst ` set (top_recipients ps). \<forall>a \<in> fst ` set (top_recipients ps).
         cents (sent_to ps b) \<le> cents (sent_to ps a))"
proof -
  let ?row = "\<lambda>a. (a, toFixed 7 (Fin (sent_to ps a)))" and ?key = "\<lambda>(a, t). - cents (sent_to ps a)"
  define names where "names = map fst (recipient_totals ps)"
  define rows where "rows = sort_key ?key (map ?row names)"
  have names: "distinct names" "set names = recipients ps"
    using recipient_totals_sound [OF assms] by (simp_all add: names_def)
  have listed: "top_recipients ps = take 5 rows"
    unfolding rows_def names_def by (rule top_recipients_sorted [OF assms])
  have rows: "set rows = ?row ` recipients ps" "distinct (map fst rows)" "length rows = card (recipients ps)"
    using names distinct_card [OF names(1)] by (simp_all add: rows_def comp_def)
  have keys: "sorted (map ?key rows)" by (simp add: rows_def)
  have one: "distinct (map fst (take 5 rows))" using rows(2) by (simp add: take_map [symmetric])
  have two: "length (take 5 rows) = min 5 (card (recipients ps))" using rows(3) by simp
  have three: "a \<in> recipients ps \<and> t = toFixed 7 (Fin (sent_to ps a))" if "(a, t) \<in> set (take 5 rows)" for a t
    using in_set_takeD [OF that] rows(1) by auto
  have four: "cents (sent_to ps b) \<le> cents (sent_to ps a)"
    if b: "b \<in> recipients ps" "b \<notin> fst ` set (take 5 rows)" and a: "a \<in> fst ` set (take 5 rows)" for a b
  proof -
    have "?row b \<in> set rows" using b(1) rows(1) by blast
    moreover have "?row b \<notin> set (take 5 rows)" using b(2) by force
    ultimately have late: "?row b \<in> set (drop 5 rows)"
      by (metis Un_iff append_take_drop_id set_append)
    obtain t where early: "(a, t) \<in> set (take 5 rows)" using a by auto
    have "?key (a, t) \<le> ?key (?row b)" by (rule sorted_take_drop [OF keys early late])
    then show ?thesis by simp
  qed
  have "\<forall>(a, t) \<in> set (take 5 rows). a \<in> recipients ps \<and> t = toFixed 7 (Fin (sent_to ps a))"
    by (intro ballI) (clarsimp dest!: three simp del: toFixed.simps)
  moreover have "\<forall>b \<in> recipients ps - fst ` set (take 5 rows). \<forall>a \<in> fst ` set (take 5 rows).
      cents (sent_to ps b) \<le> cents (sent_to ps a)"
    using four by (intro ballI) (elim DiffE)
  ultimately show ?thesis unfolding listed using one two by (intro conjI)
qed

definition demo_payment :: "string \<Rightarrow> string \<Rightarrow> payment" where
  "demo_payment to amount = \<lparr>pm_id = [], pm_sent = True, pm_amount = amount, pm_asset = ''XLM'', pm_from = ''A'',
     pm_to = to, pm_memo = None, pm_createdAt = [], pm_hash = [], pm_token = []\<rparr>"

theorem top_recipients_largest_example:
  "length (top_recipients [demo_payment ''B'' ''5'', demo_payment ''C'' ''7'', demo_payment ''B'' ''1'']) = 2"
proof -
  have amounts: "amount_of (demo_payment a (show_nat n)) = Fin (of_nat n)" for a n
    by (simp add: amount_of_def demo_payment_def parseFloat_show_nat)
  have shown: "''5'' = show_nat 5" "''7'' = show_nat 7" "''1'' = show_nat 1" by code_simp+
  have sound: "sound_payments [demo_payment ''B'' ''5'', demo_payment ''C'' ''7'', demo_payment ''B'' ''1'']"
    unfolding sound_payments_def shown by (simp add: amounts)
  have "recipients [demo_payment ''B'' ''5'', demo_payment ''C'' ''7'', demo_payment ''B'' ''1''] = {''B'', ''C''}"
    by (simp add: recipients_list demo_payment_def insert_commute)
  moreover have "''B'' \<noteq> ''C''" by simp
  ultimately have "card (recipients [demo_payment ''B'' ''5'', demo_payment ''C'' ''7'', demo_payment ''B'' ''1'']) = 2"
    by simp
  then show ?thesis using top_recipients_largest [OF sound] by simp
qed

section \<open>What the figures mean\<close>

text \<open>The statistics do not look at the asset: every amount counts as XLM.\<close>

lemma statistics_ignore_asset:
  "summary_of pk (map (pm_asset_update f) ps) = summary_of pk ps"
  "stats_of (map (pm_asset_update f) ps) = stats_of ps"
  "top_recipients (map (pm_asset_update f) ps) = top_recipients ps"
proof -
  have amount: "amount_of (pm_asset_update f p) = amount_of p" for p by (simp add: amount_of_def)
  have "amount_of \<circ> pm_asset_update f = amount_of" by (rule ext) (simp add: amount)
  then show "summary_of pk (map (pm_asset_update f) ps) = summary_of pk ps"
    "stats_of (map (pm_asset_update f) ps) = stats_of ps"
    by (simp_all add: summary_of_def stats_of_def add_amounts_def filter_map comp_def amount Let_def cong: if_cong)
  have "recipient_totals (map (pm_asset_update f) ps) = recipient_totals ps"
    by (simp add: recipient_totals_def filter_map comp_def foldl_map amount)
  then show "top_recipients (map (pm_asset_update f) ps) = top_recipients ps" by (simp add: top_recipients_def)
qed

text \<open>A full answer of Horizon that holds an operation of another type is a short page, and a short
  page is the last one.\<close>

lemma filtered_page_ends_history:
  assumes "account_id pk" and "se_operations env pk limit cursor = Inr ops" and "length ops \<le> limit"
    and "op \<in> set ops" and "\<not> is_payment op" and "ps_payments st (pk, limit) = None" and "truthy_text cursor = cursor"
    and "getPaymentsHandler ce env pk limit cursor st = (Page a, st')"
  shows "pg_next a = None \<and> \<not> pg_more a"
proof -
  have "length (filter is_payment ops) < length ops" using assms(4,5) by (intro length_filter_less)
  then have "length (payments_of env pk ops) \<noteq> limit" using assms(3) by (simp add: payments_of_def)
  moreover obtain ca where "getPayments env pk limit cursor (ps_payments st) = (Inr (payments_of env pk ops), ca)"
    using assms(1,2,6,7) by (cases "cursor = None \<and> limit = 20") (auto simp: getPayments_def validatePublicKey_def Let_def)
  moreover obtain r cca where "countPaymentsApprox env pk 200 (ps_counts st) = (r, cca)" by (metis surj_pair)
  ultimately show ?thesis using assms(8)
    by (cases r) (auto simp: getPaymentsHandler_def formatPaginatedResponse_def Let_def)
qed

text \<open>The days' counts add up to the payments whose date can be read.\<close>

lemma activity_adds_up:
  "(\<Sum>(d, i, n) \<leftarrow> activity_of env ps. n) = length (filter (\<lambda>p. se_date env (pm_createdAt p) \<noteq> None) ps)"
proof -
  have day: "\<exists>d < 7. getUTCDay t = int d" for t
    by (rule exI [of _ "nat (getUTCDay t)"]) (simp add: getUTCDay_def nat_less_iff)
  have "(\<Sum>d < 7. length (filter (on_day env d) ps)) = length (filter (\<lambda>p. se_date env (pm_createdAt p) \<noteq> None) ps)"
  proof (induction ps)
    case (Cons p ps)
    show ?case
    proof (cases "se_date env (pm_createdAt p)")
      case (Some t)
      obtain d where d: "d < 7" "getUTCDay t = int d" using day by blast
      then have "length (filter (on_day env i) (p # ps)) = (if i = d then 1 else 0) + length (filter (on_day env i) ps)" for i
        using Some by (simp add: on_day_def)
      then have "(\<Sum>i < 7. length (filter (on_day env i) (p # ps))) = 1 + (\<Sum>i < 7. length (filter (on_day env i) ps))"
        using d(1) by (simp only: sum.distrib) simp
      then show ?thesis using Cons Some by simp
    qed (use Cons in \<open>simp add: on_day_def\<close>)
  qed simp
  moreover have "(\<Sum>(d, i, n) \<leftarrow> activity_of env ps. n) = (\<Sum>d < 7. length (filter (on_day env d) ps))"
    unfolding activity_of_def
    by (simp add: comp_def interv_sum_list_conv_sum_set_nat atLeast0LessThan del: upt_Suc)
  ultimately show ?thesis by simp
qed

section \<open>The native balance\<close>

text \<open>The balance reported as XLM: Horizon lists the native balance last, and \<open>getXLMBalance\<close>
  takes the first balance whose code is XLM, so the answer is the native balance exactly as long as
  the account holds no issued asset that calls itself XLM; when it does, the answer is the balance of
  the first such asset, whoever issued it.\<close>

lemma xlm_balance_spoofed:
  assumes "account_id pk" and "ca pk = None" and "se_account env pk = Inr h"
    and "ha_balances h = bs @ [n]" and "hb_type n = ''native''" and "list_all (\<lambda>b. hb_type b \<noteq> ''native'') bs"
  shows "fst (getXLMBalance env pk ca) =
    Inr (case List.find (\<lambda>b. hb_code b = Some ''XLM'') bs of None \<Rightarrow> hb_balance n | Some b \<Rightarrow> hb_balance b)"
proof -
  let ?xlm = "\<lambda>b. ba_code b = Some ''XLM''"
  have "List.find ?xlm (map native_or_code (bs @ [n])) =
    Some (native_or_code (case List.find (\<lambda>b. hb_code b = Some ''XLM'') bs of None \<Rightarrow> n | Some b \<Rightarrow> b))"
    using assms(6)
  proof (induction bs)
    case Nil
    then show ?case using assms(5) by (simp add: native_or_code_def)
  next
    case (Cons b bs)
    then show ?case by (simp add: native_or_code_def)
  qed
  moreover have "ba_balance (native_or_code b) = hb_balance b" for b by (simp add: native_or_code_def)
  ultimately show ?thesis using assms(1-4)
    by (simp add: getXLMBalance_def getAccount_def validatePublicKey_def Let_def split: option.split)
qed

definition spoofed_account :: horizon_account where
  "spoofed_account = \<lparr>ha_sequence = ''7'', ha_balances =
     [\<lparr>hb_type = ''credit_alphanum4'', hb_code = Some ''XLM'', hb_issuer = Some ''GFAKE'', hb_balance = ''1000000''\<rparr>,
      \<lparr>hb_type = ''native'', hb_code = None, hb_issuer = None, hb_balance = ''2''\<rparr>], ha_subentries = 1\<rparr>"

theorem xlm_balance_spoofed_example:
  "fst (getXLMBalance (demo_stellar\<lparr>se_account := \<lambda>_. Inr spoofed_account\<rparr>) demo_key Map.empty) = Inr ''1000000''"
  using xlm_balance_spoofed [of demo_key Map.empty "demo_stellar\<lparr>se_account := \<lambda>_. Inr spoofed_account\<rparr>"
      spoofed_account "[hd (ha_balances spoofed_account)]" "last (ha_balances spoofed_account)"] demo_key_ok(2)
  by (simp add: spoofed_account_def)

end
