(* ===== verification/HorizonRetry.thy ===== *)
theory HorizonRetry
  imports JsResult
begin

text \<open>
  The calls of \<open>backend/src/services/stellarService.js\<close> to Horizon: which errors are transient, and
  the loop that gives each attempt a time limit and repeats transient failures with a growing pause.

  An attempt is what the call answers and after how many milliseconds; \<open>None\<close>: never.
\<close>

record failure =
  fl_error :: thrown
  fl_name :: string

definition DEFAULT_TIMEOUT_MS :: nat where "DEFAULT_TIMEOUT_MS = 10000"
definition MAX_RETRIES :: nat where "MAX_RETRIES = 3"

definition status_of :: "thrown \<Rightarrow> nat option" where
  "status_of e = (case th_response e of Some s \<Rightarrow> Some s | None \<Rightarrow> th_status e)"

definition isTransientError :: "failure \<Rightarrow> bool" where
  "isTransientError f =
     (case status_of (fl_error f) of
        Some s \<Rightarrow> if s = 404 then False else 500 \<le> s \<or> fl_name f = ''AbortError''
          \<or> list_ex (str_includes (th_message (fl_error f))) [''ECONNRESET'', ''ETIMEDOUT'', ''ENOTFOUND'', ''network'']
      | None \<Rightarrow> fl_name f = ''AbortError''
          \<or> list_ex (str_includes (th_message (fl_error f))) [''ECONNRESET'', ''ETIMEDOUT'', ''ENOTFOUND'', ''network''])"

definition abort_error :: failure where
  "abort_error = \<lparr>fl_error = plain_error ''Horizon request timed out'', fl_name = ''AbortError''\<rparr>"

type_synonym 'a attempt = "(failure + 'a) \<times> nat option"

text \<open>\<open>Promise.race\<close> of the call and the timer.\<close>

definition race :: "nat \<Rightarrow> 'a attempt \<Rightarrow> (failure + 'a) \<times> nat" where
  "race timeoutMs a =
     (case snd a of
        None \<Rightarrow> (Inl abort_error, timeoutMs)
      | Some t \<Rightarrow> if t < timeoutMs then (fst a, t) else (Inl abort_error, timeoutMs))"

text \<open>The result, the number of attempts made and the milliseconds they took with the pauses.\<close>

function retry_from :: "(nat \<Rightarrow> 'a attempt) \<Rightarrow> nat \<Rightarrow> nat \<Rightarrow> (failure + 'a) \<times> nat \<times> nat" where
  "retry_from fn timeoutMs attempt =
     (case race timeoutMs (fn attempt) of
        (Inr result, t) \<Rightarrow> (Inr result, 1, t)
      | (Inl err, t) \<Rightarrow>
          if \<not> isTransientError err \<or> MAX_RETRIES \<le> attempt then (Inl err, 1, t)
          else case retry_from fn timeoutMs (attempt + 1) of
                 (r, k, u) \<Rightarrow> (r, Suc k, t + 100 * 2 ^ attempt + u))"
  by pat_completeness auto

termination
  by (relation "measure (\<lambda>(fn, timeoutMs, attempt). MAX_RETRIES - attempt)") auto

declare retry_from.simps [simp del]

definition withTimeoutAndRetry :: "(nat \<Rightarrow> 'a attempt) \<Rightarrow> nat \<Rightarrow> (failure + 'a) \<times> nat \<times> nat" where
  "withTimeoutAndRetry fn timeoutMs = retry_from fn timeoutMs 0"

lemma race_time: "snd (race timeoutMs a) \<le> timeoutMs"
  by (simp add: race_def split: option.split)

lemma abort_transient: "isTransientError abort_error"
  by (simp add: isTransientError_def abort_error_def status_of_def plain_error_def)

text \<open>What a run of attempts from \<open>a\<close> on tells.\<close>

definition ran :: "(nat \<Rightarrow> 'a attempt) \<Rightarrow> nat \<Rightarrow> nat \<Rightarrow> (failure + 'a) \<times> nat \<times> nat \<Rightarrow> bool" where
  "ran fn timeoutMs a run \<longleftrightarrow> (case run of (r, k, t) \<Rightarrow>
     1 \<le> k \<and> a + k \<le> MAX_RETRIES + 1 \<and> r = fst (race timeoutMs (fn (a + k - 1)))
     \<and> (\<forall>j < k - 1. \<exists>e. fst (race timeoutMs (fn (a + j))) = Inl e \<and> isTransientError e)
     \<and> (\<forall>e. r = Inl e \<longrightarrow> \<not> isTransientError e \<or> a + k = MAX_RETRIES + 1)
     \<and> t + 100 * 2 ^ a \<le> k * timeoutMs + 100 * 2 ^ (a + k - 1))"

lemma ran_facts:
  assumes "ran fn timeoutMs a (r, k, t)"
  shows "1 \<le> k" "a + k \<le> MAX_RETRIES + 1" "r = fst (race timeoutMs (fn (a + k - 1)))"
    "j < k - 1 \<Longrightarrow> \<exists>e. fst (race timeoutMs (fn (a + j))) = Inl e \<and> isTransientError e"
    "r = Inl e \<Longrightarrow> \<not> isTransientError e \<or> a + k = MAX_RETRIES + 1"
    "t + 100 * 2 ^ a \<le> k * timeoutMs + 100 * 2 ^ (a + k - 1)"
  using assms unfolding ran_def prod.case by blast+

lemma ran_once:
  assumes "race timeoutMs (fn a) = (r, t)" and "a \<le> MAX_RETRIES"
    and "\<And>e. r = Inl e \<Longrightarrow> \<not> isTransientError e \<or> MAX_RETRIES \<le> a"
  shows "ran fn timeoutMs a (r, 1, t)"
  using assms race_time [of timeoutMs "fn a"] unfolding ran_def prod.case by auto

lemma ran_again:
  assumes "race timeoutMs (fn a) = (Inl e, t)" and "isTransientError e"
    and run: "ran fn timeoutMs (a + 1) (r, k, u)"
  shows "ran fn timeoutMs a (r, Suc k, t + 100 * 2 ^ a + u)"
proof -
  have t: "t \<le> timeoutMs" using race_time [of timeoutMs "fn a"] assms(1) by simp
  have failed: "\<exists>e. fst (race timeoutMs (fn (a + j))) = Inl e \<and> isTransientError e" if "j < Suc k - 1" for j
  proof (cases j)
    case (Suc i)
    then show ?thesis using ran_facts(4) [OF run, of i] that by simp
  qed (use assms in simp)
  have slot: "a + Suc k - 1 = a + 1 + k - 1" by simp
  have "(t + 100 * 2 ^ a + u) + 100 * 2 ^ a \<le> Suc k * timeoutMs + 100 * 2 ^ (a + Suc k - 1)"
    using ran_facts(6) [OF run] t unfolding slot by simp
  moreover have "\<not> isTransientError e' \<or> a + Suc k = MAX_RETRIES + 1" if "r = Inl e'" for e'
    using ran_facts(5) [OF run that] by simp
  moreover have "1 \<le> Suc k" "a + Suc k \<le> MAX_RETRIES + 1" using ran_facts(2) [OF run] by simp_all
  moreover have "r = fst (race timeoutMs (fn (a + Suc k - 1)))" using ran_facts(3) [OF run] unfolding slot .
  ultimately show ?thesis using failed unfolding ran_def prod.case by blast
qed

lemma retry_ran: "a \<le> MAX_RETRIES \<Longrightarrow> ran fn timeoutMs a (retry_from fn timeoutMs a)"
proof (induction "MAX_RETRIES - a" arbitrary: a rule: less_induct)
  case less
  obtain r t where rt: "race timeoutMs (fn a) = (r, t)" by (metis surj_pair)
  show ?case
  proof (cases "\<exists>e. r = Inl e \<and> isTransientError e \<and> a < MAX_RETRIES")
    case False
    then have "retry_from fn timeoutMs a = (r, 1, t)"
      by (subst retry_from.simps) (auto simp: rt split: sum.split)
    then show ?thesis using ran_once [of timeoutMs fn a, OF rt less.prems] False by (auto simp: not_less)
  next
    case True
    then obtain e where e: "r = Inl e" "isTransientError e" "a < MAX_RETRIES" by blast
    obtain s k u where more: "retry_from fn timeoutMs (a + 1) = (s, k, u)" by (metis surj_pair)
    have "ran fn timeoutMs (a + 1) (s, k, u)" using less.hyps [of "a + 1"] e(3) more by simp
    then have "ran fn timeoutMs a (s, Suc k, t + 100 * 2 ^ a + u)"
      using e rt by (intro ran_again) simp_all
    moreover have "retry_from fn timeoutMs a = (s, Suc k, t + 100 * 2 ^ a + u)"
      by (subst retry_from.simps) (use e in \<open>simp add: rt more [simplified]\<close>)
    ultimately show ?thesis by simp
  qed
qed

text \<open>C37. A call to Horizon ends: it makes at most four attempts and takes at most four time limits
  and the 700 milliseconds of pauses, even if Horizon never answers; every attempt but the last failed
  with a transient error, the answer is that of the last one, and an error is only passed on when it is
  not transient or all four attempts are used up.\<close>

theorem horizon_call_bounded:
  assumes "withTimeoutAndRetry fn timeoutMs = (r, k, t)"
  shows "1 \<le> k \<and> k \<le> 4 \<and> t \<le> k * timeoutMs + 700 \<and> r = fst (race timeoutMs (fn (k - 1)))
    \<and> (\<forall>j < k - 1. \<exists>e. fst (race timeoutMs (fn j)) = Inl e \<and> isTransientError e)
    \<and> (\<forall>e. r = Inl e \<longrightarrow> \<not> isTransientError e \<or> k = 4)"
proof -
  have run: "ran fn timeoutMs 0 (r, k, t)"
    using retry_ran [of 0 fn timeoutMs] assms by (simp add: withTimeoutAndRetry_def)
  have k: "1 \<le> k" "k \<le> 4" and t: "t + 100 \<le> k * timeoutMs + 100 * 2 ^ (k - 1)"
    using ran_facts(1,2,6) [OF run] by (simp_all add: MAX_RETRIES_def)
  have "(2::nat) ^ (k - 1) \<le> 2 ^ 3" using k(2) by (intro power_increasing) simp_all
  then have "t \<le> k * timeoutMs + 700" using t by simp
  moreover have "r = fst (race timeoutMs (fn (k - 1)))" using ran_facts(3) [OF run] by simp
  moreover have "\<exists>e. fst (race timeoutMs (fn j)) = Inl e \<and> isTransientError e" if "j < k - 1" for j
    using ran_facts(4) [OF run that] by simp
  moreover have "\<not> isTransientError e \<or> k = 4" if "r = Inl e" for e
    using ran_facts(5) [OF run that] by (simp add: MAX_RETRIES_def)
  ultimately show ?thesis using k by (intro conjI allI impI)
qed

theorem horizon_call_bounded_witness:
  "snd (withTimeoutAndRetry (\<lambda>n. (Inr n :: failure + nat, None)) DEFAULT_TIMEOUT_MS) = (4, 40700)
    \<and> (40700::nat) \<le> 4 * DEFAULT_TIMEOUT_MS + 700"
proof -
  have run: "withTimeoutAndRetry (\<lambda>n. (Inr n :: failure + nat, None)) DEFAULT_TIMEOUT_MS = (Inl abort_error, 4, 40700)"
    by (simp add: withTimeoutAndRetry_def retry_from.simps race_def abort_transient MAX_RETRIES_def DEFAULT_TIMEOUT_MS_def)
  then show ?thesis using horizon_call_bounded [OF run] by simp
qed

end
