(* ===== verification/Usernames.thy ===== *)
theory Usernames
  imports RequestText SqlTable
begin

text \<open>
  \<open>backend/src/services/usernameService.js\<close> and \<open>backend/src/controllers/federationController.js\<close>, with
  the registration and resolution routes of \<open>backend/src/controllers/accountController.js\<close>: names of
  accounts, and the SEP-0002 federation answers made from them.

  The table has the unique columns \<open>username\<close> and \<open>public_key\<close>; its other columns are not read.
  HTTP requests and URL encoding are parameters (\<open>federation_env\<close>), as is the configuration.
\<close>

section \<open>The service\<close>

type_synonym names = "(string, string) table"

definition key_taken :: "string \<Rightarrow> names \<Rightarrow> bool" where
  "key_taken k t = list_ex (\<lambda>(u, k'). k' = k) t"

definition insert_name :: "string \<Rightarrow> string \<Rightarrow> names \<Rightarrow> thrown + names" where
  "insert_name u k t =
     (case (if key_taken k t then None else tb_insert u k t) of
        None \<Rightarrow> Inl (plain_error ''UNIQUE constraint failed'')
      | Some t' \<Rightarrow> Inr t')"

definition validateUsername :: "string \<Rightarrow> thrown + unit" where
  "validateUsername u =
     (if u = [] then Inl (http_error 400 ''Username is required'')
      else ensure (username_text u) (http_error 400
        ''Username must be 3-20 characters and contain only letters and numbers''))"

definition stellar_key :: "string \<Rightarrow> bool" where
  "stellar_key k \<longleftrightarrow> length k = 56 \<and> hd k = CHR ''G'' \<and> list_all base32_char (tl k)"

definition validateKey :: "string \<Rightarrow> thrown + unit" where
  "validateKey k =
     (if k = [] then Inl (http_error 400 ''Public key is required'')
      else ensure (stellar_key k) (http_error 400 ''Invalid Stellar public key format''))"

text \<open>The checks of a registration, and then its insert: other requests may come between them.\<close>

definition check_name :: "string \<Rightarrow> string \<Rightarrow> names \<Rightarrow> thrown + unit" where
  "check_name u k t =
     bnd (validateUsername u) (\<lambda>_. bnd (validateKey k) (\<lambda>_.
       bnd (ensure (tb_row t u = None) (http_error 409 ''Username already registered'')) (\<lambda>_.
         ensure (\<not> key_taken k t) (http_error 409 ''Public key already registered to another username''))))"

definition registerUsername :: "string \<Rightarrow> string \<Rightarrow> names \<Rightarrow> thrown + names" where
  "registerUsername u k t = bnd (check_name u k t) (\<lambda>_. insert_name u k t)"

definition resolveUsername :: "string \<Rightarrow> names \<Rightarrow> thrown + string" where
  "resolveUsername u t =
     bnd (validateUsername u) (\<lambda>_.
       case tb_row t u of None \<Rightarrow> Inl (http_error 404 ''Username not found'') | Some k \<Rightarrow> Inr k)"

definition removeUsername :: "string \<Rightarrow> names \<Rightarrow> thrown + names" where
  "removeUsername u t =
     bnd (validateUsername u) (\<lambda>_.
       case tb_delete (\<lambda>u' _. u' = u) t of
         (n, t') \<Rightarrow> if n = 0 then Inl (http_error 404 ''Username not found'') else Inr t')"

definition getAllUsernames :: "names \<Rightarrow> (string \<times> string) list" where
  "getAllUsernames t = t"

section \<open>Routes\<close>

datatype 'a reply = Reply nat 'a | Fault nat string | Next thrown

text \<open>\<open>POST /api/accounts/register\<close>: nobody needs to be logged in.\<close>

definition postRegister :: "string \<Rightarrow> string \<Rightarrow> names \<Rightarrow> (string \<times> string) reply \<times> names" where
  "postRegister u k t =
     (if \<not> username_text u \<or> \<not> stellar_key k then (Fault 400 ''VAL'', t)
      else case registerUsername u k t of
             Inl e \<Rightarrow> (Next e, t)
           | Inr t' \<Rightarrow> (Reply 201 (u, k), t'))"

text \<open>\<open>GET /api/accounts/resolve/:username\<close>\<close>

definition getResolve :: "string \<Rightarrow> names \<Rightarrow> (string \<times> string) reply" where
  "getResolve raw t =
     (case sanitizeUsername raw of
        None \<Rightarrow> Fault 400 ''VAL_INVALID_USERNAME''
      | Some u \<Rightarrow>
          if \<not> username_text u then Fault 400 ''VAL''
          else if to_lower u = ''alice'' then Fault 501 ''SRV_NOT_IMPLEMENTED''
          else case resolveUsername u t of Inl e \<Rightarrow> Next e | Inr k \<Rightarrow> Reply 200 (u, k))"

section \<open>Federation\<close>

definition newline :: "char \<Rightarrow> bool" where
  "newline c \<longleftrightarrow> c = CHR 0x0A \<or> c = CHR 0x0D"

text \<open>\<open>.replace(/\/.*$/, "")\<close>: from the first slash with no line break behind it.\<close>

fun cut_path :: "string \<Rightarrow> string" where
  "cut_path [] = []"
| "cut_path (c # r) = (if c = CHR ''/'' \<and> \<not> list_ex newline r then [] else c # cut_path r)"

definition cut_protocol :: "string \<Rightarrow> string" where
  "cut_protocol s =
     (if starts_with (to_lower s) ''http://'' then drop 7 s
      else if starts_with (to_lower s) ''https://'' then drop 8 s else s)"

definition stripProtocol :: "string \<Rightarrow> string" where
  "stripProtocol s = to_lower (trim (cut_path (cut_protocol s)))"

record federation_env =
  fe_domains :: "string option list"
  fe_more_domains :: "string option"
  fe_get :: "string \<Rightarrow> thrown + string"
  fe_query :: "string \<Rightarrow> thrown + (string option \<times> string)"
  fe_encode :: "string \<Rightarrow> string"

text \<open>The first setting that is not empty: \<open>FEDERATION_DOMAIN\<close>, \<open>DOMAIN\<close>, \<open>HOME_DOMAIN\<close>.\<close>

definition getPrimaryFederationDomain :: "federation_env \<Rightarrow> string" where
  "getPrimaryFederationDomain fe =
     stripProtocol (case filter (\<lambda>m. truthy_text m \<noteq> None) (fe_domains fe) of
       m # _ \<Rightarrow> the m | [] \<Rightarrow> ''stellarfinchippay.io'')"

definition getLocalFederationDomains :: "federation_env \<Rightarrow> string option \<Rightarrow> string list" where
  "getLocalFederationDomains fe host =
     [getPrimaryFederationDomain fe, ''stellarfinchippay.io'', ''stellarfinchippay.com'']
     @ filter (\<lambda>d. d \<noteq> []) (stripProtocol (case host of None \<Rightarrow> [] | Some h \<Rightarrow> h)
         # map stripProtocol (split_char CHR '','' (case fe_more_domains fe of None \<Rightarrow> [] | Some s \<Rightarrow> s)))"

definition isLocalFederationDomain :: "federation_env \<Rightarrow> string \<Rightarrow> string option \<Rightarrow> bool" where
  "isLocalFederationDomain fe domain host \<longleftrightarrow>
     List.member (getLocalFederationDomains fe host) (stripProtocol domain)"

text \<open>\<open>/^KEY\s*=\s*"([^"]+)"/\<close> at the front of a text.\<close>

definition quoted_value :: "string \<Rightarrow> string \<Rightarrow> string option" where
  "quoted_value key s =
     (if \<not> starts_with s key then None
      else case dropWhile is_space (drop (length key) s) of
             [] \<Rightarrow> None
           | c # r \<Rightarrow>
               if c \<noteq> CHR ''='' then None
               else case dropWhile is_space r of
                      [] \<Rightarrow> None
                    | q # t \<Rightarrow>
                        (let v = takeWhile (\<lambda>x. x \<noteq> CHR 0x22) t
                         in if q = CHR 0x22 \<and> v \<noteq> [] \<and> length v < length t then Some v else None))"

text \<open>The same match anywhere in the text.\<close>

fun quoted_within :: "string \<Rightarrow> string \<Rightarrow> string option" where
  "quoted_within key [] = quoted_value key []"
| "quoted_within key (c # r) =
     (case quoted_value key (c # r) of Some v \<Rightarrow> Some v | None \<Rightarrow> quoted_within key r)"

fun toml_lines :: "bool \<Rightarrow> string list \<Rightarrow> string option" where
  "toml_lines inside [] = None"
| "toml_lines inside (line # rest) =
     (let t = trim line
      in if t = [] \<or> starts_with t ''#'' then toml_lines inside rest
         else case quoted_value ''FEDERATION_SERVER'' t of
           Some v \<Rightarrow> Some v
         | None \<Rightarrow>
             if t = ''[FEDERATION_SERVER]'' then toml_lines True rest
             else if inside \<and> starts_with t ''SERVER'' then
               (case quoted_within ''SERVER'' t of Some v \<Rightarrow> Some v | None \<Rightarrow> toml_lines inside rest)
             else if inside \<and> starts_with t ''['' then None
             else toml_lines inside rest)"

definition parseFederationServer :: "string \<Rightarrow> string option" where
  "parseFederationServer toml = toml_lines False (split_char CHR 0x0A toml)"

type_synonym federation_answer = "string option \<times> string"

text \<open>An answer is the account it names and the address (or the foreign server's text).\<close>

definition forwardFederation :: "federation_env \<Rightarrow> string \<Rightarrow> string \<Rightarrow> thrown + federation_answer" where
  "forwardFederation fe query type =
     (case split_char CHR ''*'' query of
        [u, domain] \<Rightarrow>
          bnd (fe_get fe (''https://'' @ domain @ ''/.well-known/stellar.toml'')) (\<lambda>toml.
            case parseFederationServer toml of
              None \<Rightarrow> Inl (http_error 502 ''No federation server found in stellar.toml'')
            | Some server \<Rightarrow>
                bnd (fe_query fe (server @ ''?q='' @ fe_encode fe query @ ''&type='' @ type)) (\<lambda>answer.
                  case truthy_text (fst answer) of
                    Some a \<Rightarrow> bnd (ensure (stellar_key a)
                      (http_error 502 ''Invalid Stellar address returned from federation server'')) (\<lambda>_. Inr answer)
                  | None \<Rightarrow> Inr answer))
      | _ \<Rightarrow> Inl (plain_error ''Invalid stellar address format''))"

definition resolveStellarAddress ::
  "federation_env \<Rightarrow> names \<Rightarrow> string \<Rightarrow> string option \<Rightarrow> thrown + federation_answer" where
  "resolveStellarAddress fe t address host =
     (case split_char CHR ''*'' address of
        [usernameRaw, domainRaw] \<Rightarrow>
          (let username = to_lower (trim usernameRaw); domain = to_lower (trim domainRaw);
               local = username @ ''*'' @ domain
           in if username = [] \<or> domain = [] then Inl (http_error 400 ''Invalid stellar address format'')
              else if isLocalFederationDomain fe domain host
                then bnd (resolveUsername username t) (\<lambda>k. Inr (Some k, local))
              else forwardFederation fe local ''name'')
      | _ \<Rightarrow> Inl (http_error 400 ''Invalid stellar address format''))"

definition resolveAccountId :: "federation_env \<Rightarrow> names \<Rightarrow> string \<Rightarrow> thrown + federation_answer" where
  "resolveAccountId fe t accountId =
     (case List.find (\<lambda>(u, k). k = accountId) (getAllUsernames t) of
        Some (u, k) \<Rightarrow> Inr (Some accountId, u @ ''*'' @ getPrimaryFederationDomain fe)
      | None \<Rightarrow> Inl (http_error 404 ''Account ID not found''))"

definition resolveFederation ::
  "federation_env \<Rightarrow> names \<Rightarrow> string \<Rightarrow> string \<Rightarrow> string option \<Rightarrow> federation_answer reply" where
  "resolveFederation fe t q type host =
     (case (if type = ''name'' then resolveStellarAddress fe t q host else resolveAccountId fe t q) of
        Inr answer \<Rightarrow> Reply 200 answer
      | Inl e \<Rightarrow>
          if th_response e = Some 404 then Fault 404 ''Not found''
          else case th_status e of
                 Some s \<Rightarrow> if s \<noteq> 0 then Fault s (th_message e) else Next e
               | None \<Rightarrow> Next e)"

section \<open>One name, one account\<close>

definition names_ok :: "names \<Rightarrow> bool" where
  "names_ok t \<longleftrightarrow> distinct (map fst t) \<and> distinct (map snd t)
     \<and> (\<forall>(u, k) \<in> set t. username_text u \<and> stellar_key k)"

text \<open>Any request, with the registration's checks and its insert apart.\<close>

inductive name_step :: "names \<Rightarrow> names \<Rightarrow> bool" where
  insertion: "check_name u k old = Inr () \<Longrightarrow> insert_name u k t = Inr t' \<Longrightarrow> name_step t t'"
| removal: "removeUsername u t = Inr t' \<Longrightarrow> name_step t t'"

lemma check_valid: "check_name u k t = Inr () \<Longrightarrow> username_text u \<and> stellar_key k"
  by (auto simp: check_name_def validateUsername_def validateKey_def bnd_Inr split: if_splits)

lemma insert_name_Inr:
  "insert_name u k t = Inr t' \<longleftrightarrow> tb_row t u = None \<and> k \<notin> snd ` set t \<and> t' = t @ [(u, k)]"
  by (force simp: insert_name_def tb_insert_def key_taken_def list_ex_iff split: option.split)

lemma removeUsername_Inr:
  "removeUsername u t = Inr t' \<Longrightarrow> t' = filter (\<lambda>(u', k). u' \<noteq> u) t"
  by (auto simp: removeUsername_def tb_delete_def bnd_Inr split: if_splits)

lemma name_step_ok:
  assumes "name_step t t'" and "names_ok t"
  shows "names_ok t'"
  using assms(1)
proof cases
  case (insertion u k old)
  then have t': "tb_row t u = None" "k \<notin> snd ` set t" "t' = t @ [(u, k)]" "username_text u" "stellar_key k"
    using check_valid by (auto simp: insert_name_Inr)
  then have "u \<notin> fst ` set t" by (simp add: tb_row_def map_of_eq_None_iff)
  then show ?thesis using assms(2) t' by (auto simp: names_ok_def)
next
  case (removal u)
  then show ?thesis using assms(2) removeUsername_Inr [of u t t']
    by (auto simp: names_ok_def distinct_map intro: inj_on_subset)
qed

lemma names_stay_one_to_one:
  assumes "name_step\<^sup>*\<^sup>* [] t"
  shows "names_ok t"
  using assms
proof (induction rule: rtranclp_induct)
  case base
  show ?case by (simp add: names_ok_def)
next
  case (step y z)
  then show ?case using name_step_ok by blast
qed

text \<open>Whoever registers a key first holds it: later registrations of the key are refused.\<close>

lemma first_registration_wins:
  assumes "(u, k) \<in> set t" and "username_text v" and "stellar_key k" and "tb_row t v = None"
  shows "postRegister v k t = (Next (http_error 409 ''Public key already registered to another username''), t)"
proof -
  have "key_taken k t" using assms(1) by (auto simp: key_taken_def list_ex_iff)
  moreover have "v \<noteq> []" using assms(2) by (auto simp: username_text_def)
  moreover have "k \<noteq> []" using assms(3) by (auto simp: stellar_key_def)
  ultimately have "check_name v k t = Inl (http_error 409 ''Public key already registered to another username'')"
    using assms(2-4) by (simp add: check_name_def validateUsername_def validateKey_def)
  then show ?thesis using assms(2,3) by (simp add: postRegister_def registerUsername_def)
qed

section \<open>Addresses that come back\<close>

lemma alphanumeric_no_space: "alphanumeric c \<Longrightarrow> \<not> is_space c \<and> c \<noteq> CHR ''*''"
  by (auto simp: alphanumeric_def is_digit_def is_space_def Let_def)

lemma lower_alphanumeric_char: "alphanumeric c \<Longrightarrow> lower_alphanumeric (lower_char c)"
  by (auto simp: alphanumeric_def lower_alphanumeric_def lower_char_def is_digit_def Let_def)

lemma username_plain:
  assumes "username_text u"
  shows "trim u = u" "CHR ''*'' \<notin> set u" "u \<noteq> []" "to_lower u \<noteq> []" "sanitizeUsername u = Some (to_lower u)"
proof -
  have chars: "\<And>c. c \<in> set u \<Longrightarrow> alphanumeric c" and len: "3 \<le> length u" "length u \<le> 20"
    using assms by (auto simp: username_text_def list_all_iff)
  show trim: "trim u = u" by (rule trim_no_space) (simp add: chars alphanumeric_no_space)
  show "CHR ''*'' \<notin> set u" using chars alphanumeric_no_space by blast
  show ne: "u \<noteq> []" "to_lower u \<noteq> []" using len by (auto simp: to_lower_def)
  have "filter lower_alphanumeric (to_lower u) = to_lower u"
    by (rule filter_True) (auto simp: to_lower_def chars lower_alphanumeric_char)
  then show "sanitizeUsername u = Some (to_lower u)"
    using len ne(1) by (simp add: sanitizeUsername_def trim) (simp add: to_lower_def)
qed

text \<open>A configured domain in plain form: lower case, trimmed, without protocol, path or asterisk.\<close>

definition plain_domain :: "string \<Rightarrow> bool" where
  "plain_domain d \<longleftrightarrow> d \<noteq> [] \<and> CHR ''*'' \<notin> set d \<and> trim d = d \<and> to_lower d = d \<and> stripProtocol d = d"

lemma resolve_own_domain:
  assumes "username_text u" and "plain_domain (getPrimaryFederationDomain fe)"
  shows "resolveStellarAddress fe t (u @ ''*'' @ getPrimaryFederationDomain fe) host =
    bnd (resolveUsername (to_lower u) t) (\<lambda>k. Inr (Some k, to_lower u @ ''*'' @ getPrimaryFederationDomain fe))"
proof -
  let ?d = "getPrimaryFederationDomain fe"
  have split: "split_char CHR ''*'' (u @ ''*'' @ ?d) = [u, ?d]"
    using username_plain(2) [OF assms(1)] assms(2)
    by (simp add: split_char_append split_char_none plain_domain_def)
  have "isLocalFederationDomain fe ?d host"
    using assms(2) by (simp add: isLocalFederationDomain_def getLocalFederationDomains_def plain_domain_def)
  then show ?thesis
    using username_plain [OF assms(1)] assms(2)
    by (simp only: resolveStellarAddress_def split list.case Let_def plain_domain_def if_True if_False) simp
qed

text \<open>The \<open>Host\<close> header makes any domain a local one.\<close>

lemma host_header_makes_local:
  assumes "stripProtocol h \<noteq> []"
  shows "isLocalFederationDomain fe h (Some h)"
  using assms by (simp add: isLocalFederationDomain_def getLocalFederationDomains_def)

text \<open>The server of a standard \<open>stellar.toml\<close> is found behind comments and blank lines.\<close>

lemma toml_server_found:
  assumes "list_all (\<lambda>l. trim l = [] \<or> starts_with (trim l) ''#'') ls"
    and "quoted_value ''FEDERATION_SERVER'' (trim line) = Some v" and "trim line \<noteq> []" and "\<not> starts_with (trim line) ''#''"
  shows "toml_lines b (ls @ line # rest) = Some v"
  using assms by (induction ls) (auto simp: Let_def)

lemma resolve_row:
  assumes "names_ok t"
  shows "resolveUsername u t = Inr k \<longleftrightarrow> (u, k) \<in> set t"
proof -
  have "(u, k) \<in> set t \<Longrightarrow> username_text u" using assms by (auto simp: names_ok_def)
  moreover have "map_of t u = Some k \<longleftrightarrow> (u, k) \<in> set t"
    using assms by (simp add: names_ok_def)
  moreover have "username_text u \<Longrightarrow> u \<noteq> []" by (auto simp: username_text_def)
  ultimately show ?thesis
    by (auto simp: resolveUsername_def validateUsername_def tb_row_def bnd_Inr split: option.splits)
qed

lemma resolve_route:
  assumes "names_ok t" and "username_text u" and "(to_lower u, j) \<in> set t" and "to_lower u \<noteq> ''alice''"
  shows "getResolve u t = Reply 200 (to_lower u, j)"
proof -
  have "username_text (to_lower u)" using assms(1,3) by (auto simp: names_ok_def)
  moreover have "to_lower (to_lower u) = to_lower u" by (rule to_lower_idem)
  moreover have "resolveUsername (to_lower u) t = Inr j" using resolve_row assms(1,3) by blast
  ultimately show ?thesis
    using username_plain(5) [OF assms(2)] assms(4) by (simp add: getResolve_def)
qed

text \<open>C26. Federation addresses: for a registered account the answer to a query by id is its name at
  the primary domain, and that address leads back to the account exactly if the name has no capital
  letter. Names are registered as written but looked up in lower case, so a name with capitals leads
  nowhere, or, when somebody has registered the same name in lower case, to that other account.\<close>

theorem federation_address_returns:
  assumes "names_ok t" and "(u, k) \<in> set t" and "plain_domain (getPrimaryFederationDomain fe)"
  shows "resolveAccountId fe t k = Inr (Some k, u @ ''*'' @ getPrimaryFederationDomain fe)
    \<and> ((\<exists>a. resolveStellarAddress fe t (u @ ''*'' @ getPrimaryFederationDomain fe) host = Inr (Some k, a))
        \<longleftrightarrow> to_lower u = u)
    \<and> (\<forall>j. (to_lower u, j) \<in> set t \<longrightarrow>
         (\<exists>a. resolveStellarAddress fe t (u @ ''*'' @ getPrimaryFederationDomain fe) host = Inr (Some j, a)))"
proof (intro conjI)
  let ?addr = "u @ ''*'' @ getPrimaryFederationDomain fe"
  have u: "username_text u" using assms(1,2) by (auto simp: names_ok_def)
  have keys: "v = u" if "(v, k) \<in> set t" for v
  proof -
    have "inj_on snd (set t)" using assms(1) by (simp add: names_ok_def distinct_map)
    then have "(v, k) = (u, k)" using that assms(2) by (intro inj_onD [of snd "set t"]) simp_all
    then show ?thesis by simp
  qed
  have look: "(\<exists>a. resolveStellarAddress fe t ?addr host = Inr (Some j, a)) \<longleftrightarrow> (to_lower u, j) \<in> set t" for j
    unfolding resolve_own_domain [OF u assms(3)] bnd_Inr resolve_row [OF assms(1)] by auto
  have found: "List.find (\<lambda>(u, k'). k' = k) t = Some (u, k)"
    using assms(2) by (rule find_only) (use keys in auto)
  show "resolveAccountId fe t k = Inr (Some k, ?addr)"
    by (simp add: resolveAccountId_def getAllUsernames_def found)
  show "(\<exists>a. resolveStellarAddress fe t ?addr host = Inr (Some k, a)) \<longleftrightarrow> to_lower u = u"
    unfolding look
  proof
    assume "(to_lower u, k) \<in> set t"
    then show "to_lower u = u" by (rule keys)
  next
    assume "to_lower u = u"
    then show "(to_lower u, k) \<in> set t" using assms(2) by (simp only:)
  qed
  show "\<forall>j. (to_lower u, j) \<in> set t \<longrightarrow> (\<exists>a. resolveStellarAddress fe t ?addr host = Inr (Some j, a))"
    unfolding look by simp
qed

definition demo_names :: names where
  "demo_names = [(''Bob'', CHR ''G'' # replicate 55 CHR ''A''), (''bob'', CHR ''G'' # replicate 55 CHR ''B'')]"

definition demo_federation :: federation_env where
  "demo_federation = \<lparr>fe_domains = [], fe_more_domains = None, fe_get = (\<lambda>_. Inl (plain_error [])),
     fe_query = (\<lambda>_. Inl (plain_error [])), fe_encode = (\<lambda>s. s)\<rparr>"

lemma demo_names_ok: "names_ok demo_names"
  unfolding names_ok_def demo_names_def by code_simp

lemma demo_domain: "plain_domain (getPrimaryFederationDomain demo_federation)"
  by code_simp

theorem federation_address_returns_witness:
  "\<exists>a. resolveStellarAddress demo_federation demo_names
     (''Bob'' @ ''*'' @ getPrimaryFederationDomain demo_federation) None
   = Inr (Some (CHR ''G'' # replicate 55 CHR ''B''), a)"
proof -
  have "(''Bob'', CHR ''G'' # replicate 55 CHR ''A'') \<in> set demo_names" by (simp add: demo_names_def)
  moreover have "(to_lower ''Bob'', CHR ''G'' # replicate 55 CHR ''B'') \<in> set demo_names"
  proof -
    have "to_lower ''Bob'' = ''bob''" by code_simp
    then show ?thesis by (simp add: demo_names_def)
  qed
  ultimately show ?thesis
    using federation_address_returns [OF demo_names_ok _ demo_domain, of "''Bob''" _ None] by blast
qed

end
