(* ===== verification/ApiKeys.thy ===== *)
theory ApiKeys
  imports RequestText SqlTable JsDict
begin

text \<open>
  \<open>backend/src/services/apiKeyService.js\<close> with its routes \<open>backend/src/routes/apiKeys.js\<close>, and the
  middleware that lets requests in: \<open>auth.js\<close>, \<open>apiKeyAuth.js\<close> and \<open>combinedAuth.js\<close> of
  \<open>backend/src/middleware/\<close>.

  Keys are kept by their digest, in the table \<open>api_keys\<close> or, without a database, in a \<open>Map\<close>; the
  argument \<open>db\<close> says which. Digest, random keys and the verification of a signed token are parameters.
  Rate limits are left out.
\<close>

section \<open>Keys\<close>

record key_row =
  ak_owner :: string
  ak_hash :: string
  ak_prefix :: string
  ak_scopes :: "string list"
  ak_keys :: "string list"
  ak_revoked :: bool
  ak_created :: int
  ak_revoked_at :: "int option"
  ak_used :: "int option"

record key_env =
  ke_hash :: "string \<Rightarrow> string"
  ke_random :: "nat \<Rightarrow> string"

record key_store =
  ks_rows :: "(nat, key_row) table"
  ks_next :: nat
  ks_memory :: "(string, nat \<times> key_row) dict"
  ks_memory_next :: nat
  ks_drawn :: nat

definition VALID_SCOPES :: "string list" where
  "VALID_SCOPES = [''read'', ''payments:send'', ''admin'']"

text \<open>\<open>[...new Set(xs)]\<close>\<close>

definition uniques :: "'a list \<Rightarrow> 'a list" where
  "uniques xs = rev (remdups (rev xs))"

text \<open>\<open>None\<close>: no array.\<close>

definition normalizeScopes :: "string list option \<Rightarrow> thrown + string list" where
  "normalizeScopes scopes =
     (case scopes of
        None \<Rightarrow> Inl (plain_error ''At least one API key scope is required.'')
      | Some ss \<Rightarrow>
          bnd (ensure (ss \<noteq> []) (plain_error ''At least one API key scope is required.'')) (\<lambda>_.
            bnd (ensure (list_all (List.member VALID_SCOPES) ss) (plain_error ''Unsupported API key scope.'')) (\<lambda>_.
              Inr (uniques ss))))"

definition new_key_row :: "key_env \<Rightarrow> int \<Rightarrow> string \<Rightarrow> string list \<Rightarrow> string list \<Rightarrow> string \<Rightarrow> key_row" where
  "new_key_row ke now owner scopes keys raw =
     \<lparr>ak_owner = owner, ak_hash = ke_hash ke raw, ak_prefix = take 8 raw, ak_scopes = scopes, ak_keys = keys,
      ak_revoked = False, ak_created = now, ak_revoked_at = None, ak_used = None\<rparr>"

definition createKey ::
  "key_env \<Rightarrow> bool \<Rightarrow> int \<Rightarrow> string \<Rightarrow> string list option \<Rightarrow> string list \<Rightarrow> key_store
     \<Rightarrow> (thrown + (string \<times> nat \<times> key_row)) \<times> key_store" where
  "createKey ke db now owner scopes allowed st =
     (case bnd (normalizeScopes scopes) (\<lambda>ss.
             bnd (ensure (allowed \<noteq> [] \<and> list_all (\<lambda>k. k = owner) allowed)
               (plain_error ''API key public key scope is invalid.'')) (\<lambda>_. Inr ss)) of
        Inl e \<Rightarrow> (Inl e, st)
      | Inr ss \<Rightarrow>
          (let raw = ke_random ke (ks_drawn st); row = new_key_row ke now owner ss (uniques allowed) raw;
               st1 = st\<lparr>ks_drawn := Suc (ks_drawn st)\<rparr>
           in if db then
                (if tb_select (\<lambda>_ r. ak_hash r = ak_hash row) (ks_rows st) \<noteq> []
                 then (Inl (plain_error ''UNIQUE constraint failed''), st1)
                 else case tb_insert (ks_next st) row (ks_rows st) of
                        None \<Rightarrow> (Inl (plain_error ''UNIQUE constraint failed''), st1)
                      | Some t \<Rightarrow> (Inr (raw, ks_next st, row), st1\<lparr>ks_rows := t, ks_next := Suc (ks_next st)\<rparr>))
              else (Inr (raw, ks_memory_next st, row),
                    st1\<lparr>ks_memory := d_set (ak_hash row) (ks_memory_next st, row) (ks_memory st),
                        ks_memory_next := Suc (ks_memory_next st)\<rparr>)))"

definition used :: "int \<Rightarrow> key_row \<Rightarrow> key_row" where
  "used now r = r\<lparr>ak_used := Some now\<rparr>"

definition findByKey ::
  "key_env \<Rightarrow> bool \<Rightarrow> int \<Rightarrow> string option \<Rightarrow> key_store \<Rightarrow> (nat \<times> key_row) option \<times> key_store" where
  "findByKey ke db now raw st =
     (case truthy_text raw of
        None \<Rightarrow> (None, st)
      | Some key \<Rightarrow>
          (let h = ke_hash ke key
           in if db then
                (case tb_select (\<lambda>_ r. ak_hash r = h \<and> \<not> ak_revoked r) (ks_rows st) of
                   [] \<Rightarrow> (None, st)
                 | (i, r) # _ \<Rightarrow> (Some (i, r), st\<lparr>ks_rows := tb_set i (used now) (ks_rows st)\<rparr>))
              else case d_get (ks_memory st) h of
                     None \<Rightarrow> (None, st)
                   | Some (i, r) \<Rightarrow>
                       if ak_revoked r then (None, st)
                       else (Some (i, used now r), st\<lparr>ks_memory := d_set h (i, used now r) (ks_memory st)\<rparr>)))"

definition listKeys :: "bool \<Rightarrow> string \<Rightarrow> key_store \<Rightarrow> (nat \<times> key_row) list" where
  "listKeys db owner st =
     js_sort (\<lambda>(i, a) (j, b). ms (ak_created b - ak_created a))
       (filter (\<lambda>(i, r). ak_owner r = owner) (if db then ks_rows st else map snd (ks_memory st)))"

definition revoked :: "int \<Rightarrow> key_row \<Rightarrow> key_row" where
  "revoked now r = r\<lparr>ak_revoked := True, ak_revoked_at := Some now\<rparr>"

definition selected :: "string \<Rightarrow> jsnum \<Rightarrow> nat \<Rightarrow> key_row \<Rightarrow> bool" where
  "selected owner n i r \<longleftrightarrow> Fin (of_nat i) = n \<and> ak_owner r = owner \<and> \<not> ak_revoked r"

text \<open>The loop over the \<open>Map\<close> stops at the first entry it revokes.\<close>

fun revoke_first :: "string \<Rightarrow> jsnum \<Rightarrow> int \<Rightarrow> (string \<times> nat \<times> key_row) list \<Rightarrow> (string \<times> nat \<times> key_row) list option" where
  "revoke_first owner n now [] = None"
| "revoke_first owner n now ((h, i, r) # rest) =
     (if selected owner n i r then Some ((h, i, revoked now r) # rest)
      else map_option ((#) (h, i, r)) (revoke_first owner n now rest))"

definition revokeKey :: "bool \<Rightarrow> int \<Rightarrow> string \<Rightarrow> string \<Rightarrow> key_store \<Rightarrow> bool \<times> key_store" where
  "revokeKey db now owner rawId st =
     (if db then
        (case tb_update (selected owner (toNumber rawId)) (revoked now) (ks_rows st) of
           (n, t) \<Rightarrow> (0 < n, st\<lparr>ks_rows := t\<rparr>))
      else case revoke_first owner (toNumber rawId) now (ks_memory st) of
             None \<Rightarrow> (False, st)
           | Some m \<Rightarrow> (True, st\<lparr>ks_memory := m\<rparr>))"

definition clearAll :: "bool \<Rightarrow> key_store \<Rightarrow> key_store" where
  "clearAll db st =
     (let st1 = st\<lparr>ks_memory := [], ks_memory_next := 1\<rparr> in if db then st1\<lparr>ks_rows := []\<rparr> else st1)"

section \<open>Letting requests in\<close>

datatype access = Denied nat string | Granted string

text \<open>What \<open>jwt.verify\<close> makes of a text: the account of its payload, or why it refuses it.\<close>

datatype verified = Verified "string option" | Expired | Unsound string

definition verifyJWT :: "(string \<Rightarrow> verified) \<Rightarrow> string option \<Rightarrow> access" where
  "verifyJWT verify header =
     (case truthy_text header of
        None \<Rightarrow> Denied 401 ''AUTH_MISSING_HEADER''
      | Some h \<Rightarrow>
          if \<not> starts_with h ''Bearer '' then Denied 401 ''AUTH_MISSING_HEADER''
          else (let token = split_char CHR '' '' h ! 1
                in if length token < 10 then Denied 401 ''AUTH_INVALID_TOKEN''
                   else case verify token of
                     Verified (Some pk) \<Rightarrow> if account_id pk then Granted pk else Denied 401 ''AUTH_INVALID_TOKEN''
                   | Verified None \<Rightarrow> Denied 401 ''AUTH_INVALID_TOKEN''
                   | Expired \<Rightarrow> Denied 401 ''TOKEN_EXPIRED''
                   | Unsound _ \<Rightarrow> Denied 401 ''AUTH_INVALID_TOKEN''))"

definition requireAdmin :: "string option \<Rightarrow> string option \<Rightarrow> bool" where
  "requireAdmin setting user =
     (let keys = filter (\<lambda>k. k \<noteq> []) (map trim (split_char CHR '','' (case setting of None \<Rightarrow> [] | Some s \<Rightarrow> s)))
      in case truthy_text user of None \<Rightarrow> False | Some u \<Rightarrow> List.member keys u)"

definition hasScope :: "string \<Rightarrow> key_row \<Rightarrow> bool" where
  "hasScope s r \<longleftrightarrow> List.member (ak_scopes r) s"

text \<open>\<open>a || b || c\<close>\<close>

definition first_truthy :: "string option list \<Rightarrow> string option" where
  "first_truthy xs = (case filter (\<lambda>m. truthy_text m \<noteq> None) xs of [] \<Rightarrow> None | m # _ \<Rightarrow> m)"

text \<open>The body's \<open>publicKey\<close>, \<open>sourcePublicKey\<close> and \<open>senderPublicKey\<close> come as a list; \<open>user\<close> is the
  account an earlier middleware set.\<close>

definition apiKeyAuth ::
  "key_env \<Rightarrow> bool \<Rightarrow> int \<Rightarrow> string option \<Rightarrow> string option \<Rightarrow> string option list \<Rightarrow> string option \<Rightarrow> key_store
     \<Rightarrow> access \<times> key_store" where
  "apiKeyAuth ke db now scope raw body user st =
     (if truthy_text raw = None then (Denied 401 ''AUTH_MISSING_HEADER'', st)
      else case findByKey ke db now raw st of
        (None, st') \<Rightarrow> (Denied 401 ''AUTH_INVALID_TOKEN'', st')
      | (Some (i, r), st') \<Rightarrow>
          if scope = Some ''read'' \<and> \<not> hasScope ''read'' r \<and> \<not> hasScope ''payments:send'' r
          then (Denied 403 ''AUTH_FORBIDDEN'', st')
          else if truthy_text scope \<noteq> None \<and> scope \<noteq> Some ''read'' \<and> \<not> hasScope (the scope) r
          then (Denied 403 ''AUTH_FORBIDDEN'', st')
          else if scope = Some ''payments:send''
            \<and> (case first_truthy body of None \<Rightarrow> True | Some k \<Rightarrow> \<not> List.member (ak_keys r) k)
          then (Denied 403 ''AUTH_FORBIDDEN'', st')
          else (Granted (case user of None \<Rightarrow> ak_owner r | Some u \<Rightarrow> u), st'))"

definition combinedAuth ::
  "(string \<Rightarrow> verified) \<Rightarrow> key_env \<Rightarrow> bool \<Rightarrow> int \<Rightarrow> string option \<Rightarrow> string option \<Rightarrow> string option
     \<Rightarrow> string option list \<Rightarrow> key_store \<Rightarrow> access \<times> key_store" where
  "combinedAuth verify ke db now scope header raw body st =
     (if truthy_text raw \<noteq> None then apiKeyAuth ke db now scope raw body None st
      else (verifyJWT verify header, st))"

section \<open>Routes\<close>

datatype key_reply = Created string nat key_row | Keys "(nat \<times> key_row) list" | Revoked | Refused string

text \<open>\<open>POST /\<close>, \<open>GET /\<close> and \<open>DELETE /:id\<close>, for the account a verified token names.\<close>

definition postKey ::
  "key_env \<Rightarrow> bool \<Rightarrow> int \<Rightarrow> string \<Rightarrow> string list option \<Rightarrow> string list option \<Rightarrow> key_store \<Rightarrow> key_reply \<times> key_store" where
  "postKey ke db now user scopes publicKeys st =
     (let allowed = (case publicKeys of None \<Rightarrow> [user] | Some ks \<Rightarrow> ks)
      in if allowed = [] \<or> list_ex (\<lambda>k. k \<noteq> user) allowed then (Refused ''AUTH_FORBIDDEN'', st)
         else case createKey ke db now user scopes allowed st of
                (Inl e, st') \<Rightarrow> (Refused ''VAL_INVALID_QUERY_PARAM'', st')
              | (Inr (raw, i, r), st') \<Rightarrow> (Created raw i r, st'))"

definition getKeys :: "bool \<Rightarrow> string \<Rightarrow> key_store \<Rightarrow> key_reply" where
  "getKeys db user st = Keys (listKeys db user st)"

definition deleteKey :: "bool \<Rightarrow> int \<Rightarrow> string \<Rightarrow> string \<Rightarrow> key_store \<Rightarrow> key_reply \<times> key_store" where
  "deleteKey db now user rawId st =
     (case revokeKey db now user rawId st of
        (done, st') \<Rightarrow> (if done then Revoked else Refused ''RES_NOT_FOUND'', st'))"

section \<open>The rows of both stores\<close>

definition rows_of :: "bool \<Rightarrow> key_store \<Rightarrow> (nat \<times> key_row) list" where
  "rows_of db st = (if db then ks_rows st else map snd (ks_memory st))"

text \<open>What an operation may change in a row: the time of its last use, and it may revoke it.\<close>

definition kept :: "key_row \<Rightarrow> key_row \<Rightarrow> bool" where
  "kept r s \<longleftrightarrow> ak_owner s = ak_owner r \<and> ak_hash s = ak_hash r \<and> ak_scopes s = ak_scopes r
     \<and> ak_keys s = ak_keys r \<and> (ak_revoked r \<longrightarrow> ak_revoked s)"

definition all_kept :: "(nat \<times> key_row) list \<Rightarrow> (nat \<times> key_row) list \<Rightarrow> bool" where
  "all_kept xs ys \<longleftrightarrow> list_all2 (\<lambda>x y. fst x = fst y \<and> kept (snd x) (snd y)) xs ys"

lemma kept_simps [simp]: "kept r r" "kept r (used now r)" "kept r (revoked now r)"
  by (simp_all add: kept_def used_def revoked_def)

lemma all_kept_refl [simp]: "all_kept xs xs"
  by (simp add: all_kept_def list_all2_refl)

lemma all_kept_map: "(\<And>x. kept (snd x) (snd (f x)) \<and> fst (f x) = fst x) \<Longrightarrow> all_kept xs (map f xs)"
  by (simp add: all_kept_def list_all2_map2 list_all2_refl)

lemma all_kept_tb_update: "(\<And>r. kept r (f r)) \<Longrightarrow> all_kept t (snd (tb_update P f t))"
  unfolding tb_update_def snd_conv by (rule all_kept_map) (simp split: prod.split)

lemma all_kept_in:
  assumes "all_kept xs ys" and "(i, s) \<in> set ys"
  shows "\<exists>r. (i, r) \<in> set xs \<and> kept r s"
  using assms unfolding all_kept_def by (induction rule: list_all2_induct) auto

lemma all_kept_maps:
  assumes "all_kept xs ys"
  shows "map fst ys = map fst xs" "map (\<lambda>x. ak_hash (snd x)) ys = map (\<lambda>x. ak_hash (snd x)) xs"
  using assms unfolding all_kept_def by (induction rule: list_all2_induct) (simp_all add: kept_def)

lemma all_kept_update: "map_of m h = Some (i, r) \<Longrightarrow> kept r s \<Longrightarrow>
    all_kept (map snd m) (map snd (AList.update h (i, s) m)) \<and> map fst (AList.update h (i, s) m) = map fst m"
  by (induction m) (auto simp: all_kept_def list_all2_refl split: if_splits)

lemma revoke_first_kept: "revoke_first owner n now m = Some m' \<Longrightarrow>
    all_kept (map snd m) (map snd m') \<and> map fst m' = map fst m"
  by (induction m arbitrary: m') (auto simp: all_kept_def list_all2_refl split: if_splits)

lemma find_kept:
  assumes "findByKey ke db now raw st = (x, st')"
  shows "all_kept (rows_of b st) (rows_of b st')
    \<and> map fst (ks_memory st') = map fst (ks_memory st)
    \<and> ks_drawn st' = ks_drawn st \<and> ks_next st' = ks_next st \<and> ks_memory_next st' = ks_memory_next st"
  using assms
  by (auto simp: findByKey_def rows_of_def Let_def all_kept_tb_update d_set_def d_get_def all_kept_update
      split: option.splits list.splits prod.splits if_splits)

lemma revoke_kept:
  assumes "revokeKey db now owner rawId st = (x, st')"
  shows "all_kept (rows_of b st) (rows_of b st')
    \<and> map fst (ks_memory st') = map fst (ks_memory st)
    \<and> ks_drawn st' = ks_drawn st \<and> ks_next st' = ks_next st \<and> ks_memory_next st' = ks_memory_next st"
proof (cases db)
  case True
  then have "st' = st\<lparr>ks_rows := snd (tb_update (selected owner (toNumber rawId)) (revoked now) (ks_rows st))\<rparr>"
    using assms by (auto simp: revokeKey_def split: prod.splits)
  then show ?thesis by (simp add: rows_of_def all_kept_tb_update)
next
  case False
  then show ?thesis using assms revoke_first_kept
    by (fastforce simp: revokeKey_def rows_of_def split: option.splits)
qed

text \<open>Everything requests do with the stores.\<close>

inductive key_step :: "key_env \<Rightarrow> key_store \<Rightarrow> key_store \<Rightarrow> bool" for ke where
  create: "key_step ke st (snd (createKey ke db now owner scopes allowed st))"
| find: "key_step ke st (snd (findByKey ke db now raw st))"
| revoke: "key_step ke st (snd (revokeKey db now owner rawId st))"
| clear: "key_step ke st (clearAll db st)"

definition fresh_keys :: key_store where
  "fresh_keys = \<lparr>ks_rows = [], ks_next = 1, ks_memory = [], ks_memory_next = 1, ks_drawn = 0\<rparr>"

definition row_ok :: "key_env \<Rightarrow> nat \<Rightarrow> key_row \<Rightarrow> bool" where
  "row_ok ke n r \<longleftrightarrow> set (ak_keys r) = {ak_owner r} \<and> ak_scopes r \<noteq> [] \<and> set (ak_scopes r) \<subseteq> set VALID_SCOPES
     \<and> (\<exists>m < n. ak_hash r = ke_hash ke (ke_random ke m))"

definition next_id :: "bool \<Rightarrow> key_store \<Rightarrow> nat" where
  "next_id db st = (if db then ks_next st else ks_memory_next st)"

definition hashes :: "key_store \<Rightarrow> string list" where
  "hashes st = map (\<lambda>x. ak_hash (snd x)) (rows_of True st @ rows_of False st)"

definition keys_inv :: "key_env \<Rightarrow> key_store \<Rightarrow> bool" where
  "keys_inv ke st \<longleftrightarrow>
     (\<forall>db. distinct (map fst (rows_of db st)) \<and> (\<forall>(i, r) \<in> set (rows_of db st). i < next_id db st \<and> row_ok ke (ks_drawn st) r))
     \<and> distinct (hashes st) \<and> map fst (ks_memory st) = map (\<lambda>x. ak_hash (snd x)) (rows_of False st)"

lemma keys_inv_parts:
  assumes "keys_inv ke st"
  shows "distinct (map fst (rows_of b st))" "distinct (hashes st)"
    "map fst (ks_memory st) = map (\<lambda>x. ak_hash (snd x)) (rows_of False st)"
    "(i, r) \<in> set (rows_of b st) \<Longrightarrow> i < next_id b st" "(i, r) \<in> set (rows_of b st) \<Longrightarrow> row_ok ke (ks_drawn st) r"
  using assms unfolding keys_inv_def by blast+

lemma keys_invI:
  assumes "\<And>b. distinct (map fst (rows_of b st))" and "distinct (hashes st)"
    and "map fst (ks_memory st) = map (\<lambda>x. ak_hash (snd x)) (rows_of False st)"
    and "\<And>b i r. (i, r) \<in> set (rows_of b st) \<Longrightarrow> i < next_id b st \<and> row_ok ke (ks_drawn st) r"
  shows "keys_inv ke st"
  using assms unfolding keys_inv_def by blast

lemma row_ok_kept: "row_ok ke n r \<Longrightarrow> kept r s \<Longrightarrow> row_ok ke n s"
  by (simp add: row_ok_def kept_def)

lemma row_ok_later: "row_ok ke n r \<Longrightarrow> n \<le> m \<Longrightarrow> row_ok ke m r"
  by (auto simp: row_ok_def intro: less_le_trans)

lemma keys_inv_kept:
  assumes "keys_inv ke st" and "\<And>b. all_kept (rows_of b st) (rows_of b st')"
    and "map fst (ks_memory st') = map fst (ks_memory st)"
    and "ks_drawn st' = ks_drawn st" "ks_next st' = ks_next st" "ks_memory_next st' = ks_memory_next st"
  shows "keys_inv ke st'"
proof -
  have ids: "map fst (rows_of b st') = map fst (rows_of b st)" for b using all_kept_maps(1) assms(2) by blast
  have hs: "map (\<lambda>x. ak_hash (snd x)) (rows_of b st') = map (\<lambda>x. ak_hash (snd x)) (rows_of b st)" for b
    using all_kept_maps(2) assms(2) by blast
  have "i < next_id b st' \<and> row_ok ke (ks_drawn st') s" if s: "(i, s) \<in> set (rows_of b st')" for b i s
  proof -
    obtain r where "(i, r) \<in> set (rows_of b st)" "kept r s" using all_kept_in [OF assms(2) s] by blast
    then show ?thesis using assms(1,4-6) row_ok_kept by (fastforce simp: keys_inv_def next_id_def)
  qed
  moreover have "hashes st' = hashes st" by (simp add: hashes_def hs)
  ultimately show ?thesis using assms(1,3) ids hs by (auto simp: keys_inv_def)
qed

text \<open>The random keys have digests of their own.\<close>

definition fresh_draws :: "key_env \<Rightarrow> bool" where
  "fresh_draws ke \<longleftrightarrow> inj (\<lambda>n. ke_hash ke (ke_random ke n))"

definition add_row :: "bool \<Rightarrow> key_row \<Rightarrow> key_store \<Rightarrow> key_store" where
  "add_row db r st =
     (if db then st\<lparr>ks_rows := ks_rows st @ [(ks_next st, r)], ks_next := Suc (ks_next st), ks_drawn := Suc (ks_drawn st)\<rparr>
      else st\<lparr>ks_memory := ks_memory st @ [(ak_hash r, ks_memory_next st, r)],
              ks_memory_next := Suc (ks_memory_next st), ks_drawn := Suc (ks_drawn st)\<rparr>)"

lemma set_uniques [simp]: "set (uniques xs) = set xs"
  by (simp add: uniques_def)

lemma uniques_Nil [simp]: "uniques xs = [] \<longleftrightarrow> xs = []"
  by (simp add: uniques_def)

lemma hash_drawn: "keys_inv ke st \<Longrightarrow> h \<in> set (hashes st) \<Longrightarrow> \<exists>m < ks_drawn st. h = ke_hash ke (ke_random ke m)"
  by (fastforce simp: keys_inv_def hashes_def row_ok_def)

lemma hash_fresh:
  assumes "keys_inv ke st" and "fresh_draws ke"
  shows "ke_hash ke (ke_random ke (ks_drawn st)) \<notin> set (hashes st)"
  using hash_drawn [OF assms(1)] assms(2) unfolding fresh_draws_def by (metis injD less_irrefl)

lemma create_cases:
  assumes "createKey ke db now owner scopes allowed st = (x, st')" and "keys_inv ke st" and "fresh_draws ke"
  shows "st' = st \<or> st' = st\<lparr>ks_drawn := Suc (ks_drawn st)\<rparr>
    \<or> (\<exists>r. st' = add_row db r st \<and> row_ok ke (Suc (ks_drawn st)) r \<and> \<not> ak_revoked r
         \<and> ak_hash r = ke_hash ke (ke_random ke (ks_drawn st)))"
proof (cases "bnd (normalizeScopes scopes) (\<lambda>ss. bnd (ensure (allowed \<noteq> [] \<and> list_all (\<lambda>k. k = owner) allowed)
    (plain_error ''API key public key scope is invalid.'')) (\<lambda>_. Inr ss))")
  case (Inl e)
  then show ?thesis using assms(1) by (simp add: createKey_def)
next
  case (Inr ss)
  let ?raw = "ke_random ke (ks_drawn st)"
  let ?row = "new_key_row ke now owner ss (uniques allowed) ?raw"
  have ss: "ss \<noteq> []" "set ss \<subseteq> set VALID_SCOPES" and some: "allowed \<noteq> []" "set allowed \<subseteq> {owner}"
    using Inr by (auto simp: ok_steps normalizeScopes_def list_all_iff split: option.splits)
  then have allowed: "allowed \<noteq> []" "set allowed = {owner}" by (cases allowed; auto)+
  have ok: "row_ok ke (Suc (ks_drawn st)) ?row"
    using ss allowed by (auto simp: row_ok_def new_key_row_def)
  have "ak_hash ?row \<notin> fst ` set (ks_memory st)"
  proof
    assume "ak_hash ?row \<in> fst ` set (ks_memory st)"
    then have "ak_hash ?row \<in> set (map fst (ks_memory st))" by simp
    then have "ak_hash ?row \<in> set (hashes st)" unfolding keys_inv_parts(3) [OF assms(2)] by (simp add: hashes_def)
    then show False using hash_fresh [OF assms(2,3)] by (simp add: new_key_row_def)
  qed
  then have "d_set (ak_hash ?row) (ks_memory_next st, ?row) (ks_memory st) = ks_memory st @ [(ak_hash ?row, ks_memory_next st, ?row)]"
    by (simp add: d_set_def update_fresh)
  then have "st' = st\<lparr>ks_drawn := Suc (ks_drawn st)\<rparr> \<or> st' = add_row db ?row st"
    using assms(1) Inr
    by (auto simp: createKey_def Let_def add_row_def tb_insert_def split: if_splits option.splits)
  moreover have "\<not> ak_revoked ?row" "ak_hash ?row = ke_hash ke ?raw" by (simp_all add: new_key_row_def)
  ultimately show ?thesis using ok by blast
qed

lemma rows_add: "rows_of b (add_row db r st) = rows_of b st @ (if b = db then [(next_id db st, r)] else [])"
  by (simp add: rows_of_def add_row_def next_id_def)

lemma next_add: "next_id b (add_row db r st) = next_id b st + (if b = db then 1 else 0)"
  by (simp add: next_id_def add_row_def)

lemma drawn_add: "ks_drawn (add_row db r st) = Suc (ks_drawn st)"
  by (simp add: add_row_def)

lemma keys_inv_add:
  assumes inv: "keys_inv ke st" and "row_ok ke (Suc (ks_drawn st)) r" and "ak_hash r \<notin> set (hashes st)"
  shows "keys_inv ke (add_row db r st)"
proof -
  have old: "i < next_id b st" "row_ok ke (Suc (ks_drawn st)) s" if "(i, s) \<in> set (rows_of b st)" for b i s
    using inv that row_ok_later [of ke "ks_drawn st" s "Suc (ks_drawn st)"] by (auto simp: keys_inv_def)
  have "distinct (map fst (rows_of b (add_row db r st)))" for b
    using inv old(1) by (fastforce simp: keys_inv_def rows_add)
  moreover have "i < next_id b (add_row db r st) \<and> row_ok ke (ks_drawn (add_row db r st)) s"
    if "(i, s) \<in> set (rows_of b (add_row db r st))" for b i s
    using that old [of i s b] assms(2) by (auto simp: rows_add next_add drawn_add less_Suc_eq split: if_splits)
  moreover have "distinct (hashes (add_row db r st))"
    using inv assms(3) by (auto simp: keys_inv_def hashes_def rows_add)
  moreover have "map fst (ks_memory (add_row db r st)) = map (\<lambda>x. ak_hash (snd x)) (rows_of False (add_row db r st))"
    using inv by (simp add: keys_inv_def rows_add) (simp add: add_row_def)
  ultimately show ?thesis by (auto simp: keys_inv_def)
qed

lemma drawn_only [simp]:
  "rows_of b (st\<lparr>ks_drawn := n\<rparr>) = rows_of b st" "next_id b (st\<lparr>ks_drawn := n\<rparr>) = next_id b st"
  "hashes (st\<lparr>ks_drawn := n\<rparr>) = hashes st"
  by (simp_all add: rows_of_def next_id_def hashes_def)

lemma keys_inv_drawn:
  assumes "keys_inv ke st"
  shows "keys_inv ke (st\<lparr>ks_drawn := Suc (ks_drawn st)\<rparr>)"
proof -
  have "row_ok ke (Suc (ks_drawn st)) r" if "(i, r) \<in> set (rows_of b st)" for b i r
    using assms that row_ok_later [of ke "ks_drawn st" r "Suc (ks_drawn st)"] by (auto simp: keys_inv_def)
  then show ?thesis using assms by (auto simp: keys_inv_def)
qed

lemma rows_clear: "rows_of b (clearAll db st) = (if b \<and> \<not> db then rows_of True st else [])"
  by (simp add: rows_of_def clearAll_def Let_def)

lemma keys_inv_clear:
  assumes "keys_inv ke st"
  shows "keys_inv ke (clearAll db st)"
proof -
  have "next_id True (clearAll db st) = next_id True st" "ks_drawn (clearAll db st) = ks_drawn st"
    "ks_memory (clearAll db st) = []"
    by (simp_all add: next_id_def clearAll_def Let_def)
  moreover have "distinct (hashes (clearAll db st))"
    using keys_inv_parts(2) [OF assms] by (simp add: hashes_def rows_clear)
  ultimately show ?thesis using keys_inv_parts(1,4,5) [OF assms]
    by (intro keys_invI) (auto simp: rows_clear split: if_splits)
qed

lemma keys_inv_step:
  assumes "key_step ke st st'" and inv: "keys_inv ke st" and "fresh_draws ke"
  shows "keys_inv ke st'"
  using assms(1)
proof cases
  case (create db now owner scopes allowed)
  then have "createKey ke db now owner scopes allowed st = (fst (createKey ke db now owner scopes allowed st), st')"
    by simp
  from create_cases [OF this inv assms(3)] show ?thesis
    using inv keys_inv_drawn keys_inv_add hash_fresh [OF inv assms(3)] by metis
next
  case (find db now raw)
  then have "findByKey ke db now raw st = (fst (findByKey ke db now raw st), st')" by simp
  from find_kept [OF this] show ?thesis by (intro keys_inv_kept [OF inv]) simp_all
next
  case (revoke db now owner rawId)
  then have "revokeKey db now owner rawId st = (fst (revokeKey db now owner rawId st), st')" by simp
  from revoke_kept [OF this] show ?thesis by (intro keys_inv_kept [OF inv]) simp_all
next
  case (clear db)
  then show ?thesis using inv keys_inv_clear by simp
qed

lemma keys_inv_fresh: "keys_inv ke fresh_keys"
  by (simp add: keys_inv_def fresh_keys_def rows_of_def hashes_def)

lemma keys_inv_reachable: "(key_step ke)\<^sup>*\<^sup>* fresh_keys st \<Longrightarrow> fresh_draws ke \<Longrightarrow> keys_inv ke st"
  by (induction rule: rtranclp_induct) (auto intro: keys_inv_fresh keys_inv_step)

section \<open>What a key opens\<close>

lemma find_found:
  assumes "findByKey ke db now raw st = (Some (i, r), st')" and "keys_inv ke st"
  shows "\<exists>s key. raw = Some key \<and> (i, s) \<in> set (rows_of db st) \<and> kept s r \<and> \<not> ak_revoked s \<and> ak_hash s = ke_hash ke key"
proof (cases db)
  case True
  then show ?thesis using assms(1)
    by (auto simp: findByKey_def Let_def rows_of_def truthy_text_def tb_select_def split: option.splits list.splits
        prod.splits if_splits dest!: filter_eq_ConsD)
next
  case False
  then obtain key s where key: "raw = Some key" "map_of (ks_memory st) (ke_hash ke key) = Some (i, s)"
    "\<not> ak_revoked s" "r = used now s"
    using assms(1) by (auto simp: findByKey_def Let_def d_get_def truthy_text_def split: option.splits if_splits)
  then have entry: "(ke_hash ke key, i, s) \<in> set (ks_memory st)" by (intro map_of_SomeD)
  have "map (\<lambda>x. ak_hash (snd (snd x))) (ks_memory st) = map fst (ks_memory st)"
    using assms(2) by (simp add: keys_inv_def rows_of_def comp_def)
  then have "ak_hash s = ke_hash ke key" using entry by (metis (mono_tags, lifting) fst_conv map_eq_conv snd_conv)
  then show ?thesis using key entry False by (force simp: rows_of_def)
qed

text \<open>C10. An API key opens no more than it was made for: whenever a request with a key is let in, in
  any state the operations can reach, the store in use holds a row of that key that is not revoked,
  the request runs as the account that owns the row, the row has the scope the route asks for (a
  payment scope covers reading), and on a route that sends payments the account the request names is
  the owner itself.\<close>

theorem api_key_confined:
  assumes "(key_step ke)\<^sup>*\<^sup>* fresh_keys st" and "fresh_draws ke" and "truthy_text raw \<noteq> None"
    and "combinedAuth verify ke db now (Some scope) header raw body st = (Granted user, st')" and "scope \<noteq> []"
  shows "\<exists>i r. (i, r) \<in> set (rows_of db st) \<and> ak_hash r = ke_hash ke (the raw) \<and> \<not> ak_revoked r \<and> user = ak_owner r
    \<and> (hasScope scope r \<or> scope = ''read'' \<and> hasScope ''payments:send'' r)
    \<and> (scope = ''payments:send'' \<longrightarrow> first_truthy body = Some user)"
proof -
  have inv: "keys_inv ke st" by (rule keys_inv_reachable [OF assms(1,2)])
  have auth: "apiKeyAuth ke db now (Some scope) raw body None st = (Granted user, st')"
    using assms(3,4) by (simp add: combinedAuth_def)
  obtain found st2 where found: "findByKey ke db now raw st = (found, st2)" by (metis surj_pair)
  obtain i r where r: "found = Some (i, r)" "user = ak_owner r"
    "hasScope scope r \<or> scope = ''read'' \<and> hasScope ''payments:send'' r"
    "scope = ''payments:send'' \<longrightarrow> (\<exists>k. first_truthy body = Some k \<and> k \<in> set (ak_keys r))"
    using auth assms(3,5) found unfolding apiKeyAuth_def
    by (cases found) (auto simp: truthy_text_def split: if_splits option.splits)
  obtain s key where s: "raw = Some key" "(i, s) \<in> set (rows_of db st)" "kept s r" "\<not> ak_revoked s"
    "ak_hash s = ke_hash ke key"
    using find_found [OF found [unfolded r(1)] inv] by blast
  have "set (ak_keys s) = {ak_owner s}" using keys_inv_parts(5) [OF inv s(2)] by (simp add: row_ok_def)
  then have "scope = ''payments:send'' \<longrightarrow> first_truthy body = Some user" using r s(3) by (auto simp: kept_def)
  then show ?thesis using r s by (intro exI [of _ i] exI [of _ s]) (auto simp: kept_def hasScope_def)
qed

definition demo_key_env :: key_env where
  "demo_key_env = \<lparr>ke_hash = (\<lambda>s. s), ke_random = (\<lambda>n. CHR ''k'' # show_nat n)\<rparr>"

lemma demo_draws: "fresh_draws demo_key_env"
proof (unfold fresh_draws_def, rule injI)
  fix m n assume "ke_hash demo_key_env (ke_random demo_key_env m) = ke_hash demo_key_env (ke_random demo_key_env n)"
  then have "show_nat m = show_nat n" by (simp add: demo_key_env_def)
  then show "m = n" by (metis read_show_nat)
qed

definition demo_key_store :: "bool \<Rightarrow> key_store" where
  "demo_key_store db = snd (createKey demo_key_env db 5 ''GA'' (Some [''payments:send'']) [''GA''] fresh_keys)"

lemma demo_key_reach: "(key_step demo_key_env)\<^sup>*\<^sup>* fresh_keys (demo_key_store db)"
  unfolding demo_key_store_def by (intro r_into_rtranclp key_step.create)

definition demo_key_row :: key_row where
  "demo_key_row = new_key_row demo_key_env 5 ''GA'' [''payments:send''] [''GA''] ''k0''"

lemma demo_key_rows: "rows_of True (demo_key_store True) = [(1, demo_key_row)]"
  by code_simp

lemma demo_key_granted:
  "fst (combinedAuth (\<lambda>_. Expired) demo_key_env True 6 (Some ''payments:send'') None (Some ''k0'') [Some ''GA'']
     (demo_key_store True)) = Granted ''GA''"
  by code_simp

theorem api_key_confined_witness:
  "\<exists>i r. (i, r) \<in> set (rows_of True (demo_key_store True)) \<and> \<not> ak_revoked r \<and> ''GA'' = ak_owner r"
proof -
  obtain st' where "combinedAuth (\<lambda>_. Expired) demo_key_env True 6 (Some ''payments:send'') None (Some ''k0'') [Some ''GA'']
      (demo_key_store True) = (Granted ''GA'', st')"
    using demo_key_granted by (metis prod.collapse)
  from api_key_confined [OF demo_key_reach demo_draws _ this] show ?thesis
    by (auto simp: truthy_text_def)
qed

section \<open>Revoked for good\<close>

definition dead :: "key_env \<Rightarrow> string \<Rightarrow> key_store \<Rightarrow> bool" where
  "dead ke h st \<longleftrightarrow> (\<exists>m < ks_drawn st. h = ke_hash ke (ke_random ke m))
     \<and> (\<forall>b i r. (i, r) \<in> set (rows_of b st) \<and> ak_hash r = h \<longrightarrow> ak_revoked r)"

lemma dead_kept:
  assumes "dead ke h st" and "\<And>b. all_kept (rows_of b st) (rows_of b st')" and "ks_drawn st' = ks_drawn st"
  shows "dead ke h st'"
proof -
  have "ak_revoked s" if s: "(i, s) \<in> set (rows_of b st')" "ak_hash s = h" for b i s
  proof -
    obtain r where r: "(i, r) \<in> set (rows_of b st)" "kept r s" using all_kept_in [OF assms(2) s(1)] by blast
    then have "ak_hash r = h" using s(2) by (simp add: kept_def)
    then have "ak_revoked r" using assms(1) r(1) unfolding dead_def by blast
    then show ?thesis using r(2) by (simp add: kept_def)
  qed
  then show ?thesis using assms(1,3) unfolding dead_def by metis
qed

lemma dead_step:
  assumes "key_step ke st st'" and inv: "keys_inv ke st" and "fresh_draws ke" and "dead ke h st"
  shows "dead ke h st'"
  using assms(1)
proof cases
  case (create db now owner scopes allowed)
  have new: "h \<noteq> ke_hash ke (ke_random ke (ks_drawn st))"
    using assms(3,4) unfolding dead_def fresh_draws_def by (metis injD less_irrefl)
  have "createKey ke db now owner scopes allowed st = (fst (createKey ke db now owner scopes allowed st), st')"
    using create by simp
  then consider "st' = st" | "st' = st\<lparr>ks_drawn := Suc (ks_drawn st)\<rparr>"
    | r where "st' = add_row db r st" "ak_hash r = ke_hash ke (ke_random ke (ks_drawn st))"
    using create_cases [OF _ inv assms(3)] by blast
  then show ?thesis
  proof cases
    case 2
    then show ?thesis using assms(4) by (auto simp: dead_def intro: less_SucI)
  next
    case (3 r)
    then show ?thesis using assms(4) new by (auto simp: dead_def rows_add drawn_add intro: less_SucI split: if_splits)
  qed (use assms(4) in simp)
next
  case (find db now raw)
  then have "findByKey ke db now raw st = (fst (findByKey ke db now raw st), st')" by simp
  from find_kept [OF this] show ?thesis by (intro dead_kept [OF assms(4)]) simp_all
next
  case (revoke db now owner rawId)
  then have "revokeKey db now owner rawId st = (fst (revokeKey db now owner rawId st), st')" by simp
  from revoke_kept [OF this] show ?thesis by (intro dead_kept [OF assms(4)]) simp_all
next
  case (clear db)
  have "ks_drawn (clearAll db st) = ks_drawn st" by (simp add: clearAll_def Let_def)
  then show ?thesis using assms(4) clear by (auto simp: dead_def rows_clear split: if_splits)
qed

lemma dead_reachable:
  assumes "(key_step ke)\<^sup>*\<^sup>* st st'" and "keys_inv ke st" and "fresh_draws ke" and "dead ke h st"
  shows "keys_inv ke st' \<and> dead ke h st'"
  using assms by (induction rule: rtranclp_induct) (auto intro: keys_inv_step dead_step)

lemma revoke_first_hits:
  "revoke_first owner n now m = Some m' \<Longrightarrow> distinct (map (\<lambda>x. fst (snd x)) m) \<Longrightarrow> (h, i, r) \<in> set m \<Longrightarrow>
     selected owner n i r \<Longrightarrow> (h', i, s) \<in> set m' \<Longrightarrow> ak_revoked s"
proof (induction m arbitrary: m')
  case (Cons x m)
  obtain h0 i0 r0 where x: "x = (h0, i0, r0)" by (metis surj_pair)
  have other: "i \<noteq> i0" if "(k, i, q) \<in> set m" for k q
    using Cons.prems(2) that x by (force simp: image_iff)
  show ?case
  proof (cases "selected owner n i0 r0")
    case True
    then have "i0 = i" using Cons.prems(4) by (auto simp: selected_def)
    moreover have "m' = (h0, i0, revoked now r0) # m" using Cons.prems(1) True x by simp
    ultimately show ?thesis using Cons.prems(5) other by (auto simp: revoked_def)
  next
    case False
    then obtain m1 where m1: "revoke_first owner n now m = Some m1" "m' = (h0, i0, r0) # m1"
      using Cons.prems(1) x by auto
    have r: "(h, i, r) \<in> set m" using Cons.prems(3,4) False x by auto
    then have "(h', i, s) \<in> set m1" using Cons.prems(5) m1(2) other [OF r] by auto
    then show ?thesis using Cons.IH [OF m1(1) _ r Cons.prems(4)] Cons.prems(2) by simp
  qed
qed simp

lemma mapped_row: "(i, s) \<in> (\<lambda>(k, q). (k, g k q)) ` A \<Longrightarrow> \<exists>q. (i, q) \<in> A \<and> s = g i q"
  by auto

lemma revoke_hits:
  assumes "revokeKey db now owner rawId st = (True, st')" and "keys_inv ke st"
    and r: "(i, r) \<in> set (rows_of db st)" "selected owner (toNumber rawId) i r"
    and s: "(i, s) \<in> set (rows_of db st')"
  shows "ak_revoked s"
proof (cases db)
  case True
  have rows: "rows_of True st' = snd (tb_update (selected owner (toNumber rawId)) (revoked now) (rows_of True st))"
    using assms(1) True by (auto simp: revokeKey_def rows_of_def split: prod.splits)
  have "(i, s) \<in> (\<lambda>(k, q). (k, if selected owner (toNumber rawId) k q then revoked now q else q)) ` set (rows_of True st)"
    using s True by (simp add: rows tb_update_def)
  then obtain q where q: "(i, q) \<in> set (rows_of True st)"
    "s = (if selected owner (toNumber rawId) i q then revoked now q else q)"
    using mapped_row by fast
  moreover have "q = r"
    using q(1) r(1) True keys_inv_parts(1) [OF assms(2), of True] eq_key_imp_eq_value by metis
  ultimately show ?thesis using r(2) by (simp add: revoked_def)
next
  case False
  obtain m where m: "revoke_first owner (toNumber rawId) now (ks_memory st) = Some m" "st' = st\<lparr>ks_memory := m\<rparr>"
    using assms(1) False by (auto simp: revokeKey_def split: option.splits)
  have "distinct (map (\<lambda>x. fst (snd x)) (ks_memory st))"
    using keys_inv_parts(1) [OF assms(2), of False] by (simp add: rows_of_def comp_def)
  moreover obtain h h' where "(h, i, r) \<in> set (ks_memory st)" "(h', i, s) \<in> set m"
    using r(1) s m(2) False by (auto simp: rows_of_def)
  ultimately show ?thesis using revoke_first_hits [OF m(1)] r(2) by blast
qed

lemma hash_unique:
  assumes "keys_inv ke st" and "(i, r) \<in> set (rows_of b st)" and "(j, s) \<in> set (rows_of c st)" and "ak_hash s = ak_hash r"
  shows "b = c \<and> i = j \<and> r = s"
proof -
  have dist: "distinct (map (\<lambda>x. ak_hash (snd x)) (rows_of True st))" "distinct (map (\<lambda>x. ak_hash (snd x)) (rows_of False st))"
    "(\<lambda>x. ak_hash (snd x)) ` set (rows_of True st) \<inter> (\<lambda>x. ak_hash (snd x)) ` set (rows_of False st) = {}"
    using keys_inv_parts(2) [OF assms(1)] by (simp_all add: hashes_def)
  have "ak_hash q \<in> (\<lambda>x. ak_hash (snd x)) ` set (rows_of d st)" if "(k, q) \<in> set (rows_of d st)" for k q d
    using that by (rule image_eqI [rotated]) simp
  from this [OF assms(2)] this [OF assms(3)] have "b = c"
    using dist(3) unfolding assms(4) by (cases b; cases c) (simp_all add: disjoint_iff)
  moreover have "inj_on (\<lambda>x. ak_hash (snd x)) (set (rows_of c st))" using dist by (cases c) (simp_all add: distinct_map)
  then have "(i, r) = (j, s)" if "b = c"
    using that assms(2-4) by (intro inj_onD [of "\<lambda>x. ak_hash (snd x)" "set (rows_of c st)"]) simp_all
  ultimately show ?thesis by simp
qed

text \<open>C11. A revoked key stays revoked: once its owner has revoked a key, every later request with it is
  refused, by either store, whatever requests came in between, further keys and cleared stores
  included.\<close>

theorem revoked_key_refused:
  assumes "(key_step ke)\<^sup>*\<^sup>* fresh_keys st" and "fresh_draws ke"
    and "(i, r) \<in> set (rows_of db st)" and "selected owner (toNumber rawId) i r"
    and "revokeKey db now owner rawId st = (True, st1)"
    and "(key_step ke)\<^sup>*\<^sup>* st1 st2" and "ke_hash ke key = ak_hash r" and "key \<noteq> []"
  shows "fst (combinedAuth verify ke db2 now2 scope header (Some key) body st2) = Denied 401 ''AUTH_INVALID_TOKEN''"
proof -
  have inv: "keys_inv ke st" by (rule keys_inv_reachable [OF assms(1,2)])
  note change = revoke_kept [OF assms(5)]
  have inv1: "keys_inv ke st1" using change by (intro keys_inv_kept [OF inv]) simp_all
  have closed: "ak_revoked s" if s: "(j, s) \<in> set (rows_of b st1)" "ak_hash s = ak_hash r" for b j s
  proof -
    obtain q where q: "(j, q) \<in> set (rows_of b st)" "kept q s" using all_kept_in s(1) change by blast
    have "ak_hash r = ak_hash q" using s(2) q(2) by (simp add: kept_def)
    then have "b = db \<and> j = i \<and> q = r" by (rule hash_unique [OF inv q(1) assms(3)])
    then show ?thesis using revoke_hits [OF assms(5) inv assms(3,4)] s(1) by blast
  qed
  have drawn: "\<exists>m < ks_drawn st1. ak_hash r = ke_hash ke (ke_random ke m)"
    using keys_inv_parts(5) [OF inv assms(3)] change by (auto simp: row_ok_def)
  have "dead ke (ak_hash r) st1"
    unfolding dead_def by (intro conjI allI impI drawn; elim conjE; rule closed)
  then have st2: "keys_inv ke st2" "dead ke (ak_hash r) st2" using dead_reachable [OF assms(6) inv1 assms(2)] by auto
  obtain found st3 where found: "findByKey ke db2 now2 (Some key) st2 = (found, st3)" by (metis surj_pair)
  have "found = None"
  proof (cases found)
    case (Some x)
    obtain j s where s: "(j, s) \<in> set (rows_of db2 st2)" "\<not> ak_revoked s" "ak_hash s = ke_hash ke key"
      using find_found [of ke db2 now2 "Some key" st2 "fst x" "snd x" st3] found Some st2(1) by auto
    then show ?thesis using st2(2) assms(7) by (auto simp: dead_def)
  qed simp
  then show ?thesis using found assms(8) by (simp add: combinedAuth_def apiKeyAuth_def truthy_text_def)
qed

theorem revoked_key_refused_witness:
  "fst (combinedAuth (\<lambda>_. Expired) demo_key_env True 9 None None (Some ''k0'') []
     (snd (revokeKey True 7 ''GA'' ''1'' (demo_key_store True)))) = Denied 401 ''AUTH_INVALID_TOKEN''"
proof -
  have "show_int 1 = ''1''" by code_simp
  then have one: "toNumber ''1'' = Fin 1" using toNumber_show_int [of 1] by simp
  have row: "selected ''GA'' (toNumber ''1'') 1 demo_key_row"
    by (simp add: selected_def one demo_key_row_def new_key_row_def)
  have "fst (revokeKey True 7 ''GA'' ''1'' (demo_key_store True))"
    using row demo_key_rows by (simp add: revokeKey_def tb_update_def tb_select_def rows_of_def)
  then have "revokeKey True 7 ''GA'' ''1'' (demo_key_store True) = (True, snd (revokeKey True 7 ''GA'' ''1'' (demo_key_store True)))"
    by (metis prod.collapse)
  from revoked_key_refused [OF demo_key_reach demo_draws _ row this rtranclp.rtrancl_refl]
  show ?thesis using demo_key_rows by (simp add: demo_key_row_def new_key_row_def demo_key_env_def)
qed

end
