(* ===== verification/Tips.thy ===== *)
theory Tips
  imports PaymentHistory SqlTable "HOL-Library.Product_Lexorder" "HOL-Library.List_Lexorder" "HOL-Library.Char_ord"
begin

text \<open>
  \<open>backend/src/services/tipsService.js\<close> with \<open>backend/src/controllers/tipsController.js\<close> and
  \<open>backend/src/utils/asset.js\<close>: tips on record, their pages and their statistics.

  The clock's ISO text, the text the database sets as a default time and what the feature test of the
  optional columns answers come from outside (\<open>tip_env\<close>). Amounts are exact, the statistics are the
  numbers whose \<open>String(...)\<close> the code answers. Cache invalidation and push messages are left out.
\<close>

section \<open>Column values\<close>

text \<open>Integers come before texts, texts in the order of their code units.\<close>

datatype sql_value = SInt int | SText string

definition sql_key :: "sql_value \<Rightarrow> nat \<times> int \<times> string" where
  "sql_key v = (case v of SInt i \<Rightarrow> (0, i, []) | SText s \<Rightarrow> (1, 0, s))"

lemma sql_key_eq [simp]: "sql_key v = sql_key w \<longleftrightarrow> v = w"
  by (cases v; cases w) (simp_all add: sql_key_def)

instantiation sql_value :: linorder
begin

definition less_eq_sql_value :: "sql_value \<Rightarrow> sql_value \<Rightarrow> bool" where
  "less_eq_sql_value v w \<longleftrightarrow> sql_key v \<le> sql_key w"

definition less_sql_value :: "sql_value \<Rightarrow> sql_value \<Rightarrow> bool" where
  "less_sql_value v w \<longleftrightarrow> sql_key v < sql_key w"

instance
proof
  fix v w :: sql_value
  show "v < w \<longleftrightarrow> v \<le> w \<and> \<not> w \<le> v" by (simp add: less_eq_sql_value_def less_sql_value_def less_le_not_le)
  show "v \<le> v" by (simp add: less_eq_sql_value_def)
  show "v \<le> w \<Longrightarrow> w \<le> v \<Longrightarrow> v = w" unfolding less_eq_sql_value_def by (metis order.antisym sql_key_eq)
  show "v \<le> w \<or> w \<le> v" unfolding less_eq_sql_value_def by (rule linear)
next
  fix u v w :: sql_value
  show "u \<le> v \<Longrightarrow> v \<le> w \<Longrightarrow> u \<le> w" unfolding less_eq_sql_value_def by (rule order_trans)
qed

end

lemma sql_less [simp]: "SInt i < SInt j \<longleftrightarrow> i < j" "SText s < SText t \<longleftrightarrow> s < t"
  by (simp_all add: less_sql_value_def sql_key_def)

section \<open>Recording\<close>

record tip_row =
  tr_sender :: string
  tr_creator :: string
  tr_asset :: string
  tr_memo :: string
  tr_tx :: string
  tr_amount :: string
  tr_stroops :: "int option"
  tr_created :: string

record tip_db =
  td_rows :: "(nat, tip_row) table"
  td_next :: nat

record tip_env =
  en_stroops :: "bool option"
  en_created :: "bool option"
  en_now :: string
  en_default :: string

record tip =
  ti_id :: nat
  ti_sender :: string
  ti_creator :: string
  ti_amount :: string
  ti_asset :: string
  ti_memo :: string
  ti_tx :: string
  ti_timestamp :: string

definition normalizeAsset :: "string \<Rightarrow> thrown + string" where
  "normalizeAsset a =
     (if a = [] \<or> a = ''XLM'' then Inr ''XLM''
      else case split_char CHR '':'' a of
             [code, issuer] \<Rightarrow> if code \<noteq> [] \<and> issuer \<noteq> [] then Inr a
               else Inl (http_error 400 ''Non-XLM asset must be formatted as CODE:ISSUER'')
           | _ \<Rightarrow> Inl (http_error 400 ''Non-XLM asset must be formatted as CODE:ISSUER''))"

definition amount_stroops :: "string \<Rightarrow> int option" where
  "amount_stroops a = (case parseFloat a of Fin q \<Rightarrow> Some (cents q) | _ \<Rightarrow> None)"

definition amountFromRow :: "tip_row \<Rightarrow> string" where
  "amountFromRow r =
     (case tr_stroops r of Some n \<Rightarrow> toFixed 7 (Fin (of_int n / 10 ^ 7)) | None \<Rightarrow> tr_amount r)"

definition tip_of :: "nat \<times> tip_row \<Rightarrow> tip" where
  "tip_of x = (case x of (i, r) \<Rightarrow>
     \<lparr>ti_id = i, ti_sender = tr_sender r, ti_creator = tr_creator r, ti_amount = amountFromRow r,
      ti_asset = tr_asset r, ti_memo = tr_memo r, ti_tx = tr_tx r, ti_timestamp = tr_created r\<rparr>)"

text \<open>The test for the first column comes first; when a test throws, the rest of the block is skipped.\<close>

definition tip_row_of :: "tip_env \<Rightarrow> string \<Rightarrow> string \<Rightarrow> string \<Rightarrow> string \<Rightarrow> string \<Rightarrow> string \<Rightarrow> tip_row" where
  "tip_row_of en sender creator amount asset memo tx =
     \<lparr>tr_sender = sender, tr_creator = creator, tr_asset = asset, tr_memo = memo, tr_tx = tx, tr_amount = amount,
      tr_stroops = (if en_stroops en = Some True then amount_stroops amount else None),
      tr_created = (if en_stroops en \<noteq> None \<and> en_created en = Some True then en_now en else en_default en)\<rparr>"

definition recordTip ::
  "tip_env \<Rightarrow> string \<Rightarrow> string \<Rightarrow> string \<Rightarrow> string \<Rightarrow> string \<Rightarrow> string \<Rightarrow> tip_db \<Rightarrow> thrown + tip \<times> tip_db" where
  "recordTip en sender creator amount asset memo tx db =
     bnd (normalizeAsset asset) (\<lambda>a.
       bnd (ensure (sender \<noteq> [] \<and> creator \<noteq> [] \<and> amount \<noteq> [])
         (http_error 400 ''senderPublicKey, creatorPublicKey, and amount are required'')) (\<lambda>_.
         let row = tip_row_of en sender creator amount a memo tx
         in case tb_insert (td_next db) row (td_rows db) of
              None \<Rightarrow> Inl (plain_error ''UNIQUE constraint failed'')
            | Some t \<Rightarrow> Inr (tip_of (td_next db, row), \<lparr>td_rows = t, td_next = Suc (td_next db)\<rparr>)))"

definition tip_key_format :: "string \<Rightarrow> bool" where
  "tip_key_format k \<longleftrightarrow> account_id k"

definition validateTipInput :: "string \<Rightarrow> string \<Rightarrow> string \<Rightarrow> thrown + unit" where
  "validateTipInput sender creator amount =
     (let errors =
        (if sender = [] then [''senderPublicKey is required'']
         else if \<not> tip_key_format sender then [''Invalid sender public key format''] else [])
        @ (if creator = [] then [''creatorPublicKey is required'']
           else if \<not> tip_key_format creator then [''Invalid creator public key format''] else [])
        @ (if amount = [] then [''amount is required'']
           else if \<not> num_positive (parseFloat amount) then [''amount must be a positive number''] else [])
      in if errors = [] then Inr () else Inl (http_error 400 (join '', '' errors)))"

section \<open>Listing\<close>

definition TIP_KEYSET :: "(string \<times> direction) list" where
  "TIP_KEYSET = [(''created_at'', Desc), (''id'', Desc)]"

definition tip_field :: "nat \<times> tip_row \<Rightarrow> string \<Rightarrow> sql_value" where
  "tip_field x c = (if c = ''created_at'' then SText (tr_created (snd x)) else SInt (int (fst x)))"

text \<open>\<open>.orderBy("created_at", "desc").orderBy("id", "desc")\<close>\<close>

definition newest_first :: "(nat \<times> tip_row) list \<Rightarrow> (nat \<times> tip_row) list" where
  "newest_first rows = rev (sort_key (\<lambda>x. (tr_created (snd x), fst x)) rows)"

definition list_tips ::
  "(tip_row \<Rightarrow> bool) \<Rightarrow> tip_db \<Rightarrow> nat \<Rightarrow> (string \<Rightarrow> sql_value option) option \<Rightarrow> tip list \<times> nat" where
  "list_tips P db limit cursor =
     (let base = filter (\<lambda>x. P (snd x)) (td_rows db)
      in (map tip_of (take (limit + 1) (applyKnexKeyset tip_field (newest_first base) cursor TIP_KEYSET)), length base))"

definition getTipsReceived ::
  "string \<Rightarrow> tip_db \<Rightarrow> nat \<Rightarrow> (string \<Rightarrow> sql_value option) option \<Rightarrow> thrown + tip list \<times> nat" where
  "getTipsReceived creator db limit cursor =
     bnd (ensure (creator \<noteq> []) (http_error 400 ''creatorPublicKey is required'')) (\<lambda>_.
       Inr (list_tips (\<lambda>r. tr_creator r = creator) db limit cursor))"

definition getTipsSent ::
  "string \<Rightarrow> tip_db \<Rightarrow> nat \<Rightarrow> (string \<Rightarrow> sql_value option) option \<Rightarrow> thrown + tip list \<times> nat" where
  "getTipsSent sender db limit cursor =
     bnd (ensure (sender \<noteq> []) (http_error 400 ''senderPublicKey is required'')) (\<lambda>_.
       Inr (list_tips (\<lambda>r. tr_sender r = sender) db limit cursor))"

definition tipCursor :: "tip \<Rightarrow> string \<Rightarrow> sql_value option" where
  "tipCursor t = map_of [(''created_at'', SText (ti_timestamp t)), (''id'', SInt (int (ti_id t)))]"

text \<open>The page both handlers build: the tips and the cursor of the next page.\<close>

definition tips_page ::
  "thrown + tip list \<times> nat \<Rightarrow> nat \<Rightarrow> thrown + tip list \<times> (string \<Rightarrow> sql_value option) option" where
  "tips_page result limit = bnd result (\<lambda>(tips, amount). Inr (buildPage tips limit tipCursor))"

section \<open>Statistics\<close>

definition number_or_zero :: "jsnum \<Rightarrow> jsnum" where
  "number_or_zero x = (if x = JsNaN then Fin 0 else x)"

definition tip_number :: "tip_row \<Rightarrow> jsnum" where
  "tip_number r =
     (case tr_stroops r of Some n \<Rightarrow> Fin (of_int n / 10 ^ 7) | None \<Rightarrow> number_or_zero (parseFloat (tr_amount r)))"

definition row_asset :: "tip_row \<Rightarrow> string" where
  "row_asset r = (if tr_asset r = [] then ''XLM'' else tr_asset r)"

fun add_tip :: "string \<Rightarrow> jsnum \<Rightarrow> (string \<times> nat \<times> jsnum) list \<Rightarrow> (string \<times> nat \<times> jsnum) list" where
  "add_tip a x [] = [(a, 1, num_add (Fin 0) x)]"
| "add_tip a x ((b, n, y) # rest) = (if b = a then (b, Suc n, num_add y x) # rest else (b, n, y) # add_tip a x rest)"

definition jsnum_max :: "jsnum list \<Rightarrow> jsnum" where
  "jsnum_max xs = (if JsNaN \<in> set xs then JsNaN else fold max xs NegInf)"

definition jsnum_min :: "jsnum list \<Rightarrow> jsnum" where
  "jsnum_min xs = (if JsNaN \<in> set xs then JsNaN else fold min xs PosInf)"

record tip_stats =
  ts_total :: nat
  ts_by_asset :: "(string \<times> nat \<times> jsnum) list"
  ts_average :: "jsnum option"
  ts_largest :: "jsnum option"
  ts_smallest :: "jsnum option"

definition getTipsStats :: "string \<Rightarrow> tip_db \<Rightarrow> thrown + tip_stats" where
  "getTipsStats creator db =
     bnd (ensure (creator \<noteq> []) (http_error 400 ''creatorPublicKey is required'')) (\<lambda>_.
       let rows = filter (\<lambda>r. tr_creator r = creator) (map snd (td_rows db));
           amounts = map tip_number rows
       in Inr \<lparr>ts_total = length rows,
               ts_by_asset = foldl (\<lambda>m r. add_tip (row_asset r) (tip_number r) m) [] rows,
               ts_average = (if amounts = [] then None
                 else Some (num_div_nat (foldl num_add (Fin 0) amounts) (length amounts))),
               ts_largest = (if amounts = [] then None else Some (jsnum_max amounts)),
               ts_smallest = (if amounts = [] then None else Some (jsnum_min amounts))\<rparr>)"

section \<open>Every tip once\<close>

lemma tip_keyset_good: "good_columns TIP_KEYSET"
  by code_simp

lemma tip_after: "comes_after tip_field TIP_KEYSET x y \<longleftrightarrow>
    (tr_created (snd y), fst y) < (tr_created (snd x), fst x)"
  by (auto simp: comes_after_def TIP_KEYSET_def tip_field_def less_prod_def)

lemma newest_first_sorted:
  assumes "distinct (map fst rows)"
  shows "sorted_wrt (comes_after tip_field TIP_KEYSET) (newest_first rows)"
proof -
  let ?key = "\<lambda>x :: nat \<times> tip_row. (tr_created (snd x), fst x)"
  have "inj_on ?key (set rows)" using assms by (auto simp: distinct_map inj_on_def)
  then have "distinct (map ?key (sort_key ?key rows))" using assms by (simp add: distinct_map)
  then have "sorted_wrt (<) (map ?key (sort_key ?key rows))" by (simp add: strict_sorted_iff)
  then have "sorted_wrt (\<lambda>x y. ?key x < ?key y) (sort_key ?key rows)" by (simp add: sorted_wrt_map)
  then show ?thesis unfolding newest_first_def sorted_wrt_rev tip_after .
qed

lemma tip_cursor_of: "tipCursor (tip_of x) = cursor_of tip_field TIP_KEYSET x"
  by (cases x) (simp add: tipCursor_def cursor_of_def TIP_KEYSET_def tip_of_def tip_field_def cursorKey_def)

lemma buildPage_map:
  assumes "\<And>x. h (f x) = g x"
  shows "buildPage (map f rows) limit h = (map f (fst (buildPage rows limit g)), snd (buildPage rows limit g))"
  using assms by (auto simp: buildPage_def Let_def take_map last_map simp del: take_eq_Nil)

definition received_page ::
  "string \<Rightarrow> tip_db \<Rightarrow> nat \<Rightarrow> (string \<Rightarrow> sql_value option) option \<Rightarrow> tip list \<times> (string \<Rightarrow> sql_value option) option" where
  "received_page creator db limit cursor =
     (case tips_page (getTipsReceived creator db limit cursor) limit of Inr p \<Rightarrow> p | Inl e \<Rightarrow> ([], None))"

definition received_rows :: "string \<Rightarrow> tip_db \<Rightarrow> (nat \<times> tip_row) list" where
  "received_rows creator db = newest_first (filter (\<lambda>x. tr_creator (snd x) = creator) (td_rows db))"

lemma received_page_keyset:
  assumes "creator \<noteq> []"
  shows "received_page creator db limit c =
    (map tip_of (fst (keyset_page tip_field TIP_KEYSET (received_rows creator db) limit c)),
     snd (keyset_page tip_field TIP_KEYSET (received_rows creator db) limit c))"
  using assms
  by (simp add: received_page_def tips_page_def getTipsReceived_def list_tips_def received_rows_def keyset_page_def
      Let_def buildPage_map [of tipCursor tip_of "cursor_of tip_field TIP_KEYSET", OF tip_cursor_of])

lemma follow_pages_map:
  assumes "\<And>c. page c = (map f (fst (page' c)), snd (page' c))"
  shows "follow_pages n page c = map (map f) (follow_pages n page' c)"
proof (induction n arbitrary: c)
  case (Suc n)
  show ?case by (cases "page' c") (simp add: assms [of c] Suc split: option.split)
qed simp

lemma length_received: "length (received_rows creator db) = length (filter (\<lambda>x. tr_creator (snd x) = creator) (td_rows db))"
  by (simp add: received_rows_def newest_first_def)

text \<open>C36. The received tips, page by page: a client that follows the cursors of
  \<open>GET /api/tips/received/:creatorPublicKey\<close> is done after finitely many pages and has read every tip
  of the creator exactly once, newest first and by falling id among equal times, whatever ties the
  clock left; the total that comes with every page is their number.\<close>

theorem received_tips_complete:
  assumes "tb_wf (td_rows db)" and "creator \<noteq> []" and "0 < limit" and "length (received_rows creator db) < n"
  shows "concat (follow_pages n (received_page creator db limit) None) = map tip_of (received_rows creator db)
    \<and> sorted_wrt (\<lambda>s t. (ti_timestamp t, ti_id t) < (ti_timestamp s, ti_id s)) (map tip_of (received_rows creator db))
    \<and> set (received_rows creator db) = {x \<in> set (td_rows db). tr_creator (snd x) = creator}
    \<and> (\<exists>tips. getTipsReceived creator db limit c = Inr (tips, length (received_rows creator db)))"
proof -
  let ?rows = "received_rows creator db"
  have "distinct (map fst (filter (\<lambda>x. tr_creator (snd x) = creator) (td_rows db)))"
    using assms(1) by (simp add: tb_wf_def distinct_map_filter)
  then have sorted: "sorted_wrt (comes_after tip_field TIP_KEYSET) ?rows"
    unfolding received_rows_def by (rule newest_first_sorted)
  have "concat (follow_pages n (keyset_page tip_field TIP_KEYSET ?rows limit) None) = ?rows"
    using keyset.follow_all [of TIP_KEYSET tip_field ?rows limit n] sorted tip_keyset_good assms(3,4) by (simp add: full_pages_def)
  then have all: "concat (follow_pages n (received_page creator db limit) None) = map tip_of ?rows"
    by (simp add: follow_pages_map [of "received_page creator db limit" tip_of, OF received_page_keyset [OF assms(2)]]
        map_concat [symmetric])
  have "comes_after tip_field TIP_KEYSET = (\<lambda>s t. (ti_timestamp (tip_of t), ti_id (tip_of t)) < (ti_timestamp (tip_of s), ti_id (tip_of s)))"
    unfolding tip_after [abs_def] by (intro ext) (simp add: tip_of_def split: prod.split)
  then have order: "sorted_wrt (\<lambda>s t. (ti_timestamp t, ti_id t) < (ti_timestamp s, ti_id s)) (map tip_of ?rows)"
    using sorted by (simp only: sorted_wrt_map)
  have rows: "set ?rows = {x \<in> set (td_rows db). tr_creator (snd x) = creator}"
    by (simp add: received_rows_def newest_first_def)
  have "\<exists>tips. getTipsReceived creator db limit c = Inr (tips, length ?rows)"
    using assms(2) by (simp add: getTipsReceived_def list_tips_def length_received Let_def)
  with all order rows show ?thesis by blast
qed

definition demo_tip_row :: "string \<Rightarrow> tip_row" where
  "demo_tip_row day = \<lparr>tr_sender = ''S'', tr_creator = ''C'', tr_asset = ''XLM'', tr_memo = [], tr_tx = [], tr_amount = ''1'',
     tr_stroops = Some 10000000, tr_created = day\<rparr>"

definition demo_tips :: tip_db where
  "demo_tips = \<lparr>td_rows = [(1, demo_tip_row ''2026''), (2, demo_tip_row ''2026''), (3, demo_tip_row ''2025'')], td_next = 4\<rparr>"

lemma demo_received: "map fst (received_rows ''C'' demo_tips) = [2, 1, 3]" "length (received_rows ''C'' demo_tips) = 3"
  by code_simp+

theorem received_tips_complete_witness:
  "concat (follow_pages 4 (received_page ''C'' demo_tips 2) None) = map tip_of (received_rows ''C'' demo_tips)"
  using received_tips_complete [of demo_tips "''C''" 2 4 None] demo_received(2)
  by (simp add: tb_wf_def demo_tips_def)

section \<open>Amounts\<close>

text \<open>A tip is recorded with its amount rounded to stroops.\<close>

lemma recorded_amount:
  assumes "recordTip en sender creator amount asset memo tx db = Inr (t, db')" and "en_stroops en = Some True"
    and "parseFloat amount = Fin q" and "0 \<le> q"
  shows "parseFloat (ti_amount t) = Fin (of_int (cents q) / 10 ^ 7)"
proof -
  have amount: "ti_amount t = toFixed 7 (Fin (of_int (cents q) / 10 ^ 7))"
    using assms(1-3) by (auto simp: recordTip_def ok_steps Let_def tip_of_def tip_row_of_def amountFromRow_def
        amount_stroops_def simp del: toFixed.simps split: option.splits)
  have "0 \<le> cents q" using assms(4) by (simp add: cents_def)
  moreover have "\<lfloor>of_int (cents q) / 10 ^ 7 * 10 ^ 7 + (1 / 2 :: rat)\<rfloor> = cents q" by (simp add: floor_eq_iff)
  ultimately show ?thesis unfolding amount by (subst parse_fixed) simp_all
qed

lemma recordTip_wf:
  assumes "recordTip en sender creator amount asset memo tx db = Inr (t, db')"
    and "tb_wf (td_rows db)" and "\<forall>i \<in> fst ` set (td_rows db). i < td_next db"
  shows "tb_wf (td_rows db') \<and> (\<forall>i \<in> fst ` set (td_rows db'). i < td_next db')"
  using assms
proof -
  obtain row where "td_rows db' = td_rows db @ [(td_next db, row)]" "td_next db' = Suc (td_next db)"
    using assms(1) by (auto simp: recordTip_def ok_steps Let_def tb_insert_def split: option.splits if_splits)
  then show ?thesis using assms(2,3) by (auto simp: tb_wf_def less_SucI)
qed

section \<open>Sound statistics\<close>

lemma num_add_sum: "foldl num_add (Fin q) (map Fin qs) = Fin (q + sum_list qs)"
  by (induction qs arbitrary: q) (simp_all add: add.assoc)

lemma fold_max_bounds: "x \<in> insert a (set xs) \<Longrightarrow> x \<le> fold max xs (a :: 'a::linorder)"
  using Max.set_eq_fold [of a xs] Max_ge [of "set (a # xs)" x] by simp

lemma fold_min_bounds: "x \<in> insert a (set xs) \<Longrightarrow> fold min xs (a :: 'a::linorder) \<le> x"
  using Min.set_eq_fold [of a xs] Min_le [of "set (a # xs)" x] by simp

lemma average_between:
  fixes qs :: "rat list"
  assumes "qs \<noteq> []" and "\<And>q. q \<in> set qs \<Longrightarrow> lo \<le> q \<and> q \<le> hi"
  shows "lo \<le> sum_list qs / of_nat (length qs) \<and> sum_list qs / of_nat (length qs) \<le> hi"
proof -
  have "lo * of_nat (length qs) \<le> sum_list qs \<and> sum_list qs \<le> hi * of_nat (length qs)"
    using assms(2) by (induction qs) (fastforce simp: algebra_simps)+
  then show ?thesis using assms(1) by (simp add: divide_simps mult.commute)
qed

lemma add_tip_counts: "(\<Sum>(a, n, x) \<leftarrow> add_tip a x m. n) = Suc (\<Sum>(a, n, x) \<leftarrow> m. n)"
  by (induction m) auto

lemma by_asset_counts: "(\<Sum>(a, n, x) \<leftarrow> foldl (\<lambda>m r. add_tip (f r) (g r) m) m rows. n) = (\<Sum>(a, n, x) \<leftarrow> m. n) + length rows"
  by (induction rows arbitrary: m) (simp_all add: add_tip_counts)

definition rat_tips :: "(nat \<times> tip_row) list \<Rightarrow> bool" where
  "rat_tips rows \<longleftrightarrow> (\<forall>x \<in> set rows. \<exists>q. tip_number (snd x) = Fin q)"

text \<open>Sound statistics: for a creator with tips whose amounts are finite numbers, the counts by
  asset add up to the number of tips, which is the total the list of received tips reports, and the
  average lies between the smallest and the largest amount, each of them an amount of some tip.\<close>

lemma tips_stats_bounds:
  assumes "creator \<noteq> []" and "received_rows creator db \<noteq> []" and "rat_tips (td_rows db)"
  shows "\<exists>st lo av hi. getTipsStats creator db = Inr st
    \<and> ts_smallest st = Some (Fin lo) \<and> ts_average st = Some (Fin av) \<and> ts_largest st = Some (Fin hi)
    \<and> lo \<le> av \<and> av \<le> hi
    \<and> {Fin lo, Fin hi} \<subseteq> (\<lambda>x. tip_number (snd x)) ` set (received_rows creator db)
    \<and> ts_total st = length (received_rows creator db)
    \<and> (\<Sum>(a, n, x) \<leftarrow> ts_by_asset st. n) = length (received_rows creator db)"
proof -
  define rows where "rows = filter (\<lambda>r. tr_creator r = creator) (map snd (td_rows db))"
  have rows: "rows = map snd (filter (\<lambda>x. tr_creator (snd x) = creator) (td_rows db))"
    by (simp add: rows_def filter_map comp_def)
  have len: "length rows = length (received_rows creator db)" by (simp add: rows length_received)
  have same: "set (map tip_number rows) = (\<lambda>x. tip_number (snd x)) ` set (received_rows creator db)"
    by (auto simp: rows received_rows_def newest_first_def)
  define qs where "qs = map (\<lambda>r. case tip_number r of Fin q \<Rightarrow> q | _ \<Rightarrow> 0) rows"
  have nums: "map tip_number rows = map Fin qs"
    using assms(3) by (auto simp: qs_def rows rat_tips_def)
  have ne: "qs \<noteq> []" using assms(2) len by (auto simp: qs_def)
  then obtain q0 qr where q: "qs = q0 # qr" by (cases qs) auto
  have hi: "jsnum_max (map Fin qs) = Fin (Max (set qs))" and lo: "jsnum_min (map Fin qs) = Fin (Min (set qs))"
  proof -
    have "fold max (map Fin xs) (Fin a) = Fin (fold max xs a)" "fold min (map Fin xs) (Fin a) = Fin (fold min xs a)"
      for xs :: "rat list" and a
      by (induction xs arbitrary: a) (simp_all add: max_def min_def)
    moreover have "JsNaN \<notin> set (Fin q0 # map Fin qr)" by auto
    moreover have "max (Fin q0) NegInf = Fin q0" "min (Fin q0) PosInf = Fin q0"
      by (simp_all add: max_def min_def less_eq_jsnum_def)
    ultimately show "jsnum_max (map Fin qs) = Fin (Max (set qs))" "jsnum_min (map Fin qs) = Fin (Min (set qs))"
      by (auto simp: jsnum_max_def jsnum_min_def q Max.set_eq_fold Min.set_eq_fold simp del: set_simps)
  qed
  have av: "Min (set qs) \<le> sum_list qs / of_nat (length qs) \<and> sum_list qs / of_nat (length qs) \<le> Max (set qs)"
    by (rule average_between [OF ne]) simp
  have "{Fin (Min (set qs)), Fin (Max (set qs))} \<subseteq> set (map Fin qs)"
    using ne Min_in [of "set qs"] Max_in [of "set qs"] by simp
  then have in_rows: "{Fin (Min (set qs)), Fin (Max (set qs))} \<subseteq> (\<lambda>x. tip_number (snd x)) ` set (received_rows creator db)"
    unfolding nums [symmetric] same .
  have counts: "(\<Sum>(a, n, x) \<leftarrow> foldl (\<lambda>m r. add_tip (row_asset r) (tip_number r) m) [] rows. n) = length rows"
    by (simp add: by_asset_counts)
  let ?st = "\<lparr>ts_total = length rows, ts_by_asset = foldl (\<lambda>m r. add_tip (row_asset r) (tip_number r) m) [] rows,
    ts_average = Some (Fin (sum_list qs / of_nat (length qs))), ts_largest = Some (Fin (Max (set qs))),
    ts_smallest = Some (Fin (Min (set qs)))\<rparr>"
  have "rows \<noteq> []" "length rows = length qs" using ne by (auto simp: qs_def)
  then have "getTipsStats creator db = Inr ?st"
    using assms(1) ne
    by (simp add: getTipsStats_def Let_def rows_def [symmetric] nums num_add_sum [of 0, simplified] num_div_nat_def hi lo)
  then show ?thesis using av in_rows counts len
    by (intro exI [of _ ?st] exI [of _ "Min (set qs)"] exI [of _ "sum_list qs / of_nat (length qs)"]
        exI [of _ "Max (set qs)"] conjI) simp_all
qed

theorem tips_stats_bounds_example:
  "\<exists>st. getTipsStats ''C'' demo_tips = Inr st \<and> ts_total st = 3"
proof -
  have "received_rows ''C'' demo_tips \<noteq> []" using demo_received(2) by auto
  moreover have "rat_tips (td_rows demo_tips)"
    by (simp add: rat_tips_def demo_tips_def tip_number_def demo_tip_row_def)
  ultimately show ?thesis using tips_stats_bounds [of "''C''" demo_tips] demo_received(2) by auto
qed

end
