(* ===== verification/CacheService.thy ===== *)
theory CacheService
  imports JsDict JsResult
begin

text \<open>
  \<open>backend/src/services/cacheService.js\<close>: a cache of texts in Redis, with a map of this process as
  the copy that is always written. The map is an LRU of at most 512 entries: insertion order is the
  order of use, the first entry is the one dropped. Redis is a parameter (\<open>redis_ops\<close>): each call
  gets the time, may fail (\<open>None\<close>) and returns the server's next state. \<open>ca_ready\<close> is the
  condition \<open>redis && redisReady\<close>, which connection events set.
\<close>

section \<open>The map of this process\<close>

record lru_entry =
  le_value :: string
  le_expires :: int

type_synonym lru = "(string, lru_entry) dict"

definition LRU_MAX_ENTRIES :: nat where
  "LRU_MAX_ENTRIES = 512"

definition lruGet :: "int \<Rightarrow> string \<Rightarrow> lru \<Rightarrow> string option \<times> lru" where
  "lruGet now key c =
     (case d_get c key of
        None \<Rightarrow> (None, c)
      | Some e \<Rightarrow>
          if le_expires e < now then (None, d_delete key c)
          else (Some (le_value e), d_set key e (d_delete key c)))"

definition lruSet :: "int \<Rightarrow> string \<Rightarrow> string \<Rightarrow> int \<Rightarrow> lru \<Rightarrow> lru" where
  "lruSet now key v ttl c =
     d_set key \<lparr>le_value = v, le_expires = now + ttl * 1000\<rparr>
       (if LRU_MAX_ENTRIES \<le> length c then d_delete (fst (hd c)) c else c)"

definition lruDel :: "string \<Rightarrow> lru \<Rightarrow> lru" where
  "lruDel key c = d_delete key c"

text \<open>
  \<open>patternToRegex\<close> escapes every metacharacter but the question mark and turns a star into \<open>.*\<close>,
  so a question mark makes the item before it optional (after a star, or a second time, it only
  makes it lazy), and one with nothing before it is a \<open>SyntaxError\<close>. The dot matches no line end.
\<close>

datatype regex_item = Once char | Optional char | Anything

fun patternToRegex :: "string \<Rightarrow> regex_item list option" where
  "patternToRegex [] = Some []"
| "patternToRegex (c # p) =
     (if c = CHR ''?'' then None
      else if c = CHR ''*'' then
        map_option ((#) Anything)
          (case p of d # q \<Rightarrow> if d = CHR ''?'' then patternToRegex q else patternToRegex p
           | [] \<Rightarrow> Some [])
      else
        (case p of
           d # q \<Rightarrow>
             if d = CHR ''?'' then
               map_option ((#) (Optional c))
                 (case q of f # r \<Rightarrow> if f = CHR ''?'' then patternToRegex r else patternToRegex q
                  | [] \<Rightarrow> Some [])
             else map_option ((#) (Once c)) (patternToRegex p)
         | [] \<Rightarrow> Some [Once c]))"

fun regex_matches :: "regex_item list \<Rightarrow> string \<Rightarrow> bool" where
  "regex_matches [] s \<longleftrightarrow> s = []"
| "regex_matches (Once c # p) s \<longleftrightarrow> (case s of [] \<Rightarrow> False | d # r \<Rightarrow> c = d \<and> regex_matches p r)"
| "regex_matches (Optional c # p) s \<longleftrightarrow>
     regex_matches p s \<or> (case s of [] \<Rightarrow> False | d # r \<Rightarrow> c = d \<and> regex_matches p r)"
| "regex_matches (Anything # p) s \<longleftrightarrow>
     regex_matches p s \<or>
     (case s of [] \<Rightarrow> False
      | d # r \<Rightarrow> d \<noteq> CHR 0x0A \<and> d \<noteq> CHR 0x0D \<and> regex_matches (Anything # p) r)"

text \<open>\<open>None\<close>: the pattern is no regular expression, which is thrown.\<close>

definition lruDelPattern :: "string \<Rightarrow> lru \<Rightarrow> (nat \<times> lru) option" where
  "lruDelPattern pat c =
     map_option (\<lambda>re. (length (filter (\<lambda>(k, _). regex_matches re k) c),
       filter (\<lambda>(k, _). \<not> regex_matches re k) c)) (patternToRegex pat)"

section \<open>The two layers\<close>

record 'r redis_ops =
  rd_get :: "int \<Rightarrow> string \<Rightarrow> 'r \<Rightarrow> string option option"
  rd_ttl :: "int \<Rightarrow> string \<Rightarrow> 'r \<Rightarrow> int option"
  rd_expire :: "int \<Rightarrow> string \<Rightarrow> int \<Rightarrow> 'r \<Rightarrow> 'r option"
  rd_set :: "int \<Rightarrow> string \<Rightarrow> string \<Rightarrow> int \<Rightarrow> 'r \<Rightarrow> 'r option"
  rd_set_nx :: "int \<Rightarrow> string \<Rightarrow> string \<Rightarrow> int \<Rightarrow> 'r \<Rightarrow> (bool \<times> 'r) option"
  rd_del :: "int \<Rightarrow> string list \<Rightarrow> 'r \<Rightarrow> 'r option"
  rd_scan :: "string \<Rightarrow> string \<Rightarrow> 'r \<Rightarrow> (string \<times> string list) option"

record 'r cache =
  ca_ready :: bool
  ca_server :: 'r
  ca_lru :: lru

text \<open>\<open>REDIS_CACHE_TTL_DEFAULT\<close>, in seconds, is a setting of the process.\<close>

record ('r, 'v) cache_env =
  ce_redis :: "'r redis_ops"
  ce_default_ttl :: int
  ce_parse :: "string \<Rightarrow> 'v option"
  ce_stringify :: "'v \<Rightarrow> string"

text \<open>
  \<open>get\<close>. What the first layer answers is \<open>Some\<close> when the function returns there; an empty or absent
  text, a failed call and a text that does not parse all fall through to the map, and so does a
  failed refresh of the time to live.
\<close>

definition redis_get :: "('r, 'v) cache_env \<Rightarrow> int \<Rightarrow> string \<Rightarrow> 'r \<Rightarrow> 'v option \<times> 'r" where
  "redis_get ce now key r =
     (let ops = ce_redis ce in
      case rd_get ops now key r of
        Some (Some raw) \<Rightarrow>
          if raw = [] then (None, r)
          else (case rd_ttl ops now key r of
              None \<Rightarrow> (None, r)
            | Some left \<Rightarrow>
                if 0 < left \<and> left < 10 then
                  (case rd_expire ops now key (ce_default_ttl ce) r of
                     None \<Rightarrow> (None, r)
                   | Some r' \<Rightarrow> (ce_parse ce raw, r'))
                else (ce_parse ce raw, r))
      | _ \<Rightarrow> (None, r))"

definition cache_get ::
  "('r, 'v) cache_env \<Rightarrow> int \<Rightarrow> string \<Rightarrow> 'r cache \<Rightarrow> 'v option \<times> 'r cache" where
  "cache_get ce now key ca =
     (let (hit, r) = (if ca_ready ca then redis_get ce now key (ca_server ca) else (None, ca_server ca));
          ca' = ca\<lparr>ca_server := r\<rparr>
      in case hit of
           Some v \<Rightarrow> (Some v, ca')
         | None \<Rightarrow>
             (let (text, l) = lruGet now key (ca_lru ca')
              in (case truthy_text text of None \<Rightarrow> None | Some s \<Rightarrow> ce_parse ce s, ca'\<lparr>ca_lru := l\<rparr>)))"

definition cache_set ::
  "('r, 'v) cache_env \<Rightarrow> int \<Rightarrow> string \<Rightarrow> 'v \<Rightarrow> int \<Rightarrow> 'r cache \<Rightarrow> 'r cache" where
  "cache_set ce now key v ttl ca =
     (let s = ce_stringify ce v
      in ca\<lparr>ca_server := (if ca_ready ca
                then overlay (rd_set (ce_redis ce) now key s ttl (ca_server ca)) (ca_server ca)
                else ca_server ca),
            ca_lru := lruSet now key s ttl (ca_lru ca)\<rparr>)"

definition cache_del :: "('r, 'v) cache_env \<Rightarrow> int \<Rightarrow> string \<Rightarrow> 'r cache \<Rightarrow> 'r cache" where
  "cache_del ce now key ca =
     ca\<lparr>ca_server := (if ca_ready ca
           then overlay (rd_del (ce_redis ce) now [key] (ca_server ca)) (ca_server ca)
           else ca_server ca),
        ca_lru := lruDel key (ca_lru ca)\<rparr>"

text \<open>
  The scan of \<open>delPattern\<close> goes on until the server answers the cursor 0: \<open>None\<close> is a scan that
  never ends. A failed call keeps what was deleted and counted before it.
\<close>

partial_function (option) scan_loop ::
  "'r redis_ops \<Rightarrow> int \<Rightarrow> string \<Rightarrow> string \<Rightarrow> nat \<Rightarrow> 'r \<Rightarrow> (nat \<times> 'r) option" where
  "scan_loop ops now pat cursor n r =
     (case rd_scan ops cursor pat r of
        None \<Rightarrow> Some (n, r)
      | Some (cursor', keys) \<Rightarrow>
          (case (if keys = [] then Some r else rd_del ops now keys r) of
             None \<Rightarrow> Some (n, r)
           | Some r' \<Rightarrow>
               if cursor' \<noteq> ''0'' then scan_loop ops now pat cursor' (n + length keys) r'
               else Some (n + length keys, r')))"

text \<open>The outer \<open>None\<close> is a call that never returns, \<open>Inl\<close> what it throws.\<close>

definition delPattern ::
  "('r, 'v) cache_env \<Rightarrow> int \<Rightarrow> string \<Rightarrow> 'r cache \<Rightarrow> ((thrown + nat) \<times> 'r cache) option" where
  "delPattern ce now pat ca =
     map_option (\<lambda>(n, r).
        let ca' = ca\<lparr>ca_server := r\<rparr>
        in case lruDelPattern pat (ca_lru ca') of
             None \<Rightarrow> (Inl (plain_error ''Invalid regular expression''), ca')
           | Some (m, l) \<Rightarrow> (Inr (n + m), ca'\<lparr>ca_lru := l\<rparr>))
       (if ca_ready ca then scan_loop (ce_redis ce) now pat ''0'' 0 (ca_server ca)
        else Some (0, ca_server ca))"

definition clearLRU :: "'r cache \<Rightarrow> 'r cache" where
  "clearLRU ca = ca\<lparr>ca_lru := []\<rparr>"

definition setIfNotExists ::
  "('r, 'v) cache_env \<Rightarrow> int \<Rightarrow> string \<Rightarrow> int \<Rightarrow> 'r cache \<Rightarrow> bool \<times> 'r cache" where
  "setIfNotExists ce now key ttl ca =
     (case (if ca_ready ca then rd_set_nx (ce_redis ce) now key ''1'' ttl (ca_server ca) else None) of
        Some (new, r) \<Rightarrow> (new, ca\<lparr>ca_server := r\<rparr>)
      | None \<Rightarrow>
          (case lruGet now key (ca_lru ca) of
             (Some _, l) \<Rightarrow> (False, ca\<lparr>ca_lru := l\<rparr>)
           | (None, l) \<Rightarrow> (True, ca\<lparr>ca_lru := lruSet now key ''1'' ttl l\<rparr>)))"

section \<open>How long the map keeps an entry\<close>

datatype lru_op =
    LGet string
  | LSet string string int
  | LDel string
  | LDelPattern string

fun lru_step :: "int \<times> lru_op \<Rightarrow> lru \<Rightarrow> lru" where
  "lru_step (now, LGet k) c = snd (lruGet now k c)"
| "lru_step (now, LSet k v ttl) c = lruSet now k v ttl c"
| "lru_step (now, LDel k) c = lruDel k c"
| "lru_step (now, LDelPattern p) c = (case lruDelPattern p c of None \<Rightarrow> c | Some (n, c') \<Rightarrow> c')"

definition lru_ok :: "lru \<Rightarrow> bool" where
  "lru_ok c \<longleftrightarrow> d_ok c \<and> length c \<le> LRU_MAX_ENTRIES"

lemma length_d_set: "length (d_set k v d) = (if d_get d k = None then Suc (length d) else length d)"
  using dict.length_set_fresh [of d k v] dict.length_set_present [of d k] by (auto simp: d_entries_def)

lemma d_get_deleted [simp]: "d_get (d_delete k d) k = None"
  by (rule dict.get_delete_same)

lemma length_d_delete:
  assumes "d_ok d" and "d_get d k \<noteq> None"
  shows "Suc (length (d_delete k d)) = length d"
  using assms
proof (induction d)
  case (Cons p d)
  obtain k' v where p: "p = (k', v)" by (cases p)
  show ?case
  proof (cases "k' = k")
    case True
    then have "d_delete k (p # d) = d"
      using Cons.prems(1) p by (force simp: d_delete_def AList.delete_eq d_ok_def intro!: filter_True)
    then show ?thesis by simp
  next
    case False
    then show ?thesis
      using Cons p by (simp add: d_delete_def AList.delete_eq d_ok_def d_get_def)
  qed
qed (simp add: d_get_def)

lemma length_d_delete_le: "length (d_delete k d) \<le> length d"
  by (simp add: d_delete_def AList.delete_eq)

lemma d_get_hd: "c \<noteq> [] \<Longrightarrow> d_get c (fst (hd c)) \<noteq> None"
  by (cases c) (auto simp: d_get_def)

lemma lru_ok_step: "lru_ok c \<Longrightarrow> lru_ok (lru_step op c)"
proof (induction op c rule: lru_step.induct)
  case (1 now k c)
  then show ?case
    using length_d_delete [of c k] length_d_delete_le [of k c]
    by (auto simp: lru_ok_def lruGet_def dict.ok_set dict.ok_delete length_d_set split: option.splits)
next
  case (2 now k v ttl c)
  show ?case
  proof (cases "LRU_MAX_ENTRIES \<le> length c")
    case True
    then have "c \<noteq> []" by (auto simp: LRU_MAX_ENTRIES_def)
    then show ?thesis
      using 2 length_d_delete [of c "fst (hd c)"] d_get_hd [of c]
      by (auto simp: lru_ok_def lruSet_def dict.ok_set dict.ok_delete length_d_set)
  qed (use 2 in \<open>auto simp: lru_ok_def lruSet_def dict.ok_set length_d_set\<close>)
next
  case (3 now k c)
  then show ?case
    using length_d_delete_le [of k c] by (auto simp: lru_ok_def lruDel_def dict.ok_delete)
next
  case (4 now p c)
  then show ?case
    by (auto simp: lru_ok_def lruDelPattern_def d_ok_def distinct_map_filter
        intro: le_trans [OF length_filter_le] split: option.splits)
qed

lemma lru_bounded: "lru_ok (fold lru_step ops [])"
  using fold_invariant [of ops "\<lambda>_. True" lru_ok "[]" lru_step] lru_ok_step
  by (auto simp: lru_ok_def)

text \<open>An entry with at most \<open>n\<close> others used after it.\<close>

definition held :: "nat \<Rightarrow> string \<Rightarrow> lru_entry \<Rightarrow> lru \<Rightarrow> bool" where
  "held n k e c \<longleftrightarrow> d_ok c \<and> (\<exists>a b. c = a @ (k, e) # b \<and> length b \<le> n)"

lemma heldI: "d_ok c \<Longrightarrow> c = a @ (k, e) # b \<Longrightarrow> length b \<le> n \<Longrightarrow> held n k e c"
  by (auto simp: held_def)

lemma held_get: "held n k e c \<Longrightarrow> d_get c k = Some e"
  by (auto simp: held_def d_get_def d_ok_def map_add_def map_of_eq_None_iff split: option.splits)

lemma held_last:
  assumes "d_ok d" and "d_get d k = None"
  shows "held 0 k e (d_set k e d)"
proof -
  have "d_set k e d = d @ [(k, e)]"
    using assms(2) by (simp add: d_set_def d_get_def update_fresh map_of_eq_None_iff)
  with dict.ok_set [OF assms(1), of k e] show ?thesis by (intro heldI [of _ d _ _ "[]"]) auto
qed

lemma update_left: "k \<in> fst ` set a \<Longrightarrow> AList.update k v (a @ b) = AList.update k v a @ b"
  by (induction a) auto

lemma update_right: "k \<notin> fst ` set a \<Longrightarrow> AList.update k v (a @ b) = a @ AList.update k v b"
  by (induction a) auto

lemma held_set:
  assumes h: "held n k e c" and "k' \<noteq> k"
  shows "held (Suc n) k e (d_set k' v c)"
proof -
  obtain a b where c: "c = a @ (k, e) # b" and b: "length b \<le> n" and ok: "d_ok c"
    using h by (auto simp: held_def)
  have ok': "d_ok (d_set k' v c)" using ok by (rule dict.ok_set)
  show ?thesis
  proof (cases "k' \<in> fst ` set a")
    case True
    then have "d_set k' v c = AList.update k' v a @ (k, e) # b" by (simp add: c d_set_def update_left)
    then show ?thesis using ok' b by (intro heldI) auto
  next
    case False
    then have "d_set k' v c = a @ (k, e) # AList.update k' v b"
      using \<open>k' \<noteq> k\<close> by (simp add: c d_set_def update_right)
    moreover have "length (AList.update k' v b) \<le> Suc n"
      using b length_d_set [of k' v b] by (auto simp: d_set_def split: if_splits)
    ultimately show ?thesis using ok' by (intro heldI) auto
  qed
qed

lemma held_filter:
  assumes h: "held n k e c" and "Q (k, e)"
  shows "held n k e (filter Q c)"
proof -
  obtain a b where c: "c = a @ (k, e) # b" and b: "length b \<le> n" and ok: "d_ok c"
    using h by (auto simp: held_def)
  have "d_ok (filter Q c)" using ok by (simp add: d_ok_def distinct_map_filter)
  moreover have "filter Q c = filter Q a @ (k, e) # filter Q b" using assms(2) by (simp add: c)
  ultimately show ?thesis using le_trans [OF length_filter_le b] by (rule heldI)
qed

lemma held_delete: "held n k e c \<Longrightarrow> k' \<noteq> k \<Longrightarrow> held n k e (d_delete k' c)"
  unfolding d_delete_def AList.delete_eq by (rule held_filter) auto

lemma held_more: "held n k e c \<Longrightarrow> n \<le> m \<Longrightarrow> held m k e c"
  unfolding held_def using le_trans by blast

text \<open>The operations that leave the entry of a key as it is.\<close>

fun spares :: "string \<Rightarrow> lru_op \<Rightarrow> bool" where
  "spares k (LGet k') = True"
| "spares k (LSet k' _ _) = (k' \<noteq> k)"
| "spares k (LDel k') = (k' \<noteq> k)"
| "spares k (LDelPattern p) = (case patternToRegex p of None \<Rightarrow> True | Some re \<Rightarrow> \<not> regex_matches re k)"

lemma held_step:
  assumes h: "held n k e c" and "Suc n < LRU_MAX_ENTRIES" and "spares k op" and "t \<le> le_expires e"
  shows "held (Suc n) k e (lru_step (t, op) c)"
proof (cases op)
  case (LGet k')
  show ?thesis
  proof (cases "k' = k")
    case True
    have "held 0 k e (d_set k e (d_delete k c))"
      using h by (intro held_last) (simp_all add: held_def dict.ok_delete)
    then show ?thesis
      using True LGet assms(4) held_more [of 0 k e _ "Suc n"] by (simp add: lruGet_def held_get [OF h])
  next
    case False
    then show ?thesis
      using LGet h held_set [OF held_delete [OF h False] False] held_delete [OF h False]
      by (auto simp: lruGet_def intro: held_more split: option.splits)
  qed
next
  case (LSet k' v ttl)
  obtain a b where c: "c = a @ (k, e) # b" and b: "length b \<le> n" using h by (auto simp: held_def)
  have "held n k e (if LRU_MAX_ENTRIES \<le> length c then d_delete (fst (hd c)) c else c)"
  proof (cases "LRU_MAX_ENTRIES \<le> length c")
    case True
    then have "a \<noteq> []" using c b assms(2) by auto
    then have "fst (hd c) \<noteq> k"
      using h c by (cases a) (auto simp: held_def d_ok_def)
    then show ?thesis using h held_delete [OF h] by simp
  qed (use h in simp)
  from held_set [OF this, of k'] show ?thesis using LSet assms(3) by (simp add: lruSet_def)
next
  case (LDel k')
  then show ?thesis using held_delete [OF h, of k'] assms(3) by (auto simp: lruDel_def intro: held_more)
next
  case (LDelPattern p)
  show ?thesis
  proof (cases "patternToRegex p")
    case None
    then show ?thesis using h LDelPattern held_more [of n k e c "Suc n"] by (simp add: lruDelPattern_def)
  next
    case (Some re)
    then have "held n k e (filter (\<lambda>(k', _). \<not> regex_matches re k') c)"
      using LDelPattern assms(3) by (intro held_filter [OF h]) simp
    then show ?thesis
      using LDelPattern Some held_more [of n k e _ "Suc n"] by (simp add: lruDelPattern_def)
  qed
qed

lemma held_run:
  assumes "held n k e c" and "n + length ops < LRU_MAX_ENTRIES"
    and "\<forall>(t, op) \<in> set ops. spares k op \<and> t \<le> le_expires e"
  shows "held (n + length ops) k e (fold lru_step ops c)"
  using assms
proof (induction ops arbitrary: n c)
  case (Cons x ops)
  obtain t op where x: "x = (t, op)" by (cases x)
  have "held (Suc n) k e (lru_step (t, op) c)"
    using Cons.prems x by (intro held_step) auto
  from Cons.IH [OF this] show ?case using Cons.prems x by simp
qed simp

lemma held_fresh_set:
  assumes "d_ok c" and "d_get c k = None"
  shows "held 0 k \<lparr>le_value = v, le_expires = now + ttl * 1000\<rparr> (lruSet now k v ttl c)"
proof -
  let ?c = "if LRU_MAX_ENTRIES \<le> length c then d_delete (fst (hd c)) c else c"
  have "d_get ?c k = None" "d_ok ?c" using assms by (simp_all add: dict.get_delete dict.ok_delete)
  then show ?thesis by (simp only: lruSet_def) (rule held_last)
qed

text \<open>A nonce is refused the second time while fewer than 512 uses of the map lie between.\<close>

lemma second_use_refused:
  assumes "d_ok (ca_lru ca)" and "\<not> ca_ready ca" and "setIfNotExists ce now k ttl ca = (True, ca1)"
    and "length ops < LRU_MAX_ENTRIES" and "\<forall>(t, op) \<in> set ops. spares k op \<and> t \<le> now + ttl * 1000"
    and "ca_lru ca2 = fold lru_step ops (ca_lru ca1)" "\<not> ca_ready ca2" and "t \<le> now + ttl * 1000"
  shows "fst (setIfNotExists ce t k ttl' ca2) = False"
proof -
  let ?e = "\<lparr>le_value = ''1'', le_expires = now + ttl * 1000\<rparr>"
  obtain l where l: "lruGet now k (ca_lru ca) = (None, l)" and ca1: "ca_lru ca1 = lruSet now k ''1'' ttl l"
    using assms(2,3) by (cases "lruGet now k (ca_lru ca)") (auto simp: setIfNotExists_def split: option.splits)
  have "d_ok l" "d_get l k = None"
    using l assms(1) by (auto simp: lruGet_def dict.ok_delete split: option.splits if_splits)
  from held_fresh_set [OF this] have "held (0 + length ops) k ?e (fold lru_step ops (ca_lru ca1))"
    unfolding ca1 using assms(4,5) by (intro held_run) auto
  then have "fst (lruGet t k (ca_lru ca2)) = Some ''1''"
    using assms(6,8) held_get by (auto simp: lruGet_def)
  then show ?thesis using assms(7) by (auto simp: setIfNotExists_def split: prod.splits option.splits)
qed

text \<open>The bound is exact: 512 new keys push the entry out, however long it should have lived.\<close>

definition fill :: "int \<Rightarrow> int \<Rightarrow> string list \<Rightarrow> lru \<Rightarrow> lru" where
  "fill now ttl ks c = fold (\<lambda>k. lruSet now k ''1'' ttl) ks c"

lemma lruSet_new:
  assumes "d_ok c" and "k \<notin> fst ` set c"
  shows "lruSet now k v ttl c =
    (if LRU_MAX_ENTRIES \<le> length c then tl c else c) @ [(k, \<lparr>le_value = v, le_expires = now + ttl * 1000\<rparr>)]"
proof (cases c)
  case (Cons p c')
  have "d_delete (fst p) (p # c') = c'"
    using assms(1) Cons by (cases p) (force simp: d_delete_def AList.delete_eq d_ok_def intro!: filter_True)
  then show ?thesis using assms(2) Cons by (simp add: lruSet_def d_set_def update_fresh)
qed (simp add: lruSet_def d_set_def LRU_MAX_ENTRIES_def)

lemma d_ok_lruSet: "d_ok c \<Longrightarrow> d_ok (lruSet now k v ttl c)"
  by (simp add: lruSet_def dict.ok_set dict.ok_delete)

lemma fill_keys:
  assumes "d_ok c" "distinct ks" "set ks \<inter> fst ` set c = {}"
  shows "fst ` set (fill now ttl ks c) \<subseteq> fst ` set c \<union> set ks"
  using assms
proof (induction ks arbitrary: c)
  case (Cons k ks)
  have tl: "set (tl c) \<subseteq> set c" by (cases c) auto
  have new: "lruSet now k ''1'' ttl c = (if LRU_MAX_ENTRIES \<le> length c then tl c else c) @
      [(k, \<lparr>le_value = ''1'', le_expires = now + ttl * 1000\<rparr>)]"
    using Cons.prems(1,3) by (intro lruSet_new) auto
  have sub: "fst ` set (lruSet now k ''1'' ttl c) \<subseteq> insert k (fst ` set c)"
    using tl unfolding new by auto
  have "fst ` set (fill now ttl ks (lruSet now k ''1'' ttl c)) \<subseteq>
      fst ` set (lruSet now k ''1'' ttl c) \<union> set ks"
    using Cons.prems sub by (intro Cons.IH d_ok_lruSet) auto
  then have "fst ` set (fill now ttl (k # ks) c) \<subseteq> fst ` set (lruSet now k ''1'' ttl c) \<union> set ks"
    by (simp add: fill_def)
  also have "\<dots> \<subseteq> insert k (fst ` set c) \<union> set ks" by (rule Un_mono [OF sub subset_refl])
  also have "\<dots> = fst ` set c \<union> set (k # ks)" by auto
  finally show ?case .
qed (simp add: fill_def)

lemma fill_pushes:
  assumes "d_ok (a @ x # b)" "length (a @ x # b) \<le> LRU_MAX_ENTRIES" "distinct ks"
    "set ks \<inter> fst ` set (a @ x # b) = {}" "LRU_MAX_ENTRIES \<le> length b + length ks"
  shows "fst x \<notin> fst ` set (fill now ttl ks (a @ x # b))"
  using assms
proof (induction ks arbitrary: a b)
  case (Cons k ks)
  let ?e = "(k, \<lparr>le_value = ''1'', le_expires = now + ttl * 1000\<rparr>)"
  let ?c = "a @ x # b"
  have new: "lruSet now k ''1'' ttl ?c = (if LRU_MAX_ENTRIES \<le> length ?c then tl ?c else ?c) @ [?e]"
    using Cons.prems(1,4) by (intro lruSet_new) auto
  have ok: "d_ok (lruSet now k ''1'' ttl ?c)" by (rule d_ok_lruSet) (rule Cons.prems(1))
  have step: "fill now ttl (k # ks) ?c = fill now ttl ks (lruSet now k ''1'' ttl ?c)"
    by (simp add: fill_def)
  show ?case
  proof (cases "LRU_MAX_ENTRIES \<le> length ?c \<and> a = []")
    case True
    then have "tl ?c = b" by simp
    have set: "lruSet now k ''1'' ttl ?c = b @ [?e]"
      unfolding new \<open>tl ?c = b\<close> by (simp only: conjunct1 [OF True] if_True)
    have "fst ` set (fill now ttl ks (b @ [?e])) \<subseteq> fst ` set (b @ [?e]) \<union> set ks"
      using Cons.prems(3,4) ok unfolding set by (intro fill_keys) auto
    moreover have "fst x \<notin> fst ` set b" using Cons.prems(1) by (simp add: d_ok_def)
    ultimately show ?thesis using Cons.prems(4) unfolding step set by auto
  next
    case False
    obtain a' where set: "lruSet now k ''1'' ttl ?c = a' @ x # (b @ [?e])"
      and a': "set a' \<subseteq> set a" "length a' = (if LRU_MAX_ENTRIES \<le> length ?c then length a - 1 else length a)"
    proof (cases "LRU_MAX_ENTRIES \<le> length ?c")
      case True
      with False obtain y a' where "a = y # a'" by (cases a) auto
      then show thesis using new True by (intro that [of a']) auto
    qed (use new that [of a] in auto)
    show ?thesis
      unfolding step set
    proof (rule Cons.IH)
      show "d_ok (a' @ x # b @ [?e])" using ok by (simp only: set)
      show "length (a' @ x # b @ [?e]) \<le> LRU_MAX_ENTRIES"
        using Cons.prems(2) a'(2) False by (cases a) (auto split: if_splits)
    qed (use Cons.prems a'(1) in auto)
  qed
qed simp

text \<open>So a nonce is accepted again after 512 others, while it should be remembered.\<close>

lemma nonce_pushed_out:
  assumes "lru_ok c" and "d_get c k = None" and "distinct ks" and "set ks \<inter> insert k (fst ` set c) = {}"
    and "length ks = LRU_MAX_ENTRIES"
  shows "fst (lruGet t k (fill t' ttl' ks (lruSet now k v ttl c))) = None"
proof -
  let ?p = "if LRU_MAX_ENTRIES \<le> length c then tl c else c"
  let ?x = "(k, \<lparr>le_value = v, le_expires = now + ttl * 1000\<rparr>)"
  have new: "lruSet now k v ttl c = ?p @ ?x # []"
    using assms(1,2) by (subst lruSet_new) (simp_all add: lru_ok_def d_get_def map_of_eq_None_iff)
  have tl: "set (tl c) \<subseteq> set c" by (cases c) auto
  have "fst ?x \<notin> fst ` set (fill t' ttl' ks (?p @ ?x # []))"
  proof (rule fill_pushes)
    show "d_ok (?p @ ?x # [])" using d_ok_lruSet [of c now k v ttl] assms(1) by (simp only: new lru_ok_def)
    show "length (?p @ ?x # []) \<le> LRU_MAX_ENTRIES"
      using assms(1) by (auto simp: lru_ok_def LRU_MAX_ENTRIES_def)
    show "set ks \<inter> fst ` set (?p @ ?x # []) = {}" using assms(4) tl by auto
  qed (simp_all add: assms(3,5))
  then have "d_get (fill t' ttl' ks (lruSet now k v ttl c)) k = None"
    by (simp only: new d_get_def map_of_eq_None_iff fst_conv not_False_eq_True)
  then show ?thesis by (simp add: lruGet_def)
qed

section \<open>What a Redis server promises\<close>

text \<open>
  \<open>look r k\<close> is the text under a key with the time it expires; the laws are the documented effect
  of GET, TTL, EXPIRE, SET EX, SET EX NX and DEL on a server that answers.
\<close>

definition alive :: "int \<Rightarrow> (string \<times> int) option \<Rightarrow> bool" where
  "alive now e \<longleftrightarrow> (case e of None \<Rightarrow> False | Some (v, until) \<Rightarrow> now < until)"

definition redis_laws :: "'r redis_ops \<Rightarrow> ('r \<Rightarrow> string \<Rightarrow> (string \<times> int) option) \<Rightarrow> bool" where
  "redis_laws ops look \<longleftrightarrow>
     (\<forall>now k r. rd_get ops now k r =
        Some (if alive now (look r k) then map_option fst (look r k) else None)) \<and>
     (\<forall>now k r v until. look r k = Some (v, until) \<longrightarrow> now < until \<longrightarrow>
        rd_ttl ops now k r = Some ((until - now + 500) div 1000)) \<and>
     (\<forall>now k ttl r v until. look r k = Some (v, until) \<longrightarrow> now < until \<longrightarrow>
        (\<exists>r'. rd_expire ops now k ttl r = Some r' \<and> look r' = (look r)(k \<mapsto> (v, now + ttl * 1000)))) \<and>
     (\<forall>now k v ttl r. \<exists>r'. rd_set ops now k v ttl r = Some r' \<and> look r' = (look r)(k \<mapsto> (v, now + ttl * 1000))) \<and>
     (\<forall>now k v ttl r. \<exists>r'. rd_set_nx ops now k v ttl r = Some (\<not> alive now (look r k), r') \<and>
        look r' = (if alive now (look r k) then look r else (look r)(k \<mapsto> (v, now + ttl * 1000)))) \<and>
     (\<forall>now ks r. \<exists>r'. rd_del ops now ks r = Some r' \<and> look r' = (\<lambda>k. if k \<in> set ks then None else look r k))"

lemma redis_lawsD:
  assumes "redis_laws ops look"
  shows "rd_get ops now k r = Some (if alive now (look r k) then map_option fst (look r k) else None)"
    and "look r k = Some (v, until) \<Longrightarrow> now < until \<Longrightarrow> rd_ttl ops now k r = Some ((until - now + 500) div 1000)"
    and "look r k = Some (v, until) \<Longrightarrow> now < until \<Longrightarrow>
      \<exists>r'. rd_expire ops now k ttl r = Some r' \<and> look r' = (look r)(k \<mapsto> (v, now + ttl * 1000))"
    and "\<exists>r'. rd_set ops now k w ttl r = Some r' \<and> look r' = (look r)(k \<mapsto> (w, now + ttl * 1000))"
    and "\<exists>r'. rd_set_nx ops now k w ttl r = Some (\<not> alive now (look r k), r') \<and>
        look r' = (if alive now (look r k) then look r else (look r)(k \<mapsto> (w, now + ttl * 1000)))"
    and "\<exists>r'. rd_del ops now ks r = Some r' \<and> look r' = (\<lambda>k. if k \<in> set ks then None else look r k)"
proof -
  note laws = assms [unfolded redis_laws_def]
  show "rd_get ops now k r = Some (if alive now (look r k) then map_option fst (look r k) else None)"
    using laws by (elim conjE) simp
  show "look r k = Some (v, until) \<Longrightarrow> now < until \<Longrightarrow> rd_ttl ops now k r = Some ((until - now + 500) div 1000)"
    using laws by (elim conjE) simp
  show "look r k = Some (v, until) \<Longrightarrow> now < until \<Longrightarrow>
      \<exists>r'. rd_expire ops now k ttl r = Some r' \<and> look r' = (look r)(k \<mapsto> (v, now + ttl * 1000))"
    using laws by (elim conjE) simp
  show "\<exists>r'. rd_set ops now k w ttl r = Some r' \<and> look r' = (look r)(k \<mapsto> (w, now + ttl * 1000))"
    using laws by (elim conjE) simp
  show "\<exists>r'. rd_set_nx ops now k w ttl r = Some (\<not> alive now (look r k), r') \<and>
        look r' = (if alive now (look r k) then look r else (look r)(k \<mapsto> (w, now + ttl * 1000)))"
    using laws by (elim conjE) simp
  show "\<exists>r'. rd_del ops now ks r = Some r' \<and> look r' = (\<lambda>k. if k \<in> set ks then None else look r k)"
    using laws by (elim conjE) simp
qed

text \<open>A server for the witnesses: a list of keys with their texts and expiries.\<close>

definition map_redis :: "(string, string \<times> int) dict redis_ops" where
  "map_redis = \<lparr>
     rd_get = (\<lambda>now k r. Some (if alive now (d_get r k) then map_option fst (d_get r k) else None)),
     rd_ttl = (\<lambda>now k r. Some (case d_get r k of None \<Rightarrow> -2 | Some (v, until) \<Rightarrow>
        if now < until then (until - now + 500) div 1000 else -2)),
     rd_expire = (\<lambda>now k ttl r. Some (case d_get r k of None \<Rightarrow> r | Some (v, until) \<Rightarrow>
        if now < until then d_set k (v, now + ttl * 1000) r else r)),
     rd_set = (\<lambda>now k v ttl r. Some (d_set k (v, now + ttl * 1000) r)),
     rd_set_nx = (\<lambda>now k v ttl r. Some (if alive now (d_get r k) then (False, r)
        else (True, d_set k (v, now + ttl * 1000) r))),
     rd_del = (\<lambda>now ks r. Some (fold d_delete ks r)),
     rd_scan = (\<lambda>cursor pat r. Some (''0'', []))\<rparr>"

lemma d_get_fold_delete: "d_get (fold d_delete ks r) = (\<lambda>k. if k \<in> set ks then None else d_get r k)"
  by (induction ks arbitrary: r) (auto simp: fun_eq_iff dict.get_delete)

lemma map_redis_laws: "redis_laws map_redis d_get"
  by (simp add: redis_laws_def map_redis_def dict.get_set d_get_fold_delete)

text \<open>
  A read in the last ten seconds of a value gives it the default time again, so a key that is read
  often is never read from its source again.
\<close>

fun read_often :: "('r, 'v) cache_env \<Rightarrow> string \<Rightarrow> int list \<Rightarrow> 'r cache \<Rightarrow> 'v option list" where
  "read_often ce k [] ca = []"
| "read_often ce k (t # ts) ca =
     (case cache_get ce t k ca of (v, ca') \<Rightarrow> v # read_often ce k ts ca')"

fun spaced :: "int \<Rightarrow> int \<Rightarrow> int list \<Rightarrow> bool" where
  "spaced gap prev [] = True"
| "spaced gap prev (t # ts) \<longleftrightarrow> prev \<le> t \<and> t \<le> prev + gap \<and> spaced gap t ts"

lemma live_read:
  assumes "redis_laws (ce_redis ce) look" and "ca_ready ca"
    and "look (ca_server ca) k = Some (s, until)" and "t < until" and "s \<noteq> []" and "ce_parse ce s = Some v"
  obtains r where "cache_get ce t k ca = (Some v, ca\<lparr>ca_server := r\<rparr>)"
proof -
  have get: "rd_get (ce_redis ce) t k (ca_server ca) = Some (Some s)"
    using assms(3,4) by (simp add: redis_lawsD(1) [OF assms(1)] alive_def)
  obtain r where "rd_expire (ce_redis ce) t k (ce_default_ttl ce) (ca_server ca) = Some r"
    using redis_lawsD(3) [OF assms(1,3,4)] by blast
  then have "fst (redis_get ce t k (ca_server ca)) = Some v"
    using get redis_lawsD(2) [OF assms(1,3,4)] assms(5,6) by (simp add: redis_get_def Let_def)
  then obtain r' where "redis_get ce t k (ca_server ca) = (Some v, r')"
    by (cases "redis_get ce t k (ca_server ca)") simp
  then show thesis using that [of r'] assms(2) by (simp add: cache_get_def)
qed

lemma hot_read:
  assumes "redis_laws (ce_redis ce) look" and "ca_ready ca" and "10 \<le> ce_default_ttl ce"
    and "look (ca_server ca) k = Some (s, until)" and "t + 500 \<le> until" and "s \<noteq> []" and "ce_parse ce s = Some v"
  obtains ca' until' where "cache_get ce t k ca = (Some v, ca')" "ca_ready ca'"
    "look (ca_server ca') k = Some (s, until')" "t + 9500 \<le> until'"
proof -
  have live: "t < until" using assms(5) by simp
  have get: "rd_get (ce_redis ce) t k (ca_server ca) = Some (Some s)"
    using assms(4) live by (simp add: redis_lawsD(1) [OF assms(1)] alive_def)
  have ttl: "rd_ttl (ce_redis ce) t k (ca_server ca) = Some ((until - t + 500) div 1000)"
    by (rule redis_lawsD(2) [OF assms(1,4) live])
  show thesis
  proof (cases "(until - t + 500) div 1000 < 10")
    case True
    obtain r' where r': "rd_expire (ce_redis ce) t k (ce_default_ttl ce) (ca_server ca) = Some r'"
      "look r' = (look (ca_server ca))(k \<mapsto> (s, t + ce_default_ttl ce * 1000))"
      using redis_lawsD(3) [OF assms(1,4) live] by blast
    have "0 < (until - t + 500) div 1000" using assms(5) by (simp add: pos_imp_zdiv_pos_iff)
    with True have "cache_get ce t k ca = (Some v, ca\<lparr>ca_server := r'\<rparr>)"
      using assms(2,6,7) get ttl r'(1) by (simp add: cache_get_def redis_get_def Let_def)
    from that [OF this] show thesis using assms(2,3) r'(2) by simp
  next
    case False
    have "cache_get ce t k ca = (Some v, ca)"
      using False assms(2,6,7) get ttl by (simp add: cache_get_def redis_get_def Let_def)
    from that [OF this assms(2,4)] show thesis using False by simp
  qed
qed

text \<open>A value that is read at least every nine seconds never leaves the shared cache, whatever
  time to live it was stored with: each read near its end starts the default time again.\<close>

lemma hot_value_never_expires:
  assumes "redis_laws (ce_redis ce) look" and "ca_ready ca" and "10 \<le> ce_default_ttl ce" and "10 \<le> ttl"
    and "ce_parse ce (ce_stringify ce v) = Some v" and "ce_stringify ce v \<noteq> []"
    and "spaced 9000 now ts"
  shows "read_often ce k ts (cache_set ce now k v ttl ca) = map (\<lambda>_. Some v) ts"
proof -
  let ?s = "ce_stringify ce v"
  obtain r where "rd_set (ce_redis ce) now k ?s ttl (ca_server ca) = Some r"
    "look r = (look (ca_server ca))(k \<mapsto> (?s, now + ttl * 1000))"
    using redis_lawsD(4) [OF assms(1)] by blast
  then have start: "look (ca_server (cache_set ce now k v ttl ca)) k = Some (?s, now + ttl * 1000)"
    "ca_ready (cache_set ce now k v ttl ca)"
    using assms(2) by (simp_all add: cache_set_def Let_def overlay_def)
  have "read_often ce k ts c = map (\<lambda>_. Some v) ts"
    if "look (ca_server c) k = Some (?s, until)" "ca_ready c" "prev + 9500 \<le> until" "spaced 9000 prev ts"
    for c until prev
    using that
  proof (induction ts arbitrary: c until prev)
    case (Cons t ts)
    have "t + 500 \<le> until" using Cons.prems(3,4) by simp
    from hot_read [OF assms(1) Cons.prems(2) assms(3) Cons.prems(1) this assms(6,5)]
    obtain c' until' where c': "cache_get ce t k c = (Some v, c')" "ca_ready c'"
      "look (ca_server c') k = Some (?s, until')" "t + 9500 \<le> until'" .
    show ?case using Cons.IH [OF c'(3,2,4)] Cons.prems(4) c'(1) by simp
  qed simp
  from this [OF start(1,2) _ assms(7)] show ?thesis using assms(4) by simp
qed


lemma hot_value_never_expires_example:
  "read_often \<lparr>ce_redis = map_redis, ce_default_ttl = 60, ce_parse = Some, ce_stringify = id\<rparr>
     ''account'' [8000, 17000, 26000, 35000]
     (cache_set \<lparr>ce_redis = map_redis, ce_default_ttl = 60, ce_parse = Some, ce_stringify = id\<rparr>
        0 ''account'' ''stale'' 30 \<lparr>ca_ready = True, ca_server = [], ca_lru = []\<rparr>)
   = [Some ''stale'', Some ''stale'', Some ''stale'', Some ''stale'']"
  by (rule trans [OF hot_value_never_expires [where look = d_get]])
    (simp_all add: map_redis_laws)

section \<open>Stream tickets\<close>

text \<open>
  \<open>routes/stream.js\<close>: the ticket that opens a balance stream is kept in the cache for thirty
  seconds and deleted when it is used.
\<close>

datatype stream_answer = StreamOpened | StreamRefused

definition ticket_key :: "string \<Rightarrow> string" where
  "ticket_key ticket = ''stream_ticket:'' @ ticket"

definition issue_ticket ::
  "('r, string) cache_env \<Rightarrow> int \<Rightarrow> string \<Rightarrow> string \<Rightarrow> 'r cache \<Rightarrow> 'r cache" where
  "issue_ticket ce now ticket pk ca = cache_set ce now (ticket_key ticket) pk 30 ca"

definition open_stream ::
  "('r, string) cache_env \<Rightarrow> int \<Rightarrow> string \<Rightarrow> string option \<Rightarrow> 'r cache \<Rightarrow> stream_answer \<times> 'r cache" where
  "open_stream ce now pk ticket ca =
     (case truthy_text ticket of
        None \<Rightarrow> (StreamRefused, ca)
      | Some t \<Rightarrow>
          (let (cached, ca') = cache_get ce now (ticket_key t) ca
           in case truthy_text cached of
                None \<Rightarrow> (StreamRefused, ca')
              | Some owner \<Rightarrow>
                  if owner \<noteq> pk then (StreamRefused, ca')
                  else (StreamOpened, cache_del ce now (ticket_key t) ca')))"

text \<open>A used ticket is refused where it was used, whatever Redis does with it from then on.\<close>

lemma lru_forgets: "d_get (ca_lru (cache_del ce now k ca)) k = None"
  by (simp add: cache_del_def lruDel_def)

lemma deleted_on_server:
  assumes "redis_laws (ce_redis ce) look" and "ca_ready ca"
  shows "look (ca_server (cache_del ce now k ca)) k = None"
  using redis_lawsD(6) [OF assms(1), of now "[k]" "ca_server ca"] assms(2)
  by (auto simp: cache_del_def overlay_def)

lemma used_ticket_refused_here:
  assumes "redis_laws (ce_redis ce) look" and "open_stream ce now pk (Some t) ca = (StreamOpened, ca')"
  shows "fst (open_stream ce later pk (Some t) ca') = StreamRefused"
proof -
  obtain cd where ca': "ca' = cache_del ce now (ticket_key t) cd"
    using assms(2)
    by (auto simp: open_stream_def truthy_text_def Let_def split: option.splits prod.splits if_splits)
  let ?k = "ticket_key t"
  have lru: "lruGet later ?k (ca_lru ca') = (None, ca_lru ca')"
    unfolding ca' by (simp add: lruGet_def lru_forgets)
  have gone: "look (ca_server ca') ?k = None" if "ca_ready ca'"
    using that deleted_on_server [OF assms(1), of cd now ?k]
    unfolding ca' by (simp add: cache_del_def)
  have "fst (cache_get ce later ?k ca') = None"
    using lru gone redis_lawsD(1) [OF assms(1)]
    by (auto simp: cache_get_def redis_get_def alive_def Let_def truthy_text_def)
  then show ?thesis
    by (auto simp: open_stream_def truthy_text_def Let_def split: prod.splits option.splits)
qed

text \<open>Two processes on one server: the first issues a ticket, the second is asked to open a stream
  with it, then the first is.\<close>

definition ticket_on_two ::
  "('r, string) cache_env \<Rightarrow> int \<Rightarrow> int \<Rightarrow> int \<Rightarrow> string \<Rightarrow> string \<Rightarrow> 'r cache \<Rightarrow> 'r cache \<Rightarrow>
     stream_answer \<times> stream_answer" where
  "ticket_on_two ce now first second pk t a b =
     (let a1 = issue_ticket ce now t pk a;
          (one, b1) = open_stream ce first pk (Some t) (b\<lparr>ca_server := ca_server a1\<rparr>);
          (two, _) = open_stream ce second pk (Some t) (a1\<lparr>ca_server := ca_server b1\<rparr>)
      in (one, two))"

text \<open>C31. A ticket opens a stream twice when two processes share the Redis server: the one that
  consumes it deletes it from Redis and from its own memory, while the one that issued it still has
  its own copy.\<close>

theorem ticket_opens_twice:
  assumes "redis_laws (ce_redis ce) look" and "ca_ready a" and "ca_ready b"
    and "ce_stringify ce pk \<noteq> []" and "ce_parse ce (ce_stringify ce pk) = Some pk" and "pk \<noteq> []" and "t \<noteq> []"
    and "first < now + 30000" and "second \<le> now + 30000"
  shows "ticket_on_two ce now first second pk t a b = (StreamOpened, StreamOpened)"
proof -
  let ?k = "ticket_key t" and ?s = "ce_stringify ce pk"
  define a1 where "a1 = issue_ticket ce now t pk a"
  obtain r where "rd_set (ce_redis ce) now ?k ?s 30 (ca_server a) = Some r"
    "look r = (look (ca_server a))(?k \<mapsto> (?s, now + 30 * 1000))"
    using redis_lawsD(4) [OF assms(1)] by blast
  then have server: "look (ca_server a1) ?k = Some (?s, now + 30000)" and ready: "ca_ready a1"
    and lru: "d_get (ca_lru a1) ?k = Some \<lparr>le_value = ?s, le_expires = now + 30000\<rparr>"
    using assms(2) unfolding a1_def
    by (simp_all add: issue_ticket_def cache_set_def overlay_def lruSet_def Let_def)
  let ?b = "b\<lparr>ca_server := ca_server a1\<rparr>"
  have "look (ca_server ?b) ?k = Some (?s, now + 30000)" "ca_ready ?b" using server assms(3) by simp_all
  from live_read [OF assms(1) this(2,1) assms(8,4,5)]
  obtain r1 where "cache_get ce first ?k ?b = (Some pk, ?b\<lparr>ca_server := r1\<rparr>)" .
  then have one: "open_stream ce first pk (Some t) ?b =
      (StreamOpened, cache_del ce first ?k (?b\<lparr>ca_server := r1\<rparr>))" (is "_ = (_, ?b1)")
    using assms(6,7) by (simp add: open_stream_def truthy_text_def)
  have "look (ca_server ?b1) ?k = None"
    using deleted_on_server [OF assms(1), of "?b\<lparr>ca_server := r1\<rparr>" first ?k] assms(3) by simp
  then have "fst (cache_get ce second ?k (a1\<lparr>ca_server := ca_server ?b1\<rparr>)) = Some pk"
    using lru ready redis_lawsD(1) [OF assms(1)] assms(4,5,9)
    by (simp add: cache_get_def redis_get_def alive_def lruGet_def truthy_text_def)
  then have "fst (open_stream ce second pk (Some t) (a1\<lparr>ca_server := ca_server ?b1\<rparr>)) = StreamOpened"
    using assms(6,7) by (auto simp: open_stream_def truthy_text_def split: prod.splits)
  then show ?thesis
    by (cases "open_stream ce second pk (Some t) (a1\<lparr>ca_server := ca_server ?b1\<rparr>)")
      (simp add: ticket_on_two_def a1_def [symmetric] one)
qed

lemma ticket_opens_twice_witness:
  "ticket_on_two \<lparr>ce_redis = map_redis, ce_default_ttl = 60, ce_parse = Some, ce_stringify = id\<rparr>
     0 1000 2000 ''GALICE'' ''c0ffee'' \<lparr>ca_ready = True, ca_server = [], ca_lru = []\<rparr>
     \<lparr>ca_ready = True, ca_server = [], ca_lru = []\<rparr> = (StreamOpened, StreamOpened)"
  by (rule ticket_opens_twice [where look = d_get]) (simp_all add: map_redis_laws)

end
