(* ===== verification/InboundWebhooks.thy ===== *)
theory InboundWebhooks
  imports CacheService SqlTable JsText
begin

text \<open>
  Callbacks from anchors: \<open>backend/src/services/inboundWebhookSecretService.js\<close> keeps the secrets
  of an endpoint, \<open>backend/src/middleware/verifyInboundWebhookSignature.js\<close> decides who may call.

  From outside: random values, the digest and the cipher of stored secrets. Times are milliseconds;
  the columns hold their ISO texts, which sort alike.
\<close>

section \<open>Secrets of an endpoint\<close>

record inbound_env =
  ie_uuid :: "nat \<Rightarrow> string"
  ie_random :: "nat \<Rightarrow> string"
  ie_encrypt :: "string \<Rightarrow> string"
  ie_decrypt :: "string \<Rightarrow> string option"
  ie_hmac :: "string \<Rightarrow> string \<Rightarrow> string"
  ie_hash_key :: string
  ie_window :: int

record secret_row =
  sr_endpoint :: string
  sr_encrypted :: string
  sr_hash :: string
  sr_active :: bool
  sr_created :: int
  sr_rotated :: "int option"
  sr_expires :: "int option"

record secret_store =
  ss_rows :: "(string, secret_row) table"
  ss_drawn :: nat

record created_secret =
  cs_id :: string
  cs_endpoint :: string
  cs_secret :: string
  cs_created :: int

definition to_hex :: "string \<Rightarrow> string" where
  "to_hex bytes = concat (map (\<lambda>c. hex2 (of_char c)) bytes)"

definition hashSecret :: "inbound_env \<Rightarrow> string \<Rightarrow> string \<Rightarrow> string" where
  "hashSecret ie id_text secret = to_hex (ie_hmac ie (ie_hash_key ie) (id_text @ '':'' @ secret))"

definition createSecret ::
  "inbound_env \<Rightarrow> int \<Rightarrow> string \<Rightarrow> secret_store \<Rightarrow> (thrown + created_secret) \<times> secret_store" where
  "createSecret ie now endpoint st =
     (let n = ss_drawn st; uuid = ie_uuid ie n; secret = ie_random ie n; st' = st\<lparr>ss_drawn := Suc n\<rparr>
      in case tb_insert uuid
             \<lparr>sr_endpoint = endpoint, sr_encrypted = ie_encrypt ie secret,
              sr_hash = hashSecret ie endpoint secret, sr_active = True, sr_created = now,
              sr_rotated = None, sr_expires = None\<rparr> (ss_rows st) of
           None \<Rightarrow> (Inl (plain_error ''UNIQUE constraint failed''), st')
         | Some rows \<Rightarrow>
             (Inr \<lparr>cs_id = uuid, cs_endpoint = endpoint, cs_secret = secret, cs_created = now\<rparr>,
              st'\<lparr>ss_rows := rows\<rparr>))"

definition active_rows :: "string \<Rightarrow> secret_store \<Rightarrow> (string \<times> secret_row) list" where
  "active_rows endpoint st = tb_select (\<lambda>_ r. sr_endpoint r = endpoint \<and> sr_active r) (ss_rows st)"

definition ensureSecretExists ::
  "inbound_env \<Rightarrow> int \<Rightarrow> string \<Rightarrow> secret_store \<Rightarrow> (thrown + created_secret option) \<times> secret_store" where
  "ensureSecretExists ie now endpoint st =
     (if active_rows endpoint st \<noteq> [] then (Inr None, st)
      else apfst (map_sum id Some) (createSecret ie now endpoint st))"

text \<open>\<open>now\<close> is read at the start, \<open>created\<close> is the clock of \<open>createSecret\<close>.\<close>

definition rotateSecret ::
  "inbound_env \<Rightarrow> int \<Rightarrow> int \<Rightarrow> string \<Rightarrow> int \<Rightarrow> secret_store \<Rightarrow>
     (thrown + created_secret) \<times> secret_store" where
  "rotateSecret ie now created endpoint graceSeconds st =
     (let ids = map fst (active_rows endpoint st)
      in case createSecret ie created endpoint st of
           (Inl e, st') \<Rightarrow> (Inl e, st')
         | (Inr c, st') \<Rightarrow>
             (Inr c,
              if ids = [] then st'
              else if 0 < graceSeconds then
                st'\<lparr>ss_rows := snd (tb_update (\<lambda>k _. k \<in> set ids)
                  (\<lambda>r. r\<lparr>sr_rotated := Some now, sr_expires := Some (now + graceSeconds * 1000)\<rparr>)
                  (ss_rows st'))\<rparr>
              else
                st'\<lparr>ss_rows := snd (tb_update (\<lambda>k _. k \<in> set ids)
                  (\<lambda>r. r\<lparr>sr_active := False, sr_rotated := Some now\<rparr>) (ss_rows st'))\<rparr>))"

definition revokeSecret :: "int \<Rightarrow> string \<Rightarrow> string \<Rightarrow> secret_store \<Rightarrow> bool \<times> secret_store" where
  "revokeSecret now endpoint secret_id st =
     (let (n, rows) = tb_update (\<lambda>k r. sr_endpoint r = endpoint \<and> k = secret_id)
            (\<lambda>r. r\<lparr>sr_active := False, sr_expires := Some now\<rparr>) (ss_rows st)
      in (0 < n, st\<lparr>ss_rows := rows\<rparr>))"

definition valid_rows :: "int \<Rightarrow> string \<Rightarrow> secret_store \<Rightarrow> (string \<times> secret_row) list" where
  "valid_rows now endpoint st =
     tb_select (\<lambda>_ r. sr_endpoint r = endpoint \<and> sr_active r
        \<and> (case sr_expires r of None \<Rightarrow> True | Some until \<Rightarrow> now < until)) (ss_rows st)"

text \<open>\<open>None\<close>: a stored secret that does not decrypt makes the whole call throw.\<close>

definition getActiveSecrets :: "inbound_env \<Rightarrow> int \<Rightarrow> string \<Rightarrow> secret_store \<Rightarrow> string list option" where
  "getActiveSecrets ie now endpoint st =
     those (map (\<lambda>(_, r). ie_decrypt ie (sr_encrypted r)) (valid_rows now endpoint st))"

text \<open>What \<open>rowToMetadata\<close> leaves of a row: everything but the ciphertext and the digest.\<close>

record secret_metadata =
  sm_id :: string
  sm_endpoint :: string
  sm_active :: bool
  sm_created :: int
  sm_rotated :: "int option"
  sm_expires :: "int option"

definition rowToMetadata :: "string \<times> secret_row \<Rightarrow> secret_metadata" where
  "rowToMetadata p =
     (let r = snd p
      in \<lparr>sm_id = fst p, sm_endpoint = sr_endpoint r, sm_active = sr_active r, sm_created = sr_created r,
          sm_rotated = sr_rotated r, sm_expires = sr_expires r\<rparr>)"

definition listSecrets :: "string \<Rightarrow> secret_store \<Rightarrow> secret_metadata list" where
  "listSecrets endpoint st =
     map rowToMetadata (sort_key (\<lambda>(_, r). - sr_created r)
       (tb_select (\<lambda>_ r. sr_endpoint r = endpoint) (ss_rows st)))"

section \<open>Who may call\<close>

text \<open>\<open>Buffer.from(text, "hex")\<close> takes digits of either case and stops at the first pair that is none.\<close>

definition hex_digit :: "char \<Rightarrow> nat option" where
  "hex_digit c = (case digit_value c of Some d \<Rightarrow> if d < 16 then Some d else None | None \<Rightarrow> None)"

fun from_hex :: "string \<Rightarrow> string" where
  "from_hex (a # b # r) =
     (case (hex_digit a, hex_digit b) of
        (Some x, Some y) \<Rightarrow> char_of (16 * x + y) # from_hex r
      | _ \<Rightarrow> [])"
| "from_hex _ = []"

record webhook_request =
  wq_signature :: "string option"
  wq_timestamp :: "string option"
  wq_raw :: "string option"
  wq_body :: jsval

datatype rejection =
    MissingHeaders | MalformedTimestamp | StaleTimestamp | MissingRawBody
  | SecretLookupFailed | NoActiveSecret | SignatureMismatch | ReplayDetected

definition signed_by :: "inbound_env \<Rightarrow> string \<Rightarrow> string \<Rightarrow> string \<Rightarrow> bool" where
  "signed_by ie signature raw secret \<longleftrightarrow> ie_hmac ie secret raw = from_hex signature"

definition nonce_key :: "string \<Rightarrow> string \<Rightarrow> string" where
  "nonce_key endpoint signature = ''webhook:replay:'' @ endpoint @ '':'' @ signature"

text \<open>\<open>None\<close>: the request goes on to the handler.\<close>

definition verifyInboundWebhookSignature ::
  "inbound_env \<Rightarrow> ('r, 'v) cache_env \<Rightarrow> int \<Rightarrow> string \<Rightarrow> secret_store \<Rightarrow> webhook_request \<Rightarrow> 'r cache \<Rightarrow>
     rejection option \<times> 'r cache" where
  "verifyInboundWebhookSignature ie ce now endpoint st rq ca =
     (case (truthy_text (wq_signature rq), truthy_text (wq_timestamp rq)) of
        (Some signature, Some stamp) \<Rightarrow>
          (case toNumber stamp of
             Fin q \<Rightarrow>
               if of_int (ie_window ie) < abs (of_int (now div 1000) - q) then (Some StaleTimestamp, ca)
               else (case wq_raw rq of
                   None \<Rightarrow> (Some MissingRawBody, ca)
                 | Some raw \<Rightarrow>
                     (case getActiveSecrets ie now endpoint st of
                        None \<Rightarrow> (Some SecretLookupFailed, ca)
                      | Some secrets \<Rightarrow>
                          if secrets = [] then (Some NoActiveSecret, ca)
                          else if \<not> list_ex (signed_by ie signature raw) secrets
                          then (Some SignatureMismatch, ca)
                          else
                            (let (new, ca') = setIfNotExists ce now (nonce_key endpoint signature)
                                   (ie_window ie * 2) ca
                             in (if new then None else Some ReplayDetected, ca'))))
           | _ \<Rightarrow> (Some MalformedTimestamp, ca))
      | _ \<Rightarrow> (Some MissingHeaders, ca))"

lemma inbound_accepted_iff:
  "fst (verifyInboundWebhookSignature ie ce now endpoint st rq ca) = None \<longleftrightarrow>
     (\<exists>sig stamp q raw secrets. truthy_text (wq_signature rq) = Some sig \<and>
        truthy_text (wq_timestamp rq) = Some stamp \<and> toNumber stamp = Fin q \<and>
        abs (of_int (now div 1000) - q) \<le> of_int (ie_window ie) \<and> wq_raw rq = Some raw \<and>
        getActiveSecrets ie now endpoint st = Some secrets \<and> list_ex (signed_by ie sig raw) secrets \<and>
        fst (setIfNotExists ce now (nonce_key endpoint sig) (ie_window ie * 2) ca))"
  by (auto simp: verifyInboundWebhookSignature_def Let_def not_less split: option.splits jsnum.splits prod.splits)

lemma inbound_accepted_cache:
  assumes "fst (verifyInboundWebhookSignature ie ce now endpoint st rq ca) = None"
    and "wq_signature rq = Some sig"
  shows "snd (verifyInboundWebhookSignature ie ce now endpoint st rq ca) =
    snd (setIfNotExists ce now (nonce_key endpoint sig) (ie_window ie * 2) ca)"
  using assms
  by (auto simp: verifyInboundWebhookSignature_def truthy_text_def Let_def
      split: option.splits jsnum.splits prod.splits if_splits)

section \<open>Secrets over time\<close>

datatype secret_op = EnsureSecret string | CreateSecret string | RotateSecret string int | RevokeSecret string string

fun secret_step :: "inbound_env \<Rightarrow> int \<times> secret_op \<Rightarrow> secret_store \<Rightarrow> secret_store" where
  "secret_step ie (now, EnsureSecret e) st = snd (ensureSecretExists ie now e st)"
| "secret_step ie (now, CreateSecret e) st = snd (createSecret ie now e st)"
| "secret_step ie (now, RotateSecret e g) st = snd (rotateSecret ie now now e g st)"
| "secret_step ie (now, RevokeSecret e i) st = snd (revokeSecret now e i st)"

definition retired :: "string \<Rightarrow> secret_store \<Rightarrow> bool" where
  "retired k st \<longleftrightarrow> tb_wf (ss_rows st) \<and> (\<exists>r. tb_row (ss_rows st) k = Some r \<and> \<not> sr_active r)"

lemma create_rows:
  "createSecret ie now e st = (Inl x, st') \<Longrightarrow> ss_rows st' = ss_rows st"
  "createSecret ie now e st = (Inr c, st') \<Longrightarrow> tb_row (ss_rows st) (cs_id c) = None \<and>
     (\<exists>r. tb_insert (cs_id c) r (ss_rows st) = Some (ss_rows st') \<and> sr_endpoint r = e \<and> sr_active r \<and>
        sr_expires r = None \<and> sr_encrypted r = ie_encrypt ie (cs_secret c))"
  by (auto simp: createSecret_def Let_def tb_insert_def split: option.splits if_splits)

lemma retired_create: "retired k st \<Longrightarrow> retired k (snd (createSecret ie now e st))"
proof (cases "createSecret ie now e st")
  case (Pair x st')
  assume r: "retired k st"
  show ?thesis
  proof (cases x)
    case (Inl err)
    then show ?thesis using r Pair create_rows(1) by (auto simp: retired_def)
  next
    case (Inr c)
    then obtain row where "tb_row (ss_rows st) (cs_id c) = None"
      "tb_insert (cs_id c) row (ss_rows st) = Some (ss_rows st')"
      using Pair create_rows(2) by blast
    then show ?thesis using r Pair db.row_ins db.wf_ins by (fastforce simp: retired_def)
  qed
qed

lemma retired_update:
  assumes "retired k st" and "\<And>r. sr_active (f r) \<Longrightarrow> sr_active r"
  shows "retired k (st\<lparr>ss_rows := snd (tb_update P f (ss_rows st))\<rparr>)"
proof -
  obtain r where r: "tb_row (ss_rows st) k = Some r" "\<not> sr_active r" and wf: "tb_wf (ss_rows st)"
    using assms(1) by (auto simp: retired_def)
  have "tb_row (snd (tb_update P f (ss_rows st))) k = Some (if P k r then f r else r)"
    by (simp add: db.row_upd r(1))
  moreover have "\<not> sr_active (if P k r then f r else r)" using r(2) assms(2) by auto
  ultimately show ?thesis using db.wf_upd [OF wf] by (simp add: retired_def)
qed

lemma retired_step: "retired k st \<Longrightarrow> retired k (secret_step ie op st)"
proof (induction ie op st rule: secret_step.induct)
  case (1 ie now e st)
  then show ?case using retired_create by (simp add: ensureSecretExists_def)
next
  case (2 ie now e st)
  then show ?case using retired_create by simp
next
  case (3 ie now e g st)
  obtain x st' where c: "createSecret ie now e st = (x, st')" by (cases "createSecret ie now e st")
  have "retired k st'" using retired_create [OF 3, of ie now e] by (simp add: c)
  then show ?case
    by (auto simp: rotateSecret_def Let_def c intro: retired_update split: sum.splits)
next
  case (4 ie now e i st)
  then show ?case
    using retired_update [OF 4, of "\<lambda>r. r\<lparr>sr_active := False, sr_expires := Some now\<rparr>"
        "\<lambda>k' r. sr_endpoint r = e \<and> k' = i"]
    by (simp add: revokeSecret_def split_beta Let_def)
qed

lemma in_valid_rows:
  "tb_wf (ss_rows st) \<Longrightarrow> (k, r) \<in> set (valid_rows t e st) \<longleftrightarrow>
     tb_row (ss_rows st) k = Some r \<and> sr_endpoint r = e \<and> sr_active r
       \<and> (case sr_expires r of None \<Rightarrow> True | Some until \<Rightarrow> t < until)"
  by (simp add: valid_rows_def db.in_sel)

lemma in_active_rows:
  "tb_wf (ss_rows st) \<Longrightarrow> (k, r) \<in> set (active_rows e st) \<longleftrightarrow>
     tb_row (ss_rows st) k = Some r \<and> sr_endpoint r = e \<and> sr_active r"
  by (simp add: active_rows_def db.in_sel)

text \<open>C15. A revoked secret is never valid again: whatever is created, rotated or revoked afterwards,
  no callback is checked against it.\<close>

theorem revoked_secret_never_returns:
  assumes "tb_wf (ss_rows st)" and "revokeSecret now e k st = (True, st')"
  shows "k \<notin> fst ` set (valid_rows t e' (fold (secret_step ie) ops st'))"
proof -
  have "fst (tb_update (\<lambda>k' r. sr_endpoint r = e \<and> k' = k)
      (\<lambda>r. r\<lparr>sr_active := False, sr_expires := Some now\<rparr>) (ss_rows st)) \<noteq> 0"
    using assms(2) by (auto simp: revokeSecret_def Let_def split_beta)
  then have "tb_select (\<lambda>k' r. sr_endpoint r = e \<and> k' = k) (ss_rows st) \<noteq> []"
    by (auto simp: db.upd_count)
  then obtain k1 r where "(k1, r) \<in> set (tb_select (\<lambda>k' r. sr_endpoint r = e \<and> k' = k) (ss_rows st))"
    by (cases "tb_select (\<lambda>k' r. sr_endpoint r = e \<and> k' = k) (ss_rows st)") force+
  then have r: "tb_row (ss_rows st) k = Some r" "sr_endpoint r = e"
    by (auto simp: db.in_sel [OF assms(1)])
  have "retired k st'"
    using assms r by (auto simp: retired_def revokeSecret_def split_beta Let_def db.wf_upd db.row_upd)
  then have "retired k (fold (secret_step ie) ops st')"
    using fold_invariant [of ops "\<lambda>_. True" "retired k" st' "secret_step ie"] retired_step by blast
  then show ?thesis by (auto simp: retired_def in_valid_rows)
qed

text \<open>C30. Rotating with a grace period revives secrets whose own grace period is over: every row
  still marked active gets the new deadline, also one that had expired.\<close>

theorem rotation_revives_expired_secret:
  assumes "tb_wf (ss_rows st)" and "tb_row (ss_rows st) k = Some r" and "sr_endpoint r = e" and "sr_active r"
    and "sr_expires r = Some until" and "until \<le> now"
    and "rotateSecret ie now now e g st = (Inr c, st')" and "0 < g" and "t < now + g * 1000"
  shows "k \<notin> fst ` set (valid_rows now e st) \<and> k \<in> fst ` set (valid_rows t e st')"
proof
  show "k \<notin> fst ` set (valid_rows now e st)"
    using assms(1,2,5,6) by (auto simp: in_valid_rows)
  have k: "k \<in> set (map fst (active_rows e st))"
    using in_active_rows [OF assms(1), of k r e] assms(2-4) by force
  obtain x st1 where create: "createSecret ie now e st = (x, st1)" by (cases "createSecret ie now e st")
  have x: "x = Inr c" and st': "st' = st1\<lparr>ss_rows := snd (tb_update (\<lambda>k _. k \<in> set (map fst (active_rows e st)))
      (\<lambda>r. r\<lparr>sr_rotated := Some now, sr_expires := Some (now + g * 1000)\<rparr>) (ss_rows st1))\<rparr>"
    using assms(7,8) k create by (auto simp: rotateSecret_def Let_def split: sum.splits if_splits)
  obtain row where row: "tb_row (ss_rows st) (cs_id c) = None"
    "tb_insert (cs_id c) row (ss_rows st) = Some (ss_rows st1)"
    using create_rows(2) [OF create [unfolded x]] by blast
  have "tb_wf (ss_rows st')" using db.wf_upd db.wf_ins [OF assms(1) row(2)] by (simp add: st')
  moreover have "tb_row (ss_rows st') k =
      Some (r\<lparr>sr_rotated := Some now, sr_expires := Some (now + g * 1000)\<rparr>)"
    using row assms(2) k by (auto simp: st' db.row_upd db.row_ins [OF row(2)])
  ultimately have "(k, r\<lparr>sr_rotated := Some now, sr_expires := Some (now + g * 1000)\<rparr>) \<in> set (valid_rows t e st')"
    using assms(3,4,9) by (simp add: in_valid_rows)
  then show "k \<in> fst ` set (valid_rows t e st')" by force
qed

section \<open>Replays\<close>

text \<open>
  The digest covers the body and nothing else, so the timestamp of a captured request can be
  renewed; and what is remembered of a request is the text of its signature, which has many
  spellings: letters after the last pair of digits are not read.
\<close>

lemma no_hex_digit: "hex_digit (CHR ''z'') = None"
  by code_simp

lemma from_hex_z: "from_hex (CHR ''z'' # w) = []"
  by (cases w) (simp_all add: no_hex_digit)

lemma from_hex_append: "from_hex (s @ CHR ''z'' # w) = from_hex s"
  by (induction s rule: from_hex.induct) (auto simp: from_hex_z no_hex_digit split: option.splits)

definition respelled :: "nat \<Rightarrow> string \<Rightarrow> string" where
  "respelled n signature = signature @ replicate n CHR ''z''"

lemma signed_by_respelled: "signed_by ie (respelled n sig) raw = signed_by ie sig raw"
  by (rule ext) (cases n, auto simp: signed_by_def respelled_def from_hex_append)

lemma nonce_key_inject [simp]: "nonce_key e a = nonce_key e b \<longleftrightarrow> a = b"
  by (simp add: nonce_key_def)

lemma respelled_inject [simp]: "respelled m s = respelled n s \<longleftrightarrow> m = n"
  by (auto simp: respelled_def dest: arg_cong [of _ _ length])

text \<open>What someone who saw one accepted request can send at time \<open>t\<close>, without the secret.\<close>

definition replayed :: "webhook_request \<Rightarrow> string \<Rightarrow> nat \<times> int \<Rightarrow> webhook_request" where
  "replayed rq sig p = rq\<lparr>wq_signature := Some (respelled (fst p) sig),
     wq_timestamp := Some (show_int (snd p div 1000))\<rparr>"

fun deliver_all ::
  "inbound_env \<Rightarrow> ('r, 'v) cache_env \<Rightarrow> string \<Rightarrow> secret_store \<Rightarrow> (int \<times> webhook_request) list \<Rightarrow>
     'r cache \<Rightarrow> rejection option list" where
  "deliver_all ie ce endpoint st [] ca = []"
| "deliver_all ie ce endpoint st ((t, rq) # rqs) ca =
     (case verifyInboundWebhookSignature ie ce t endpoint st rq ca of
        (r, ca') \<Rightarrow> r # deliver_all ie ce endpoint st rqs ca')"

lemma set_if_new:
  assumes "\<not> ca_ready ca" and "d_get (ca_lru ca) k = None"
  shows "setIfNotExists ce now k ttl ca = (True, ca\<lparr>ca_lru := lruSet now k ''1'' ttl (ca_lru ca)\<rparr>)"
  using assms by (simp add: setIfNotExists_def lruGet_def)

lemma lruSet_other: "k' \<noteq> k \<Longrightarrow> d_get c k' = None \<Longrightarrow> d_get (lruSet now k v ttl c) k' = None"
  by (simp add: lruSet_def dict.get_set dict.get_delete)

lemma replay_accepted:
  assumes "fst (verifyInboundWebhookSignature ie ce now e st rq ca) = None" and "wq_signature rq = Some sig"
    and "getActiveSecrets ie t e st = getActiveSecrets ie now e st" and "0 \<le> ie_window ie"
    and "\<not> ca_ready ca'" and "d_get (ca_lru ca') (nonce_key e (respelled n sig)) = None"
  shows "verifyInboundWebhookSignature ie ce t e st (replayed rq sig (n, t)) ca' =
    (None, ca'\<lparr>ca_lru := lruSet t (nonce_key e (respelled n sig)) ''1'' (ie_window ie * 2) (ca_lru ca')\<rparr>)"
proof -
  obtain raw secrets where *: "sig \<noteq> []" "wq_raw rq = Some raw" "getActiveSecrets ie now e st = Some secrets"
    "list_ex (signed_by ie sig raw) secrets"
    using assms(1,2) unfolding inbound_accepted_iff by (auto simp: truthy_text_def split: if_splits)
  have new: "setIfNotExists ce t (nonce_key e (respelled n sig)) (ie_window ie * 2) ca' =
      (True, ca'\<lparr>ca_lru := lruSet t (nonce_key e (respelled n sig)) ''1'' (ie_window ie * 2) (ca_lru ca')\<rparr>)"
    by (rule set_if_new [OF assms(5,6)])
  have sig: "respelled n sig \<noteq> []" using *(1) by (simp add: respelled_def)
  have "fst (verifyInboundWebhookSignature ie ce t e st (replayed rq sig (n, t)) ca') = None"
    unfolding inbound_accepted_iff
    using * sig assms(3,4) new by (simp add: replayed_def truthy_text_def signed_by_respelled)
  moreover from inbound_accepted_cache [OF this] new
  have "snd (verifyInboundWebhookSignature ie ce t e st (replayed rq sig (n, t)) ca') =
      ca'\<lparr>ca_lru := lruSet t (nonce_key e (respelled n sig)) ''1'' (ie_window ie * 2) (ca_lru ca')\<rparr>"
    by (simp add: replayed_def)
  ultimately show ?thesis by (simp add: prod_eq_iff)
qed

text \<open>C29. A captured callback can be replayed without end: for any list of later times at which the
  secrets are still valid, the same body with the old signature respelled and a fresh timestamp is
  accepted every time, although replays are meant to be refused.\<close>

theorem captured_callback_replayed:
  assumes "fst (verifyInboundWebhookSignature ie ce now e st rq ca) = None" and "wq_signature rq = Some sig"
    and "\<forall>t \<in> set ts. getActiveSecrets ie t e st = getActiveSecrets ie now e st"
    and "0 \<le> ie_window ie" and "\<not> ca_ready ca'"
    and "\<forall>n > 0. d_get (ca_lru ca') (nonce_key e (respelled n sig)) = None"
  shows "deliver_all ie ce e st (map (\<lambda>p. (snd p, replayed rq sig p)) (enumerate 1 ts)) ca'
    = replicate (length ts) None"
proof -
  have "deliver_all ie ce e st (map (\<lambda>p. (snd p, replayed rq sig p)) (enumerate m ts)) c
      = replicate (length ts) None"
    if "\<forall>n \<ge> m. d_get (ca_lru c) (nonce_key e (respelled n sig)) = None" "\<not> ca_ready c" for m c
    using assms(3) that
  proof (induction ts arbitrary: m c)
    case (Cons t ts)
    let ?c = "c\<lparr>ca_lru := lruSet t (nonce_key e (respelled m sig)) ''1'' (ie_window ie * 2) (ca_lru c)\<rparr>"
    have "verifyInboundWebhookSignature ie ce t e st (replayed rq sig (m, t)) c = (None, ?c)"
      using Cons.prems by (intro replay_accepted [OF assms(1,2) _ assms(4)]) simp_all
    moreover have "\<forall>n \<ge> Suc m. d_get (ca_lru ?c) (nonce_key e (respelled n sig)) = None"
      using Cons.prems(2) by (auto intro: lruSet_other)
    ultimately show ?case using Cons.IH [of "Suc m" ?c] Cons.prems(1,3) by simp
  qed simp
  from this [of 1 ca'] show ?thesis using assms(5,6) by auto
qed

section \<open>The theorems on a concrete endpoint\<close>

definition demo_inbound :: inbound_env where
  "demo_inbound = \<lparr>ie_uuid = (\<lambda>n. ''id'' @ show_nat n), ie_random = (\<lambda>n. ''secret'' @ show_nat n),
     ie_encrypt = id, ie_decrypt = Some, ie_hmac = (\<lambda>key data. [CHR ''K'', CHR ''m'']),
     ie_hash_key = ''key'', ie_window = 300\<rparr>"

definition demo_secrets :: "int option \<Rightarrow> secret_store" where
  "demo_secrets until = \<lparr>ss_rows = [(''s1'', \<lparr>sr_endpoint = ''sep24_callback'', sr_encrypted = ''old'',
     sr_hash = ''h'', sr_active = True, sr_created = 0, sr_rotated = None, sr_expires = until\<rparr>)],
     ss_drawn = 0\<rparr>"

lemma revoked_secret_never_returns_witness:
  "''s1'' \<notin> fst ` set (valid_rows 99 ''sep24_callback''
     (fold (secret_step demo_inbound)
        [(8, CreateSecret ''sep24_callback''), (9, RotateSecret ''sep24_callback'' 60)]
        (snd (revokeSecret 7 ''sep24_callback'' ''s1'' (demo_secrets None)))))"
proof (rule revoked_secret_never_returns)
  show "tb_wf (ss_rows (demo_secrets None))" by code_simp
  have "fst (revokeSecret 7 ''sep24_callback'' ''s1'' (demo_secrets None)) = True" by code_simp
  then show "revokeSecret 7 ''sep24_callback'' ''s1'' (demo_secrets None) =
      (True, snd (revokeSecret 7 ''sep24_callback'' ''s1'' (demo_secrets None)))"
    by (simp add: prod_eq_iff)
qed

lemma rotation_revives_expired_secret_witness:
  "''s1'' \<notin> fst ` set (valid_rows 1000 ''sep24_callback'' (demo_secrets (Some 500)))
   \<and> ''s1'' \<in> fst ` set (valid_rows 2000 ''sep24_callback''
        (snd (rotateSecret demo_inbound 1000 1000 ''sep24_callback'' 60 (demo_secrets (Some 500)))))"
proof (rule rotation_revives_expired_secret [where until = 500 and r = "snd (hd (ss_rows (demo_secrets (Some 500))))"])
  have "isl (fst (rotateSecret demo_inbound 1000 1000 ''sep24_callback'' 60 (demo_secrets (Some 500)))) = False"
    by code_simp
  then show "rotateSecret demo_inbound 1000 1000 ''sep24_callback'' 60 (demo_secrets (Some 500)) =
      (Inr (projr (fst (rotateSecret demo_inbound 1000 1000 ''sep24_callback'' 60 (demo_secrets (Some 500))))),
       snd (rotateSecret demo_inbound 1000 1000 ''sep24_callback'' 60 (demo_secrets (Some 500))))"
    by (simp add: prod_eq_iff)
qed (simp_all add: demo_secrets_def tb_row_def tb_wf_def)

definition demo_request :: webhook_request where
  "demo_request = \<lparr>wq_signature = Some ''4b6d'', wq_timestamp = Some ''1000'', wq_raw = Some ''{}'',
     wq_body = JObject []\<rparr>"

abbreviation demo_cache_env :: "(unit, string) cache_env" where
  "demo_cache_env \<equiv> \<lparr>ce_redis = undefined, ce_default_ttl = 60, ce_parse = Some, ce_stringify = id\<rparr>"

lemma captured_callback_replayed_witness:
  "deliver_all demo_inbound demo_cache_env ''sep24_callback'' (demo_secrets None)
     (map (\<lambda>p. (snd p, replayed demo_request ''4b6d'' p)) (enumerate 1 [1000000, 1000500, 9000000]))
     (snd (verifyInboundWebhookSignature demo_inbound demo_cache_env 1000000 ''sep24_callback''
        (demo_secrets None) demo_request \<lparr>ca_ready = False, ca_server = (), ca_lru = []\<rparr>))
   = [None, None, None]"
  (is "deliver_all _ _ _ _ _ (snd ?v) = _")
proof -
  have v: "?v = (None, \<lparr>ca_ready = False, ca_server = (),
      ca_lru = [(''webhook:replay:sep24_callback:4b6d'', \<lparr>le_value = ''1'', le_expires = 1600000\<rparr>)]\<rparr>)"
    by code_simp
  have "deliver_all demo_inbound demo_cache_env ''sep24_callback'' (demo_secrets None)
      (map (\<lambda>p. (snd p, replayed demo_request ''4b6d'' p)) (enumerate 1 [1000000, 1000500, 9000000])) (snd ?v)
    = replicate (length [1000000, 1000500, 9000000 :: int]) None"
  proof (rule captured_callback_replayed)
    show "fst ?v = None" by (simp only: v fst_conv)
    show "\<forall>t\<in>set [1000000, 1000500, 9000000]. getActiveSecrets demo_inbound t ''sep24_callback'' (demo_secrets None) =
        getActiveSecrets demo_inbound 1000000 ''sep24_callback'' (demo_secrets None)"
      by (simp add: getActiveSecrets_def valid_rows_def demo_secrets_def tb_select_def)
    show "\<forall>n>0. d_get (ca_lru (snd ?v)) (nonce_key ''sep24_callback'' (respelled n ''4b6d'')) = None"
      by (auto simp: v d_get_def nonce_key_def respelled_def)
    show "\<not> ca_ready (snd ?v)" by (simp add: v)
  qed (simp_all add: demo_request_def demo_inbound_def)
  then show ?thesis by simp
qed

end
