(* ===== verification/Anchors.thy ===== *)
theory Anchors
  imports InboundWebhooks RequestText JsNet
begin

text \<open>
  \<open>backend/src/services/sep/sep24Service.js\<close> with the callback and the status route of
  \<open>backend/src/routes/sep24.js\<close>: interactive deposits and withdrawals of this server's own, and
  those at an anchor, whose status the anchor reports by callback.

  The anchor's HTTP answers, its configured address, random ids and URL encoding are parameters
  (\<open>sep24_env\<close>). The map of anchor transactions is keyed by whatever value the anchor sent as id;
  ids that are objects, which a \<open>Map\<close> compares by identity, are outside the model.
\<close>

section \<open>Interactive transactions of this server\<close>

datatype tx_kind = Deposit | Withdrawal
datatype tx_status = PendingExternal | Completed | TxError

record tx_record =
  tr_id :: string
  tr_kind :: tx_kind
  tr_status :: tx_status
  tr_asset :: string
  tr_account :: string
  tr_memo :: "string option"
  tr_memo_type :: "string option"
  tr_url :: string
  tr_reason :: "string option"
  tr_created :: int
  tr_updated :: int

record tx_params =
  tp_asset :: string
  tp_account :: string
  tp_memo :: "string option"
  tp_memo_type :: "string option"
  tp_anchor_url :: "string option"

datatype anchor_reply = AnchorAnswers jsval | AnchorFails "nat option" string

record sep24_env =
  s24_uuid :: "nat \<Rightarrow> string"
  s24_base :: string
  s24_encode :: "string \<Rightarrow> string"
  s24_anchor :: "string option \<Rightarrow> (string \<times> string) option"
  s24_post :: "string \<Rightarrow> (string \<times> string) list \<Rightarrow> string option \<Rightarrow> anchor_reply"

record anchor_record =
  an_id :: jsval
  an_kind :: jsval
  an_details :: "(string \<times> string option) list"
  an_url :: jsval
  an_status :: jsval
  an_amount_in :: jsval
  an_amount_out :: jsval
  an_message :: jsval
  an_created :: int
  an_updated :: int

record sep24_state =
  s24_transactions :: "(string, tx_record) dict"
  s24_anchored :: "(jsval, anchor_record) dict"
  s24_drawn :: nat

definition kind_text :: "tx_kind \<Rightarrow> string" where
  "kind_text k = (case k of Deposit \<Rightarrow> ''deposit'' | Withdrawal \<Rightarrow> ''withdrawal'')"

definition buildInteractiveUrl ::
  "sep24_env \<Rightarrow> string \<Rightarrow> string \<Rightarrow> string \<Rightarrow> tx_kind \<Rightarrow> string option \<Rightarrow> string" where
  "buildInteractiveUrl se tx_id asset account kind base =
     (case truthy_text base of None \<Rightarrow> s24_base se | Some b \<Rightarrow> b) @ ''/kyc''
       @ ''?transaction_id='' @ s24_encode se tx_id
       @ ''&asset_code='' @ s24_encode se asset
       @ ''&account='' @ s24_encode se account
       @ ''&kind='' @ s24_encode se (kind_text kind)"

definition asset_code_text :: "string \<Rightarrow> bool" where
  "asset_code_text s \<longleftrightarrow> 1 \<le> length s \<and> length s \<le> 12 \<and> list_all alphanumeric s"

definition validateInput :: "string \<Rightarrow> string \<Rightarrow> thrown + unit" where
  "validateInput asset account =
     bnd (ensure (asset \<noteq> [] \<and> account \<noteq> []) (http_error 400 ''asset_code and account are required'')) (\<lambda>_.
     bnd (ensure (asset_code_text asset) (http_error 400 ''Invalid asset_code format'')) (\<lambda>_.
     ensure (account_id account) (http_error 400 ''Invalid Stellar public key format'')))"

definition createTransaction ::
  "sep24_env \<Rightarrow> int \<Rightarrow> tx_kind \<Rightarrow> tx_params \<Rightarrow> sep24_state \<Rightarrow> (thrown + tx_record) \<times> sep24_state" where
  "createTransaction se now kind p st =
     (case validateInput (tp_asset p) (tp_account p) of
        Inl e \<Rightarrow> (Inl e, st)
      | Inr _ \<Rightarrow>
          (let tx_id = s24_uuid se (s24_drawn st);
               record = \<lparr>tr_id = tx_id, tr_kind = kind, tr_status = PendingExternal, tr_asset = tp_asset p,
                 tr_account = tp_account p, tr_memo = truthy_text (tp_memo p),
                 tr_memo_type = truthy_text (tp_memo_type p),
                 tr_url = buildInteractiveUrl se tx_id (tp_asset p) (tp_account p) kind (tp_anchor_url p),
                 tr_reason = None, tr_created = now, tr_updated = now\<rparr>
           in (Inr record, st\<lparr>s24_transactions := d_set tx_id record (s24_transactions st),
                 s24_drawn := Suc (s24_drawn st)\<rparr>)))"

definition initiateDeposit where
  "initiateDeposit se now p st = createTransaction se now Deposit p st"

definition initiateWithdrawal where
  "initiateWithdrawal se now p st = createTransaction se now Withdrawal p st"

definition getTransaction :: "string \<Rightarrow> sep24_state \<Rightarrow> tx_record option" where
  "getTransaction tx_id st = d_get (s24_transactions st) tx_id"

definition updateTransactionStatus ::
  "int \<Rightarrow> string \<Rightarrow> string \<Rightarrow> string option \<Rightarrow> sep24_state \<Rightarrow> (thrown + tx_record) \<times> sep24_state" where
  "updateTransactionStatus now tx_id status reason st =
     (case d_get (s24_transactions st) tx_id of
        None \<Rightarrow> (Inl (http_error 404 ''Transaction not found''), st)
      | Some r \<Rightarrow>
          if status \<noteq> ''completed'' \<and> status \<noteq> ''error''
          then (Inl (http_error 400 (''Invalid status transition: '' @ status)), st)
          else
            (let r' = r\<lparr>tr_status := (if status = ''completed'' then Completed else TxError),
                        tr_updated := now,
                        tr_reason := (if status = ''error''
                          then Some (case truthy_text reason of None \<Rightarrow> ''Unknown error'' | Some m \<Rightarrow> m)
                          else tr_reason r)\<rparr>
             in (Inr r', st\<lparr>s24_transactions := d_set tx_id r' (s24_transactions st)\<rparr>)))"

definition listTransactions :: "sep24_state \<Rightarrow> tx_record list" where
  "listTransactions st = map snd (d_entries (s24_transactions st))"

section \<open>Transactions at an anchor\<close>

definition buildForm :: "(string \<times> string option) list \<Rightarrow> (string \<times> string) list" where
  "buildForm fs = List.map_filter (\<lambda>(k, v). map_option (Pair k) v) fs"

definition getAnchor :: "sep24_env \<Rightarrow> string option \<Rightarrow> thrown + (string \<times> string)" where
  "getAnchor se name =
     (case s24_anchor se (truthy_text name) of
        None \<Rightarrow> Inl (http_error 400 ''Unknown anchor'')
      | Some a \<Rightarrow> Inr a)"

definition anchor_failure :: "nat option \<Rightarrow> string \<Rightarrow> thrown" where
  "anchor_failure status msg = http_error (if status \<in> {Some 401, Some 403} then the status else 502) msg"

record anchor_params =
  ap_account :: string
  ap_asset :: string
  ap_issuer :: "string option"
  ap_amount :: "string option"
  ap_dest :: "string option"
  ap_anchor :: "string option"
  ap_token :: "string option"

definition callAnchor ::
  "sep24_env \<Rightarrow> int \<Rightarrow> tx_kind \<Rightarrow> anchor_params \<Rightarrow> sep24_state \<Rightarrow>
     (thrown + (jsval \<times> jsval \<times> jsval)) \<times> sep24_state" where
  "callAnchor se now kind p st =
     (case bnd (validateInput (ap_asset p) (ap_account p)) (\<lambda>_. getAnchor se (ap_anchor p)) of
        Inl e \<Rightarrow> (Inl e, st)
      | Inr (name, url) \<Rightarrow>
          (let form = buildForm ([(''asset_code'', Some (ap_asset p)), (''account'', Some (ap_account p)),
                 (''asset_issuer'', ap_issuer p), (''amount'', ap_amount p)]
                 @ (if kind = Withdrawal then [(''dest'', ap_dest p)] else []));
               path = url @ ''/transactions/'' @ (if kind = Deposit then ''deposit'' else ''withdraw'')
                 @ ''/interactive''
           in case s24_post se path form (truthy_text (ap_token p)) of
                AnchorFails status msg \<Rightarrow> (Inl (anchor_failure status msg), st)
              | AnchorAnswers d \<Rightarrow>
                  (let tx_id = jprop d ''id'';
                       record = \<lparr>an_id = tx_id, an_kind = JString (kind_text kind),
                         an_details = [(''anchorName'', Some name), (''assetCode'', Some (ap_asset p)),
                           (''account'', Some (ap_account p))]
                           @ (if kind = Withdrawal then [(''destAccount'', ap_dest p)] else []),
                         an_url = jprop d ''url'', an_status = JString ''pending_external'',
                         an_amount_in = JUndefined, an_amount_out = JUndefined, an_message = JUndefined,
                         an_created = now, an_updated = now\<rparr>
                   in (Inr (or_else (jprop d ''type'') (JString ''interactive_customer_info_needed''),
                          jprop d ''url'', tx_id),
                       st\<lparr>s24_anchored := d_set tx_id record (s24_anchored st)\<rparr>))))"

definition callAnchorDeposit where
  "callAnchorDeposit se now p st = callAnchor se now Deposit p st"

definition callAnchorWithdraw where
  "callAnchorWithdraw se now p st = callAnchor se now Withdrawal p st"

definition getAnchorTransaction :: "jsval \<Rightarrow> sep24_state \<Rightarrow> anchor_record option" where
  "getAnchorTransaction tx_id st = d_get (s24_anchored st) tx_id"

text \<open>\<open>JUndefined\<close> in a field is a property the object does not have.\<close>

definition handleAnchorCallback :: "int \<Rightarrow> jsval \<Rightarrow> sep24_state \<Rightarrow> (thrown + anchor_record) \<times> sep24_state" where
  "handleAnchorCallback now body st =
     (let incoming = or_else (jprop body ''transaction'') body; tx_id = jprop incoming ''id''
      in if \<not> truthy tx_id then (Inl (http_error 400 ''Callback payload missing transaction.id''), st)
         else
           (let existing = (case d_get (s24_anchored st) tx_id of
                  Some r \<Rightarrow> r
                | None \<Rightarrow> \<lparr>an_id = tx_id, an_kind = or_else (jprop incoming ''kind'') (JString ''deposit''),
                    an_details = [], an_url = JUndefined, an_status = JUndefined,
                    an_amount_in = JUndefined, an_amount_out = JUndefined, an_message = JUndefined,
                    an_created = now, an_updated = now\<rparr>);
                record = existing\<lparr>
                  an_status := or_else (jprop incoming ''status'') (an_status existing),
                  an_amount_in := coalesce (jprop incoming ''amount_in'') (coalesce (an_amount_in existing) JNull),
                  an_amount_out := coalesce (jprop incoming ''amount_out'') (coalesce (an_amount_out existing) JNull),
                  an_message := coalesce (jprop incoming ''message'') (coalesce (an_message existing) JNull),
                  an_updated := now\<rparr>
            in (Inr record, st\<lparr>s24_anchored := d_set tx_id record (s24_anchored st)\<rparr>)))"

text \<open>\<open>POST /api/sep24/callback\<close>: the middleware, then the handler.\<close>

datatype callback_answer = Received | Unauthorized rejection | CallbackFails "nat option"

definition callback ::
  "inbound_env \<Rightarrow> ('r, 'v) cache_env \<Rightarrow> int \<Rightarrow> secret_store \<Rightarrow> webhook_request \<Rightarrow>
     'r cache \<times> sep24_state \<Rightarrow> callback_answer \<times> 'r cache \<times> sep24_state" where
  "callback ie ce now secrets rq s =
     (case verifyInboundWebhookSignature ie ce now ''sep24_callback'' secrets rq (fst s) of
        (Some why, ca) \<Rightarrow> (Unauthorized why, ca, snd s)
      | (None, ca) \<Rightarrow>
          (case handleAnchorCallback now (wq_body rq) (snd s) of
             (Inl e, st) \<Rightarrow> (CallbackFails (th_status e), ca, st)
           | (Inr r, st) \<Rightarrow> (Received, ca, st)))"

section \<open>What the records hold\<close>

definition record_ok :: "string \<Rightarrow> tx_record \<Rightarrow> bool" where
  "record_ok k r \<longleftrightarrow> tr_id r = k \<and> asset_code_text (tr_asset r) \<and> account_id (tr_account r)
     \<and> tr_created r \<le> tr_updated r \<and> (tr_status r = TxError \<longrightarrow> tr_reason r \<noteq> None)"

definition records_ok :: "int \<Rightarrow> sep24_state \<Rightarrow> bool" where
  "records_ok now st \<longleftrightarrow>
     (\<forall>k r. d_get (s24_transactions st) k = Some r \<longrightarrow> record_ok k r \<and> tr_updated r \<le> now)"

datatype sep24_op =
    Initiate tx_kind tx_params
  | UpdateStatus string string "string option"
  | CallAnchor tx_kind anchor_params
  | AnchorReports jsval

fun sep24_step :: "sep24_env \<Rightarrow> int \<Rightarrow> sep24_op \<Rightarrow> sep24_state \<Rightarrow> sep24_state" where
  "sep24_step se now (Initiate k p) st = snd (createTransaction se now k p st)"
| "sep24_step se now (UpdateStatus i s r) st = snd (updateTransactionStatus now i s r st)"
| "sep24_step se now (CallAnchor k p) st = snd (callAnchor se now k p st)"
| "sep24_step se now (AnchorReports b) st = snd (handleAnchorCallback now b st)"

lemma validateInput_Inr [simp]:
  "validateInput a k = Inr u \<longleftrightarrow> a \<noteq> [] \<and> k \<noteq> [] \<and> asset_code_text a \<and> account_id k"
  by (auto simp: validateInput_def bnd_ensure_Inr)

lemma other_steps_keep:
  "s24_transactions (snd (callAnchor se now k p st)) = s24_transactions st"
  "s24_transactions (snd (handleAnchorCallback now b st)) = s24_transactions st"
  by (auto simp: callAnchor_def handleAnchorCallback_def Let_def split: sum.splits anchor_reply.splits)

lemma records_ok_step:
  assumes "records_ok before st" and "before \<le> now"
  shows "records_ok now (sep24_step se now op st)"
proof (cases op)
  case (Initiate k p)
  show ?thesis
  proof (cases "validateInput (tp_asset p) (tp_account p)")
    case (Inl e)
    then show ?thesis using Initiate assms by (force simp: createTransaction_def records_ok_def)
  next
    case (Inr u)
    then have "asset_code_text (tp_asset p)" "account_id (tp_account p)" by simp_all
    then show ?thesis using Initiate Inr assms
      by (force simp: createTransaction_def records_ok_def Let_def dict.get_set record_ok_def simp del: validateInput_Inr)
  qed
next
  case (UpdateStatus i s r)
  then show ?thesis using assms
    by (fastforce simp: updateTransactionStatus_def records_ok_def Let_def dict.get_set record_ok_def
        split: option.splits)
qed (use assms in \<open>force simp: records_ok_def other_steps_keep\<close>)+

text \<open>The comment on \<open>updateTransactionStatus\<close> lets only pending transactions change.\<close>

lemma completed_can_fail:
  assumes "d_get (s24_transactions st) i = Some r" and "tr_status r = Completed"
  shows "\<exists>r' st'. updateTransactionStatus now i ''error'' None st = (Inr r', st') \<and> tr_status r' = TxError"
  using assms by (simp add: updateTransactionStatus_def Let_def)

section \<open>Callbacks\<close>

text \<open>C14. A callback changes what the server knows of a deposit or withdrawal only when its body is
  signed with a secret of the endpoint that is valid at that time.\<close>

theorem callback_needs_secret:
  assumes "callback ie ce now secrets rq (ca, st) = (ans, ca', st')" and "st' \<noteq> st"
  shows "\<exists>k r s raw sig. (k, r) \<in> set (valid_rows now ''sep24_callback'' secrets)
    \<and> ie_decrypt ie (sr_encrypted r) = Some s \<and> wq_raw rq = Some raw \<and> wq_signature rq = Some sig
    \<and> ie_hmac ie s raw = from_hex sig"
proof -
  have "fst (verifyInboundWebhookSignature ie ce now ''sep24_callback'' secrets rq ca) = None"
    using assms by (auto simp: callback_def split: prod.splits option.splits)
  then obtain sig raw keys where *: "truthy_text (wq_signature rq) = Some sig" "wq_raw rq = Some raw"
    "getActiveSecrets ie now ''sep24_callback'' secrets = Some keys" "list_ex (signed_by ie sig raw) keys"
    unfolding inbound_accepted_iff by blast
  obtain s where s: "s \<in> set keys" "ie_hmac ie s raw = from_hex sig"
    using *(4) by (auto simp: list_ex_iff signed_by_def)
  have "those xs = Some ys \<Longrightarrow> y \<in> set ys \<Longrightarrow> Some y \<in> set xs" for xs ys and y :: string
    by (induction xs arbitrary: ys) (auto split: option.splits)
  from this [OF *(3) [unfolded getActiveSecrets_def] s(1)]
  obtain k r where "(k, r) \<in> set (valid_rows now ''sep24_callback'' secrets)" "ie_decrypt ie (sr_encrypted r) = Some s"
    by force
  moreover have "wq_signature rq = Some sig" using *(1) by (auto simp: truthy_text_def split: if_splits)
  ultimately show ?thesis using *(2) s(2) by blast
qed

lemma or_else_truthy: "truthy a \<Longrightarrow> or_else a b = a"
  by (simp add: or_else_def)

text \<open>A replayed callback takes the transaction back: someone who captured an anchor's earlier
  message can send it again, whatever has been reported since, and the status is the old one.\<close>

lemma replayed_callback_reverts_status:
  assumes "fst (verifyInboundWebhookSignature ie ce now ''sep24_callback'' secrets old ca) = None"
    and "wq_signature old = Some sig"
    and "getActiveSecrets ie t ''sep24_callback'' secrets = getActiveSecrets ie now ''sep24_callback'' secrets"
    and "0 \<le> ie_window ie" and "\<not> ca_ready ca'"
    and "d_get (ca_lru ca') (nonce_key ''sep24_callback'' (respelled n sig)) = None"
    and "incoming = or_else (jprop (wq_body old) ''transaction'') (wq_body old)"
    and "truthy (jprop incoming ''id'')" and "truthy (jprop incoming ''status'')"
  shows "fst (callback ie ce t secrets (replayed old sig (n, t)) (ca', st)) = Received
    \<and> map_option an_status (getAnchorTransaction (jprop incoming ''id'')
         (snd (snd (callback ie ce t secrets (replayed old sig (n, t)) (ca', st)))))
       = Some (jprop incoming ''status'')"
proof -
  have body: "wq_body (replayed old sig (n, t)) = wq_body old" by (simp add: replayed_def)
  show ?thesis
    using assms(7-9)
    by (simp add: callback_def replay_accepted [OF assms(1-6)] body handleAnchorCallback_def Let_def
        getAnchorTransaction_def or_else_truthy)
qed

section \<open>The callbacks on concrete requests\<close>

definition anchor_body :: "string \<Rightarrow> jsval" where
  "anchor_body status = JObject [(''id'', JString ''tx1''), (''status'', JString status)]"

abbreviation empty_cache :: "unit cache" where
  "empty_cache \<equiv> \<lparr>ca_ready = False, ca_server = (), ca_lru = []\<rparr>"

abbreviation no_anchors :: sep24_state where
  "no_anchors \<equiv> \<lparr>s24_transactions = [], s24_anchored = [], s24_drawn = 0\<rparr>"

lemma callback_needs_secret_witness:
  "\<exists>k r s raw sig. (k, r) \<in> set (valid_rows 1000000 ''sep24_callback'' (demo_secrets None))
    \<and> ie_decrypt demo_inbound (sr_encrypted r) = Some s
    \<and> wq_raw (demo_request\<lparr>wq_body := anchor_body ''completed''\<rparr>) = Some raw
    \<and> wq_signature (demo_request\<lparr>wq_body := anchor_body ''completed''\<rparr>) = Some sig
    \<and> ie_hmac demo_inbound s raw = from_hex sig"
proof (rule callback_needs_secret)
  let ?c = "callback demo_inbound demo_cache_env 1000000 (demo_secrets None)
     (demo_request\<lparr>wq_body := anchor_body ''completed''\<rparr>) (empty_cache, no_anchors)"
  show "?c = (fst ?c, fst (snd ?c), snd (snd ?c))" by simp
  have "s24_anchored (snd (snd ?c)) \<noteq> []" by code_simp
  then show "snd (snd ?c) \<noteq> no_anchors" by auto
qed

definition early_request :: webhook_request where
  "early_request = demo_request\<lparr>wq_body := anchor_body ''pending_anchor''\<rparr>"

text \<open>The report that the deposit is completed has come in since.\<close>

definition later_state :: sep24_state where
  "later_state = snd (handleAnchorCallback 2000000 (anchor_body ''completed'') no_anchors)"

lemma early_accepted:
  "fst (verifyInboundWebhookSignature demo_inbound demo_cache_env 1000000 ''sep24_callback''
     (demo_secrets None) early_request empty_cache) = None"
  by code_simp

lemma replayed_callback_reverts_status_example:
  "map_option an_status (getAnchorTransaction (JString ''tx1'') later_state) = Some (JString ''completed'')
   \<and> fst (callback demo_inbound demo_cache_env 5000000 (demo_secrets None)
        (replayed early_request ''4b6d'' (1, 5000000)) (empty_cache, later_state)) = Received
   \<and> map_option an_status (getAnchorTransaction (JString ''tx1'')
        (snd (snd (callback demo_inbound demo_cache_env 5000000 (demo_secrets None)
          (replayed early_request ''4b6d'' (1, 5000000)) (empty_cache, later_state)))))
     = Some (JString ''pending_anchor'')"
proof -
  have "getActiveSecrets demo_inbound 5000000 ''sep24_callback'' (demo_secrets None) =
      getActiveSecrets demo_inbound 1000000 ''sep24_callback'' (demo_secrets None)"
    by (simp add: getActiveSecrets_def valid_rows_def demo_secrets_def tb_select_def)
  then show ?thesis
    using replayed_callback_reverts_status [OF early_accepted, where sig = "''4b6d''" and t = 5000000
        and ca' = empty_cache and n = 1 and incoming = "anchor_body ''pending_anchor''" and st = later_state]
    by (simp add: early_request_def demo_request_def demo_inbound_def anchor_body_def or_else_def
        later_state_def handleAnchorCallback_def getAnchorTransaction_def Let_def)
qed

end
