(* ===== verification/EventIndexer.thy ===== *)
theory EventIndexer
  imports RequestText JsNet
begin

text \<open>
  \<open>backend/src/services/eventIndexer.js\<close> with \<open>backend/src/services/eventParser.js\<close>: a poll asks the
  Soroban RPC server for the events since the last ledger it has done, parses and stores them, and
  moves its cursor.

  From outside: the server's answers, attempt by attempt; the fate of the database in a poll;
  \<open>String\<close> of values that are no strings and \<open>Date\<close> of texts. Objects that redefine \<open>toString\<close> and a
  ledger number of the server that is no number are outside the model.
\<close>

section \<open>Calls to the server\<close>

record rpc_failure =
  rf_message :: string
  rf_name :: string
  rf_status :: "nat option"

text \<open>A body is read without a time limit: it may never end, or be no JSON.\<close>

datatype rpc_body = BodyHangs | BodyFails rpc_failure | BodyJson jsval
datatype rpc_reply = RpcFails rpc_failure | RpcResponds nat string rpc_body

text \<open>What \<open>fetch\<close> answers and after how many milliseconds; \<open>None\<close>: never.\<close>

type_synonym rpc_attempt = "rpc_reply \<times> nat option"

datatype rpc_call = LatestLedger | EventsFrom int "int option" | EventsAfter jsval

definition RPC_RETRIES :: nat where "RPC_RETRIES = 3"
definition RPC_TIMEOUT_MS :: nat where "RPC_TIMEOUT_MS = 15000"

definition isTransientRpc :: "rpc_failure \<Rightarrow> bool" where
  "isTransientRpc f =
     (if rf_status f = Some 404 then False
      else if (case rf_status f of Some s \<Rightarrow> 500 \<le> s | None \<Rightarrow> False) then True
      else list_ex (str_includes (rf_message f))
             [''ECONNRESET'', ''ETIMEDOUT'', ''ENOTFOUND'', ''network'', ''AbortError'']
           \<or> rf_name f = ''AbortError'')"

definition rpc_settle :: "nat \<Rightarrow> rpc_attempt \<Rightarrow> rpc_reply" where
  "rpc_settle timeoutMs a =
     (case snd a of
        Some t \<Rightarrow> if t < timeoutMs then fst a
          else RpcFails \<lparr>rf_message = ''This operation was aborted'', rf_name = ''AbortError'', rf_status = None\<rparr>
      | None \<Rightarrow> RpcFails \<lparr>rf_message = ''This operation was aborted'', rf_name = ''AbortError'', rf_status = None\<rparr>)"

text \<open>One attempt: \<open>None\<close> when its body never ends.\<close>

definition rpc_attempt_result :: "nat \<Rightarrow> rpc_attempt \<Rightarrow> (rpc_failure + jsval) option" where
  "rpc_attempt_result timeoutMs a =
     (case rpc_settle timeoutMs a of
        RpcFails f \<Rightarrow> Some (Inl f)
      | RpcResponds status text body \<Rightarrow>
          if \<not> (200 \<le> status \<and> status \<le> 299) then
            Some (Inl \<lparr>rf_message = ''Soroban RPC responded with '' @ show_nat status @ '': '' @ text,
              rf_name = ''Error'', rf_status = Some status\<rparr>)
          else (case body of
              BodyHangs \<Rightarrow> None
            | BodyFails f \<Rightarrow> Some (Inl f)
            | BodyJson v \<Rightarrow> Some (Inr v)))"

function fetch_from :: "(nat \<Rightarrow> rpc_attempt) \<Rightarrow> nat \<Rightarrow> nat \<Rightarrow> (rpc_failure + jsval) option" where
  "fetch_from fetch timeoutMs attempt =
     (case rpc_attempt_result timeoutMs (fetch attempt) of
        Some (Inl err) \<Rightarrow>
          if \<not> isTransientRpc err \<or> RPC_RETRIES \<le> attempt then Some (Inl err)
          else fetch_from fetch timeoutMs (attempt + 1)
      | r \<Rightarrow> r)"
  by pat_completeness auto

termination
  by (relation "measure (\<lambda>(fetch, timeoutMs, attempt). RPC_RETRIES - attempt)") auto

declare fetch_from.simps [simp del]

definition fetchWithRetry :: "(nat \<Rightarrow> rpc_attempt) \<Rightarrow> (rpc_failure + jsval) option" where
  "fetchWithRetry fetch = fetch_from fetch RPC_TIMEOUT_MS 0"

definition getLatestLedger :: "(rpc_call \<Rightarrow> nat \<Rightarrow> rpc_attempt) \<Rightarrow> (rpc_failure + int) option" where
  "getLatestLedger rpc =
     map_option (map_sum id (\<lambda>r.
        case jprop (jprop r ''result'') ''sequence'' of JNumber (Fin q) \<Rightarrow> floor q | _ \<Rightarrow> 0))
       (fetchWithRetry (rpc LatestLedger))"

text \<open>The elements a spread gives, \<open>None\<close> when the value is not iterable.\<close>

definition spread :: "jsval \<Rightarrow> jsval list option" where
  "spread v =
     (case v of
        JArray xs \<Rightarrow> Some xs
      | JString s \<Rightarrow> Some (map (\<lambda>c. JString [c]) s)
      | _ \<Rightarrow> if nullish v then Some [] else None)"

definition not_iterable :: rpc_failure where
  "not_iterable = \<lparr>rf_message = ''Spread syntax requires an iterable'', rf_name = ''TypeError'', rf_status = None\<rparr>"

text \<open>The loop over the pages: it goes on while a page has a cursor. \<open>None\<close> is a call that never returns.\<close>

partial_function (option) events_loop ::
  "(rpc_call \<Rightarrow> nat \<Rightarrow> rpc_attempt) \<Rightarrow> rpc_call \<Rightarrow> jsval list \<Rightarrow> (rpc_failure + jsval list) option" where
  "events_loop rpc call acc =
     (case fetchWithRetry (rpc call) of
        None \<Rightarrow> None
      | Some (Inl e) \<Rightarrow> Some (Inl e)
      | Some (Inr r) \<Rightarrow>
          (case spread (jprop (jprop r ''result'') ''events'') of
             None \<Rightarrow> Some (Inl not_iterable)
           | Some evs \<Rightarrow>
               (let cursor = jprop (jprop r ''result'') ''cursor''
                in if truthy cursor then events_loop rpc (EventsAfter cursor) (acc @ evs)
                   else Some (Inr (acc @ evs)))))"

definition getEvents ::
  "(rpc_call \<Rightarrow> nat \<Rightarrow> rpc_attempt) \<Rightarrow> int \<Rightarrow> int option \<Rightarrow> (rpc_failure + jsval list) option" where
  "getEvents rpc startLedger endLedger = events_loop rpc (EventsFrom startLedger endLedger) []"

section \<open>Parsing\<close>

record event_payload =
  py_id :: jsval
  py_topics :: jsval
  py_data :: jsval
  py_paging :: jsval
  py_tx :: jsval

record event_row =
  ev_type :: string
  ev_contract :: jsval
  ev_ledger :: jsval
  ev_emitted :: int
  ev_from :: jsval
  ev_to :: jsval
  ev_amount :: "string option"
  ev_payload :: event_payload

record parse_env =
  pa_text :: "jsval \<Rightarrow> string"
  pa_date :: "jsval \<Rightarrow> int option"

definition js_text :: "parse_env \<Rightarrow> jsval \<Rightarrow> string" where
  "js_text pa v = (case v of JString s \<Rightarrow> s | _ \<Rightarrow> pa_text pa v)"

text \<open>Which types name a sender and a recipient in their topics (\<open>EVENT_PARTICIPANT_MAP\<close>).\<close>

definition participants :: "string \<Rightarrow> bool \<times> bool" where
  "participants t =
     (if t \<in> {''tip_sent'', ''receipt'', ''escrow_create'', ''escrow_claim'', ''escrow_claim_partial'',
        ''escrow_cancelled'', ''stream_open'', ''stream_claim'', ''stream_topped_up'', ''stream_transfer'',
        ''multisig_executed'', ''vesting_created'', ''vesting_claimed'', ''admin_transfer'', ''rescue_tokens''}
      then (True, True)
      else if t \<in> {''stream_close'', ''stream_reject'', ''multisig_created'', ''multisig_approved'',
        ''airdrop_created'', ''airdrop_cancelled'', ''vesting_revoked''}
      then (True, False)
      else if t = ''airdrop_claimed'' then (False, True) else (False, False))"

definition first_truthy :: "jsval list \<Rightarrow> jsval option" where
  "first_truthy vs = List.find truthy vs"

definition parseScVal :: "parse_env \<Rightarrow> jsval \<Rightarrow> jsval" where
  "parseScVal pa v =
     (case v of
        JString s \<Rightarrow> if s = [] then JNull else v
      | _ \<Rightarrow>
          if truthy v \<and> is_object v then
            (case first_truthy (map (jprop v) [''address'', ''symbol'', ''str'', ''scv_symbol'', ''value'']) of
               Some w \<Rightarrow> w
             | None \<Rightarrow> or_else (JString (js_text pa v)) JNull)
          else JNull)"

text \<open>The elements of \<open>raw.topic ?? []\<close>; a value that is neither array nor text has no length.\<close>

definition topic_list :: "jsval \<Rightarrow> jsval list" where
  "topic_list v =
     (case v of JArray xs \<Rightarrow> xs | JString s \<Rightarrow> map (\<lambda>c. JString [c]) s | _ \<Rightarrow> [])"

definition type_char :: "char \<Rightarrow> char" where
  "type_char c = (if alphanumeric c \<or> c = CHR ''_'' then c else CHR ''_'')"

definition event_type_of :: "parse_env \<Rightarrow> jsval list \<Rightarrow> string" where
  "event_type_of pa topics =
     take 64 (map type_char
       (case topics of
          [] \<Rightarrow> ''unknown''
        | v # _ \<Rightarrow>
            (case v of
               JString s \<Rightarrow> s
             | _ \<Rightarrow>
                 if truthy v \<and> is_object v then
                   (case first_truthy (map (jprop v) [''symbol'', ''str'', ''value'']) of
                      Some w \<Rightarrow> js_text pa w
                    | None \<Rightarrow> if js_text pa v = [] then ''unknown'' else js_text pa v)
                 else ''unknown'')))"

text \<open>\<open>None\<close>: it throws, for an event that is null or whose date is none.\<close>

definition parseEvent :: "parse_env \<Rightarrow> int \<Rightarrow> jsval \<Rightarrow> event_row option" where
  "parseEvent pa now raw =
     (if nullish raw then None
      else
        (let topics = coalesce (jprop raw ''topic'') (JArray []);
             ts = topic_list topics; data = jprop raw ''data''; t = event_type_of pa ts;
             closed = jprop raw ''ledgerClosedAt''
         in case (if truthy closed then pa_date pa closed else Some now) of
              None \<Rightarrow> None
            | Some emitted \<Rightarrow> Some
                \<lparr>ev_type = t,
                 ev_contract = or_else (jprop raw ''contractId'') (JString []),
                 ev_ledger = coalesce (jprop raw ''ledger'') (JNumber (Fin 0)),
                 ev_emitted = emitted,
                 ev_from = (if 2 \<le> length ts \<and> fst (participants t) then parseScVal pa (ts ! 1) else JNull),
                 ev_to = (if 3 \<le> length ts \<and> snd (participants t) then parseScVal pa (ts ! 2) else JNull),
                 ev_amount = (if truthy data \<and> is_object data
                   then Some (case first_truthy (map (jprop data) [''amount'', ''i128'', ''u64'', ''u128'']) of
                     Some w \<Rightarrow> js_text pa w | None \<Rightarrow> [])
                   else None),
                 ev_payload = \<lparr>py_id = coalesce (jprop raw ''id'') JNull, py_topics = topics,
                   py_data = coalesce data JNull, py_paging = coalesce (jprop raw ''pagingToken'') JNull,
                   py_tx = coalesce (jprop raw ''txHash'') JNull\<rparr>\<rparr>))"

section \<open>Storing and polling\<close>

text \<open>
  \<open>ic_url\<close> is \<open>DATABASE_URL\<close> being set, \<open>ic_pool\<close> a connection pool that could be made.
  \<open>ic_accepts\<close> are the column types, \<open>ic_collate\<close> is \<open>localeCompare\<close>, \<open>ic_json\<close> is
  \<open>JSON.stringify\<close>.
\<close>

record indexer_config =
  ic_url :: bool
  ic_pool :: bool
  ic_parse :: parse_env
  ic_accepts :: "event_row \<Rightarrow> bool"
  ic_number :: "jsval \<Rightarrow> jsnum"
  ic_collate :: "string \<Rightarrow> string \<Rightarrow> int"
  ic_json :: "event_payload \<Rightarrow> string"

datatype db_fate = DbWorks | DbUnreachable | DbBreaks

record poll_env =
  po_rpc :: "rpc_call \<Rightarrow> nat \<Rightarrow> rpc_attempt"
  po_now :: int
  po_db :: db_fate

text \<open>
  The database and what the process keeps. \<open>ix_notified\<close> lists the events handed to the push
  notifier so far. A poll that never ends leaves \<open>ix_polling\<close> set.
\<close>

record indexer =
  ix_rows :: "event_row list"
  ix_saved :: "(int \<times> jsval) option"
  ix_memory :: "event_row list"
  ix_ledger :: int
  ix_tx :: jsval
  ix_polling :: bool
  ix_notified :: "event_row list"

record summary =
  su_inserted :: nat
  su_conflicts :: nat
  su_errors :: nat

text \<open>The unique index: a key with a null in it is never equal to another.\<close>

definition same_event :: "event_row \<Rightarrow> event_row \<Rightarrow> bool" where
  "same_event a b \<longleftrightarrow> ev_ledger a = ev_ledger b \<and> ev_contract a = ev_contract b \<and> ev_type a = ev_type b
     \<and> py_id (ev_payload a) = py_id (ev_payload b) \<and> \<not> nullish (py_id (ev_payload a))"

text \<open>What is written of a row: an empty amount is null.\<close>

definition db_row :: "event_row \<Rightarrow> event_row" where
  "db_row r = r\<lparr>ev_amount := truthy_text (ev_amount r)\<rparr>"

text \<open>The statements of one transaction; \<open>None\<close>: a row is refused and everything is rolled back.\<close>

fun insert_events ::
  "(event_row \<Rightarrow> bool) \<Rightarrow> event_row list \<Rightarrow> event_row list \<Rightarrow> (nat \<times> nat \<times> event_row list) option" where
  "insert_events accepts [] rows = Some (0, 0, rows)"
| "insert_events accepts (ev # evs) rows =
     (if \<not> accepts ev then None
      else if list_ex (same_event ev) rows then
        map_option (\<lambda>(i, c, rows'). (i, Suc c, rows')) (insert_events accepts evs rows)
      else map_option (\<lambda>(i, c, rows'). (Suc i, c, rows')) (insert_events accepts evs (rows @ [db_row ev])))"

text \<open>\<open>None\<close>: no connection, which is thrown.\<close>

definition storeEvents ::
  "indexer_config \<Rightarrow> db_fate \<Rightarrow> event_row list \<Rightarrow> (int \<times> jsval) option \<Rightarrow> indexer \<Rightarrow>
     (summary \<times> indexer) option" where
  "storeEvents ic fate evs cursor st =
     (if evs = [] then Some (\<lparr>su_inserted = 0, su_conflicts = 0, su_errors = 0\<rparr>, st)
      else if ic_pool ic then
        (if fate = DbUnreachable then None
         else (case (if fate = DbBreaks then None else insert_events (ic_accepts ic) evs (ix_rows st)) of
             None \<Rightarrow> Some (\<lparr>su_inserted = 0, su_conflicts = 0, su_errors = 1\<rparr>, st)
           | Some (i, c, rows) \<Rightarrow>
               Some (\<lparr>su_inserted = i, su_conflicts = c, su_errors = 0\<rparr>,
                 st\<lparr>ix_rows := rows,
                    ix_saved := (if c = 0 \<and> cursor \<noteq> None then cursor else ix_saved st)\<rparr>)))
      else Some (\<lparr>su_inserted = length evs, su_conflicts = 0, su_errors = 0\<rparr>,
             st\<lparr>ix_memory := ix_memory st @ evs\<rparr>))"

definition event_order :: "indexer_config \<Rightarrow> event_row \<Rightarrow> event_row \<Rightarrow> jsnum" where
  "event_order ic a b =
     (let d = num_sub (number_of (ic_number ic) (ev_ledger a)) (number_of (ic_number ic) (ev_ledger b));
          token = (\<lambda>r. js_text (ic_parse ic)
            (coalesce (py_paging (ev_payload r)) (coalesce (py_id (ev_payload r)) (JString []))))
      in if d = JsNaN \<or> d = Fin 0 then Fin (of_int (ic_collate ic (token a) (token b))) else d)"

definition getLastTxId :: "indexer_config \<Rightarrow> event_row list \<Rightarrow> jsval" where
  "getLastTxId ic evs =
     (case rev (js_sort (event_order ic) (filter (\<lambda>r. \<not> nullish (ev_ledger r)) evs)) of
        [] \<Rightarrow> JNull
      | r # _ \<Rightarrow>
          coalesce (py_tx (ev_payload r))
            (coalesce (py_paging (ev_payload r)) (coalesce (py_id (ev_payload r)) JNull)))"

definition saveCursor :: "bool \<Rightarrow> db_fate \<Rightarrow> int \<Rightarrow> jsval \<Rightarrow> indexer \<Rightarrow> indexer option" where
  "saveCursor pool fate ledger tx st =
     (if \<not> pool then Some (st\<lparr>ix_ledger := ledger, ix_tx := tx\<rparr>)
      else if fate \<noteq> DbWorks then None
      else Some (st\<lparr>ix_saved := Some (ledger, tx), ix_ledger := ledger, ix_tx := tx\<rparr>))"

definition loadCursor :: "indexer_config \<Rightarrow> db_fate \<Rightarrow> indexer \<Rightarrow> indexer" where
  "loadCursor ic fate st =
     (if \<not> ic_pool ic \<or> fate \<noteq> DbWorks then st
      else (case ix_saved st of
          None \<Rightarrow> st\<lparr>ix_saved := Some (0, JNull), ix_ledger := 0, ix_tx := JNull\<rparr>
        | Some (l, tx) \<Rightarrow> st\<lparr>ix_ledger := l, ix_tx := tx\<rparr>))"

text \<open>
  The part of a poll that works on a range of ledgers. An exception leaves the poll where it
  happened; the state is the one reached by then.
\<close>

definition index_range :: "indexer_config \<Rightarrow> poll_env \<Rightarrow> int \<Rightarrow> jsval list \<Rightarrow> indexer \<Rightarrow> indexer" where
  "index_range ic po latest raws st =
     (let results = map (parseEvent (ic_parse ic) (po_now po)) raws;
          failures = length (filter (\<lambda>r. r = None) results);
          parsed = List.map_filter id results;
          cursor = (if failures = 0 then Some (latest, getLastTxId ic parsed) else None)
      in case (if raws = [] then Some (\<lparr>su_inserted = 0, su_conflicts = 0, su_errors = 0\<rparr>, st)
               else map_option (apsnd (\<lambda>s. s\<lparr>ix_notified := ix_notified s @ parsed\<rparr>))
                 (storeEvents ic (po_db po) parsed cursor st)) of
           None \<Rightarrow> st
         | Some (su, st1) \<Rightarrow>
             if failures = 0 \<and> su_conflicts su = 0 \<and> su_errors su = 0 then
               (if raws = [] \<or> \<not> ic_url ic then
                  (case saveCursor (ic_url ic \<and> ic_pool ic) (po_db po) latest (getLastTxId ic parsed) st1 of
                     None \<Rightarrow> st1
                   | Some st2 \<Rightarrow> st2)
                else st1\<lparr>ix_ledger := latest, ix_tx := getLastTxId ic parsed\<rparr>)
             else st1)"

definition pollOnce :: "indexer_config \<Rightarrow> poll_env \<Rightarrow> indexer \<Rightarrow> indexer" where
  "pollOnce ic po st =
     (if ix_polling st then st
      else (case getLatestLedger (po_rpc po) of
          None \<Rightarrow> st\<lparr>ix_polling := True\<rparr>
        | Some (Inl e) \<Rightarrow> st
        | Some (Inr latest) \<Rightarrow>
            if latest = 0 then st
            else (let start = (if 0 < ix_ledger st then ix_ledger st + 1 else 1)
                  in if latest < start then st
                     else (case getEvents (po_rpc po) start (Some (latest + 1)) of
                         None \<Rightarrow> st\<lparr>ix_polling := True\<rparr>
                       | Some (Inl e) \<Rightarrow> st
                       | Some (Inr raws) \<Rightarrow> index_range ic po latest raws st))))"

text \<open>A new process: only the database remains, \<open>start\<close> loads the cursor.\<close>

definition restart :: "indexer_config \<Rightarrow> db_fate \<Rightarrow> indexer \<Rightarrow> indexer" where
  "restart ic fate st =
     loadCursor ic fate (st\<lparr>ix_memory := [], ix_ledger := 0, ix_tx := JNull, ix_polling := False\<rparr>)"

section \<open>Queries\<close>

text \<open>
  Rows with their ids. In the database an account is involved by the two columns; without one, by
  the text of the payload anywhere.
\<close>

definition stored :: "indexer_config \<Rightarrow> indexer \<Rightarrow> event_row list" where
  "stored ic st = (if ic_pool ic then ix_rows st else ix_memory st)"

definition involves :: "indexer_config \<Rightarrow> string \<Rightarrow> event_row \<Rightarrow> bool" where
  "involves ic pk r \<longleftrightarrow>
     (if ic_pool ic then ev_from r = JString pk \<or> ev_to r = JString pk
      else str_includes (to_lower (ic_json ic (ev_payload r))) (to_lower pk))"

definition newest_first :: "event_row list \<Rightarrow> (nat \<times> event_row) list" where
  "newest_first rows =
     rev (sort_key (\<lambda>(i, r). (case ev_ledger r of JNumber n \<Rightarrow> n | _ \<Rightarrow> Fin 0)) (enumerate 1 rows))"

definition queryEvents ::
  "indexer_config \<Rightarrow> string \<Rightarrow> string option \<Rightarrow> int option \<Rightarrow> nat \<Rightarrow> nat \<Rightarrow> indexer \<Rightarrow>
     (nat \<times> event_row) list \<times> nat" where
  "queryEvents ic pk event_type since limit offset st =
     (let hits = filter (\<lambda>(_, r). involves ic pk r
            \<and> (case event_type of None \<Rightarrow> True | Some t \<Rightarrow> ev_type r = t)
            \<and> (case since of None \<Rightarrow> True | Some s \<Rightarrow> s \<le> ev_emitted r)) (newest_first (stored ic st))
      in (take limit (drop offset hits), length hits))"

definition queryEventsByType where
  "queryEventsByType ic pk t limit offset since st = queryEvents ic pk (Some t) since limit offset st"

text \<open>\<open>queryEventsByPublicKey\<close>; without a database \<open>since\<close> is not read.\<close>

definition queryEventsByPublicKey where
  "queryEventsByPublicKey ic pk limit offset since st =
     queryEvents ic pk None (if ic_pool ic then since else None) limit offset st"

text \<open>Types with equal counts stay in the order of their first event.\<close>

definition getEventStats :: "indexer_config \<Rightarrow> string \<Rightarrow> indexer \<Rightarrow> (string \<times> nat) list" where
  "getEventStats ic pk st =
     (let types = map ev_type (filter (involves ic pk) (stored ic st))
      in sort_key (\<lambda>(_, n). - int n)
           (map (\<lambda>t. (t, length (filter ((=) t) types))) (rev (remdups (rev types)))))"

definition getTotalEventCount :: "indexer_config \<Rightarrow> indexer \<Rightarrow> nat" where
  "getTotalEventCount ic st = length (stored ic st)"

section \<open>The loops\<close>

text \<open>The retries end whatever the server does; only a body that never ends holds them up.\<close>

lemma fetch_returns:
  assumes "\<And>n. rpc_attempt_result timeoutMs (fetch n) \<noteq> None"
  shows "fetch_from fetch timeoutMs n \<noteq> None"
  using assms
proof (induction fetch timeoutMs n rule: fetch_from.induct)
  case (1 fetch timeoutMs n)
  then show ?case
    by (subst fetch_from.simps) (auto split: option.splits sum.splits)
qed

text \<open>Paging goes on while the server answers a cursor, as current servers do on every page: then
  the poll never ends, and with \<open>isPolling\<close> set no later one begins.\<close>

lemma events_loop_never_returns:
  assumes cursors: "\<And>c. \<exists>r evs. fetchWithRetry (rpc c) = Some (Inr r)
    \<and> spread (jprop (jprop r ''result'') ''events'') = Some evs \<and> truthy (jprop (jprop r ''result'') ''cursor'')"
  shows "events_loop rpc call acc = None"
proof -
  have "rpc' \<noteq> rpc" if "events_loop rpc' call acc = Some y" for rpc' call acc y
  proof (rule events_loop.raw_induct [where P = "\<lambda>rpc' call acc y. rpc' \<noteq> rpc", OF _ that])
    fix loop and rpc' :: "rpc_call \<Rightarrow> nat \<Rightarrow> rpc_attempt" and call acc and y :: "rpc_failure + jsval list"
    assume IH: "\<And>rpc' call acc y. loop rpc' call acc = Some y \<Longrightarrow> rpc' \<noteq> rpc"
      and body: "(case fetchWithRetry (rpc' call) of None \<Rightarrow> None
        | Some (Inl e) \<Rightarrow> Some (Inl e)
        | Some (Inr r) \<Rightarrow>
            (case spread (jprop (jprop r ''result'') ''events'') of
               None \<Rightarrow> Some (Inl not_iterable)
             | Some evs \<Rightarrow>
                 (let cursor = jprop (jprop r ''result'') ''cursor''
                  in if truthy cursor then loop rpc' (EventsAfter cursor) (acc @ evs)
                     else Some (Inr (acc @ evs))))) = Some y"
    show "rpc' \<noteq> rpc"
    proof
      assume "rpc' = rpc"
      moreover obtain r evs where "fetchWithRetry (rpc call) = Some (Inr r)"
        "spread (jprop (jprop r ''result'') ''events'') = Some evs" "truthy (jprop (jprop r ''result'') ''cursor'')"
        using cursors by blast
      ultimately have "loop rpc (EventsAfter (jprop (jprop r ''result'') ''cursor'')) (acc @ evs) = Some y"
        using body by simp
      then show False using IH by blast
    qed
  qed
  then show ?thesis by (cases "events_loop rpc call acc") auto
qed

lemma poll_hangs:
  assumes "getLatestLedger (po_rpc po) = Some (Inr latest)" and "ix_ledger st < latest" "0 \<le> ix_ledger st"
    and "\<And>c. \<exists>r evs. fetchWithRetry (po_rpc po c) = Some (Inr r)
      \<and> spread (jprop (jprop r ''result'') ''events'') = Some evs \<and> truthy (jprop (jprop r ''result'') ''cursor'')"
    and "\<not> ix_polling st"
  shows "fold (pollOnce ic) (po # pos) st = st\<lparr>ix_polling := True\<rparr>"
proof -
  have "getEvents (po_rpc po) start e = None" for start e
    using events_loop_never_returns [of "po_rpc po", OF assms(4)] by (simp add: getEvents_def)
  then have "pollOnce ic po st = st\<lparr>ix_polling := True\<rparr>"
    using assms by (simp add: pollOnce_def Let_def)
  moreover have "fold (pollOnce ic) pos s = s" if "ix_polling s" for s
    using that by (induction pos) (simp_all add: pollOnce_def)
  ultimately show ?thesis by simp
qed

section \<open>No event is passed over\<close>

definition as_stored :: "indexer_config \<Rightarrow> event_row \<Rightarrow> event_row" where
  "as_stored ic r = (if ic_pool ic then db_row r else r)"

definition indexed :: "indexer_config \<Rightarrow> event_row list \<Rightarrow> jsval \<Rightarrow> bool" where
  "indexed ic rows raw \<longleftrightarrow>
     (\<exists>now r. parseEvent (ic_parse ic) now raw = Some r \<and> as_stored ic r \<in> set rows)"

text \<open>
  What the server may answer to a request for events, when an answer arrives at all. JSON-RPC reports
  an error in a body without a result, under status 200; the code does not look at it. A result holds
  the next of the events asked for and, if there may be more, a cursor to continue with: \<open>rest call\<close>
  are the events a request has still to be given, \<open>emitted l\<close> the contract's events of ledger \<open>l\<close>.
\<close>

definition error_answer :: "jsval \<Rightarrow> bool" where
  "error_answer r \<longleftrightarrow> jprop r ''result'' = JUndefined"

definition page_of :: "(rpc_call \<Rightarrow> jsval list) \<Rightarrow> rpc_call \<Rightarrow> jsval \<Rightarrow> bool" where
  "page_of rest call r \<longleftrightarrow> (\<exists>evs. jprop (jprop r ''result'') ''events'' = JArray evs
     \<and> rest call = evs @ (if truthy (jprop (jprop r ''result'') ''cursor'')
         then rest (EventsAfter (jprop (jprop r ''result'') ''cursor'')) else []))"

definition serves :: "(int \<Rightarrow> jsval list) \<Rightarrow> (rpc_call \<Rightarrow> nat \<Rightarrow> rpc_attempt) \<Rightarrow> bool" where
  "serves emitted rpc \<longleftrightarrow> (\<exists>rest. (\<forall>s e. rest (EventsFrom s (Some e)) = concat (map emitted [s..e - 1]))
     \<and> (\<forall>call r. call \<noteq> LatestLedger \<longrightarrow> fetchWithRetry (rpc call) = Some (Inr r) \<longrightarrow>
          error_answer r \<or> page_of rest call r))"

definition error_free :: "(rpc_call \<Rightarrow> nat \<Rightarrow> rpc_attempt) \<Rightarrow> bool" where
  "error_free rpc \<longleftrightarrow>
     (\<forall>call r. call \<noteq> LatestLedger \<longrightarrow> fetchWithRetry (rpc call) = Some (Inr r) \<longrightarrow> \<not> error_answer r)"

lemma events_loop_served:
  assumes pages: "\<And>call r. call \<noteq> LatestLedger \<Longrightarrow> fetchWithRetry (rpc call) = Some (Inr r) \<Longrightarrow>
      error_answer r \<or> page_of rest call r"
    and run: "events_loop rpc call acc = Some (Inr raws)" "call \<noteq> LatestLedger"
  shows "set raws \<subseteq> set acc \<union> set (rest call) \<and> (error_free rpc \<longrightarrow> raws = acc @ rest call)"
proof -
  have "rpc' = rpc \<longrightarrow> call \<noteq> LatestLedger \<longrightarrow> (\<forall>raws. y = Inr raws \<longrightarrow>
      set raws \<subseteq> set acc \<union> set (rest call) \<and> (error_free rpc \<longrightarrow> raws = acc @ rest call))"
    if "events_loop rpc' call acc = Some y" for rpc' call acc y
  proof (rule events_loop.raw_induct [where P = "\<lambda>rpc' call acc y. rpc' = rpc \<longrightarrow> call \<noteq> LatestLedger \<longrightarrow>
      (\<forall>raws. y = Inr raws \<longrightarrow> set raws \<subseteq> set acc \<union> set (rest call)
        \<and> (error_free rpc \<longrightarrow> raws = acc @ rest call))", OF _ that], intro impI allI)
    fix loop and rpc' :: "rpc_call \<Rightarrow> nat \<Rightarrow> rpc_attempt" and call acc and y :: "rpc_failure + jsval list" and raws
    assume IH: "\<And>rpc' call acc y. loop rpc' call acc = Some y \<Longrightarrow> rpc' = rpc \<longrightarrow> call \<noteq> LatestLedger \<longrightarrow>
        (\<forall>raws. y = Inr raws \<longrightarrow> set raws \<subseteq> set acc \<union> set (rest call)
          \<and> (error_free rpc \<longrightarrow> raws = acc @ rest call))"
      and body: "(case fetchWithRetry (rpc' call) of None \<Rightarrow> None
        | Some (Inl e) \<Rightarrow> Some (Inl e)
        | Some (Inr r) \<Rightarrow>
            (case spread (jprop (jprop r ''result'') ''events'') of
               None \<Rightarrow> Some (Inl not_iterable)
             | Some evs \<Rightarrow>
                 (let cursor = jprop (jprop r ''result'') ''cursor''
                  in if truthy cursor then loop rpc' (EventsAfter cursor) (acc @ evs)
                     else Some (Inr (acc @ evs))))) = Some y"
      and here: "rpc' = rpc" "call \<noteq> LatestLedger" "y = Inr raws"
    obtain r where r: "fetchWithRetry (rpc call) = Some (Inr r)"
      using body here by (auto split: option.splits sum.splits)
    show "set raws \<subseteq> set acc \<union> set (rest call) \<and> (error_free rpc \<longrightarrow> raws = acc @ rest call)"
    proof (cases "error_answer r")
      case True
      then have "raws = acc" using body here r by (simp add: error_answer_def spread_def)
      moreover have "\<not> error_free rpc" using True r here(2) unfolding error_free_def by blast
      ultimately show ?thesis by simp
    next
      case False
      let ?c = "jprop (jprop r ''result'') ''cursor''"
      obtain evs where evs: "jprop (jprop r ''result'') ''events'' = JArray evs"
        "rest call = evs @ (if truthy ?c then rest (EventsAfter ?c) else [])"
        using pages [OF here(2) r] False unfolding page_of_def by blast
      show ?thesis
      proof (cases "truthy ?c")
        case True
        then have "loop rpc (EventsAfter ?c) (acc @ evs) = Some y"
          using body here(1) r evs(1) by (simp add: spread_def)
        from IH [OF this] show ?thesis using here(3) evs(2) True by auto
      next
        case False
        then have "raws = acc @ evs" using body here r evs(1) by (simp add: spread_def)
        then show ?thesis using evs(2) False by simp
      qed
    qed
  qed
  then show ?thesis using run by blast
qed

lemma served:
  assumes "serves emitted rpc" and "getEvents rpc s (Some (latest + 1)) = Some (Inr raws)"
  shows "set raws \<subseteq> set (concat (map emitted [s..latest]))"
    and "error_free rpc \<Longrightarrow> raws = concat (map emitted [s..latest])"
proof -
  obtain rest where rest: "\<And>s e. rest (EventsFrom s (Some e)) = concat (map emitted [s..e - 1])"
    "\<And>call r. call \<noteq> LatestLedger \<Longrightarrow> fetchWithRetry (rpc call) = Some (Inr r) \<Longrightarrow>
       error_answer r \<or> page_of rest call r"
    using assms(1) unfolding serves_def by blast
  have "set raws \<subseteq> set [] \<union> set (rest (EventsFrom s (Some (latest + 1))))
      \<and> (error_free rpc \<longrightarrow> raws = [] @ rest (EventsFrom s (Some (latest + 1))))"
    using events_loop_served [OF rest(2), where call = "EventsFrom s (Some (latest + 1))" and acc = "[]"] assms(2)
    unfolding getEvents_def by blast
  then show "set raws \<subseteq> set (concat (map emitted [s..latest]))"
    and "error_free rpc \<Longrightarrow> raws = concat (map emitted [s..latest])"
    unfolding rest(1) by simp_all
qed

definition done_upto :: "indexer_config \<Rightarrow> (int \<Rightarrow> jsval list) \<Rightarrow> indexer \<Rightarrow> int \<Rightarrow> bool" where
  "done_upto ic emitted st n \<longleftrightarrow>
     (\<forall>l raw. 1 \<le> l \<longrightarrow> l \<le> n \<longrightarrow> raw \<in> set (emitted l) \<longrightarrow> indexed ic (stored ic st) raw)"

definition caught_up :: "indexer_config \<Rightarrow> (int \<Rightarrow> jsval list) \<Rightarrow> indexer \<Rightarrow> bool" where
  "caught_up ic emitted st \<longleftrightarrow> done_upto ic emitted st (ix_ledger st)
     \<and> (case ix_saved st of None \<Rightarrow> True | Some (n, _) \<Rightarrow> ic_pool ic \<longrightarrow> done_upto ic emitted st n)"

lemma insert_events_grows:
  assumes "insert_events acc evs rows = Some (i, c, rows')"
  shows "set rows \<subseteq> set rows'" "c = 0 \<Longrightarrow> db_row ` set evs \<subseteq> set rows'"
proof -
  have "set rows \<subseteq> set rows' \<and> (c = 0 \<longrightarrow> db_row ` set evs \<subseteq> set rows')"
    using assms
  proof (induction acc evs rows arbitrary: i c rows' rule: insert_events.induct)
    case (2 acc ev evs rows)
    then show ?case by (force split: if_splits)
  qed simp
  then show "set rows \<subseteq> set rows'" "c = 0 \<Longrightarrow> db_row ` set evs \<subseteq> set rows'" by auto
qed

lemma store_facts:
  assumes "storeEvents ic fate evs cursor st = Some (su, st')"
  shows "set (stored ic st) \<subseteq> set (stored ic st')"
    and "su_conflicts su = 0 \<Longrightarrow> su_errors su = 0 \<Longrightarrow> as_stored ic ` set evs \<subseteq> set (stored ic st')"
    and "ix_ledger st' = ix_ledger st" "ix_notified st' = ix_notified st"
    and "ix_saved st' = ix_saved st \<or> (su_conflicts su = 0 \<and> su_errors su = 0 \<and> cursor \<noteq> None \<and> ix_saved st' = cursor)"
  using assms insert_events_grows [of "ic_accepts ic" evs "ix_rows st"]
  by (auto simp: storeEvents_def stored_def as_stored_def image_subset_iff split: if_splits option.splits)

lemma parsed_all:
  assumes "filter (\<lambda>r. r = None) (map f raws) = []" and "raw \<in> set raws"
  obtains r where "f raw = Some r" "r \<in> set (List.map_filter id (map f raws))"
proof -
  have "f raw \<noteq> None" using assms by (auto simp: filter_empty_conv)
  then obtain r where r: "f raw = Some r" by auto
  moreover have "r \<in> set (List.map_filter id (map f raws))"
    using r assms(2) by (force simp: List.map_filter_def)
  ultimately show thesis by (rule that)
qed

lemma index_range_facts:
  assumes st': "st' = index_range ic po latest raws st"
  shows "set (stored ic st) \<subseteq> set (stored ic st')"
    and "ix_ledger st' = ix_ledger st \<or>
      ix_ledger st' = latest \<and> (\<forall>raw \<in> set raws. indexed ic (stored ic st') raw)"
    and "ix_saved st' = ix_saved st \<or>
      (\<exists>tx. ix_saved st' = Some (latest, tx)) \<and> (\<forall>raw \<in> set raws. indexed ic (stored ic st') raw)"
proof -
  let ?f = "parseEvent (ic_parse ic) (po_now po)"
  define rs where "rs = map ?f raws"
  let ?ps = "List.map_filter id rs"
  let ?clean = "filter (\<lambda>r. r = None) rs = []"
  let ?c = "if ?clean then Some (latest, getLastTxId ic ?ps) else None"
  have all: "\<forall>raw \<in> set raws. indexed ic rows raw" if "?clean" "as_stored ic ` set ?ps \<subseteq> set rows" for rows
  proof
    fix raw assume "raw \<in> set raws"
    from parsed_all [OF that(1) [unfolded rs_def] this, folded rs_def] obtain r where "?f raw = Some r" "r \<in> set ?ps" .
    then show "indexed ic rows raw" using that(2) unfolding indexed_def by blast
  qed
  have "set (stored ic st) \<subseteq> set (stored ic st')
    \<and> (ix_ledger st' = ix_ledger st \<or>
        ix_ledger st' = latest \<and> (\<forall>raw \<in> set raws. indexed ic (stored ic st') raw))
    \<and> (ix_saved st' = ix_saved st \<or>
        (\<exists>tx. ix_saved st' = Some (latest, tx)) \<and> (\<forall>raw \<in> set raws. indexed ic (stored ic st') raw))"
  proof (cases "raws = []")
    case True
    then show ?thesis
      by (auto simp: st' index_range_def saveCursor_def stored_def split: if_splits)
  next
    case False
    show ?thesis
    proof (cases "storeEvents ic (po_db po) ?ps ?c st")
      case None
      then have "st' = st" using False by (simp add: st' index_range_def Let_def rs_def [symmetric])
      then show ?thesis by simp
    next
      case (Some p)
      obtain su st1 where p: "p = (su, st1)" by (cases p)
      note store = store_facts [OF Some [unfolded p]]
      let ?st1 = "st1\<lparr>ix_notified := ix_notified st1 @ ?ps\<rparr>"
      let ?good = "?clean \<and> su_conflicts su = 0 \<and> su_errors su = 0"
      have st1: "stored ic ?st1 = stored ic st1" by (simp add: stored_def)
      have shape: "st' = (if ?good then
            ?st1\<lparr>ix_ledger := latest, ix_tx := getLastTxId ic ?ps\<rparr>
          else ?st1)"
        using False Some p by (simp add: st' index_range_def Let_def saveCursor_def rs_def [symmetric])
      have same: "stored ic st' = stored ic st1" by (simp add: shape stored_def)
      have every: "?good \<Longrightarrow> \<forall>raw \<in> set raws. indexed ic (stored ic st') raw"
        using all store(2) same by metis
      have saved: "ix_saved st' = ix_saved st1" by (simp add: shape)
      have ledger: "ix_ledger st' = (if ?good then latest else ix_ledger st)" by (simp add: shape store(3))
      show ?thesis
        using store(1,5) same every saved ledger by (auto split: if_splits)
    qed
  qed
  then show "set (stored ic st) \<subseteq> set (stored ic st')"
    and "ix_ledger st' = ix_ledger st \<or>
      ix_ledger st' = latest \<and> (\<forall>raw \<in> set raws. indexed ic (stored ic st') raw)"
    and "ix_saved st' = ix_saved st \<or>
      (\<exists>tx. ix_saved st' = Some (latest, tx)) \<and> (\<forall>raw \<in> set raws. indexed ic (stored ic st') raw)"
    by blast+
qed

lemma done_more:
  assumes "done_upto ic emitted st n" and "set (stored ic st) \<subseteq> set (stored ic st')"
  shows "done_upto ic emitted st' n"
  using assms unfolding done_upto_def indexed_def by blast

lemma done_extend:
  assumes "done_upto ic emitted st n" and "set (stored ic st) \<subseteq> set (stored ic st')"
    and "\<forall>raw \<in> set (concat (map emitted [(if 0 < n then n + 1 else 1)..m])). indexed ic (stored ic st') raw"
  shows "done_upto ic emitted st' m"
  unfolding done_upto_def
proof (intro allI impI)
  fix l raw assume l: "1 \<le> l" "l \<le> m" "raw \<in> set (emitted l)"
  show "indexed ic (stored ic st') raw"
  proof (cases "l \<le> n")
    case True
    then show ?thesis using done_more [OF assms(1,2)] l by (simp add: done_upto_def)
  next
    case False
    then have "l \<in> set [(if 0 < n then n + 1 else 1)..m]" using l by auto
    then have "raw \<in> set (concat (map emitted [(if 0 < n then n + 1 else 1)..m]))"
      using l(3) by (simp only: set_concat set_map) blast
    then show ?thesis using assms(3) by blast
  qed
qed

lemma caught_up_poll:
  assumes "caught_up ic emitted st" and "serves emitted (po_rpc po)" and "error_free (po_rpc po)"
  shows "caught_up ic emitted (pollOnce ic po st)"
proof -
  let ?start = "if 0 < ix_ledger st then ix_ledger st + 1 else 1"
  have same: "caught_up ic emitted (st\<lparr>ix_polling := True\<rparr>)"
  proof -
    have "stored ic (st\<lparr>ix_polling := True\<rparr>) = stored ic st" by (simp add: stored_def)
    then show ?thesis
      using assms(1) by (simp add: caught_up_def done_upto_def split: option.splits prod.splits)
  qed
  have "caught_up ic emitted (index_range ic po latest raws st)"
    if "getEvents (po_rpc po) ?start (Some (latest + 1)) = Some (Inr raws)" for latest raws
  proof -
    let ?st' = "index_range ic po latest raws st"
    note facts = index_range_facts [OF refl, where ic = ic and po = po and latest = latest and raws = raws and st = st]
    have raws: "raws = concat (map emitted [?start..latest])"
      by (rule served(2) [OF assms(2) that assms(3)])
    have upto: "done_upto ic emitted st (ix_ledger st)" using assms(1) by (simp add: caught_up_def)
    have new: "\<forall>raw \<in> set raws. indexed ic (stored ic ?st') raw \<Longrightarrow> done_upto ic emitted ?st' latest"
      by (rule done_extend [OF upto facts(1)]) (simp_all add: raws)
    have old: "done_upto ic emitted st n \<Longrightarrow> done_upto ic emitted ?st' n" for n
      using done_more facts(1) by blast
    show ?thesis
      unfolding caught_up_def
    proof
      show "done_upto ic emitted ?st' (ix_ledger ?st')"
        using facts(2) new old upto by metis
      show "case ix_saved ?st' of None \<Rightarrow> True | Some (n, _) \<Rightarrow> ic_pool ic \<longrightarrow> done_upto ic emitted ?st' n"
        using facts(3) new old assms(1) by (auto simp: caught_up_def split: option.splits)
    qed
  qed
  then show ?thesis
    using assms(1) same by (auto simp: pollOnce_def Let_def split: option.splits sum.splits)
qed

lemma caught_up_restart:
  assumes "caught_up ic emitted st"
  shows "caught_up ic emitted (restart ic fate st)"
  using assms
  by (auto simp: caught_up_def restart_def loadCursor_def done_upto_def stored_def split: option.splits)

text \<open>Polls of this process, and new processes over the same database.\<close>

datatype indexer_event = Poll poll_env | Restart db_fate

fun indexer_step :: "indexer_config \<Rightarrow> indexer_event \<Rightarrow> indexer \<Rightarrow> indexer" where
  "indexer_step ic (Poll po) st = pollOnce ic po st"
| "indexer_step ic (Restart fate) st = restart ic fate st"

abbreviation no_events :: indexer where
  "no_events \<equiv> \<lparr>ix_rows = [], ix_saved = None, ix_memory = [], ix_ledger = 0, ix_tx = JNull,
     ix_polling = False, ix_notified = []\<rparr>"

text \<open>C12. The indexer loses events only to answers that report an error: however polls, failures of
  the server or the database and restarts follow each other, with a server that pages through the
  events as documented, if an event of a ledger the cursor has reached is not stored, then some poll's
  request for events was answered with an error in the body.\<close>

theorem no_event_passed_over:
  assumes "\<forall>po. Poll po \<in> set evs \<longrightarrow> serves emitted (po_rpc po)"
    and "1 \<le> l" and "l \<le> ix_ledger (fold (indexer_step ic) evs no_events)" and "raw \<in> set (emitted l)"
    and "\<And>now r. parseEvent (ic_parse ic) now raw = Some r \<Longrightarrow>
      as_stored ic r \<notin> set (stored ic (fold (indexer_step ic) evs no_events))"
  shows "\<exists>po call r. Poll po \<in> set evs \<and> call \<noteq> LatestLedger \<and> fetchWithRetry (po_rpc po call) = Some (Inr r)
    \<and> jprop r ''result'' = JUndefined"
proof (rule ccontr)
  assume no: "\<not> ?thesis"
  have free: "error_free (po_rpc po)" if "Poll po \<in> set evs" for po
    using no that unfolding error_free_def error_answer_def by blast
  have "caught_up ic emitted (fold (indexer_step ic) evs s)" if "caught_up ic emitted s" for s
    using assms(1) free that
  proof (induction evs arbitrary: s)
    case (Cons e evs)
    have "caught_up ic emitted (indexer_step ic e s)"
      using Cons.prems caught_up_poll caught_up_restart by (cases e) auto
    then show ?case using Cons by simp
  qed simp
  moreover have "caught_up ic emitted no_events" by (simp add: caught_up_def done_upto_def)
  ultimately have "caught_up ic emitted (fold (indexer_step ic) evs no_events)" by blast
  then show False using assms(2-5) unfolding caught_up_def done_upto_def indexed_def by blast
qed

section \<open>An error in the body\<close>










section \<open>A cursor that stops for good\<close>

lemma insert_events_conflict:
  assumes "insert_events acc evs rows = Some (i, c, rows')" and "old \<in> set rows" and "ev \<in> set evs"
    and "same_event ev old"
  shows "0 < c"
  using assms
proof (induction acc evs rows arbitrary: i c rows' rule: insert_events.induct)
  case (2 acc e evs rows)
  show ?case
  proof (cases "list_ex (same_event e) rows")
    case True
    then show ?thesis using "2.prems"(1) by (auto split: if_splits)
  next
    case False
    then have "e \<noteq> ev" using "2.prems"(2,4) by (auto simp: list_ex_iff)
    then have "ev \<in> set evs" using "2.prems"(3) by simp
    moreover obtain i' where "insert_events acc evs (rows @ [db_row e]) = Some (i', c, rows')" "acc e"
      using "2.prems"(1) False by (auto split: if_splits)
    ultimately show ?thesis using "2.IH"(2) [OF _ False] "2.prems"(2,4) by force
  qed
qed simp

lemma parse_same_event:
  assumes "parseEvent pa now raw = Some r" and "parseEvent pa now' raw = Some r'"
    and "\<not> nullish (py_id (ev_payload r))"
  shows "same_event r' (db_row r)"
  using assms by (auto simp: parseEvent_def same_event_def db_row_def Let_def split: if_splits option.splits)

lemma index_range_blocked:
  assumes pool: "ic_pool ic" and raw: "raw \<in> set raws" and old: "db_row old \<in> set (ix_rows st)"
    and parses: "parseEvent (ic_parse ic) now' raw = Some old" and key: "\<not> nullish (py_id (ev_payload old))"
  shows "ix_ledger (index_range ic po latest raws st) = ix_ledger st \<and>
    ix_saved (index_range ic po latest raws st) = ix_saved st"
proof -
  define rs where "rs = map (parseEvent (ic_parse ic) (po_now po)) raws"
  let ?ps = "List.map_filter id rs"
  let ?clean = "filter (\<lambda>r. r = None) rs = []"
  let ?c = "if ?clean then Some (latest, getLastTxId ic ?ps) else None"
  have ne: "raws \<noteq> []" using raw by auto
  show ?thesis
  proof (cases "storeEvents ic (po_db po) ?ps ?c st")
    case None
    then show ?thesis using ne by (simp add: index_range_def Let_def rs_def [symmetric])
  next
    case (Some p)
    obtain su st1 where p: "p = (su, st1)" by (cases p)
    have dirty: "\<not> (?clean \<and> su_conflicts su = 0 \<and> su_errors su = 0)"
    proof
      assume good: "?clean \<and> su_conflicts su = 0 \<and> su_errors su = 0"
      from parsed_all [OF conjunct1 [OF good, unfolded rs_def] raw, folded rs_def]
      obtain ev where ev: "parseEvent (ic_parse ic) (po_now po) raw = Some ev" "ev \<in> set ?ps" .
      have same: "same_event ev (db_row old)" by (rule parse_same_event [OF parses ev(1) key])
      have "?ps \<noteq> []" using ev(2) by auto
      then have "\<exists>i rows. insert_events (ic_accepts ic) ?ps (ix_rows st) = Some (i, 0, rows)"
        using Some p pool good by (auto simp: storeEvents_def split: if_splits option.splits)
      then show False using insert_events_conflict old ev(2) same by blast
    qed
    then have "index_range ic po latest raws st = st1\<lparr>ix_notified := ix_notified st1 @ ?ps\<rparr>"
      using ne Some p by (auto simp: index_range_def Let_def rs_def [symmetric])
    moreover have "ix_saved st1 = ix_saved st"
      using store_facts(5) [OF Some [unfolded p]] dirty by (auto split: if_splits)
    ultimately show ?thesis using store_facts(3) [OF Some [unfolded p]] by simp
  qed
qed

text \<open>
  The server has reached ledger \<open>l\<close>, when it answers.
\<close>

definition reached :: "int \<Rightarrow> poll_env \<Rightarrow> bool" where
  "reached l po \<longleftrightarrow> (\<forall>latest. getLatestLedger (po_rpc po) = Some (Inr latest) \<longrightarrow> l \<le> latest)"

text \<open>C28. An event that is stored while the cursor is before its ledger stops the cursor for good: each
  later poll of the process moves neither its own nor the saved cursor, whatever becomes of the
  database, as long as the server pages through the events as documented, has reached the event's
  ledger and reports no error. This is where a second process, or a first poll after a failed
  \<open>loadCursor\<close>, ends up.\<close>

theorem stored_event_stops_cursor:
  assumes "ic_pool ic" and "db_row old \<in> set (ix_rows st)" and "parseEvent (ic_parse ic) now raw = Some old"
    and "\<not> nullish (py_id (ev_payload old))" and "raw \<in> set (emitted l)" and "0 \<le> ix_ledger st" and "ix_ledger st < l"
    and "\<forall>po \<in> set pos. serves emitted (po_rpc po) \<and> error_free (po_rpc po) \<and> reached l po"
  shows "ix_ledger (fold (pollOnce ic) pos st) = ix_ledger st
    \<and> ix_saved (fold (pollOnce ic) pos st) = ix_saved st"
  using assms(2,6-8)
proof (induction pos arbitrary: st)
  case (Cons po pos)
  let ?start = "if 0 < ix_ledger st then ix_ledger st + 1 else 1"
  have step: "ix_ledger (pollOnce ic po st) = ix_ledger st \<and> ix_saved (pollOnce ic po st) = ix_saved st
      \<and> db_row old \<in> set (ix_rows (pollOnce ic po st))"
  proof (cases "\<exists>latest raws. \<not> ix_polling st \<and> getLatestLedger (po_rpc po) = Some (Inr latest) \<and> latest \<noteq> 0
      \<and> ?start \<le> latest \<and> getEvents (po_rpc po) ?start (Some (latest + 1)) = Some (Inr raws)")
    case True
    then obtain latest raws where run: "\<not> ix_polling st" "getLatestLedger (po_rpc po) = Some (Inr latest)"
      "latest \<noteq> 0" "?start \<le> latest" "getEvents (po_rpc po) ?start (Some (latest + 1)) = Some (Inr raws)"
      by blast
    have poll: "pollOnce ic po st = index_range ic po latest raws st"
      using run by (simp add: pollOnce_def Let_def)
    have "l \<le> latest" using Cons.prems(4) run(2) by (simp add: reached_def)
    then have "l \<in> set [?start..latest]" using Cons.prems(2,3) by auto
    moreover have "raws = concat (map emitted [?start..latest])"
      using served(2) [OF _ run(5)] Cons.prems(4) by simp
    ultimately have raw: "raw \<in> set raws" using assms(5) by (simp only: set_concat set_map) blast
    have "set (stored ic st) \<subseteq> set (stored ic (index_range ic po latest raws st))"
      by (rule index_range_facts(1) [OF refl])
    then show ?thesis
      using index_range_blocked [OF assms(1) raw Cons.prems(1) assms(3,4), where po = po and latest = latest] Cons.prems(1) assms(1)
      by (auto simp: poll stored_def)
  next
    case False
    then show ?thesis
      using Cons.prems(1) by (auto simp: pollOnce_def Let_def split: option.splits sum.splits)
  qed
  show ?case
    using Cons.IH [of "pollOnce ic po st"] step Cons.prems by simp
qed simp

text \<open>And each such poll hands its events to the push notifier once more.\<close>

lemma blocked_poll_notifies_again:
  assumes "raws \<noteq> []" and "po_db po \<noteq> DbUnreachable"
  shows "ix_notified (index_range ic po latest raws st) = ix_notified st @
    List.map_filter id (map (parseEvent (ic_parse ic) (po_now po)) raws)"
proof -
  define rs where "rs = map (parseEvent (ic_parse ic) (po_now po)) raws"
  let ?ps = "List.map_filter id rs"
  let ?c = "if filter (\<lambda>r. r = None) rs = [] then Some (latest, getLastTxId ic ?ps) else None"
  obtain su st1 where p: "storeEvents ic (po_db po) ?ps ?c st = Some (su, st1)"
    using assms(2) by (cases "storeEvents ic (po_db po) ?ps ?c st")
      (auto simp: storeEvents_def split: if_splits option.splits)
  show ?thesis
    using assms(1) p store_facts(4) [OF p]
    by (simp add: index_range_def Let_def rs_def [symmetric] saveCursor_def)
qed

section \<open>A server for the examples\<close>

definition answering :: "jsval \<Rightarrow> nat \<Rightarrow> rpc_attempt" where
  "answering v = (\<lambda>_. (RpcResponds 200 [] (BodyJson v), Some 5))"

definition demo_rpc :: "(int \<Rightarrow> jsval list) \<Rightarrow> int \<Rightarrow> rpc_call \<Rightarrow> nat \<Rightarrow> rpc_attempt" where
  "demo_rpc emitted latest call = answering (JObject [(''result'', JObject
     (case call of
        LatestLedger \<Rightarrow> [(''sequence'', JNumber (Fin (of_int latest)))]
      | EventsFrom s e \<Rightarrow> [(''events'', JArray (concat (map emitted
          [s..(case e of None \<Rightarrow> latest | Some n \<Rightarrow> n - 1)])))]
      | EventsAfter c \<Rightarrow> [(''events'', JArray [])]))])"

lemma fetch_answering [simp]: "fetchWithRetry (answering v) = Some (Inr v)"
  by (simp add: fetchWithRetry_def fetch_from.simps answering_def rpc_attempt_result_def rpc_settle_def
      RPC_TIMEOUT_MS_def)

lemma demo_latest [simp]: "getLatestLedger (demo_rpc emitted latest) = Some (Inr latest)"
  by (simp add: getLatestLedger_def demo_rpc_def)

lemma demo_events [simp]:
  "getEvents (demo_rpc emitted latest) s (Some e) = Some (Inr (concat (map emitted [s..e - 1])))"
  by (simp add: getEvents_def events_loop.simps demo_rpc_def spread_def)

definition demo_poll :: "(int \<Rightarrow> jsval list) \<Rightarrow> int \<Rightarrow> poll_env" where
  "demo_poll emitted latest = \<lparr>po_rpc = demo_rpc emitted latest, po_now = 1000, po_db = DbWorks\<rparr>"

text \<open>A server that no longer keeps the ledgers asked for.\<close>

definition failing_poll :: "int \<Rightarrow> poll_env" where
  "failing_poll latest = \<lparr>po_rpc = (\<lambda>call. answering (case call of
       LatestLedger \<Rightarrow> JObject [(''result'', JObject [(''sequence'', JNumber (Fin (of_int latest)))])]
     | _ \<Rightarrow> JObject [(''error'', JObject [(''code'', JNumber (Fin (- 32600)))])])),
     po_now = 900, po_db = DbWorks\<rparr>"

lemma demo_serves:
  "serves emitted (po_rpc (demo_poll emitted latest))" "error_free (po_rpc (demo_poll emitted latest))"
  "reached l (demo_poll emitted latest) \<longleftrightarrow> l \<le> latest"
proof -
  let ?rest = "\<lambda>call. case call of
      EventsFrom s e \<Rightarrow> concat (map emitted [s..(case e of None \<Rightarrow> latest | Some n \<Rightarrow> n - 1)]) | _ \<Rightarrow> []"
  have "error_answer r \<or> page_of ?rest call r"
    if "call \<noteq> LatestLedger" "fetchWithRetry (po_rpc (demo_poll emitted latest) call) = Some (Inr r)" for call r
    using that by (cases call) (auto simp: demo_poll_def demo_rpc_def page_of_def error_answer_def)
  then show "serves emitted (po_rpc (demo_poll emitted latest))"
    unfolding serves_def by (intro exI [of _ ?rest]) auto
  show "error_free (po_rpc (demo_poll emitted latest))"
    by (auto simp: error_free_def error_answer_def demo_poll_def demo_rpc_def)
  show "reached l (demo_poll emitted latest) \<longleftrightarrow> l \<le> latest"
    by (simp add: reached_def demo_poll_def)
qed

lemma failing_latest [simp]: "getLatestLedger (po_rpc (failing_poll latest)) = Some (Inr latest)"
  by (simp add: getLatestLedger_def failing_poll_def)

lemma failing_events [simp]:
  "getEvents (po_rpc (failing_poll latest)) s e = Some (Inr [])"
  by (simp add: getEvents_def events_loop.simps failing_poll_def spread_def)

lemma failing_serves: "serves emitted (po_rpc (failing_poll latest))"
  unfolding serves_def
  by (intro exI [of _ "\<lambda>call. case call of EventsFrom s (Some e) \<Rightarrow> concat (map emitted [s..e - 1]) | _ \<Rightarrow> []"])
    (auto simp: error_answer_def failing_poll_def split: rpc_call.splits)

definition demo_indexer :: indexer_config where
  "demo_indexer = \<lparr>ic_url = True, ic_pool = True, ic_parse = \<lparr>pa_text = (\<lambda>_. []), pa_date = (\<lambda>_. Some 0)\<rparr>,
     ic_accepts = (\<lambda>_. True), ic_number = (\<lambda>_. JsNaN), ic_collate = (\<lambda>_ _. 0), ic_json = (\<lambda>_. [])\<rparr>"

definition tip_event :: jsval where
  "tip_event = JObject [(''id'', JString ''e1''), (''ledger'', JNumber (Fin 1)),
     (''topic'', JArray [JString ''tip_sent'', JString ''GA'', JString ''GB''])]"

definition tip_chain :: "int \<Rightarrow> jsval list" where
  "tip_chain l = (if l = 1 then [tip_event] else [])"

definition tip_row :: event_row where
  "tip_row = the (parseEvent (ic_parse demo_indexer) 1000 tip_event)"

lemma tip_row_stored [simp]: "db_row tip_row = tip_row"
  by (simp add: db_row_def tip_row_def parseEvent_def tip_event_def Let_def coalesce_def truthy_text_def)

lemma tip_parses: "parseEvent (ic_parse demo_indexer) 1000 tip_event = Some tip_row"
  by (simp add: tip_row_def parseEvent_def tip_event_def Let_def coalesce_def)

lemma tip_indexed: "indexer_step demo_indexer (Poll (demo_poll tip_chain 1)) no_events =
    no_events\<lparr>ix_rows := [tip_row], ix_saved := Some (1, getLastTxId demo_indexer [tip_row]), ix_ledger := 1,
      ix_tx := getLastTxId demo_indexer [tip_row], ix_notified := [tip_row]\<rparr>"
proof -
  have "pollOnce demo_indexer (demo_poll tip_chain 1) no_events =
      index_range demo_indexer (demo_poll tip_chain 1) 1 [tip_event] no_events"
    by (simp add: pollOnce_def demo_poll_def tip_chain_def Let_def)
  then show ?thesis
    using tip_parses
    by (simp add: index_range_def demo_poll_def storeEvents_def demo_indexer_def Let_def List.map_filter_def)
qed

lemma failing_skips:
  "pollOnce demo_indexer (failing_poll 5) no_events =
     no_events\<lparr>ix_saved := Some (5, getLastTxId demo_indexer []), ix_ledger := 5, ix_tx := getLastTxId demo_indexer []\<rparr>"
proof -
  have "pollOnce demo_indexer (failing_poll 5) no_events = index_range demo_indexer (failing_poll 5) 5 [] no_events"
    by (simp add: pollOnce_def Let_def)
  then show ?thesis
    by (simp add: index_range_def failing_poll_def saveCursor_def demo_indexer_def Let_def List.map_filter_def)
qed

lemma no_event_passed_over_witness:
  "\<exists>po call r. Poll po \<in> set [Poll (failing_poll 5)] \<and> call \<noteq> LatestLedger
     \<and> fetchWithRetry (po_rpc po call) = Some (Inr r) \<and> jprop r ''result'' = JUndefined"
proof (rule no_event_passed_over [where emitted = tip_chain and l = 1 and raw = tip_event and ic = demo_indexer])
  show "1 \<le> ix_ledger (fold (indexer_step demo_indexer) [Poll (failing_poll 5)] no_events)"
    by (simp add: failing_skips)
  show "as_stored demo_indexer r \<notin> set (stored demo_indexer (fold (indexer_step demo_indexer) [Poll (failing_poll 5)] no_events))"
    for r by (simp add: failing_skips) (simp add: stored_def demo_indexer_def)
qed (auto simp: failing_serves tip_chain_def)



lemma stored_event_stops_cursor_witness:
  "ix_ledger (fold (pollOnce demo_indexer) [demo_poll tip_chain 5, demo_poll tip_chain 9]
     (no_events\<lparr>ix_rows := [tip_row]\<rparr>)) = 0
   \<and> ix_saved (fold (pollOnce demo_indexer) [demo_poll tip_chain 5, demo_poll tip_chain 9]
     (no_events\<lparr>ix_rows := [tip_row]\<rparr>)) = None"
proof -
  have "\<not> nullish (py_id (ev_payload tip_row))"
    by (simp add: tip_row_def parseEvent_def tip_event_def Let_def coalesce_def)
  then show ?thesis
    using stored_event_stops_cursor [where ic = demo_indexer and old = tip_row and raw = tip_event
        and now = 1000 and emitted = tip_chain and l = 1 and st = "no_events\<lparr>ix_rows := [tip_row]\<rparr>"
        and pos = "[demo_poll tip_chain 5, demo_poll tip_chain 9]"]
    by (simp add: tip_parses demo_serves tip_chain_def) (simp add: demo_indexer_def)
qed

end
