(* ===== verification/Mailing.thy ===== *)
theory Mailing
  imports SqlTable JsResult JsNet
begin

text \<open>
  E-mail: the send queue of \<open>backend/src/services/notificationService.js\<close>, the
  delivery tracking of \<open>backend/src/services/emailTrackingService.js\<close>, and the unsubscribe routes of
  \<open>backend/src/routes/emails.js\<close>.

  From outside: random texts, the templates, what the SMTP server accepts, the JSON and the texts of
  the events' values, URL encoding. Row ids of all tables are drawn from one counter; only their
  order within a table is used. Stored lists of event types are kept as lists; the
  texts of errors that the renderer and the database throw are placeholders.
\<close>

section \<open>Tables\<close>

datatype mail_status = MailPending | MailProcessing | MailSent | MailFailed | MailCancelled

record mail_row =
  mq_email_id :: string
  mq_to :: string
  mq_subject :: string
  mq_html :: string
  mq_template :: string
  mq_status :: mail_status
  mq_attempts :: nat
  mq_max :: nat
  mq_next :: int
  mq_error :: "string option"
  mq_key :: "string option"
  mq_locked_by :: "string option"
  mq_locked_at :: "int option"
  mq_created :: int
  mq_updated :: int

record unsub_row =
  un_email :: string
  un_category :: string
  un_token :: string
  un_reason :: "string option"
  un_at :: "int option"

record pref_row =
  pf_email :: string
  pf_events :: "string list"
  pf_verified :: bool
  pf_consent :: bool

record token_row =
  vt_key :: string
  vt_email :: string
  vt_token :: string
  vt_verified :: bool
  vt_expires :: int

text \<open>\<open>ml_master\<close> is \<open>email_enabled\<close> in \<open>notification_preferences\<close>; \<open>ml_accepted\<close> lists what the SMTP
  server took, address and body.\<close>

record mailing =
  ml_queue :: "(nat, mail_row) table"
  ml_unsub :: "(nat, unsub_row) table"
  ml_prefs :: "(string, pref_row) table"
  ml_tokens :: "(nat, token_row) table"
  ml_master :: "(string, bool) table"
  ml_events :: "(string \<times> string) list"
  ml_accepted :: "(string \<times> string) list"
  ml_next :: nat
  ml_drawn :: nat

text \<open>\<open>me_render\<close> gets the template, the data, the pixel and the unsubscribe address; \<open>None\<close>: it throws.\<close>

record mail_env =
  me_enabled :: bool
  me_configured :: bool
  me_random :: "nat \<Rightarrow> string"
  me_render :: "string \<Rightarrow> jsval \<Rightarrow> string \<Rightarrow> string \<Rightarrow> (string \<times> string) option"
  me_smtp :: "string \<Rightarrow> string \<Rightarrow> string option"
  me_text :: "jsval \<Rightarrow> string"
  me_iso :: "int \<Rightarrow> string"
  me_encode :: "string \<Rightarrow> string"
  me_base :: string
  me_worker :: string
  me_rate_limit :: nat
  me_batch_threshold :: nat
  me_batch_size :: nat
  me_stale_ms :: int
  me_lock_ms :: int

definition hour_ms :: int where "hour_ms = 60 * 60 * 1000"

section \<open>Unsubscribing and tracking\<close>

definition isSuppressed :: "string \<Rightarrow> string \<Rightarrow> mailing \<Rightarrow> bool" where
  "isSuppressed address category ml \<longleftrightarrow>
     tb_select (\<lambda>_ r. un_email r = address \<and> un_category r \<in> {category, ''all''}) (ml_unsub ml) \<noteq> []"

text \<open>A row of the table; the columns \<open>email, category\<close> and \<open>token\<close> are unique.\<close>

definition pair_taken :: "string \<Rightarrow> string \<Rightarrow> mailing \<Rightarrow> bool" where
  "pair_taken email category ml \<longleftrightarrow>
     tb_select (\<lambda>_ r. un_email r = email \<and> un_category r = category) (ml_unsub ml) \<noteq> []"

definition token_taken :: "string \<Rightarrow> mailing \<Rightarrow> bool" where
  "token_taken token ml \<longleftrightarrow> tb_select (\<lambda>_ r. un_token r = token) (ml_unsub ml) \<noteq> []"

definition add_unsub :: "unsub_row \<Rightarrow> mailing \<Rightarrow> mailing" where
  "add_unsub r ml = ml\<lparr>ml_unsub := overlay (tb_insert (ml_next ml) r (ml_unsub ml)) (ml_unsub ml),
     ml_next := Suc (ml_next ml)\<rparr>"

text \<open>\<open>None\<close>: the insert throws, for a token that is taken.\<close>

definition ensureUnsubscribeToken :: "mail_env \<Rightarrow> string \<Rightarrow> string \<Rightarrow> mailing \<Rightarrow> string option \<times> mailing" where
  "ensureUnsubscribeToken me email category ml =
     (case tb_select (\<lambda>_ r. un_email r = email \<and> un_category r = category) (ml_unsub ml) of
        (_, r) # _ \<Rightarrow> (Some (un_token r), ml)
      | [] \<Rightarrow>
          (let token = me_random me (ml_drawn ml); ml' = ml\<lparr>ml_drawn := Suc (ml_drawn ml)\<rparr>
           in if token_taken token ml then (None, ml')
              else (Some token, add_unsub \<lparr>un_email = email, un_category = category, un_token = token,
                un_reason = None, un_at = None\<rparr> ml')))"

text \<open>A failed insert is caught and logged; the columns accept every text here.\<close>

definition recordEvent :: "string \<Rightarrow> string \<Rightarrow> mailing \<Rightarrow> mailing" where
  "recordEvent email_id event_type ml = ml\<lparr>ml_events := ml_events ml @ [(email_id, event_type)]\<rparr>"

definition queued_to :: "string \<Rightarrow> mailing \<Rightarrow> string option" where
  "queued_to email_id ml =
     (case tb_select (\<lambda>_ r. mq_email_id r = email_id) (ml_queue ml) of [] \<Rightarrow> None | (_, r) # _ \<Rightarrow> Some (mq_to r))"

definition handleOpen :: "string \<Rightarrow> mailing \<Rightarrow> mailing" where
  "handleOpen email_id ml =
     (case queued_to email_id ml of
        None \<Rightarrow> ml
      | Some address \<Rightarrow>
          (case tb_select (\<lambda>_ r. pf_email r = address) (ml_prefs ml) of
             (_, r) # _ \<Rightarrow> if pf_consent r then recordEvent email_id ''opened'' ml else ml
           | [] \<Rightarrow> ml))"

definition handleClick :: "string \<Rightarrow> mailing \<Rightarrow> mailing" where
  "handleClick email_id ml = recordEvent email_id ''clicked'' ml"

definition HARD_BOUNCE_THRESHOLD :: nat where "HARD_BOUNCE_THRESHOLD = 3"

text \<open>The join counts each event once for each queue row with its id; the column is unique.\<close>

definition bounce_count :: "string \<Rightarrow> mailing \<Rightarrow> nat" where
  "bounce_count address ml =
     length (filter (\<lambda>(i, t). t = ''bounced'' \<and> queued_to i ml = Some address) (ml_events ml))"

definition handleBounce :: "mail_env \<Rightarrow> int \<Rightarrow> string \<Rightarrow> string \<Rightarrow> string \<Rightarrow> mailing \<Rightarrow> bool \<times> mailing" where
  "handleBounce me now address email_id bounce_type ml =
     (let ml1 = recordEvent email_id ''bounced'' ml
      in if bounce_type \<noteq> ''hard'' then (False, ml1)
         else if bounce_count address ml1 < HARD_BOUNCE_THRESHOLD then (False, ml1)
         else
           (let token = me_random me (ml_drawn ml1); ml2 = ml1\<lparr>ml_drawn := Suc (ml_drawn ml1)\<rparr>
            in (True,
                if pair_taken address ''all'' ml2 \<or> token_taken token ml2 then ml2
                else add_unsub \<lparr>un_email = address, un_category = ''all'', un_token = token,
                  un_reason = Some (''Auto-suppressed after '' @ show_nat (bounce_count address ml1) @ '' hard bounces''),
                  un_at = Some now\<rparr> ml2)))"

text \<open>\<open>GET /unsubscribe\<close>: the answer's status with the address and the category.\<close>

definition getUnsubscribe ::
  "int \<Rightarrow> string option \<Rightarrow> string option \<Rightarrow> mailing \<Rightarrow> (nat + string \<times> string) \<times> mailing" where
  "getUnsubscribe now token category ml =
     (case truthy_text token of
        None \<Rightarrow> (Inl 400, ml)
      | Some t \<Rightarrow>
          (case tb_select (\<lambda>_ r. un_token r = t) (ml_unsub ml) of
             [] \<Rightarrow> (Inl 400, ml)
           | (k, r) # _ \<Rightarrow>
               (let cat = (case truthy_text category of Some c \<Rightarrow> c
                      | None \<Rightarrow> if un_category r = [] then ''all'' else un_category r)
                in if tb_select (\<lambda>k' r'. k' \<noteq> k \<and> un_email r' = un_email r \<and> un_category r' = cat) (ml_unsub ml) \<noteq> []
                   then (Inl 500, ml)
                   else (Inr (un_email r, cat),
                     ml\<lparr>ml_unsub := snd (tb_update (\<lambda>_ r'. un_token r' = t)
                       (\<lambda>r'. r'\<lparr>un_at := Some now, un_category := cat\<rparr>) (ml_unsub ml))\<rparr>))))"

definition postUnsubscribe ::
  "mail_env \<Rightarrow> int \<Rightarrow> string \<Rightarrow> string option \<Rightarrow> string option \<Rightarrow> mailing \<Rightarrow> (nat + string \<times> string) \<times> mailing" where
  "postUnsubscribe me now email category reason ml =
     (if email = [] then (Inl 400, ml)
      else
        (let cat = (case truthy_text category of Some c \<Rightarrow> c | None \<Rightarrow> ''all'');
             token = me_random me (ml_drawn ml); ml' = ml\<lparr>ml_drawn := Suc (ml_drawn ml)\<rparr>
         in if pair_taken email cat ml then
              (Inr (email, cat),
               ml'\<lparr>ml_unsub := snd (tb_update (\<lambda>_ r. un_email r = email \<and> un_category r = cat)
                 (\<lambda>r. r\<lparr>un_at := Some now, un_reason := truthy_text reason\<rparr>) (ml_unsub ml'))\<rparr>)
            else if token_taken token ml then (Inl 500, ml')
            else (Inr (email, cat), add_unsub \<lparr>un_email = email, un_category = cat, un_token = token,
              un_reason = truthy_text reason, un_at = Some now\<rparr> ml')))"

section \<open>The send queue\<close>

definition transport :: "mail_env \<Rightarrow> bool" where
  "transport me \<longleftrightarrow> me_enabled me \<and> me_configured me"

definition isRateLimited :: "mail_env \<Rightarrow> int \<Rightarrow> string \<Rightarrow> mailing \<Rightarrow> bool" where
  "isRateLimited me now address ml \<longleftrightarrow>
     me_rate_limit me \<le> length (tb_select (\<lambda>_ r. mq_to r = address \<and> now - hour_ms \<le> mq_created r) (ml_queue ml))"

text \<open>\<open>None\<close>: accepted, otherwise the error.\<close>

definition sendEmail :: "mail_env \<Rightarrow> string \<Rightarrow> string \<Rightarrow> string option \<Rightarrow> mailing \<Rightarrow> string option \<times> mailing" where
  "sendEmail me address html email_id ml =
     (if \<not> transport me then (Some ''Email notifications are not enabled or misconfigured'', ml)
      else if isSuppressed address ''all'' ml then (Some ''Recipient is suppressed'', ml)
      else (case me_smtp me address html of
          Some err \<Rightarrow> (Some err, ml)
        | None \<Rightarrow>
            (let ml' = ml\<lparr>ml_accepted := ml_accepted ml @ [(address, html)]\<rparr>
             in (None, case truthy_text email_id of None \<Rightarrow> ml' | Some i \<Rightarrow> recordEvent i ''sent'' ml'))))"

definition unsubscribe_url :: "mail_env \<Rightarrow> string option \<Rightarrow> string" where
  "unsubscribe_url me token = me_base me @ ''/api/emails/unsubscribe''
     @ (case truthy_text token of None \<Rightarrow> [] | Some t \<Rightarrow> ''?token='' @ t)"

definition pixel_url :: "mail_env \<Rightarrow> string \<Rightarrow> string" where
  "pixel_url me email_id = me_base me @ ''/api/emails/track/'' @ email_id @ ''/open.gif''"

definition new_mail :: "int \<Rightarrow> string \<Rightarrow> string \<Rightarrow> string \<times> string \<Rightarrow> string \<Rightarrow> string option \<Rightarrow> mail_row" where
  "new_mail now email_id address rendered template key =
     \<lparr>mq_email_id = email_id, mq_to = address, mq_subject = fst rendered, mq_html = snd rendered,
      mq_template = template, mq_status = MailPending, mq_attempts = 0, mq_max = 3, mq_next = now,
      mq_error = None, mq_key = truthy_text key, mq_locked_by = None, mq_locked_at = None,
      mq_created = now, mq_updated = now\<rparr>"

text \<open>\<open>None\<close>: the message's id is taken.\<close>

definition insert_mail :: "mail_row \<Rightarrow> mailing \<Rightarrow> mailing option" where
  "insert_mail r ml =
     (if tb_select (\<lambda>_ r'. mq_email_id r' = mq_email_id r) (ml_queue ml) \<noteq> [] then None
      else map_option (\<lambda>q. ml\<lparr>ml_queue := q, ml_next := Suc (ml_next ml)\<rparr>) (tb_insert (ml_next ml) r (ml_queue ml)))"

text \<open>The id of the queued message, none when the rate limit drops it.\<close>

definition queueEmail ::
  "mail_env \<Rightarrow> int \<Rightarrow> string \<Rightarrow> string \<Rightarrow> jsval \<Rightarrow> string option \<Rightarrow> mailing \<Rightarrow>
     (thrown + string option) \<times> mailing" where
  "queueEmail me now address template data key ml =
     (if isRateLimited me now address ml then (Inr None, ml)
      else
        (let email_id = me_random me (ml_drawn ml);
             (token, ml1) = ensureUnsubscribeToken me address ''all'' (ml\<lparr>ml_drawn := Suc (ml_drawn ml)\<rparr>)
         in case me_render me template data (pixel_url me email_id) (unsubscribe_url me token) of
              None \<Rightarrow> (Inl (plain_error ''Template render failed''), ml1)
            | Some rendered \<Rightarrow>
                (case insert_mail (new_mail now email_id address rendered template key) ml1 of
                   None \<Rightarrow> (Inl (plain_error ''UNIQUE constraint failed''), ml1)
                 | Some ml2 \<Rightarrow> (Inr (Some email_id), ml2))))"

text \<open>\<open>claimQueuedEmails\<close>, which no other function calls.\<close>

definition claimable :: "mail_env \<Rightarrow> int \<Rightarrow> mail_row \<Rightarrow> bool" where
  "claimable me now r \<longleftrightarrow> mq_next r \<le> now
     \<and> (mq_status r = MailPending \<or> mq_status r = MailProcessing
        \<and> (case mq_locked_at r of None \<Rightarrow> False | Some t \<Rightarrow> t < now - me_lock_ms me))"

definition claimQueuedEmails :: "mail_env \<Rightarrow> int \<Rightarrow> nat \<Rightarrow> mailing \<Rightarrow> (nat \<times> mail_row) list \<times> mailing" where
  "claimQueuedEmails me now limit ml =
     (let ids = map fst (take limit (sort_key (\<lambda>(_, r). mq_next r) (tb_select (\<lambda>_ r. claimable me now r) (ml_queue ml))));
          q = snd (tb_update (\<lambda>k r. claimable me now r \<and> k \<in> set ids)
            (\<lambda>r. r\<lparr>mq_status := MailProcessing, mq_locked_by := Some (me_worker me), mq_locked_at := Some now,
              mq_updated := now\<rparr>) (ml_queue ml))
      in (tb_select (\<lambda>k _. k \<in> set ids) q, ml\<lparr>ml_queue := q\<rparr>))"

definition settle :: "nat \<Rightarrow> (mail_row \<Rightarrow> mail_row) \<Rightarrow> mailing \<Rightarrow> mailing" where
  "settle k f ml = ml\<lparr>ml_queue := tb_set k (\<lambda>r. (f r)\<lparr>mq_locked_by := None, mq_locked_at := None\<rparr>) (ml_queue ml)\<rparr>"

text \<open>
  One round of the loop of \<open>processEmailQueue\<close> for a row as it was selected, in its two parts: the
  claim, and what is done with a claimed row. \<open>now\<close> is the start of the run, \<open>later\<close> the clock in
  this round. The counts are the messages sent and failed.
\<close>

definition claim_mail :: "int \<Rightarrow> nat \<times> mail_row \<Rightarrow> mailing \<Rightarrow> bool \<times> mailing" where
  "claim_mail now item ml =
     (if mq_status (snd item) \<noteq> MailPending then (True, ml)
      else (let (n, q) = tb_update (\<lambda>k r. k = fst item \<and> mq_status r = MailPending)
              (\<lambda>r. r\<lparr>mq_status := MailProcessing, mq_updated := now\<rparr>) (ml_queue ml)
            in (0 < n, ml\<lparr>ml_queue := q\<rparr>)))"

definition after_failure :: "int \<Rightarrow> nat \<Rightarrow> nat \<Rightarrow> string \<Rightarrow> mail_row \<Rightarrow> mail_row" where
  "after_failure later attempts max_attempts err r =
     (if max_attempts \<le> attempts
      then r\<lparr>mq_status := MailFailed, mq_attempts := attempts, mq_error := Some err, mq_updated := later\<rparr>
      else r\<lparr>mq_status := MailPending, mq_attempts := attempts, mq_error := Some err,
        mq_next := later + 2 ^ attempts * 60 * 1000, mq_updated := later\<rparr>)"

definition send_claimed :: "mail_env \<Rightarrow> int \<Rightarrow> nat \<times> mail_row \<Rightarrow> mailing \<Rightarrow> (nat \<times> nat) \<times> mailing" where
  "send_claimed me later item ml =
     (let k = fst item; r = snd item; attempts = mq_attempts r + 1;
          max_attempts = (if mq_max r = 0 then 3 else mq_max r)
      in if isSuppressed (mq_to r) ''all'' ml
         then ((0, 0), settle k (\<lambda>r'. r'\<lparr>mq_status := MailCancelled, mq_updated := later\<rparr>) ml)
         else (case sendEmail me (mq_to r) (mq_html r) (Some (mq_email_id r)) ml of
             (None, ml1) \<Rightarrow> ((1, 0), settle k
               (\<lambda>r'. r'\<lparr>mq_status := MailSent, mq_attempts := attempts, mq_updated := later\<rparr>) ml1)
           | (Some err, ml1) \<Rightarrow> ((0, 1), settle k (after_failure later attempts max_attempts err) ml1)))"

definition process_one ::
  "mail_env \<Rightarrow> int \<Rightarrow> int \<Rightarrow> nat \<times> mail_row \<Rightarrow> mailing \<Rightarrow> (nat \<times> nat) \<times> mailing" where
  "process_one me now later item ml =
     (case claim_mail now item ml of
        (False, ml1) \<Rightarrow> ((0, 0), ml1)
      | (True, ml1) \<Rightarrow> send_claimed me later item ml1)"

fun process_items ::
  "mail_env \<Rightarrow> int \<Rightarrow> (nat \<Rightarrow> int) \<Rightarrow> (nat \<times> mail_row) list \<Rightarrow> mailing \<Rightarrow> (nat \<times> nat) \<times> mailing" where
  "process_items me now clock [] ml = ((0, 0), ml)"
| "process_items me now clock (item # items) ml =
     (let ((s, f), ml1) = process_one me now (clock (length items)) item ml;
          ((s', f'), ml2) = process_items me now clock items ml1
      in ((s + s', f + f'), ml2))"

definition due_items :: "mail_env \<Rightarrow> int \<Rightarrow> mailing \<Rightarrow> (nat \<times> mail_row) list" where
  "due_items me now ml =
     take (me_batch_size me) (sort_key (\<lambda>(_, r). mq_next r)
       (tb_select (\<lambda>_ r. mq_status r = MailPending \<and> mq_next r \<le> now
          \<or> mq_status r = MailProcessing \<and> mq_updated r < now - me_stale_ms me) (ml_queue ml)))"

definition processEmailQueue ::
  "mail_env \<Rightarrow> int \<Rightarrow> (nat \<Rightarrow> int) \<Rightarrow> mailing \<Rightarrow> (nat \<times> nat) \<times> mailing" where
  "processEmailQueue me now clock ml = process_items me now clock (due_items me now ml) ml"

end
