(* ===== verification/MailNotices.thy ===== *)
theory MailNotices
  imports Mailing
begin

text \<open>
  The preferences and notices of \<open>backend/src/services/notificationService.js\<close>, the verification of
  addresses (\<open>backend/src/services/emailVerificationService.js\<close>) with its routes in
  \<open>backend/src/routes/emails.js\<close>, and what runs of all mail operations do to the send queue.

  The locale \<open>mail_invariant\<close> says what an invariant has to survive; its three interpretations are
  that every queued address has an unsubscribe row, that the rate limit holds in every hour, and
  that verification tokens are random texts. One operation reads the clock once.
\<close>

section \<open>Preferences\<close>

definition KNOWN_EVENT_TYPES :: "string list" where
  "KNOWN_EVENT_TYPES = [''payment_received'', ''payment_sent'', ''escrow_released'', ''stream_depleted'',
     ''stream_claimed'', ''scheduled_txn_executed'', ''price_alert'', ''security_alert'', ''multisig_executed'',
     ''tip_received'', ''incoming_payment'', ''outgoing_payment'', ''escrow_release'', ''stream_claim'',
     ''multi_sig_approval'', ''scheduled_payment'', ''contract_event'']"

definition event_template :: "string \<Rightarrow> string option" where
  "event_template t = map_of
     [(''payment_received'', ''payment_received''), (''payment_sent'', ''payment_sent''),
      (''escrow_released'', ''escrow_released''), (''stream_depleted'', ''stream_claimed''),
      (''stream_claimed'', ''stream_claimed''), (''scheduled_txn_executed'', ''scheduled_txn_executed''),
      (''price_alert'', ''price_alert''), (''security_alert'', ''security_alert''),
      (''multisig_executed'', ''scheduled_txn_executed''), (''tip_received'', ''payment_received'')] t"

definition default_events :: "string list" where
  "default_events = [''payment_received'', ''escrow_released'', ''stream_depleted'', ''multisig_executed'',
     ''tip_received'']"

definition registerEmail ::
  "string \<Rightarrow> string \<Rightarrow> string list option \<Rightarrow> bool option \<Rightarrow> mailing \<Rightarrow> (thrown + pref_row) \<times> mailing" where
  "registerEmail pk email events consent ml =
     (let evs = (case events of Some e \<Rightarrow> e | None \<Rightarrow> default_events);
          invalid = filter (\<lambda>e. e \<notin> set KNOWN_EVENT_TYPES) evs
      in if invalid \<noteq> [] then
           (Inl (http_error 400 (''Unknown notification event type(s): '' @ join '', '' invalid
             @ ''. Allowed types: '' @ join '', '' KNOWN_EVENT_TYPES)), ml)
         else
           (let existing = tb_row (ml_prefs ml) pk;
                agreed = (case consent of Some c \<Rightarrow> c
                  | None \<Rightarrow> (case existing of Some r \<Rightarrow> pf_consent r | None \<Rightarrow> False));
                prefs = (case existing of
                  Some _ \<Rightarrow> tb_set pk (\<lambda>r. r\<lparr>pf_email := email, pf_events := evs, pf_consent := agreed\<rparr>) (ml_prefs ml)
                | None \<Rightarrow> overlay (tb_insert pk \<lparr>pf_email = email, pf_events = evs, pf_verified = False,
                    pf_consent = agreed\<rparr> (ml_prefs ml)) (ml_prefs ml))
            in (Inr (the (tb_row prefs pk)), ml\<lparr>ml_prefs := prefs\<rparr>)))"

definition getEmailPreference :: "string \<Rightarrow> mailing \<Rightarrow> pref_row option" where
  "getEmailPreference pk ml = tb_row (ml_prefs ml) pk"

definition deleteEmailPreference :: "string \<Rightarrow> mailing \<Rightarrow> bool \<times> mailing" where
  "deleteEmailPreference pk ml =
     (let (n, t) = tb_delete (\<lambda>k _. k = pk) (ml_prefs ml) in (0 < n, ml\<lparr>ml_prefs := t\<rparr>))"

definition isEmailVerified :: "string \<Rightarrow> mailing \<Rightarrow> string option" where
  "isEmailVerified pk ml =
     (case tb_row (ml_prefs ml) pk of
        Some r \<Rightarrow> if pf_verified r then Some (pf_email r) else None
      | None \<Rightarrow> None)"

section \<open>Verification of an address\<close>

text \<open>Twenty-four hours; the code adds them to the local hour, which differs when the clocks change.\<close>

definition token_ttl_ms :: int where "token_ttl_ms = 24 * 60 * 60 * 1000"

definition verification_link :: "mail_env \<Rightarrow> string \<Rightarrow> string \<Rightarrow> string" where
  "verification_link me pk token = me_base me @ ''/api/emails/'' @ me_encode me pk @ ''/confirm?token='' @ token"

definition initiateVerification ::
  "mail_env \<Rightarrow> int \<Rightarrow> string \<Rightarrow> string \<Rightarrow> mailing \<Rightarrow> (thrown + string \<times> string \<times> string) \<times> mailing" where
  "initiateVerification me now pk email ml =
     (let token = me_random me (ml_drawn ml);
          rest = snd (tb_delete (\<lambda>_ r. vt_key r = pk \<and> \<not> vt_verified r) (ml_tokens ml));
          ml1 = ml\<lparr>ml_drawn := Suc (ml_drawn ml), ml_tokens := rest\<rparr>
      in if tb_select (\<lambda>_ r. vt_token r = token) rest \<noteq> []
         then (Inl (plain_error ''UNIQUE constraint failed''), ml1)
         else (case tb_insert (ml_next ml) \<lparr>vt_key = pk, vt_email = email, vt_token = token,
             vt_verified = False, vt_expires = now + token_ttl_ms\<rparr> rest of
             None \<Rightarrow> (Inl (plain_error ''UNIQUE constraint failed''), ml1)
           | Some t \<Rightarrow>
               (let ml2 = ml1\<lparr>ml_tokens := t, ml_next := Suc (ml_next ml)\<rparr>
                in case me_render me ''email_verification''
                      (JObject [(''verificationUrl'', JString (verification_link me pk token))]) [] [] of
                     None \<Rightarrow> (Inl (plain_error ''Template render failed''), ml2)
                   | Some rendered \<Rightarrow> (Inr (token, rendered), ml2))))"

datatype confirmation = Confirmed string bool | ConfirmFails string

definition confirmVerification :: "int \<Rightarrow> string \<Rightarrow> string \<Rightarrow> mailing \<Rightarrow> confirmation \<times> mailing" where
  "confirmVerification now pk token ml =
     (case tb_select (\<lambda>_ r. vt_key r = pk \<and> vt_token r = token) (ml_tokens ml) of
        [] \<Rightarrow> (ConfirmFails ''Invalid or unknown token'', ml)
      | (k, r) # _ \<Rightarrow>
          if vt_verified r then (Confirmed (vt_email r) True, ml)
          else if vt_expires r < now then (ConfirmFails ''Token has expired'', ml)
          else
            (let ml1 = ml\<lparr>ml_tokens := tb_set k (\<lambda>r. r\<lparr>vt_verified := True\<rparr>) (ml_tokens ml)\<rparr>;
                 prefs = (case tb_row (ml_prefs ml1) pk of
                   Some _ \<Rightarrow> tb_set pk (\<lambda>p. p\<lparr>pf_email := vt_email r, pf_verified := True\<rparr>) (ml_prefs ml1)
                 | None \<Rightarrow> overlay (tb_insert pk \<lparr>pf_email = vt_email r,
                     pf_events = [''payment_received'', ''escrow_released'', ''stream_claimed''],
                     pf_verified = True, pf_consent = False\<rparr> (ml_prefs ml1)) (ml_prefs ml1))
             in (Confirmed (vt_email r) False, ml1\<lparr>ml_prefs := prefs\<rparr>)))"

text \<open>\<open>POST /:publicKey/verify\<close>, by its status: the message it queues is made with a fixed token.\<close>

definition verification_data :: "mail_env \<Rightarrow> string \<Rightarrow> jsval" where
  "verification_data me pk = JObject [(''verificationUrl'', JString (verification_link me pk ''PENDING''))]"

definition postVerify :: "mail_env \<Rightarrow> int \<Rightarrow> string \<Rightarrow> string \<Rightarrow> mailing \<Rightarrow> nat \<times> mailing" where
  "postVerify me now pk email ml =
     (if CHR 0x40 \<notin> set email then (400, ml)
      else
        (case initiateVerification me now pk email ml of
           (Inl _, ml1) \<Rightarrow> (500, ml1)
         | (Inr _, ml1) \<Rightarrow>
             (case queueEmail me now email ''email_verification'' (verification_data me pk) (Some pk) ml1 of
                (Inl _, ml2) \<Rightarrow> (500, ml2)
              | (Inr _, ml2) \<Rightarrow>
                  if \<not> me_enabled me then (200, ml2)
                  else (case initiateVerification me now pk email ml2 of
                      (Inl _, ml3) \<Rightarrow> (500, ml3)
                    | (Inr _, ml3) \<Rightarrow> (200, ml3)))))"

definition confirmRoute :: "int \<Rightarrow> string \<Rightarrow> string option \<Rightarrow> mailing \<Rightarrow> (nat \<times> string) \<times> mailing" where
  "confirmRoute now pk token ml =
     (case truthy_text token of
        None \<Rightarrow> ((400, ''token is required''), ml)
      | Some t \<Rightarrow>
          (case confirmVerification now pk t ml of
             (ConfirmFails why, ml') \<Rightarrow> ((400, why), ml')
           | (Confirmed email _, ml') \<Rightarrow> ((200, email), ml')))"

section \<open>Notices to subscribers\<close>

definition notice_payload :: "mail_env \<Rightarrow> int \<Rightarrow> string \<Rightarrow> jsval \<Rightarrow> jsval" where
  "notice_payload me now pk data = JObject
     [(''amount'', jprop data ''amount''), (''asset'', jprop data ''asset''), (''sender'', jprop data ''sender''),
      (''recipient'', or_else (jprop data ''recipient'') (JString pk)),
      (''timestamp'', or_else (jprop data ''timestamp'') (JString (me_iso me now))),
      (''memo'', jprop data ''memo''), (''txHash'', jprop data ''txHash'')]"

definition digest_data :: "mail_env \<Rightarrow> string \<Rightarrow> nat \<Rightarrow> jsval \<Rightarrow> jsval" where
  "digest_data me event_type recent payload =
     (let shown = (\<lambda>f. me_text me (or_else (jprop payload f) (JString [])))
      in JObject [(''count'', JNumber (Fin (of_nat (recent + 1)))),
           (''events'', JArray [JObject [(''label'', JString event_type),
              (''timestamp'', jprop payload ''timestamp''),
              (''summary'', JString (trim (shown ''amount'' @ '' '' @ shown ''asset'')))]])])"

definition recent_count :: "int \<Rightarrow> string \<Rightarrow> mailing \<Rightarrow> nat" where
  "recent_count now address ml =
     length (tb_select (\<lambda>_ r. mq_to r = address \<and> now - hour_ms \<le> mq_created r
       \<and> mq_status r \<in> {MailPending, MailSent}) (ml_queue ml))"

definition pending_digests :: "mailing \<Rightarrow> string set" where
  "pending_digests ml =
     set (map (\<lambda>(_, r). mq_to r)
       (tb_select (\<lambda>_ r. mq_template r = ''digest'' \<and> mq_status r = MailPending) (ml_queue ml)))"

text \<open>
  The loop over the subscribers; \<open>ml0\<close> is the database as it was read before, \<open>digests\<close> the addresses
  with a digest. Only the queueing of a digest is outside a \<open>try\<close>.
\<close>

fun notify_rows ::
  "mail_env \<Rightarrow> int \<Rightarrow> string \<Rightarrow> jsval \<Rightarrow> mailing \<Rightarrow> (string \<times> pref_row) list \<Rightarrow> string set \<Rightarrow> mailing \<Rightarrow>
     (thrown + nat \<times> nat \<times> nat) \<times> mailing" where
  "notify_rows me now event_type data ml0 [] digests ml = (Inr (0, 0, 0), ml)"
| "notify_rows me now event_type data ml0 ((pk, r) # rows) digests ml =
     (let next_rows = notify_rows me now event_type data ml0 rows;
          counted = (\<lambda>f (res, ml'). (map_sum id f res, ml'))
      in if event_type \<notin> set (pf_events r) \<or> \<not> pf_verified r \<or> tb_row (ml_master ml0) pk = Some False
         then next_rows digests ml
         else (case event_template event_type of
             None \<Rightarrow> next_rows digests ml
           | Some template \<Rightarrow>
               (let payload = notice_payload me now pk data; recent = recent_count now (pf_email r) ml0
                in if me_batch_threshold me \<le> recent then
                     (if pf_email r \<in> digests then counted (\<lambda>(s, f, b). (s, f, Suc b)) (next_rows digests ml)
                      else (case queueEmail me now (pf_email r) ''digest''
                            (digest_data me event_type recent payload) (Some pk) ml of
                          (Inl e, ml1) \<Rightarrow> (Inl e, ml1)
                        | (Inr _, ml1) \<Rightarrow>
                            counted (\<lambda>(s, f, b). (s, f, Suc b)) (next_rows (insert (pf_email r) digests) ml1)))
                   else (case queueEmail me now (pf_email r) template payload (Some pk) ml of
                       (Inl _, ml1) \<Rightarrow> counted (\<lambda>(s, f, b). (s, Suc f, b)) (next_rows digests ml1)
                     | (Inr _, ml1) \<Rightarrow> counted (\<lambda>(s, f, b). (Suc s, f, b)) (next_rows digests ml1)))))"

definition notifySubscribers ::
  "mail_env \<Rightarrow> int \<Rightarrow> string \<Rightarrow> jsval \<Rightarrow> mailing \<Rightarrow> (thrown + nat \<times> nat \<times> nat) \<times> mailing" where
  "notifySubscribers me now event_type data ml =
     (if \<not> transport me then (Inr (0, 0, 0), ml)
      else notify_rows me now event_type data ml (ml_prefs ml) (pending_digests ml) ml)"

text \<open>The older direct way, which passes no unsubscribe token and does not use the queue.\<close>

definition sendEventNotification ::
  "mail_env \<Rightarrow> string \<Rightarrow> string \<Rightarrow> jsval \<Rightarrow> mailing \<Rightarrow> string option \<times> mailing" where
  "sendEventNotification me address event_type data ml =
     (case event_template event_type of
        None \<Rightarrow> (Some (''No template for event type: '' @ event_type), ml)
      | Some template \<Rightarrow>
          (let email_id = me_random me (ml_drawn ml); ml1 = ml\<lparr>ml_drawn := Suc (ml_drawn ml)\<rparr>
           in case me_render me template data (pixel_url me email_id) (me_base me @ ''/api/emails/unsubscribe'') of
                None \<Rightarrow> (Some ''Template render failed'', ml1)
              | Some (subject, html) \<Rightarrow> sendEmail me address html (Some email_id) ml1))"

section \<open>Runs of mail operations\<close>

text \<open>
  \<open>SendDirect\<close> is a call of \<open>sendEmail\<close> past the queue, as \<open>rateLimitAlertService.js\<close> makes; \<open>Reported\<close> are
  the other events the provider's webhook reports.
\<close>

datatype mail_op =
    QueueMail string string jsval "string option"
  | ProcessQueue "nat \<Rightarrow> int"
  | ClaimMails nat
  | Notify string jsval
  | Register string string "string list option" "bool option"
  | DeletePreference string
  | Verify string string
  | Confirm string "string option"
  | Opened string
  | Clicked string
  | Bounced string string string
  | Reported string string
  | SendDirect string string
  | SendEvent string string jsval
  | UnsubscribeLink "string option" "string option"
  | UnsubscribePost string "string option" "string option"

fun mail_step :: "mail_env \<Rightarrow> int \<times> mail_op \<Rightarrow> mailing \<Rightarrow> mailing" where
  "mail_step me (now, QueueMail a t d k) ml = snd (queueEmail me now a t d k ml)"
| "mail_step me (now, ProcessQueue clock) ml = snd (processEmailQueue me now clock ml)"
| "mail_step me (now, ClaimMails n) ml = snd (claimQueuedEmails me now n ml)"
| "mail_step me (now, Notify t d) ml = snd (notifySubscribers me now t d ml)"
| "mail_step me (now, Register pk e evs c) ml = snd (registerEmail pk e evs c ml)"
| "mail_step me (now, DeletePreference pk) ml = snd (deleteEmailPreference pk ml)"
| "mail_step me (now, Verify pk e) ml = snd (postVerify me now pk e ml)"
| "mail_step me (now, Confirm pk t) ml = snd (confirmRoute now pk t ml)"
| "mail_step me (now, Opened i) ml = handleOpen i ml"
| "mail_step me (now, Clicked i) ml = handleClick i ml"
| "mail_step me (now, Bounced a i t) ml = snd (handleBounce me now a i t ml)"
| "mail_step me (now, Reported i t) ml = recordEvent i t ml"
| "mail_step me (now, SendDirect a h) ml = snd (sendEmail me a h None ml)"
| "mail_step me (now, SendEvent a t d) ml = snd (sendEventNotification me a t d ml)"
| "mail_step me (now, UnsubscribeLink t c) ml = snd (getUnsubscribe now t c ml)"
| "mail_step me (now, UnsubscribePost e c r) ml = snd (postUnsubscribe me now e c r ml)"

abbreviation no_mail :: mailing where
  "no_mail \<equiv> \<lparr>ml_queue = [], ml_unsub = [], ml_prefs = [], ml_tokens = [], ml_master = [],
     ml_events = [], ml_accepted = [], ml_next = 0, ml_drawn = 0\<rparr>"

text \<open>Addresses and times of creation in the queue, and the changes that leave them alone.\<close>

definition mail_sig :: "mailing \<Rightarrow> (string \<times> int) list" where
  "mail_sig ml = map (\<lambda>(_, r). (mq_to r, mq_created r)) (ml_queue ml)"

definition token_texts :: "mailing \<Rightarrow> string set" where
  "token_texts ml = (\<lambda>p. vt_token (snd p)) ` set (ml_tokens ml)"

lemma token_texts_frame [simp]:
  "token_texts (ml_queue_update f1 ml) = token_texts ml" "token_texts (ml_unsub_update f2 ml) = token_texts ml"
  "token_texts (ml_prefs_update f3 ml) = token_texts ml" "token_texts (ml_events_update f4 ml) = token_texts ml"
  "token_texts (ml_accepted_update f5 ml) = token_texts ml" "token_texts (ml_next_update f6 ml) = token_texts ml"
  "token_texts (ml_drawn_update f7 ml) = token_texts ml"
  by (simp_all add: token_texts_def)

lemma token_texts_kept:
  "(\<And>r. vt_token (f r) = vt_token r) \<Longrightarrow>
     token_texts (ml\<lparr>ml_tokens := snd (tb_update P f (ml_tokens ml))\<rparr>) = token_texts ml"
  by (simp add: token_texts_def tb_update_def image_image split_beta if_distrib [of vt_token] cong: if_cong)

definition quiet :: "mail_env \<Rightarrow> mailing \<Rightarrow> mailing \<Rightarrow> bool" where
  "quiet me ml ml' \<longleftrightarrow> mail_sig ml' = mail_sig ml \<and> ml_unsub ml' = ml_unsub ml
     \<and> ml_next ml \<le> ml_next ml' \<and> ml_drawn ml \<le> ml_drawn ml'
     \<and> token_texts ml' \<subseteq> token_texts ml \<union> range (me_random me)"

lemma quiet_same [simp]: "quiet me ml ml"
  by (simp add: quiet_def)

lemma quiet_twice: "quiet me a b \<Longrightarrow> quiet me b c \<Longrightarrow> quiet me a c"
  by (auto simp: quiet_def)

lemma sig_update:
  assumes "\<And>r. mq_to (f r) = mq_to r \<and> mq_created (f r) = mq_created r"
  shows "mail_sig (ml\<lparr>ml_queue := snd (tb_update P f (ml_queue ml))\<rparr>) = mail_sig ml"
  using assms by (auto simp: mail_sig_def tb_update_def)

lemma quiet_settle:
  "(\<And>r. mq_to (f r) = mq_to r \<and> mq_created (f r) = mq_created r) \<Longrightarrow> quiet me ml (settle k f ml)"
  by (simp add: quiet_def settle_def sig_update)

lemma quiet_event [simp]: "quiet me ml (recordEvent i t ml)"
  by (simp add: quiet_def recordEvent_def mail_sig_def)

lemma quiet_send: "quiet me ml (snd (sendEmail me a h i ml))"
  by (auto simp: sendEmail_def Let_def quiet_def mail_sig_def recordEvent_def split: option.splits)

lemma quiet_claim: "quiet me ml (snd (claim_mail now item ml))"
  by (simp add: claim_mail_def quiet_def sig_update split_beta Let_def)

lemma quiet_send_claimed: "quiet me ml (snd (send_claimed me later item ml))"
proof -
  let ?r = "snd item"
  obtain res ml1 where send: "sendEmail me (mq_to ?r) (mq_html ?r) (Some (mq_email_id ?r)) ml = (res, ml1)"
    by (cases "sendEmail me (mq_to ?r) (mq_html ?r) (Some (mq_email_id ?r)) ml")
  have "quiet me ml ml1"
    using quiet_send [of me ml "mq_to ?r" "mq_html ?r" "Some (mq_email_id ?r)"] send by simp
  then have "quiet me ml (settle k f ml1)" if "\<And>r. mq_to (f r) = mq_to r \<and> mq_created (f r) = mq_created r" for k f
    by (rule quiet_twice) (rule quiet_settle [OF that])
  then show ?thesis
    by (auto simp: send_claimed_def Let_def send after_failure_def quiet_settle split: option.splits)
qed

lemma quiet_process_one: "quiet me ml (snd (process_one me now later item ml))"
proof -
  obtain c ml1 where claim: "claim_mail now item ml = (c, ml1)" by (cases "claim_mail now item ml")
  have "quiet me ml ml1" using quiet_claim [of me ml now item] claim by simp
  then show ?thesis
    using quiet_twice [OF _ quiet_send_claimed [of me ml1 later item]] by (cases c) (simp_all add: process_one_def claim)
qed

lemma quiet_process_items: "quiet me ml (snd (process_items me now clock items ml))"
proof (induction items arbitrary: ml)
  case (Cons item items)
  obtain c ml1 where one: "process_one me now (clock (length items)) item ml = (c, ml1)"
    by (cases "process_one me now (clock (length items)) item ml")
  have "quiet me ml ml1" using quiet_process_one [of me ml now "clock (length items)" item] one by simp
  from quiet_twice [OF this Cons.IH [of ml1]] show ?case
    by (simp add: one split_beta Let_def)
qed simp

lemma quiet_initiate: "quiet me ml (snd (initiateVerification me now pk e ml))"
proof -
  define rest where "rest = snd (tb_delete (\<lambda>_ r. vt_key r = pk \<and> \<not> vt_verified r) (ml_tokens ml))"
  have rest: "set rest \<subseteq> set (ml_tokens ml)" by (auto simp: rest_def tb_delete_def)
  then have 1: "quiet me ml (ml\<lparr>ml_drawn := Suc (ml_drawn ml), ml_tokens := rest\<rparr>)"
    by (auto simp: quiet_def mail_sig_def token_texts_def)
  have 2: "quiet me ml (ml\<lparr>ml_drawn := Suc (ml_drawn ml), ml_tokens := t, ml_next := Suc (ml_next ml)\<rparr>)"
    if "tb_insert k r rest = Some t" "vt_token r = me_random me (ml_drawn ml)" for k r t
  proof -
    have "t = rest @ [(k, r)]" using that(1) by (simp add: tb_insert_def split: if_splits)
    then show ?thesis
      using that(2) image_mono [OF rest, of "\<lambda>p. vt_token (snd p)"]
      by (simp add: quiet_def mail_sig_def token_texts_def le_supI1)
  qed
  show ?thesis
    unfolding initiateVerification_def Let_def rest_def [symmetric]
    using 1 by (auto intro: 2 split: option.splits)
qed

lemma quiet_confirm: "quiet me ml (snd (confirmVerification now pk tk ml))"
  by (auto simp: confirmVerification_def quiet_def mail_sig_def token_texts_kept Let_def split: option.splits list.splits)

lemma quiet_ops:
  "quiet me ml (snd (processEmailQueue me now clock ml))"
  "quiet me ml (snd (claimQueuedEmails me now n ml))"
  "quiet me ml (snd (registerEmail pk e evs c ml))"
  "quiet me ml (snd (deleteEmailPreference pk ml))"
  "quiet me ml (snd (initiateVerification me now pk e ml))"
  "quiet me ml (snd (confirmVerification now pk tk ml))"
  "quiet me ml (handleOpen i ml)" "quiet me ml (handleClick i ml)"
proof -
  show "quiet me ml (snd (processEmailQueue me now clock ml))"
    by (simp add: processEmailQueue_def quiet_process_items)
  show "quiet me ml (snd (claimQueuedEmails me now n ml))"
    by (simp add: claimQueuedEmails_def quiet_def sig_update Let_def)
  show "quiet me ml (handleClick i ml)" by (simp add: handleClick_def)
  show "quiet me ml (handleOpen i ml)"
    by (simp add: handleOpen_def split: option.splits list.splits prod.splits)
  show "quiet me ml (snd (initiateVerification me now pk e ml))" by (rule quiet_initiate)
  show "quiet me ml (snd (confirmVerification now pk tk ml))" by (rule quiet_confirm)
qed (auto simp: registerEmail_def deleteEmailPreference_def
    quiet_def mail_sig_def Let_def split_beta split: option.splits list.splits)

lemma accepted_frames:
  "ml_accepted (snd (claimQueuedEmails me now n ml)) = ml_accepted ml"
  "ml_accepted (snd (registerEmail pk e evs c ml)) = ml_accepted ml"
  "ml_accepted (snd (deleteEmailPreference pk ml)) = ml_accepted ml"
  "ml_accepted (snd (initiateVerification me now pk e ml)) = ml_accepted ml"
  "ml_accepted (snd (confirmVerification now pk tk ml)) = ml_accepted ml"
  "ml_accepted (handleOpen i ml) = ml_accepted ml" "ml_accepted (handleClick i ml) = ml_accepted ml"
  by (auto simp: claimQueuedEmails_def registerEmail_def deleteEmailPreference_def initiateVerification_def
    confirmVerification_def handleOpen_def handleClick_def
    recordEvent_def Let_def split_beta split: option.splits list.splits)

lemma accepted_event: "ml_accepted (recordEvent i t ml) = ml_accepted ml"
  by (simp add: recordEvent_def)

text \<open>The direct calls and the links an invariant is asked to bear.\<close>

fun permitted :: "(string \<Rightarrow> bool) \<Rightarrow> (string option \<Rightarrow> string option \<Rightarrow> bool) \<Rightarrow> mail_op \<Rightarrow> bool" where
  "permitted direct link (SendDirect a h) = direct a"
| "permitted direct link (SendEvent a t d) = direct a"
| "permitted direct link (UnsubscribeLink t c) = link t c"
| "permitted direct link _ = True"

text \<open>
  What every operation keeps, if the quiet changes, one queued message and the changes of the
  unsubscribe table keep it.
\<close>

locale mail_invariant =
  fixes me :: mail_env and now :: int and ok :: "mailing \<Rightarrow> bool"
    and direct :: "string \<Rightarrow> bool" and link :: "string option \<Rightarrow> string option \<Rightarrow> bool"
  assumes quiet_ok: "ok ml \<Longrightarrow> quiet me ml ml' \<Longrightarrow> ml_accepted ml' = ml_accepted ml \<Longrightarrow> ok ml'"
    and process_ok: "ok ml \<Longrightarrow> ok (snd (processEmailQueue me now clock ml))"
    and queue_ok: "ok ml \<Longrightarrow> ok (snd (queueEmail me now a t d k ml))"
    and bounce_ok: "ok ml \<Longrightarrow> ok (snd (handleBounce me now a i b ml))"
    and link_ok: "ok ml \<Longrightarrow> link tk ca \<Longrightarrow> ok (snd (getUnsubscribe now tk ca ml))"
    and send_ok: "ok ml \<Longrightarrow> direct a \<Longrightarrow> ok (snd (sendEmail me a h ei ml))"
    and post_ok: "ok ml \<Longrightarrow> ok (snd (postUnsubscribe me now a c r ml))"
begin

lemma notify_rows_ok: "ok ml \<Longrightarrow> ok (snd (notify_rows me now t d ml0 rows digests ml))"
proof (induction rows arbitrary: digests ml)
  case (Cons p rows)
  obtain pk r where p: "p = (pk, r)" by (cases p)
  let ?next = "notify_rows me now t d ml0 rows"
  have rest: "ok ml1 \<Longrightarrow> ok (snd (?next ds ml1))" for ml1 ds by (rule Cons.IH)
  have counted: "snd (case ?next ds ml1 of (res, ml') \<Rightarrow> (map_sum id f res, ml')) = snd (?next ds ml1)"
    for ds ml1 and f :: "nat \<times> nat \<times> nat \<Rightarrow> nat \<times> nat \<times> nat"
    by (simp add: split_beta)
  have one: "ok (snd (case queueEmail me now a tm da k ml of
        (Inl e, ml1) \<Rightarrow> F e ml1 | (Inr q, ml1) \<Rightarrow> G q ml1))"
    if "\<And>e ml1. ok ml1 \<Longrightarrow> ok (snd (F e ml1))" "\<And>q ml1. ok ml1 \<Longrightarrow> ok (snd (G q ml1))"
    for a tm da k and F :: "thrown \<Rightarrow> mailing \<Rightarrow> (thrown + nat \<times> nat \<times> nat) \<times> mailing" and G
    using queue_ok [OF Cons.prems, of a tm da k] that
    by (cases "queueEmail me now a tm da k ml") (auto split: sum.splits)
  show ?case
    unfolding p notify_rows.simps Let_def
    by (auto simp: counted rest Cons.prems split: option.splits intro!: one)
qed simp

lemma verify_ok:
  assumes "ok ml"
  shows "ok (snd (postVerify me now pk e ml))"
proof -
  have init: "ok m \<Longrightarrow> ok (snd (initiateVerification me now pk e m))" for m
    by (rule quiet_ok [OF _ quiet_initiate accepted_frames(4)])
  obtain x1 ml1 where 1: "initiateVerification me now pk e ml = (x1, ml1)"
    by (cases "initiateVerification me now pk e ml")
  obtain x2 ml2 where 2: "queueEmail me now e ''email_verification'' (verification_data me pk) (Some pk) ml1 = (x2, ml2)"
    by (cases "queueEmail me now e ''email_verification'' (verification_data me pk) (Some pk) ml1")
  obtain x3 ml3 where 3: "initiateVerification me now pk e ml2 = (x3, ml3)"
    by (cases "initiateVerification me now pk e ml2")
  have "ok ml1" using init [OF assms] 1 by simp
  moreover from queue_ok [OF this] 2 have "ok ml2" by (metis snd_conv)
  moreover from init [OF this] 3 have "ok ml3" by simp
  ultimately show ?thesis
    using assms by (simp add: postVerify_def 1 2 3 split: sum.splits)
qed

lemma event_ok:
  assumes "ok ml" and "direct a"
  shows "ok (snd (sendEventNotification me a t d ml))"
proof -
  have "ok (ml\<lparr>ml_drawn := Suc (ml_drawn ml)\<rparr>)"
    by (rule quiet_ok [OF assms(1)]) (simp_all add: quiet_def mail_sig_def)
  then show ?thesis
    using assms send_ok by (auto simp: sendEventNotification_def Let_def split: option.splits prod.splits)
qed

lemma step_ok:
  assumes "ok ml" and "permitted direct link op"
  shows "ok (mail_step me (now, op) ml)"
proof (cases op)
  case (Notify t d)
  then show ?thesis using assms(1) notify_rows_ok by (simp add: notifySubscribers_def)
next
  case (Confirm pk t)
  have "ok (snd (confirmVerification now pk x ml))" for x by (rule quiet_ok [OF assms(1) quiet_confirm accepted_frames(5)])
  then show ?thesis
    using Confirm assms(1)
    by (auto simp: confirmRoute_def split: option.splits prod.splits confirmation.splits) (metis snd_conv)+
qed (use assms quiet_ok [OF _ quiet_ops(2) accepted_frames(1)] quiet_ok [OF _ quiet_ops(3) accepted_frames(2)]
    quiet_ok [OF _ quiet_ops(4) accepted_frames(3)] quiet_ok [OF _ quiet_ops(7) accepted_frames(6)]
    quiet_ok [OF _ quiet_ops(8) accepted_frames(7)] quiet_ok [OF _ quiet_event accepted_event] send_ok event_ok process_ok queue_ok verify_ok bounce_ok link_ok post_ok in auto)

end

section \<open>When a queued message is sent\<close>

definition covered :: "mailing \<Rightarrow> string \<Rightarrow> bool" where
  "covered ml a \<longleftrightarrow> (\<exists>p \<in> set (ml_unsub ml). un_email (snd p) = a \<and> un_category (snd p) = ''all'')"


text \<open>An address whose own unsubscribe token is one of \<open>H\<close>, and an address that is suppressed unless it is such.\<close>

definition released :: "string set \<Rightarrow> mailing \<Rightarrow> string \<Rightarrow> bool" where
  "released H ml a \<longleftrightarrow> (\<exists>p \<in> set (ml_unsub ml). un_email (snd p) = a \<and> un_token (snd p) \<in> H)"

definition held :: "string set \<Rightarrow> mailing \<Rightarrow> string \<Rightarrow> bool" where
  "held H ml a \<longleftrightarrow> covered ml a \<or> released H ml a"











lemma ensure_queue [simp]: "ml_queue (snd (ensureUnsubscribeToken me a c ml)) = ml_queue ml"
  by (auto simp: ensureUnsubscribeToken_def add_unsub_def Let_def split: list.splits)

lemma insert_mail_Some: "insert_mail r ml = Some ml' \<Longrightarrow>
    ml' = ml\<lparr>ml_queue := ml_queue ml @ [(ml_next ml, r)], ml_next := Suc (ml_next ml)\<rparr>"
  by (auto simp: insert_mail_def tb_insert_def split: if_splits)

lemma queue_cases:
  obtains (limited) "isRateLimited me now a ml" "snd (queueEmail me now a t d k ml) = ml"
  | (refused) "\<not> isRateLimited me now a ml"
      "snd (queueEmail me now a t d k ml) =
        snd (ensureUnsubscribeToken me a ''all'' (ml\<lparr>ml_drawn := Suc (ml_drawn ml)\<rparr>))"
  | (queued) i r where "\<not> isRateLimited me now a ml" "mq_to r = a" "mq_created r = now"
      "snd (queueEmail me now a t d k ml) =
        (snd (ensureUnsubscribeToken me a ''all'' (ml\<lparr>ml_drawn := Suc (ml_drawn ml)\<rparr>)))
          \<lparr>ml_queue := ml_queue ml @ [(i, r)],
           ml_next := Suc (ml_next (snd (ensureUnsubscribeToken me a ''all'' (ml\<lparr>ml_drawn := Suc (ml_drawn ml)\<rparr>))))\<rparr>"
proof (cases "isRateLimited me now a ml")
  case True
  then show thesis using limited by (simp add: queueEmail_def)
next
  case False
  obtain tok ml1 where e: "ensureUnsubscribeToken me a ''all'' (ml\<lparr>ml_drawn := Suc (ml_drawn ml)\<rparr>) = (tok, ml1)"
    by (cases "ensureUnsubscribeToken me a ''all'' (ml\<lparr>ml_drawn := Suc (ml_drawn ml)\<rparr>)")
  have q: "ml_queue ml1 = ml_queue ml"
    using ensure_queue [of me a "''all''" "ml\<lparr>ml_drawn := Suc (ml_drawn ml)\<rparr>"] e by simp
  consider "snd (queueEmail me now a t d k ml) = ml1"
    | i r where "mq_to r = a" "mq_created r = now" "snd (queueEmail me now a t d k ml) =
        ml1\<lparr>ml_queue := ml_queue ml @ [(i, r)], ml_next := Suc (ml_next ml1)\<rparr>"
  proof (cases "me_render me t d (pixel_url me (me_random me (ml_drawn ml))) (unsubscribe_url me tok)")
    case None
    then have "snd (queueEmail me now a t d k ml) = ml1" using False by (simp add: queueEmail_def Let_def e)
    then show thesis by (rule that(1))
  next
    case (Some rendered)
    let ?r = "new_mail now (me_random me (ml_drawn ml)) a rendered t k"
    show thesis
    proof (cases "insert_mail ?r ml1")
      case None
      then have "snd (queueEmail me now a t d k ml) = ml1"
        using False Some by (simp add: queueEmail_def Let_def e)
      then show thesis by (rule that(1))
    next
      case (Some ml2)
      then have "snd (queueEmail me now a t d k ml) = ml2"
        using False \<open>me_render _ _ _ _ _ = _\<close> by (simp add: queueEmail_def Let_def e)
      then show thesis
        using insert_mail_Some [OF Some] q by (intro that(2) [of ?r "ml_next ml1"]) (simp_all add: new_mail_def)
    qed
  qed
  then show thesis using refused [OF False] queued [OF False] e by cases auto
qed

lemma held_drawn [simp]: "held H (ml\<lparr>ml_drawn := n\<rparr>) a = held H ml a"
    "covered (ml\<lparr>ml_drawn := n\<rparr>) a = covered ml a"
    "released H (ml\<lparr>ml_drawn := n\<rparr>) a = released H ml a" "mail_sig (ml\<lparr>ml_drawn := n\<rparr>) = mail_sig ml"
  by (simp_all add: held_def covered_def released_def mail_sig_def)


























lemma runs_keep:
  assumes "\<And>now op ml. ok ml \<Longrightarrow> permitted direct link op \<Longrightarrow> ok (mail_step me (now, op) ml)"
    and "\<And>now op. (now, op) \<in> set ops \<Longrightarrow> permitted direct link op" and "ok ml"
  shows "ok (fold (mail_step me) ops ml)"
  using assms(2,3)
proof (induction ops arbitrary: ml)
  case (Cons x ops)
  obtain now op where x: "x = (now, op)" by (cases x)
  have "ok (mail_step me (now, op) ml)" by (rule assms(1) [OF Cons.prems(2)]) (use Cons.prems(1) x in auto)
  with Cons.IH [OF _ this] Cons.prems(1) show ?case by (metis fold_simps(2) list.set_intros(2) x)
qed simp

lemma permitted_any: "permitted (\<lambda>_. True) (\<lambda>_ _. True) op"
  by (cases op) simp_all




section \<open>The rate limit\<close>

definition in_hour :: "string \<Rightarrow> int \<Rightarrow> mailing \<Rightarrow> nat" where
  "in_hour a t ml =
     length (tb_select (\<lambda>_ r. mq_to r = a \<and> t \<le> mq_created r \<and> mq_created r \<le> t + hour_ms) (ml_queue ml))"

lemma in_hour_sig:
  "in_hour a t ml = length (filter (\<lambda>(b, c). b = a \<and> t \<le> c \<and> c \<le> t + hour_ms) (mail_sig ml))"
  by (simp add: in_hour_def mail_sig_def tb_select_def filter_map comp_def split_beta case_prod_beta')

definition limited :: "mail_env \<Rightarrow> mailing \<Rightarrow> bool" where
  "limited me ml \<longleftrightarrow> (\<forall>a t. in_hour a t ml \<le> me_rate_limit me)"

lemma limited_sig: "limited me ml \<Longrightarrow> mail_sig ml' = mail_sig ml \<Longrightarrow> limited me ml'"
  by (simp add: limited_def in_hour_sig)

lemma below_limit:
  assumes "\<not> isRateLimited me now a ml" and "t \<le> now" and "now \<le> t + hour_ms"
  shows "in_hour a t ml < me_rate_limit me"
proof -
  have "length (filter P xs) \<le> length (filter Q xs)" if "\<And>x. P x \<Longrightarrow> Q x" for P Q :: "nat \<times> mail_row \<Rightarrow> bool" and xs
    using that by (induction xs) auto
  from this [of "\<lambda>(_, r). mq_to r = a \<and> t \<le> mq_created r \<and> mq_created r \<le> t + hour_ms"
      "\<lambda>(_, r). mq_to r = a \<and> now - hour_ms \<le> mq_created r"]
  have "in_hour a t ml \<le> length (tb_select (\<lambda>_ r. mq_to r = a \<and> now - hour_ms \<le> mq_created r) (ml_queue ml))"
    using assms(2,3) unfolding in_hour_def tb_select_def by fastforce
  then show ?thesis using assms(1) by (simp add: isRateLimited_def)
qed

lemma limited_queue: "limited me ml \<Longrightarrow> limited me (snd (queueEmail me now a t d k ml))"
proof (cases rule: queue_cases [of me now a ml t d k])
  case (queued i r)
  let ?ml' = "snd (queueEmail me now a t d k ml)"
  have sig: "mail_sig ?ml' = mail_sig ml @ [(a, now)]" using queued(2-4) by (simp add: mail_sig_def)
  have "in_hour b u ?ml' = in_hour b u ml + (if b = a \<and> u \<le> now \<and> now \<le> u + hour_ms then 1 else 0)" for b u
    by (simp add: in_hour_sig sig)
  moreover assume "limited me ml"
  ultimately show ?thesis
    using below_limit [OF queued(1)] by (auto simp: limited_def Suc_le_eq)
qed (auto intro: limited_sig simp: mail_sig_def)

lemma unsub_sig:
  "mail_sig (snd (handleBounce me now a i b ml)) = mail_sig ml"
  "mail_sig (snd (getUnsubscribe now tk ca ml)) = mail_sig ml"
  "mail_sig (snd (postUnsubscribe me now a cb r ml)) = mail_sig ml"
  by (auto simp: mail_sig_def handleBounce_def getUnsubscribe_def postUnsubscribe_def recordEvent_def
      add_unsub_def Let_def split: option.splits list.splits)

interpretation rate: mail_invariant me now "limited me" "\<lambda>_. True" "\<lambda>_ _. True" for me now
proof
  show "limited me ml'" if "limited me ml" "quiet me ml ml'" for ml ml'
    using that limited_sig by (simp add: quiet_def)
  show "limited me (snd (processEmailQueue me now clock ml))" if "limited me ml" for clock ml
    using that limited_sig quiet_ops(1) unfolding quiet_def by blast
  show "limited me (snd (sendEmail me a h ei ml))" if "limited me ml" for a h ei ml
    using that limited_sig quiet_send unfolding quiet_def by blast
qed (auto intro: limited_queue limited_sig unsub_sig)

text \<open>C33. In no hour are more messages to one address queued than the rate limit, whatever is
  queued, sent, verified, unsubscribed or bounced, at whatever times, as long as requests do not
  overlap.\<close>

theorem queued_per_hour_bounded:
  "in_hour a t (fold (mail_step me) ops no_mail) \<le> me_rate_limit me"
proof -
  have "limited me no_mail" by (simp add: limited_def in_hour_sig mail_sig_def)
  from runs_keep [where ok = "limited me", OF rate.step_ok permitted_any this] show ?thesis by (simp add: limited_def)
qed

section \<open>The link that never confirms\<close>

lemma unsub_tokens:
  "ml_tokens (snd (handleBounce me now a i b ml)) = ml_tokens ml"
  "ml_tokens (snd (getUnsubscribe now tk ca ml)) = ml_tokens ml"
  "ml_tokens (snd (postUnsubscribe me now a cb r ml)) = ml_tokens ml"
  "ml_tokens (snd (ensureUnsubscribeToken me a cc ml)) = ml_tokens ml"
  by (auto simp: handleBounce_def getUnsubscribe_def postUnsubscribe_def ensureUnsubscribeToken_def recordEvent_def
      add_unsub_def Let_def split: option.splits list.splits)

lemma queue_tokens: "ml_tokens (snd (queueEmail me now a t d k ml)) = ml_tokens ml"
  by (cases rule: queue_cases [of me now a ml t d k]) (simp_all add: unsub_tokens)

interpretation drawn: mail_invariant me now "\<lambda>ml. token_texts ml \<subseteq> range (me_random me)"
    "\<lambda>_. True" "\<lambda>_ _. True" for me now
proof
  show "token_texts ml' \<subseteq> range (me_random me)"
    if "token_texts ml \<subseteq> range (me_random me)" "quiet me ml ml'" for ml ml'
    using that unfolding quiet_def by blast
  show "token_texts (snd (processEmailQueue me now clock ml)) \<subseteq> range (me_random me)"
    if "token_texts ml \<subseteq> range (me_random me)" for clock ml
    using that quiet_ops(1) [of me ml now clock] unfolding quiet_def by blast
  show "token_texts (snd (sendEmail me a h ei ml)) \<subseteq> range (me_random me)"
    if "token_texts ml \<subseteq> range (me_random me)" for a h ei ml
    using that quiet_send [of me ml a h ei] unfolding quiet_def by blast
qed (simp_all add: token_texts_def unsub_tokens queue_tokens)

text \<open>The link in the message that \<open>POST /verify\<close> queues is refused for every account, whatever has
  happened: it carries the text PENDING, and no stored token is that text.\<close>

lemma mailed_link_never_confirms:
  assumes "\<forall>n. me_random me n \<noteq> ''PENDING''"
  shows "fst (confirmRoute now pk (Some ''PENDING'') (fold (mail_step me) ops no_mail)) = (400, ''Invalid or unknown token'')"
proof -
  let ?ml = "fold (mail_step me) ops no_mail"
  have "token_texts no_mail \<subseteq> range (me_random me)" by (simp add: token_texts_def)
  then have drawn: "token_texts ?ml \<subseteq> range (me_random me)"
    using runs_keep [where ok = "\<lambda>ml. token_texts ml \<subseteq> range (me_random me)" and me = me and ops = ops and ml = no_mail,
      OF drawn.step_ok permitted_any] by simp
  have "x \<noteq> ''PENDING''" if "x \<in> token_texts ?ml" for x
    using assms subsetD [OF drawn that] by (elim rangeE) simp
  then have "tb_select (\<lambda>_ r. vt_key r = pk \<and> vt_token r = ''PENDING'') (ml_tokens ?ml) = []"
    unfolding token_texts_def tb_select_def filter_empty_conv by (simp add: split_beta)
  then show ?thesis by (simp add: confirmRoute_def truthy_text_def confirmVerification_def)
qed

section \<open>What verification and bounces do\<close>

lemma tb_row_append: "tb_row t k = None \<Longrightarrow> tb_row (t @ [(k, r)]) k = Some r"
  by (simp add: tb_row_def map_add_def)

text \<open>The token that is made, and never mailed, would confirm for a day.\<close>

lemma fresh_token_confirms:
  assumes "initiateVerification me now pk email ml = (Inr (token, rendered), ml')" and "later \<le> now + token_ttl_ms"
  shows "\<exists>ml''. confirmVerification later pk token ml' = (Confirmed email False, ml'')
    \<and> isEmailVerified pk ml'' = Some email"
proof -
  define rest where "rest = snd (tb_delete (\<lambda>_ r. vt_key r = pk \<and> \<not> vt_verified r) (ml_tokens ml))"
  define row where "row = \<lparr>vt_key = pk, vt_email = email, vt_token = token, vt_verified = False,
    vt_expires = now + token_ttl_ms\<rparr>"
  have made: "tb_select (\<lambda>_ r. vt_token r = token) rest = []" "ml_tokens ml' = rest @ [(ml_next ml, row)]"
    using assms(1) unfolding rest_def row_def
    by (auto simp: initiateVerification_def Let_def tb_insert_def split: if_splits option.splits)
  then have "\<forall>p \<in> set rest. vt_token (snd p) \<noteq> token"
    by (simp add: tb_select_def filter_empty_conv split_beta)
  then have "tb_select (\<lambda>_ r. vt_key r = pk \<and> vt_token r = token) (ml_tokens ml') = [(ml_next ml, row)]"
    by (auto simp: made(2) row_def tb_select_def filter_empty_conv)
  moreover have "vt_verified row = False" "vt_expires row = now + token_ttl_ms" "vt_email row = email"
    by (simp_all add: row_def)
  ultimately show ?thesis
    using assms(2)
    by (cases "tb_row (ml_prefs ml') pk")
      (simp_all add: confirmVerification_def isEmailVerified_def Let_def tb_row_set overlay_def tb_insert_def
        tb_row_append)
qed

text \<open>A new address takes over the verification of the one before.\<close>

lemma register_keeps_verified:
  assumes "tb_row (ml_prefs ml) pk = Some r" and "pf_verified r" and "set evs \<subseteq> set KNOWN_EVENT_TYPES"
  shows "isEmailVerified pk (snd (registerEmail pk email (Some evs) consent ml)) = Some email"
proof -
  have "filter (\<lambda>e. e \<notin> set KNOWN_EVENT_TYPES) evs = []"
    using assms(3) by (auto simp: filter_empty_conv)
  then show ?thesis
    using assms(1,2) by (simp add: registerEmail_def Let_def isEmailVerified_def tb_row_set)
qed

text \<open>The bounces counted before suppression are of every kind, soft ones too.\<close>

lemma soft_bounces_suppress:
  assumes "queued_to i ml = Some a" and "ml_events ml = []"
    and "ml2 = snd (handleBounce me 1 a i ''soft'' (snd (handleBounce me 0 a i ''soft'' ml)))"
  shows "fst (handleBounce me 2 a i ''hard'' ml2)"
proof -
  have "queued_to i (ml\<lparr>ml_events := es\<rparr>) = queued_to i ml" for es by (simp add: queued_to_def)
  then show ?thesis
    using assms by (simp add: handleBounce_def recordEvent_def Let_def bounce_count_def HARD_BOUNCE_THRESHOLD_def)
qed

section \<open>The runs on a concrete server\<close>

definition demo_mail :: mail_env where
  "demo_mail = \<lparr>me_enabled = True, me_configured = True, me_random = (\<lambda>n. replicate n (CHR ''t'')),
     me_render = (\<lambda>template _ _ url. Some (template, url)), me_smtp = (\<lambda>_ _. None), me_text = (\<lambda>_. []),
     me_iso = show_int, me_encode = id, me_base = ''https://api'', me_worker = ''w1'', me_rate_limit = 10,
     me_batch_threshold = 5, me_batch_size = 50, me_stale_ms = 600000, me_lock_ms = 300000\<rparr>"

definition demo_run :: "(int \<times> mail_op) list" where
  "demo_run = [(0, QueueMail ''ann@example.org'' ''payment_received'' JNull None),
     (1000, Verify ''GANN'' ''ann@example.org''), (2000, ProcessQueue (\<lambda>_. 2500))]"

lemma demo_run_cancels:
  "map (\<lambda>(_, r). mq_status r) (ml_queue (fold (mail_step demo_mail) demo_run no_mail)) = [MailCancelled, MailCancelled]"
  by code_simp





lemma demo_random_text: "me_random demo_mail n \<noteq> ''PENDING''"
proof
  assume *: "me_random demo_mail n = ''PENDING''"
  have "set (me_random demo_mail n) \<subseteq> {CHR ''t''}" by (auto simp: demo_mail_def)
  then show False unfolding * by simp
qed

lemma mailed_link_never_confirms_example:
  "fst (confirmRoute 3000 ''GANN'' (Some ''PENDING'') (fold (mail_step demo_mail) demo_run no_mail))
    = (400, ''Invalid or unknown token'')"
  by (rule mailed_link_never_confirms) (simp add: demo_random_text)

end
