(* ===== verification/ObjectStore.thy ===== *)
theory ObjectStore
  imports JsBase "HOL-Library.List_Lexorder" "HOL-Library.Char_ord"
begin

text \<open>
  IndexedDB object stores, as the standard describes them: a list of records in ascending
  order of their primary key. \<open>get\<close>, \<open>put\<close>, \<open>add\<close>, \<open>delete\<close> and \<open>getAll\<close> of the
  store are the operations the client calls, each in a transaction of its own, so each is one
  atomic step. The locale states what the clients rely on; the sorted association list
  provides it.
\<close>

datatype idb_error = ConstraintError

type_synonym ('k, 'v) ostore = "('k \<times> 'v) list"

definition os_get :: "('k, 'v) ostore \<Rightarrow> 'k \<Rightarrow> 'v option" where
  "os_get s k = map_of s k"

fun os_put :: "'k::linorder \<Rightarrow> 'v \<Rightarrow> ('k, 'v) ostore \<Rightarrow> ('k, 'v) ostore" where
  "os_put k v [] = [(k, v)]"
| "os_put k v ((k', v') # s) =
     (if k < k' then (k, v) # (k', v') # s
      else if k = k' then (k, v) # s
      else (k', v') # os_put k v s)"

definition os_del :: "'k \<Rightarrow> ('k, 'v) ostore \<Rightarrow> ('k, 'v) ostore" where
  "os_del k s = filter (\<lambda>(k', v). k' \<noteq> k) s"

definition os_all :: "('k, 'v) ostore \<Rightarrow> ('k \<times> 'v) list" where
  "os_all s = s"

definition os_wf :: "('k::linorder, 'v) ostore \<Rightarrow> bool" where
  "os_wf s = sorted_wrt (<) (map fst s)"

text \<open>\<open>add\<close> fails where the key is taken, and the transaction aborts.\<close>

definition os_add :: "'k::linorder \<Rightarrow> 'v \<Rightarrow> ('k, 'v) ostore \<Rightarrow> idb_error + ('k, 'v) ostore" where
  "os_add k v s = (if os_get s k = None then Inr (os_put k v s) else Inl ConstraintError)"

abbreviation os_values :: "('k, 'v) ostore \<Rightarrow> 'v list" where
  "os_values s \<equiv> map snd s"

locale object_store =
  fixes get :: "'s \<Rightarrow> 'k::linorder \<Rightarrow> 'v option"
    and put :: "'k \<Rightarrow> 'v \<Rightarrow> 's \<Rightarrow> 's"
    and del :: "'k \<Rightarrow> 's \<Rightarrow> 's"
    and all :: "'s \<Rightarrow> ('k \<times> 'v) list"
    and wf :: "'s \<Rightarrow> bool"
  assumes wf_put: "wf s \<Longrightarrow> wf (put k v s)"
    and wf_del: "wf s \<Longrightarrow> wf (del k s)"
    and get_put: "get (put k v s) = (get s)(k \<mapsto> v)"
    and get_del: "get (del k s) = (get s)(k := None)"
    and all_sorted: "wf s \<Longrightarrow> sorted_wrt (<) (map fst (all s))"
    and all_get: "get s = map_of (all s)"
begin

lemma all_distinct: "wf s \<Longrightarrow> distinct (map fst (all s))"
  using all_sorted strict_sorted_iff by blast

lemma in_all_iff: "wf s \<Longrightarrow> (k, v) \<in> set (all s) \<longleftrightarrow> get s k = Some v"
  by (simp add: all_get all_distinct)

lemma all_eqI: "wf s \<Longrightarrow> wf t \<Longrightarrow> get s = get t \<Longrightarrow> all s = all t"
proof (rule map_sorted_distinct_set_unique [where f = fst])
  assume wf: "wf s" "wf t" and eq: "get s = get t"
  show "inj_on fst (set (all s) \<union> set (all t))"
    by (rule inj_onI) (use wf eq in \<open>auto simp: in_all_iff\<close>)
  show "sorted (map fst (all s))" "distinct (map fst (all s))"
    "sorted (map fst (all t))" "distinct (map fst (all t))"
    using wf all_sorted strict_sorted_iff by blast+
  show "set (all s) = set (all t)"
    using wf eq by (auto simp: in_all_iff)
qed

lemma values_put:
  "wf s \<Longrightarrow> P v \<Longrightarrow> (\<And>k' v'. get s k' = Some v' \<Longrightarrow> P v') \<Longrightarrow>
    get (put k v s) k' = Some v' \<Longrightarrow> P v'"
  by (auto simp: get_put split: if_splits)

lemma length_all: "wf s \<Longrightarrow> length (all s) = card (dom (get s))"
proof -
  assume "wf s"
  then have "length (all s) = card (set (map fst (all s)))"
    using all_distinct distinct_card length_map by metis
  also have "set (map fst (all s)) = dom (get s)"
    by (simp add: all_get dom_map_of_conv_image_fst)
  finally show ?thesis .
qed

lemma finite_dom: "finite (dom (get s))"
  by (simp add: all_get finite_dom_map_of)

lemma length_put_fresh: "wf s \<Longrightarrow> get s k = None \<Longrightarrow> length (all (put k v s)) = Suc (length (all s))"
  by (simp add: length_all wf_put get_put card_insert_if domIff finite_dom [of s])

lemma length_put_same: "wf s \<Longrightarrow> get s k = Some w \<Longrightarrow> length (all (put k v s)) = length (all s)"
  by (simp add: length_all wf_put get_put insert_absorb domIff)

lemma length_del: "wf s \<Longrightarrow> get s k = Some w \<Longrightarrow> Suc (length (all (del k s))) = length (all s)"
proof -
  assume wf: "wf s" and k: "get s k = Some w"
  have "dom (get (del k s)) = dom (get s) - {k}"
    by (auto simp: get_del)
  moreover have "k \<in> dom (get s)"
    using k by auto
  ultimately show ?thesis
    using wf card_Suc_Diff1 [OF finite_dom] by (metis length_all wf_del)
qed

end

lemma map_of_os_put [simp]: "map_of (os_put k v s) = (map_of s)(k \<mapsto> v)"
  by (induction s) auto

lemma keys_os_put: "fst ` set (os_put k v s) = insert k (fst ` set s)"
proof (induction s)
  case (Cons p s)
  then show ?case by (cases p) (simp add: insert_commute)
qed simp

lemma os_wf_put: "os_wf s \<Longrightarrow> os_wf (os_put k v s)"
proof (induction s)
  case (Cons p s)
  have "\<forall>x \<in> fst ` set (os_put k v s). fst p < x" if "fst p < k"
    using that Cons.prems keys_os_put [of k v s] by (auto simp: os_wf_def)
  with Cons show ?case by (cases p) (auto simp: os_wf_def)
qed (simp add: os_wf_def)

lemma os_wf_filter: "os_wf s \<Longrightarrow> os_wf (filter P s)"
  by (induction s) (auto simp: os_wf_def)

lemma map_of_os_del: "map_of (os_del k s) = (map_of s)(k := None)"
  by (induction s) (auto simp: os_del_def fun_eq_iff)

interpretation idb: object_store os_get os_put os_del os_all os_wf
proof
  show "os_get (os_put k v s) = (os_get s)(k \<mapsto> v)" for k :: 'a and v :: 'b and s
    by (simp add: os_get_def fun_eq_iff)
  show "os_get (os_del k s) = (os_get s)(k := None)" for k :: 'a and s :: "('a, 'b) ostore"
    by (simp add: os_get_def fun_eq_iff map_of_os_del)
  show "os_wf (os_del k s)" if "os_wf s" for k :: 'a and s :: "('a, 'b) ostore"
    using that by (simp add: os_del_def os_wf_filter)
qed (auto simp: os_get_def os_all_def fun_eq_iff os_wf_put, simp add: os_wf_def)

lemmas idb_get = idb.get_put idb.get_del

lemma os_wf_Nil [simp]: "os_wf []"
  by (simp add: os_wf_def)

lemma os_get_Nil [simp]: "os_get [] k = None"
  by (simp add: os_get_def)

lemma os_get_iff: "os_wf s \<Longrightarrow> os_get s k = Some v \<longleftrightarrow> (k, v) \<in> set s"
  using idb.in_all_iff [of s k v] by (simp add: os_all_def)

lemma os_eqI: "os_wf s \<Longrightarrow> os_wf t \<Longrightarrow> os_get s = os_get t \<Longrightarrow> s = t"
  using idb.all_eqI [of s t] by (simp add: os_all_def)

lemma os_put_same: "os_wf s \<Longrightarrow> os_get s k = Some v \<Longrightarrow> os_put k v s = s"
  by (rule os_eqI) (auto simp: os_wf_put idb_get)

lemma os_wf_del: "os_wf s \<Longrightarrow> os_wf (os_del k s)"
  by (rule idb.wf_del)

end
