(* ===== verification/OfflineQueue.thy ===== *)
theory OfflineQueue
  imports ObjectStore JsNet
begin

text \<open>
  The generic offline queue of \<open>frontend/lib/offlineQueue.ts\<close>: the entries store, the
  coercion of stored records, the queue operations, the claim, and one drain of the queue.
  Every function takes the reading of \<open>Date.now()\<close> it makes; what the network, the wallet
  and the transaction builder answer comes from a \<open>net_env\<close>.
\<close>

section \<open>Constants and types\<close>

definition MAX_RETRIES :: int where
  "MAX_RETRIES = 3"

definition BASE_RETRY_DELAY_MS :: int where
  "BASE_RETRY_DELAY_MS = 1000"

definition MAX_RETRY_DELAY_MS :: int where
  "MAX_RETRY_DELAY_MS = 30000"

definition PROCESSING_STALE_MS :: int where
  "PROCESSING_STALE_MS = 30000"

definition PAYMENT_ENTRY_TYPE :: string where
  "PAYMENT_ENTRY_TYPE = ''payment''"

datatype queue_status = Pending | Processing | Failed

record queue_entry =
  qe_id :: string
  qe_type :: string
  qe_payload :: jsval
  qe_createdAt :: jsnum
  qe_status :: queue_status
  qe_retryCount :: int
  qe_lastError :: "string option"
  qe_lastAttemptAt :: "jsnum option"
  qe_nextRetryAt :: "jsnum option"

record drain_result =
  dr_submitted :: nat
  dr_failed :: nat
  dr_exhausted :: nat
  dr_remaining :: nat

type_synonym entry_store = "(string, jsval) ostore"

section \<open>Backoff\<close>

definition backoffDelayMs :: "int \<Rightarrow> int" where
  "backoffDelayMs retryCount =
     (let exponent = max 0 retryCount
      in min (BASE_RETRY_DELAY_MS * 2 ^ nat exponent) MAX_RETRY_DELAY_MS)"

section \<open>Stored records\<close>

fun status_js :: "queue_status \<Rightarrow> string" where
  "status_js Pending = ''pending''"
| "status_js Processing = ''processing''"
| "status_js Failed = ''failed''"

definition read_status :: "jsval \<Rightarrow> queue_status" where
  "read_status v =
     (if v = JString ''pending'' then Pending
      else if v = JString ''processing'' then Processing
      else Failed)"

definition read_retryCount :: "jsval \<Rightarrow> int" where
  "read_retryCount v = (case v of JNumber (Fin r) \<Rightarrow> max 0 \<lfloor>r\<rfloor> | _ \<Rightarrow> 0)"

definition sanitizeEntry :: "int \<Rightarrow> jsval \<Rightarrow> queue_entry option" where
  "sanitizeEntry now raw =
     (if \<not> is_object raw then None
      else case (jprop raw ''id'', jprop raw ''type'') of
        (JString i, JString t) \<Rightarrow>
          Some \<lparr>qe_id = i, qe_type = t,
            qe_payload = (if has_prop raw ''payload'' then jprop raw ''payload'' else JNull),
            qe_createdAt = (case as_number (jprop raw ''createdAt'') of
                Some n \<Rightarrow> n | None \<Rightarrow> ms now),
            qe_status = read_status (jprop raw ''status''),
            qe_retryCount = read_retryCount (jprop raw ''retryCount''),
            qe_lastError = as_string (jprop raw ''lastError''),
            qe_lastAttemptAt = as_number (jprop raw ''lastAttemptAt''),
            qe_nextRetryAt = as_number (jprop raw ''nextRetryAt'')\<rparr>
      | _ \<Rightarrow> None)"

text \<open>The object an entry is stored as; an absent optional field is an absent property.\<close>

definition optional :: "string \<Rightarrow> jsval option \<Rightarrow> (string \<times> jsval) list" where
  "optional k v = (case v of None \<Rightarrow> [] | Some x \<Rightarrow> [(k, x)])"

definition entry_js :: "queue_entry \<Rightarrow> jsval" where
  "entry_js e = JObject
     ([(''id'', JString (qe_id e)), (''type'', JString (qe_type e)),
       (''payload'', qe_payload e), (''createdAt'', JNumber (qe_createdAt e)),
       (''status'', JString (status_js (qe_status e))),
       (''retryCount'', JNumber (ms (qe_retryCount e)))]
      @ optional ''lastError'' (map_option JString (qe_lastError e))
      @ optional ''lastAttemptAt'' (map_option JNumber (qe_lastAttemptAt e))
      @ optional ''nextRetryAt'' (map_option JNumber (qe_nextRetryAt e)))"

definition put_entry :: "queue_entry \<Rightarrow> entry_store \<Rightarrow> entry_store" where
  "put_entry e s = os_put (qe_id e) (entry_js e) s"

section \<open>Queue operations\<close>

definition new_entry :: "string \<Rightarrow> int \<Rightarrow> string \<Rightarrow> jsval \<Rightarrow> queue_entry" where
  "new_entry i now type payload =
     \<lparr>qe_id = i, qe_type = type, qe_payload = payload, qe_createdAt = ms now,
      qe_status = Pending, qe_retryCount = 0, qe_lastError = None,
      qe_lastAttemptAt = None, qe_nextRetryAt = None\<rparr>"

text \<open>\<open>i\<close> is the id \<open>generateId\<close> returned; a taken id aborts the transaction.\<close>

definition enqueue ::
  "string \<Rightarrow> int \<Rightarrow> string \<Rightarrow> jsval \<Rightarrow> entry_store \<Rightarrow> idb_error + (string \<times> entry_store)" where
  "enqueue i now type payload s =
     (let entry = new_entry i now type payload
      in case os_add (qe_id entry) (entry_js entry) s of
           Inl e \<Rightarrow> Inl e
         | Inr s' \<Rightarrow> Inr (qe_id entry, s'))"

text \<open>
  The cursor over the \<open>createdAt\<close> index: the records whose \<open>createdAt\<close> is a valid number
  key, by that key and then by primary key.
\<close>

fun index_key :: "jsval \<Rightarrow> jsnum option" where
  "index_key v = (case jprop v ''createdAt'' of
      JNumber n \<Rightarrow> if n = JsNaN then None else Some n | _ \<Rightarrow> None)"

definition createdAt_index :: "entry_store \<Rightarrow> entry_store" where
  "createdAt_index s =
     sort_key (\<lambda>p. the (index_key (snd p))) (filter (\<lambda>p. index_key (snd p) \<noteq> None) s)"

fun dequeue_cursor :: "int \<Rightarrow> entry_store \<Rightarrow> entry_store \<Rightarrow> queue_entry option \<times> entry_store" where
  "dequeue_cursor now [] s = (None, s)"
| "dequeue_cursor now ((k, v) # rest) s =
     (case sanitizeEntry now v of
        None \<Rightarrow> dequeue_cursor now rest s
      | Some e \<Rightarrow>
          if qe_status e \<noteq> Pending then dequeue_cursor now rest s
          else let claimed = e\<lparr>qe_status := Processing, qe_lastAttemptAt := Some (ms now)\<rparr>
               in (Some claimed, os_put k (entry_js claimed) s))"

definition dequeue :: "int \<Rightarrow> entry_store \<Rightarrow> queue_entry option \<times> entry_store" where
  "dequeue now s = dequeue_cursor now (createdAt_index s) s"

definition remove :: "string \<Rightarrow> entry_store \<Rightarrow> entry_store" where
  "remove i s = os_del i s"

definition getAll :: "int \<Rightarrow> entry_store \<Rightarrow> queue_entry list" where
  "getAll now s =
     js_sort (\<lambda>a b. num_sub (qe_createdAt a) (qe_createdAt b))
       (List.map_filter (sanitizeEntry now) (os_values s))"

definition peek :: "int \<Rightarrow> entry_store \<Rightarrow> queue_entry option" where
  "peek now s = List.find (\<lambda>e. qe_status e = Pending) (getAll now s)"

definition getFailed :: "int \<Rightarrow> entry_store \<Rightarrow> queue_entry list" where
  "getFailed now s = filter (\<lambda>e. qe_status e = Failed) (getAll now s)"

definition getPendingCount :: "int \<Rightarrow> entry_store \<Rightarrow> nat" where
  "getPendingCount now s = length (getAll now s)"

section \<open>Claiming and updating\<close>

definition isRetryable :: "queue_entry \<Rightarrow> int \<Rightarrow> bool" where
  "isRetryable e now =
     (if qe_status e = Processing then False
      else if qe_retryCount e \<ge> MAX_RETRIES then False
      else if (case qe_nextRetryAt e of None \<Rightarrow> False | Some t \<Rightarrow> num_less (ms now) t) then False
      else qe_status e = Pending \<or> qe_status e = Failed)"

text \<open>A partial update \<open>{...current, ...patch}\<close> is a record update.\<close>

definition updateEntry ::
  "int \<Rightarrow> string \<Rightarrow> (queue_entry \<Rightarrow> queue_entry) \<Rightarrow> entry_store \<Rightarrow> entry_store" where
  "updateEntry now i patch s =
     (case os_get s i of
        None \<Rightarrow> s
      | Some raw \<Rightarrow>
          (case sanitizeEntry now raw of
             None \<Rightarrow> s
           | Some current \<Rightarrow> put_entry (patch current) s))"

definition claimEntry :: "int \<Rightarrow> string \<Rightarrow> entry_store \<Rightarrow> bool \<times> entry_store" where
  "claimEntry now i s =
     (case Option.bind (os_get s i) (sanitizeEntry now) of
        None \<Rightarrow> (False, s)
      | Some e \<Rightarrow>
          if (qe_status e \<noteq> Pending \<and> qe_status e \<noteq> Failed) \<or> qe_retryCount e \<ge> MAX_RETRIES
          then (False, s)
          else (True, put_entry (e\<lparr>qe_status := Processing, qe_lastAttemptAt := Some (ms now)\<rparr>) s))"

definition is_stuck :: "int \<Rightarrow> queue_entry \<Rightarrow> bool" where
  "is_stuck now e = (qe_status e = Processing \<and>
     (case qe_lastAttemptAt e of
        None \<Rightarrow> True
      | Some t \<Rightarrow> num_less (ms PROCESSING_STALE_MS) (num_sub (ms now) t)))"

definition recoverStuckEntries :: "int \<Rightarrow> entry_store \<Rightarrow> entry_store" where
  "recoverStuckEntries now s =
     fold (\<lambda>e. updateEntry now (qe_id e) (\<lambda>c. c\<lparr>qe_status := Pending\<rparr>))
       (filter (is_stuck now) (getAll now s)) s"

section \<open>Submission\<close>

record pay_request =
  pr_from :: jsval
  pr_to :: jsval
  pr_amount :: jsval
  pr_memo :: jsval
  pr_asset :: jsval

text \<open>
  What the outside answers: \<open>fetch\<close> of a POST, the transaction builder (its XDR or the
  message it throws), the wallet (signed XDR and error, each possibly absent), and
  \<open>String(v)\<close> of a value that is not a string.
\<close>

record net_env =
  post_tx :: "string \<Rightarrow> fetch_result"
  build_tx :: "pay_request \<Rightarrow> string + string"
  sign_tx :: "string \<Rightarrow> string option \<times> string option"
  to_text :: "jsval \<Rightarrow> string"

definition submitXDRToHorizon :: "net_env \<Rightarrow> string \<Rightarrow> string + unit" where
  "submitXDRToHorizon env xdr =
     (case post_tx env xdr of
        FetchThrows m \<Rightarrow> Inl m
      | Responded r \<Rightarrow>
          if resp_ok r then Inr ()
          else
            (let detail = (case resp_json r of
                   None \<Rightarrow> JString (resp_statusText r)
                 | Some json \<Rightarrow>
                     coalesce (jprop (jprop (jprop json ''extras'') ''result_codes'') ''transaction'')
                       (coalesce (jprop json ''detail'') (JString (resp_statusText r))))
             in Inl (''Horizon error '' @ show_int (resp_status r) @ '': '' @
                  (case detail of JString t \<Rightarrow> t | v \<Rightarrow> to_text env v))))"

definition processPaymentEntry :: "net_env \<Rightarrow> jsval \<Rightarrow> string + unit" where
  "processPaymentEntry env payload =
     (let safe = payload
      in case jprop safe ''signedXDR'' of
        JString (c # cs) \<Rightarrow> submitXDRToHorizon env (c # cs)
      | _ \<Rightarrow>
        if \<not> truthy (jprop safe ''from'') \<or> \<not> truthy (jprop safe ''destination'')
        then Inl ''Queued payment is missing a sender or destination.''
        else if \<not> truthy (jprop safe ''amount'')
        then Inl ''Queued payment is missing an amount.''
        else
          (case build_tx env
              \<lparr>pr_from = jprop safe ''from'', pr_to = jprop safe ''destination'',
               pr_amount = jprop safe ''amount'', pr_memo = jprop safe ''memo'',
               pr_asset = coalesce (jprop safe ''asset'') (JString ''XLM'')\<rparr> of
             Inl m \<Rightarrow> Inl m
           | Inr xdr \<Rightarrow>
               (case sign_tx env xdr of
                  (signed, err) \<Rightarrow>
                    if (err \<noteq> None \<and> err \<noteq> Some []) \<or> signed = None \<or> signed = Some []
                    then Inl (if err \<noteq> None \<and> err \<noteq> Some [] then the err
                              else ''Transaction signing failed.'')
                    else submitXDRToHorizon env (the signed))))"

definition processEntry :: "net_env \<Rightarrow> queue_entry \<Rightarrow> string + unit" where
  "processEntry env e =
     (if qe_type e = PAYMENT_ENTRY_TYPE then processPaymentEntry env (qe_payload e)
      else case jprop (qe_payload e) ''signedXDR'' of
        JString xdr \<Rightarrow> submitXDRToHorizon env xdr
      | _ \<Rightarrow> Inl (''No processor registered for queue entry type \"'' @ qe_type e @ ''\".''))"

section \<open>One drain\<close>

text \<open>
  The \<open>i\<close>-th attempt of a drain: the clock at its claim and at its failure, and the answers
  it gets.
\<close>

record attempt =
  at_claim :: int
  at_fail :: int
  at_env :: net_env

definition fail_patch :: "int \<Rightarrow> string \<Rightarrow> int \<Rightarrow> queue_entry \<Rightarrow> queue_entry" where
  "fail_patch now message retryCount c =
     c\<lparr>qe_status := Failed, qe_retryCount := retryCount, qe_lastError := Some message,
       qe_lastAttemptAt := Some (ms now), qe_nextRetryAt := Some (ms (now + backoffDelayMs retryCount))\<rparr>"

definition attempt_entry ::
  "attempt \<Rightarrow> queue_entry \<Rightarrow> entry_store \<times> drain_result \<Rightarrow> entry_store \<times> drain_result" where
  "attempt_entry att e sr =
     (case sr of (s, r) \<Rightarrow>
        (case claimEntry (at_claim att) (qe_id e) s of
           (False, s1) \<Rightarrow> (s1, r)
         | (True, s1) \<Rightarrow>
             (case processEntry (at_env att) e of
                Inr u \<Rightarrow> (remove (qe_id e) s1, r\<lparr>dr_submitted := Suc (dr_submitted r)\<rparr>)
              | Inl message \<Rightarrow>
                  (let retryCount = qe_retryCount e + 1;
                       s2 = updateEntry (at_fail att) (qe_id e)
                              (fail_patch (at_fail att) message retryCount) s1
                   in if retryCount \<ge> MAX_RETRIES
                      then (s2, r\<lparr>dr_exhausted := Suc (dr_exhausted r)\<rparr>)
                      else (s2, r\<lparr>dr_failed := Suc (dr_failed r)\<rparr>)))))"

fun drain_loop ::
  "(nat \<Rightarrow> attempt) \<Rightarrow> nat \<Rightarrow> queue_entry list \<Rightarrow> entry_store \<times> drain_result \<Rightarrow> entry_store \<times> drain_result"
where
  "drain_loop att i [] sr = sr"
| "drain_loop att i (e # es) sr = drain_loop att (Suc i) es (attempt_entry (att i) e sr)"

definition empty_result :: drain_result where
  "empty_result = \<lparr>dr_submitted = 0, dr_failed = 0, dr_exhausted = 0, dr_remaining = 0\<rparr>"

text \<open>\<open>None\<close> is an IndexedDB that does not open.\<close>

definition processGenericQueue ::
  "int \<Rightarrow> (nat \<Rightarrow> attempt) \<Rightarrow> entry_store option \<Rightarrow> drain_result \<times> entry_store option" where
  "processGenericQueue now att db =
     (case db of
        None \<Rightarrow> (empty_result, None)
      | Some s \<Rightarrow>
          (let s0 = recoverStuckEntries now s;
               entries = getAll now s0;
               eligible = filter (\<lambda>e. isRetryable e now) entries
           in case drain_loop att 0 eligible (s0, empty_result) of
                (s1, r) \<Rightarrow> (r\<lparr>dr_remaining := length (getAll now s1)\<rparr>, Some s1)))"

section \<open>The stored form\<close>

lemma read_status_js [simp]: "read_status (JString (status_js st)) = st"
  by (cases st) (simp_all add: read_status_def)

lemma read_retryCount_ms [simp]: "0 \<le> n \<Longrightarrow> read_retryCount (JNumber (ms n)) = n"
  by (simp add: read_retryCount_def)

lemma read_retryCount_nonneg: "0 \<le> read_retryCount v"
  by (auto simp: read_retryCount_def split: jsval.splits jsnum.splits)

lemma sanitizeEntry_entry_js:
  "0 \<le> qe_retryCount e \<Longrightarrow> sanitizeEntry now (entry_js e) = Some e"
  by (cases e; cases "qe_lastError e"; cases "qe_lastAttemptAt e"; cases "qe_nextRetryAt e")
    (simp_all add: sanitizeEntry_def entry_js_def optional_def)

lemma sanitizeEntry_retryCount: "sanitizeEntry now raw = Some e \<Longrightarrow> 0 \<le> qe_retryCount e"
  by (auto simp: sanitizeEntry_def read_retryCount_nonneg split: if_splits jsval.splits)

lemma sanitizeEntry_id: "sanitizeEntry now raw = Some e \<Longrightarrow> jprop raw ''id'' = JString (qe_id e)"
  by (auto simp: sanitizeEntry_def split: if_splits jsval.splits)

text \<open>Whatever a record held, the entry read from it is stored and read back unchanged:
coercion is idempotent, whenever the second read happens.\<close>

lemma sanitizeEntry_roundtrip:
  assumes "sanitizeEntry now raw = Some e"
  shows "sanitizeEntry later (entry_js e) = Some e"
  using assms by (intro sanitizeEntry_entry_js sanitizeEntry_retryCount)

theorem sanitizeEntry_roundtrip_example:
  "sanitizeEntry 9 (entry_js \<lparr>qe_id = ''a'', qe_type = ''payment'', qe_payload = JNull,
     qe_createdAt = ms 7, qe_status = Failed, qe_retryCount = 0, qe_lastError = None,
     qe_lastAttemptAt = None, qe_nextRetryAt = None\<rparr>) \<noteq> None"
proof -
  have "sanitizeEntry 7 (JObject [(''id'', JString ''a''), (''type'', JString ''payment''),
      (''retryCount'', JNumber JsNaN)]) =
    Some \<lparr>qe_id = ''a'', qe_type = ''payment'', qe_payload = JNull,
     qe_createdAt = ms 7, qe_status = Failed, qe_retryCount = 0, qe_lastError = None,
     qe_lastAttemptAt = None, qe_nextRetryAt = None\<rparr>"
    by (simp add: sanitizeEntry_def read_status_def read_retryCount_def)
  from sanitizeEntry_roundtrip [OF this, of 9] show ?thesis by simp
qed

section \<open>The queue as a map from ids to entries\<close>

text \<open>
  A store is clean when every record is the stored form of an entry under its own id, with a
  creation time that orders and a retry count within the limit. The abstraction of a clean
  store is a finite map, and every operation is refined by a map update.
\<close>

definition entry_ok :: "queue_entry \<Rightarrow> bool" where
  "entry_ok e \<longleftrightarrow> qe_createdAt e \<noteq> JsNaN \<and> 0 \<le> qe_retryCount e \<and> qe_retryCount e \<le> MAX_RETRIES"

definition clean :: "entry_store \<Rightarrow> bool" where
  "clean s \<longleftrightarrow> os_wf s \<and>
     (\<forall>k v. os_get s k = Some v \<longrightarrow> (\<exists>e. v = entry_js e \<and> qe_id e = k \<and> entry_ok e))"

definition absq :: "entry_store \<Rightarrow> string \<Rightarrow> queue_entry option" where
  "absq s k = Option.bind (os_get s k) (sanitizeEntry 0)"

lemma entry_okD: "entry_ok e \<Longrightarrow> 0 \<le> qe_retryCount e"
  by (simp add: entry_ok_def)

lemma sanitize_ok [simp]: "entry_ok e \<Longrightarrow> sanitizeEntry now (entry_js e) = Some e"
  by (simp add: sanitizeEntry_entry_js entry_okD)

lemma clean_wf: "clean s \<Longrightarrow> os_wf s"
  by (simp add: clean_def)

lemma clean_getE:
  assumes "clean s" "os_get s k = Some v"
  obtains e where "v = entry_js e" "qe_id e = k" "entry_ok e"
  using assms by (auto simp: clean_def)

lemma clean_get:
  assumes "clean s"
  shows "os_get s k = map_option entry_js (absq s k)"
  using assms by (cases "os_get s k") (auto simp: absq_def elim: clean_getE)

lemma clean_sanitize:
  assumes "clean s"
  shows "Option.bind (os_get s k) (sanitizeEntry now) = absq s k"
  using assms by (cases "os_get s k") (auto simp: absq_def elim: clean_getE)

lemma absq_ok: "clean s \<Longrightarrow> absq s k = Some e \<Longrightarrow> entry_ok e \<and> qe_id e = k"
  by (cases "os_get s k") (auto simp: absq_def elim: clean_getE)

lemma clean_empty [simp]: "clean []" "absq [] = Map.empty"
  by (simp_all add: clean_def absq_def fun_eq_iff)

lemma clean_put: "clean s \<Longrightarrow> entry_ok e \<Longrightarrow> clean (put_entry e s)"
  by (auto simp: clean_def put_entry_def os_wf_put idb_get)

lemma absq_put: "entry_ok e \<Longrightarrow> absq (put_entry e s) = (absq s)(qe_id e \<mapsto> e)"
  by (auto simp: absq_def put_entry_def idb_get fun_eq_iff)

lemma clean_remove: "clean s \<Longrightarrow> clean (remove i s)"
  by (auto simp: clean_def remove_def os_wf_del idb_get)

lemma absq_remove: "absq (remove i s) = (absq s)(i := None)"
  by (auto simp: absq_def remove_def idb_get fun_eq_iff)

lemma absq_eq_iff: "clean s \<Longrightarrow> clean t \<Longrightarrow> absq s = absq t \<Longrightarrow> s = t"
  by (rule os_eqI) (auto simp: clean_get clean_wf fun_eq_iff)

text \<open>The records of a clean store, read as entries.\<close>

lemma clean_entries:
  assumes "clean s"
  shows "\<exists>es. s = map (\<lambda>e. (qe_id e, entry_js e)) es \<and> (\<forall>e \<in> set es. entry_ok e) \<and>
     distinct (map qe_id es)"
proof -
  have "\<exists>e. p = (qe_id e, entry_js e) \<and> entry_ok e" if "p \<in> set s" for p
    using assms that os_get_iff [of s "fst p" "snd p"] by (cases p) (auto simp: clean_def)
  then obtain f where f: "\<And>p. p \<in> set s \<Longrightarrow> p = (qe_id (f p), entry_js (f p)) \<and> entry_ok (f p)"
    by metis
  have s: "s = map (\<lambda>e. (qe_id e, entry_js e)) (map f s)"
    unfolding map_map by (rule map_idI [symmetric]) (use f in auto)
  have "distinct (map fst s)"
    using idb.all_distinct [OF clean_wf [OF assms]] by (simp add: os_all_def)
  moreover have "map fst s = map qe_id (map f s)"
    by (subst s) simp
  ultimately have "distinct (map qe_id (map f s))"
    by simp
  with s f show ?thesis by (intro exI [of _ "map f s"]) auto
qed

lemma map_filter_sanitize:
  assumes "\<forall>e \<in> set es. entry_ok e"
  shows "List.map_filter (sanitizeEntry now) (map snd (map (\<lambda>e. (qe_id e, entry_js e)) es)) = es"
  using assms by (induction es) (simp_all add: List.map_filter_simps)

lemma getAll_entries:
  assumes "\<forall>e \<in> set es. entry_ok e"
  shows "getAll now (map (\<lambda>e. (qe_id e, entry_js e)) es) = sort_key qe_createdAt es"
  unfolding getAll_def map_filter_sanitize [OF assms]
  by (rule js_sort_jsnum) (use assms in \<open>auto simp: entry_ok_def\<close>)

lemma getAll_set:
  assumes "clean s"
  shows "set (getAll now s) = ran (absq s)"
proof -
  obtain es where s: "s = map (\<lambda>e. (qe_id e, entry_js e)) es" and ok: "\<forall>e \<in> set es. entry_ok e"
    using clean_entries [OF assms] by blast
  have "e \<in> set es \<longleftrightarrow> e \<in> ran (absq s)" for e
  proof
    assume e: "e \<in> set es"
    then have "(qe_id e, entry_js e) \<in> set s" by (simp add: s)
    with assms have "os_get s (qe_id e) = Some (entry_js e)"
      by (simp add: os_get_iff clean_wf)
    with e ok show "e \<in> ran (absq s)"
      by (intro ranI [of _ "qe_id e"]) (simp add: absq_def)
  next
    assume "e \<in> ran (absq s)"
    then obtain k where k: "absq s k = Some e" by (auto simp: ran_def)
    with assms have "(k, entry_js e) \<in> set s"
      using clean_get [OF assms, of k] by (simp add: os_get_iff clean_wf)
    then obtain e' where e': "e' \<in> set es" "entry_js e' = entry_js e" by (auto simp: s)
    moreover have "entry_ok e" using absq_ok [OF assms k] by simp
    ultimately have "e' = e" using ok by (metis option.inject sanitize_ok)
    with e' show "e \<in> set es" by simp
  qed
  then show ?thesis using ok by (auto simp: s getAll_entries)
qed

lemma getAll_distinct:
  assumes "clean s"
  shows "distinct (map qe_id (getAll now s))"
proof -
  obtain es where s: "s = map (\<lambda>e. (qe_id e, entry_js e)) es" and ok: "\<forall>e \<in> set es. entry_ok e"
    and d: "distinct (map qe_id es)"
    using clean_entries [OF assms] by blast
  with d show ?thesis by (simp add: s getAll_entries [OF ok])
qed

lemma getAll_absq: "clean s \<Longrightarrow> e \<in> set (getAll now s) \<Longrightarrow> absq s (qe_id e) = Some e"
  unfolding getAll_set by (auto simp: ran_def dest: absq_ok)

section \<open>Enqueue, dequeue, claim and update on the map\<close>

definition claimed :: "int \<Rightarrow> queue_entry \<Rightarrow> queue_entry" where
  "claimed now e = e\<lparr>qe_status := Processing, qe_lastAttemptAt := Some (ms now)\<rparr>"

lemma claimed_simps [simp]:
  "qe_id (claimed now e) = qe_id e"
  "qe_status (claimed now e) = Processing"
  "qe_retryCount (claimed now e) = qe_retryCount e"
  "qe_createdAt (claimed now e) = qe_createdAt e"
  "qe_lastAttemptAt (claimed now e) = Some (ms now)"
  by (simp_all add: claimed_def)

lemma entry_ok_claimed [simp]: "entry_ok (claimed now e) = entry_ok e"
  by (simp add: entry_ok_def)

lemma entry_ok_status [simp]: "entry_ok (e\<lparr>qe_status := st\<rparr>) = entry_ok e"
  by (simp add: entry_ok_def)

lemma entry_ok_new [simp]: "entry_ok (new_entry i now type payload)"
  by (simp add: entry_ok_def new_entry_def MAX_RETRIES_def)

lemma enqueue_absq:
  assumes "clean s"
  shows "enqueue i now type payload s =
     (if absq s i = None then Inr (i, put_entry (new_entry i now type payload) s)
      else Inl ConstraintError)"
  using clean_get [OF assms, of i]
  by (simp add: enqueue_def os_add_def Let_def put_entry_def new_entry_def)

lemma claimEntry_absq:
  assumes "clean s"
  shows "claimEntry now i s =
     (case absq s i of
        None \<Rightarrow> (False, s)
      | Some e \<Rightarrow>
          if qe_status e = Processing \<or> qe_retryCount e \<ge> MAX_RETRIES then (False, s)
          else (True, put_entry (claimed now e) s))"
proof -
  have "(qe_status e \<noteq> Pending \<and> qe_status e \<noteq> Failed) = (qe_status e = Processing)" for e
    by (cases "qe_status e") simp_all
  then show ?thesis
    by (auto simp: claimEntry_def clean_sanitize [OF assms] claimed_def split: option.split)
qed

lemma updateEntry_absq:
  assumes "clean s"
  shows "updateEntry now i patch s =
     (case absq s i of None \<Rightarrow> s | Some e \<Rightarrow> put_entry (patch e) s)"
  using clean_sanitize [OF assms, of i now]
  by (cases "os_get s i") (auto simp: updateEntry_def split: option.splits)

lemma find_map: "List.find P (map f xs) = map_option f (List.find (P \<circ> f) xs)"
  by (induction xs) simp_all

lemma dequeue_cursor_entries:
  assumes "\<forall>e \<in> set es. entry_ok e"
  shows "dequeue_cursor now (map (\<lambda>e. (qe_id e, entry_js e)) es) s =
     (case List.find (\<lambda>e. qe_status e = Pending) es of
        None \<Rightarrow> (None, s) | Some e \<Rightarrow> (Some (claimed now e), put_entry (claimed now e) s))"
  using assms by (induction es) (auto simp: claimed_def put_entry_def Let_def)

lemma createdAt_index_entries:
  assumes "\<forall>e \<in> set es. entry_ok e"
  shows "createdAt_index (map (\<lambda>e. (qe_id e, entry_js e)) es) =
     map (\<lambda>e. (qe_id e, entry_js e)) (sort_key qe_createdAt es)"
proof -
  let ?f = "\<lambda>e. (qe_id e, entry_js e)" and ?k = "\<lambda>p. the (index_key (snd p))"
  have key: "index_key (entry_js e) = Some (qe_createdAt e)" if "entry_ok e" for e
    using that by (simp add: entry_js_def entry_ok_def)
  have "filter (\<lambda>p. index_key (snd p) \<noteq> None) (map ?f es) = map ?f es"
    unfolding filter_id_conv using assms key by auto
  moreover have "sort_key (\<lambda>e. ?k (?f e)) es = sort_key qe_createdAt es"
    by (rule sort_key_same) (use assms key in auto)
  moreover have "sort_key ?k (map ?f es) = map ?f (sort_key (\<lambda>e. ?k (?f e)) es)"
    by (rule map_sort_key [of ?f ?k es, symmetric])
  ultimately show ?thesis
    by (simp only: createdAt_index_def)
qed

text \<open>On a clean queue, \<open>dequeue\<close> claims exactly the entry \<open>peek\<close> shows: the cursor
over the \<open>createdAt\<close> index and the sorted scan of all records agree on what is oldest, ties
included, and nothing else in the store changes.\<close>

lemma dequeue_claims_peek:
  assumes "clean s"
  shows "dequeue now s =
     (case peek now s of
        None \<Rightarrow> (None, s)
      | Some e \<Rightarrow> (Some (claimed now e), put_entry (claimed now e) s))"
proof -
  obtain es where s: "s = map (\<lambda>e. (qe_id e, entry_js e)) es" and ok: "\<forall>e \<in> set es. entry_ok e"
    using clean_entries [OF assms] by blast
  have "peek now s = List.find (\<lambda>e. qe_status e = Pending) (sort_key qe_createdAt es)"
    by (simp add: peek_def s getAll_entries [OF ok])
  moreover have "dequeue now s =
     dequeue_cursor now (map (\<lambda>e. (qe_id e, entry_js e)) (sort_key qe_createdAt es)) s"
    by (simp add: dequeue_def s createdAt_index_entries [OF ok])
  ultimately show ?thesis
    using ok by (simp add: dequeue_cursor_entries)
qed

abbreviation sample_entry :: queue_entry where
  "sample_entry \<equiv> new_entry ''a'' 5 ''payment'' JNull"

lemma sample_clean: "clean (put_entry sample_entry [])"
  by (intro clean_put) simp_all

theorem dequeue_claims_peek_example:
  "fst (dequeue 9 (put_entry sample_entry [])) = Some (claimed 9 sample_entry)"
proof -
  have "peek 9 (put_entry sample_entry []) = Some sample_entry"
    by (simp add: peek_def put_entry_def getAll_def List.map_filter_simps) (simp add: new_entry_def)
  then show ?thesis by (simp add: dequeue_claims_peek [OF sample_clean])
qed

text \<open>First in, first out: the entry \<open>dequeue\<close> returns was pending, and no pending entry
of the queue was created before it.\<close>

lemma dequeue_fifo:
  assumes "clean s" and "dequeue now s = (Some e, s')"
  shows "\<exists>p. absq s (qe_id e) = Some p \<and> e = claimed now p \<and> qe_status p = Pending \<and>
     (\<forall>q \<in> ran (absq s). qe_status q = Pending \<longrightarrow> qe_createdAt p \<le> qe_createdAt q)"
proof -
  let ?P = "\<lambda>e. qe_status e = Pending"
  obtain p where p: "peek now s = Some p" and e: "e = claimed now p"
    using assms(2) by (auto simp: dequeue_claims_peek [OF assms(1)] split: option.splits)
  obtain es where s: "s = map (\<lambda>e. (qe_id e, entry_js e)) es" and ok: "\<forall>e \<in> set es. entry_ok e"
    using clean_entries [OF assms(1)] by blast
  obtain rest where rest: "filter ?P (getAll now s) = p # rest"
    using p by (auto simp: peek_def find_filter split: list.splits)
  then have "p \<in> set (filter ?P (getAll now s))"
    by simp
  then have in_all: "p \<in> set (getAll now s)" and pend: "?P p"
    by auto
  have "sorted (map qe_createdAt (filter ?P (getAll now s)))"
    by (simp add: s getAll_entries [OF ok] filter_sort_key_commute)
  then have "\<forall>q \<in> set (filter ?P (getAll now s)). qe_createdAt p \<le> qe_createdAt q"
    by (simp add: rest)
  with in_all pend e show ?thesis
    using getAll_absq [OF assms(1) in_all] getAll_set [OF assms(1), of now] by auto
qed

theorem dequeue_fifo_example:
  "qe_status sample_entry = Pending \<and>
   (\<exists>p. absq (put_entry sample_entry []) ''a'' = Some p \<and> claimed 9 sample_entry = claimed 9 p)"
proof -
  have "peek 9 (put_entry sample_entry []) = Some sample_entry"
    by (simp add: peek_def put_entry_def getAll_def List.map_filter_simps) (simp add: new_entry_def)
  then have d: "dequeue 9 (put_entry sample_entry []) =
      (Some (claimed 9 sample_entry), put_entry (claimed 9 sample_entry) (put_entry sample_entry []))"
    by (simp add: dequeue_claims_peek [OF sample_clean])
  from dequeue_fifo [OF sample_clean d] show ?thesis
    by (auto simp: new_entry_def)
qed

end
