(* ===== verification/OfflineDrain.thy ===== *)
theory OfflineDrain
  imports OfflineQueue
begin

text \<open>
  What a drain of the generic queue does to the map of entries, and what several drains that
  share the store (tabs, the \<open>online\<close> listener, retry buttons) can do to each other.
\<close>

section \<open>The abstract drain\<close>

text \<open>The entry that an attempt leaves behind: none on success, the failure record otherwise.\<close>

definition outcome :: "attempt \<Rightarrow> queue_entry \<Rightarrow> queue_entry option" where
  "outcome att e =
     (case processEntry (at_env att) e of
        Inr u \<Rightarrow> None
      | Inl message \<Rightarrow> Some (fail_patch (at_fail att) message (qe_retryCount e + 1) e))"

definition tally :: "attempt \<Rightarrow> queue_entry \<Rightarrow> drain_result \<Rightarrow> drain_result" where
  "tally att e r =
     (case processEntry (at_env att) e of
        Inr u \<Rightarrow> r\<lparr>dr_submitted := Suc (dr_submitted r)\<rparr>
      | Inl message \<Rightarrow>
          if qe_retryCount e + 1 \<ge> MAX_RETRIES then r\<lparr>dr_exhausted := Suc (dr_exhausted r)\<rparr>
          else r\<lparr>dr_failed := Suc (dr_failed r)\<rparr>)"

definition claimable :: "queue_entry \<Rightarrow> bool" where
  "claimable e \<longleftrightarrow> qe_status e \<noteq> Processing \<and> qe_retryCount e < MAX_RETRIES"

definition recovered :: "int \<Rightarrow> queue_entry \<Rightarrow> queue_entry" where
  "recovered now e = (if is_stuck now e then e\<lparr>qe_status := Pending\<rparr> else e)"

definition eligible :: "int \<Rightarrow> entry_store \<Rightarrow> queue_entry list" where
  "eligible now s = filter (\<lambda>e. isRetryable e now) (getAll now (recoverStuckEntries now s))"

lemma fail_patch_simps [simp]:
  "qe_id (fail_patch now m n e) = qe_id e"
  "qe_status (fail_patch now m n e) = Failed"
  "qe_retryCount (fail_patch now m n e) = n"
  "fail_patch now m n (claimed t e) = fail_patch now m n e"
  by (simp_all add: fail_patch_def claimed_def)

lemma entry_ok_fail_patch:
  "entry_ok e \<Longrightarrow> 0 \<le> n \<Longrightarrow> n \<le> MAX_RETRIES \<Longrightarrow> entry_ok (fail_patch now m n e)"
  by (simp add: entry_ok_def fail_patch_def)

lemma updateEntry_clean:
  assumes "clean s" and "\<And>e. absq s i = Some e \<Longrightarrow> entry_ok (patch e) \<and> qe_id (patch e) = i"
  shows "clean (updateEntry now i patch s)"
    and "absq (updateEntry now i patch s) = (absq s)(i := map_option patch (absq s i))"
  using assms by (cases "absq s i"; force simp: updateEntry_absq clean_put absq_put fun_eq_iff)+

lemma claimEntry_claimable:
  assumes "clean s" "absq s i = Some p" "claimable p"
  shows "claimEntry now i s = (True, put_entry (claimed now p) s)"
  using assms by (simp add: claimEntry_absq claimable_def)

lemma claimEntry_clean:
  assumes "clean s" "claimEntry now i s = (b, s')"
  shows "clean s'"
  using assms absq_ok [OF assms(1), of i]
  by (auto simp: claimEntry_absq clean_put split: option.splits if_splits)

text \<open>One attempt on a claimable entry \<open>p\<close>, from a snapshot \<open>e\<close> of it.\<close>

lemma attempt_absq:
  assumes "clean s" "absq s (qe_id e) = Some p" "claimable p"
    and "0 \<le> qe_retryCount e" "qe_retryCount e < MAX_RETRIES"
  obtains s' where "attempt_entry att e (s, r) = (s', tally att e r)" "clean s'"
    "absq s' = (absq s)(qe_id e :=
       (case processEntry (at_env att) e of
          Inr u \<Rightarrow> None
        | Inl m \<Rightarrow> Some (fail_patch (at_fail att) m (qe_retryCount e + 1) p)))"
proof -
  let ?s1 = "put_entry (claimed (at_claim att) p) s"
  have p: "entry_ok p" "qe_id p = qe_id e"
    using absq_ok [OF assms(1,2)] by auto
  have s1: "clean ?s1" "absq ?s1 = (absq s)(qe_id e \<mapsto> claimed (at_claim att) p)"
    using p assms(1) by (simp_all add: clean_put absq_put)
  have claim: "claimEntry (at_claim att) (qe_id e) s = (True, ?s1)"
    by (rule claimEntry_claimable [OF assms(1-3)])
  show ?thesis
  proof (cases "processEntry (at_env att) e")
    case (Inr u)
    have "attempt_entry att e (s, r) = (remove (qe_id e) ?s1, tally att e r)"
      by (simp add: attempt_entry_def claim Inr tally_def)
    with that Inr s1 show ?thesis
      by (simp add: clean_remove absq_remove)
  next
    case (Inl m)
    let ?patch = "fail_patch (at_fail att) m (qe_retryCount e + 1)"
    let ?s2 = "updateEntry (at_fail att) (qe_id e) ?patch ?s1"
    have "entry_ok (?patch x)" if "entry_ok x" for x
      using that assms(4,5) by (simp add: entry_ok_fail_patch)
    then have "clean ?s2" "absq ?s2 = (absq s)(qe_id e \<mapsto> ?patch p)"
      using updateEntry_clean [OF s1(1), of "qe_id e" ?patch, where now = "at_fail att"] p s1(2)
      by (auto simp: fun_eq_iff)
    moreover have "attempt_entry att e (s, r) = (?s2, tally att e r)"
      by (simp add: attempt_entry_def claim Inl tally_def Let_def)
    ultimately show ?thesis
      using that Inl by simp
  qed
qed

lemma attempt_current:
  assumes "clean s" "absq s (qe_id e) = Some e" "claimable e"
  obtains s' where "attempt_entry att e (s, r) = (s', tally att e r)" "clean s'"
    "absq s' = (absq s)(qe_id e := outcome att e)"
proof -
  have "0 \<le> qe_retryCount e" "qe_retryCount e < MAX_RETRIES"
    using assms absq_ok entry_okD by (auto simp: claimable_def)
  from attempt_absq [OF assms this, of att r] show ?thesis
    using that unfolding outcome_def by blast
qed

lemma drain_loop_absq:
  assumes "clean s" "distinct (map qe_id es)"
    and "\<forall>e \<in> set es. absq s (qe_id e) = Some e \<and> claimable e"
    and "drain_loop att i es (s, r) = (s', r')"
  shows "clean s' \<and> (\<forall>j < length es. absq s' (qe_id (es ! j)) = outcome (att (i + j)) (es ! j)) \<and>
     (\<forall>k. k \<notin> qe_id ` set es \<longrightarrow> absq s' k = absq s k)"
  using assms
proof (induction es arbitrary: i s r)
  case (Cons e es)
  have e: "absq s (qe_id e) = Some e" "claimable e"
    using Cons.prems(3) by simp_all
  obtain s1 where att: "attempt_entry (att i) e (s, r) = (s1, tally (att i) e r)" and "clean s1"
    and s1: "absq s1 = (absq s)(qe_id e := outcome (att i) e)"
    by (rule attempt_current [OF \<open>clean s\<close> e, where att = "att i" and r = r])
  have ne: "qe_id x \<noteq> qe_id e" if "x \<in> set es" for x
    using Cons.prems(2) that by (metis distinct.simps(2) image_eqI list.simps(9) set_map)
  have rest: "\<forall>x \<in> set es. absq s1 (qe_id x) = Some x \<and> claimable x"
    using Cons.prems(3) by (simp add: s1 ne)
  have d: "distinct (map qe_id es)" "drain_loop att (Suc i) es (s1, tally (att i) e r) = (s', r')"
    using Cons.prems(2,4) att by simp_all
  have IH: "clean s' \<and> (\<forall>j < length es. absq s' (qe_id (es ! j)) = outcome (att (Suc i + j)) (es ! j)) \<and>
     (\<forall>k. k \<notin> qe_id ` set es \<longrightarrow> absq s' k = absq s1 k)"
    by (rule Cons.IH [OF \<open>clean s1\<close> d(1) rest d(2)])
  have "absq s' (qe_id e) = outcome (att i) e"
    using IH Cons.prems(2) by (simp add: s1)
  with IH have "absq s' (qe_id ((e # es) ! j)) = outcome (att (i + j)) ((e # es) ! j)"
    if "j < length (e # es)" for j
    using that by (cases j) auto
  with IH show ?case by (auto simp: s1)
qed simp

lemma drain_loop_tally:
  assumes "clean s" "distinct (map qe_id es)"
    and "\<forall>e \<in> set es. absq s (qe_id e) = Some e \<and> claimable e"
    and "drain_loop att i es (s, r) = (s', r')"
  shows "dr_submitted r' + dr_failed r' + dr_exhausted r' =
       dr_submitted r + dr_failed r + dr_exhausted r + length es \<and>
     dr_submitted r' + card (dom (absq s')) = dr_submitted r + card (dom (absq s))"
  using assms
proof (induction es arbitrary: i s r)
  case (Cons e es)
  have e: "absq s (qe_id e) = Some e" "claimable e"
    using Cons.prems(3) by simp_all
  obtain s1 where att: "attempt_entry (att i) e (s, r) = (s1, tally (att i) e r)" and "clean s1"
    and s1: "absq s1 = (absq s)(qe_id e := outcome (att i) e)"
    by (rule attempt_current [OF \<open>clean s\<close> e, where att = "att i" and r = r])
  have ne: "qe_id x \<noteq> qe_id e" if "x \<in> set es" for x
    using Cons.prems(2) that by (metis distinct.simps(2) image_eqI list.simps(9) set_map)
  have rest: "\<forall>x \<in> set es. absq s1 (qe_id x) = Some x \<and> claimable x"
    using Cons.prems(3) by (simp add: s1 ne)
  have "finite (dom (absq s))"
    by (rule finite_subset [OF _ idb.finite_dom [of s]]) (auto simp: absq_def bind_eq_Some_conv)
  moreover have "qe_id e \<in> dom (absq s)"
    using Cons.prems(3) by auto
  ultimately have card: "card (dom (absq s)) = Suc (card (dom (absq s) - {qe_id e}))"
    by (rule card.remove)
  have step: "dr_submitted (tally (att i) e r) + card (dom (absq s1)) =
      dr_submitted r + card (dom (absq s))"
  proof (cases "processEntry (at_env (att i)) e")
    case (Inl m)
    then have "dom (absq s1) = insert (qe_id e) (dom (absq s))"
      by (auto simp: s1 outcome_def)
    also have "\<dots> = dom (absq s)"
      using \<open>qe_id e \<in> dom (absq s)\<close> by (rule insert_absorb)
    finally show ?thesis
      using Inl by (simp add: tally_def)
  next
    case (Inr u)
    then have "dom (absq s1) = dom (absq s) - {qe_id e}"
      by (auto simp: s1 outcome_def)
    with Inr card show ?thesis by (simp add: tally_def)
  qed
  have d: "distinct (map qe_id es)" "drain_loop att (Suc i) es (s1, tally (att i) e r) = (s', r')"
    using Cons.prems(2,4) att by simp_all
  have "dr_submitted r' + dr_failed r' + dr_exhausted r' =
       dr_submitted (tally (att i) e r) + dr_failed (tally (att i) e r) +
       dr_exhausted (tally (att i) e r) + length es \<and>
     dr_submitted r' + card (dom (absq s')) = dr_submitted (tally (att i) e r) + card (dom (absq s1))"
    by (rule Cons.IH [OF \<open>clean s1\<close> d(1) rest d(2)])
  moreover have "dr_submitted (tally (att i) e r) + dr_failed (tally (att i) e r) +
      dr_exhausted (tally (att i) e r) = Suc (dr_submitted r + dr_failed r + dr_exhausted r)"
    by (simp add: tally_def split: sum.split)
  ultimately show ?case
    using step by simp
qed simp

section \<open>Recovery of stuck entries\<close>

lemma recover_fold:
  assumes "clean s" "distinct (map qe_id es)" "\<forall>e \<in> set es. absq s (qe_id e) = Some e"
  shows "clean (fold (\<lambda>e. updateEntry now (qe_id e) (\<lambda>c. c\<lparr>qe_status := Pending\<rparr>)) es s) \<and>
     absq (fold (\<lambda>e. updateEntry now (qe_id e) (\<lambda>c. c\<lparr>qe_status := Pending\<rparr>)) es s) k =
       (if k \<in> qe_id ` set es then map_option (\<lambda>c. c\<lparr>qe_status := Pending\<rparr>) (absq s k) else absq s k)"
  using assms
proof (induction es arbitrary: s)
  case (Cons e es)
  let ?s1 = "updateEntry now (qe_id e) (\<lambda>c. c\<lparr>qe_status := Pending\<rparr>) s"
  have patch: "entry_ok (x\<lparr>qe_status := Pending\<rparr>) \<and> qe_id (x\<lparr>qe_status := Pending\<rparr>) = qe_id e"
    if "absq s (qe_id e) = Some x" for x
    using absq_ok [OF Cons.prems(1) that] by simp
  have s1: "clean ?s1"
    "absq ?s1 = (absq s)(qe_id e := map_option (\<lambda>c. c\<lparr>qe_status := Pending\<rparr>) (absq s (qe_id e)))"
    by (rule updateEntry_clean [OF Cons.prems(1) patch], assumption)+
  have ne: "qe_id x \<noteq> qe_id e" if "x \<in> set es" for x
    using Cons.prems(2) that by (metis distinct.simps(2) image_eqI list.simps(9) set_map)
  have rest: "\<forall>x \<in> set es. absq ?s1 (qe_id x) = Some x"
    using Cons.prems(3) by (simp add: s1 ne)
  have d: "distinct (map qe_id es)" "qe_id e \<notin> qe_id ` set es"
    using Cons.prems(2) by simp_all
  from Cons.IH [OF s1(1) d(1) rest] show ?case
    using d(2) by (simp add: s1)
qed simp

lemma recover_absq:
  assumes "clean s"
  shows "clean (recoverStuckEntries now s)"
    and "absq (recoverStuckEntries now s) k = map_option (recovered now) (absq s k)"
proof -
  let ?es = "filter (is_stuck now) (getAll now s)"
  have es: "distinct (map qe_id ?es)" "\<forall>e \<in> set ?es. absq s (qe_id e) = Some e"
    using getAll_distinct [OF assms, of now] getAll_absq [OF assms]
    by (auto simp: distinct_map_filter)
  show "clean (recoverStuckEntries now s)"
    using recover_fold [OF assms es] by (simp add: recoverStuckEntries_def)
  have "k \<in> qe_id ` set ?es \<longleftrightarrow> (\<exists>e. absq s k = Some e \<and> is_stuck now e)"
    using getAll_set [OF assms, of now] getAll_absq [OF assms, of _ now] absq_ok [OF assms]
    by (force simp: ran_def)
  then show "absq (recoverStuckEntries now s) k = map_option (recovered now) (absq s k)"
    using recover_fold [OF assms es, of now k]
    by (cases "absq s k") (auto simp: recoverStuckEntries_def recovered_def)
qed

lemma eligible_facts:
  assumes "clean s"
  shows "distinct (map qe_id (eligible now s))"
    and "e \<in> set (eligible now s) \<Longrightarrow>
      absq (recoverStuckEntries now s) (qe_id e) = Some e \<and> claimable e"
proof -
  note c = recover_absq(1) [OF assms, of now]
  show "distinct (map qe_id (eligible now s))"
    using getAll_distinct [OF c, of now] by (simp add: eligible_def distinct_map_filter)
  show "e \<in> set (eligible now s) \<Longrightarrow>
      absq (recoverStuckEntries now s) (qe_id e) = Some e \<and> claimable e"
    using getAll_absq [OF c, of e now]
    by (auto simp: eligible_def isRetryable_def claimable_def split: if_splits)
qed

section \<open>The whole drain\<close>

lemma processGenericQueue_loop:
  assumes "processGenericQueue now att (Some s) = (r, Some s')"
  obtains r0 where
    "drain_loop att 0 (eligible now s) (recoverStuckEntries now s, empty_result) = (s', r0)"
    "r = r0\<lparr>dr_remaining := length (getAll now s')\<rparr>"
  using assms by (auto simp: processGenericQueue_def eligible_def Let_def split: prod.splits)

text \<open>C3. A drain implements its specification on the map of entries: the \<open>j\<close>-th eligible
entry ends as its attempt decides (gone when it was submitted, otherwise the failure record
with one more retry and its backoff), every other entry is only freed when it was stuck, and
the store stays clean.\<close>

theorem drain_refines:
  assumes "clean s" and "processGenericQueue now att (Some s) = (r, Some s')"
  shows "clean s' \<and>
     (\<forall>j < length (eligible now s).
        absq s' (qe_id (eligible now s ! j)) = outcome (att j) (eligible now s ! j)) \<and>
     (\<forall>k. k \<notin> qe_id ` set (eligible now s) \<longrightarrow> absq s' k = map_option (recovered now) (absq s k))"
proof -
  obtain r0 where loop:
    "drain_loop att 0 (eligible now s) (recoverStuckEntries now s, empty_result) = (s', r0)"
    by (rule processGenericQueue_loop [OF assms(2)])
  have elig: "\<forall>e \<in> set (eligible now s).
      absq (recoverStuckEntries now s) (qe_id e) = Some e \<and> claimable e"
    using eligible_facts(2) [OF assms(1)] by blast
  from drain_loop_absq [OF recover_absq(1) [OF assms(1)] eligible_facts(1) [OF assms(1)] elig loop]
  show ?thesis by (simp add: recover_absq(2) [OF assms(1)])
qed

text \<open>C19. The counters a drain reports add up: each eligible entry is counted once, as
submitted, failed or exhausted, and the entries submitted and the entries remaining are
together the entries the queue held before.\<close>

theorem drain_accounting:
  assumes "clean s" and "processGenericQueue now att (Some s) = (r, Some s')"
  shows "dr_submitted r + dr_failed r + dr_exhausted r = length (eligible now s) \<and>
     dr_submitted r + dr_remaining r = getPendingCount now s"
proof -
  obtain r0 where loop:
    "drain_loop att 0 (eligible now s) (recoverStuckEntries now s, empty_result) = (s', r0)"
    and r: "r = r0\<lparr>dr_remaining := length (getAll now s')\<rparr>"
    by (rule processGenericQueue_loop [OF assms(2)])
  have elig: "\<forall>e \<in> set (eligible now s).
      absq (recoverStuckEntries now s) (qe_id e) = Some e \<and> claimable e"
    using eligible_facts(2) [OF assms(1)] by blast
  note t = drain_loop_tally [OF recover_absq(1) [OF assms(1)] eligible_facts(1) [OF assms(1)] elig loop]
  have count: "length (getAll now t) = card (dom (absq t))" if "clean t" for t
  proof -
    have "length (getAll now t) = card (set (map qe_id (getAll now t)))"
      using getAll_distinct [OF that, of now] distinct_card by fastforce
    also have "set (map qe_id (getAll now t)) = dom (absq t)"
      using getAll_set [OF that, of now] absq_ok [OF that] by (force simp: ran_def)
    finally show ?thesis .
  qed
  have "dom (absq (recoverStuckEntries now s)) = dom (absq s)"
    by (auto simp: recover_absq(2) [OF assms(1)] dom_def)
  with t drain_refines [OF assms] assms(1) show ?thesis
    by (simp add: r count getPendingCount_def empty_result_def)
qed

text \<open>An abandoned entry stays: once its retries are used up, no drain attempts it again
or changes it, whatever the network answers and however much time passes.\<close>

lemma exhausted_entry_untouched:
  assumes "clean s" and "processGenericQueue now att (Some s) = (r, Some s')"
    and "absq s k = Some e" "qe_status e = Failed" "qe_retryCount e \<ge> MAX_RETRIES"
  shows "absq s' k = Some e"
proof -
  have "k \<notin> qe_id ` set (eligible now s)"
  proof
    assume "k \<in> qe_id ` set (eligible now s)"
    then obtain x where x: "x \<in> set (eligible now s)" "k = qe_id x" by auto
    from eligible_facts(2) [OF assms(1) x(1)]
    have "absq (recoverStuckEntries now s) k = Some x" "claimable x"
      by (simp_all add: x(2))
    with assms(3-5) show False
      by (simp add: recover_absq(2) [OF assms(1)] recovered_def is_stuck_def claimable_def)
  qed
  with drain_refines [OF assms(1,2)] assms(3,4) show ?thesis
    by (simp add: recovered_def is_stuck_def)
qed

text \<open>A queue of one payment without sender: the drain fails it and schedules a retry.\<close>

definition offline_env :: net_env where
  "offline_env = \<lparr>post_tx = (\<lambda>_. FetchThrows ''offline''), build_tx = (\<lambda>_. Inl ''offline''),
     sign_tx = (\<lambda>_. (None, None)), to_text = (\<lambda>_. [])\<rparr>"

definition sample_attempt :: "nat \<Rightarrow> attempt" where
  "sample_attempt = (\<lambda>_. \<lparr>at_claim = 10, at_fail = 11, at_env = offline_env\<rparr>)"

definition sample_store :: entry_store where
  "sample_store = put_entry sample_entry []"

definition spent_entry :: queue_entry where
  "spent_entry = sample_entry\<lparr>qe_status := Failed, qe_retryCount := 3\<rparr>"

lemma entry_ok_spent [simp]: "entry_ok spent_entry"
  by (simp add: spent_entry_def entry_ok_def new_entry_def MAX_RETRIES_def)

lemma sample_store_clean: "clean sample_store"
  unfolding sample_store_def by (rule sample_clean)

lemma process_returns: "\<exists>r s'. processGenericQueue now att (Some s) = (r, Some s')"
  by (auto simp: processGenericQueue_def Let_def split: prod.splits)

lemma getAll_single: "entry_ok e \<Longrightarrow> getAll now (put_entry e []) = [e]"
  by (simp add: getAll_def put_entry_def List.map_filter_simps)

lemma sample_eligible: "eligible 9 sample_store = [sample_entry]"
proof -
  have "recoverStuckEntries 9 sample_store = sample_store"
    unfolding recoverStuckEntries_def sample_store_def getAll_single [OF entry_ok_new]
    by (simp add: is_stuck_def new_entry_def)
  then show ?thesis
    unfolding eligible_def by (simp add: sample_store_def getAll_single)
      (simp add: isRetryable_def new_entry_def MAX_RETRIES_def)
qed

theorem drain_refines_witness:
  "\<exists>r s'. processGenericQueue 9 sample_attempt (Some sample_store) = (r, Some s') \<and>
     absq s' ''a'' = outcome (sample_attempt 0) sample_entry"
proof -
  obtain r s' where p: "processGenericQueue 9 sample_attempt (Some sample_store) = (r, Some s')"
    using process_returns by blast
  have "qe_id sample_entry = ''a''"
    by (simp add: new_entry_def)
  with drain_refines [OF sample_store_clean p] p show ?thesis
    by (simp add: sample_eligible)
qed

theorem drain_accounting_witness:
  "\<exists>r s'. processGenericQueue 9 sample_attempt (Some sample_store) = (r, Some s') \<and>
     dr_submitted r + dr_failed r + dr_exhausted r = 1"
proof -
  obtain r s' where p: "processGenericQueue 9 sample_attempt (Some sample_store) = (r, Some s')"
    using process_returns by blast
  with drain_accounting [OF sample_store_clean p] show ?thesis
    by (simp add: sample_eligible)
qed

theorem exhausted_entry_untouched_example:
  "\<exists>r s'. processGenericQueue 99 sample_attempt (Some (put_entry spent_entry [])) = (r, Some s') \<and>
     absq s' ''a'' = Some spent_entry"
proof -
  let ?s = "put_entry spent_entry []"
  have c: "clean ?s" by (intro clean_put) simp_all
  have i: "qe_id spent_entry = ''a''" by (simp add: spent_entry_def new_entry_def)
  have a: "absq ?s ''a'' = Some spent_entry"
    using i by (simp add: absq_put)
  obtain r s' where p: "processGenericQueue 99 sample_attempt (Some ?s) = (r, Some s')"
    using process_returns by blast
  have "absq s' ''a'' = Some spent_entry"
    by (rule exhausted_entry_untouched [OF c p a]) (simp_all add: spent_entry_def MAX_RETRIES_def)
  with p show ?thesis by blast
qed

section \<open>Backoff\<close>

text \<open>Backoff doubles from one second and is capped at thirty: the delay of the \<open>n\<close>-th
retry is \<open>1000 * 2^n\<close> up to \<open>n = 4\<close> and exactly 30 seconds from \<open>n = 5\<close> on, it never
shrinks as the count grows, and a negative count waits one second.\<close>

lemma backoff_schedule:
  "backoffDelayMs n =
     (if n \<le> 0 then 1000 else if n \<le> 4 then 1000 * 2 ^ nat n else 30000) \<and>
   (m \<le> n \<longrightarrow> backoffDelayMs m \<le> backoffDelayMs n)"
proof
  have mono: "(2::int) ^ nat (max 0 a) \<le> 2 ^ nat (max 0 b)" if "a \<le> b" for a b :: int
    using that by (intro power_increasing) auto
  have delay: "backoffDelayMs k = min (1000 * 2 ^ nat (max 0 k)) 30000" for k
    by (simp add: backoffDelayMs_def BASE_RETRY_DELAY_MS_def MAX_RETRY_DELAY_MS_def)
  show "m \<le> n \<longrightarrow> backoffDelayMs m \<le> backoffDelayMs n"
    using mono [of m n] unfolding delay by (intro impI min.mono) simp_all
  show "backoffDelayMs n =
     (if n \<le> 0 then 1000 else if n \<le> 4 then 1000 * 2 ^ nat n else 30000)"
  proof (cases "n \<le> 4")
    case True
    have "(2::int) ^ nat (max 0 n) \<le> 2 ^ 4"
      using True mono [of n 4] by simp
    with True show ?thesis
      by (auto simp: backoffDelayMs_def BASE_RETRY_DELAY_MS_def MAX_RETRY_DELAY_MS_def max_def)
  next
    case False
    have "(2::int) ^ 5 \<le> 2 ^ nat (max 0 n)"
      using False mono [of 5 n] by simp
    with False show ?thesis
      by (auto simp: backoffDelayMs_def BASE_RETRY_DELAY_MS_def MAX_RETRY_DELAY_MS_def)
  qed
qed

lemma backoff_schedule_example: "backoffDelayMs 1 = 2000 \<and> backoffDelayMs 1 \<le> backoffDelayMs 7"
  using backoff_schedule [of 1 1] backoff_schedule [of 7 1] by simp

text \<open>A failed attempt is kept out of the queue for its whole backoff and, until the third
failure, let back in once the backoff is over: a retry is due exactly from \<open>nextRetryAt\<close> on.\<close>

lemma failed_attempt_waits:
  "isRetryable (fail_patch t m n e) now \<longleftrightarrow> n < MAX_RETRIES \<and> t + backoffDelayMs n \<le> now"
proof -
  have "(rat_of_int now < rat_of_int t + rat_of_int (backoffDelayMs n)) = (now < t + backoffDelayMs n)"
    by (metis of_int_add of_int_less_iff)
  then show ?thesis
    by (auto simp: isRetryable_def fail_patch_def)
qed

end
