(* ===== verification/OfflineConcurrency.thy ===== *)
theory OfflineConcurrency
  imports OfflineDrain
begin

text \<open>
  Pages and service workers that drain one store of entries at the same time:
  \<open>processGenericQueue\<close> of \<open>frontend/lib/offlineQueue.ts\<close> with its \<open>recoverStuckEntries\<close>, and
  \<open>drainGenericQueue\<close> of \<open>frontend/public/sw.js\<close>. Every transaction of the store is a step of its
  own, so a drain stops between any two of its awaits and others run meanwhile; it may also stop
  for good, when its tab is closed or a transaction throws. \<open>remove\<close> is called by the composer too.
\<close>

section \<open>Drains, step by step\<close>

datatype party = Page nat | Worker nat

text \<open>
  Where a drain stands: it still has stuck entries to reset, it has entries of its snapshot left to
  try, or it is submitting one of them.
\<close>

datatype phase =
  Idle
| Recovering "queue_entry list"
| Draining "queue_entry list"
| Submitting queue_entry "queue_entry list"

record world =
  w_store :: entry_store
  w_phase :: "party \<Rightarrow> phase"
  w_ids :: "string set"

datatype move =
  Enqueues string
| Removes string
| Reads party int
| Resets party string int
| Claims party string int
| Takes party string int
| Settles party string
| Stops party

definition go :: "party \<Rightarrow> phase \<Rightarrow> entry_store \<Rightarrow> world \<Rightarrow> world" where
  "go p ph s w = w\<lparr>w_store := s, w_phase := (w_phase w)(p := ph)\<rparr>"

definition reset_entry :: "int \<Rightarrow> string \<Rightarrow> entry_store \<Rightarrow> entry_store" where
  "reset_entry now k = updateEntry now k (\<lambda>c. c\<lparr>qe_status := Pending\<rparr>)"

text \<open>The entries the service worker goes on with: it skips the others, and those without a signed XDR.\<close>

definition worker_takes :: "int \<Rightarrow> queue_entry \<Rightarrow> bool" where
  "worker_takes now e =
     (if qe_status e = Processing then False
      else if qe_retryCount e \<ge> MAX_RETRIES then False
      else if (case qe_nextRetryAt e of None \<Rightarrow> False | Some t \<Rightarrow> truthy (JNumber t) \<and> num_less (ms now) t) then False
      else if qe_status e \<noteq> Pending \<and> qe_status e \<noteq> Failed then False
      else (case (if is_object (qe_payload e) then jprop (qe_payload e) ''signedXDR'' else JUndefined) of
          JString xdr \<Rightarrow> xdr \<noteq> []
        | _ \<Rightarrow> False))"

text \<open>
  The ids of \<open>generateId\<close> are random: an id is not drawn twice. A recovery that cannot read the
  entries resets none; a failed claim or reset is caught and the loop goes on; an attempt also fails
  when the entry was submitted and its removal throws.
\<close>

inductive drain_step :: "move \<Rightarrow> world \<Rightarrow> world \<Rightarrow> bool" where
  enqueued: "k \<notin> w_ids w \<Longrightarrow> enqueue k now type payload (w_store w) = Inr (k', s') \<Longrightarrow>
     drain_step (Enqueues k) w (w\<lparr>w_store := s', w_ids := insert k (w_ids w)\<rparr>)"
| removed: "drain_step (Removes k) w (w\<lparr>w_store := remove k (w_store w)\<rparr>)"
| read_stuck: "w_phase w (Page i) = Idle \<Longrightarrow>
     drain_step (Reads (Page i) now) w
       (go (Page i) (Recovering (filter (is_stuck now) (getAll now (w_store w)))) (w_store w) w)"
| unread: "w_phase w (Page i) = Idle \<Longrightarrow>
     drain_step (Reads (Page i) now) w (go (Page i) (Recovering []) (w_store w) w)"
| reset: "w_phase w (Page i) = Recovering (e # es) \<Longrightarrow>
     drain_step (Resets (Page i) (qe_id e) now) w
       (go (Page i) (Recovering es) (reset_entry now (qe_id e) (w_store w)) w)"
| reset_throws: "w_phase w (Page i) = Recovering (e # es) \<Longrightarrow>
     drain_step (Settles (Page i) (qe_id e)) w (go (Page i) (Recovering es) (w_store w) w)"
| snapshot: "w_phase w (Page i) = Recovering [] \<Longrightarrow>
     drain_step (Reads (Page i) now) w
       (go (Page i) (Draining (filter (\<lambda>e. isRetryable e now) (getAll now (w_store w)))) (w_store w) w)"
| claim: "w_phase w (Page i) = Draining (e # es) \<Longrightarrow>
     claimEntry now (qe_id e) (w_store w) = (True, s') \<Longrightarrow>
     drain_step (Claims (Page i) (qe_id e) now) w (go (Page i) (Submitting e es) s' w)"
| skip: "w_phase w (Page i) = Draining (e # es) \<Longrightarrow>
     claimEntry now (qe_id e) (w_store w) = (False, s') \<Longrightarrow>
     drain_step (Settles (Page i) (qe_id e)) w (go (Page i) (Draining es) s' w)"
| claim_throws: "w_phase w (Page i) = Draining (e # es) \<Longrightarrow>
     drain_step (Settles (Page i) (qe_id e)) w (go (Page i) (Draining es) (w_store w) w)"
| submitted: "w_phase w p = Submitting e es \<Longrightarrow>
     drain_step (Settles p (qe_id e)) w (go p (Draining es) (remove (qe_id e) (w_store w)) w)"
| failed: "w_phase w (Page i) = Submitting e es \<Longrightarrow>
     drain_step (Settles (Page i) (qe_id e)) w (go (Page i) (Draining es)
       (updateEntry now (qe_id e) (fail_patch now message (qe_retryCount e + 1)) (w_store w)) w)"
| worker_read: "w_phase w (Worker i) = Idle \<Longrightarrow>
     drain_step (Reads (Worker i) now) w
       (go (Worker i) (Draining (filter (worker_takes now) (getAll now (w_store w)))) (w_store w) w)"
| worker_take: "w_phase w (Worker i) = Draining (e # es) \<Longrightarrow>
     drain_step (Takes (Worker i) (qe_id e) now) w
       (go (Worker i) (Submitting e es) (put_entry (claimed now e) (w_store w)) w)"
| worker_failed: "w_phase w (Worker i) = Submitting e es \<Longrightarrow>
     drain_step (Settles (Worker i) (qe_id e)) w (go (Worker i) (Draining es)
       (put_entry (fail_patch now message (qe_retryCount e + 1) e) (w_store w)) w)"
| stopped: "drain_step (Stops p) w (go p Idle (w_store w) w)"

definition start_world :: world where
  "start_world = \<lparr>w_store = [], w_phase = (\<lambda>_. Idle), w_ids = {}\<rparr>"

inductive drains :: "move list \<Rightarrow> world \<Rightarrow> bool" where
  drains_start: "drains [] start_world"
| drains_step: "drains moves w \<Longrightarrow> drain_step m w w' \<Longrightarrow> drains (moves @ [m]) w'"

section \<open>What every step keeps\<close>

fun held_entries :: "phase \<Rightarrow> queue_entry list" where
  "held_entries (Draining es) = es"
| "held_entries (Submitting e es) = e # es"
| "held_entries _ = []"

definition world_inv :: "world \<Rightarrow> bool" where
  "world_inv w \<longleftrightarrow> clean (w_store w) \<and> (\<forall>k. absq (w_store w) k \<noteq> None \<longrightarrow> k \<in> w_ids w) \<and>
     (\<forall>p. \<forall>e \<in> set (held_entries (w_phase w p)).
        entry_ok e \<and> qe_retryCount e < MAX_RETRIES \<and> qe_id e \<in> w_ids w)"

lemma go_simps [simp]:
  "w_store (go p ph s w) = s" "w_phase (go p ph s w) = (w_phase w)(p := ph)" "w_ids (go p ph s w) = w_ids w"
  by (simp_all add: go_def)

lemma world_invD:
  assumes "world_inv w"
  shows "clean (w_store w)" "absq (w_store w) k = Some x \<Longrightarrow> k \<in> w_ids w"
    and "e \<in> set (held_entries (w_phase w p)) \<Longrightarrow> entry_ok e"
    and "e \<in> set (held_entries (w_phase w p)) \<Longrightarrow> qe_retryCount e < MAX_RETRIES"
    and "e \<in> set (held_entries (w_phase w p)) \<Longrightarrow> qe_id e \<in> w_ids w"
  using assms unfolding world_inv_def by blast+

lemma world_inv_go:
  assumes inv: "world_inv w" and "clean s'" and "\<And>k. absq s' k \<noteq> None \<Longrightarrow> absq (w_store w) k \<noteq> None \<or> k \<in> w_ids w"
    and "\<And>e. e \<in> set (held_entries ph) \<Longrightarrow> entry_ok e \<and> qe_retryCount e < MAX_RETRIES \<and> qe_id e \<in> w_ids w"
  shows "world_inv (go p ph s' w)"
  using assms unfolding world_inv_def by auto

lemma patched:
  assumes "clean s" and "\<And>x. absq s k = Some x \<Longrightarrow> entry_ok x \<Longrightarrow> qe_id x = k \<Longrightarrow> entry_ok (patch x) \<and> qe_id (patch x) = k"
  shows "clean (updateEntry now k patch s)"
    "absq (updateEntry now k patch s) = (absq s)(k := map_option patch (absq s k))"
proof -
  have "entry_ok (patch x) \<and> qe_id (patch x) = k" if "absq s k = Some x" for x
    using assms(2) [OF that] absq_ok [OF assms(1) that] by simp
  from updateEntry_clean [where patch = patch and now = now, OF assms(1) this] show "clean (updateEntry now k patch s)"
    "absq (updateEntry now k patch s) = (absq s)(k := map_option patch (absq s k))" by blast+
qed

lemma reset_clean:
  assumes "clean s"
  shows "clean (reset_entry now k s)"
    "absq (reset_entry now k s) = (absq s)(k := map_option (\<lambda>c. c\<lparr>qe_status := Pending\<rparr>) (absq s k))"
  unfolding reset_entry_def by (rule patched [OF assms]; simp)+

lemma fail_clean:
  assumes "clean s" and "0 \<le> n" "n \<le> MAX_RETRIES"
  shows "clean (updateEntry now k (fail_patch now message n) s)"
    "absq (updateEntry now k (fail_patch now message n) s) = (absq s)(k := map_option (fail_patch now message n) (absq s k))"
  by (rule patched [OF assms(1)]; use assms in \<open>simp add: entry_ok_fail_patch\<close>)+

lemma claimEntry_True:
  assumes "clean s" "claimEntry now k s = (True, s')"
  obtains p where "absq s k = Some p" "qe_status p \<noteq> Processing"
    "s' = put_entry (claimed now p) s" "entry_ok p" "qe_id p = k"
proof (cases "absq s k")
  case None
  with assms show ?thesis by (simp add: claimEntry_absq)
next
  case (Some p)
  with assms have "qe_status p \<noteq> Processing" "s' = put_entry (claimed now p) s"
    by (simp_all add: claimEntry_absq split: if_splits)
  with that Some absq_ok [OF assms(1) Some] show ?thesis by blast
qed

lemma claimEntry_False:
  assumes "clean s" "claimEntry now k s = (False, s')"
  shows "s' = s"
  using assms by (auto simp: claimEntry_absq split: option.splits if_splits)

lemma read_held:
  assumes "world_inv w" and "e \<in> set (filter P (getAll now (w_store w)))" and "\<And>x. P x \<Longrightarrow> qe_retryCount x < MAX_RETRIES"
  shows "entry_ok e \<and> qe_retryCount e < MAX_RETRIES \<and> qe_id e \<in> w_ids w"
proof -
  have "absq (w_store w) (qe_id e) = Some e"
    using assms(2) getAll_absq [OF world_invD(1) [OF assms(1)], of e now] by simp
  note absq_ok [OF world_invD(1) [OF assms(1)] this] world_invD(2) [OF assms(1) this]
  moreover have "qe_retryCount e < MAX_RETRIES" using assms(2) by (intro assms(3)) simp
  ultimately show ?thesis by simp
qed

lemma eligible_retries:
  "isRetryable e now \<Longrightarrow> qe_retryCount e < MAX_RETRIES" "worker_takes now e \<Longrightarrow> qe_retryCount e < MAX_RETRIES"
  by (auto simp: isRetryable_def worker_takes_def split: if_splits)

lemma drain_step_inv:
  assumes "drain_step m w w'" and inv: "world_inv w"
  shows "world_inv w'"
  using assms(1)
proof cases
  case (enqueued k now type payload k' s')
  then have s': "s' = put_entry (new_entry k now type payload) (w_store w)"
    by (auto simp add: enqueue_absq world_invD(1) [OF inv] split: if_splits)
  have "absq s' j \<noteq> None \<Longrightarrow> j = k \<or> absq (w_store w) j \<noteq> None" for j
    by (simp add: s' absq_put) (simp add: new_entry_def split: if_splits)
  then show ?thesis
    using enqueued(2) inv s' clean_put [OF world_invD(1) [OF inv]] unfolding world_inv_def by auto
next
  case (removed k)
  then show ?thesis using inv unfolding world_inv_def by (simp add: clean_remove absq_remove)
next
  case (read_stuck i now)
  show ?thesis unfolding read_stuck(2) by (rule world_inv_go [OF inv world_invD(1) [OF inv]]) simp_all
next
  case (unread i now)
  show ?thesis unfolding unread(2) by (rule world_inv_go [OF inv world_invD(1) [OF inv]]) simp_all
next
  case (reset i e es now)
  note r = reset_clean [OF world_invD(1) [OF inv], of now "qe_id e"]
  show ?thesis unfolding reset(2) by (rule world_inv_go [OF inv r(1)]) (auto simp: r(2) split: if_splits)
next
  case (reset_throws i e es)
  show ?thesis unfolding reset_throws(2) by (rule world_inv_go [OF inv world_invD(1) [OF inv]]) simp_all
next
  case (snapshot i now)
  show ?thesis unfolding snapshot(2)
    by (rule world_inv_go [OF inv world_invD(1) [OF inv]])
      (use read_held [OF inv _ eligible_retries(1)] in simp_all)
next
  case (claim i e es now s')
  obtain x where x: "absq (w_store w) (qe_id e) = Some x" "s' = put_entry (claimed now x) (w_store w)" "entry_ok x" "qe_id x = qe_id e"
    by (rule claimEntry_True [OF world_invD(1) [OF inv] claim(4)])
  show ?thesis unfolding claim(2)
    by (rule world_inv_go [OF inv])
      (use x claim(3) clean_put [OF world_invD(1) [OF inv], of "claimed now x"]
        world_invD(3-5) [OF inv, of _ "Page i"] in \<open>auto simp: absq_put split: if_splits\<close>)
next
  case (skip i e es now s')
  then have "s' = w_store w" using claimEntry_False [OF world_invD(1) [OF inv]] by blast
  then show ?thesis unfolding skip(2)
    by (intro world_inv_go [OF inv])
      (use skip(3) world_invD(1) [OF inv] world_invD(3-5) [OF inv, of _ "Page i"] in simp_all)
next
  case (claim_throws i e es)
  then show ?thesis unfolding claim_throws(2)
    by (intro world_inv_go [OF inv])
      (use claim_throws(3) world_invD(1) [OF inv] world_invD(3-5) [OF inv, of _ "Page i"] in simp_all)
next
  case (submitted p e es)
  show ?thesis unfolding submitted(2)
    by (rule world_inv_go [OF inv])
      (use submitted(3) world_invD(1) [OF inv] world_invD(3-5) [OF inv, of _ p] in
        \<open>auto simp: clean_remove absq_remove split: if_splits\<close>)
next
  case (failed i e es now message)
  have e: "e \<in> set (held_entries (w_phase w (Page i)))" using failed(3) by simp
  have "0 \<le> qe_retryCount e + 1" "qe_retryCount e + 1 \<le> MAX_RETRIES"
    using world_invD(3,4) [OF inv e] entry_okD [of e] by simp_all
  note f = fail_clean [OF world_invD(1) [OF inv] this, of now "qe_id e" message]
  show ?thesis unfolding failed(2)
    by (rule world_inv_go [OF inv f(1)])
      (use failed(3) world_invD(3-5) [OF inv, of _ "Page i"] in \<open>auto simp: f(2) split: if_splits\<close>)
next
  case (worker_read i now)
  show ?thesis unfolding worker_read(2)
    by (rule world_inv_go [OF inv world_invD(1) [OF inv]])
      (use read_held [OF inv _ eligible_retries(2)] in simp_all)
next
  case (worker_take i e es now)
  have e: "e \<in> set (held_entries (w_phase w (Worker i)))" using worker_take(3) by simp
  show ?thesis unfolding worker_take(2)
    by (rule world_inv_go [OF inv])
      (use worker_take(3) world_invD(3-5) [OF inv, of _ "Worker i"] world_invD(3,5) [OF inv e]
        clean_put [OF world_invD(1) [OF inv], of "claimed now e"] in \<open>auto simp: absq_put split: if_splits\<close>)
next
  case (worker_failed i e es now message)
  have e: "e \<in> set (held_entries (w_phase w (Worker i)))" using worker_failed(3) by simp
  have ok: "entry_ok (fail_patch now message (qe_retryCount e + 1) e)"
    using world_invD(3,4) [OF inv e] entry_okD [of e] by (simp add: entry_ok_fail_patch)
  show ?thesis unfolding worker_failed(2)
    by (rule world_inv_go [OF inv])
      (use worker_failed(3) world_invD(3-5) [OF inv, of _ "Worker i"] world_invD(5) [OF inv e]
        clean_put [OF world_invD(1) [OF inv] ok] ok in \<open>auto simp: absq_put split: if_splits\<close>)
next
  case (stopped p)
  show ?thesis unfolding stopped(2) by (rule world_inv_go [OF inv world_invD(1) [OF inv]]) simp_all
qed

lemma drains_inv: "drains moves w \<Longrightarrow> world_inv w"
proof (induction rule: drains.induct)
  case drains_start
  show ?case by (simp add: world_inv_def start_world_def)
qed (rule drain_step_inv)

section \<open>The claim as a lock\<close>

text \<open>Who works on \<open>k\<close>, and the lock: one drain at most, and the record, if it is there, is \<open>processing\<close>.\<close>

definition works_on :: "world \<Rightarrow> party \<Rightarrow> string \<Rightarrow> bool" where
  "works_on w p k \<longleftrightarrow> (\<exists>e es. w_phase w p = Submitting e es \<and> qe_id e = k)"

definition locked :: "string \<Rightarrow> world \<Rightarrow> bool" where
  "locked k w \<longleftrightarrow> (\<forall>p. works_on w p k \<longrightarrow> (\<forall>x. absq (w_store w) k = Some x \<longrightarrow> qe_status x = Processing)
     \<and> (\<forall>q. works_on w q k \<longrightarrow> q = p))"

text \<open>The steps that write the status of \<open>k\<close> without asking what it is.\<close>

definition unlocking :: "string \<Rightarrow> move \<Rightarrow> bool" where
  "unlocking k m \<longleftrightarrow> (\<exists>p now. m = Resets p k now \<or> m = Takes p k now)"

lemma works_on_go: "works_on (go p ph s w) q k =
    (if q = p then (\<exists>e es. ph = Submitting e es \<and> qe_id e = k) else works_on w q k)"
  by (simp add: works_on_def)

lemma locked_go:
  assumes "locked k w" and "\<And>e es. ph = Submitting e es \<Longrightarrow> qe_id e \<noteq> k"
    and "\<And>q x. q \<noteq> p \<Longrightarrow> works_on w q k \<Longrightarrow> absq s k = Some x \<Longrightarrow> qe_status x = Processing"
  shows "locked k (go p ph s w)"
  using assms unfolding locked_def works_on_go go_simps by (metis (no_types, lifting))

lemma locked_same: "locked k w \<Longrightarrow> absq s k = absq (w_store w) k \<or> absq s k = None \<Longrightarrow>
    (\<And>e es. ph = Submitting e es \<Longrightarrow> qe_id e \<noteq> k) \<Longrightarrow> locked k (go p ph s w)"
  by (rule locked_go) (auto simp: locked_def)

lemma works_on_ids:
  assumes "world_inv w" and "works_on w p k"
  shows "k \<in> w_ids w"
proof -
  obtain e es where e: "w_phase w p = Submitting e es" "qe_id e = k" using assms(2) by (auto simp: works_on_def)
  then show ?thesis using world_invD(5) [OF assms(1), of e p] by simp
qed

lemma locked_own:
  assumes "locked k w" and "w_phase w p = Submitting e es" and "qe_id e \<noteq> k \<Longrightarrow> absq s k = absq (w_store w) k"
    and "\<And>e' es'. ph = Submitting e' es' \<Longrightarrow> qe_id e' \<noteq> k"
  shows "locked k (go p ph s w)"
proof (cases "qe_id e = k")
  case True
  then have "works_on w p k" using assms(2) by (simp add: works_on_def)
  then have "\<not> works_on w q k" if "q \<noteq> p" for q using assms(1) that unfolding locked_def by blast
  then show ?thesis using assms(4) by (intro locked_go [OF assms(1)]) blast+
next
  case False
  then show ?thesis using assms(3,4) by (intro locked_same [OF assms(1)]) simp_all
qed

lemma drain_step_locked:
  assumes "drain_step m w w'" and inv: "world_inv w" and lock: "locked k w" and "\<not> unlocking k m"
  shows "locked k w'"
  using assms(1)
proof cases
  case (enqueued k' now type payload k'' s')
  then have s': "s' = put_entry (new_entry k' now type payload) (w_store w)"
    by (auto simp: enqueue_absq world_invD(1) [OF inv] split: if_splits)
  have works: "works_on w' p k = works_on w p k" for p unfolding enqueued(2) by (simp add: works_on_def)
  show ?thesis
  proof (cases "k' = k")
    case True
    then have "\<not> works_on w p k" for p using works_on_ids [OF inv] enqueued(3) by blast
    then show ?thesis by (simp add: locked_def works)
  next
    case False
    then have "absq s' k = absq (w_store w) k" by (simp add: s' absq_put) (simp add: new_entry_def)
    then have "absq (w_store w') k = absq (w_store w) k" unfolding enqueued(2) by simp
    then show ?thesis using lock by (simp add: locked_def works)
  qed
next
  case (removed k')
  have works: "works_on w' p k = works_on w p k" for p unfolding removed(2) by (simp add: works_on_def)
  have "absq (w_store w') k = (if k = k' then None else absq (w_store w) k)" unfolding removed(2) by (simp add: absq_remove)
  then show ?thesis using lock by (auto simp: locked_def works)
next
  case (read_stuck i now)
  show ?thesis unfolding read_stuck(2) by (rule locked_same [OF lock]) simp_all
next
  case (unread i now)
  show ?thesis unfolding unread(2) by (rule locked_same [OF lock]) simp_all
next
  case (reset i e es now)
  then have "qe_id e \<noteq> k" using assms(4) by (auto simp: unlocking_def)
  then show ?thesis unfolding reset(2)
    by (intro locked_same [OF lock]) (simp_all add: reset_clean(2) [OF world_invD(1) [OF inv]])
next
  case (reset_throws i e es)
  show ?thesis unfolding reset_throws(2) by (rule locked_same [OF lock]) simp_all
next
  case (snapshot i now)
  show ?thesis unfolding snapshot(2) by (rule locked_same [OF lock]) simp_all
next
  case (claim i e es now s')
  obtain x where x: "absq (w_store w) (qe_id e) = Some x" "qe_status x \<noteq> Processing"
    "s' = put_entry (claimed now x) (w_store w)" "entry_ok x" "qe_id x = qe_id e"
    by (rule claimEntry_True [OF world_invD(1) [OF inv] claim(4)])
  show ?thesis
  proof (cases "qe_id e = k")
    case True
    then have none: "\<not> works_on w p k" for p using lock x(1,2) unfolding locked_def by blast
    have "absq s' k = Some (claimed now x)" using x(3-5) True by (simp add: absq_put)
    then show ?thesis using none unfolding claim(2) by (simp add: locked_def works_on_go)
  next
    case False
    then show ?thesis unfolding claim(2)
      by (intro locked_same [OF lock]) (use x in \<open>simp_all add: absq_put\<close>)
  qed
next
  case (skip i e es now s')
  have "s' = w_store w" using claimEntry_False [OF world_invD(1) [OF inv] skip(4)] .
  then show ?thesis unfolding skip(2) by (intro locked_same [OF lock]) simp_all
next
  case (claim_throws i e es)
  show ?thesis unfolding claim_throws(2) by (rule locked_same [OF lock]) simp_all
next
  case (submitted p e es)
  show ?thesis unfolding submitted(2) by (rule locked_own [OF lock submitted(3)]) (simp_all add: absq_remove)
next
  case (failed i e es now message)
  have e: "e \<in> set (held_entries (w_phase w (Page i)))" using failed(3) by simp
  have "0 \<le> qe_retryCount e + 1" "qe_retryCount e + 1 \<le> MAX_RETRIES"
    using world_invD(3,4) [OF inv e] entry_okD [of e] by simp_all
  note f = fail_clean(2) [OF world_invD(1) [OF inv] this]
  show ?thesis unfolding failed(2) by (rule locked_own [OF lock failed(3)]) (simp_all add: f)
next
  case (worker_read i now)
  show ?thesis unfolding worker_read(2) by (rule locked_same [OF lock]) simp_all
next
  case (worker_take i e es now)
  have e: "e \<in> set (held_entries (w_phase w (Worker i)))" using worker_take(3) by simp
  have "qe_id e \<noteq> k" using worker_take(1) assms(4) by (auto simp: unlocking_def)
  then show ?thesis unfolding worker_take(2)
    by (intro locked_same [OF lock]) (use world_invD(3) [OF inv e] in \<open>simp_all add: absq_put\<close>)
next
  case (worker_failed i e es now message)
  have e: "e \<in> set (held_entries (w_phase w (Worker i)))" using worker_failed(3) by simp
  have "entry_ok (fail_patch now message (qe_retryCount e + 1) e)"
    using world_invD(3,4) [OF inv e] entry_okD [of e] by (simp add: entry_ok_fail_patch)
  then show ?thesis unfolding worker_failed(2)
    by (intro locked_own [OF lock worker_failed(3)]) (simp_all add: absq_put)
next
  case (stopped p)
  show ?thesis unfolding stopped(2) by (rule locked_same [OF lock]) simp_all
qed

lemma drains_locked:
  assumes "drains moves w" and "\<forall>m \<in> set moves. \<not> unlocking k m"
  shows "locked k w"
  using assms
proof (induction rule: drains.induct)
  case drains_start
  show ?case by (simp add: locked_def works_on_def start_world_def)
next
  case (drains_step moves w m w')
  then show ?case using drain_step_locked [OF drains_step.hyps(2) drains_inv [OF drains_step.hyps(1)]] by simp
qed

text \<open>C1. However many pages and service workers drain the queue, however their steps interleave and
  wherever they stop: if two of them submit the same entry at the same time, then the entry was
  reset by the recovery of stuck entries of a page, or taken by a service worker, which claims
  nothing. The claim of the pages is a lock against everything else.\<close>

theorem no_double_claim:
  assumes "drains moves w" and "works_on w p k" "works_on w q k" and "p \<noteq> q"
  shows "\<exists>r now. Resets r k now \<in> set moves \<or> Takes r k now \<in> set moves"
proof (rule ccontr)
  assume *: "\<not> ?thesis"
  have "locked k w" by (rule drains_locked [OF assms(1)]) (use * in \<open>auto simp: unlocking_def\<close>)
  then show False using assms(2-4) unfolding locked_def by blast
qed

section \<open>The two ways round the lock\<close>

lemma put_entry_twice: "qe_id e = qe_id e' \<Longrightarrow> put_entry e (put_entry e' []) = put_entry e []"
  by (simp add: put_entry_def)

lemma claim_single:
  assumes "entry_ok e" "claimable e"
  shows "claimEntry t (qe_id e) (put_entry e []) = (True, put_entry (claimed t e) [])"
proof -
  have "clean (put_entry e [])" "absq (put_entry e []) (qe_id e) = Some e"
    using assms by (simp_all add: clean_put absq_put)
  from claimEntry_claimable [OF this assms(2)] show ?thesis
    by (simp add: put_entry_twice)
qed

lemma new_entry_facts:
  "qe_id (new_entry k t type payload) = k" "qe_payload (new_entry k t type payload) = payload"
  "isRetryable (new_entry k t type payload) now" "claimable (new_entry k t type payload)"
  "\<not> is_stuck now (new_entry k t type payload)"
  by (simp_all add: new_entry_def isRetryable_def claimable_def is_stuck_def MAX_RETRIES_def)

lemma reset_single:
  assumes "entry_ok e"
  shows "reset_entry now (qe_id e) (put_entry e []) = put_entry (e\<lparr>qe_status := Pending\<rparr>) []"
  using assms by (simp add: reset_entry_def updateEntry_absq clean_put absq_put put_entry_twice)

text \<open>A world of one entry, in the state the drains \<open>ph\<close> are in.\<close>

abbreviation one_entry :: "string \<Rightarrow> queue_entry \<Rightarrow> (party \<Rightarrow> phase) \<Rightarrow> world" where
  "one_entry k e ph \<equiv> \<lparr>w_store = put_entry e [], w_phase = ph, w_ids = {k}\<rparr>"

lemma drains_enqueue:
  "drains [Enqueues k] (one_entry k (new_entry k now type payload) (\<lambda>_. Idle))"
proof -
  have "enqueue k now type payload (w_store start_world) = Inr (k, put_entry (new_entry k now type payload) [])"
    by (simp add: start_world_def enqueue_absq)
  from enqueued [OF _ this] have "drain_step (Enqueues k) start_world
      (one_entry k (new_entry k now type payload) (\<lambda>_. Idle))"
    by (simp add: start_world_def)
  from drains_step [OF drains_start this] show ?thesis by simp
qed

text \<open>The steps of a page over a store of one entry.\<close>

lemma page_reads_stuck:
  assumes "drains moves (one_entry k e ph)" and "ph (Page i) = Idle" and "entry_ok e"
  shows "drains (moves @ [Reads (Page i) now]) (one_entry k e (ph(Page i := Recovering (if is_stuck now e then [e] else []))))"
  using drains_step [OF assms(1) read_stuck [where i = i and now = now]] assms(2,3)
  by (simp add: go_def getAll_single if_distrib [of Recovering] cong: if_cong)

lemma page_resets:
  assumes "drains moves (one_entry k e ph)" and "ph (Page i) = Recovering [x]" and "entry_ok e" and "qe_id x = qe_id e"
  shows "drains (moves @ [Resets (Page i) (qe_id e) now]) (one_entry k (e\<lparr>qe_status := Pending\<rparr>) (ph(Page i := Recovering [])))"
  using drains_step [OF assms(1) reset [where i = i and now = now and e = x and es = "[]"]] assms(2-4)
  by (simp add: go_def reset_single)

lemma page_reads:
  assumes "drains moves (one_entry k e ph)" and "ph (Page i) = Recovering []" and "entry_ok e" and "isRetryable e now"
  shows "drains (moves @ [Reads (Page i) now]) (one_entry k e (ph(Page i := Draining [e])))"
  using drains_step [OF assms(1) snapshot [where i = i and now = now]] assms(2-4)
  by (simp add: go_def getAll_single)

lemma page_claims:
  assumes "drains moves (one_entry k e ph)" and "ph (Page i) = Draining [e]" and "entry_ok e" and "claimable e"
  shows "drains (moves @ [Claims (Page i) (qe_id e) now]) (one_entry k (claimed now e) (ph(Page i := Submitting e [])))"
  using drains_step [OF assms(1) claim [where i = i and now = now and e = e and es = "[]"]] assms(2-4)
  by (simp add: go_def claim_single)

text \<open>An entry that is not spent, when it is pending.\<close>

abbreviation fresh :: "queue_entry \<Rightarrow> bool" where
  "fresh e \<equiv> entry_ok e \<and> qe_retryCount e = 0 \<and> qe_nextRetryAt e = None"

lemma fresh_new: "fresh (new_entry k t type payload)"
  by (simp) (simp add: new_entry_def)

lemma fresh_kept: "fresh e \<Longrightarrow> fresh (claimed t e)" "fresh e \<Longrightarrow> fresh (e\<lparr>qe_status := st\<rparr>)"
  by (simp_all) (simp add: claimed_def)

lemma fresh_pending: "fresh e \<Longrightarrow> isRetryable (e\<lparr>qe_status := Pending\<rparr>) now \<and> claimable (e\<lparr>qe_status := Pending\<rparr>)"
  by (simp add: isRetryable_def claimable_def MAX_RETRIES_def)

lemma page_recovers:
  assumes "drains moves (one_entry k e ph)" and "ph (Page i) = Recovering [x]" and "fresh e"
    and "qe_id e = k" "qe_id x = k"
  shows "drains (moves @ [Resets (Page i) k now, Reads (Page i) now, Claims (Page i) k now])
    (one_entry k (claimed now (e\<lparr>qe_status := Pending\<rparr>)) (ph(Page i := Submitting (e\<lparr>qe_status := Pending\<rparr>) [])))"
proof -
  let ?f = "e\<lparr>qe_status := Pending\<rparr>"
  have f: "entry_ok ?f" "isRetryable ?f now" "claimable ?f" using assms(3) fresh_pending [OF assms(3), of now] by simp_all
  have "drains (moves @ [Resets (Page i) k now]) (one_entry k ?f (ph(Page i := Recovering [])))"
    using page_resets [OF assms(1,2), of now] assms(3-5) by simp
  from page_reads [OF this _ f(1,2), of i]
  have "drains (moves @ [Resets (Page i) k now, Reads (Page i) now]) (one_entry k ?f (ph(Page i := Draining [?f])))" by simp
  from page_claims [OF this _ f(1,3), of i now] show ?thesis using assms(4) by simp
qed

lemma page_starts:
  assumes "drains moves (one_entry k e ph)" and "ph (Page i) = Idle" and "fresh e" and "qe_id e = k" and "qe_status e = Pending"
  shows "drains (moves @ [Reads (Page i) now, Reads (Page i) now, Claims (Page i) k now])
    (one_entry k (claimed now e) (ph(Page i := Submitting e [])))"
proof -
  have e: "e\<lparr>qe_status := Pending\<rparr> = e" "\<not> is_stuck now e" using assms(5) by (simp_all add: is_stuck_def)
  have f: "entry_ok e" "isRetryable e now" "claimable e" using assms(3) fresh_pending [OF assms(3), of now] e(1) by simp_all
  have "drains (moves @ [Reads (Page i) now]) (one_entry k e (ph(Page i := Recovering [])))"
    using page_reads_stuck [OF assms(1,2) f(1), of now] e(2) by simp
  from page_reads [OF this _ f(1,2), of i]
  have "drains (moves @ [Reads (Page i) now, Reads (Page i) now]) (one_entry k e (ph(Page i := Draining [e])))" by simp
  from page_claims [OF this _ f(1,3), of i now] show ?thesis using assms(4) by simp
qed

text \<open>One page stops while it submits; two others recover the entry together.\<close>

definition crash_moves :: "string \<Rightarrow> int \<Rightarrow> int \<Rightarrow> move list" where
  "crash_moves k t1 t2 =
     [Enqueues k, Reads (Page 2) t1, Reads (Page 2) t1, Claims (Page 2) k t1, Stops (Page 2),
      Reads (Page 0) t2, Reads (Page 1) t2,
      Resets (Page 0) k t2, Reads (Page 0) t2, Claims (Page 0) k t2,
      Resets (Page 1) k t2, Reads (Page 1) t2, Claims (Page 1) k t2]"

lemma crash_run:
  assumes "t1 + PROCESSING_STALE_MS < t2"
  obtains w e e' where "drains (crash_moves k t1 t2) w" "w_phase w (Page 0) = Submitting e []" "w_phase w (Page 1) = Submitting e' []"
    "qe_id e = k" "qe_id e' = k" "qe_payload e = payload" "qe_payload e' = payload"
proof -
  define x where "x = new_entry k t0 type payload"
  have x: "qe_id x = k" "qe_payload x = payload" "fresh x" "qe_status x = Pending"
    unfolding x_def by (simp_all only: new_entry_facts fresh_new) (simp add: new_entry_def)
  define c where "c = claimed t1 x"
  have c: "qe_id c = k" "qe_payload c = payload" "fresh c" "is_stuck t2 c"
    using x(1,2) fresh_kept(1) [OF x(3)] assms by (simp_all add: c_def is_stuck_def) (simp add: claimed_def)
  define f where "f = c\<lparr>qe_status := Pending\<rparr>"
  define d where "d = claimed t2 f"
  have d: "qe_id d = k" "qe_payload d = payload" "fresh d"
    using c fresh_kept by (simp_all add: d_def f_def) (simp add: claimed_def)
  define g where "g = d\<lparr>qe_status := Pending\<rparr>"
  define ph where "ph = ((\<lambda>_. Idle)(Page 2 := Submitting x [], Page 2 := Idle, Page 0 := Recovering [c], Page 1 := Recovering [c]))"
  have "drains [Enqueues k] (one_entry k x (\<lambda>_. Idle))" unfolding x_def by (rule drains_enqueue)
  from page_starts [OF this _ x(3,1,4), of 2 t1]
  have "drains ([Enqueues k] @ [Reads (Page 2) t1, Reads (Page 2) t1, Claims (Page 2) k t1])
      (one_entry k c ((\<lambda>_. Idle)(Page 2 := Submitting x [])))"
    unfolding c_def [symmetric] by simp
  from drains_step [OF this stopped [where p = "Page 2"]]
  have "drains [Enqueues k, Reads (Page 2) t1, Reads (Page 2) t1, Claims (Page 2) k t1, Stops (Page 2)]
      (one_entry k c ((\<lambda>_. Idle)(Page 2 := Submitting x [], Page 2 := Idle)))"
    by (simp add: go_def)
  from page_reads_stuck [OF page_reads_stuck [OF this, of 0 t2], of 1 t2]
  have "drains (([Enqueues k, Reads (Page 2) t1, Reads (Page 2) t1, Claims (Page 2) k t1, Stops (Page 2)] @ [Reads (Page 0) t2])
      @ [Reads (Page 1) t2]) (one_entry k c ph)"
    using c unfolding ph_def by simp
  from page_recovers [OF this _ c(3,1) c(1), of 0 t2, folded f_def, folded d_def]
  have "drains ((([Enqueues k, Reads (Page 2) t1, Reads (Page 2) t1, Claims (Page 2) k t1, Stops (Page 2)] @ [Reads (Page 0) t2])
      @ [Reads (Page 1) t2]) @ [Resets (Page 0) k t2, Reads (Page 0) t2, Claims (Page 0) k t2])
      (one_entry k d (ph(Page 0 := Submitting f [])))"
    by (simp add: ph_def)
  from page_recovers [OF this _ d(3,1) c(1), of 1 t2, folded g_def]
  have "drains (crash_moves k t1 t2) (one_entry k (claimed t2 g) (ph(Page 0 := Submitting f [], Page 1 := Submitting g [])))"
    by (simp add: ph_def crash_moves_def)
  from that [OF this, of f g] show thesis using c(1,2) d(1,2) by (simp add: f_def g_def)
qed



text \<open>An entry with a signed transaction that a page and the service worker drain at the same time is
  submitted by both, and when the worker's submission is refused, its record of the failure puts the
  entry back that the page has submitted and removed: it is left in the queue as failed.\<close>

lemma submitted_entry_comes_back:
  assumes "is_object payload" and "jprop payload ''signedXDR'' = JString xdr" and "xdr \<noteq> []"
  shows "\<exists>moves w w1 w2. drains moves w \<and> works_on w (Page 0) k \<and> works_on w (Worker 0) k
    \<and> drain_step (Settles (Page 0) k) w w1 \<and> absq (w_store w1) k = None
    \<and> drain_step (Settles (Worker 0) k) w1 w2
    \<and> absq (w_store w2) k = Some (fail_patch t2 message 1 (new_entry k t0 type payload))"
proof -
  define x where "x = new_entry k t0 type payload"
  have x: "qe_id x = k" "qe_payload x = payload" "fresh x" "isRetryable x t1" "claimable x" "\<not> is_stuck t1 x" for t1
    by (simp_all only: x_def new_entry_facts fresh_new not_False_eq_True)
  have takes: "worker_takes t1 x" for t1
    using assms x(2) by (simp add: worker_takes_def) (simp add: x_def new_entry_def MAX_RETRIES_def)
  have "drains [Enqueues k] (one_entry k x (\<lambda>_. Idle))" unfolding x_def by (rule drains_enqueue)
  from page_reads_stuck [OF this, of 0 t0] have "drains ([Enqueues k] @ [Reads (Page 0) t0]) (one_entry k x ((\<lambda>_. Idle)(Page 0 := Recovering [])))"
    using x by simp
  from page_reads [OF this, of 0 t0]
  obtain ms1 ph1 where 1: "drains ms1 (one_entry k x ph1)" "ph1 (Page 0) = Draining [x]" "ph1 (Worker 0) = Idle"
    using x by fastforce
  have "drains (ms1 @ [Reads (Worker 0) t0]) (one_entry k x (ph1(Worker 0 := Draining [x])))"
    using drains_step [OF 1(1) worker_read [where i = 0 and now = t0]] 1(3) x(3) takes by (simp add: go_def getAll_single)
  from page_claims [OF this, of 0 t0]
  obtain ms2 ph2 where 2: "drains ms2 (one_entry k (claimed t0 x) ph2)" "ph2 (Page 0) = Submitting x []" "ph2 (Worker 0) = Draining [x]"
    using 1(2) x by fastforce
  define w where "w = one_entry k (claimed t0 x) (ph2(Worker 0 := Submitting x []))"
  have w: "drains (ms2 @ [Takes (Worker 0) k t0]) w"
    using drains_step [OF 2(1) worker_take [where i = 0 and now = t0]] 2(3) x(1) by (simp add: w_def go_def put_entry_twice)
  define w1 where "w1 = go (Page 0) (Draining []) (remove k (w_store w)) w"
  have step1: "drain_step (Settles (Page 0) k) w w1"
    using submitted [of w "Page 0" x "[]"] 2(2) x(1) by (simp add: w_def w1_def)
  define w2 where "w2 = go (Worker 0) (Draining []) (put_entry (fail_patch t2 message 1 x) (w_store w1)) w1"
  have step2: "drain_step (Settles (Worker 0) k) w1 w2"
    using worker_failed [of w1 0 x "[]" t2 message] x(1,3) by (simp add: w_def w1_def w2_def)
  have "entry_ok (fail_patch t2 message 1 x)" using x(3) by (simp add: entry_ok_fail_patch MAX_RETRIES_def)
  then have "absq (w_store w1) k = None" "absq (w_store w2) k = Some (fail_patch t2 message 1 x)"
    using x(1) by (simp_all add: w1_def w2_def absq_remove absq_put)
  moreover have "works_on w (Page 0) k" "works_on w (Worker 0) k"
    using 2(2) x(1) by (simp_all add: works_on_def w_def)
  ultimately show ?thesis using w step1 step2 unfolding x_def by blast
qed

abbreviation signed_payload :: jsval where
  "signed_payload \<equiv> JObject [(''signedXDR'', JString ''AAAA'')]"

theorem submitted_entry_comes_back_example:
  "\<exists>moves w w1 w2. drains moves w \<and> works_on w (Page 0) ''a'' \<and> works_on w (Worker 0) ''a''
    \<and> drain_step (Settles (Page 0) ''a'') w w1 \<and> absq (w_store w1) ''a'' = None
    \<and> drain_step (Settles (Worker 0) ''a'') w1 w2
    \<and> absq (w_store w2) ''a'' = Some (fail_patch 9 ''tx_bad_seq'' 1 (new_entry ''a'' 5 ''swap'' signed_payload))"
  by (rule submitted_entry_comes_back [of _ "''AAAA''"]) simp_all

section \<open>A run that breaks the lock, for the theorem about it\<close>

theorem no_double_claim_witness:
  "\<exists>r now. Resets r ''a'' now \<in> set (crash_moves ''a'' 5 40000) \<or> Takes r ''a'' now \<in> set (crash_moves ''a'' 5 40000)"
proof -
  have late: "5 + PROCESSING_STALE_MS < 40000" by (simp add: PROCESSING_STALE_MS_def)
  obtain w e e' where w: "drains (crash_moves ''a'' 5 40000) w" "w_phase w (Page 0) = Submitting e []" "w_phase w (Page 1) = Submitting e' []"
      "qe_id e = ''a''" "qe_id e' = ''a''" "qe_payload e = JNull" "qe_payload e' = JNull"
    by (rule crash_run [OF late])
  then have "works_on w (Page 0) ''a''" "works_on w (Page 1) ''a''" by (auto simp: works_on_def)
  from no_double_claim [OF w(1) this] show ?thesis by simp
qed

end
