(* ===== verification/LegacyQueue.thy ===== *)
theory LegacyQueue
  imports OfflineQueue
begin

text \<open>
  The signed-XDR queue of \<open>frontend/lib/offlineQueue.ts\<close> (its second layer), the database
  upgrade both layers share, and the deprecated action store.
\<close>

section \<open>Schema upgrade\<close>

definition ENTRIES_STORE :: string where "ENTRIES_STORE = ''entries''"
definition TX_STORE :: string where "TX_STORE = ''transactions''"
definition ACTIONS_STORE :: string where "ACTIONS_STORE = ''actions''"

text \<open>\<open>createObjectStore\<close> under a \<open>contains\<close> guard.\<close>

definition ensure_store :: "bool \<Rightarrow> string \<Rightarrow> string list \<Rightarrow> string list" where
  "ensure_store due name names = (if due \<and> name \<notin> set names then names @ [name] else names)"

definition onupgradeneeded :: "nat \<Rightarrow> string list \<Rightarrow> string list" where
  "onupgradeneeded oldVersion names =
     ensure_store (oldVersion < 3) ENTRIES_STORE
       (ensure_store (oldVersion < 2) TX_STORE
         (ensure_store (oldVersion < 1) ACTIONS_STORE names))"

section \<open>Records and operations\<close>

datatype tx_status = Queued | Submitting | Submitted | TxFailed

record queued_tx =
  qt_id :: string
  qt_signedXDR :: string
  qt_destination :: string
  qt_amount :: string
  qt_asset :: string
  qt_createdAt :: int
  qt_status :: tx_status
  qt_error :: "string option"
  qt_attempts :: int

record tx_metadata =
  tm_destination :: string
  tm_amount :: string
  tm_asset :: "string option"

record tx_report =
  rp_destination :: string
  rp_amount :: string
  rp_asset :: string
  rp_success :: bool
  rp_error :: "string option"

type_synonym tx_store = "(string, queued_tx) ostore"

definition queueTransaction ::
  "string \<Rightarrow> int \<Rightarrow> string \<Rightarrow> tx_metadata \<Rightarrow> tx_store \<Rightarrow> idb_error + tx_store" where
  "queueTransaction i now signedXDR metadata s =
     (let r = \<lparr>qt_id = i, qt_signedXDR = signedXDR, qt_destination = tm_destination metadata,
        qt_amount = tm_amount metadata,
        qt_asset = (case tm_asset metadata of None \<Rightarrow> ''XLM'' | Some a \<Rightarrow> a),
        qt_createdAt = now, qt_status = Queued, qt_error = None, qt_attempts = 0\<rparr>
      in os_add (qt_id r) r s)"

definition getQueuedTransactions :: "tx_store \<Rightarrow> queued_tx list" where
  "getQueuedTransactions s =
     js_sort (\<lambda>a b. num_sub (ms (qt_createdAt a)) (ms (qt_createdAt b))) (os_values s)"

definition awaiting :: "queued_tx \<Rightarrow> bool" where
  "awaiting t = (qt_status t = Queued \<or> qt_status t = TxFailed)"

text \<open>Both stores may fail to open; the count then treats them as empty.\<close>

definition getQueueCount :: "int \<Rightarrow> tx_store option \<Rightarrow> entry_store option \<Rightarrow> nat" where
  "getQueueCount now legacy generic =
     (let l = (case legacy of None \<Rightarrow> [] | Some s \<Rightarrow> getQueuedTransactions s);
          g = (case generic of None \<Rightarrow> [] | Some s \<Rightarrow> getAll now s);
          legacyPending = length (filter awaiting l);
          genericPending = length g
      in legacyPending + genericPending)"

definition removeTransaction :: "string \<Rightarrow> tx_store \<Rightarrow> tx_store" where
  "removeTransaction i s = os_del i s"

definition updateTransaction :: "queued_tx \<Rightarrow> tx_store \<Rightarrow> tx_store" where
  "updateTransaction r s = os_put (qt_id r) r s"

definition report_of :: "queued_tx \<Rightarrow> string option \<Rightarrow> tx_report" where
  "report_of r err = \<lparr>rp_destination = qt_destination r, rp_amount = qt_amount r,
     rp_asset = qt_asset r, rp_success = (err = None), rp_error = err\<rparr>"

definition failed_tx :: "string \<Rightarrow> queued_tx \<Rightarrow> queued_tx" where
  "failed_tx message r =
     r\<lparr>qt_status := TxFailed, qt_error := Some message, qt_attempts := qt_attempts r + 1\<rparr>"

definition replay_record ::
  "net_env \<Rightarrow> queued_tx \<Rightarrow> tx_store \<times> tx_report list \<Rightarrow> tx_store \<times> tx_report list" where
  "replay_record env r sr =
     (case sr of (s, results) \<Rightarrow>
        (let s1 = updateTransaction (r\<lparr>qt_status := Submitting\<rparr>) s
         in case submitXDRToHorizon env (qt_signedXDR r) of
              Inr u \<Rightarrow> (removeTransaction (qt_id r) s1, results @ [report_of r None])
            | Inl message \<Rightarrow>
                (updateTransaction (failed_tx message r) s1, results @ [report_of r (Some message)])))"

fun replay ::
  "(nat \<Rightarrow> net_env) \<Rightarrow> nat \<Rightarrow> queued_tx list \<Rightarrow> tx_store \<times> tx_report list \<Rightarrow> tx_store \<times> tx_report list"
where
  "replay env i [] sr = sr"
| "replay env i (r # rs) sr = replay env (Suc i) rs (replay_record (env i) r sr)"

text \<open>The store after the run and the \<open>finchippay:queue-results\<close> detail, if one is dispatched.\<close>

definition processQueue ::
  "(nat \<Rightarrow> net_env) \<Rightarrow> tx_store option \<Rightarrow> tx_store option \<times> tx_report list option" where
  "processQueue env db =
     (case db of
        None \<Rightarrow> (None, None)
      | Some s \<Rightarrow>
          (let pending = filter awaiting (getQueuedTransactions s)
           in case replay env 0 pending (s, []) of
                (s', results) \<Rightarrow> (Some s', if results = [] then None else Some results)))"

section \<open>The deprecated action store\<close>

text \<open>An auto-increment store: the key generator and the records.\<close>

record action_rec =
  ac_type :: string
  ac_payload :: jsval
  ac_queuedAt :: int

record action_store =
  as_next :: nat
  as_records :: "(nat, action_rec) ostore"

definition queueAction :: "int \<Rightarrow> string \<Rightarrow> jsval \<Rightarrow> action_store \<Rightarrow> action_store" where
  "queueAction now type payload s =
     s\<lparr>as_next := Suc (as_next s),
       as_records := os_put (as_next s)
         \<lparr>ac_type = type, ac_payload = payload, ac_queuedAt = now\<rparr> (as_records s)\<rparr>"

definition getQueuedActions :: "action_store \<Rightarrow> (nat \<times> action_rec) list" where
  "getQueuedActions s = os_all (as_records s)"

definition clearQueuedAction :: "nat \<Rightarrow> action_store \<Rightarrow> action_store" where
  "clearQueuedAction i s = s\<lparr>as_records := os_del i (as_records s)\<rparr>"

section \<open>The schema\<close>

definition schema :: "nat \<Rightarrow> string list" where
  "schema v = take v [ACTIONS_STORE, TX_STORE, ENTRIES_STORE]"

text \<open>Every earlier schema upgrades to the current one: from any old version, with the
stores that version had, the upgrade leaves the three stores, each once, oldest first.\<close>

lemma upgrade_reaches_current: "onupgradeneeded v (schema v) = schema 3"
proof -
  consider "v = 0" | "v = 1" | "v = 2" | "3 \<le> v" by linarith
  then show ?thesis
    by cases (simp_all add: onupgradeneeded_def schema_def ensure_store_def ENTRIES_STORE_def
        TX_STORE_def ACTIONS_STORE_def)
qed

section \<open>Replaying the queue\<close>

definition keyed :: "tx_store \<Rightarrow> bool" where
  "keyed s \<longleftrightarrow> os_wf s \<and> (\<forall>k r. os_get s k = Some r \<longrightarrow> qt_id r = k)"

definition tx_outcome :: "net_env \<Rightarrow> queued_tx \<Rightarrow> queued_tx option" where
  "tx_outcome env r =
     (case submitXDRToHorizon env (qt_signedXDR r) of
        Inr u \<Rightarrow> None | Inl m \<Rightarrow> Some (failed_tx m r))"

definition tx_report_of :: "net_env \<Rightarrow> queued_tx \<Rightarrow> tx_report" where
  "tx_report_of env r =
     report_of r (case submitXDRToHorizon env (qt_signedXDR r) of Inr u \<Rightarrow> None | Inl m \<Rightarrow> Some m)"

lemma failed_tx_id [simp]: "qt_id (failed_tx m r) = qt_id r"
  by (simp add: failed_tx_def)

lemma replay_record_get:
  "os_get (fst (replay_record env r (s, out))) = (os_get s)(qt_id r := tx_outcome env r)"
  "snd (replay_record env r (s, out)) = out @ [tx_report_of env r]"
  by (auto simp: replay_record_def updateTransaction_def removeTransaction_def tx_outcome_def
      tx_report_of_def Let_def idb_get fun_eq_iff split: sum.split)

lemma replay_record_keyed: "keyed s \<Longrightarrow> keyed (fst (replay_record env r (s, out)))"
  by (auto simp: keyed_def replay_record_def updateTransaction_def removeTransaction_def Let_def
      os_wf_put os_wf_del idb_get split: sum.splits if_splits)

lemma replay_get:
  assumes "distinct (map qt_id rs)"
  shows "(\<forall>j < length rs. os_get (fst (replay env i rs (s, out))) (qt_id (rs ! j)) =
       tx_outcome (env (i + j)) (rs ! j)) \<and>
     (\<forall>k. k \<notin> qt_id ` set rs \<longrightarrow> os_get (fst (replay env i rs (s, out))) k = os_get s k) \<and>
     snd (replay env i rs (s, out)) = out @ map (\<lambda>j. tx_report_of (env (i + j)) (rs ! j)) [0..<length rs]"
  using assms
proof (induction rs arbitrary: i s out)
  case (Cons r rs)
  obtain s1 where s1: "replay_record (env i) r (s, out) = (s1, out @ [tx_report_of (env i) r])"
    using replay_record_get(2) [of "env i" r s out] by (metis prod.collapse)
  have get: "os_get s1 = (os_get s)(qt_id r := tx_outcome (env i) r)"
    using replay_record_get(1) [of "env i" r s out] by (simp add: s1)
  have d: "distinct (map qt_id rs)" "qt_id r \<notin> qt_id ` set rs"
    using Cons.prems by simp_all
  note IH = Cons.IH [OF d(1), of "Suc i" s1 "out @ [tx_report_of (env i) r]"]
  have "os_get (fst (replay env i (r # rs) (s, out))) (qt_id ((r # rs) ! j)) =
      tx_outcome (env (i + j)) ((r # rs) ! j)" if "j < length (r # rs)" for j
    using that IH d(2) by (cases j) (simp_all add: s1 get)
  moreover have "map (\<lambda>j. tx_report_of (env (i + j)) ((r # rs) ! j)) [0..<length (r # rs)] =
      tx_report_of (env i) r # map (\<lambda>j. tx_report_of (env (Suc i + j)) (rs ! j)) [0..<length rs]"
    by (simp add: upt_conv_Cons map_Suc_upt [symmetric] del: upt_Suc)
  ultimately show ?case
    using IH by (simp add: s1 get)
qed simp

definition pending_txs :: "tx_store \<Rightarrow> queued_tx list" where
  "pending_txs s = filter awaiting (sort_key qt_createdAt (os_values s))"

lemma getQueuedTransactions_sorted: "getQueuedTransactions s = sort_key qt_createdAt (os_values s)"
  unfolding getQueuedTransactions_def by (rule js_sort_key) simp

lemma keyed_ids: "keyed s \<Longrightarrow> map qt_id (os_values s) = map fst s"
  using os_get_iff [of s] by (auto simp: keyed_def)

lemma pending_distinct:
  assumes "keyed s"
  shows "distinct (map qt_id (pending_txs s))"
proof -
  have "distinct (map qt_id (os_values s))"
    unfolding keyed_ids [OF assms] using assms idb.all_distinct [of s]
    by (simp add: keyed_def os_all_def)
  then show ?thesis
    by (simp add: pending_txs_def distinct_map_filter)
qed

lemma processQueue_pending:
  "processQueue env (Some s) =
     (let sr = replay env 0 (pending_txs s) (s, [])
      in (Some (fst sr), if snd sr = [] then None else Some (snd sr)))"
  by (simp add: processQueue_def getQueuedTransactions_sorted pending_txs_def Let_def
      split: prod.split)

text \<open>C21. Replaying the legacy queue submits the queued and failed transactions, oldest first:
the \<open>j\<close>-th of them is removed when Horizon accepts it and kept as failed with one more attempt
otherwise, every other record is left alone, and the dispatched results list the outcomes in
that order.\<close>

theorem processQueue_replays:
  assumes "keyed s"
  shows "\<exists>s'. processQueue env (Some s) =
       (Some s', if pending_txs s = [] then None
                 else Some (map (\<lambda>j. tx_report_of (env j) (pending_txs s ! j)) [0..<length (pending_txs s)])) \<and>
     (\<forall>j < length (pending_txs s).
        os_get s' (qt_id (pending_txs s ! j)) = tx_outcome (env j) (pending_txs s ! j)) \<and>
     (\<forall>k. k \<notin> qt_id ` set (pending_txs s) \<longrightarrow> os_get s' k = os_get s k)"
  using replay_get [OF pending_distinct [OF assms], where env = env and i = 0 and s = s and out = "[]"]
  by (simp add: processQueue_pending Let_def)

definition sample_tx :: queued_tx where
  "sample_tx = \<lparr>qt_id = ''t'', qt_signedXDR = ''AAAA'', qt_destination = ''G'', qt_amount = ''1'',
     qt_asset = ''XLM'', qt_createdAt = 3, qt_status = Queued, qt_error = None, qt_attempts = 0\<rparr>"

definition online_env :: "nat \<Rightarrow> net_env" where
  "online_env = (\<lambda>_. \<lparr>post_tx = (\<lambda>_. Responded \<lparr>resp_ok = True, resp_status = 200,
     resp_statusText = ''OK'', resp_json = None\<rparr>), build_tx = Inr \<circ> (\<lambda>_. []),
     sign_tx = (\<lambda>_. (None, None)), to_text = (\<lambda>_. [])\<rparr>)"

lemma keyed_single: "keyed [(qt_id r, r)]"
  by (simp add: keyed_def os_wf_def os_get_def)

theorem processQueue_replays_witness:
  "\<exists>s'. fst (processQueue online_env (Some [(''t'', sample_tx)])) = Some s' \<and> os_get s' ''t'' = None"
proof -
  have id: "qt_id sample_tx = ''t''" by (simp add: sample_tx_def)
  have p: "pending_txs [(''t'', sample_tx)] = [sample_tx]"
    by (simp add: pending_txs_def awaiting_def sample_tx_def)
  have o: "tx_outcome (online_env 0) sample_tx = None"
    by (simp add: tx_outcome_def submitXDRToHorizon_def online_env_def)
  have k: "keyed [(''t'', sample_tx)]"
    using keyed_single [of sample_tx] by (simp add: id)
  from processQueue_replays [OF k, of online_env] show ?thesis
    by (auto simp: p o id)
qed

text \<open>A record left in \<open>submitting\<close> (the tab was closed between the update and the answer) is
lost to the legacy queue: no run submits, changes or removes it, and the pending count skips
it. The generic queue recovers such entries, this one does not.\<close>

lemma submitting_record_stranded:
  assumes "keyed s" and "os_get s k = Some r" "qt_status r = Submitting"
  shows "\<exists>s'. fst (processQueue env (Some s)) = Some s' \<and> os_get s' k = Some r \<and>
     \<not> awaiting r"
proof -
  have "k \<notin> qt_id ` set (pending_txs s)"
  proof
    assume "k \<in> qt_id ` set (pending_txs s)"
    then obtain x where x: "x \<in> snd ` set s" "awaiting x" "k = qt_id x"
      by (auto simp: pending_txs_def)
    then obtain k' where "(k', x) \<in> set s" by auto
    then have "os_get s k' = Some x" using assms(1) by (simp add: keyed_def os_get_iff)
    moreover from this have "k' = k" using assms(1) x(3) by (simp add: keyed_def)
    ultimately show False using assms(2,3) x(2) by (simp add: awaiting_def)
  qed
  with processQueue_replays [OF assms(1), of env] assms(2,3) show ?thesis
    by (auto simp: awaiting_def)
qed

theorem submitting_record_stranded_example:
  "\<exists>s'. fst (processQueue online_env (Some [(''t'', sample_tx\<lparr>qt_status := Submitting\<rparr>)])) = Some s' \<and>
     os_get s' ''t'' = Some (sample_tx\<lparr>qt_status := Submitting\<rparr>)"
proof -
  let ?r = "sample_tx\<lparr>qt_status := Submitting\<rparr>"
  have k: "keyed [(''t'', ?r)]"
    using keyed_single [of ?r] by (simp add: sample_tx_def)
  have g: "os_get [(''t'', ?r)] ''t'' = Some ?r"
    by (simp add: os_get_def)
  from submitting_record_stranded [OF k g, of online_env] show ?thesis
    by auto
qed

end
