(* ===== verification/PaymentLinks.thy ===== *)
theory PaymentLinks
  imports JsText JsDict "HOL-Library.Word"
begin

text \<open>
  \<open>frontend/lib/paymentLinks.ts\<close>: building and parsing payment request links, the stable link
  id, and the local records of generated links with the markers of redeemed ones.

  The platform decodes query strings, base64 JSON and dates: \<open>decodeBase64Json\<close>,
  \<open>Date.parse\<close> and \<open>String\<close> of a value that is no string are arguments.
\<close>

unbundle bit_operations_syntax

section \<open>Types\<close>

definition RECORD_TTL_MS :: int where
  "RECORD_TTL_MS = 24 * 60 * 60 * 1000"

datatype link_status = LinkPending | LinkRedeemed | LinkExpired

record link_payload =
  pl_destination :: string
  pl_amount :: string
  pl_memo :: "string option"
  pl_validUntil :: "int option"

record link_record =
  lr_id :: string
  lr_payload :: link_payload
  lr_url :: string
  lr_status :: link_status
  lr_createdAt :: int

datatype query_value = QAbsent | QString string | QList "string list"

type_synonym link_query = "string \<Rightarrow> query_value"

datatype parse_reason = Missing | Malformed | InvalidExpiry

record platform =
  decodeBase64Json :: "string \<Rightarrow> jsval option"  \<comment> \<open>\<open>None\<close>: it throws\<close>
  dateParse :: "string \<Rightarrow> int option"          \<comment> \<open>\<open>None\<close>: NaN\<close>
  stringOf :: "jsval \<Rightarrow> string"

section \<open>Parsing\<close>

fun getQueryString :: "query_value \<Rightarrow> string option" where
  "getQueryString QAbsent = None"
| "getQueryString (QString s) = Some s"
| "getQueryString (QList []) = None"
| "getQueryString (QList (x # _)) = Some x"

text \<open>\<open>Inl ()\<close> is NaN, \<open>Inr None\<close> is null.\<close>

definition finite_expiry :: "rat \<Rightarrow> int" where
  "finite_expiry n = (if 0 < n \<and> n < 1000000000000 then trunc (n * 1000) else trunc n)"

definition normalizeExpiry :: "platform \<Rightarrow> jsval \<Rightarrow> unit + int option" where
  "normalizeExpiry pf v =
     (if nullish v \<or> v = JString [] then Inr None
      else case (case v of JNumber n \<Rightarrow> n | JString s \<Rightarrow> toNumber (trim s) | _ \<Rightarrow> JsNaN) of
        Fin n \<Rightarrow> Inr (Some (finite_expiry n))
      | _ \<Rightarrow>
        (case v of
           JString s \<Rightarrow> (case dateParse pf s of Some t \<Rightarrow> Inr (Some t) | None \<Rightarrow> Inl ())
         | _ \<Rightarrow> Inl ()))"

definition or_undefined :: "string \<Rightarrow> string option" where
  "or_undefined s = (if s = [] then None else Some s)"

definition coercePayload :: "platform \<Rightarrow> jsval \<Rightarrow> parse_reason + link_payload" where
  "coercePayload pf raw =
     (if \<not> is_object raw then Inl Malformed
      else
        (let destination =
               (case jprop raw ''destination'' of
                  JString d \<Rightarrow> trim d
                | _ \<Rightarrow> (case jprop raw ''to'' of JString d \<Rightarrow> trim d | _ \<Rightarrow> []));
             amount =
               (case jprop raw ''amount'' of
                  JUndefined \<Rightarrow> [] | JNull \<Rightarrow> [] | JString a \<Rightarrow> trim a
                | v \<Rightarrow> trim (stringOf pf v));
             memo = (case jprop raw ''memo'' of JString m \<Rightarrow> trim m | _ \<Rightarrow> []);
             expiryValue =
               coalesce (jprop raw ''validUntil'') (coalesce (jprop raw ''expires'') (jprop raw ''expiry''));
             validUntil = normalizeExpiry pf expiryValue
         in if destination = [] \<or> amount = [] then Inl Missing
            else case validUntil of
              Inl _ \<Rightarrow> Inl InvalidExpiry
            | Inr t \<Rightarrow>
                Inr \<lparr>pl_destination = destination, pl_amount = amount,
                  pl_memo = or_undefined memo, pl_validUntil = t\<rparr>))"

fun opt_js :: "string option \<Rightarrow> jsval" where
  "opt_js None = JUndefined"
| "opt_js (Some s) = JString s"

definition first_some :: "'a option \<Rightarrow> 'a option \<Rightarrow> 'a option" where
  "first_some a b = (case a of None \<Rightarrow> b | Some x \<Rightarrow> Some x)"

definition parsePaymentLinkQuery :: "platform \<Rightarrow> link_query \<Rightarrow> parse_reason + link_payload" where
  "parsePaymentLinkQuery pf q =
     (case getQueryString (q ''data'') of
        Some (c # cs) \<Rightarrow>
          (case decodeBase64Json pf (c # cs) of
             None \<Rightarrow> Inl Malformed
           | Some v \<Rightarrow> coercePayload pf v)
      | _ \<Rightarrow>
          (let to = getQueryString (q ''to'');
               amount = getQueryString (q ''amount'');
               memo = getQueryString (q ''memo'');
               expires = first_some (getQueryString (q ''expires''))
                 (first_some (getQueryString (q ''expiry'')) (getQueryString (q ''validUntil'')))
           in coercePayload pf (JObject [(''to'', opt_js to), (''amount'', opt_js amount),
                (''memo'', opt_js memo), (''expires'', opt_js expires)])))"

section \<open>Building\<close>

text \<open>The search parameters set on \<open>new URL("/pay", origin)\<close>, in order.\<close>

definition buildPaymentLinkUrl :: "link_payload \<Rightarrow> (string \<times> string) list" where
  "buildPaymentLinkUrl p =
     [(''to'', trim (pl_destination p)), (''amount'', trim (pl_amount p))]
     @ (case pl_memo p of
          None \<Rightarrow> [] | Some m \<Rightarrow> if trim m = [] then [] else [(''memo'', trim m)])
     @ (case pl_validUntil p of
          None \<Rightarrow> [] | Some t \<Rightarrow> [(''expires'', show_int t)])"

text \<open>The query the router hands to the page for a list of search parameters.\<close>

definition query_of :: "(string \<times> string) list \<Rightarrow> link_query" where
  "query_of ps k = (case filter (\<lambda>p. fst p = k) ps of
     [] \<Rightarrow> QAbsent | [p] \<Rightarrow> QString (snd p) | qs \<Rightarrow> QList (map snd qs))"

section \<open>Link ids\<close>

definition json_expiry :: "int option \<Rightarrow> string" where
  "json_expiry t = (case t of None \<Rightarrow> ''null'' | Some t \<Rightarrow> show_int t)"

definition memo_text :: "link_payload \<Rightarrow> string" where
  "memo_text p = (case pl_memo p of None \<Rightarrow> [] | Some m \<Rightarrow> trim m)"

definition canonical :: "link_payload \<Rightarrow> string" where
  "canonical p =
     ''{'' @ json_string ''destination'' @ '':'' @ json_string (trim (pl_destination p))
     @ '','' @ json_string ''amount'' @ '':'' @ json_string (trim (pl_amount p))
     @ '','' @ json_string ''memo'' @ '':'' @ json_string (memo_text p)
     @ '','' @ json_string ''validUntil'' @ '':'' @ json_expiry (pl_validUntil p) @ ''}''"

definition fnv_step :: "32 word \<Rightarrow> char \<Rightarrow> 32 word" where
  "fnv_step h c = (h XOR of_char c) * 0x01000193"

definition fnv1a :: "string \<Rightarrow> 32 word" where
  "fnv1a s = foldl fnv_step 0x811c9dc5 s"

definition paymentLinkId :: "link_payload \<Rightarrow> string" where
  "paymentLinkId p = ''pl_'' @ pad_start 8 CHR ''0'' (show_hex (unat (fnv1a (canonical p))))"

section \<open>The local stores\<close>

text \<open>
  \<open>lk_window\<close> is false where there is no \<open>window\<close> or its storage cannot be reached: reads are then
  empty and writes dropped. Otherwise the browser may still refuse a write, when the quota is
  exceeded, and the code drops it silently: \<open>lk_takes\<close> says which of the writes to come it takes,
  \<open>lk_writes\<close> counts them.
\<close>

record link_store =
  lk_window :: bool
  lk_takes :: "nat \<Rightarrow> bool"
  lk_writes :: nat
  lk_records :: "(string, link_record) dict"
  lk_redeemed :: "(string, int) dict"

definition readAll :: "link_store \<Rightarrow> (string, link_record) dict" where
  "readAll st = (if lk_window st then lk_records st else [])"

definition writeAll :: "(string, link_record) dict \<Rightarrow> link_store \<Rightarrow> link_store" where
  "writeAll rs st =
     (if \<not> lk_window st then st
      else (let st' = st\<lparr>lk_writes := Suc (lk_writes st)\<rparr>
            in if lk_takes st (lk_writes st) then st'\<lparr>lk_records := rs\<rparr> else st'))"

definition readRedeemed :: "link_store \<Rightarrow> (string, int) dict" where
  "readRedeemed st = (if lk_window st then lk_redeemed st else [])"

definition writeRedeemed :: "(string, int) dict \<Rightarrow> link_store \<Rightarrow> link_store" where
  "writeRedeemed rs st =
     (if \<not> lk_window st then st
      else (let st' = st\<lparr>lk_writes := Suc (lk_writes st)\<rparr>
            in if lk_takes st (lk_writes st) then st'\<lparr>lk_redeemed := rs\<rparr> else st'))"

definition isRedeemedMarkerStale :: "int \<Rightarrow> int \<Rightarrow> bool" where
  "isRedeemedMarkerStale now redeemedAt = (now - redeemedAt > RECORD_TTL_MS)"

definition past :: "int \<Rightarrow> int option \<Rightarrow> bool" where
  "past now t = (case t of None \<Rightarrow> False | Some u \<Rightarrow> now > u)"

definition rememberPaymentLink ::
  "int \<Rightarrow> link_payload \<Rightarrow> string \<Rightarrow> link_store \<Rightarrow> link_record \<times> link_store" where
  "rememberPaymentLink now p url st =
     (let i = paymentLinkId p; all = readAll st
      in case d_get all i of
           Some r \<Rightarrow> (r, st)
         | None \<Rightarrow>
             (let r = \<lparr>lr_id = i, lr_payload = p, lr_url = url, lr_status = LinkPending,
                lr_createdAt = now\<rparr>
              in (r, writeAll (d_set i r all) st)))"

definition getPaymentLinkRecord ::
  "int \<Rightarrow> link_payload \<Rightarrow> link_store \<Rightarrow> link_record option \<times> link_store" where
  "getPaymentLinkRecord now p st =
     (let i = paymentLinkId p; all = readAll st
      in case d_get all i of
           None \<Rightarrow> (None, st)
         | Some r \<Rightarrow>
             if now - lr_createdAt r > RECORD_TTL_MS then (None, writeAll (d_delete i all) st)
             else if lr_status r = LinkPending \<and> past now (pl_validUntil p)
             then (let r' = r\<lparr>lr_status := LinkExpired\<rparr> in (Some r', writeAll (d_set i r' all) st))
             else (Some r, st))"

definition markPaymentLinkRedeemed :: "int \<Rightarrow> link_payload \<Rightarrow> link_store \<Rightarrow> bool \<times> link_store" where
  "markPaymentLinkRedeemed now p st =
     (let i = paymentLinkId p; all = readAll st
      in case d_get all i of
           None \<Rightarrow> (False, st)
         | Some r \<Rightarrow>
             if lr_status r \<noteq> LinkPending then (False, st)
             else
               (let st1 = writeAll (d_delete i all) st
                in (True, writeRedeemed (d_set i now (readRedeemed st1)) st1)))"

definition cancelPaymentLink :: "link_payload \<Rightarrow> link_store \<Rightarrow> bool \<times> link_store" where
  "cancelPaymentLink p st =
     (let i = paymentLinkId p; all = readAll st
      in case d_get all i of
           None \<Rightarrow> (False, st)
         | Some r \<Rightarrow>
             if lr_status r \<noteq> LinkPending then (False, st)
             else (True, writeAll (d_delete i all) st))"

definition listPaymentLinks :: "int \<Rightarrow> link_store \<Rightarrow> link_record list" where
  "listPaymentLinks now st =
     js_sort (\<lambda>a b. num_sub (ms (lr_createdAt b)) (ms (lr_createdAt a)))
       (map (\<lambda>(k, r). if lr_status r = LinkPending \<and> past now (pl_validUntil (lr_payload r))
          then r\<lparr>lr_status := LinkExpired\<rparr> else r) (readAll st))"

datatype redeem_answer = CanRedeem | RefusedExpired | RefusedRedeemed

definition after_marker :: "int \<Rightarrow> link_payload \<Rightarrow> link_store \<Rightarrow> redeem_answer \<times> link_store" where
  "after_marker now p st =
     (case getPaymentLinkRecord now p st of
        (r, st') \<Rightarrow>
          (if (case r of Some x \<Rightarrow> lr_status x = LinkExpired | None \<Rightarrow> False)
           then RefusedExpired else CanRedeem, st'))"

definition canRedeemPaymentLink :: "int \<Rightarrow> link_payload \<Rightarrow> link_store \<Rightarrow> redeem_answer \<times> link_store" where
  "canRedeemPaymentLink now p st =
     (if past now (pl_validUntil p) then (RefusedExpired, st)
      else
        (let i = paymentLinkId p; redeemed = readRedeemed st
         in case d_get redeemed i of
              Some redeemedAt \<Rightarrow>
                if \<not> isRedeemedMarkerStale now redeemedAt then (RefusedRedeemed, st)
                else after_marker now p (writeRedeemed (d_delete i redeemed) st)
            | None \<Rightarrow> after_marker now p st))"

definition clearPaymentLinkStore :: "link_store \<Rightarrow> link_store" where
  "clearPaymentLinkStore st =
     (if lk_window st then st\<lparr>lk_records := [], lk_redeemed := []\<rparr> else st)"

interpretation marker: expiring "\<lambda>t::int. t" "\<lambda>now t. \<not> isRedeemedMarkerStale now t" "RECORD_TTL_MS + 1"
  by unfold_locales (auto simp: isRedeemedMarkerStale_def)

section \<open>Round trip of a link\<close>

definition normalised :: "link_payload \<Rightarrow> link_payload" where
  "normalised p = \<lparr>pl_destination = trim (pl_destination p), pl_amount = trim (pl_amount p),
     pl_memo = or_undefined (memo_text p), pl_validUntil = pl_validUntil p\<rparr>"

lemma normalizeExpiry_undefined: "normalizeExpiry pf JUndefined = Inr None"
  by (simp add: normalizeExpiry_def)

lemma query_of_built:
  "getQueryString (query_of (buildPaymentLinkUrl p) ''data'') = None"
  "getQueryString (query_of (buildPaymentLinkUrl p) ''to'') = Some (trim (pl_destination p))"
  "getQueryString (query_of (buildPaymentLinkUrl p) ''amount'') = Some (trim (pl_amount p))"
  "getQueryString (query_of (buildPaymentLinkUrl p) ''memo'') = or_undefined (memo_text p)"
  "getQueryString (query_of (buildPaymentLinkUrl p) ''expires'') = map_option show_int (pl_validUntil p)"
  "getQueryString (query_of (buildPaymentLinkUrl p) ''expiry'') = None"
  "getQueryString (query_of (buildPaymentLinkUrl p) ''validUntil'') = None"
  by (simp_all add: query_of_def buildPaymentLinkUrl_def or_undefined_def memo_text_def
      split: option.split)

text \<open>What an expiry in a link is read as: a number of seconds becomes milliseconds.\<close>

definition expiry_read :: "int \<Rightarrow> int" where
  "expiry_read t = (if 0 < t \<and> t < 1000000000000 then t * 1000 else t)"

lemma finite_expiry_int: "finite_expiry (rat_of_int t) = expiry_read t"
proof -
  have "rat_of_int t * 1000 = rat_of_int (t * 1000)" by simp
  then have "trunc (rat_of_int t * 1000) = t * 1000" by (simp only: trunc_of_int)
  moreover have "0 < rat_of_int t \<and> rat_of_int t < 1000000000000 \<longleftrightarrow> 0 < t \<and> t < 1000000000000"
    using of_int_less_iff [where 'a = rat, of t 1000000000000] by simp
  ultimately show ?thesis by (simp add: finite_expiry_def expiry_read_def)
qed

lemma normalizeExpiry_shown: "normalizeExpiry pf (JString (show_int t)) = Inr (Some (expiry_read t))"
  by (simp add: normalizeExpiry_def finite_expiry_int)

text \<open>C39. Parsing the link built from any request: without a destination or an amount it is refused
as incomplete, otherwise it gives the request back, trimmed, an empty memo becoming no memo, and an
expiry that looks like seconds (between 0 and 10 to the 12) multiplied by a thousand.\<close>

theorem link_roundtrip:
  "parsePaymentLinkQuery pf (query_of (buildPaymentLinkUrl p)) =
     (if trim (pl_destination p) = [] \<or> trim (pl_amount p) = [] then Inl Missing
      else Inr ((normalised p)\<lparr>pl_validUntil := map_option expiry_read (pl_validUntil p)\<rparr>))"
proof -
  have memo: "(case opt_js (or_undefined (memo_text p)) of JString m \<Rightarrow> trim m | _ \<Rightarrow> []) = memo_text p"
    by (auto simp: or_undefined_def memo_text_def split: option.splits)
  have expiry: "normalizeExpiry pf (opt_js (map_option show_int (pl_validUntil p)))
      = Inr (map_option expiry_read (pl_validUntil p))"
    by (cases "pl_validUntil p") (simp_all add: normalizeExpiry_undefined normalizeExpiry_shown)
  have "first_some x None = x" for x :: "string option"
    by (simp add: first_some_def split: option.split)
  with memo expiry show ?thesis
    by (cases "pl_validUntil p")
      (simp_all add: parsePaymentLinkQuery_def query_of_built Let_def coercePayload_def coalesce_def
        normalised_def)
qed

definition sample_payload :: link_payload where
  "sample_payload = \<lparr>pl_destination = ''GABC'', pl_amount = ''10'', pl_memo = Some ''tea '',
     pl_validUntil = Some 1700000000000\<rparr>"

definition sample_platform :: platform where
  "sample_platform = \<lparr>decodeBase64Json = (\<lambda>_. None), dateParse = (\<lambda>_. None), stringOf = (\<lambda>_. [])\<rparr>"

section \<open>Ids\<close>

lemma json_expiry_inject: "json_expiry s = json_expiry t \<longleftrightarrow> s = t"
proof -
  have "show_int i \<noteq> ''null''" for i
    using toNumber_show_int [of i]
    by (auto simp: toNumber_def trim_def trim_left_def is_space_def radix_prefix_def scan_signed_def
        starts_with_def scan_decimal_def is_digit_def)
  from this this [symmetric] show ?thesis
    by (auto simp: json_expiry_def split: option.splits)
qed

lemma canonical_inject: "canonical p = canonical q \<longleftrightarrow> normalised p = normalised q"
proof
  assume "canonical p = canonical q"
  then have "trim (pl_destination p) = trim (pl_destination q)" "trim (pl_amount p) = trim (pl_amount q)"
    "memo_text p = memo_text q" "pl_validUntil p = pl_validUntil q"
    by (auto simp: canonical_def json_expiry_inject dest!: json_string_prefix)
  then show "normalised p = normalised q" by (simp add: normalised_def)
next
  assume n: "normalised p = normalised q"
  have m: "(case or_undefined s of None \<Rightarrow> [] | Some m \<Rightarrow> m) = s" for s
    by (simp add: or_undefined_def)
  from n have "memo_text p = memo_text q"
    by (simp add: normalised_def) (metis m)
  with n show "canonical p = canonical q"
    by (simp add: normalised_def canonical_def)
qed

lemma normalised_idem [simp]: "normalised (normalised p) = normalised p"
  by (auto simp: normalised_def or_undefined_def memo_text_def split: option.splits)

lemma same_id: "normalised p = normalised q \<Longrightarrow> paymentLinkId p = paymentLinkId q"
  by (metis canonical_inject paymentLinkId_def)

text \<open>The text that is hashed determines the request up to trimming, so two requests
share an id only when they are the same request or FNV-1a collides, and every id is the prefix
with exactly eight characters.\<close>

lemma link_id_canonical:
  "(canonical p = canonical q \<longleftrightarrow> normalised p = normalised q) \<and>
   paymentLinkId (normalised p) = paymentLinkId p \<and> length (paymentLinkId p) = 11"
proof -
  have "unat (fnv1a (canonical p)) < 2 ^ LENGTH(32)"
    by (rule unsigned_less)
  then have "length (show_hex (unat (fnv1a (canonical p)))) \<le> Suc 7"
    by (intro length_show_hex) simp
  then show ?thesis
    by (auto simp: canonical_inject intro!: same_id) (simp add: paymentLinkId_def pad_start_def)
qed

section \<open>Redemption\<close>

lemma store_access [simp]:
  "readAll (writeAll rs st) =
     (if lk_window st \<and> lk_takes st (lk_writes st) then rs else readAll st)"
  "readRedeemed (writeRedeemed ds st) =
     (if lk_window st \<and> lk_takes st (lk_writes st) then ds else readRedeemed st)"
  "readAll (writeRedeemed ds st) = readAll st"
  "readRedeemed (writeAll rs st) = readRedeemed st"
  "lk_window (writeAll rs st) = lk_window st"
  "lk_window (writeRedeemed ds st) = lk_window st"
  "lk_takes (writeAll rs st) = lk_takes st"
  "lk_writes (writeAll rs st) = (if lk_window st then Suc (lk_writes st) else lk_writes st)"
  by (simp_all add: readAll_def writeAll_def readRedeemed_def writeRedeemed_def Let_def)

lemma mark_True:
  assumes "markPaymentLinkRedeemed t p st = (True, st')"
  obtains r where "lk_window st" "d_get (readAll st) (paymentLinkId p) = Some r" "lr_status r = LinkPending"
    "st' = writeRedeemed (d_set (paymentLinkId p) t (readRedeemed st))
       (writeAll (d_delete (paymentLinkId p) (readAll st)) st)"
proof -
  obtain r where r: "d_get (readAll st) (paymentLinkId p) = Some r" "lr_status r = LinkPending"
    using assms by (auto simp: markPaymentLinkRedeemed_def Let_def split: option.splits if_splits)
  moreover have "lk_window st" using r(1) by (auto simp: readAll_def split: if_splits)
  moreover have "st' = writeRedeemed (d_set (paymentLinkId p) t (readRedeemed st))
      (writeAll (d_delete (paymentLinkId p) (readAll st)) st)"
    using assms r by (simp add: markPaymentLinkRedeemed_def Let_def)
  ultimately show thesis by (intro that)
qed

text \<open>What can happen to the stores, an operation and the clock.\<close>

datatype link_op =
    Remember link_payload string
  | ReadRecord link_payload
  | Mark link_payload
  | Cancel link_payload
  | Ask link_payload
  | Clear

fun link_do :: "int \<times> link_op \<Rightarrow> link_store \<Rightarrow> link_store" where
  "link_do (now, Remember p url) st = snd (rememberPaymentLink now p url st)"
| "link_do (now, ReadRecord p) st = snd (getPaymentLinkRecord now p st)"
| "link_do (now, Mark p) st = snd (markPaymentLinkRedeemed now p st)"
| "link_do (now, Cancel p) st = snd (cancelPaymentLink p st)"
| "link_do (now, Ask p) st = snd (canRedeemPaymentLink now p st)"
| "link_do (now, Clear) st = clearPaymentLinkStore st"

text \<open>A marker set at \<open>t\<close> or later.\<close>

definition marked_since :: "int \<Rightarrow> string \<Rightarrow> link_store \<Rightarrow> bool" where
  "marked_since t i st \<longleftrightarrow> (\<exists>u. d_get (readRedeemed st) i = Some u \<and> t \<le> u)"

lemma record_keeps_marker: "readRedeemed (snd (getPaymentLinkRecord now p st)) = readRedeemed st"
  by (simp add: getPaymentLinkRecord_def Let_def split: option.split)

lemma marker_window: "marked_since t i st \<Longrightarrow> lk_window st"
  by (auto simp: marked_since_def readRedeemed_def split: if_splits)

lemma ask_keeps_marker:
  assumes "marked_since t i st" and "now \<le> t + RECORD_TTL_MS"
  shows "marked_since t i (snd (canRedeemPaymentLink now q st))"
proof -
  have "marked_since t i (snd (after_marker now q st'))" if "marked_since t i st'" for st'
    using that record_keeps_marker [of now q st']
    by (simp add: after_marker_def marked_since_def split_beta)
  moreover have "marked_since t i (writeRedeemed (d_delete j (readRedeemed st)) st)"
    if "d_get (readRedeemed st) j = Some u" "isRedeemedMarkerStale now u" for j u
    using that assms by (auto simp: marked_since_def isRedeemedMarkerStale_def dict.get_delete)
  ultimately show ?thesis
    using assms(1) by (auto simp: canRedeemPaymentLink_def Let_def split: option.split)
qed

lemma link_do_keeps_marker:
  assumes "marked_since t i st" and "t \<le> now" and "now \<le> t + RECORD_TTL_MS" and "op \<noteq> Clear"
  shows "marked_since t i (link_do (now, op) st)"
proof (cases op)
  case (Remember p url)
  then show ?thesis
    using assms(1) by (simp add: marked_since_def rememberPaymentLink_def Let_def split: option.split)
next
  case (Mark p)
  then show ?thesis
    using assms(1,2)
    by (auto simp: marked_since_def markPaymentLinkRedeemed_def Let_def dict.get_set split: option.split)
next
  case (Cancel p)
  then show ?thesis
    using assms(1) by (simp add: marked_since_def cancelPaymentLink_def Let_def split: option.split)
next
  case (ReadRecord p)
  then show ?thesis using assms(1) by (simp add: marked_since_def record_keeps_marker)
next
  case (Ask p)
  then show ?thesis using assms ask_keeps_marker by simp
qed (use assms(4) in simp)

lemma marked_refused:
  assumes "marked_since t (paymentLinkId q) st" and "now \<le> t + RECORD_TTL_MS"
  shows "fst (canRedeemPaymentLink now q st) =
    (if past now (pl_validUntil q) then RefusedExpired else RefusedRedeemed)"
  using assms by (auto simp: marked_since_def canRedeemPaymentLink_def isRedeemedMarkerStale_def Let_def)

text \<open>C20. A redeemed link whose marker the storage took is blocked on this device for a day: whatever
links are generated again, read, cancelled, asked about or marked in the meantime, and whatever later
writes the storage refuses, paying any spelling of the same request is refused, until the store is
cleared.\<close>

theorem redeemed_link_blocked:
  assumes "markPaymentLinkRedeemed t p st = (True, st')" and "lk_takes st (Suc (lk_writes st))"
    and "\<forall>(u, op) \<in> set ops. t \<le> u \<and> u \<le> t + RECORD_TTL_MS \<and> op \<noteq> Clear"
    and "now \<le> t + RECORD_TTL_MS" and "normalised q = normalised p"
  shows "fst (canRedeemPaymentLink now q (fold link_do ops st')) =
    (if past now (pl_validUntil q) then RefusedExpired else RefusedRedeemed)"
proof -
  have "marked_since t (paymentLinkId p) st'"
    using mark_True [OF assms(1)] assms(2) by (force simp: marked_since_def dict.get_set)
  then have "marked_since t (paymentLinkId p) (fold link_do ops st')"
    using assms(3)
  proof (induction ops arbitrary: st')
    case (Cons x ops)
    then show ?case using link_do_keeps_marker by (cases x) auto
  qed simp
  then show ?thesis using marked_refused assms(4) same_id [OF assms(5)] by simp
qed

text \<open>The block does not hold when the storage refuses the write of the marker, or once the store
is cleared at logout: marking still answers that the link is redeemed, and the same request can be
paid again at once.\<close>

lemma refused_marker_pays_again:
  assumes "markPaymentLinkRedeemed t p st = (True, st')" and "d_get (readRedeemed st) (paymentLinkId p) = None"
    and "normalised q = normalised p" and "\<not> past now (pl_validUntil q)"
    and "if cleared then st'' = clearPaymentLinkStore st' else st'' = st' \<and> \<not> lk_takes st (Suc (lk_writes st))"
  shows "fst (canRedeemPaymentLink now q st'') = CanRedeem"
proof -
  obtain r where r: "lk_window st" "d_get (readAll st) (paymentLinkId p) = Some r" "lr_status r = LinkPending"
    and st': "st' = writeRedeemed (d_set (paymentLinkId p) t (readRedeemed st))
       (writeAll (d_delete (paymentLinkId p) (readAll st)) st)"
    by (rule mark_True [OF assms(1)])
  note id = same_id [OF assms(3)]
  have "d_get (readRedeemed st'') (paymentLinkId p) = None \<and>
      (\<forall>x. d_get (readAll st'') (paymentLinkId p) = Some x \<longrightarrow> lr_status x = LinkPending)"
  proof (cases cleared)
    case True
    then show ?thesis
      using assms(5) r(1) by (simp add: st' clearPaymentLinkStore_def readRedeemed_def readAll_def)
  next
    case False
    then show ?thesis
      using assms(2,5) r by (simp add: st' dict.get_delete)
  qed
  then show ?thesis
    using assms(4)
    by (auto simp: canRedeemPaymentLink_def after_marker_def getPaymentLinkRecord_def Let_def id split: option.splits)
qed

definition window_with :: "(nat \<Rightarrow> bool) \<Rightarrow> link_store" where
  "window_with takes = \<lparr>lk_window = True, lk_takes = takes, lk_writes = 0, lk_records = [], lk_redeemed = []\<rparr>"

abbreviation fresh_window :: link_store where
  "fresh_window \<equiv> window_with (\<lambda>_. True)"

definition remembered :: "(nat \<Rightarrow> bool) \<Rightarrow> link_store" where
  "remembered takes = snd (rememberPaymentLink 5 sample_payload ''u'' (window_with takes))"

lemma remembered_facts:
  assumes "takes 0"
  shows "readAll (remembered takes) = d_set (paymentLinkId sample_payload) \<lparr>lr_id = paymentLinkId sample_payload,
      lr_payload = sample_payload, lr_url = ''u'', lr_status = LinkPending, lr_createdAt = 5\<rparr> []"
    "readRedeemed (remembered takes) = []" "lk_writes (remembered takes) = 1" "lk_takes (remembered takes) = takes"
  using assms
  by (simp_all add: remembered_def rememberPaymentLink_def Let_def window_with_def readAll_def readRedeemed_def
      writeAll_def)

lemma remembered_marked:
  assumes "takes 0"
  shows "markPaymentLinkRedeemed 10 sample_payload (remembered takes) =
    (True, snd (markPaymentLinkRedeemed 10 sample_payload (remembered takes)))"
  using remembered_facts(1) [of takes] assms by (simp add: markPaymentLinkRedeemed_def Let_def)

theorem redeemed_link_blocked_witness:
  "fst (canRedeemPaymentLink 20 sample_payload
     (fold link_do [(12, Remember sample_payload ''v''), (15, Cancel sample_payload)]
        (snd (markPaymentLinkRedeemed 10 sample_payload (remembered (\<lambda>_. True)))))) = RefusedRedeemed"
proof -
  let ?ops = "[(12, Remember sample_payload ''v''), (15, Cancel sample_payload)]"
  have "fst (canRedeemPaymentLink 20 sample_payload (fold link_do ?ops
      (snd (markPaymentLinkRedeemed 10 sample_payload (remembered (\<lambda>_. True)))))) =
    (if past 20 (pl_validUntil sample_payload) then RefusedExpired else RefusedRedeemed)"
    by (rule redeemed_link_blocked [OF remembered_marked [of "\<lambda>_. True"]])
      (simp_all add: remembered_facts RECORD_TTL_MS_def)
  then show ?thesis by (simp add: past_def sample_payload_def)
qed

theorem refused_marker_pays_again_example:
  "fst (canRedeemPaymentLink 20 sample_payload
     (snd (markPaymentLinkRedeemed 10 sample_payload (remembered (\<lambda>n. n < 2))))) = CanRedeem"
  by (rule refused_marker_pays_again [OF remembered_marked [of "\<lambda>n. n < 2"], where cleared = False])
    (simp_all add: remembered_facts, simp add: past_def sample_payload_def)

text \<open>A device that never stored the link, as the payer's usually has not, leaves no
marker: marking reports failure and changes nothing, so the same link stays payable there.\<close>

lemma unknown_link_leaves_no_marker:
  assumes "d_get (readAll st) (paymentLinkId p) = None" "d_get (readRedeemed st) (paymentLinkId p) = None"
    and "\<not> past now (pl_validUntil p)"
  shows "markPaymentLinkRedeemed t p st = (False, st) \<and>
    canRedeemPaymentLink now p (snd (markPaymentLinkRedeemed t p st)) = (CanRedeem, st)"
  using assms
  by (simp add: markPaymentLinkRedeemed_def canRedeemPaymentLink_def after_marker_def
      getPaymentLinkRecord_def Let_def)

theorem unknown_link_leaves_no_marker_example:
  "canRedeemPaymentLink 20 sample_payload (snd (markPaymentLinkRedeemed 10 sample_payload fresh_window)) =
     (CanRedeem, fresh_window)"
  by (rule unknown_link_leaves_no_marker [THEN conjunct2])
    (simp_all add: window_with_def readAll_def readRedeemed_def past_def sample_payload_def)

section \<open>Invariant of the records\<close>

definition links_ok :: "link_store \<Rightarrow> bool" where
  "links_ok st \<longleftrightarrow> d_ok (lk_records st) \<and> d_ok (lk_redeemed st) \<and>
     (\<forall>k r. d_get (lk_records st) k = Some r \<longrightarrow>
        lr_id r = k \<and> paymentLinkId (lr_payload r) = k \<and> lr_status r \<noteq> LinkRedeemed)"

inductive link_step :: "link_store \<Rightarrow> link_store \<Rightarrow> bool" where
  remembers: "link_step st (snd (rememberPaymentLink now p url st))"
| reads: "link_step st (snd (getPaymentLinkRecord now p st))"
| marks: "link_step st (snd (markPaymentLinkRedeemed now p st))"
| cancels: "link_step st (snd (cancelPaymentLink p st))"
| asks: "link_step st (snd (canRedeemPaymentLink now p st))"
| clears: "link_step st (clearPaymentLinkStore st)"

lemma links_ok_writeAll_set:
  assumes "links_ok st" "lr_id r = k" "paymentLinkId (lr_payload r) = k" "lr_status r \<noteq> LinkRedeemed"
  shows "links_ok (writeAll (d_set k r (readAll st)) st)"
  using assms by (auto simp: links_ok_def writeAll_def readAll_def Let_def dict_get dict.ok_set)

lemma links_ok_writeAll_delete:
  "links_ok st \<Longrightarrow> links_ok (writeAll (d_delete k (readAll st)) st)"
  by (auto simp: links_ok_def writeAll_def readAll_def Let_def dict_get dict.ok_delete)

lemma links_ok_writeRedeemed:
  "links_ok st \<Longrightarrow> d_ok ds \<Longrightarrow> links_ok (writeRedeemed ds st)"
  by (auto simp: links_ok_def writeRedeemed_def Let_def)

lemma links_ok_redeemed: "links_ok st \<Longrightarrow> d_ok (readRedeemed st)"
  by (simp add: links_ok_def readRedeemed_def)

lemma links_ok_get:
  "links_ok st \<Longrightarrow> d_get (readAll st) k = Some r \<Longrightarrow>
     lr_id r = k \<and> paymentLinkId (lr_payload r) = k \<and> lr_status r \<noteq> LinkRedeemed"
  by (auto simp: links_ok_def readAll_def split: if_splits)

lemma getPaymentLinkRecord_ok: "links_ok st \<Longrightarrow> links_ok (snd (getPaymentLinkRecord now p st))"
  by (auto simp: getPaymentLinkRecord_def Let_def links_ok_writeAll_delete dest: links_ok_get
      split: option.split intro!: links_ok_writeAll_set)

text \<open>Every operation keeps the local records well formed: one record per id, filed under
the id of its own request, and no record ever says redeemed (redemption deletes the record and
keeps only the marker).\<close>

lemma link_store_invariant:
  assumes "link_step st st'" and "links_ok st"
  shows "links_ok st'"
  using assms
proof cases
  case (remembers now p url)
  with assms(2) show ?thesis
    by (auto simp: rememberPaymentLink_def Let_def split: option.split intro!: links_ok_writeAll_set)
next
  case (marks now p)
  with assms(2) show ?thesis
    by (auto simp: markPaymentLinkRedeemed_def Let_def links_ok_writeAll_delete links_ok_redeemed
        dict.ok_set split: option.split intro!: links_ok_writeRedeemed)
next
  case (asks now p)
  with assms(2) show ?thesis
    by (auto simp: canRedeemPaymentLink_def after_marker_def Let_def links_ok_redeemed dict.ok_delete
        split: option.split prod.split intro!: links_ok_writeRedeemed)
      (metis getPaymentLinkRecord_ok links_ok_writeRedeemed links_ok_redeemed dict.ok_delete snd_conv)+
next
  case (reads now p)
  with assms(2) show ?thesis by (simp add: getPaymentLinkRecord_ok)
next
  case (cancels p)
  with assms(2) show ?thesis
    by (auto simp: cancelPaymentLink_def Let_def links_ok_writeAll_delete split: option.split)
next
  case clears
  with assms(2) show ?thesis by (simp add: clearPaymentLinkStore_def links_ok_def)
qed

theorem link_store_invariant_example:
  "links_ok (snd (rememberPaymentLink 5 sample_payload ''u'' fresh_window))"
  by (rule link_store_invariant [OF remembers]) (simp add: links_ok_def window_with_def)

end
