(* ===== verification/Fees.thy ===== *)
theory Fees
  imports JsNet JsDict
begin

text \<open>
  \<open>frontend/lib/fees.ts\<close> with the resource simulation of \<open>frontend/lib/soroban.ts\<close> it calls:
  the fee statistics and their cache, the fee estimate of a transaction, and the rendering of
  stroops as XLM.
\<close>

section \<open>Fee statistics\<close>

record fee_stats =
  fs_min :: jsnum
  fs_mode :: jsnum
  fs_p50 :: jsnum
  fs_p95 :: jsnum
  fs_p99 :: jsnum
  fs_lastLedger :: jsnum
  fs_max :: jsnum

record cached_stats =
  cs_stats :: fee_stats
  cs_fetchedAt :: int

definition CACHE_DURATION_MS :: int where
  "CACHE_DURATION_MS = 60000"

definition FALLBACK_RESOURCE_FEE_STROOPS :: rat where
  "FALLBACK_RESOURCE_FEE_STROOPS = 1000000"

datatype stats_error = FetchFailed string | StatsHttpError string | BadBody

definition cache_fresh :: "int \<Rightarrow> cached_stats \<Rightarrow> bool" where
  "cache_fresh now c = (now - cs_fetchedAt c < CACHE_DURATION_MS)"

definition read_stats :: "(jsval \<Rightarrow> jsnum) \<Rightarrow> jsval \<Rightarrow> fee_stats" where
  "read_stats prim data =
     (let num = (\<lambda>v d. number_of prim (or_else v (JNumber (Fin d))));
          charged = jprop data ''fee_charged''
      in \<lparr>fs_min = num (jprop data ''min_accepted_fee'') 100,
          fs_mode = num (jprop charged ''mode'') 100,
          fs_p50 = num (jprop charged ''p50'') 100,
          fs_p95 = num (jprop charged ''p95'') 100,
          fs_p99 = num (jprop charged ''p99'') 100,
          fs_lastLedger = num (jprop data ''last_ledger'') 0,
          fs_max = num (jprop (jprop data ''max_fee'') ''max'') 1000\<rparr>)"

text \<open>\<open>now\<close> is the clock at the cache check, \<open>later\<close> the clock when the answer is stored.\<close>

definition getFeeStats ::
  "(jsval \<Rightarrow> jsnum) \<Rightarrow> int \<Rightarrow> int \<Rightarrow> fetch_result \<Rightarrow> cached_stats option
     \<Rightarrow> (stats_error + fee_stats) \<times> cached_stats option" where
  "getFeeStats prim now later answer cache =
     (case (case cache of Some c \<Rightarrow> if cache_fresh now c then Some (cs_stats c) else None | None \<Rightarrow> None) of
        Some stats \<Rightarrow> (Inr stats, cache)
      | None \<Rightarrow>
          (case answer of
             FetchThrows m \<Rightarrow> (Inl (FetchFailed m), cache)
           | Responded r \<Rightarrow>
               if \<not> resp_ok r
               then (Inl (StatsHttpError (''Failed to fetch fee stats: '' @ resp_statusText r)), cache)
               else
                 (case resp_json r of
                    None \<Rightarrow> (Inl BadBody, cache)
                  | Some data \<Rightarrow>
                      if nullish data then (Inl BadBody, cache)
                      else
                        (let stats = read_stats prim data
                         in (Inr stats, Some \<lparr>cs_stats = stats, cs_fetchedAt = later\<rparr>)))))"

definition resetFeeStatsCache :: "cached_stats option \<Rightarrow> cached_stats option" where
  "resetFeeStatsCache cache = None"

interpretation fee_cache: expiring cs_fetchedAt cache_fresh CACHE_DURATION_MS
  by unfold_locales (simp add: cache_fresh_def)

section \<open>Simulation of resources\<close>

record resources =
  rs_cpuInstructions :: jsnum
  rs_readBytes :: jsnum
  rs_writeBytes :: jsnum
  rs_resourceFeeStroops :: jsnum

text \<open>The figures decoded from the transaction data XDR, where it decodes.\<close>

record xdr_resources =
  xr_instructions :: jsnum
  xr_diskReadBytes :: jsnum
  xr_writeBytes :: jsnum

definition falsy_num :: "jsnum \<Rightarrow> bool" where
  "falsy_num n = (n = JsNaN \<or> n = Fin 0)"

definition simulateTransactionResources ::
  "(jsval \<Rightarrow> jsnum) \<Rightarrow> (string \<Rightarrow> xdr_resources option) \<Rightarrow> string + jsval \<Rightarrow> string + resources" where
  "simulateTransactionResources prim decode simulation =
     (case simulation of
        Inl err \<Rightarrow> Inl (''Simulation failed: '' @ err)
      | Inr response \<Rightarrow>
          (let cost = jprop response ''cost'';
               zero = JNumber (Fin 0);
               cpu = number_of prim (coalesce (jprop cost ''cpuInsns'')
                       (coalesce (jprop cost ''cpuInstructions'') zero));
               rd = number_of prim (coalesce (jprop cost ''readBytes'') zero);
               wr = number_of prim (coalesce (jprop cost ''writeBytes'') zero);
               x = (case jprop response ''transactionData'' of JString s \<Rightarrow> decode s | _ \<Rightarrow> None)
           in Inr \<lparr>
                rs_cpuInstructions =
                  (case x of Some y \<Rightarrow> if falsy_num cpu then xr_instructions y else cpu | None \<Rightarrow> cpu),
                rs_readBytes =
                  (case x of Some y \<Rightarrow> if falsy_num rd then xr_diskReadBytes y else rd | None \<Rightarrow> rd),
                rs_writeBytes =
                  (case x of Some y \<Rightarrow> if falsy_num wr then xr_writeBytes y else wr | None \<Rightarrow> wr),
                rs_resourceFeeStroops =
                  number_of prim (coalesce (jprop response ''minResourceFee'') zero)\<rparr>))"

section \<open>The estimate\<close>

record fee_estimate =
  fe_baseFeeStroops :: jsnum
  fe_minBaseFeeStroops :: jsnum
  fe_maxBaseFeeStroops :: jsnum
  fe_resourceFeeStroops :: jsnum
  fe_totalFeeStroops :: jsnum
  fe_cpuInstructions :: jsnum
  fe_readBytes :: jsnum
  fe_writeBytes :: jsnum
  fe_simulated :: bool
  fe_warning :: "string option"

text \<open>A transaction as the list of its operation types.\<close>

definition isSorobanTransaction :: "string list \<Rightarrow> bool" where
  "isSorobanTransaction ops =
     list_ex (\<lambda>t. t \<in> {''invokeHostFunction'', ''extendFootprintTtl'', ''restoreFootprint''}) ops"

definition default_stats :: fee_stats where
  "default_stats = \<lparr>fs_min = Fin 100, fs_mode = Fin 100, fs_p50 = Fin 100, fs_p95 = Fin 100,
     fs_p99 = Fin 1000, fs_lastLedger = Fin 0, fs_max = Fin 1000\<rparr>"

text \<open>\<open>stats\<close> is what \<open>getFeeStats\<close> returned or threw, \<open>sim\<close> the simulation's outcome.\<close>

definition estimateAccurateFee ::
  "string list \<Rightarrow> stats_error + fee_stats \<Rightarrow> string + resources \<Rightarrow> fee_estimate" where
  "estimateAccurateFee ops fetched sim =
     (let operationCount = max 1 (length ops);
          stats = (case fetched of Inr s \<Rightarrow> s | Inl _ \<Rightarrow> default_stats);
          statsWarning = (case fetched of Inr _ \<Rightarrow> None | Inl _ \<Rightarrow>
            Some ''Horizon fee statistics are unavailable; using conservative network fees.'');
          baseFee = num_max (Fin 100) (fs_p95 stats);
          minBase = num_max (Fin 100) (fs_min stats);
          maxBase = num_max (num_max baseFee (fs_max stats)) (fs_p99 stats)
      in if \<not> isSorobanTransaction ops then
           \<lparr>fe_baseFeeStroops = baseFee, fe_minBaseFeeStroops = minBase, fe_maxBaseFeeStroops = maxBase,
             fe_resourceFeeStroops = Fin 0, fe_totalFeeStroops = num_times baseFee operationCount,
             fe_cpuInstructions = Fin 0, fe_readBytes = Fin 0, fe_writeBytes = Fin 0,
             fe_simulated = False, fe_warning = statsWarning\<rparr>
         else case sim of
           Inr r \<Rightarrow>
             \<lparr>fe_baseFeeStroops = baseFee, fe_minBaseFeeStroops = minBase, fe_maxBaseFeeStroops = maxBase,
               fe_resourceFeeStroops = rs_resourceFeeStroops r,
               fe_totalFeeStroops = num_add (rs_resourceFeeStroops r) (num_times baseFee operationCount),
               fe_cpuInstructions = rs_cpuInstructions r, fe_readBytes = rs_readBytes r,
               fe_writeBytes = rs_writeBytes r, fe_simulated = True, fe_warning = statsWarning\<rparr>
         | Inl _ \<Rightarrow>
             \<lparr>fe_baseFeeStroops = maxBase, fe_minBaseFeeStroops = minBase, fe_maxBaseFeeStroops = maxBase,
               fe_resourceFeeStroops = Fin FALLBACK_RESOURCE_FEE_STROOPS,
               fe_totalFeeStroops = num_add (Fin FALLBACK_RESOURCE_FEE_STROOPS)
                 (num_times maxBase operationCount),
               fe_cpuInstructions = Fin 0, fe_readBytes = Fin 0, fe_writeBytes = Fin 0,
               fe_simulated = False,
               fe_warning = Some ''Soroban simulation is unavailable; using a conservative fallback estimate.''\<rparr>)"

datatype fee_tier = Economy | Standard | Priority

fun getFeeForTier :: "fee_stats \<Rightarrow> fee_tier \<Rightarrow> jsnum" where
  "getFeeForTier st Economy = fs_p50 st"
| "getFeeForTier st Standard = fs_p95 st"
| "getFeeForTier st Priority = fs_p99 st"

section \<open>Stroops as XLM\<close>

definition format_units :: "int \<Rightarrow> string" where
  "format_units n =
     (let stroopsStr = show_int n;
          isNegative = starts_with stroopsStr ''-'';
          absStr = (if isNegative then drop 1 stroopsStr else stroopsStr);
          paddedStr = pad_start 8 CHR ''0'' absStr;
          len = length paddedStr;
          integerPart = (if take (len - 7) paddedStr = [] then ''0'' else take (len - 7) paddedStr);
          fractionalPart = drop (len - 7) paddedStr
      in (if isNegative then ''-'' else []) @ integerPart @ ''.'' @ fractionalPart)"

text \<open>\<open>BigInt\<close> of NaN or an infinity throws: \<open>None\<close>.\<close>

fun formatFeeStroopsToXlm :: "jsnum \<Rightarrow> string option" where
  "formatFeeStroopsToXlm (Fin r) = Some (format_units \<lfloor>r\<rfloor>)"
| "formatFeeStroopsToXlm _ = None"

definition estimateTransactionFee :: "int \<Rightarrow> int \<Rightarrow> string option" where
  "estimateTransactionFee operationCount feePerOp = formatFeeStroopsToXlm (ms (feePerOp * operationCount))"

section \<open>Rendering is exact\<close>

lemma starts_with_minus [simp]: "starts_with (CHR ''-'' # s) ''-''"
  by (simp add: starts_with_def)

lemma show_nat_no_minus: "\<not> starts_with (show_nat n) ''-''"
proof -
  obtain c cs where "show_nat n = c # cs" "is_digit c"
    by (rule show_nat_cases)
  with is_digit_not [of c] show ?thesis by (simp add: starts_with_def)
qed

text \<open>The digits of \<open>n\<close> padded to eight, cut before the last seven.\<close>

lemma padded_parts:
  fixes n :: nat
  defines "p \<equiv> pad_start 8 CHR ''0'' (show_nat n)"
  shows "take (length p - 7) p \<noteq> []" "length (drop (length p - 7) p) = 7"
    "\<forall>c \<in> set p. is_digit c" "read_nat 0 p = n"
proof -
  have "8 \<le> length p" by (simp add: p_def pad_start_def)
  then have "\<not> length p - 7 = 0" "p \<noteq> []" "length p - (length p - 7) = 7" by auto
  then show "take (length p - 7) p \<noteq> []" "length (drop (length p - 7) p) = 7"
    by (simp_all only: take_eq_Nil length_drop simp_thms)
  have "is_digit CHR ''0''" by (simp add: is_digit_def)
  then show "\<forall>c \<in> set p. is_digit c"
    by (auto simp: p_def pad_start_def show_nat_is_digit)
  show "read_nat 0 p = n"
    by (simp add: p_def pad_start_def read_nat_zeros read_show_nat)
qed

lemma format_units_parts:
  obtains ip fp where
    "format_units n = (if n < 0 then ''-'' else []) @ ip @ CHR ''.'' # fp"
    "ip \<noteq> []" "length fp = 7" "\<forall>c \<in> set (ip @ fp). is_digit c" "read_nat 0 (ip @ fp) = nat \<bar>n\<bar>"
proof -
  let ?p = "pad_start 8 CHR ''0'' (show_nat (nat \<bar>n\<bar>))"
  let ?ip = "take (length ?p - 7) ?p" and ?fp = "drop (length ?p - 7) ?p"
  note parts = padded_parts [of "nat \<bar>n\<bar>"]
  have "format_units n = (if n < 0 then ''-'' else []) @ ?ip @ CHR ''.'' # ?fp"
  proof (cases "n < 0")
    case True
    then have "nat \<bar>n\<bar> = nat (- n)" by simp
    with True parts(1) show ?thesis
      by (simp add: format_units_def show_int_def Let_def del: take_eq_Nil)
  next
    case False
    then have "nat \<bar>n\<bar> = nat n" by simp
    with False parts(1) show_nat_no_minus [of "nat n"] show ?thesis
      by (simp add: format_units_def show_int_def Let_def del: take_eq_Nil)
  qed
  moreover have "?ip @ ?fp = ?p" by simp
  ultimately show ?thesis
    using that [of ?ip ?fp] parts by presburger
qed

text \<open>The rendering loses nothing: the text of a number of stroops, read back as a number,
is that number divided by ten million, and it has exactly seven decimals. Money leaves the fee
display neither rounded nor truncated beyond the floor the code takes first.\<close>

lemma format_fee_exact:
  "\<exists>s. formatFeeStroopsToXlm (Fin r) = Some s \<and> parseFloat s = Fin (of_int \<lfloor>r\<rfloor> / 10000000) \<and>
     (\<exists>ip fp. s = ip @ CHR ''.'' # fp \<and> length fp = 7)"
proof -
  let ?n = "\<lfloor>r\<rfloor>"
  obtain ip fp where s: "format_units ?n = (if ?n < 0 then ''-'' else []) @ ip @ CHR ''.'' # fp"
    and ip: "ip \<noteq> []" and fp: "length fp = 7" and digits: "\<forall>c \<in> set (ip @ fp). is_digit c"
    and val: "read_nat 0 (ip @ fp) = nat \<bar>?n\<bar>"
    by (rule format_units_parts)
  obtain c cs where c: "ip = c # cs" using ip by (cases ip) auto
  then have d: "is_digit c" using digits by simp
  have scan: "scan_decimal (ip @ CHR ''.'' # fp) = Some (of_nat (nat \<bar>?n\<bar>) / 10000000, [])"
    using scan_decimal_point [of ip fp] digits ip by (simp add: val fp)
  have "\<not> starts_with (ip @ CHR ''.'' # fp) ''Infinity''"
    using is_digit_not [OF d] by (simp add: c starts_with_def)
  then have "scan_signed (format_units ?n) = Some (Fin (of_int ?n / 10000000), [])"
    using scan is_digit_not [OF d] by (auto simp: s c scan_signed_def Let_def)
  moreover have "trim_left (format_units ?n) = format_units ?n"
    using is_digit_not [OF d] by (auto simp: s c trim_left_def is_space_def)
  ultimately have "parseFloat (format_units ?n) = Fin (of_int ?n / 10000000)"
    by (simp add: parseFloat_def)
  moreover have "format_units ?n = ((if ?n < 0 then ''-'' else []) @ ip) @ CHR ''.'' # fp"
    by (simp add: s)
  ultimately show ?thesis
    using fp by (metis formatFeeStroopsToXlm.simps(1))
qed

section \<open>Cache and bounds\<close>

text \<open>One request a minute: once statistics were read at time \<open>t\<close>, every call of the
following 60 seconds returns them, whatever the network would answer, and keeps the cache; a
failed request leaves the cache as it was.\<close>

lemma fee_cache_window:
  assumes "getFeeStats prim now t answer cache = (Inr stats, Some c)" "cs_fetchedAt c = t"
    and "t \<le> later" "later < t + CACHE_DURATION_MS"
  shows "getFeeStats prim later t' answer' (Some c) = (Inr stats, Some c)"
proof -
  have "cs_stats c = stats"
    using assms(1)
    by (auto simp: getFeeStats_def Let_def split: option.splits fetch_result.splits if_splits)
  moreover have "cache_fresh later c"
    using assms(2-4) fee_cache.fresh_window [of c later] by simp
  ultimately show ?thesis by (simp add: getFeeStats_def)
qed

definition fee_answer :: fetch_result where
  "fee_answer = Responded \<lparr>resp_ok = True, resp_status = 200, resp_statusText = ''OK'',
     resp_json = Some (JObject [])\<rparr>"

lemma fee_cache_window_example:
  "\<exists>st c. getFeeStats (\<lambda>_. JsNaN) 0 5 fee_answer None = (Inr st, Some c) \<and>
     getFeeStats (\<lambda>_. JsNaN) 60004 9 (FetchThrows []) (Some c) = (Inr st, Some c)"
proof -
  let ?st = "read_stats (\<lambda>_. JsNaN) (JObject [])"
  let ?c = "\<lparr>cs_stats = ?st, cs_fetchedAt = 5\<rparr>"
  have a: "getFeeStats (\<lambda>_. JsNaN) 0 5 fee_answer None = (Inr ?st, Some ?c)"
    by (simp add: getFeeStats_def fee_answer_def Let_def)
  have "getFeeStats (\<lambda>_. JsNaN) 60004 9 (FetchThrows []) (Some ?c) = (Inr ?st, Some ?c)"
    by (rule fee_cache_window [OF a]) (simp_all add: CACHE_DURATION_MS_def)
  with a show ?thesis by blast
qed

lemma num_max_ge: "x \<noteq> JsNaN \<Longrightarrow> y \<noteq> JsNaN \<Longrightarrow> x \<le> num_max x y \<and> y \<le> num_max x y \<and> num_max x y \<noteq> JsNaN"
  by (auto simp: num_max_def max_def)

lemma num_times_mono: "Fin a \<le> x \<Longrightarrow> Fin (a * of_nat n) \<le> num_times x n"
  by (cases x) (auto simp: less_eq_jsnum_def mult_right_mono)

lemma num_add_ge: "Fin 0 \<le> x \<Longrightarrow> Fin a \<le> y \<Longrightarrow> Fin a \<le> num_add x y"
  by (cases x; cases y) (auto simp: less_eq_jsnum_def)

text \<open>The estimate never undercuts the network: as long as the statistics are numbers and a
successful simulation reports no negative resource fee, the total covers 100 stroops for each
operation (at least one), whichever of the four paths computes it, and the base fee lies between
the minimum of 100 and the reported maximum.\<close>

lemma fee_estimate_covers_minimum:
  assumes "\<And>s. fetched = Inr s \<Longrightarrow> fs_p95 s \<noteq> JsNaN \<and> fs_p99 s \<noteq> JsNaN \<and> fs_max s \<noteq> JsNaN"
    and "\<And>r. sim = Inr r \<Longrightarrow> Fin 0 \<le> rs_resourceFeeStroops r"
  shows "Fin (100 * of_nat (max 1 (length ops))) \<le> fe_totalFeeStroops (estimateAccurateFee ops fetched sim) \<and>
    Fin 100 \<le> fe_baseFeeStroops (estimateAccurateFee ops fetched sim) \<and>
    fe_baseFeeStroops (estimateAccurateFee ops fetched sim) \<le>
      fe_maxBaseFeeStroops (estimateAccurateFee ops fetched sim)"
proof -
  let ?stats = "case fetched of Inr s \<Rightarrow> s | Inl _ \<Rightarrow> default_stats"
  let ?base = "num_max (Fin 100) (fs_p95 ?stats)"
  let ?top = "num_max (num_max ?base (fs_max ?stats)) (fs_p99 ?stats)"
  let ?n = "max 1 (length ops)"
  have nan: "fs_p95 ?stats \<noteq> JsNaN" "fs_p99 ?stats \<noteq> JsNaN" "fs_max ?stats \<noteq> JsNaN"
    using assms(1) by (auto simp: default_stats_def split: sum.split)
  note base = num_max_ge [OF jsnum.distinct(4) nan(1), of 100]
  note mid = num_max_ge [OF conjunct2 [OF conjunct2 [OF base]] nan(3)]
  note top = num_max_ge [OF conjunct2 [OF conjunct2 [OF mid]] nan(2)]
  have le: "Fin 100 \<le> ?base" "?base \<le> ?top" "Fin 100 \<le> ?top"
    using base mid top by (auto intro: order_trans)
  have times: "Fin (100 * of_nat ?n) \<le> num_times ?base ?n" "Fin (100 * of_nat ?n) \<le> num_times ?top ?n"
    using num_times_mono le by blast+
  have "Fin 0 \<le> Fin FALLBACK_RESOURCE_FEE_STROOPS"
    by (simp add: FALLBACK_RESOURCE_FEE_STROOPS_def)
  note fallback = num_add_ge [OF this times(2)]
  show ?thesis
    using le times fallback num_add_ge [OF assms(2) times(1)]
    by (cases sim) (simp_all add: estimateAccurateFee_def Let_def)
qed

theorem fee_estimate_covers_minimum_example:
  "Fin 100 \<le> fe_totalFeeStroops (estimateAccurateFee [] (Inl BadBody) (Inl []))"
  using fee_estimate_covers_minimum [of "Inl BadBody" "Inl []" "[]"] by simp

end
