(* ===== verification/Treasury.thy ===== *)
theory Treasury
  imports JsText "HOL-Library.Product_Lexorder"
begin

text \<open>
  \<open>frontend/lib/treasury.ts\<close>: probing the admin proposals of the contract, listing the payment
  proposals, and the sorted overview of both. The contract client is the record of its read
  calls; a call that throws, or answers null, is \<open>None\<close>.
\<close>

section \<open>Proposals\<close>

datatype proposal_kind = Admin | Payment

text \<open>Admin proposals come first on the page: the order of the kinds.\<close>

instantiation proposal_kind :: linorder
begin

definition less_eq_proposal_kind :: "proposal_kind \<Rightarrow> proposal_kind \<Rightarrow> bool" where
  "less_eq_proposal_kind a b = (a = Admin \<or> b = Payment)"

definition less_proposal_kind :: "proposal_kind \<Rightarrow> proposal_kind \<Rightarrow> bool" where
  "less_proposal_kind a b = (a = Admin \<and> b = Payment)"

instance
proof
  fix a b c :: proposal_kind
  show "a < b \<longleftrightarrow> a \<le> b \<and> \<not> b \<le> a"
    by (cases a; cases b) (simp_all add: less_eq_proposal_kind_def less_proposal_kind_def)
  show "a \<le> a" "a \<le> b \<or> b \<le> a"
    by (cases a; cases b; simp add: less_eq_proposal_kind_def)+
  show "a \<le> b \<Longrightarrow> b \<le> c \<Longrightarrow> a \<le> c" "a \<le> b \<Longrightarrow> b \<le> a \<Longrightarrow> a = b"
    by (cases a; cases b; cases c; simp add: less_eq_proposal_kind_def)+
qed

end

definition MAX_ADMIN_PROBE :: nat where
  "MAX_ADMIN_PROBE = 200"

record admin_proposal =
  ap_id :: int
  ap_actionType :: string
  ap_actionData :: "jsval list"
  ap_approvals :: "string list"
  ap_threshold :: int
  ap_executed :: bool
  ap_expirationLedger :: int

record payment_proposal =
  pp_id :: int
  pp_proposer :: string
  pp_threshold :: int
  pp_signers :: "string list"
  pp_approvals :: "string list"
  pp_status :: string
  pp_expirationLedger :: int

datatype proposal_status = StPending | StExecuted | StCancelled

datatype raw_proposal = RawAdmin admin_proposal | RawPayment payment_proposal

record treasury_proposal =
  tp_kind :: proposal_kind
  tp_id :: int
  tp_proposer :: string
  tp_actionType :: string
  tp_actionData :: "jsval list"
  tp_approvals :: "string list"
  tp_signers :: "string list"
  tp_threshold :: int
  tp_status :: proposal_status
  tp_rawStatus :: string
  tp_expirationLedger :: int
  tp_raw :: raw_proposal

record treasury_overview =
  to_proposals :: "treasury_proposal list"
  to_adminSigners :: "string list"
  to_adminThreshold :: int

record contract_client =
  cl_adminProposal :: "nat \<Rightarrow> admin_proposal option"
  cl_multisigCount :: "nat option"
  cl_multisig :: "nat \<Rightarrow> payment_proposal option"
  cl_adminSigners :: "string list option"
  cl_adminThreshold :: "int option"

section \<open>Fetching\<close>

text \<open>The \<open>while\<close> loop over batches of ten ids, from \<open>start\<close>, with the proposals so far.\<close>

function admin_batches ::
  "(nat \<Rightarrow> admin_proposal option) \<Rightarrow> nat \<Rightarrow> admin_proposal list \<Rightarrow> admin_proposal list" where
  "admin_batches client start proposals =
     (if start \<le> MAX_ADMIN_PROBE then
        (let ids = map (\<lambda>i. start + i) [0..<10];
             settled = map client ids;
             found = List.map_filter id settled;
             proposals' = proposals @ found
         in if list_ex (\<lambda>p. p = None) settled then proposals'
            else admin_batches client (start + 10) proposals')
      else proposals)"
  by pat_completeness auto
termination
  by (relation "measure (\<lambda>(client, start, ps). Suc MAX_ADMIN_PROBE - start)")
    (auto simp: MAX_ADMIN_PROBE_def)

declare admin_batches.simps [simp del]

definition fetchAdminProposals :: "contract_client \<Rightarrow> admin_proposal list" where
  "fetchAdminProposals client = admin_batches (cl_adminProposal client) 1 []"

definition fetchPaymentProposals :: "contract_client \<Rightarrow> payment_proposal list" where
  "fetchPaymentProposals client =
     (let count = (case cl_multisigCount client of None \<Rightarrow> 0 | Some n \<Rightarrow> n)
      in List.map_filter (cl_multisig client) [1..<Suc count])"

definition normalizeStatus :: "string \<Rightarrow> bool \<Rightarrow> proposal_status" where
  "normalizeStatus status executedFallback =
     (let s = to_lower status
      in if s = ''executed'' \<or> executedFallback then StExecuted
         else if s = ''cancelled'' then StCancelled
         else StPending)"

definition admin_row :: "string list \<Rightarrow> admin_proposal \<Rightarrow> treasury_proposal" where
  "admin_row adminSigners p =
     \<lparr>tp_kind = Admin, tp_id = ap_id p,
      tp_proposer = (case ap_approvals p of [] \<Rightarrow> [] | a # _ \<Rightarrow> a),
      tp_actionType = ap_actionType p, tp_actionData = ap_actionData p,
      tp_approvals = ap_approvals p, tp_signers = adminSigners, tp_threshold = ap_threshold p,
      tp_status = normalizeStatus (if ap_executed p then ''executed'' else ''pending'') False,
      tp_rawStatus = (if ap_executed p then ''Executed'' else ''Pending''),
      tp_expirationLedger = ap_expirationLedger p, tp_raw = RawAdmin p\<rparr>"

definition payment_row :: "payment_proposal \<Rightarrow> treasury_proposal" where
  "payment_row p =
     \<lparr>tp_kind = Payment, tp_id = pp_id p, tp_proposer = pp_proposer p,
      tp_actionType = ''payment'', tp_actionData = [], tp_approvals = pp_approvals p,
      tp_signers = pp_signers p, tp_threshold = pp_threshold p,
      tp_status = normalizeStatus (pp_status p) False, tp_rawStatus = pp_status p,
      tp_expirationLedger = pp_expirationLedger p, tp_raw = RawPayment p\<rparr>"

definition compare_rows :: "treasury_proposal \<Rightarrow> treasury_proposal \<Rightarrow> jsnum" where
  "compare_rows a b =
     (if tp_kind a = tp_kind b then num_sub (ms (tp_id b)) (ms (tp_id a))
      else if tp_kind a = Admin then Fin (-1) else Fin 1)"

definition fetchTreasuryOverview :: "contract_client \<Rightarrow> treasury_overview" where
  "fetchTreasuryOverview client =
     (let adminRaw = fetchAdminProposals client;
          paymentRaw = fetchPaymentProposals client;
          adminSigners = (case cl_adminSigners client of None \<Rightarrow> [] | Some s \<Rightarrow> s);
          adminThreshold = (case cl_adminThreshold client of None \<Rightarrow> 1 | Some t \<Rightarrow> t);
          adminProposals = map (admin_row adminSigners) adminRaw;
          paymentProposals = map payment_row paymentRaw
      in \<lparr>to_proposals = js_sort compare_rows (adminProposals @ paymentProposals),
          to_adminSigners = adminSigners, to_adminThreshold = adminThreshold\<rparr>)"

section \<open>The probe\<close>

text \<open>One turn of the loop.\<close>

lemma admin_batches_step:
  assumes "start \<le> MAX_ADMIN_PROBE"
  shows "admin_batches client start ps =
     (if (\<exists>i \<in> {start..<start + 10}. client i = None)
      then ps @ List.map_filter client [start..<start + 10]
      else admin_batches client (start + 10) (ps @ List.map_filter client [start..<start + 10]))"
proof -
  have ids: "map (\<lambda>i. start + i) [0..<10] = [start..<start + 10]"
    using map_add_upt [of start 10] by (simp add: add.commute)
  have "list_ex (\<lambda>p. p = None) (map client [start..<start + 10]) \<longleftrightarrow>
      (\<exists>i \<in> {start..<start + 10}. client i = None)"
    by (force simp: list_ex_iff)
  with assms show ?thesis
    by (subst admin_batches.simps) (simp only: Let_def if_True ids map_filter_id)
qed

lemma admin_batches_contiguous:
  assumes dense: "\<And>i. 1 \<le> i \<Longrightarrow> client i = (if i \<le> n then Some (p i) else None)"
    and "1 \<le> start" "start \<le> Suc n" "start \<le> 201" "start mod 10 = 1"
  shows "admin_batches client start ps = ps @ map p [start..<Suc (min n 200)]"
  using assms(2-)
proof (induction "201 - start" arbitrary: start ps rule: less_induct)
  case less
  show ?case
  proof (cases "start = 201")
    case True
    then show ?thesis by (simp add: admin_batches.simps [of _ 201] MAX_ADMIN_PROBE_def)
  next
    case False
    with less.prems have start: "start \<le> 191" by presburger
    then have step: "start \<le> MAX_ADMIN_PROBE" by (simp add: MAX_ADMIN_PROBE_def)
    show ?thesis
    proof (cases "start + 9 \<le> n")
      case True
      then have some: "client i = Some (p i)" if "i \<in> {start..<start + 10}" for i
        using that less.prems(1) by (simp add: dense)
      then have "\<not> (\<exists>i \<in> {start..<start + 10}. client i = None)"
        by auto
      moreover have "List.map_filter client [start..<start + 10] = map p [start..<start + 10]"
        by (rule map_filter_Some) (use some in simp)
      moreover have "admin_batches client (start + 10) (ps @ map p [start..<start + 10]) =
          (ps @ map p [start..<start + 10]) @ map p [start + 10..<Suc (min n 200)]"
        by (rule less.hyps) (use less.prems start True in \<open>auto simp: mod_add_self2\<close>)
      moreover have "[start..<start + 10] @ [start + 10..<Suc (min n 200)] = [start..<Suc (min n 200)]"
        using start True by (intro upt_split) auto
      ultimately show ?thesis
        unfolding admin_batches_step [OF step] by (simp only: if_False append_assoc flip: map_append)
    next
      case False
      then have "client (Suc n) = None" "Suc n \<in> {start..<start + 10}"
        using less.prems by (simp_all add: dense)
      then have ex: "\<exists>i \<in> {start..<start + 10}. client i = None" by blast
      have "[start..<start + 10] = [start..<Suc n] @ [Suc n..<start + 10]"
        using False less.prems(2) by (intro upt_split [symmetric]) auto
      moreover have "List.map_filter client [start..<Suc n] = map p [start..<Suc n]"
        using less.prems(1) by (intro map_filter_Some) (auto simp: dense)
      moreover have "List.map_filter client [Suc n..<start + 10] = []"
        by (intro map_filter_None) (simp add: dense)
      moreover have "min n 200 = n" using False start by simp
      ultimately show ?thesis
        unfolding admin_batches_step [OF step] using ex by (simp add: map_filter_append)
    qed
  qed
qed

definition dense_client :: "nat \<Rightarrow> (nat \<Rightarrow> admin_proposal) \<Rightarrow> contract_client \<Rightarrow> bool" where
  "dense_client n p client \<longleftrightarrow>
     (\<forall>i \<ge> 1. cl_adminProposal client i = (if i \<le> n then Some (p i) else None))"

text \<open>The probe is complete up to its cap: when the contract numbers its \<open>n\<close> admin
proposals 1 to \<open>n\<close> without gaps, the batches return exactly these in order, the first 200 of
them when there are more.\<close>

lemma admin_probe_complete:
  assumes "dense_client n p client"
  shows "fetchAdminProposals client = map p [1..<Suc (min n 200)]"
  unfolding fetchAdminProposals_def
  using assms admin_batches_contiguous [of "cl_adminProposal client" n p 1 "[]"]
  by (simp add: dense_client_def)

definition sample_admin :: "nat \<Rightarrow> admin_proposal" where
  "sample_admin i = \<lparr>ap_id = int i, ap_actionType = ''pause'', ap_actionData = [],
     ap_approvals = [''GA''], ap_threshold = 2, ap_executed = False, ap_expirationLedger = 90\<rparr>"

definition sample_client :: "nat \<Rightarrow> contract_client" where
  "sample_client n = \<lparr>cl_adminProposal = (\<lambda>i. if i \<le> n then Some (sample_admin i) else None),
     cl_multisigCount = None, cl_multisig = (\<lambda>_. None), cl_adminSigners = None,
     cl_adminThreshold = None\<rparr>"

theorem admin_probe_complete_example: "length (fetchAdminProposals (sample_client 12)) = 12"
proof -
  have "dense_client 12 sample_admin (sample_client 12)"
    by (simp add: dense_client_def sample_client_def)
  from admin_probe_complete [OF this] show ?thesis by simp
qed

section \<open>The overview\<close>

definition row_key :: "treasury_proposal \<Rightarrow> proposal_kind \<times> int" where
  "row_key r = (tp_kind r, - tp_id r)"

lemma compare_rows_key: "num_positive (compare_rows a b) \<longleftrightarrow> row_key b < row_key a"
  by (cases "tp_kind a"; cases "tp_kind b")
    (auto simp: compare_rows_def row_key_def less_proposal_kind_def less_eq_proposal_kind_def)

text \<open>The overview lists every proposal fetched, governance first and the newest first
within each kind, proposals that compare equal keeping the order they were fetched in.\<close>

lemma treasury_overview_sorted:
  "let rows = to_proposals (fetchTreasuryOverview client);
       fetched = map (admin_row (to_adminSigners (fetchTreasuryOverview client)))
           (fetchAdminProposals client) @ map payment_row (fetchPaymentProposals client)
   in mset rows = mset fetched \<and> rows = sort_key row_key fetched \<and> sorted (map row_key rows)"
proof -
  have "js_sort compare_rows xs = sort_key row_key xs" for xs
    by (rule js_sort_key) (rule compare_rows_key)
  then show ?thesis
    by (simp add: fetchTreasuryOverview_def Let_def)
qed

text \<open>Status tokens are stable: an executed admin proposal is shown as executed and no other
admin proposal is, a payment proposal is executed or cancelled exactly when the contract says so
in any capitalisation, and everything else shows as pending.\<close>

lemma normalised_statuses:
  "tp_status (admin_row ss a) = (if ap_executed a then StExecuted else StPending) \<and>
   tp_status (payment_row p) =
     (if to_lower (pp_status p) = ''executed'' then StExecuted
      else if to_lower (pp_status p) = ''cancelled'' then StCancelled else StPending)"
  by (simp add: admin_row_def payment_row_def normalizeStatus_def Let_def to_lower_def lower_char_def)

end
