(* ===== verification/EscrowManager.thy ===== *)
theory EscrowManager
  imports JsText JsDict
begin

text \<open>
  \<open>frontend/lib/escrowManager.ts\<close>: the escrow list of an account, fetched from the contract in
  batches and cached for thirty seconds, its invalidation when an escrow is claimed or
  cancelled, and the categories, orders and search of the escrow page. The contract client, the
  wallet and the submission are arguments; a call that throws is \<open>None\<close>.
\<close>

section \<open>Data\<close>

datatype escrow_status = EscrowPending | EscrowReleased | EscrowCancelled

record escrow =
  es_id :: int
  es_from :: string
  es_to :: string
  es_token :: string
  es_amount :: string
  es_releaseLedger :: int
  es_status :: escrow_status
  es_memo :: string

record cache_entry =
  ce_escrows :: "escrow list"
  ce_fetchedAt :: int

type_synonym escrow_cache = "(string, cache_entry) dict"

record escrow_client =
  ec_count :: "nat option"
  ec_escrow :: "nat \<Rightarrow> escrow option option"  \<comment> \<open>rejected, or null, or an escrow\<close>

definition CACHE_TTL_MS :: int where
  "CACHE_TTL_MS = 30000"

text \<open>The storage holds the cache, or there is no window (\<open>None\<close>).\<close>

definition getCache :: "escrow_cache option \<Rightarrow> escrow_cache" where
  "getCache ls = (case ls of None \<Rightarrow> [] | Some c \<Rightarrow> c)"

definition setCache :: "string \<Rightarrow> cache_entry \<Rightarrow> escrow_cache option \<Rightarrow> escrow_cache option" where
  "setCache k entry ls = (case ls of None \<Rightarrow> None | Some c \<Rightarrow> Some (d_set k entry c))"

definition isCacheValid :: "int \<Rightarrow> cache_entry \<Rightarrow> bool" where
  "isCacheValid now entry = (now - ce_fetchedAt entry < CACHE_TTL_MS)"

interpretation escrow_ttl: expiring ce_fetchedAt isCacheValid CACHE_TTL_MS
  by unfold_locales (simp add: isCacheValid_def)

definition cacheKey :: "string \<Rightarrow> string" where
  "cacheKey publicKey = ''escrows:'' @ publicKey"

definition invalidateCacheForUser :: "string \<Rightarrow> escrow_cache option \<Rightarrow> escrow_cache option" where
  "invalidateCacheForUser publicKey ls =
     (case ls of None \<Rightarrow> None | Some c \<Rightarrow> Some (d_delete (cacheKey publicKey) c))"

definition clearEscrowCache :: "escrow_cache option \<Rightarrow> escrow_cache option" where
  "clearEscrowCache ls = (case ls of None \<Rightarrow> None | Some c \<Rightarrow> Some [])"

section \<open>Fetching\<close>

definition involves :: "string \<Rightarrow> escrow \<Rightarrow> bool" where
  "involves publicKey e = (es_from e = publicKey \<or> es_to e = publicKey)"

text \<open>The inner loop: the fulfilled, non-null results that involve the account.\<close>

fun collect_batch :: "string \<Rightarrow> escrow option option list \<Rightarrow> escrow list" where
  "collect_batch pk [] = []"
| "collect_batch pk (Some (Some e) # rs) =
     (if involves pk e then e # collect_batch pk rs else collect_batch pk rs)"
| "collect_batch pk (_ # rs) = collect_batch pk rs"

function fetch_batches ::
  "(nat \<Rightarrow> escrow option option) \<Rightarrow> string \<Rightarrow> nat \<Rightarrow> nat \<Rightarrow> escrow list \<Rightarrow> escrow list" where
  "fetch_batches get pk available start all =
     (if start < available then
        (let end' = min (start + 10) available;
             results = map get [start..<end']
         in fetch_batches get pk available (start + 10) (all @ collect_batch pk results))
      else all)"
  by pat_completeness auto
termination
  by (relation "measure (\<lambda>(get, pk, available, start, all). available - start)") auto

declare fetch_batches.simps [simp del]

text \<open>\<open>configured\<close>: \<open>CONTRACT_ID\<close> is set. \<open>now\<close> is read at the cache check, \<open>later\<close> at the write.\<close>

definition getEscrows ::
  "bool \<Rightarrow> escrow_client \<Rightarrow> int \<Rightarrow> int \<Rightarrow> string \<Rightarrow> bool \<Rightarrow> escrow_cache option
     \<Rightarrow> escrow list \<times> escrow_cache option" where
  "getEscrows configured client now later publicKey forceRefresh ls =
     (if \<not> configured then ([], ls)
      else
        (let key = cacheKey publicKey;
             cached = d_get (getCache ls) key
         in case (if forceRefresh then None
                  else case cached of Some c \<Rightarrow> if isCacheValid now c then Some c else None | None \<Rightarrow> None) of
              Some c \<Rightarrow> (ce_escrows c, ls)
            | None \<Rightarrow>
                (case ec_count client of
                   None \<Rightarrow> (case cached of Some c \<Rightarrow> ce_escrows c | None \<Rightarrow> [], ls)
                 | Some available \<Rightarrow>
                     if available = 0 then ([], ls)
                     else
                       (let all = fetch_batches (ec_escrow client) publicKey available 0 []
                        in (all, setCache key \<lparr>ce_escrows = all, ce_fetchedAt = later\<rparr> ls)))))"

definition getEscrowDetail :: "bool \<Rightarrow> escrow_client \<Rightarrow> nat \<Rightarrow> escrow option" where
  "getEscrowDetail configured client i =
     (if \<not> configured then None
      else case ec_escrow client i of None \<Rightarrow> None | Some r \<Rightarrow> r)"

text \<open>
  Claim and cancel share their steps: build, sign, submit, then invalidate. The builder and the
  submission may throw; the wallet reports an error or a signed XDR.
\<close>

record action_env =
  ae_build :: "string + string"
  ae_sign :: "string \<Rightarrow> string option \<times> string option"
  ae_submit :: "string \<Rightarrow> string + string"

definition run_action ::
  "bool \<Rightarrow> action_env \<Rightarrow> string \<Rightarrow> int \<Rightarrow> escrow_cache option \<Rightarrow> (string + string) \<times> escrow_cache option" where
  "run_action configured env publicKey i ls =
     (if \<not> configured then (Inl ''Contract ID is not configured.'', ls)
      else case ae_build env of
        Inl m \<Rightarrow> (Inl m, ls)
      | Inr tx \<Rightarrow>
          (case ae_sign env tx of
             (signed, err) \<Rightarrow>
               (let failed = (err \<noteq> None \<and> err \<noteq> Some [])
                in if failed \<or> signed = None \<or> signed = Some []
                   then (Inl (if failed then the err else ''Signing failed''), ls)
                   else case ae_submit env (the signed) of
                     Inl m \<Rightarrow> (Inl m, ls)
                   | Inr hash \<Rightarrow>
                       (Inr (if hash \<noteq> [] then hash else show_int i),
                        invalidateCacheForUser publicKey ls))))"

definition claimEscrow ::
  "bool \<Rightarrow> action_env \<Rightarrow> string \<Rightarrow> int \<Rightarrow> escrow_cache option \<Rightarrow> (string + string) \<times> escrow_cache option" where
  "claimEscrow configured env publicKey i ls = run_action configured env publicKey i ls"

definition cancelEscrow ::
  "bool \<Rightarrow> action_env \<Rightarrow> string \<Rightarrow> int \<Rightarrow> escrow_cache option \<Rightarrow> (string + string) \<times> escrow_cache option" where
  "cancelEscrow configured env publicKey i ls = run_action configured env publicKey i ls"

section \<open>The escrow page\<close>

record categories =
  cat_active :: "escrow list"
  cat_completed :: "escrow list"
  cat_incoming :: "escrow list"

definition categorizeEscrows :: "escrow list \<Rightarrow> string \<Rightarrow> categories" where
  "categorizeEscrows escrows publicKey =
     \<lparr>cat_active = filter (\<lambda>e. es_status e = EscrowPending \<and>
        (es_from e = publicKey \<or> es_to e = publicKey)) escrows,
      cat_completed = filter (\<lambda>e. es_status e = EscrowReleased \<or> es_status e = EscrowCancelled) escrows,
      cat_incoming = filter (\<lambda>e. es_status e = EscrowPending \<and> es_to e = publicKey) escrows\<rparr>"

text \<open>\<open>BigInt(s)\<close>: signed decimal digits or a radix literal; \<open>None\<close> where it throws.\<close>

definition bigint_digits :: "string \<Rightarrow> int option" where
  "bigint_digits ds = (if ds \<noteq> [] \<and> list_all is_digit ds then Some (int (read_nat 0 ds)) else None)"

definition bigint :: "string \<Rightarrow> int option" where
  "bigint s =
     (case trim s of
        [] \<Rightarrow> Some 0
      | c # ds \<Rightarrow>
          if radix_prefix (c # ds) \<noteq> None
          then (if tl ds = [] then None
                else map_option int (read_radix (the (radix_prefix (c # ds))) 0 (tl ds)))
          else if c = CHR ''-'' then map_option uminus (bigint_digits ds)
          else if c = CHR ''+'' then bigint_digits ds
          else bigint_digits (c # ds))"

datatype escrow_order = TimeRemaining | AmountDesc | DateCreated

text \<open>Sorting by amount throws as soon as it compares an amount that is no integer, which it
does for every escrow of a list of two or more.\<close>

definition sortEscrows :: "escrow list \<Rightarrow> escrow_order \<Rightarrow> escrow list option" where
  "sortEscrows escrows sortBy =
     (case sortBy of
        AmountDesc \<Rightarrow>
          if length escrows \<ge> 2 \<and> list_ex (\<lambda>e. bigint (es_amount e) = None) escrows then None
          else Some (js_sort (\<lambda>a b. ms (the (bigint (es_amount b)) - the (bigint (es_amount a)))) escrows)
      | DateCreated \<Rightarrow> Some (js_sort (\<lambda>a b. ms (es_id b - es_id a)) escrows)
      | TimeRemaining \<Rightarrow> Some (js_sort (\<lambda>a b. ms (es_releaseLedger a - es_releaseLedger b)) escrows))"

definition filterEscrows :: "escrow list \<Rightarrow> string \<Rightarrow> escrow list" where
  "filterEscrows escrows query =
     (if trim query = [] then escrows
      else
        (let q = to_lower query
         in filter (\<lambda>e. str_includes (to_lower (es_from e)) q \<or> str_includes (to_lower (es_to e)) q \<or>
              str_includes (show_int (es_id e)) q) escrows))"

section \<open>The batched fetch\<close>

definition fulfilled :: "(nat \<Rightarrow> escrow option option) \<Rightarrow> nat \<Rightarrow> escrow option" where
  "fulfilled get i = (case get i of Some (Some e) \<Rightarrow> Some e | _ \<Rightarrow> None)"

lemma collect_batch_filter:
  "collect_batch pk (map get is) = filter (involves pk) (List.map_filter (fulfilled get) is)"
proof (induction "is")
  case (Cons i rest)
  then show ?case
    by (cases "get i"; cases "the (get i)") (simp_all add: fulfilled_def List.map_filter_simps)
qed (simp add: List.map_filter_simps)

lemma fetch_batches_all:
  assumes "start \<le> available"
  shows "fetch_batches get pk available start all =
     all @ filter (involves pk) (List.map_filter (fulfilled get) [start..<available])"
  using assms
proof (induction get pk available start all rule: fetch_batches.induct)
  case (1 get pk available start all)
  show ?case
  proof (cases "start < available")
    case True
    let ?e = "min (start + 10) available"
    let ?all = "all @ collect_batch pk (map get [start..<?e])"
    have step: "fetch_batches get pk available start all = fetch_batches get pk available (start + 10) ?all"
      using True by (subst fetch_batches.simps) (simp add: Let_def)
    have rest: "fetch_batches get pk available (start + 10) ?all =
        ?all @ filter (involves pk) (List.map_filter (fulfilled get) [?e..<available])"
    proof (cases "start + 10 \<le> available")
      case le: True
      with "1.IH" [OF True refl refl] show ?thesis by (simp add: min_def)
    next
      case False
      then show ?thesis by (subst fetch_batches.simps) (simp add: min_def List.map_filter_simps)
    qed
    have "[start..<?e] @ [?e..<available] = [start..<available]"
      using True by (intro upt_split) auto
    then have "List.map_filter (fulfilled get) [start..<available] =
        List.map_filter (fulfilled get) [start..<?e] @ List.map_filter (fulfilled get) [?e..<available]"
      by (metis map_filter_append)
    then show ?thesis
      unfolding step rest by (simp add: collect_batch_filter)
  next
    case False
    with "1.prems" show ?thesis
      by (subst fetch_batches.simps) (simp add: List.map_filter_simps)
  qed
qed

text \<open>Fetching in batches of ten is fetching one by one: when the cache does not answer,
the list is exactly the escrows with ids below the contract's count whose read succeeded and
that involve the account, in id order; reads that fail are skipped, and the list is cached.\<close>

lemma getEscrows_fetches_all:
  assumes "ec_count client = Some available" "0 < available"
  shows "getEscrows True client now later pk True ls =
     (let all = filter (involves pk) (List.map_filter (fulfilled (ec_escrow client)) [0..<available])
      in (all, setCache (cacheKey pk) \<lparr>ce_escrows = all, ce_fetchedAt = later\<rparr> ls))"
  using assms fetch_batches_all [of 0 available "ec_escrow client" pk "[]"]
  by (simp add: getEscrows_def Let_def)

definition sample_escrow :: "nat \<Rightarrow> escrow" where
  "sample_escrow i = \<lparr>es_id = int i, es_from = ''GA'', es_to = ''GB'', es_token = ''C'',
     es_amount = ''5'', es_releaseLedger = 10, es_status = EscrowPending, es_memo = []\<rparr>"

definition sample_escrows :: escrow_client where
  "sample_escrows = \<lparr>ec_count = Some 2, ec_escrow = (\<lambda>i. if i = 0 then None else Some (Some (sample_escrow i)))\<rparr>"

theorem getEscrows_fetches_all_example:
  "fst (getEscrows True sample_escrows 0 1 ''GA'' True None) = [sample_escrow 1]"
proof -
  have av: "ec_count sample_escrows = Some 2" by (simp add: sample_escrows_def)
  have get: "List.map_filter (fulfilled (ec_escrow sample_escrows)) [0..<2] = [sample_escrow 1]"
    by (simp add: sample_escrows_def fulfilled_def upt_rec List.map_filter_simps)
  show ?thesis
    unfolding getEscrows_fetches_all [OF av, of 0 1 "''GA''" None, simplified] get
    by (simp add: Let_def involves_def sample_escrow_def)
qed

section \<open>The cache\<close>

text \<open>A claim or a cancellation that succeeds is visible at once: the account's next read
asks the contract again, whatever was cached and however fresh it was, while the cached lists
of other accounts stay; one that fails leaves the cache untouched.\<close>

lemma action_refreshes_list:
  assumes "run_action configured env pk i (Some cache) = (r, ls')"
  shows "(\<forall>m. r = Inl m \<longrightarrow> ls' = Some cache) \<and>
    (\<forall>h. r = Inr h \<longrightarrow>
       getEscrows True client now later pk False ls' = getEscrows True client now later pk True ls' \<and>
       (\<forall>other. other \<noteq> pk \<longrightarrow>
          d_get (getCache ls') (cacheKey other) = d_get cache (cacheKey other)))"
proof -
  have "ls' = (case r of Inl m \<Rightarrow> Some cache | Inr h \<Rightarrow> invalidateCacheForUser pk (Some cache))"
    using assms by (auto simp: run_action_def Let_def split: if_splits sum.splits prod.splits)
  then show ?thesis
    by (auto simp: getEscrows_def Let_def invalidateCacheForUser_def getCache_def cacheKey_def dict_get)
qed

theorem action_refreshes_list_example:
  "getEscrows True sample_escrows 0 1 ''GA'' False (snd (claimEscrow True
     \<lparr>ae_build = Inr ''x'', ae_sign = (\<lambda>_. (Some ''y'', None)), ae_submit = (\<lambda>_. Inr ''h'')\<rparr> ''GA'' 4
     (Some [(cacheKey ''GA'', \<lparr>ce_escrows = [], ce_fetchedAt = 0\<rparr>)]))) =
   getEscrows True sample_escrows 0 1 ''GA'' True (Some [])"
proof -
  let ?env = "\<lparr>ae_build = Inr ''x'', ae_sign = (\<lambda>_. (Some ''y'', None)), ae_submit = (\<lambda>_. Inr ''h'')\<rparr>"
  let ?cache = "[(cacheKey ''GA'', \<lparr>ce_escrows = [], ce_fetchedAt = 0\<rparr>)]"
  have r: "run_action True ?env ''GA'' 4 (Some ?cache) = (Inr ''h'', Some [])"
    by (simp add: run_action_def Let_def invalidateCacheForUser_def d_delete_def)
  from action_refreshes_list [OF r, of sample_escrows 0 1] r show ?thesis
    by (simp add: claimEscrow_def)
qed

section \<open>Categories and orders\<close>

text \<open>The tabs partition an account's escrows: every escrow that involves the account is in
exactly one of active and completed, incoming ones are active, and nothing is listed twice.\<close>

lemma categories_partition:
  assumes "\<forall>e \<in> set escrows. involves pk e"
  shows "mset (cat_active (categorizeEscrows escrows pk)) +
      mset (cat_completed (categorizeEscrows escrows pk)) = mset escrows \<and>
    set (cat_active (categorizeEscrows escrows pk)) \<inter>
      set (cat_completed (categorizeEscrows escrows pk)) = {} \<and>
    set (cat_incoming (categorizeEscrows escrows pk)) \<subseteq> set (cat_active (categorizeEscrows escrows pk))"
proof -
  have "es_status e = EscrowReleased \<or> es_status e = EscrowCancelled \<longleftrightarrow> es_status e \<noteq> EscrowPending" for e
    by (cases "es_status e") simp_all
  moreover have "filter (\<lambda>e. es_status e = EscrowPending \<and> (es_from e = pk \<or> es_to e = pk)) escrows =
      filter (\<lambda>e. es_status e = EscrowPending) escrows"
    using assms by (intro filter_cong) (auto simp: involves_def)
  ultimately show ?thesis
    by (auto simp: categorizeEscrows_def mset_filter)
qed

lemma categories_partition_example:
  "set (cat_active (categorizeEscrows [sample_escrow 1] ''GA'')) \<inter>
   set (cat_completed (categorizeEscrows [sample_escrow 1] ''GA'')) = {}"
  using categories_partition [of "[sample_escrow 1]" "''GA''"] by (simp add: involves_def sample_escrow_def)

text \<open>Sorting never loses or invents an escrow and orders as named: by release ledger, by
amount downwards, or newest first, equal ones keeping their order. By amount it throws exactly
when there are two escrows to compare and some amount is no integer.\<close>

lemma sortEscrows_sorts:
  "sortEscrows es TimeRemaining = Some (sort_key es_releaseLedger es) \<and>
   sortEscrows es DateCreated = Some (sort_key (\<lambda>e. - es_id e) es) \<and>
   (sortEscrows es AmountDesc = None \<longleftrightarrow> 2 \<le> length es \<and> (\<exists>e \<in> set es. bigint (es_amount e) = None)) \<and>
   (\<forall>sorted_es. sortEscrows es AmountDesc = Some sorted_es \<longrightarrow>
      sorted_es = sort_key (\<lambda>e. - the (bigint (es_amount e))) es)"
proof -
  have "js_sort (\<lambda>a b. ms (f a - f b)) xs = sort_key f xs" for f :: "escrow \<Rightarrow> int" and xs
    by (rule js_sort_key) simp
  moreover have "js_sort (\<lambda>a b. ms (f b - f a)) xs = sort_key (\<lambda>e. - f e) xs" for f :: "escrow \<Rightarrow> int" and xs
    by (rule js_sort_key) simp
  ultimately show ?thesis
    by (auto simp: sortEscrows_def list_ex_iff)
qed

lemma sortEscrows_sorts_example:
  "sortEscrows [sample_escrow 1, sample_escrow 2] DateCreated = Some [sample_escrow 2, sample_escrow 1]"
  using sortEscrows_sorts [of "[sample_escrow 1, sample_escrow 2]"] by (simp add: sample_escrow_def)

end
