(* ===== verification/TransactionSearch.thy ===== *)
theory TransactionSearch
  imports JsText
begin

text \<open>
  \<open>frontend/lib/transactionSearch.ts\<close>: parsing a query into operators and free text, matching a
  payment against the operators, scoring and highlighting it, and the sorted result list. The
  highlighting loop does not return for an empty token, so it is a partial function and
  \<open>None\<close> is a search that hangs.
\<close>

section \<open>Data\<close>

datatype payment_type = SentPayment | ReceivedPayment | MergePayment | PlainPayment

record payment_record =
  pr_id :: string
  pr_type :: payment_type
  pr_amount :: string
  pr_asset :: string
  pr_from :: string
  pr_to :: string
  pr_memo :: "string option"
  pr_createdAt :: string
  pr_transactionHash :: string
  pr_hash :: string

record search_operators =
  so_from :: "string option"
  so_to :: "string option"
  so_asset :: "string option"
  so_amount :: "string option"
  so_memo :: "string option"

record search_result =
  sr_payment :: payment_record
  sr_relevance :: int
  sr_memo :: "string list"
  sr_address :: "string list"
  sr_hash :: "string list"

text \<open>A property that is absent or empty is falsy.\<close>

definition given :: "string option \<Rightarrow> bool" where
  "given x = (x \<noteq> None \<and> x \<noteq> Some [])"

section \<open>Parsing a query\<close>

text \<open>
  \<open>text.match(/key:(cls+)/i)\<close> at its leftmost match, and the text with that match cut out.
\<close>

fun match_operator :: "string \<Rightarrow> (char \<Rightarrow> bool) \<Rightarrow> string \<Rightarrow> (string \<times> string) option" where
  "match_operator key cls [] = None"
| "match_operator key cls (c # cs) =
     (let value = takeWhile cls (drop (length key) (c # cs))
      in if starts_with (to_lower (c # cs)) key \<and> value \<noteq> []
         then Some (value, drop (length key + length value) (c # cs))
         else map_option (\<lambda>(v, rest). (v, c # rest)) (match_operator key cls cs))"

definition extract_operator ::
  "string \<Rightarrow> (char \<Rightarrow> bool) \<Rightarrow> string \<Rightarrow> string option \<times> string" where
  "extract_operator key cls t =
     (case match_operator key cls t of
        None \<Rightarrow> (None, t)
      | Some (v, rest) \<Rightarrow> (Some v, trim rest))"

definition amount_char :: "char \<Rightarrow> bool" where
  "amount_char c = (is_digit c \<or> c \<in> set ''.><=!'')"

definition parseSearchQuery :: "string \<Rightarrow> search_operators \<times> string" where
  "parseSearchQuery query =
     (let (from, t1) = extract_operator ''from:'' (\<lambda>c. \<not> is_space c) query;
          (to, t2) = extract_operator ''to:'' (\<lambda>c. \<not> is_space c) t1;
          (asset, t3) = extract_operator ''asset:'' (\<lambda>c. \<not> is_space c) t2;
          (amount, t4) = extract_operator ''amount:'' amount_char t3
      in (\<lparr>so_from = from, so_to = to, so_asset = asset, so_amount = amount, so_memo = None\<rparr>, trim t4))"

text \<open>\<open>s.split(/\s+/)\<close>, with the empty pieces at either end that the method gives.\<close>

function split_spaces :: "string \<Rightarrow> string list" where
  "split_spaces s =
     (let w = takeWhile (\<lambda>c. \<not> is_space c) s;
          r = dropWhile (\<lambda>c. \<not> is_space c) s
      in if r = [] then [w] else w # split_spaces (dropWhile is_space r))"
  by pat_completeness auto
termination
proof (relation "measure length")
  fix s w r :: string
  assume "r = dropWhile (\<lambda>c. \<not> is_space c) s" "r \<noteq> []"
  then have "is_space (hd r)"
    using hd_dropWhile [of "\<lambda>c. \<not> is_space c" s] by simp
  with \<open>r \<noteq> []\<close> obtain c cs where r: "r = c # cs" "is_space c"
    by (cases r) simp_all
  have "length r \<le> length s"
    unfolding \<open>r = dropWhile (\<lambda>c. \<not> is_space c) s\<close> by (rule length_dropWhile_le)
  moreover have "length (dropWhile is_space r) < length r"
    using r length_dropWhile_le [of is_space cs] by simp
  ultimately show "(dropWhile is_space r, s) \<in> measure length" by simp
qed simp

declare split_spaces.simps [simp del]

definition word_char :: "char \<Rightarrow> bool" where
  "word_char c =
     (let n = of_char c :: nat
      in is_digit c \<or> (65 \<le> n \<and> n \<le> 90) \<or> (97 \<le> n \<and> n \<le> 122) \<or> c = CHR ''_'' \<or> c = CHR ''-'')"

definition tokenizeText :: "string \<Rightarrow> string list" where
  "tokenizeText t =
     filter (\<lambda>token. length token > 0)
       (map (\<lambda>token. filter word_char token)
          (filter (\<lambda>token. length token > 0) (split_spaces (to_lower t))))"

section \<open>Matching and scoring\<close>

definition address_of :: "(payment_record \<Rightarrow> string) \<Rightarrow> payment_record \<Rightarrow> string" where
  "address_of field p = (if pr_type p = PlainPayment then field p else [])"

definition includes_ci :: "string \<Rightarrow> string \<Rightarrow> bool" where
  "includes_ci s t = str_includes (to_lower s) (to_lower t)"

text \<open>The comparison of the amount operator: \<open>True\<close> where the chain does not return false.\<close>

definition amount_passes :: "jsnum \<Rightarrow> string \<Rightarrow> bool" where
  "amount_passes amount amountOp =
     (if starts_with amountOp ''>''
      then \<not> (num_less amount (parseFloat (drop 1 amountOp)) \<or>
              (amount = parseFloat (drop 1 amountOp) \<and> amount \<noteq> JsNaN))
      else if starts_with amountOp ''<''
      then \<not> (num_less (parseFloat (drop 1 amountOp)) amount \<or>
              (amount = parseFloat (drop 1 amountOp) \<and> amount \<noteq> JsNaN))
      else if starts_with amountOp ''>=''
      then \<not> num_less amount (parseFloat (drop 2 amountOp))
      else if starts_with amountOp ''<=''
      then \<not> num_less (parseFloat (drop 2 amountOp)) amount
      else if starts_with amountOp ''=''
      then amount = parseFloat (drop 1 amountOp) \<and> amount \<noteq> JsNaN
      else amount = parseFloat amountOp \<and> amount \<noteq> JsNaN)"

definition matchesOperators :: "payment_record \<Rightarrow> search_operators \<Rightarrow> bool" where
  "matchesOperators p ops =
     (if given (so_from ops) \<and> \<not> includes_ci (address_of pr_from p) (the (so_from ops)) then False
      else if given (so_to ops) \<and> \<not> includes_ci (address_of pr_to p) (the (so_to ops)) then False
      else if given (so_asset ops) \<and>
        \<not> includes_ci (hd (split_char CHR '':'' (pr_asset p))) (the (so_asset ops)) then False
      else if given (so_amount ops)
      then (let amount = parseFloat (pr_amount p)
            in if amount = JsNaN then False else amount_passes amount (the (so_amount ops)))
      else True)"

text \<open>
  One token's loop. \<open>indexOf\<close> from a position is the search in what follows it; the position
  moves on by the length of the token, so an empty token stays where it is.
\<close>

partial_function (option) highlight_from ::
  "string \<Rightarrow> string \<Rightarrow> string \<Rightarrow> nat \<Rightarrow> string list option" where
  "highlight_from t lowerText token idx =
     (case index_of (drop idx lowerText) (to_lower token) of
        None \<Rightarrow> Some []
      | Some k \<Rightarrow>
          Option.bind (highlight_from t lowerText token (idx + k + length token))
            (\<lambda>rest. Some (take (length token) (drop (idx + k) t) # rest)))"

fun highlight_tokens :: "string \<Rightarrow> string \<Rightarrow> string list \<Rightarrow> string list option" where
  "highlight_tokens t lowerText [] = Some []"
| "highlight_tokens t lowerText (token # tokens) =
     Option.bind (highlight_from t lowerText token 0) (\<lambda>hs.
     Option.bind (highlight_tokens t lowerText tokens) (\<lambda>rest. Some (hs @ rest)))"

definition highlightText :: "string \<Rightarrow> string list \<Rightarrow> string list option" where
  "highlightText t searchTokens =
     (if length searchTokens = 0 then Some [] else highlight_tokens t (to_lower t) searchTokens)"

definition token_score :: "payment_record \<Rightarrow> string \<Rightarrow> int" where
  "token_score p token =
     (let lowerToken = to_lower token;
          memo = (if given (pr_memo p) then to_lower (the (pr_memo p)) else []);
          from = to_lower (address_of pr_from p);
          to = to_lower (address_of pr_to p);
          hash = to_lower (pr_hash p)
      in (if memo = lowerToken then 10 else if str_includes memo lowerToken then 5 else 0) +
         (if str_includes from lowerToken \<or> str_includes to lowerToken then 3 else 0) +
         (if starts_with hash lowerToken then 2 else if str_includes hash lowerToken then 1 else 0))"

definition calculateRelevance :: "payment_record \<Rightarrow> string list \<Rightarrow> int" where
  "calculateRelevance p searchTokens =
     (if length searchTokens = 0 then 0
      else foldl (\<lambda>score token. score + token_score p token) 0 searchTokens)"

section \<open>The search\<close>

definition search_one ::
  "search_operators \<Rightarrow> string list \<Rightarrow> payment_record \<Rightarrow> search_result option option" where
  "search_one operators searchTokens p =
     (if \<not> matchesOperators p operators then Some None
      else
        (let relevance = calculateRelevance p searchTokens
         in if relevance = 0 \<and> length searchTokens > 0 then Some None
            else
              Option.bind (if given (pr_memo p) then highlightText (the (pr_memo p)) searchTokens else Some [])
                (\<lambda>memo. Option.bind
                  (if pr_type p = PlainPayment
                   then Option.bind (highlightText (pr_from p) searchTokens) (\<lambda>a.
                        Option.bind (highlightText (pr_to p) searchTokens) (\<lambda>b. Some (a @ b)))
                   else Some [])
                (\<lambda>address. Option.bind (highlightText (pr_hash p) searchTokens)
                (\<lambda>hash. Some (Some \<lparr>sr_payment = p, sr_relevance = relevance, sr_memo = memo,
                    sr_address = address, sr_hash = hash\<rparr>))))))"

fun search_all ::
  "search_operators \<Rightarrow> string list \<Rightarrow> payment_record list \<Rightarrow> search_result list option" where
  "search_all ops tokens [] = Some []"
| "search_all ops tokens (p # ps) =
     Option.bind (search_one ops tokens p) (\<lambda>r.
     Option.bind (search_all ops tokens ps) (\<lambda>rs.
       Some (case r of None \<Rightarrow> rs | Some x \<Rightarrow> x # rs)))"

definition searchPayments :: "payment_record list \<Rightarrow> string \<Rightarrow> search_result list option" where
  "searchPayments payments query =
     (if trim query = [] then Some []
      else
        (let (operators, t) = parseSearchQuery query;
             searchTokens = tokenizeText t
         in map_option (js_sort (\<lambda>a b. ms (sr_relevance b - sr_relevance a)))
              (search_all operators searchTokens payments)))"

section \<open>Highlights\<close>

lemma index_of_hit: "index_of s p = Some k \<Longrightarrow> take (length p) (drop k s) = p"
proof (induction s p arbitrary: k rule: index_of.induct)
  case (2 c cs p)
  then show ?case by (auto simp: starts_with_def split: if_splits)
qed (auto split: if_splits)

lemma index_of_bound: "index_of s p = Some k \<Longrightarrow> k + length p \<le> length s"
proof (induction s p arbitrary: k rule: index_of.induct)
  case (2 c cs p)
  then show ?case by (auto simp: starts_with_iff split: if_splits dest!: arg_cong [where f = length])
qed (auto split: if_splits)

lemma length_to_lower [simp]: "length (to_lower s) = length s"
  by (simp add: to_lower_def)

lemma to_lower_eq_Nil [simp]: "to_lower s = [] \<longleftrightarrow> s = []"
  by (simp add: to_lower_def)

lemma to_lower_slice: "to_lower (take n (drop k s)) = take n (drop k (to_lower s))"
  by (simp add: to_lower_def take_map drop_map)

text \<open>A non-empty token's loop returns, and what it collects is the token up to case.\<close>

lemma highlight_from_returns:
  assumes "token \<noteq> []"
  shows "\<exists>hs. highlight_from t (to_lower t) token idx = Some hs \<and>
    (\<forall>h \<in> set hs. to_lower h = to_lower token)"
proof (induction "length t - idx" arbitrary: idx rule: less_induct)
  case less
  show ?case
  proof (cases "index_of (drop idx (to_lower t)) (to_lower token)")
    case None
    then show ?thesis by (subst highlight_from.simps) simp
  next
    case (Some k)
    from index_of_bound [OF Some] have k: "k + length token \<le> length t - idx" by simp
    with assms have "length t - (idx + k + length token) < length t - idx"
      by (cases token) auto
    from less [OF this] obtain hs where hs:
      "highlight_from t (to_lower t) token (idx + k + length token) = Some hs"
      "\<forall>h \<in> set hs. to_lower h = to_lower token" by blast
    have "to_lower (take (length token) (drop (idx + k) t)) = to_lower token"
      using index_of_hit [OF Some] by (simp add: to_lower_slice add.commute)
    with hs Some show ?thesis by (subst highlight_from.simps) simp
  qed
qed

definition shows_token :: "string list \<Rightarrow> string list \<Rightarrow> bool" where
  "shows_token tokens hs = (\<forall>h \<in> set hs. \<exists>token \<in> set tokens. to_lower h = to_lower token)"

lemma shows_token_append [simp]:
  "shows_token tokens (xs @ ys) \<longleftrightarrow> shows_token tokens xs \<and> shows_token tokens ys"
  by (auto simp: shows_token_def)

lemma shows_token_Nil [simp]: "shows_token tokens []"
  by (simp add: shows_token_def)

lemma highlightText_returns:
  assumes "[] \<notin> set tokens"
  shows "\<exists>hs. highlightText t tokens = Some hs \<and> shows_token tokens hs"
proof -
  have "\<exists>hs. highlight_tokens t (to_lower t) tokens = Some hs \<and> shows_token tokens hs"
    using assms
  proof (induction tokens)
    case (Cons token tokens)
    then obtain rest where "highlight_tokens t (to_lower t) tokens = Some rest" "shows_token tokens rest"
      by auto
    moreover from Cons.prems obtain hs where
      "highlight_from t (to_lower t) token 0 = Some hs" "\<forall>h \<in> set hs. to_lower h = to_lower token"
      using highlight_from_returns [of token t 0] by auto
    ultimately show ?case by (auto simp: shows_token_def)
  qed (simp add: shows_token_def)
  then show ?thesis by (simp add: highlightText_def)
qed

lemma tokenizeText_nonempty: "[] \<notin> set (tokenizeText t)"
  by (auto simp: tokenizeText_def)

section \<open>The result list\<close>

definition wanted :: "search_operators \<Rightarrow> string list \<Rightarrow> payment_record \<Rightarrow> bool" where
  "wanted ops tokens p =
     (matchesOperators p ops \<and> (tokens = [] \<or> calculateRelevance p tokens \<noteq> 0))"

definition faithful_result :: "string list \<Rightarrow> search_result \<Rightarrow> bool" where
  "faithful_result tokens r =
     (sr_relevance r = calculateRelevance (sr_payment r) tokens \<and>
      shows_token tokens (sr_memo r @ sr_address r @ sr_hash r))"

lemma search_one_returns:
  assumes "[] \<notin> set tokens"
  shows "if wanted ops tokens p
    then \<exists>r. search_one ops tokens p = Some (Some r) \<and> sr_payment r = p \<and> faithful_result tokens r
    else search_one ops tokens p = Some None"
proof -
  obtain m where "highlightText (the (pr_memo p)) tokens = Some m \<and> shows_token tokens m"
    using highlightText_returns [OF assms] by blast
  moreover obtain a where "highlightText (pr_from p) tokens = Some a \<and> shows_token tokens a"
    using highlightText_returns [OF assms] by blast
  moreover obtain b where "highlightText (pr_to p) tokens = Some b \<and> shows_token tokens b"
    using highlightText_returns [OF assms] by blast
  moreover obtain h where "highlightText (pr_hash p) tokens = Some h \<and> shows_token tokens h"
    using highlightText_returns [OF assms] by blast
  moreover have "highlightText s [] = Some []" for s
    by (simp add: highlightText_def)
  ultimately show ?thesis
    by (cases "tokens = []") (auto simp: wanted_def search_one_def Let_def faithful_result_def)
qed

lemma search_all_returns:
  assumes "[] \<notin> set tokens"
  shows "\<exists>rs. search_all ops tokens ps = Some rs \<and> map sr_payment rs = filter (wanted ops tokens) ps \<and>
    (\<forall>r \<in> set rs. faithful_result tokens r)"
proof (induction ps)
  case (Cons p ps)
  then obtain rs where "search_all ops tokens ps = Some rs"
    "map sr_payment rs = filter (wanted ops tokens) ps" "\<forall>r \<in> set rs. faithful_result tokens r" by blast
  with search_one_returns [OF assms, of ops p] show ?case
    by (cases "wanted ops tokens p") auto
qed simp

text \<open>A search returns, for every query and history: the highlighting loop never hangs. The
results are the payments that pass the operators and, if the query has words, score on one of
them, most relevant first with ties in the order of the history; each carries its own score, and
every highlighted piece is one of the words up to case.\<close>

lemma searchPayments_complete:
  assumes "trim query \<noteq> []" and "(ops, t) = parseSearchQuery query"
  shows "\<exists>rs. searchPayments payments query = Some rs \<and>
    map sr_payment rs = sort_key (\<lambda>p. - calculateRelevance p (tokenizeText t))
      (filter (wanted ops (tokenizeText t)) payments) \<and>
    (\<forall>r \<in> set rs. faithful_result (tokenizeText t) r)"
proof -
  obtain rs where rs: "search_all ops (tokenizeText t) payments = Some rs"
    "map sr_payment rs = filter (wanted ops (tokenizeText t)) payments"
    "\<forall>r \<in> set rs. faithful_result (tokenizeText t) r"
    using search_all_returns [OF tokenizeText_nonempty] by blast
  have "js_sort (\<lambda>a b. ms (sr_relevance b - sr_relevance a)) rs = sort_key (\<lambda>r. - sr_relevance r) rs"
    by (rule js_sort_key) simp
  also have "\<dots> = sort_key (\<lambda>r. - calculateRelevance (sr_payment r) (tokenizeText t)) rs"
    using rs(3) by (intro sort_key_same) (simp add: faithful_result_def)
  finally show ?thesis
    using assms(1) rs
    by (simp add: searchPayments_def assms(2) [symmetric]
        map_sort_key [where f = "\<lambda>p. - calculateRelevance p (tokenizeText t)"])
qed

definition sample_payment :: payment_record where
  "sample_payment = \<lparr>pr_id = ''1'', pr_type = ReceivedPayment, pr_amount = ''5'', pr_asset = ''XLM'',
     pr_from = ''GA'', pr_to = ''GB'', pr_memo = Some ''rent'', pr_createdAt = [],
     pr_transactionHash = ''h'', pr_hash = ''h''\<rparr>"

theorem searchPayments_complete_example:
  "\<exists>rs. searchPayments [sample_payment] ''rent'' = Some rs"
proof -
  have "trim ''rent'' \<noteq> []" by (simp add: trim_def trim_left_def is_space_def)
  from searchPayments_complete [OF this prod.collapse, of "[sample_payment]"] show ?thesis by blast
qed

section \<open>Two operators that do not do their work\<close>

text \<open>The address operators reject the whole history: records of the payment history are
typed sent or received, and \<open>from:\<close> and \<open>to:\<close> read an address only from records typed
payment, so a query with either matches none of them, whatever address it names.\<close>

lemma address_operators_reject_history:
  assumes "pr_type p = SentPayment \<or> pr_type p = ReceivedPayment"
    and "given (so_from ops) \<or> given (so_to ops)"
  shows "\<not> matchesOperators p ops"
  using assms by (auto simp: matchesOperators_def includes_ci_def address_of_def given_def to_lower_def)

theorem address_operators_reject_history_example:
  "\<not> matchesOperators sample_payment
     \<lparr>so_from = Some ''GA'', so_to = None, so_asset = None, so_amount = None, so_memo = None\<rparr>"
  by (rule address_operators_reject_history) (simp_all add: sample_payment_def given_def)

lemma parseFloat_equals: "parseFloat (CHR ''='' # t) = JsNaN"
  by (simp add: parseFloat_def trim_left_def is_space_def scan_signed_def starts_with_def
      scan_decimal_def is_digit_def)

text \<open>The operators at least and at most filter nothing: the tests for \<open>>\<close> and \<open><\<close> come
first and catch them, the rest of the operand is no number, and every payment with a readable
amount passes.\<close>

lemma inclusive_bounds_accept_everything:
  assumes "parseFloat (pr_amount p) \<noteq> JsNaN"
  shows "matchesOperators p \<lparr>so_from = None, so_to = None, so_asset = None,
      so_amount = Some (''>='' @ bound), so_memo = None\<rparr> \<and>
    matchesOperators p \<lparr>so_from = None, so_to = None, so_asset = None,
      so_amount = Some (''<='' @ bound), so_memo = None\<rparr>"
  using assms
  by (cases "parseFloat (pr_amount p)")
    (simp_all add: matchesOperators_def given_def amount_passes_def starts_with_def parseFloat_equals)

theorem inclusive_bounds_accept_everything_example:
  "matchesOperators sample_payment \<lparr>so_from = None, so_to = None, so_asset = None,
      so_amount = Some (''>='' @ ''100''), so_memo = None\<rparr>"
proof -
  have "parseFloat (pr_amount sample_payment) \<noteq> JsNaN"
    by (simp add: sample_payment_def parseFloat_def trim_left_def is_space_def scan_signed_def
        starts_with_def scan_decimal_def is_digit_def scan_exponent_def Let_def)
  from inclusive_bounds_accept_everything [OF this, of "''100''"] show ?thesis by blast
qed

end
