(* ===== verification/SearchIndex.thy ===== *)
theory SearchIndex
  imports TransactionSearch JsDict ObjectStore
begin

text \<open>
  \<open>frontend/lib/transactionSearchIndex.ts\<close>: the inverted index from tokens to transaction hashes,
  its bounds, and its copy in IndexedDB. A \<open>Map\<close> is a dictionary in insertion order, a \<open>Set\<close> a
  list without repetition in insertion order; a database that cannot be opened is \<open>None\<close>.
\<close>

section \<open>Bounds\<close>

type_synonym search_index = "(string, string list) dict"

definition MAX_HASHES_PER_ENTRY :: nat where
  "MAX_HASHES_PER_ENTRY = 100"

definition MAX_INDEX_ENTRIES :: nat where
  "MAX_INDEX_ENTRIES = 2000"

definition capHashesPerEntry :: "search_index \<Rightarrow> nat \<Rightarrow> search_index" where
  "capHashesPerEntry index maxPerEntry =
     foldl (\<lambda>capped (token, hashes). d_set token (take maxPerEntry hashes) capped) [] (d_entries index)"

fun evict_loop :: "nat \<Rightarrow> (string \<times> string list) list \<Rightarrow> search_index \<Rightarrow> search_index" where
  "evict_loop excess [] result = result"
| "evict_loop excess ((token, hashes) # es) result =
     (if excess > 0 then evict_loop (excess - 1) es result
      else evict_loop excess es (d_set token hashes result))"

definition evictOverflow :: "search_index \<Rightarrow> nat \<Rightarrow> search_index" where
  "evictOverflow index maxEntries =
     (if length (d_entries index) \<le> maxEntries then index
      else evict_loop (length (d_entries index) - maxEntries) (d_entries index) [])"

definition removeHashesFromIndex :: "search_index \<Rightarrow> string list \<Rightarrow> search_index" where
  "removeHashesFromIndex index hashes =
     (if length hashes = 0 then index
      else foldl (\<lambda>result (token, hashesList).
        (let remaining = filter (\<lambda>h. h \<notin> set hashes) hashesList
         in if length remaining > 0 then d_set token remaining result else result)) [] (d_entries index))"

section \<open>Building the index\<close>

definition set_add :: "'a \<Rightarrow> 'a list \<Rightarrow> 'a list" where
  "set_add x xs = (if x \<in> set xs then xs else xs @ [x])"

text \<open>\<open>s.split(/(?=G)/)\<close>: cut before every capital G but at the start.\<close>

fun split_before :: "char \<Rightarrow> string \<Rightarrow> string list" where
  "split_before c [] = [[]]"
| "split_before c [x] = [[x]]"
| "split_before c (x # y # ys) =
     (case split_before c (y # ys) of
        [] \<Rightarrow> [[x]]
      | p # ps \<Rightarrow> if y = c then [x] # p # ps else (x # p) # ps)"

definition address_tokens :: "string \<Rightarrow> string list" where
  "address_tokens a = filter (\<lambda>t. length t > 0) (split_before CHR ''G'' (to_lower a))"

definition hash_prefixes :: "string \<Rightarrow> string list" where
  "hash_prefixes h = map (\<lambda>j. to_lower (take (3 * Suc j) h)) [0..<length h div 3]"

definition payment_tokens :: "payment_record \<Rightarrow> string list" where
  "payment_tokens p =
     foldl (\<lambda>tokens t. set_add t tokens) []
       ((if given (pr_memo p) then split_spaces (to_lower (the (pr_memo p))) else []) @
        (if pr_type p = PlainPayment
         then address_tokens (pr_from p) @ address_tokens (pr_to p) else []) @
        hash_prefixes (pr_hash p))"

definition add_token :: "string \<Rightarrow> search_index \<Rightarrow> string \<Rightarrow> search_index" where
  "add_token hash index token =
     (let index1 = (if d_get index token = None then d_set token [] index else index);
          hashes = the (d_get index1 token)
      in if hash \<notin> set hashes then d_set token (hashes @ [hash]) index1 else index1)"

definition index_payment :: "search_index \<Rightarrow> payment_record \<Rightarrow> search_index" where
  "index_payment index p = foldl (add_token (pr_hash p)) index (payment_tokens p)"

definition buildIndex :: "payment_record list \<Rightarrow> search_index" where
  "buildIndex payments = capHashesPerEntry (foldl index_payment [] payments) MAX_HASHES_PER_ENTRY"

section \<open>The stored copy\<close>

datatype index_value = IndexEntry string "string list" | IndexMetadata int nat

type_synonym index_db = "(string, index_value) ostore"

text \<open>One step of the reading cursor.\<close>

definition load_entry :: "search_index \<Rightarrow> index_value \<Rightarrow> search_index" where
  "load_entry index v =
     (case v of
        IndexMetadata _ _ \<Rightarrow> index
      | IndexEntry token hashes \<Rightarrow>
          if token = [] then index
          else d_set token hashes (if d_get index token \<noteq> None then d_delete token index else index))"

definition loadIndexedDB :: "index_db option \<Rightarrow> search_index option" where
  "loadIndexedDB db =
     (case db of
        None \<Rightarrow> None
      | Some s \<Rightarrow>
          (let index = foldl load_entry [] (os_values s)
           in if length (d_entries index) > 0 then Some index else None))"

definition saveIndexedDB ::
  "int \<Rightarrow> payment_record list \<Rightarrow> search_index \<Rightarrow> index_db option \<Rightarrow> index_db option" where
  "saveIndexedDB now payments index db =
     (case db of
        None \<Rightarrow> None
      | Some s \<Rightarrow>
          (let bounded = evictOverflow (capHashesPerEntry index MAX_HASHES_PER_ENTRY) MAX_INDEX_ENTRIES;
               stored = foldl (\<lambda>st (token, hashes). os_put token (IndexEntry token hashes) st) []
                 (d_entries bounded)
           in Some (os_put ''metadata'' (IndexMetadata now (length payments)) stored)))"

fun invalidate_cursor :: "string list \<Rightarrow> index_db \<Rightarrow> nat \<times> index_db" where
  "invalidate_cursor hashes [] = (0, [])"
| "invalidate_cursor hashes ((k, v) # s) =
     (let (n, s') = invalidate_cursor hashes s
      in case v of
           IndexMetadata _ _ \<Rightarrow> (n, (k, v) # s')
         | IndexEntry token hs \<Rightarrow>
             (let remaining = filter (\<lambda>h. h \<notin> set hashes) hs
              in if token = [] \<or> length remaining = length hs then (n, (k, v) # s')
                 else (length hs - length remaining + n,
                       if remaining = [] then s' else (k, IndexEntry token remaining) # s')))"

definition invalidate :: "string list \<Rightarrow> index_db option \<Rightarrow> nat \<times> index_db option" where
  "invalidate hashes db =
     (if length hashes = 0 then (0, db)
      else case db of
        None \<Rightarrow> (0, None)
      | Some s \<Rightarrow> (case invalidate_cursor hashes s of (n, s') \<Rightarrow> (n, Some s')))"

definition clearIndexedDB :: "index_db option \<Rightarrow> index_db option" where
  "clearIndexedDB db = (case db of None \<Rightarrow> None | Some s \<Rightarrow> Some [])"

definition getIndexMetadata :: "index_db option \<Rightarrow> index_value option" where
  "getIndexMetadata db = (case db of None \<Rightarrow> None | Some s \<Rightarrow> os_get s ''metadata'')"

section \<open>The maps as functions\<close>

lemma d_ok_d_set [simp]: "d_ok d \<Longrightarrow> d_ok (d_set k v d)"
  by (rule dict.ok_set)

lemma d_set_fresh: "k \<notin> fst ` set d \<Longrightarrow> d_set k v d = d @ [(k, v)]"
  by (induction d) (auto simp: d_set_def)

text \<open>Rebuilding a map entry by entry, with some entries changed or dropped.\<close>

lemma foldl_d_set_filter:
  assumes "distinct (map fst (acc @ es))"
  shows "foldl (\<lambda>r (k, v). if P k v then d_set k (f k v) r else r) acc es =
    acc @ List.map_filter (\<lambda>(k, v). if P k v then Some (k, f k v) else None) es"
  using assms
proof (induction es arbitrary: acc)
  case (Cons e es)
  obtain k v where e: "e = (k, v)" by (cases e)
  show ?case
  proof (cases "P k v")
    case True
    have "d_set k (f k v) acc = acc @ [(k, f k v)]"
      using Cons.prems e by (intro d_set_fresh) auto
    moreover have "distinct (map fst ((acc @ [(k, f k v)]) @ es))"
      using Cons.prems e by auto
    ultimately show ?thesis
      using Cons.IH True e by (simp add: List.map_filter_simps)
  next
    case False
    with Cons e show ?thesis by (simp add: List.map_filter_simps)
  qed
qed (simp add: List.map_filter_simps)

lemma capHashesPerEntry_map:
  assumes "d_ok index"
  shows "capHashesPerEntry index n = map (\<lambda>(t, hs). (t, take n hs)) index"
proof -
  have "capHashesPerEntry index n =
      foldl (\<lambda>r (k, v). if True then d_set k (take n v) r else r) [] index"
    by (simp add: capHashesPerEntry_def d_entries_def)
  also have "\<dots> = List.map_filter (\<lambda>(k, v). if True then Some (k, take n v) else None) index"
    using foldl_d_set_filter [of "[]" index "\<lambda>_ _. True" "\<lambda>_. take n"] assms by (simp add: d_ok_def)
  also have "\<dots> = map (\<lambda>(t, hs). (t, take n hs)) index"
    by (induction index) (auto simp: List.map_filter_simps)
  finally show ?thesis .
qed

lemma removeHashes_map_filter:
  assumes "d_ok index" "hashes \<noteq> []"
  shows "removeHashesFromIndex index hashes =
    List.map_filter (\<lambda>(t, hs). if filter (\<lambda>h. h \<notin> set hashes) hs \<noteq> []
      then Some (t, filter (\<lambda>h. h \<notin> set hashes) hs) else None) index"
  using foldl_d_set_filter [of "[]" index "\<lambda>_ hs. filter (\<lambda>h. h \<notin> set hashes) hs \<noteq> []"
      "\<lambda>_ hs. filter (\<lambda>h. h \<notin> set hashes) hs"] assms
  by (simp add: removeHashesFromIndex_def d_entries_def Let_def d_ok_def)

lemma evict_loop_drop:
  "distinct (map fst (acc @ es)) \<Longrightarrow> evict_loop n es acc = acc @ drop n es"
proof (induction n es acc rule: evict_loop.induct)
  case (2 n t hs es acc)
  show ?case
  proof (cases n)
    case 0
    have "d_set t hs acc = acc @ [(t, hs)]"
      using "2.prems" by (intro d_set_fresh) auto
    with "2.IH"(2) "2.prems" 0 show ?thesis by simp
  next
    case (Suc m)
    with "2.IH"(1) "2.prems" show ?thesis by simp
  qed
qed simp

lemma evictOverflow_drop: "d_ok index \<Longrightarrow> evictOverflow index n = drop (length index - n) index"
  by (auto simp: evictOverflow_def d_entries_def evict_loop_drop d_ok_def)

section \<open>The index inverts the history\<close>

definition posting :: "search_index \<Rightarrow> string \<Rightarrow> string list" where
  "posting index t = (case d_get index t of None \<Rightarrow> [] | Some hs \<Rightarrow> hs)"

definition first_occurrences :: "'a list \<Rightarrow> 'a list" where
  "first_occurrences xs = foldl (\<lambda>acc x. set_add x acc) [] xs"

lemma first_occurrences_snoc: "first_occurrences (xs @ [x]) = set_add x (first_occurrences xs)"
  by (simp add: first_occurrences_def)

lemma set_first_occurrences [simp]: "set (first_occurrences xs) = set xs"
  by (induction xs rule: rev_induct) (auto simp: first_occurrences_snoc set_add_def first_occurrences_def)

lemma distinct_first_occurrences [simp]: "distinct (first_occurrences xs)"
proof (induction xs rule: rev_induct)
  case (snoc x xs)
  then show ?case by (simp add: first_occurrences_snoc set_add_def)
qed (simp add: first_occurrences_def)

lemma set_payment_tokens: "set (payment_tokens p) =
    set ((if given (pr_memo p) then split_spaces (to_lower (the (pr_memo p))) else []) @
      (if pr_type p = PlainPayment then address_tokens (pr_from p) @ address_tokens (pr_to p) else []) @
      hash_prefixes (pr_hash p))"
  unfolding payment_tokens_def first_occurrences_def [symmetric] by simp

lemma d_get_add_token:
  "d_get (add_token h index tk) t =
     (if t = tk then Some (set_add h (posting index t)) else d_get index t)"
  by (auto simp: add_token_def Let_def dict_get posting_def set_add_def)

lemma d_get_add_tokens:
  "d_get (foldl (add_token h) index ts) t =
     (if t \<in> set ts then Some (set_add h (posting index t)) else d_get index t)"
proof (induction ts rule: rev_induct)
  case (snoc x ts)
  let ?i = "foldl (add_token h) index ts"
  have "posting ?i t = (if t \<in> set ts then set_add h (posting index t) else posting index t)"
    using snoc by (simp add: posting_def)
  moreover have "set_add h (set_add h xs) = set_add h xs" for xs
    by (simp add: set_add_def)
  ultimately have "Some (set_add h (posting ?i t)) = Some (set_add h (posting index t))" by simp
  with snoc show ?case by (cases "t = x") (simp_all add: d_get_add_token)
qed simp

lemma d_ok_add_token [simp]: "d_ok index \<Longrightarrow> d_ok (add_token h index t)"
  by (simp add: add_token_def Let_def)

lemma d_ok_index_payments [simp]: "d_ok index \<Longrightarrow> d_ok (foldl index_payment index ps)"
proof (induction ps arbitrary: index)
  case (Cons p ps)
  have "d_ok (foldl (add_token h) d ts)" if "d_ok d" for h d ts
    using that by (induction ts arbitrary: d) simp_all
  with Cons show ?case by (simp add: index_payment_def)
qed simp

abbreviation hashes_with :: "string \<Rightarrow> payment_record list \<Rightarrow> string list" where
  "hashes_with t ps \<equiv> map pr_hash (filter (\<lambda>p. t \<in> set (payment_tokens p)) ps)"

lemma d_get_index_payments:
  "d_get (foldl index_payment [] ps) t =
     (if hashes_with t ps = [] then None else Some (first_occurrences (hashes_with t ps)))"
proof (induction ps rule: rev_induct)
  case (snoc p ps)
  let ?i = "foldl index_payment [] ps"
  have "posting ?i t = first_occurrences (hashes_with t ps)"
    using snoc by (auto simp: posting_def first_occurrences_def)
  moreover have "d_get (index_payment ?i p) t =
      (if t \<in> set (payment_tokens p) then Some (set_add (pr_hash p) (posting ?i t)) else d_get ?i t)"
    by (simp add: index_payment_def d_get_add_tokens)
  ultimately show ?case
    using snoc by (simp add: first_occurrences_snoc)
qed simp

lemma d_ok_map: "d_ok (map (\<lambda>(t, hs). (t, g hs)) d) \<longleftrightarrow> d_ok d"
  by (simp add: d_ok_def comp_def case_prod_beta)

lemma d_get_map: "d_get (map (\<lambda>(t, hs). (t, g hs)) d) t = map_option g (d_get d t)"
  by (induction d) (auto simp: d_get_def)

text \<open>The index inverts the history: the entry of a token lists the hashes of exactly the
payments that have the token, each once, in the order of the history and at most a hundred of
them; a token no payment has, has no entry.\<close>

lemma buildIndex_inverts:
  "d_get (buildIndex payments) t =
     (if hashes_with t payments = [] then None
      else Some (take 100 (first_occurrences (hashes_with t payments)))) \<and>
   set (first_occurrences (hashes_with t payments)) = set (hashes_with t payments) \<and>
   distinct (first_occurrences (hashes_with t payments))"
proof -
  have "buildIndex payments =
      map (\<lambda>(t, hs). (t, take 100 hs)) (foldl index_payment [] payments)"
    by (simp add: buildIndex_def capHashesPerEntry_map MAX_HASHES_PER_ENTRY_def)
  then show ?thesis
    by (simp add: d_get_map d_get_index_payments)
qed

section \<open>Saving and loading\<close>

definition bounded_index :: "search_index \<Rightarrow> search_index" where
  "bounded_index index = evictOverflow (capHashesPerEntry index MAX_HASHES_PER_ENTRY) MAX_INDEX_ENTRIES"

definition loaded :: "index_db option \<Rightarrow> search_index" where
  "loaded db = (case loadIndexedDB db of None \<Rightarrow> [] | Some index \<Rightarrow> index)"

text \<open>Every record is filed under its own token, and no entry is empty.\<close>

fun stored_ok :: "string \<times> index_value \<Rightarrow> bool" where
  "stored_ok (k, IndexEntry token hs) = (token = k \<and> hs \<noteq> [])"
| "stored_ok (k, IndexMetadata _ _) = (k = ''metadata'')"

definition index_db_ok :: "index_db \<Rightarrow> bool" where
  "index_db_ok s = (os_wf s \<and> list_all stored_ok s)"

fun entry_of :: "string \<times> index_value \<Rightarrow> (string \<times> string list) option" where
  "entry_of (k, IndexEntry token hs) = (if token = [] then None else Some (token, hs))"
| "entry_of (k, IndexMetadata _ _) = None"

lemma os_wf_Cons: "os_wf (p # s) \<longleftrightarrow> (\<forall>q \<in> set s. fst p < fst q) \<and> os_wf s"
  by (auto simp: os_wf_def)

lemma os_wf_key: "os_wf (p # s) \<Longrightarrow> fst q \<in> fst ` set s \<Longrightarrow> fst p < fst q"
  by (auto simp: os_wf_Cons)

lemma load_entries:
  assumes "list_all (\<lambda>(k, v). case v of IndexEntry token _ \<Rightarrow> token = k | _ \<Rightarrow> True) s" "os_wf s"
    and "\<forall>k \<in> fst ` set acc. \<forall>q \<in> set s. k < fst q"
  shows "foldl load_entry acc (os_values s) = acc @ List.map_filter entry_of s"
  using assms
proof (induction s arbitrary: acc)
  case (Cons p s)
  obtain k v where p: "p = (k, v)" by (cases p)
  have later: "\<forall>q \<in> set s. k < fst q" and wf: "os_wf s"
    using Cons.prems(2) p by (auto simp: os_wf_Cons)
  show ?case
  proof (cases v)
    case (IndexEntry t hs)
    show ?thesis
    proof (cases "t = []")
      case True
      then show ?thesis
        using Cons.IH [of acc] Cons.prems wf p IndexEntry
        by (simp add: load_entry_def List.map_filter_simps)
    next
      case False
      have t: "t = k" using Cons.prems(1) p IndexEntry by simp
      have new: "k \<notin> fst ` set acc" using Cons.prems(3) p by auto
      then have "d_get acc k = None" by (simp add: d_get_def map_of_eq_None_iff)
      with False new have "load_entry acc v = acc @ [(k, hs)]"
        by (simp add: load_entry_def IndexEntry t d_set_fresh)
      moreover have "foldl load_entry (acc @ [(k, hs)]) (os_values s) =
          (acc @ [(k, hs)]) @ List.map_filter entry_of s"
        using Cons.prems later wf by (intro Cons.IH) auto
      ultimately show ?thesis
        using False by (simp add: p IndexEntry t List.map_filter_simps)
    qed
  next
    case (IndexMetadata a b)
    then show ?thesis
      using Cons.IH [of acc] Cons.prems wf p by (simp add: load_entry_def List.map_filter_simps)
  qed
qed (simp add: List.map_filter_simps)

lemma loaded_entries: "index_db_ok s \<Longrightarrow> loaded (Some s) = List.map_filter entry_of s"
proof -
  assume ok: "index_db_ok s"
  have "list_all (\<lambda>(k, v). case v of IndexEntry token _ \<Rightarrow> token = k | _ \<Rightarrow> True) s"
    using ok unfolding index_db_ok_def
    by (elim conjE list.pred_mono_strong) (auto elim: stored_ok.elims)
  with ok load_entries [of s "[]"] show ?thesis
    by (auto simp: loaded_def loadIndexedDB_def Let_def d_entries_def index_db_ok_def)
qed

lemma map_of_entries:
  assumes "os_wf s" "list_all stored_ok s"
  shows "map_of (List.map_filter entry_of s) t =
    (case map_of s t of Some (IndexEntry _ hs) \<Rightarrow> if t = [] then None else Some hs | _ \<Rightarrow> None)"
  using assms
proof (induction s)
  case (Cons p s)
  have "map_of s (fst p) = None"
    using Cons.prems(1) by (auto simp: os_wf_Cons map_of_eq_None_iff)
  with Cons show ?case
    by (cases p rule: entry_of.cases)
      (auto simp: List.map_filter_simps os_wf_Cons dest: map_of_SomeD split: option.splits)
qed (simp add: List.map_filter_simps)

abbreviation put_entries :: "index_db \<Rightarrow> search_index \<Rightarrow> index_db" where
  "put_entries st es \<equiv> foldl (\<lambda>st (token, hashes). os_put token (IndexEntry token hashes) st) st es"

lemma put_entries_wf: "os_wf st \<Longrightarrow> os_wf (put_entries st es)"
  by (induction es arbitrary: st) (auto simp: os_wf_put)

lemma map_of_put_entries:
  assumes "distinct (map fst es)"
  shows "map_of (put_entries st es) t =
    (case map_of es t of Some hs \<Rightarrow> Some (IndexEntry t hs) | None \<Rightarrow> map_of st t)"
  using assms
proof (induction es arbitrary: st)
  case (Cons e es)
  have "map_of es (fst e) = None"
    using Cons.prems by (auto simp: map_of_eq_None_iff)
  with Cons show ?case by (cases e) (auto split: option.splits)
qed simp

lemma bounded_index_ok:
  assumes "d_ok index"
  shows "d_ok (bounded_index index)" "length (bounded_index index) \<le> MAX_INDEX_ENTRIES"
    "set (bounded_index index) \<subseteq> (\<lambda>(t, hs). (t, take MAX_HASHES_PER_ENTRY hs)) ` set index"
proof -
  have "d_ok (map (\<lambda>(t, hs). (t, take MAX_HASHES_PER_ENTRY hs)) index)"
    using assms by (simp add: d_ok_map)
  then have eq: "bounded_index index =
      drop (length index - MAX_INDEX_ENTRIES) (map (\<lambda>(t, hs). (t, take MAX_HASHES_PER_ENTRY hs)) index)"
    using assms by (simp add: bounded_index_def capHashesPerEntry_map evictOverflow_drop)
  show "length (bounded_index index) \<le> MAX_INDEX_ENTRIES" by (simp add: eq)
  show "d_ok (bounded_index index)"
    using \<open>d_ok (map _ index)\<close> by (simp add: eq d_ok_def drop_map [symmetric])
  show "set (bounded_index index) \<subseteq> (\<lambda>(t, hs). (t, take MAX_HASHES_PER_ENTRY hs)) ` set index"
    unfolding eq by (metis list.set_map set_drop_subset)
qed

definition saved :: "int \<Rightarrow> nat \<Rightarrow> search_index \<Rightarrow> index_db" where
  "saved now n index = os_put ''metadata'' (IndexMetadata now n) (put_entries [] (bounded_index index))"

lemma saveIndexedDB_saved: "saveIndexedDB now ps index (Some s) = Some (saved now (length ps) index)"
  by (simp add: saveIndexedDB_def saved_def bounded_index_def d_entries_def Let_def)

lemma saved_ok:
  assumes "d_ok index"
  shows "os_wf (saved now n index)"
    and "map_of (saved now n index) t =
      (if t = ''metadata'' then Some (IndexMetadata now n)
       else map_option (IndexEntry t) (d_get (bounded_index index) t))"
proof -
  have "distinct (map fst (bounded_index index))"
    using bounded_index_ok(1) [OF assms] by (simp add: d_ok_def)
  then show "map_of (saved now n index) t =
      (if t = ''metadata'' then Some (IndexMetadata now n)
       else map_option (IndexEntry t) (d_get (bounded_index index) t))"
    by (simp add: saved_def map_of_put_entries d_get_def split: option.splits)
qed (simp add: saved_def os_wf_put put_entries_wf)

lemma saved_index_db_ok:
  assumes ok: "d_ok index" and nonempty: "\<forall>(t, hs) \<in> set index. hs \<noteq> []"
  shows "index_db_ok (saved now n index)"
proof -
  have "stored_ok (k, v)" if "(k, v) \<in> set (saved now n index)" for k v
  proof -
    have "map_of (saved now n index) k = Some v"
      using that saved_ok(1) [OF ok] by (metis os_get_def os_get_iff)
    moreover have "hs \<noteq> []" if "d_get (bounded_index index) k = Some hs" for hs
      using that bounded_index_ok(3) [OF ok] nonempty
      by (fastforce simp: d_get_def MAX_HASHES_PER_ENTRY_def dest: map_of_SomeD)
    ultimately show ?thesis
      by (auto simp: saved_ok(2) [OF ok] split: if_splits)
  qed
  then show ?thesis
    using saved_ok(1) [OF ok] by (auto simp: index_db_ok_def list_all_iff)
qed

lemma keys_entries: "os_wf s \<Longrightarrow> list_all stored_ok s \<Longrightarrow> sorted_wrt (<) (map fst (List.map_filter entry_of s))"
proof (induction s)
  case (Cons p s)
  have "fst ` set (List.map_filter entry_of s) \<subseteq> fst ` set s" if "list_all stored_ok s"
    using that by (induction s rule: list.induct)
      (auto simp: List.map_filter_simps elim!: entry_of.elims split: option.splits if_splits)
  then have "fst p < fst q" if "q \<in> set (List.map_filter entry_of s)" for q
    using that Cons.prems by (intro os_wf_key [of p s]) auto
  with Cons show ?case
    by (cases p rule: entry_of.cases) (auto simp: List.map_filter_simps os_wf_Cons)
qed (simp add: List.map_filter_simps)

text \<open>Saving and loading keeps the bounded index but for two tokens: the empty token is never
read back, and a memo word \<open>metadata\<close> loses its entry to the metadata record. The loaded index is
in alphabetical order, the order of the keys in the store, so the order of use is lost and the next
eviction drops the alphabetically first tokens. It never exceeds two thousand entries.\<close>

lemma save_load_index:
  assumes "d_ok index" and "\<forall>(t, hs) \<in> set index. hs \<noteq> []"
  shows "d_get (loaded (saveIndexedDB now payments index (Some s))) t =
      (if t = [] \<or> t = ''metadata'' then None else d_get (bounded_index index) t) \<and>
    sorted_wrt (<) (map fst (loaded (saveIndexedDB now payments index (Some s)))) \<and>
    length (bounded_index index) \<le> MAX_INDEX_ENTRIES"
proof -
  let ?s = "saved now (length payments) index"
  note ok = saved_index_db_ok [OF assms, of now "length payments"]
  have "loaded (saveIndexedDB now payments index (Some s)) = List.map_filter entry_of ?s"
    by (simp add: saveIndexedDB_saved loaded_entries [OF ok])
  moreover from ok have "os_wf ?s" "list_all stored_ok ?s"
    by (simp_all add: index_db_ok_def)
  ultimately show ?thesis
    using bounded_index_ok(2) [OF assms(1)] keys_entries [of ?s]
    by (simp add: d_get_def map_of_entries saved_ok(2) [OF assms(1)] split: option.splits)
qed

theorem save_load_index_example:
  "d_get (loaded (saveIndexedDB 0 [] [(''rent'', [''h''])] (Some []))) ''metadata'' = None"
proof -
  have "d_ok [(''rent'', [''h''])]" "\<forall>(t, hs) \<in> set [(''rent'', [''h''])]. hs \<noteq> []"
    by (simp_all add: d_ok_def)
  from save_load_index [OF this] show ?thesis by simp
qed

section \<open>Invalidation\<close>

lemma invalidate_cursor_keys: "fst ` set (snd (invalidate_cursor hashes s)) \<subseteq> fst ` set s"
  by (induction hashes s rule: invalidate_cursor.induct)
    (auto simp: split_beta Let_def split: index_value.splits)

lemma invalidate_cursor_ok:
  assumes "list_all stored_ok s" "os_wf s"
  shows "index_db_ok (snd (invalidate_cursor hashes s))"
  using assms
proof (induction s)
  case (Cons p s)
  have "fst p < fst q" if "q \<in> set (snd (invalidate_cursor hashes s))" for q
    using that invalidate_cursor_keys [of hashes s] Cons.prems by (intro os_wf_key [of p s]) auto
  moreover have "index_db_ok (snd (invalidate_cursor hashes s))"
    using Cons by (simp add: os_wf_Cons)
  ultimately show ?case
    using Cons.prems
    by (cases p rule: entry_of.cases) (simp_all add: os_wf_Cons index_db_ok_def split_beta Let_def)
qed (simp add: index_db_ok_def)

definition references :: "search_index \<Rightarrow> nat" where
  "references index = sum_list (map (\<lambda>(t, hs). length hs) index)"

lemma invalidate_cursor_entries:
  assumes "list_all stored_ok s"
  shows "List.map_filter entry_of (snd (invalidate_cursor hashes s)) =
      List.map_filter (\<lambda>(t, hs). if filter (\<lambda>h. h \<notin> set hashes) hs \<noteq> []
        then Some (t, filter (\<lambda>h. h \<notin> set hashes) hs) else None) (List.map_filter entry_of s) \<and>
    fst (invalidate_cursor hashes s) + references (List.map_filter entry_of (snd (invalidate_cursor hashes s))) =
      references (List.map_filter entry_of s)"
  using assms
proof (induction s)
  case (Cons p s)
  show ?case
  proof (cases p rule: entry_of.cases)
    case (1 k token hs)
    have same: "length (filter P hs) = length hs \<longleftrightarrow> filter P hs = hs" for P
      by (metis length_filter_less less_irrefl filter_True)
    show ?thesis
      using Cons 1 length_filter_le [of "\<lambda>h. h \<notin> set hashes" hs]
      by (auto simp: List.map_filter_simps split_beta Let_def references_def same
          simp del: length_filter_le)
  next
    case (2 k a b)
    with Cons show ?thesis by (auto simp: List.map_filter_simps split_beta references_def)
  qed
qed (simp add: List.map_filter_simps references_def)

text \<open>Invalidating hashes in the stored index is removing them from the loaded one: whatever
the store held, loading after \<open>invalidate\<close> gives what \<open>removeHashesFromIndex\<close> makes of the index
loaded before, and the number returned is the number of references that went.\<close>

lemma invalidate_commutes:
  assumes "index_db_ok s"
  shows "loaded (snd (invalidate hashes (Some s))) = removeHashesFromIndex (loaded (Some s)) hashes \<and>
    fst (invalidate hashes (Some s)) + references (loaded (snd (invalidate hashes (Some s)))) =
      references (loaded (Some s))"
proof (cases "hashes = []")
  case True
  then show ?thesis by (simp add: invalidate_def removeHashesFromIndex_def)
next
  case False
  have parts: "list_all stored_ok s" "os_wf s" using assms by (simp_all add: index_db_ok_def)
  have "d_ok (loaded (Some s))"
    using keys_entries [OF parts(2,1)] loaded_entries [OF assms]
    by (simp add: d_ok_def strict_sorted_iff)
  then show ?thesis
    using False loaded_entries [OF assms]
      invalidate_cursor_entries [OF parts(1), of hashes, THEN conjunct1]
      invalidate_cursor_entries [OF parts(1), of hashes, THEN conjunct2]
      invalidate_cursor_ok [OF parts, of hashes]
    by (simp add: invalidate_def split_beta loaded_entries removeHashes_map_filter)
qed

definition sample_index_db :: index_db where
  "sample_index_db = [(''rent'', IndexEntry ''rent'' [''h1'', ''h2''])]"

theorem invalidate_commutes_example:
  "loaded (snd (invalidate [''h1''] (Some sample_index_db))) =
     removeHashesFromIndex (loaded (Some sample_index_db)) [''h1''] \<and>
   fst (invalidate [''h1''] (Some sample_index_db)) = 1"
proof -
  have "index_db_ok sample_index_db"
    by (simp add: index_db_ok_def sample_index_db_def os_wf_def)
  from invalidate_commutes [OF this, of "[''h1'']"] show ?thesis
    by (simp add: sample_index_db_def invalidate_def Let_def)
qed

end
