(* ===== verification/ContactsFile.thy ===== *)
theory ContactsFile
  imports JsText
begin

text \<open>
  \<open>frontend/lib/contactImportExport.ts\<close>: the CSV reader and writer of the address book, its
  preview, and the vCard writer. The byte order mark is no character of the model, so a CSV file
  is a flag for the mark and the text behind it. The download and file reading helpers are browser
  calls and left out.
\<close>

section \<open>Data\<close>

record contact_row =
  cr_name :: string
  cr_address :: string
  cr_federation :: "string option"

record parse_result =
  ps_contacts :: "contact_row list"
  ps_errors :: "string list"

record annotated_row =
  an_rowNumber :: nat
  an_contact :: "contact_row option"
  an_error :: string

datatype csv_file = CsvFile bool string

text \<open>\<open>/^G[A-Z0-9]{55}$/\<close> (\<open>stellar.ts\<close>).\<close>

definition upper_or_digit :: "char \<Rightarrow> bool" where
  "upper_or_digit c = (is_digit c \<or> (65 \<le> (of_char c :: nat) \<and> (of_char c :: nat) \<le> 90))"

definition isValidStellarAddress :: "string \<Rightarrow> bool" where
  "isValidStellarAddress a =
     (length a = 56 \<and> hd a = CHR ''G'' \<and> list_all upper_or_digit (tl a))"

section \<open>Writing CSV\<close>

definition QUOTE :: char where
  "QUOTE = CHR 0x22"

definition CR :: char where "CR = CHR 0x0D"
definition LF :: char where "LF = CHR 0x0A"

fun double_quotes :: "string \<Rightarrow> string" where
  "double_quotes [] = []"
| "double_quotes (c # cs) = (if c = QUOTE then QUOTE # QUOTE # double_quotes cs else c # double_quotes cs)"

definition escapeCsvCell :: "string \<Rightarrow> string" where
  "escapeCsvCell value =
     (if list_ex (\<lambda>c. c \<in> {QUOTE, CHR '','', CR, LF}) value
      then QUOTE # double_quotes value @ [QUOTE] else value)"

definition CSV_HEADER :: string where
  "CSV_HEADER = ''Name,Stellar Address,Federation Username''"

definition csv_cells :: "contact_row \<Rightarrow> string list" where
  "csv_cells c = [cr_name c, cr_address c, case cr_federation c of None \<Rightarrow> [] | Some f \<Rightarrow> f]"

definition exportContactsCSV :: "contact_row list \<Rightarrow> csv_file" where
  "exportContactsCSV contacts =
     (let rows = map (\<lambda>c. join '','' (map escapeCsvCell (csv_cells c))) contacts
      in CsvFile True (join [CR, LF] (CSV_HEADER # rows)))"

section \<open>Reading CSV\<close>

text \<open>The inside of a quoted field, with what follows the closing quote.\<close>

fun quoted_field :: "string \<Rightarrow> string \<times> string" where
  "quoted_field [] = ([], [])"
| "quoted_field (c # cs) =
     (if c = QUOTE
      then (case cs of
              [] \<Rightarrow> ([], [])
            | d # ds \<Rightarrow> if d = QUOTE then (case quoted_field ds of (f, r) \<Rightarrow> (QUOTE # f, r)) else ([], cs))
      else (case quoted_field cs of (f, r) \<Rightarrow> (c # f, r)))"

definition skip_comma :: "string \<Rightarrow> string" where
  "skip_comma s = (if s \<noteq> [] \<and> hd s = CHR '','' then tl s else s)"

lemma quoted_field_shorter: "length (snd (quoted_field s)) \<le> length s"
proof (induction s rule: quoted_field.induct)
  case (2 c cs)
  show ?case
  proof (cases "c = QUOTE")
    case True
    show ?thesis
    proof (cases cs)
      case (Cons d ds)
      with "2.IH"(1) [OF True Cons] True show ?thesis
        by (cases "d = QUOTE") (simp_all add: split_beta)
    qed (simp add: True)
  next
    case False
    with "2.IH"(2) show ?thesis by (simp add: split_beta)
  qed
qed simp

lemma skip_comma_shorter: "length (skip_comma s) \<le> length s"
  by (simp add: skip_comma_def)

text \<open>The loop over the line; \<open>started\<close> says that a field has been pushed already.\<close>

function csv_fields :: "bool \<Rightarrow> string \<Rightarrow> string list" where
  "csv_fields started [] = (if started then [[]] else [])"
| "csv_fields started (c # cs) =
     (if c = QUOTE
      then fst (quoted_field cs) # csv_fields True (skip_comma (snd (quoted_field cs)))
      else takeWhile (\<lambda>x. x \<noteq> CHR '','') (c # cs) #
             csv_fields True (skip_comma (dropWhile (\<lambda>x. x \<noteq> CHR '','') (c # cs))))"
  by pat_completeness auto
termination
proof (relation "measure (\<lambda>(started, s). length s)")
  fix started :: bool and c cs
  assume "c = QUOTE"
  have "length (skip_comma (snd (quoted_field cs))) \<le> length cs"
    using skip_comma_shorter quoted_field_shorter le_trans by blast
  then show "((True, skip_comma (snd (quoted_field cs))), (started, c # cs)) \<in> measure (\<lambda>(started, s). length s)"
    by simp
next
  fix started :: bool and c cs
  assume "c \<noteq> QUOTE"
  have "length (skip_comma (dropWhile (\<lambda>x. x \<noteq> CHR '','') (c # cs))) \<le> length cs"
    using skip_comma_shorter [of "dropWhile (\<lambda>x. x \<noteq> CHR '','') cs"]
      length_dropWhile_le [of "\<lambda>x. x \<noteq> CHR '',''" cs]
    by (auto simp: skip_comma_def)
  then show "((True, skip_comma (dropWhile (\<lambda>x. x \<noteq> CHR '','') (c # cs))), (started, c # cs))
      \<in> measure (\<lambda>(started, s). length s)"
    by simp
qed simp

definition parseCsvLine :: "string \<Rightarrow> string list" where
  "parseCsvLine line = csv_fields False line"

text \<open>\<open>s.split(/\r\n|\r|\n/)\<close>.\<close>

fun split_lines :: "string \<Rightarrow> string list" where
  "split_lines [] = [[]]"
| "split_lines (c # cs) =
     (if c = LF then [] # split_lines cs
      else if c = CR
      then (case cs of
              [] \<Rightarrow> [] # split_lines cs
            | d # ds \<Rightarrow> if d = LF then [] # split_lines ds else [] # split_lines cs)
      else (case split_lines cs of [] \<Rightarrow> [[c]] | l # ls \<Rightarrow> (c # l) # ls))"

fun find_index :: "('a \<Rightarrow> bool) \<Rightarrow> 'a list \<Rightarrow> nat option" where
  "find_index P [] = None"
| "find_index P (x # xs) = (if P x then Some 0 else map_option Suc (find_index P xs))"

text \<open>\<open>(pieces[i] ?? "").trim()\<close>, with no field for a column that was not found.\<close>

definition cell :: "string list \<Rightarrow> nat option \<Rightarrow> string" where
  "cell pieces i =
     (case i of None \<Rightarrow> [] | Some n \<Rightarrow> if n < length pieces then trim (pieces ! n) else [])"

record csv_columns =
  col_name :: "nat option"
  col_address :: "nat option"
  col_federation :: "nat option"

definition header_columns :: "string \<Rightarrow> csv_columns" where
  "header_columns line =
     (let headerFields = map (\<lambda>h. to_lower (trim h)) (parseCsvLine line)
      in \<lparr>col_name = find_index (\<lambda>h. h = ''name'') headerFields,
          col_address = find_index (\<lambda>h. h = ''stellar address'' \<or> h = ''address'') headerFields,
          col_federation = find_index (\<lambda>h. h = ''federation username'' \<or> h = ''federation'') headerFields\<rparr>)"

definition make_row :: "string \<Rightarrow> string \<Rightarrow> string \<Rightarrow> contact_row" where
  "make_row name address federation =
     \<lparr>cr_name = name, cr_address = address,
      cr_federation = (if federation \<noteq> [] then Some federation else None)\<rparr>"

definition quote_text :: "string \<Rightarrow> string" where
  "quote_text s = QUOTE # s @ [QUOTE]"

text \<open>The body of the row loop: nothing, an error line, or a contact.\<close>

definition parse_row :: "csv_columns \<Rightarrow> nat \<Rightarrow> string \<Rightarrow> (string + contact_row) option" where
  "parse_row cols rowNum rawLine =
     (let line = trim rawLine in
      if line = [] then None
      else
        (let pieces = parseCsvLine line;
             name = cell pieces (col_name cols);
             address = cell pieces (col_address cols);
             federation = cell pieces (col_federation cols)
         in if name = [] \<and> address = [] then None
            else if name = []
            then Some (Inl (''Row '' @ show_nat rowNum @ '': Name is missing.''))
            else if address = []
            then Some (Inl (''Row '' @ show_nat rowNum @ '': Stellar address is missing for '' @
              quote_text name @ ''.''))
            else if \<not> isValidStellarAddress address
            then Some (Inl (''Row '' @ show_nat rowNum @ '': '' @ quote_text address @
              '' is not a valid Stellar public key (must start with G and be 56 characters).''))
            else Some (Inr (make_row name address federation))))"

fun parse_rows :: "csv_columns \<Rightarrow> nat \<Rightarrow> string list \<Rightarrow> parse_result" where
  "parse_rows cols i [] = \<lparr>ps_contacts = [], ps_errors = []\<rparr>"
| "parse_rows cols i (line # lines) =
     (let rest = parse_rows cols (Suc i) lines
      in case parse_row cols (i + 1) line of
           None \<Rightarrow> rest
         | Some (Inl e) \<Rightarrow> rest\<lparr>ps_errors := e # ps_errors rest\<rparr>
         | Some (Inr c) \<Rightarrow> rest\<lparr>ps_contacts := c # ps_contacts rest\<rparr>)"

definition csv_text :: "csv_file \<Rightarrow> string" where
  "csv_text csv = (case csv of CsvFile bom s \<Rightarrow> trim s)"

definition parseContactsCSV :: "csv_file \<Rightarrow> parse_result" where
  "parseContactsCSV csv =
     (let raw = csv_text csv in
      if raw = [] then \<lparr>ps_contacts = [], ps_errors = [''The file is empty.'']\<rparr>
      else
        (let lines = split_lines raw in
         if length lines < 2
         then \<lparr>ps_contacts = [], ps_errors = [''No data rows found (only a header or empty file).'']\<rparr>
         else
           (let cols = header_columns (hd lines)
            in if col_name cols = None \<or> col_address cols = None
               then \<lparr>ps_contacts = [], ps_errors = [''Header row must contain '' @ quote_text ''Name'' @
                 '' and '' @ quote_text ''Stellar Address'' @ '' columns. Found: '' @ hd lines]\<rparr>
               else parse_rows cols 1 (tl lines))))"

definition annotate_row :: "csv_columns \<Rightarrow> nat \<Rightarrow> string \<Rightarrow> annotated_row option" where
  "annotate_row cols rowNum rawLine =
     (let line = trim rawLine in
      if line = [] then None
      else
        (let pieces = parseCsvLine line;
             name = cell pieces (col_name cols);
             address = cell pieces (col_address cols);
             federation = cell pieces (col_federation cols)
         in if name = [] \<and> address = [] then None
            else if name = []
            then Some \<lparr>an_rowNumber = rowNum, an_contact = None, an_error = ''Name is missing.''\<rparr>
            else if address = []
            then Some \<lparr>an_rowNumber = rowNum, an_contact = None,
              an_error = ''Stellar address is missing for '' @ quote_text name @ ''.''\<rparr>
            else if \<not> isValidStellarAddress address
            then Some \<lparr>an_rowNumber = rowNum, an_contact = Some (make_row name address federation),
              an_error = quote_text address @ '' is not a valid Stellar public key.''\<rparr>
            else Some \<lparr>an_rowNumber = rowNum, an_contact = Some (make_row name address federation),
              an_error = []\<rparr>))"

fun annotate_rows :: "csv_columns \<Rightarrow> nat \<Rightarrow> string list \<Rightarrow> annotated_row list" where
  "annotate_rows cols i [] = []"
| "annotate_rows cols i (line # lines) =
     (let rest = annotate_rows cols (Suc i) lines
      in case annotate_row cols (i + 1) line of None \<Rightarrow> rest | Some a \<Rightarrow> a # rest)"

definition parseContactsCSVAnnotated :: "csv_file \<Rightarrow> annotated_row list" where
  "parseContactsCSVAnnotated csv =
     (let raw = csv_text csv in
      if raw = [] then []
      else
        (let lines = split_lines raw in
         if length lines < 2 then []
         else
           (let cols = header_columns (hd lines)
            in if col_name cols = None \<or> col_address cols = None then []
               else annotate_rows cols 1 (tl lines))))"

section \<open>Writing vCards\<close>

definition replace_char :: "char \<Rightarrow> string \<Rightarrow> string \<Rightarrow> string" where
  "replace_char c r s = concat (map (\<lambda>x. if x = c then r else [x]) s)"

text \<open>\<open>/\r?\n/g\<close>, the last of the four replacements.\<close>

fun replace_newlines :: "string \<Rightarrow> string" where
  "replace_newlines [] = []"
| "replace_newlines (c # cs) =
     (if c = LF then CHR 0x5C # CHR ''n'' # replace_newlines cs
      else if c = CR \<and> cs \<noteq> [] \<and> hd cs = LF then replace_newlines cs
      else c # replace_newlines cs)"

definition escapeVCardValue :: "string \<Rightarrow> string" where
  "escapeVCardValue value =
     replace_newlines
       (replace_char CHR '';'' [CHR 0x5C, CHR '';'']
         (replace_char CHR '','' [CHR 0x5C, CHR '','']
           (replace_char CHR 0x5C [CHR 0x5C, CHR 0x5C] value)))"

definition exportContactVCard :: "contact_row \<Rightarrow> string" where
  "exportContactVCard contact =
     join [CR, LF]
       ([''BEGIN:VCARD'', ''VERSION:3.0'',
         ''FN:'' @ escapeVCardValue (cr_name contact),
         ''N:'' @ escapeVCardValue (cr_name contact) @ '';;;;'',
         ''NOTE:Stellar Address: '' @ escapeVCardValue (cr_address contact),
         ''X-STELLAR-ADDRESS:'' @ escapeVCardValue (cr_address contact)] @
        (case cr_federation contact of
           None \<Rightarrow> []
         | Some f \<Rightarrow> if f \<noteq> [] then [''X-STELLAR-FEDERATION:'' @ escapeVCardValue f] else []) @
        [''END:VCARD'']) @ [CR, LF]"

definition exportContactsVCard :: "contact_row list \<Rightarrow> string" where
  "exportContactsVCard contacts = join [] (map exportContactVCard contacts)"

section \<open>Reading back what was written\<close>

lemma quote_chars [simp]:
  "\<not> is_space QUOTE" "QUOTE \<noteq> CHR '',''" "CHR '','' \<noteq> QUOTE" "\<not> is_space CHR '',''" "\<not> upper_or_digit QUOTE"
  "\<not> upper_or_digit CHR '',''" "\<not> upper_or_digit CR" "\<not> upper_or_digit LF" "QUOTE \<noteq> CR" "QUOTE \<noteq> LF" "CR \<noteq> LF"
  by (simp_all add: QUOTE_def CR_def LF_def is_space_def upper_or_digit_def is_digit_def)

lemma quoted_field_double:
  "r = [] \<or> hd r \<noteq> QUOTE \<Longrightarrow> quoted_field (double_quotes v @ QUOTE # r) = (v, r)"
  by (induction v) (auto split: list.splits)

definition plain_cell :: "string \<Rightarrow> bool" where
  "plain_cell v = list_all (\<lambda>c. c \<noteq> QUOTE \<and> c \<noteq> CHR '','') v"

lemma csv_fields_started: "s \<noteq> [] \<Longrightarrow> csv_fields a s = csv_fields b s"
  by (cases s) simp_all

lemma csv_fields_quoted:
  assumes "r = [] \<or> hd r = CHR '',''"
  shows "csv_fields b (QUOTE # double_quotes v @ QUOTE # r) = v # csv_fields True (skip_comma r)"
proof -
  have "quoted_field (double_quotes v @ QUOTE # r) = (v, r)"
    using assms by (intro quoted_field_double) (auto simp: QUOTE_def)
  then show ?thesis by simp
qed

lemma csv_fields_plain:
  assumes "plain_cell v" "v @ r \<noteq> []" "r = [] \<or> hd r = CHR '',''"
  shows "csv_fields b (v @ r) = v # csv_fields True (skip_comma r)"
proof -
  obtain c cs where c: "v @ r = c # cs" using assms(2) by (cases "v @ r") auto
  have "\<forall>x \<in> set v. x \<noteq> CHR '',''" using assms(1) by (auto simp: plain_cell_def list_all_iff)
  then have "takeWhile (\<lambda>x. x \<noteq> CHR '','') (v @ r) = v" "dropWhile (\<lambda>x. x \<noteq> CHR '','') (v @ r) = r"
    using assms(3) by (cases r; simp)+
  moreover have "c \<noteq> QUOTE"
    using c assms by (cases v) (auto simp: plain_cell_def)
  ultimately show ?thesis by (simp add: c)
qed

lemma escape_cases:
  obtains "escapeCsvCell v = QUOTE # double_quotes v @ [QUOTE]" "v \<noteq> []"
  | "escapeCsvCell v = v" "plain_cell v"
proof (cases "list_ex (\<lambda>c. c \<in> {QUOTE, CHR '','', CR, LF}) v")
  case True
  then show ?thesis by (intro that(1)) (auto simp: escapeCsvCell_def)
next
  case False
  then show ?thesis
    by (intro that(2)) (auto simp: escapeCsvCell_def plain_cell_def list_all_iff list_ex_iff)
qed

lemma csv_fields_join:
  assumes "fs \<noteq> []"
  shows "csv_fields True (join '','' (map escapeCsvCell fs)) = fs @ (if last fs = [] then [] else [[]])"
  using assms
proof (induction fs rule: induct_list012)
  case (2 f)
  show ?case
  proof (cases f rule: escape_cases)
    case 1
    with csv_fields_quoted [of "[]" True f] show ?thesis by (simp add: skip_comma_def)
  next
    case 2
    with csv_fields_plain [of f "[]" True] show ?thesis by (cases f) (simp_all add: skip_comma_def)
  qed
next
  case (3 f g fs)
  let ?r = "CHR '','' # join '','' (map escapeCsvCell (g # fs))"
  have "csv_fields True (escapeCsvCell f @ ?r) = f # csv_fields True (join '','' (map escapeCsvCell (g # fs)))"
  proof (cases f rule: escape_cases)
    case 1
    with csv_fields_quoted [of ?r True f] show ?thesis by (simp add: skip_comma_def)
  next
    case 2
    with csv_fields_plain [of f ?r True] show ?thesis by (simp add: skip_comma_def)
  qed
  with 3 show ?case by simp
qed simp

definition no_break :: "string \<Rightarrow> bool" where
  "no_break s = list_all (\<lambda>c. c \<noteq> CR \<and> c \<noteq> LF) s"

lemma no_break_append [simp]: "no_break (xs @ ys) \<longleftrightarrow> no_break xs \<and> no_break ys"
  by (auto simp: no_break_def)

lemma no_break_Cons [simp]: "no_break (c # s) \<longleftrightarrow> c \<noteq> CR \<and> c \<noteq> LF \<and> no_break s"
  by (simp add: no_break_def)

lemma no_break_escape: "no_break v \<Longrightarrow> no_break (escapeCsvCell v)"
proof -
  assume v: "no_break v"
  then have "no_break (double_quotes v)"
    by (induction v) (auto simp: no_break_def)
  with v show ?thesis by (auto simp: escapeCsvCell_def no_break_def)
qed

lemma split_lines_one: "no_break l \<Longrightarrow> split_lines l = [l]"
  by (induction l) (auto simp: no_break_def)

lemma split_lines_break: "no_break l \<Longrightarrow> split_lines (l @ CR # LF # s) = l # split_lines s"
  by (induction l) (auto simp: no_break_def)

lemma split_lines_join:
  "list_all no_break ls \<Longrightarrow> ls \<noteq> [] \<Longrightarrow> split_lines (join [CR, LF] ls) = ls"
proof (induction ls rule: induct_list012)
  case (2 l)
  then show ?case by (simp add: split_lines_one)
next
  case (3 l m ls)
  then show ?case using split_lines_break [of l "join [CR, LF] (m # ls)"] by simp
qed simp

lemma trim_fixed: "s = [] \<or> \<not> is_space (hd s) \<and> \<not> is_space (last s) \<Longrightarrow> trim s = s"
proof -
  assume s: "s = [] \<or> \<not> is_space (hd s) \<and> \<not> is_space (last s)"
  then have "trim_left s = s" "trim_left (rev s) = rev s"
    by (auto simp: trim_left_fixed hd_rev)
  then show ?thesis by (simp add: trim_def)
qed

lemma trim_fixedD:
  assumes "trim s = s" "s \<noteq> []"
  shows "\<not> is_space (hd s)" "\<not> is_space (last s)"
proof -
  have left: "trim_left s = s"
  proof -
    have "length (trim s) \<le> length (trim_left s)"
      unfolding trim_def trim_left_def using length_dropWhile_le by (metis length_rev)
    moreover have "suffix (trim_left s) s"
      unfolding trim_left_def by (rule suffix_dropWhile)
    ultimately show ?thesis
      using assms(1) by (metis suffix_length_le suffix_order.dual_order.antisym le_antisym
        suffix_def append_eq_append_conv append_Nil)
  qed
  with assms show "\<not> is_space (hd s)" by (metis trim_left_fixed)
  from left assms have "trim_left (rev s) = rev s"
    by (metis rev_rev_ident trim_def)
  with assms show "\<not> is_space (last s)" by (metis hd_rev rev_is_Nil_conv trim_left_fixed)
qed

text \<open>What a row must satisfy to survive: trimmed cells without line breaks, a name and an address.\<close>

definition clean_cell :: "string \<Rightarrow> bool" where
  "clean_cell v = (v \<noteq> [] \<and> trim v = v \<and> no_break v)"

definition row_ok :: "contact_row \<Rightarrow> bool" where
  "row_ok c = (clean_cell (cr_name c) \<and> isValidStellarAddress (cr_address c) \<and>
     (case cr_federation c of None \<Rightarrow> True | Some f \<Rightarrow> clean_cell f))"

lemma address_clean: "isValidStellarAddress a \<Longrightarrow> clean_cell a \<and> escapeCsvCell a = a"
proof -
  assume a: "isValidStellarAddress a"
  then have all: "list_all upper_or_digit a"
    by (cases a) (auto simp: isValidStellarAddress_def upper_or_digit_def is_digit_def)
  have nsp: "\<not> is_space c" if "upper_or_digit c" for c
    using that by (auto simp: upper_or_digit_def is_digit_def is_space_def)
  have ne: "a \<noteq> []" using a by (auto simp: isValidStellarAddress_def)
  have "trim a = a"
    using all nsp ne by (intro trim_fixed) (auto simp: list_all_iff)
  moreover have "no_break a" "escapeCsvCell a = a"
    using all by (auto simp: no_break_def list_all_iff escapeCsvCell_def list_ex_iff)
  ultimately show ?thesis using ne by (simp add: clean_cell_def)
qed

abbreviation row_line :: "contact_row \<Rightarrow> string" where
  "row_line c \<equiv> join '','' (map escapeCsvCell (csv_cells c))"

lemma escape_ends:
  assumes "clean_cell v"
  shows "escapeCsvCell v \<noteq> []" "\<not> is_space (hd (escapeCsvCell v))" "\<not> is_space (last (escapeCsvCell v))"
proof -
  have v: "v \<noteq> []" "trim v = v" using assms by (simp_all add: clean_cell_def)
  show "escapeCsvCell v \<noteq> []" "\<not> is_space (hd (escapeCsvCell v))" "\<not> is_space (last (escapeCsvCell v))"
    by (cases v rule: escape_cases; use v trim_fixedD [OF v(2,1)] in simp)+
qed

lemma row_line_shape:
  assumes "row_ok c"
  shows "trim (row_line c) = row_line c" "row_line c \<noteq> []" "no_break (row_line c)"
proof -
  let ?f = "case cr_federation c of None \<Rightarrow> [] | Some f \<Rightarrow> f"
  have line: "row_line c = escapeCsvCell (cr_name c) @ '','' @ escapeCsvCell (cr_address c) @ '','' @ escapeCsvCell ?f"
    by (simp add: csv_cells_def)
  have name: "clean_cell (cr_name c)" and addr: "clean_cell (cr_address c)"
    using assms address_clean by (auto simp: row_ok_def)
  have fed: "?f = [] \<or> clean_cell ?f"
    using assms by (auto simp: row_ok_def split: option.splits)
  have empty: "escapeCsvCell [] = []" by (simp add: escapeCsvCell_def)
  show "row_line c \<noteq> []" unfolding line by simp
  have "\<not> is_space (hd (row_line c))"
    unfolding line using escape_ends [OF name] by simp
  moreover have "\<not> is_space (last (row_line c))"
    unfolding line using fed escape_ends [of ?f] by (cases "?f = []") (simp_all add: empty)
  ultimately show "trim (row_line c) = row_line c" by (simp add: trim_fixed)
  have nb: "no_break v" if "clean_cell v" for v using that by (simp add: clean_cell_def)
  have "CHR '','' \<noteq> CR" "CHR '','' \<noteq> LF" by (simp_all add: CR_def LF_def)
  moreover have "no_break (escapeCsvCell ?f)"
    using fed nb [of ?f] by (auto simp: empty no_break_escape) (simp add: no_break_def)
  ultimately show "no_break (row_line c)"
    unfolding line by (simp add: no_break_escape nb name addr)
qed

definition export_columns :: csv_columns where
  "export_columns = \<lparr>col_name = Some 0, col_address = Some 1, col_federation = Some 2\<rparr>"

lemma parse_row_line:
  assumes "row_ok c"
  shows "parse_row export_columns n (row_line c) = Some (Inr c)"
proof -
  let ?f = "case cr_federation c of None \<Rightarrow> [] | Some f \<Rightarrow> f"
  have "parseCsvLine (row_line c) = csv_cells c @ (if last (csv_cells c) = [] then [] else [[]])"
    using csv_fields_join [of "csv_cells c"] csv_fields_started [OF row_line_shape(2) [OF assms], of False True]
    by (simp add: parseCsvLine_def csv_cells_def)
  moreover have "trim (cr_name c) = cr_name c" "cr_name c \<noteq> []" "isValidStellarAddress (cr_address c)"
    "trim (cr_address c) = cr_address c" "cr_address c \<noteq> []" "trim ?f = ?f"
    using assms address_clean [of "cr_address c"]
    by (auto simp: row_ok_def clean_cell_def trim_def trim_left_def split: option.splits)
  moreover have "make_row (cr_name c) (cr_address c) ?f = c"
    using assms by (auto simp: make_row_def row_ok_def clean_cell_def split: option.splits)
  ultimately show ?thesis
    using row_line_shape(1,2) [OF assms]
    by (simp add: parse_row_def Let_def cell_def csv_cells_def export_columns_def)
qed

lemma parse_rows_lines:
  "list_all row_ok cs \<Longrightarrow>
    parse_rows export_columns i (map row_line cs) = \<lparr>ps_contacts = cs, ps_errors = []\<rparr>"
  by (induction cs arbitrary: i) (simp_all add: parse_row_line)

lemma header_columns_export: "header_columns CSV_HEADER = export_columns"
  by code_simp

text \<open>C40. The export of an address book imports as the same address book, without an error,
whatever commas and quotes its names hold, as long as names and federation names are trimmed and
have no line break (an exported line break is quoted, but the reader splits lines first).\<close>

theorem contacts_csv_roundtrip:
  assumes "contacts \<noteq> []" and "list_all row_ok contacts"
  shows "parseContactsCSV (exportContactsCSV contacts) = \<lparr>ps_contacts = contacts, ps_errors = []\<rparr>"
proof -
  let ?lines = "CSV_HEADER # map row_line contacts"
  let ?raw = "join [CR, LF] ?lines"
  have breaks: "list_all no_break ?lines"
    using assms(2) row_line_shape(3) by (auto simp: list_all_iff CSV_HEADER_def CR_def LF_def no_break_def)
  obtain c cs where cs: "contacts = cs @ [c]" using assms(1) by (cases contacts rule: rev_cases) auto
  have join_snoc: "join sep (xs @ [x]) = (if xs = [] then x else join sep xs @ sep @ x)" for sep x and xs :: "string list"
    by (induction xs rule: induct_list012) auto
  have c: "trim (row_line c) = row_line c" "row_line c \<noteq> []"
    using assms(2) row_line_shape by (simp_all add: cs)
  have "?raw = join [CR, LF] (CSV_HEADER # map row_line cs) @ [CR, LF] @ row_line c"
    using join_snoc [of "[CR, LF]" "CSV_HEADER # map row_line cs" "row_line c"] by (simp add: cs)
  then have "last ?raw = last (row_line c)" using c(2) by simp
  moreover have "hd ?raw = CHR ''N''" using assms(1) by (cases contacts) (simp_all add: CSV_HEADER_def)
  ultimately have "trim ?raw = ?raw"
    using trim_fixedD [OF c] by (intro trim_fixed) (simp add: is_space_def)
  moreover have "?raw \<noteq> []" by (cases contacts) (simp_all add: CSV_HEADER_def)
  moreover have "split_lines ?raw = ?lines"
    using breaks by (intro split_lines_join) simp_all
  ultimately show ?thesis
    using assms parse_rows_lines [OF assms(2)]
    by (simp add: parseContactsCSV_def exportContactsCSV_def csv_text_def Let_def
        header_columns_export export_columns_def Suc_le_eq)
qed

definition sample_row :: contact_row where
  "sample_row = \<lparr>cr_name = ''Doe, J'', cr_address = CHR ''G'' # replicate 55 CHR ''A'', cr_federation = None\<rparr>"

theorem contacts_csv_roundtrip_witness:
  "parseContactsCSV (exportContactsCSV [sample_row]) = \<lparr>ps_contacts = [sample_row], ps_errors = []\<rparr>"
proof (rule contacts_csv_roundtrip)
  show "list_all row_ok [sample_row]"
    by (simp add: row_ok_def sample_row_def clean_cell_def trim_def trim_left_def is_space_def
        CR_def LF_def isValidStellarAddress_def upper_or_digit_def no_break_def list_all_iff)
qed simp

section \<open>The preview agrees with the import\<close>

lemma annotate_row_parse:
  "parse_row cols n line = None \<longleftrightarrow> annotate_row cols n line = None"
  "annotate_row cols n line = Some a \<Longrightarrow> an_error a = [] \<longleftrightarrow> (\<exists>c. parse_row cols n line = Some (Inr c))"
  "annotate_row cols n line = Some a \<Longrightarrow> parse_row cols n line = Some (Inr c) \<Longrightarrow> an_contact a = Some c"
  by (auto simp: parse_row_def annotate_row_def Let_def quote_text_def split: if_splits)

lemma annotate_rows_parse:
  "ps_contacts (parse_rows cols i ls) =
      map (the \<circ> an_contact) (filter (\<lambda>a. an_error a = []) (annotate_rows cols i ls)) \<and>
   length (ps_errors (parse_rows cols i ls)) =
      length (filter (\<lambda>a. an_error a \<noteq> []) (annotate_rows cols i ls))"
proof (induction ls arbitrary: i)
  case (Cons l ls)
  show ?case
  proof (cases "annotate_row cols (i + 1) l")
    case None
    with Cons annotate_row_parse(1) [of cols "i + 1" l] show ?thesis by simp
  next
    case (Some a)
    with annotate_row_parse(1) [of cols "i + 1" l] obtain r where r: "parse_row cols (i + 1) l = Some r" by auto
    show ?thesis
      using Cons Some r annotate_row_parse(2) [OF Some] annotate_row_parse(3) [OF Some]
      by (cases r) (simp_all add: Let_def)
  qed
qed simp

text \<open>The preview never disagrees with the import: the rows it shows without an error are
exactly the contacts the import takes, in the same order, and whenever it shows any row at all the
import reports as many errors as the preview marks.\<close>

lemma preview_agrees:
  "ps_contacts (parseContactsCSV csv) =
      map (the \<circ> an_contact) (filter (\<lambda>a. an_error a = []) (parseContactsCSVAnnotated csv)) \<and>
   (parseContactsCSVAnnotated csv \<noteq> [] \<longrightarrow>
      length (ps_errors (parseContactsCSV csv)) =
        length (filter (\<lambda>a. an_error a \<noteq> []) (parseContactsCSVAnnotated csv)))"
  by (simp add: parseContactsCSV_def parseContactsCSVAnnotated_def Let_def annotate_rows_parse)

theorem preview_agrees_example:
  "map (the \<circ> an_contact) (filter (\<lambda>a. an_error a = [])
     (parseContactsCSVAnnotated (exportContactsCSV [sample_row]))) = [sample_row]"
  using preview_agrees [of "exportContactsCSV [sample_row]"] contacts_csv_roundtrip [of "[sample_row]"]
  by (simp add: row_ok_def sample_row_def clean_cell_def trim_def trim_left_def is_space_def
      CR_def LF_def isValidStellarAddress_def upper_or_digit_def no_break_def list_all_iff)

end
