(* ===== verification/ContactsDB.thy ===== *)
theory ContactsDB
  imports ObjectStore ContactsFile
begin

text \<open>
  \<open>frontend/lib/contactsDB.ts\<close>: contacts and groups in IndexedDB, with the unique indexes on the
  public key and on the group name, the membership operations, and the second pair of CSV and vCard
  codecs. The two stores give their keys from a generator; a transaction that aborts leaves stores
  and generators as they were. \<open>localeCompare\<close> is a parameter.
\<close>

section \<open>Data\<close>

record contact_group =
  gr_id :: nat
  gr_name :: string
  gr_color :: string
  gr_icon :: string
  gr_createdAt :: int

record contact_input =
  ci_name :: string
  ci_publicKey :: string
  ci_federationAddress :: "string option"
  ci_memo :: "string option"
  ci_tags :: "string list option"
  ci_groupIds :: "nat list option"

record contact =
  ct_id :: nat
  ct_data :: contact_input
  ct_createdAt :: int
  ct_updatedAt :: int

text \<open>\<open>Partial<Contact>\<close>: \<open>None\<close> is a property the patch does not have.\<close>

record contact_patch =
  cp_name :: "string option"
  cp_publicKey :: "string option"
  cp_federationAddress :: "string option option"
  cp_memo :: "string option option"
  cp_tags :: "string list option option"
  cp_groupIds :: "nat list option option"

record contacts_db =
  db_contacts :: "(nat, contact) ostore"
  db_nextContact :: nat
  db_groups :: "(nat, contact_group) ostore"
  db_nextGroup :: nat

text \<open>A promise of the module: settled with a value, rejected, or never settled.\<close>

datatype 'a promise = Resolved 'a | Rejected string | Pending

abbreviation public_key :: "contact \<Rightarrow> string" where
  "public_key c \<equiv> ci_publicKey (ct_data c)"

section \<open>Opening the database\<close>

definition DEFAULT_GROUPS :: "(string \<times> string \<times> string) list" where
  "DEFAULT_GROUPS = [(''Favorites'', ''#f59e0b'', ''star''), (''Frequent'', ''#6366f1'', ''clock''),
     (''All'', ''#22d3ee'', ''users'')]"

definition add_group :: "int \<Rightarrow> string \<times> string \<times> string \<Rightarrow> contacts_db \<Rightarrow> nat promise \<times> contacts_db" where
  "add_group now g db =
     (case g of (name, color, icon) \<Rightarrow>
       if list_ex (\<lambda>h. gr_name h = name) (os_values (db_groups db)) then (Rejected ''ConstraintError'', db)
       else (Resolved (db_nextGroup db),
             db\<lparr>db_groups := os_put (db_nextGroup db) \<lparr>gr_id = db_nextGroup db, gr_name = name,
                  gr_color = color, gr_icon = icon, gr_createdAt = now\<rparr> (db_groups db),
                db_nextGroup := Suc (db_nextGroup db)\<rparr>))"

text \<open>The upgrade handler, from no database, or from the first version, which had contacts only.\<close>

definition open_contacts_db :: "int \<Rightarrow> contacts_db option \<Rightarrow> bool \<Rightarrow> contacts_db" where
  "open_contacts_db now old has_groups =
     (let db = (case old of
                  None \<Rightarrow> \<lparr>db_contacts = [], db_nextContact = 1, db_groups = [], db_nextGroup = 1\<rparr>
                | Some d \<Rightarrow> if has_groups then d else d\<lparr>db_groups := [], db_nextGroup := 1\<rparr>)
      in if old \<noteq> None \<and> has_groups then db
         else foldl (\<lambda>d g. snd (add_group now g d)) db DEFAULT_GROUPS)"

section \<open>Contacts\<close>

definition addContact :: "int \<Rightarrow> contact_input \<Rightarrow> contacts_db \<Rightarrow> nat promise \<times> contacts_db" where
  "addContact now ci db =
     (if list_ex (\<lambda>c. public_key c = ci_publicKey ci) (os_values (db_contacts db))
      then (Rejected ''ConstraintError'', db)
      else (Resolved (db_nextContact db),
            db\<lparr>db_contacts := os_put (db_nextContact db)
                 \<lparr>ct_id = db_nextContact db, ct_data = ci, ct_createdAt = now, ct_updatedAt = now\<rparr>
                 (db_contacts db),
               db_nextContact := Suc (db_nextContact db)\<rparr>))"

definition name_order :: "(string \<Rightarrow> string \<Rightarrow> jsnum) \<Rightarrow> contact list \<Rightarrow> contact list" where
  "name_order localeCompare cs = js_sort (\<lambda>a b. localeCompare (ci_name (ct_data a)) (ci_name (ct_data b))) cs"

definition getAllContacts :: "(string \<Rightarrow> string \<Rightarrow> jsnum) \<Rightarrow> contacts_db \<Rightarrow> contact list" where
  "getAllContacts localeCompare db = name_order localeCompare (os_values (db_contacts db))"

definition or_keep :: "'a option \<Rightarrow> 'a \<Rightarrow> 'a" where
  "or_keep p old = (case p of None \<Rightarrow> old | Some v \<Rightarrow> v)"

definition apply_patch :: "contact_patch \<Rightarrow> contact_input \<Rightarrow> contact_input" where
  "apply_patch p d = \<lparr>ci_name = or_keep (cp_name p) (ci_name d),
     ci_publicKey = or_keep (cp_publicKey p) (ci_publicKey d),
     ci_federationAddress = or_keep (cp_federationAddress p) (ci_federationAddress d),
     ci_memo = or_keep (cp_memo p) (ci_memo d), ci_tags = or_keep (cp_tags p) (ci_tags d),
     ci_groupIds = or_keep (cp_groupIds p) (ci_groupIds d)\<rparr>"

text \<open>A put that breaks the unique index aborts the transaction, whose abort nobody listens to.\<close>

definition updateContact ::
  "int \<Rightarrow> nat \<Rightarrow> contact_patch \<Rightarrow> contacts_db \<Rightarrow> unit promise \<times> contacts_db" where
  "updateContact now i updates db =
     (case os_get (db_contacts db) i of
        None \<Rightarrow> (Rejected ''Contact not found'', db)
      | Some existing \<Rightarrow>
          (let updated = existing\<lparr>ct_data := apply_patch updates (ct_data existing), ct_updatedAt := now\<rparr>
           in if list_ex (\<lambda>c. ct_id c \<noteq> i \<and> public_key c = public_key updated) (os_values (db_contacts db))
              then (Pending, db)
              else (Resolved (), db\<lparr>db_contacts := os_put i updated (db_contacts db)\<rparr>)))"

definition deleteContact :: "nat \<Rightarrow> contacts_db \<Rightarrow> contacts_db" where
  "deleteContact i db = db\<lparr>db_contacts := os_del i (db_contacts db)\<rparr>"

definition clearAllContacts :: "contacts_db \<Rightarrow> contacts_db" where
  "clearAllContacts db = db\<lparr>db_contacts := []\<rparr>"

definition searchContacts :: "(string \<Rightarrow> string \<Rightarrow> jsnum) \<Rightarrow> string \<Rightarrow> contacts_db \<Rightarrow> contact list" where
  "searchContacts localeCompare query db =
     (let q = to_lower query
      in filter (\<lambda>c. str_includes (to_lower (ci_name (ct_data c))) q \<or>
           str_includes (to_lower (public_key c)) q \<or>
           (case ci_federationAddress (ct_data c) of
              None \<Rightarrow> False | Some f \<Rightarrow> f \<noteq> [] \<and> str_includes (to_lower f) q))
         (getAllContacts localeCompare db))"

section \<open>Groups\<close>

definition createGroup :: "int \<Rightarrow> string \<times> string \<times> string \<Rightarrow> contacts_db \<Rightarrow> nat promise \<times> contacts_db" where
  "createGroup now g db = add_group now g db"

definition getAllGroups :: "(string \<Rightarrow> string \<Rightarrow> jsnum) \<Rightarrow> contacts_db \<Rightarrow> contact_group list" where
  "getAllGroups localeCompare db =
     js_sort (\<lambda>a b. localeCompare (gr_name a) (gr_name b)) (os_values (db_groups db))"

definition member :: "nat \<Rightarrow> contact \<Rightarrow> bool" where
  "member g c = (case ci_groupIds (ct_data c) of None \<Rightarrow> False | Some gs \<Rightarrow> g \<in> set gs)"

definition groups_patch :: "nat list \<Rightarrow> contact_patch" where
  "groups_patch gs = \<lparr>cp_name = None, cp_publicKey = None, cp_federationAddress = None, cp_memo = None,
     cp_tags = None, cp_groupIds = Some (Some gs)\<rparr>"

text \<open>The loop over the contacts read before; it stops where an update does not resolve.\<close>

fun leave_group :: "int \<Rightarrow> nat \<Rightarrow> contact list \<Rightarrow> contacts_db \<Rightarrow> unit promise \<times> contacts_db" where
  "leave_group now g [] db = (Resolved (), db)"
| "leave_group now g (c # cs) db =
     (if member g c
      then (case updateContact now (ct_id c)
                   (groups_patch (filter (\<lambda>h. h \<noteq> g) (the (ci_groupIds (ct_data c))))) db of
              (Resolved _, db') \<Rightarrow> leave_group now g cs db'
            | (Rejected e, db') \<Rightarrow> (Rejected e, db')
            | (Pending, db') \<Rightarrow> (Pending, db'))
      else leave_group now g cs db)"

definition deleteGroup ::
  "(string \<Rightarrow> string \<Rightarrow> jsnum) \<Rightarrow> int \<Rightarrow> nat \<Rightarrow> contacts_db \<Rightarrow> unit promise \<times> contacts_db" where
  "deleteGroup localeCompare now g db =
     (case leave_group now g (getAllContacts localeCompare db) db of
        (Resolved _, db') \<Rightarrow> (Resolved (), db'\<lparr>db_groups := os_del g (db_groups db')\<rparr>)
      | r \<Rightarrow> r)"

definition getContactById :: "nat \<Rightarrow> contacts_db \<Rightarrow> contact option" where
  "getContactById i db = os_get (db_contacts db) i"

definition group_list :: "contact \<Rightarrow> nat list" where
  "group_list c = (case ci_groupIds (ct_data c) of None \<Rightarrow> [] | Some gs \<Rightarrow> gs)"

definition addToGroup :: "int \<Rightarrow> nat \<Rightarrow> nat \<Rightarrow> contacts_db \<Rightarrow> unit promise \<times> contacts_db" where
  "addToGroup now i g db =
     (case getContactById i db of
        None \<Rightarrow> (Rejected ''Contact not found'', db)
      | Some c \<Rightarrow>
          if g \<notin> set (group_list c) then updateContact now i (groups_patch (group_list c @ [g])) db
          else (Resolved (), db))"

definition removeFromGroup :: "int \<Rightarrow> nat \<Rightarrow> nat \<Rightarrow> contacts_db \<Rightarrow> unit promise \<times> contacts_db" where
  "removeFromGroup now i g db =
     (case getContactById i db of
        None \<Rightarrow> (Rejected ''Contact not found'', db)
      | Some c \<Rightarrow> updateContact now i (groups_patch (filter (\<lambda>h. h \<noteq> g) (group_list c))) db)"

definition getContactsByGroup :: "(string \<Rightarrow> string \<Rightarrow> jsnum) \<Rightarrow> nat \<Rightarrow> contacts_db \<Rightarrow> contact list" where
  "getContactsByGroup localeCompare g db = filter (member g) (getAllContacts localeCompare db)"

section \<open>Import and export\<close>

fun importContacts :: "int \<Rightarrow> contact_input list \<Rightarrow> contacts_db \<Rightarrow> nat \<times> contacts_db" where
  "importContacts now [] db = (0, db)"
| "importContacts now (ci # inputs) db =
     (case addContact now ci db of
        (Resolved _, db') \<Rightarrow> (case importContacts now inputs db' of (n, db'') \<Rightarrow> (Suc n, db''))
      | (_, db') \<Rightarrow> importContacts now inputs db')"

text \<open>\<open>replace(/^"|"$/g, "")\<close>: a quote at the front and one at the end go.\<close>

definition strip_quotes :: "string \<Rightarrow> string" where
  "strip_quotes s =
     (let t = (if s \<noteq> [] \<and> hd s = QUOTE then tl s else s)
      in if t \<noteq> [] \<and> last t = QUOTE then butlast t else t)"

text \<open>A column past the end of a row reads as undefined (\<open>None\<close>).\<close>

definition column :: "string list \<Rightarrow> nat option \<Rightarrow> string option" where
  "column cols i = (case i of None \<Rightarrow> None | Some n \<Rightarrow> if n < length cols then Some (cols ! n) else None)"

record parsed_contact =
  pc_name :: "string option"
  pc_publicKey :: "string option"
  pc_memo :: "string option"
  pc_federationAddress :: "string option"
  pc_tags :: "string list option"

definition split_tags :: "string \<Rightarrow> string list" where
  "split_tags s = filter (\<lambda>g. g \<noteq> []) (map trim (split_char CHR '';'' s))"

definition parse_contact :: "string list \<Rightarrow> string \<Rightarrow> parsed_contact option" where
  "parse_contact headers line =
     (let cols = map (\<lambda>c. strip_quotes (trim c)) (split_char CHR '','' line);
          col = (\<lambda>h. column cols (find_index (\<lambda>x. x = h) headers))
      in if length cols < 2 then None
         else Some \<lparr>pc_name = col ''name'', pc_publicKey = col ''publickey'', pc_memo = col ''memo'',
           pc_federationAddress = col ''federationaddress'',
           pc_tags = (case col ''groups'' of None \<Rightarrow> None
                      | Some g \<Rightarrow> if g = [] then None else Some (split_tags g))\<rparr>)"

definition parseCSV :: "string \<Rightarrow> parsed_contact list" where
  "parseCSV content =
     (let lines = filter (\<lambda>l. trim l \<noteq> []) (split_char LF content)
      in if length lines < 2 then []
         else
           (let headers = map (\<lambda>h. to_lower (trim h)) (split_char CHR '','' (hd lines))
            in if find_index (\<lambda>h. h = ''name'') headers = None \<or>
                  find_index (\<lambda>h. h = ''publickey'') headers = None then []
               else List.map_filter (parse_contact headers) (tl lines)))"

definition truthy_or_empty :: "string option \<Rightarrow> string" where
  "truthy_or_empty x = (case x of None \<Rightarrow> [] | Some s \<Rightarrow> s)"

definition group_names :: "contact_group list \<Rightarrow> contact \<Rightarrow> string" where
  "group_names groups c =
     join '';'' (filter (\<lambda>n. n \<noteq> [])
       (map (\<lambda>g. truthy_or_empty (map_of (rev (map (\<lambda>x. (gr_id x, gr_name x)) groups)) g)) (group_list c)))"

definition generateCSV :: "contact list \<Rightarrow> contact_group list \<Rightarrow> string" where
  "generateCSV contacts groups =
     join [LF] (''name,publicKey,memo,federationAddress,groups'' #
       map (\<lambda>c. ci_name (ct_data c) @ '','' @ public_key c @ '','' @ truthy_or_empty (ci_memo (ct_data c)) @
         '','' @ truthy_or_empty (ci_federationAddress (ct_data c)) @ '','' @ quote_text (group_names groups c))
       contacts)"

definition generateVCard :: "contact list \<Rightarrow> contact_group list \<Rightarrow> string" where
  "generateVCard contacts groups =
     join [CR, LF] (map (\<lambda>c.
       (let names = group_names groups c;
            memo = truthy_or_empty (ci_memo (ct_data c))
        in ''BEGIN:VCARD'' @ [CR, LF] @ ''VERSION:3.0'' @ [CR, LF] @ ''FN:'' @ ci_name (ct_data c) @ [CR, LF] @
           ''X-STELLAR-ADDRESS:'' @ public_key c @ [CR, LF] @
           (if names \<noteq> [] then ''X-STELLAR-GROUPS:'' @ names @ [CR, LF] else []) @
           (if memo \<noteq> [] then ''NOTE:'' @ memo @ [CR, LF] else []) @ ''END:VCARD'')) contacts)"

text \<open>
  A line \<open>/^KEY[:;].*?:?([^\r\n]+)/im\<close>: the value is what follows the separator, without one
  leading colon when something is left behind it.
\<close>

definition property_value :: "string \<Rightarrow> string \<Rightarrow> string option" where
  "property_value key line =
     (let n = length key;
          rest = drop (Suc n) line
      in if take n (to_lower line) = to_lower key \<and> n < length line \<and> line ! n \<in> {CHR '':'', CHR '';''} \<and> rest \<noteq> []
         then Some (if hd rest = CHR '':'' \<and> tl rest \<noteq> [] then tl rest else rest)
         else None)"

definition find_property :: "string \<Rightarrow> string \<Rightarrow> string option" where
  "find_property key block =
     (case List.map_filter (property_value key) (split_lines block) of [] \<Rightarrow> None | v # _ \<Rightarrow> Some v)"

text \<open>\<open>content.split(/(?=BEGIN:VCARD)/i)\<close>.\<close>

definition BEGIN_VCARD :: string where
  "BEGIN_VCARD = ''begin:vcard''"

fun split_cards :: "string \<Rightarrow> string list" where
  "split_cards [] = [[]]"
| "split_cards [x] = [[x]]"
| "split_cards (x # y # ys) =
     (case split_cards (y # ys) of
        [] \<Rightarrow> [[x]]
      | p # ps \<Rightarrow> if starts_with (to_lower (y # ys)) BEGIN_VCARD then [x] # p # ps else (x # p) # ps)"

definition parse_card :: "string \<Rightarrow> parsed_contact option" where
  "parse_card block =
     (if \<not> str_includes (to_lower block) BEGIN_VCARD then None
      else
        (let name = (case find_property ''FN'' block of None \<Rightarrow> ''Imported Contact'' | Some v \<Rightarrow> trim v);
             publicKey = (case find_property ''X-STELLAR-ADDRESS'' block of None \<Rightarrow> [] | Some v \<Rightarrow> trim v)
         in if publicKey = [] then None
            else Some \<lparr>pc_name = Some name, pc_publicKey = Some publicKey, pc_memo = None,
              pc_federationAddress = None,
              pc_tags = map_option (\<lambda>v. split_tags (trim v)) (find_property ''X-STELLAR-GROUPS'' block)\<rparr>))"

definition parseVCard :: "string \<Rightarrow> parsed_contact list" where
  "parseVCard content = List.map_filter parse_card (split_cards content)"

section \<open>The invariant of the two stores\<close>

definition contacts_ok :: "contacts_db \<Rightarrow> bool" where
  "contacts_ok db =
     (os_wf (db_contacts db) \<and>
      (\<forall>i c. os_get (db_contacts db) i = Some c \<longrightarrow> ct_id c = i \<and> i < db_nextContact db) \<and>
      (\<forall>i j c d. os_get (db_contacts db) i = Some c \<and> os_get (db_contacts db) j = Some d \<and>
         public_key c = public_key d \<longrightarrow> i = j))"

definition groups_ok :: "contacts_db \<Rightarrow> bool" where
  "groups_ok db =
     (os_wf (db_groups db) \<and>
      (\<forall>i g. os_get (db_groups db) i = Some g \<longrightarrow> gr_id g = i \<and> i < db_nextGroup db) \<and>
      (\<forall>i j g h. os_get (db_groups db) i = Some g \<and> os_get (db_groups db) j = Some h \<and>
         gr_name g = gr_name h \<longrightarrow> i = j))"

definition db_ok :: "contacts_db \<Rightarrow> bool" where
  "db_ok db = (contacts_ok db \<and> groups_ok db)"

lemma values_get: "os_wf s \<Longrightarrow> v \<in> set (os_values s) \<longleftrightarrow> (\<exists>k. os_get s k = Some v)"
  by (force simp: os_get_iff)

lemma set_values: "os_wf s \<Longrightarrow> set (os_values s) = ran (os_get s)"
  by (rule set_eqI) (simp only: values_get ran_def mem_Collect_eq)

lemma contacts_ok_put:
  assumes ok: "contacts_ok db" and fresh: "\<And>j d. os_get (db_contacts db) j = Some d \<Longrightarrow> j \<noteq> ct_id c \<Longrightarrow>
      public_key d \<noteq> public_key c"
    and n: "ct_id c < n" "db_nextContact db \<le> n"
  shows "contacts_ok (db\<lparr>db_contacts := os_put (ct_id c) c (db_contacts db), db_nextContact := n\<rparr>)"
proof -
  let ?s = "os_put (ct_id c) c (db_contacts db)"
  have wf: "os_wf ?s"
    using ok by (simp add: contacts_ok_def os_wf_put)
  have ids: "ct_id d = i \<and> i < n" if "os_get ?s i = Some d" for i d
    using that ok n by (fastforce simp: contacts_ok_def idb_get split: if_splits)
  have uniq: "i = j" if "os_get ?s i = Some a" "os_get ?s j = Some b" "public_key a = public_key b" for i j a b
    using that ok fresh [of i] fresh [of j]
    by (auto simp: idb_get contacts_ok_def split: if_splits)
  from wf ids uniq show ?thesis by (simp add: contacts_ok_def)
qed

lemma groups_ok_frame:
  "groups_ok (db\<lparr>db_contacts := s, db_nextContact := n\<rparr>) = groups_ok db"
  "groups_ok (db\<lparr>db_contacts := s\<rparr>) = groups_ok db"
  by (simp_all add: groups_ok_def)

lemma contacts_ok_frame:
  "contacts_ok (db\<lparr>db_groups := s, db_nextGroup := n\<rparr>) = contacts_ok db"
  "contacts_ok (db\<lparr>db_groups := s\<rparr>) = contacts_ok db"
  by (simp_all add: contacts_ok_def)

lemma add_group_ok:
  assumes ok: "db_ok db" shows "db_ok (snd (add_group now g db))"
proof -
  obtain name color icon where g: "g = (name, color, icon)" by (cases g) auto
  let ?g = "\<lparr>gr_id = db_nextGroup db, gr_name = name, gr_color = color, gr_icon = icon, gr_createdAt = now\<rparr>"
  show ?thesis
  proof (cases "list_ex (\<lambda>h. gr_name h = name) (os_values (db_groups db))")
    case True
    with ok show ?thesis by (simp add: add_group_def g)
  next
    case False
    have gok: "groups_ok db" using ok by (simp add: db_ok_def)
    then have fresh: "gr_name h \<noteq> name" if "os_get (db_groups db) i = Some h" for i h
      using False that values_get [of "db_groups db" h] by (auto simp: list_ex_iff groups_ok_def)
    have "groups_ok (db\<lparr>db_groups := os_put (db_nextGroup db) ?g (db_groups db),
        db_nextGroup := Suc (db_nextGroup db)\<rparr>)"
    proof -
      let ?s = "os_put (db_nextGroup db) ?g (db_groups db)"
      have wf: "os_wf ?s"
        using gok by (simp add: groups_ok_def os_wf_put)
      have ids: "gr_id h = i \<and> i < Suc (db_nextGroup db)" if "os_get ?s i = Some h" for i h
        using that gok by (fastforce simp: groups_ok_def idb_get split: if_splits)
      have uniq: "i = j" if "os_get ?s i = Some a" "os_get ?s j = Some b" "gr_name a = gr_name b" for i j a b
        using that gok fresh [of i] fresh [of j]
        by (auto simp: idb_get groups_ok_def split: if_splits)
      from wf ids uniq show ?thesis by (simp add: groups_ok_def)
    qed
    with False ok show ?thesis
      by (simp add: add_group_def g db_ok_def contacts_ok_frame)
  qed
qed

lemma addContact_ok: "db_ok db \<Longrightarrow> db_ok (snd (addContact now ci db))"
proof -
  assume ok: "db_ok db"
  let ?c = "\<lparr>ct_id = db_nextContact db, ct_data = ci, ct_createdAt = now, ct_updatedAt = now\<rparr>"
  show ?thesis
  proof (cases "list_ex (\<lambda>c. public_key c = ci_publicKey ci) (os_values (db_contacts db))")
    case True
    with ok show ?thesis by (simp add: addContact_def)
  next
    case False
    have cok: "contacts_ok db" using ok by (simp add: db_ok_def)
    have "contacts_ok (db\<lparr>db_contacts := os_put (ct_id ?c) ?c (db_contacts db),
        db_nextContact := Suc (db_nextContact db)\<rparr>)"
    proof (rule contacts_ok_put [OF cok])
      show "public_key d \<noteq> public_key ?c" if "os_get (db_contacts db) j = Some d" for j d
        using False that cok values_get [of "db_contacts db" d] by (auto simp: list_ex_iff contacts_ok_def)
    qed simp_all
    with False ok show ?thesis by (simp add: addContact_def db_ok_def groups_ok_frame)
  qed
qed

lemma updateContact_ok: "db_ok db \<Longrightarrow> db_ok (snd (updateContact now i p db))"
proof -
  assume ok: "db_ok db"
  then have cok: "contacts_ok db" by (simp add: db_ok_def)
  show ?thesis
  proof (cases "os_get (db_contacts db) i")
    case None
    with ok show ?thesis by (simp add: updateContact_def)
  next
    case (Some e)
    let ?u = "e\<lparr>ct_data := apply_patch p (ct_data e), ct_updatedAt := now\<rparr>"
    have i: "ct_id e = i" "i < db_nextContact db" using cok Some by (auto simp: contacts_ok_def)
    show ?thesis
    proof (cases "list_ex (\<lambda>c. ct_id c \<noteq> i \<and> public_key c = public_key ?u) (os_values (db_contacts db))")
      case True
      with ok Some show ?thesis by (simp add: updateContact_def Let_def)
    next
      case False
      have "contacts_ok (db\<lparr>db_contacts := os_put (ct_id ?u) ?u (db_contacts db),
          db_nextContact := db_nextContact db\<rparr>)"
      proof (rule contacts_ok_put [OF cok])
        show "public_key d \<noteq> public_key ?u" if d: "os_get (db_contacts db) j = Some d" "j \<noteq> ct_id ?u" for j d
        proof -
          have "d \<in> set (os_values (db_contacts db))"
            using d cok values_get [of "db_contacts db" d] by (auto simp: contacts_ok_def)
          moreover have "ct_id d \<noteq> i" using d cok i by (auto simp: contacts_ok_def)
          ultimately show ?thesis using False by (auto simp: list_ex_iff)
        qed
      qed (simp_all add: i)
      with False ok Some i show ?thesis
        by (simp add: updateContact_def Let_def db_ok_def groups_ok_frame)
    qed
  qed
qed

lemma deleteContact_ok: "db_ok db \<Longrightarrow> db_ok (deleteContact i db)"
  by (auto simp: db_ok_def deleteContact_def groups_ok_frame contacts_ok_def os_wf_del idb_get)

lemma leave_group_ok: "db_ok db \<Longrightarrow> db_ok (snd (leave_group now g cs db))"
proof (induction cs arbitrary: db)
  case (Cons c cs)
  let ?u = "updateContact now (ct_id c) (groups_patch (filter (\<lambda>h. h \<noteq> g) (the (ci_groupIds (ct_data c))))) db"
  have "db_ok (snd ?u)" by (rule updateContact_ok) (rule Cons.prems)
  with Cons show ?case
    by (cases ?u; cases "fst ?u") auto
qed simp

lemma deleteGroup_ok: "db_ok db \<Longrightarrow> db_ok (snd (deleteGroup cmp now g db))"
proof -
  assume "db_ok db"
  let ?l = "leave_group now g (getAllContacts cmp db) db"
  have "db_ok (snd ?l)" using \<open>db_ok db\<close> by (rule leave_group_ok)
  moreover have "db_ok d \<Longrightarrow> db_ok (d\<lparr>db_groups := os_del g (db_groups d)\<rparr>)" for d
    by (auto simp: db_ok_def contacts_ok_frame groups_ok_def os_wf_del idb_get)
  ultimately show ?thesis
    by (cases ?l; cases "fst ?l") (auto simp: deleteGroup_def)
qed

lemma importContacts_ok: "db_ok db \<Longrightarrow> db_ok (snd (importContacts now inputs db))"
proof (induction inputs arbitrary: db)
  case (Cons ci inputs)
  have "db_ok (snd (addContact now ci db))" by (rule addContact_ok) (rule Cons.prems)
  with Cons.IH show ?case
    by (cases "addContact now ci db"; cases "fst (addContact now ci db)") (auto simp: split_beta)
qed simp

lemma open_ok: "db_ok (open_contacts_db now None has_groups)"
proof -
  have "db_ok (foldl (\<lambda>d g. snd (add_group now g d)) db gs)" if "db_ok db" for db gs
    using that by (induction gs arbitrary: db) (simp_all add: add_group_ok)
  moreover have "db_ok \<lparr>db_contacts = [], db_nextContact = 1, db_groups = [], db_nextGroup = 1\<rparr>"
    by (simp add: db_ok_def contacts_ok_def groups_ok_def)
  ultimately show ?thesis by (simp add: open_contacts_db_def)
qed

inductive db_reached :: "contacts_db \<Rightarrow> bool" where
  opened: "db_reached (open_contacts_db now None has_groups)"
| added: "db_reached db \<Longrightarrow> db_reached (snd (addContact now ci db))"
| updated: "db_reached db \<Longrightarrow> db_reached (snd (updateContact now i p db))"
| deleted: "db_reached db \<Longrightarrow> db_reached (deleteContact i db)"
| cleared: "db_reached db \<Longrightarrow> db_reached (clearAllContacts db)"
| group_created: "db_reached db \<Longrightarrow> db_reached (snd (createGroup now g db))"
| group_deleted: "db_reached db \<Longrightarrow> db_reached (snd (deleteGroup cmp now n db))"
| joined: "db_reached db \<Longrightarrow> db_reached (snd (addToGroup now i n db))"
| left: "db_reached db \<Longrightarrow> db_reached (snd (removeFromGroup now i n db))"
| imported: "db_reached db \<Longrightarrow> db_reached (snd (importContacts now inputs db))"

text \<open>C38. Whatever operations ran since the database was created, no two contacts share a public
key, no two groups a name, and every record is stored under its own id.\<close>

theorem contacts_db_invariant:
  assumes "db_reached db"
  shows "db_ok db"
  using assms
proof induction
  case (cleared db)
  then show ?case by (simp add: clearAllContacts_def db_ok_def contacts_ok_def groups_ok_def)
next
  case (joined db now i n)
  then show ?case
    by (auto simp: addToGroup_def updateContact_ok split: option.splits)
next
  case (left db now i n)
  then show ?case
    by (auto simp: removeFromGroup_def updateContact_ok split: option.splits)
qed (simp_all add: open_ok addContact_ok updateContact_ok deleteContact_ok createGroup_def add_group_ok
    deleteGroup_ok importContacts_ok)

theorem contacts_db_invariant_witness: "db_ok (open_contacts_db 0 None False)"
  by (rule contacts_db_invariant) (rule opened)

section \<open>Import\<close>

abbreviation public_keys :: "contacts_db \<Rightarrow> string set" where
  "public_keys db \<equiv> public_key ` ran (os_get (db_contacts db))"

lemma addContact_effect:
  assumes "db_ok db"
  shows "addContact now ci db =
    (if ci_publicKey ci \<in> public_keys db then (Rejected ''ConstraintError'', db)
     else (Resolved (db_nextContact db), db\<lparr>db_contacts := os_put (db_nextContact db)
            \<lparr>ct_id = db_nextContact db, ct_data = ci, ct_createdAt = now, ct_updatedAt = now\<rparr> (db_contacts db),
          db_nextContact := Suc (db_nextContact db)\<rparr>))"
proof -
  have "list_ex (\<lambda>c. public_key c = ci_publicKey ci) (os_values (db_contacts db)) \<longleftrightarrow>
      ci_publicKey ci \<in> public_keys db"
  proof -
    have "os_wf (db_contacts db)" using assms by (simp add: db_ok_def contacts_ok_def)
    then show ?thesis by (auto simp only: list_ex_iff set_values image_iff Bex_def)
  qed
  then show ?thesis by (simp add: addContact_def)
qed

lemma fresh_id: "db_ok db \<Longrightarrow> os_get (db_contacts db) (db_nextContact db) = None"
  by (cases "os_get (db_contacts db) (db_nextContact db)") (auto simp: db_ok_def contacts_ok_def)

text \<open>An import adds what is new and nothing else: every contact that was there stays as it
was, afterwards the public keys are the old ones and the imported ones, and the number reported is
the number of contacts added, so duplicates inside the file and of the book are skipped silently.\<close>

lemma import_adds_new:
  assumes "db_ok db" and "importContacts now inputs db = (n, db')"
  shows "(\<forall>i c. os_get (db_contacts db) i = Some c \<longrightarrow> os_get (db_contacts db') i = Some c) \<and>
    public_keys db' = public_keys db \<union> ci_publicKey ` set inputs \<and>
    length (db_contacts db') = length (db_contacts db) + n"
  using assms
proof (induction inputs arbitrary: db n)
  case (Cons ci inputs)
  show ?case
  proof (cases "ci_publicKey ci \<in> public_keys db")
    case True
    with Cons.prems have "importContacts now inputs db = (n, db')"
      by (simp add: addContact_effect)
    from Cons.IH [OF Cons.prems(1) this] True show ?thesis by auto
  next
    case False
    let ?c = "\<lparr>ct_id = db_nextContact db, ct_data = ci, ct_createdAt = now, ct_updatedAt = now\<rparr>"
    let ?d = "db\<lparr>db_contacts := os_put (db_nextContact db) ?c (db_contacts db),
      db_nextContact := Suc (db_nextContact db)\<rparr>"
    have add: "addContact now ci db = (Resolved (db_nextContact db), ?d)"
      using False Cons.prems(1) by (simp add: addContact_effect)
    obtain m where m: "importContacts now inputs ?d = (m, db')" "n = Suc m"
      using Cons.prems(2) add by (auto split: prod.splits)
    have ok: "db_ok ?d" using addContact_ok [OF Cons.prems(1), of now ci] add by simp
    have new: "os_get (db_contacts db) (db_nextContact db) = None" by (rule fresh_id) (rule Cons.prems(1))
    have wf: "os_wf (db_contacts db)" using Cons.prems(1) by (simp add: db_ok_def contacts_ok_def)
    have len: "length (db_contacts ?d) = Suc (length (db_contacts db))"
      using idb.length_put_fresh [OF wf new] by (simp add: os_all_def)
    have keys: "public_keys ?d = insert (ci_publicKey ci) (public_keys db)"
      using new by (simp add: idb_get)
    have old: "os_get (db_contacts ?d) i = Some c" if "os_get (db_contacts db) i = Some c" for i c
      using that new by (auto simp: idb_get)
    note IH = Cons.IH [OF ok m(1)]
    show ?thesis
    proof (intro conjI allI impI)
      show "os_get (db_contacts db') i = Some c" if "os_get (db_contacts db) i = Some c" for i c
        using IH old [OF that] by blast
      show "public_keys db' = public_keys db \<union> ci_publicKey ` set (ci # inputs)"
        using conjunct1 [OF conjunct2 [OF IH]] unfolding keys by simp
      show "length (db_contacts db') = length (db_contacts db) + n"
        using conjunct2 [OF conjunct2 [OF IH]] unfolding len m(2) by simp
    qed
  qed
qed simp

definition sample_input :: contact_input where
  "sample_input = \<lparr>ci_name = ''Al'', ci_publicKey = ''GA'', ci_federationAddress = None, ci_memo = None,
     ci_tags = None, ci_groupIds = None\<rparr>"

theorem import_adds_new_example:
  "\<exists>n db'. importContacts 0 [sample_input, sample_input] (open_contacts_db 0 None False) = (n, db') \<and>
     length (db_contacts db') = length (db_contacts (open_contacts_db 0 None False)) + n"
proof -
  obtain n db' where i: "importContacts 0 [sample_input, sample_input] (open_contacts_db 0 None False) = (n, db')"
    by (cases "importContacts 0 [sample_input, sample_input] (open_contacts_db 0 None False)")
  show ?thesis
    by (intro exI conjI, rule i, rule import_adds_new [OF open_ok i, THEN conjunct2, THEN conjunct2])
qed

section \<open>Deleting a group\<close>

definition without_group :: "int \<Rightarrow> nat \<Rightarrow> contact \<Rightarrow> contact" where
  "without_group now g c =
     (if member g c
      then c\<lparr>ct_data := (ct_data c)\<lparr>ci_groupIds := Some (filter (\<lambda>h. h \<noteq> g) (group_list c))\<rparr>, ct_updatedAt := now\<rparr>
      else c)"

lemma member_without [simp]: "\<not> member g (without_group now g c)"
  by (simp add: without_group_def member_def)

lemma update_groups:
  assumes "db_ok db" "os_get (db_contacts db) (ct_id c) = Some c" "member g c"
  shows "updateContact now (ct_id c) (groups_patch (filter (\<lambda>h. h \<noteq> g) (the (ci_groupIds (ct_data c))))) db =
    (Resolved (), db\<lparr>db_contacts := os_put (ct_id c) (without_group now g c) (db_contacts db)\<rparr>)"
proof -
  have "\<not> list_ex (\<lambda>d. ct_id d \<noteq> ct_id c \<and> public_key d = public_key c) (os_values (db_contacts db))"
  proof -
    have wf: "os_wf (db_contacts db)" using assms(1) by (simp add: db_ok_def contacts_ok_def)
    have uniq: "i = j" if "os_get (db_contacts db) i = Some a" "os_get (db_contacts db) j = Some b"
        "public_key a = public_key b" for i j a b
      using assms(1) that unfolding db_ok_def contacts_ok_def by blast
    have ids: "ct_id a = i" if "os_get (db_contacts db) i = Some a" for i a
      using assms(1) that unfolding db_ok_def contacts_ok_def by blast
    have "ct_id d = ct_id c" if d: "d \<in> set (os_values (db_contacts db))" "public_key d = public_key c" for d
    proof -
      from d(1) obtain i where "os_get (db_contacts db) i = Some d" by (auto simp only: values_get [OF wf])
      with uniq [OF this assms(2) d(2)] ids show ?thesis by blast
    qed
    then show ?thesis unfolding list_ex_iff by blast
  qed
  moreover have "apply_patch (groups_patch gs) d = d\<lparr>ci_groupIds := Some gs\<rparr>" for gs d
    by (simp add: apply_patch_def groups_patch_def or_keep_def)
  moreover obtain gs where "ci_groupIds (ct_data c) = Some gs"
    using assms(3) by (cases "ci_groupIds (ct_data c)") (simp_all add: member_def)
  ultimately show ?thesis
    using assms(2,3) by (simp add: updateContact_def Let_def without_group_def group_list_def)
qed

lemma leave_group_effect:
  assumes "db_ok db" "distinct (map ct_id cs)" "\<forall>c \<in> set cs. os_get (db_contacts db) (ct_id c) = Some c"
  shows "\<exists>db'. leave_group now g cs db = (Resolved (), db') \<and> db_groups db' = db_groups db \<and>
    (\<forall>i. os_get (db_contacts db') i =
      (if i \<in> ct_id ` set cs then map_option (without_group now g) (os_get (db_contacts db) i)
       else os_get (db_contacts db) i))"
  using assms
proof (induction cs arbitrary: db)
  case (Cons c cs)
  let ?d = "if member g c
    then db\<lparr>db_contacts := os_put (ct_id c) (without_group now g c) (db_contacts db)\<rparr> else db"
  have step: "leave_group now g (c # cs) db = leave_group now g cs ?d"
    using update_groups [OF Cons.prems(1), of c g now] Cons.prems(3) by simp
  have ok: "db_ok ?d"
  proof (cases "member g c")
    case True
    with updateContact_ok [OF Cons.prems(1), of now "ct_id c"
        "groups_patch (filter (\<lambda>h. h \<noteq> g) (the (ci_groupIds (ct_data c))))"]
    show ?thesis using update_groups [OF Cons.prems(1), of c g now] Cons.prems(3) by simp
  qed (simp add: Cons.prems(1))
  have get: "os_get (db_contacts ?d) i =
      (if i = ct_id c then Some (without_group now g c) else os_get (db_contacts db) i)" for i
    using Cons.prems(3) by (auto simp: idb_get without_group_def)
  have "\<forall>e \<in> set cs. os_get (db_contacts ?d) (ct_id e) = Some e"
  proof
    fix e assume e: "e \<in> set cs"
    then have "ct_id e \<noteq> ct_id c" using Cons.prems(2) by (metis distinct.simps(2) image_eqI list.set_map list.simps(9))
    with e Cons.prems(3) show "os_get (db_contacts ?d) (ct_id e) = Some e" unfolding get by simp
  qed
  from Cons.IH [OF ok _ this] Cons.prems(2) obtain db' where
    db': "leave_group now g cs ?d = (Resolved (), db')" "db_groups db' = db_groups ?d"
    "\<And>i. os_get (db_contacts db') i =
      (if i \<in> ct_id ` set cs then map_option (without_group now g) (os_get (db_contacts ?d) i)
       else os_get (db_contacts ?d) i)" by auto
  have c: "os_get (db_contacts db) (ct_id c) = Some c" "ct_id c \<notin> ct_id ` set cs"
    using Cons.prems by simp_all
  show ?case
  proof (intro exI conjI allI)
    show "leave_group now g (c # cs) db = (Resolved (), db')" unfolding step by (rule db'(1))
    show "db_groups db' = db_groups db" unfolding db'(2) by simp
    show "os_get (db_contacts db') i =
      (if i \<in> ct_id ` set (c # cs) then map_option (without_group now g) (os_get (db_contacts db) i)
       else os_get (db_contacts db) i)" for i
      unfolding db'(3) get using c by (cases "i = ct_id c") simp_all
  qed
qed simp

text \<open>Deleting a group always completes and leaves no trace of it: the group is gone, every
other group stays, no contact lists it any more, and a contact changes only by losing it from its
list and being stamped.\<close>

lemma deleteGroup_effect:
  assumes "db_ok db"
  shows "\<exists>db'. deleteGroup cmp now g db = (Resolved (), db') \<and>
    os_get (db_groups db') = (os_get (db_groups db))(g := None) \<and>
    (\<forall>i. os_get (db_contacts db') i = map_option (without_group now g) (os_get (db_contacts db) i)) \<and>
    getContactsByGroup cmp g db' = []"
proof -
  let ?cs = "getAllContacts cmp db"
  have wf: "os_wf (db_contacts db)" and ids: "\<And>i c. os_get (db_contacts db) i = Some c \<Longrightarrow> ct_id c = i"
    using assms by (auto simp: db_ok_def contacts_ok_def)
  have set_cs: "set ?cs = ran (os_get (db_contacts db))"
    using values_get [OF wf] by (auto simp: getAllContacts_def name_order_def ran_def)
  have eq: "map ct_id (os_values (db_contacts db)) = map fst (db_contacts db)"
    using ids wf by (auto simp: os_get_iff)
  have "distinct (map ct_id (os_values (db_contacts db)))"
    unfolding eq using idb.all_distinct [OF wf] by (simp add: os_all_def)
  then have dist: "distinct (map ct_id ?cs)"
    by (subst mset_eq_imp_distinct_iff [of _ "map ct_id (os_values (db_contacts db))"])
      (simp_all only: mset_map getAllContacts_def name_order_def mset_js_sort)
  have "\<forall>c \<in> set ?cs. os_get (db_contacts db) (ct_id c) = Some c"
    using ids by (auto simp: set_cs ran_def)
  from leave_group_effect [OF assms dist this] obtain d where
    d: "leave_group now g ?cs db = (Resolved (), d)" "db_groups d = db_groups db"
    "\<And>i. os_get (db_contacts d) i =
      (if i \<in> ct_id ` set ?cs then map_option (without_group now g) (os_get (db_contacts db) i)
       else os_get (db_contacts db) i)" by blast
  have get: "os_get (db_contacts d) i = map_option (without_group now g) (os_get (db_contacts db) i)" for i
  proof (cases "os_get (db_contacts db) i")
    case (Some c)
    then have "i \<in> ct_id ` set ?cs" using ids [OF Some] by (auto simp: set_cs ran_def image_iff)
    then show ?thesis by (simp add: d(3))
  qed (simp add: d(3))
  have wf_d: "os_wf (db_contacts d)"
    using leave_group_ok [OF assms, of now g ?cs] d(1) by (simp add: db_ok_def contacts_ok_def)
  have "set (getAllContacts cmp d) = ran (os_get (db_contacts d))"
    by (simp only: getAllContacts_def name_order_def set_js_sort set_values [OF wf_d])
  moreover have "\<not> member g c" if "c \<in> ran (os_get (db_contacts d))" for c
    using that unfolding ran_def get by auto
  ultimately have "getContactsByGroup cmp g d = []"
    unfolding getContactsByGroup_def filter_empty_conv by blast
  then show ?thesis
    by (intro exI [of _ "d\<lparr>db_groups := os_del g (db_groups d)\<rparr>"])
      (simp add: deleteGroup_def d(1,2) get idb_get, simp add: getContactsByGroup_def getAllContacts_def)
qed

theorem deleteGroup_effect_example:
  "\<exists>db'. deleteGroup (\<lambda>a b. Fin 0) 5 1 (open_contacts_db 0 None False) = (Resolved (), db')"
  using deleteGroup_effect [OF open_ok] by blast

end
