(* ===== verification/EncryptedStore.thy ===== *)
theory EncryptedStore
  imports JsDict
begin

text \<open>
  \<open>frontend/lib/encryptedStorage.ts\<close>: the collection that is encrypted at rest. The state is
  the closure of \<open>createEncryptedStore\<close>: the decrypted cache, the session key and owner, the queue
  of background writes, and the browser's local storage, whose texts are kept parsed (a text that
  is no JSON reads as null, like an absent one). A queued write is a step of its own, because it
  lands after the call that queued it returned; the other calls are one step each. Encryption is a
  parameter, and so is what JSON makes of an item. The window is there (the code runs in the
  browser), and events carry no state.
\<close>

section \<open>Options and state\<close>

record ('a, 'k) store_options =
  op_storageKey :: string
  op_legacyKeys :: "string list"
  op_revive :: "jsval \<Rightarrow> 'a option"
  op_dedupe :: "('a list \<Rightarrow> 'a list) option"
  op_json :: "'a \<Rightarrow> jsval"
  op_encrypt :: "jsval \<Rightarrow> 'k \<Rightarrow> string option"   \<comment> \<open>\<open>None\<close>: rejected\<close>
  op_decrypt :: "string \<Rightarrow> 'k \<Rightarrow> jsval option"  \<comment> \<open>decrypted and parsed\<close>

record ('a, 'k) store_state =
  es_cache :: "'a list option"
  es_key :: "'k option"
  es_owner :: "string option"
  es_queue :: "('a list \<times> 'k \<times> string) list"
  es_local :: "(string, jsval) dict"

section \<open>Envelopes\<close>

definition ENVELOPE_VERSION :: int where
  "ENVELOPE_VERSION = 2"

definition envelope :: "string \<Rightarrow> string \<Rightarrow> jsval" where
  "envelope owner data =
     JObject [(''v'', JNumber (ms ENVELOPE_VERSION)), (''owner'', JString owner), (''data'', JString data)]"

definition isEnvelope :: "jsval \<Rightarrow> bool" where
  "isEnvelope value =
     (is_object value \<and> jprop value ''v'' = JNumber (ms ENVELOPE_VERSION) \<and>
      as_string (jprop value ''owner'') \<noteq> None \<and> as_string (jprop value ''data'') \<noteq> None)"

definition envelope_owner :: "jsval \<Rightarrow> string" where
  "envelope_owner raw = the (as_string (jprop raw ''owner''))"

definition envelope_data :: "jsval \<Rightarrow> string" where
  "envelope_data raw = the (as_string (jprop raw ''data''))"

section \<open>Helpers of the closure\<close>

definition reviveArray :: "('a, 'k) store_options \<Rightarrow> jsval \<Rightarrow> 'a list" where
  "reviveArray op raw = (case raw of JArray xs \<Rightarrow> List.map_filter (op_revive op) xs | _ \<Rightarrow> [])"

definition applyDedupe :: "('a, 'k) store_options \<Rightarrow> 'a list \<Rightarrow> 'a list" where
  "applyDedupe op items = (case op_dedupe op of None \<Rightarrow> items | Some d \<Rightarrow> d items)"

definition readRaw :: "string \<Rightarrow> ('a, 'k) store_state \<Rightarrow> jsval" where
  "readRaw k st = (case d_get (es_local st) k of None \<Rightarrow> JNull | Some v \<Rightarrow> v)"

definition readLegacyPlaintext :: "('a, 'k) store_options \<Rightarrow> ('a, 'k) store_state \<Rightarrow> 'a list" where
  "readLegacyPlaintext op st = concat (map (\<lambda>k. reviveArray op (readRaw k st)) (op_legacyKeys op))"

definition removeLegacy :: "('a, 'k) store_options \<Rightarrow> ('a, 'k) store_state \<Rightarrow> ('a, 'k) store_state" where
  "removeLegacy op st = st\<lparr>es_local := foldl (\<lambda>d k. d_delete k d) (es_local st) (op_legacyKeys op)\<rparr>"

definition persist ::
  "'a list \<Rightarrow> 'k \<Rightarrow> string \<Rightarrow> ('a, 'k) store_state \<Rightarrow> ('a, 'k) store_state" where
  "persist items key owner st = st\<lparr>es_queue := es_queue st @ [(items, key, owner)]\<rparr>"

text \<open>The write at the front of the queue; \<open>ok\<close> is whether the storage accepts it.\<close>

definition run_write ::
  "('a, 'k) store_options \<Rightarrow> bool \<Rightarrow> ('a, 'k) store_state \<Rightarrow> ('a, 'k) store_state" where
  "run_write op ok st =
     (case es_queue st of
        [] \<Rightarrow> st
      | (items, key, owner) # rest \<Rightarrow>
          (case op_encrypt op (JArray (map (op_json op) items)) key of
             None \<Rightarrow> st\<lparr>es_queue := rest\<rparr>
           | Some data \<Rightarrow>
               if ok then st\<lparr>es_queue := rest,
                             es_local := d_set (op_storageKey op) (envelope owner data) (es_local st)\<rparr>
               else st\<lparr>es_queue := rest\<rparr>))"

section \<open>Operations\<close>

definition load :: "('a, 'k) store_state \<Rightarrow> 'a list" where
  "load st = (case es_cache st of None \<Rightarrow> [] | Some items \<Rightarrow> items)"

definition save :: "'a list \<Rightarrow> ('a, 'k) store_state \<Rightarrow> ('a, 'k) store_state" where
  "save items st =
     (let st1 = st\<lparr>es_cache := Some items\<rparr>
      in case (es_key st1, es_owner st1) of
           (Some key, Some owner) \<Rightarrow> if owner \<noteq> [] then persist items key owner st1 else st1
         | _ \<Rightarrow> st1)"

definition unlock ::
  "('a, 'k) store_options \<Rightarrow> 'k \<Rightarrow> string \<Rightarrow> ('a, 'k) store_state \<Rightarrow> ('a, 'k) store_state" where
  "unlock op key owner st =
     (let st1 = st\<lparr>es_key := Some key, es_owner := Some owner\<rparr>;
          raw = readRaw (op_storageKey op) st1
      in if isEnvelope raw
         then (if envelope_owner raw = owner
               then (case op_decrypt op (envelope_data raw) key of
                       None \<Rightarrow> st1\<lparr>es_cache := Some (applyDedupe op (readLegacyPlaintext op st1))\<rparr>
                     | Some v \<Rightarrow>
                         (let legacy = readLegacyPlaintext op st1;
                              cache = applyDedupe op (reviveArray op v @ legacy);
                              st2 = st1\<lparr>es_cache := Some cache\<rparr>
                          in if length legacy > 0 then removeLegacy op (persist cache key owner st2)
                             else st2))
               else st1\<lparr>es_cache := Some (load st1)\<rparr>)
         else
           (let cache = applyDedupe op (reviveArray op raw @ readLegacyPlaintext op st1);
                st2 = st1\<lparr>es_cache := Some cache\<rparr>
            in if length cache > 0 then removeLegacy op (persist cache key owner st2) else st2))"

text \<open>\<open>reEncrypt\<close> waits for the queue, this write included.\<close>

fun run_writes :: "('a, 'k) store_options \<Rightarrow> nat \<Rightarrow> ('a, 'k) store_state \<Rightarrow> ('a, 'k) store_state" where
  "run_writes op 0 st = st"
| "run_writes op (Suc n) st = run_writes op n (run_write op True st)"

definition settle :: "('a, 'k) store_options \<Rightarrow> ('a, 'k) store_state \<Rightarrow> ('a, 'k) store_state" where
  "settle op st = run_writes op (length (es_queue st)) st"

definition reEncrypt ::
  "('a, 'k) store_options \<Rightarrow> 'k \<Rightarrow> string \<Rightarrow> ('a, 'k) store_state \<Rightarrow> ('a, 'k) store_state" where
  "reEncrypt op key owner st =
     (let st1 = st\<lparr>es_key := Some key, es_owner := Some owner\<rparr>
      in settle op (persist (load st1) key owner st1))"

definition lock :: "('a, 'k) store_state \<Rightarrow> ('a, 'k) store_state" where
  "lock st = st\<lparr>es_cache := None, es_key := None, es_owner := None\<rparr>"

definition clear :: "('a, 'k) store_options \<Rightarrow> ('a, 'k) store_state \<Rightarrow> ('a, 'k) store_state" where
  "clear op st =
     removeLegacy op (st\<lparr>es_cache := Some [], es_local := d_delete (op_storageKey op) (es_local st)\<rparr>)"

definition needsReEncryption :: "('a, 'k) store_options \<Rightarrow> string \<Rightarrow> ('a, 'k) store_state \<Rightarrow> bool" where
  "needsReEncryption op owner st =
     (let raw = readRaw (op_storageKey op) st in isEnvelope raw \<and> envelope_owner raw \<noteq> owner)"

definition new_store :: "(string, jsval) dict \<Rightarrow> ('a, 'k) store_state" where
  "new_store local = \<lparr>es_cache = None, es_key = None, es_owner = None, es_queue = [], es_local = local\<rparr>"

section \<open>The write queue\<close>

lemma envelope_reads [simp]:
  "isEnvelope (envelope owner data)" "envelope_owner (envelope owner data) = owner"
  "envelope_data (envelope owner data) = data"
  by (simp_all add: isEnvelope_def envelope_def envelope_owner_def envelope_data_def)

lemma run_write_frame [simp]:
  "es_cache (run_write op ok st) = es_cache st" "es_key (run_write op ok st) = es_key st"
  "es_owner (run_write op ok st) = es_owner st" "es_queue (run_write op ok st) = tl (es_queue st)"
  by (auto simp: run_write_def split: list.splits option.splits)

lemma run_writes_frame [simp]:
  "es_cache (run_writes op n st) = es_cache st" "es_key (run_writes op n st) = es_key st"
  "es_owner (run_writes op n st) = es_owner st" "es_queue (run_writes op n st) = drop n (es_queue st)"
  by (induction n arbitrary: st) (simp_all add: drop_Suc)

definition encrypts :: "('a, 'k) store_options \<Rightarrow> 'a list \<times> 'k \<times> string \<Rightarrow> jsval option" where
  "encrypts op w = (case w of (items, key, owner) \<Rightarrow>
     map_option (envelope owner) (op_encrypt op (JArray (map (op_json op) items)) key))"

text \<open>The last write of the queue wins, because the writes land in the order they were queued.\<close>

lemma settle_last:
  assumes "es_queue st = ws @ [w]" "encrypts op w = Some v"
  shows "d_get (es_local (settle op st)) (op_storageKey op) = Some v"
proof -
  have "d_get (es_local (run_writes op (length (es_queue st)) st)) (op_storageKey op) = Some v"
    if "es_queue st = ws @ [w]" for ws st
    using that
  proof (induction ws arbitrary: st)
    case Nil
    obtain items key owner where w: "w = (items, key, owner)" by (cases w) auto
    with assms(2) obtain data where "op_encrypt op (JArray (map (op_json op) items)) key = Some data"
      "v = envelope owner data" by (auto simp: encrypts_def)
    with Nil w show ?case by (simp add: run_write_def dict_get)
  next
    case (Cons w' ws)
    have "es_queue (run_write op True st) = ws @ [w]" using Cons.prems by simp
    from Cons.IH [OF this] show ?case by (simp add: Cons.prems)
  qed
  with assms(1) show ?thesis by (simp add: settle_def)
qed

lemma settle_frame [simp]:
  "es_cache (settle op st) = es_cache st" "es_key (settle op st) = es_key st"
  "es_owner (settle op st) = es_owner st" "es_queue (settle op st) = []"
  by (simp_all add: settle_def)

text \<open>What a session relies on: what was encrypted under a key decrypts under it, and what an
item's JSON reads back as is the item.\<close>

definition decrypts :: "('a, 'k) store_options \<Rightarrow> 'k \<Rightarrow> 'a list \<Rightarrow> bool" where
  "decrypts op key items =
     (\<exists>data. op_encrypt op (JArray (map (op_json op) items)) key = Some data \<and>
        op_decrypt op data key = Some (JArray (map (op_json op) items)))"

definition survives :: "('a, 'k) store_options \<Rightarrow> 'a list \<Rightarrow> bool" where
  "survives op items =
     ((\<forall>i \<in> set items. op_revive op (op_json op i) = Some i) \<and> applyDedupe op items = items)"

lemma reviveArray_json:
  "survives op items \<Longrightarrow> reviveArray op (JArray (map (op_json op) items)) = items"
proof -
  assume "survives op items"
  then have "\<forall>i \<in> set items. op_revive op (op_json op i) = Some i" by (simp add: survives_def)
  then have "List.map_filter (op_revive op) (map (op_json op) items) = items"
    by (induction items) (simp_all add: List.map_filter_simps)
  then show ?thesis by (simp add: reviveArray_def)
qed

lemma unlock_after_write:
  assumes "d_get (es_local st) (op_storageKey op) = Some (envelope owner data)"
    and "op_decrypt op data key = Some (JArray (map (op_json op) items))"
    and "survives op items" "op_legacyKeys op = []"
  shows "load (unlock op key owner st) = items"
proof -
  have raw: "readRaw (op_storageKey op) (st\<lparr>es_key := Some key, es_owner := Some owner\<rparr>) = envelope owner data"
    using assms(1) by (simp add: readRaw_def)
  have "readLegacyPlaintext op st' = []" for st' :: "('a, 'b) store_state"
    by (simp add: readLegacyPlaintext_def assms(4))
  with assms raw show ?thesis
    by (simp add: unlock_def Let_def load_def reviveArray_json) (simp add: survives_def)
qed

lemma session_roundtrip:
  assumes "es_key st = Some key" "es_owner st = Some owner" "owner \<noteq> []"
    and "decrypts op key items" "survives op items" "op_legacyKeys op = []"
  shows "load (unlock op key owner (lock (settle op (save items st)))) = items"
proof -
  obtain data where data: "op_encrypt op (JArray (map (op_json op) items)) key = Some data"
    "op_decrypt op data key = Some (JArray (map (op_json op) items))"
    using assms(4) by (auto simp: decrypts_def)
  have "es_queue (save items st) = es_queue st @ [(items, key, owner)]"
    using assms(1-3) by (simp add: save_def persist_def)
  then have "d_get (es_local (settle op (save items st))) (op_storageKey op) = Some (envelope owner data)"
    by (rule settle_last) (simp add: encrypts_def data)
  then show ?thesis
    by (intro unlock_after_write [OF _ data(2) assms(5,6)]) (simp add: lock_def)
qed

text \<open>C22. What was saved last in an unlocked session is what the next session of the same wallet
loads: once the queued writes have landed, locking and unlocking gives it back, whatever was
stored or queued before.\<close>

theorem saved_items_return:
  assumes "es_key st = Some key" "es_owner st = Some owner" "owner \<noteq> []"
    and "decrypts op key items" "survives op items" "op_legacyKeys op = []"
  shows "load (unlock op key owner (lock (settle op (save items st)))) = items"
  using assms by (rule session_roundtrip)

section \<open>Two ways to lose control of the data\<close>

text \<open>Clearing does not cancel a queued write: when a save is still being encrypted, clearing
empties the cache and removes the stored text, the write then puts the envelope back, and the next
session of the wallet loads everything that was cleared.\<close>

lemma cleared_items_return:
  assumes "es_key st = Some key" "es_owner st = Some owner" "owner \<noteq> []"
    and "decrypts op key items" "survives op items" "op_legacyKeys op = []"
  shows "load (clear op (save items st)) = [] \<and>
    load (unlock op key owner (lock (settle op (clear op (save items st))))) = items"
proof -
  obtain data where data: "op_encrypt op (JArray (map (op_json op) items)) key = Some data"
    "op_decrypt op data key = Some (JArray (map (op_json op) items))"
    using assms(4) by (auto simp: decrypts_def)
  have "es_queue (clear op (save items st)) = es_queue st @ [(items, key, owner)]"
    using assms(1-3) by (simp add: save_def persist_def clear_def removeLegacy_def)
  then have "d_get (es_local (settle op (clear op (save items st)))) (op_storageKey op) =
      Some (envelope owner data)"
    by (rule settle_last) (simp add: encrypts_def data)
  then have "load (unlock op key owner (lock (settle op (clear op (save items st))))) = items"
    by (intro unlock_after_write [OF _ data(2) assms(5,6)]) (simp add: lock_def)
  then show ?thesis
    by (simp add: clear_def removeLegacy_def load_def)
qed

text \<open>A second wallet overwrites the first one's data: after unlocking with another owner the
collection looks empty, and the first save replaces the stored envelope, so the first wallet then
finds an envelope that is not its own and loads nothing.\<close>

lemma other_wallet_overwrites:
  assumes "readRaw (op_storageKey op) st = envelope owner old" "es_cache st = None"
    and "owner' \<noteq> owner" "owner' \<noteq> []" "decrypts op key' items"
  shows "load (unlock op key' owner' st) = [] \<and>
    load (unlock op key owner (lock (settle op (save items (unlock op key' owner' st))))) = []"
proof -
  obtain data where data: "op_encrypt op (JArray (map (op_json op) items)) key' = Some data"
    using assms(5) by (auto simp: decrypts_def)
  have raw: "readRaw (op_storageKey op) (st\<lparr>es_key := Some key', es_owner := Some owner'\<rparr>) = envelope owner old"
    using assms(1) by (simp add: readRaw_def)
  have u: "unlock op key' owner' st = st\<lparr>es_key := Some key', es_owner := Some owner', es_cache := Some []\<rparr>"
    using raw assms(2,3) by (simp add: unlock_def Let_def load_def)
  have "es_queue (save items (unlock op key' owner' st)) = es_queue st @ [(items, key', owner')]"
    using assms(4) by (simp add: u save_def persist_def)
  then have "d_get (es_local (settle op (save items (unlock op key' owner' st)))) (op_storageKey op) =
      Some (envelope owner' data)"
    by (rule settle_last) (simp add: encrypts_def data)
  then show ?thesis
    using assms(3) by (simp add: u) (simp add: unlock_def Let_def readRaw_def lock_def load_def)
qed

text \<open>An instance to run: items are strings, and the cipher writes the key in front.\<close>

definition sample_options :: "(string, char) store_options" where
  "sample_options = \<lparr>op_storageKey = ''k'', op_legacyKeys = [], op_revive = as_string, op_dedupe = None,
     op_json = JString, op_encrypt = (\<lambda>v k. case v of JArray [JString s] \<Rightarrow> Some (k # s) | _ \<Rightarrow> None),
     op_decrypt = (\<lambda>s k. if s \<noteq> [] \<and> hd s = k then Some (JArray [JString (tl s)]) else None)\<rparr>"

definition sample_session :: "(string, char) store_state" where
  "sample_session = (new_store [])\<lparr>es_key := Some CHR ''k'', es_owner := Some ''GA''\<rparr>"

lemma sample_session_ok:
  "es_key sample_session = Some CHR ''k''" "es_owner sample_session = Some ''GA''"
  "decrypts sample_options k [s]" "survives sample_options [s]" "op_legacyKeys sample_options = []"
  by (simp_all add: sample_session_def new_store_def decrypts_def sample_options_def survives_def applyDedupe_def)

theorem saved_items_return_witness:
  "load (unlock sample_options CHR ''k'' ''GA'' (lock (settle sample_options (save [''bob''] sample_session)))) = [''bob'']"
  by (rule saved_items_return) (simp_all add: sample_session_ok)

theorem cleared_items_return_example:
  "load (unlock sample_options CHR ''k'' ''GA''
     (lock (settle sample_options (clear sample_options (save [''bob''] sample_session))))) = [''bob'']"
  by (rule cleared_items_return [THEN conjunct2]) (simp_all add: sample_session_ok)

theorem other_wallet_overwrites_example:
  "load (unlock sample_options CHR ''a'' ''GA'' (lock (settle sample_options (save [''eve'']
     (unlock sample_options CHR ''b'' ''GB'' (new_store [(''k'', envelope ''GA'' ''abob'')])))))) = []"
  by (rule other_wallet_overwrites [THEN conjunct2])
    (simp_all add: sample_session_ok readRaw_def new_store_def sample_options_def d_get_def decrypts_def)

end
