(* ===== verification/SavedData.thy ===== *)
theory SavedData
  imports EncryptedStore ContactsFile JsNet
begin

text \<open>
  The clients of the encrypted store: \<open>frontend/lib/addressBook.ts\<close> (contacts and the federation
  cache) and \<open>frontend/lib/paymentTemplates.ts\<close>. Each gives the store how an item is revived and
  deduplicated; the three deduplications are one interface.
\<close>

section \<open>Deduplication\<close>

text \<open>\<open>items.filter\<close> with a set of the keys seen so far.\<close>

fun unseen :: "('a \<Rightarrow> 'b) \<Rightarrow> 'b list \<Rightarrow> 'a list \<Rightarrow> 'a list" where
  "unseen key seen [] = []"
| "unseen key seen (x # xs) =
     (if key x \<in> set seen then unseen key seen xs else x # unseen key (key x # seen) xs)"

locale first_wins =
  fixes key :: "'a \<Rightarrow> 'b" and dedupe :: "'a list \<Rightarrow> 'a list"
  assumes dedupe_distinct: "distinct (map key (dedupe xs))"
    and dedupe_first: "List.find (\<lambda>x. key x = k) (dedupe xs) = List.find (\<lambda>x. key x = k) xs"
    and dedupe_subset: "set (dedupe xs) \<subseteq> set xs"
    and dedupe_fixed: "distinct (map key xs) \<Longrightarrow> dedupe xs = xs"
begin

lemma dedupe_idem [simp]: "dedupe (dedupe xs) = dedupe xs"
  by (rule dedupe_fixed) (rule dedupe_distinct)

lemma dedupe_keys: "key ` set (dedupe xs) = key ` set xs"
proof
  show "key ` set (dedupe xs) \<subseteq> key ` set xs" using dedupe_subset by blast
  show "key ` set xs \<subseteq> key ` set (dedupe xs)"
  proof
    fix k assume "k \<in> key ` set xs"
    then have "List.find (\<lambda>x. key x = k) xs \<noteq> None" by (auto simp: find_None_iff)
    then have "List.find (\<lambda>x. key x = k) (dedupe xs) \<noteq> None" by (simp add: dedupe_first)
    then show "k \<in> key ` set (dedupe xs)" by (auto simp: find_None_iff)
  qed
qed

end

lemma unseen_keys: "distinct (map key (unseen key seen xs)) \<and> key ` set (unseen key seen xs) \<inter> set seen = {}"
proof (induction xs arbitrary: seen)
  case (Cons x xs)
  from Cons [of seen] Cons [of "key x # seen"] show ?case by auto
qed simp

lemma unseen_find: "k \<notin> set seen \<Longrightarrow> List.find (\<lambda>x. key x = k) (unseen key seen xs) = List.find (\<lambda>x. key x = k) xs"
  by (induction xs arbitrary: seen) auto

lemma unseen_subset: "set (unseen key seen xs) \<subseteq> set xs"
  by (induction xs arbitrary: seen) (auto split: if_splits)

lemma unseen_fixed: "distinct (map key xs) \<Longrightarrow> key ` set xs \<inter> set seen = {} \<Longrightarrow> unseen key seen xs = xs"
  by (induction xs arbitrary: seen) auto

lemmas unseen_first_wins = unseen_keys unseen_find unseen_subset unseen_fixed

section \<open>The address book\<close>

record book_contact =
  ab_id :: string
  ab_nickname :: string
  ab_address :: string
  ab_createdAt :: jsnum
  ab_updatedAt :: jsnum

definition trimmed_string :: "jsval \<Rightarrow> string" where
  "trimmed_string v = (case v of JString s \<Rightarrow> trim s | _ \<Rightarrow> [])"

definition number_or :: "jsnum \<Rightarrow> jsval \<Rightarrow> jsnum" where
  "number_or d v = (case v of JNumber n \<Rightarrow> n | _ \<Rightarrow> d)"

definition makeContact :: "int \<Rightarrow> jsval \<Rightarrow> book_contact option" where
  "makeContact now raw =
     (let i = trimmed_string (jprop raw ''id'');
          nickname = trimmed_string (jprop raw ''nickname'');
          address = trimmed_string (jprop raw ''address'')
      in if i = [] \<or> nickname = [] \<or> \<not> isValidStellarAddress address then None
         else Some \<lparr>ab_id = i, ab_nickname = nickname, ab_address = address,
                    ab_createdAt = number_or (ms now) (jprop raw ''createdAt''),
                    ab_updatedAt = number_or (ms now) (jprop raw ''updatedAt'')\<rparr>)"

definition dedupeContacts :: "book_contact list \<Rightarrow> book_contact list" where
  "dedupeContacts items = unseen ab_id [] items"

definition contact_js :: "book_contact \<Rightarrow> jsval" where
  "contact_js c = JObject [(''id'', JString (ab_id c)), (''nickname'', JString (ab_nickname c)),
     (''address'', JString (ab_address c)), (''createdAt'', JNumber (ab_createdAt c)),
     (''updatedAt'', JNumber (ab_updatedAt c))]"

definition ADDRESS_BOOK_KEY :: string where
  "ADDRESS_BOOK_KEY = ''finchippay:address-book''"

definition address_book ::
  "(jsval \<Rightarrow> 'k \<Rightarrow> string option) \<Rightarrow> (string \<Rightarrow> 'k \<Rightarrow> jsval option) \<Rightarrow> int \<Rightarrow> (book_contact, 'k) store_options" where
  "address_book encrypt decrypt now =
     \<lparr>op_storageKey = ADDRESS_BOOK_KEY, op_legacyKeys = [], op_revive = makeContact now,
      op_dedupe = Some dedupeContacts, op_json = contact_js, op_encrypt = encrypt, op_decrypt = decrypt\<rparr>"

definition loadAddressBookContacts :: "(book_contact, 'k) store_state \<Rightarrow> book_contact list" where
  "loadAddressBookContacts st = load st"

definition saveAddressBookContacts ::
  "book_contact list \<Rightarrow> (book_contact, 'k) store_state \<Rightarrow> (book_contact, 'k) store_state" where
  "saveAddressBookContacts contacts st = save contacts st"

section \<open>The federation cache\<close>

record federation_entry =
  fe_federationAddress :: string
  fe_address :: string
  fe_resolvedAt :: jsnum

definition FEDERATION_CACHE_KEY :: string where
  "FEDERATION_CACHE_KEY = ''finchippay:federation-cache''"

definition FEDERATION_CACHE_TTL_MS :: int where
  "FEDERATION_CACHE_TTL_MS = 24 * 60 * 60 * 1000"

definition normaliseFederationAddress :: "string \<Rightarrow> string" where
  "normaliseFederationAddress address = to_lower (trim address)"

definition makeFederationEntry :: "int \<Rightarrow> jsval \<Rightarrow> federation_entry option" where
  "makeFederationEntry now input =
     (let federationAddress =
            (case jprop input ''federationAddress'' of JString s \<Rightarrow> normaliseFederationAddress s | _ \<Rightarrow> []);
          address = trimmed_string (jprop input ''address'')
      in if federationAddress = [] \<or> \<not> isValidStellarAddress address then None
         else Some \<lparr>fe_federationAddress = federationAddress, fe_address = address,
                    fe_resolvedAt = number_or (ms now) (jprop input ''resolvedAt'')\<rparr>)"

definition dedupeFederationEntries :: "federation_entry list \<Rightarrow> federation_entry list" where
  "dedupeFederationEntries entries = unseen fe_federationAddress [] entries"

definition getCachedFederationAddress ::
  "int \<Rightarrow> string \<Rightarrow> (federation_entry, 'k) store_state \<Rightarrow> string option" where
  "getCachedFederationAddress now federationAddress st =
     (let key = normaliseFederationAddress federationAddress
      in case List.find (\<lambda>item. fe_federationAddress item = key) (load st) of
           None \<Rightarrow> None
         | Some entry \<Rightarrow>
             if num_less (ms FEDERATION_CACHE_TTL_MS) (num_sub (ms now) (fe_resolvedAt entry)) then None
             else Some (fe_address entry))"

definition setCachedFederationAddress ::
  "int \<Rightarrow> string \<Rightarrow> string \<Rightarrow> (federation_entry, 'k) store_state \<Rightarrow> (federation_entry, 'k) store_state" where
  "setCachedFederationAddress now federationAddress stellarAddress st =
     (let key = normaliseFederationAddress federationAddress
      in case makeFederationEntry now (JObject [(''federationAddress'', JString key),
                (''address'', JString stellarAddress), (''resolvedAt'', JNumber (ms now))]) of
           None \<Rightarrow> st
         | Some entry \<Rightarrow>
             save (entry # filter (\<lambda>item. fe_federationAddress item \<noteq> key) (load st)) st)"

text \<open>The federation server's answer is an argument; \<open>None\<close> where fetching or parsing throws.\<close>

definition resolveFederationWithCache ::
  "int \<Rightarrow> int \<Rightarrow> jsval option \<Rightarrow> string \<Rightarrow> (federation_entry, 'k) store_state
     \<Rightarrow> string option \<times> (federation_entry, 'k) store_state" where
  "resolveFederationWithCache now later answer federationAddress st =
     (case getCachedFederationAddress now federationAddress st of
        Some cached \<Rightarrow> (Some cached, st)
      | None \<Rightarrow>
          (case answer of
             None \<Rightarrow> (None, st)
           | Some data \<Rightarrow>
               (case jprop data ''account_id'' of
                  JString a \<Rightarrow>
                    if isValidStellarAddress a
                    then (Some a, setCachedFederationAddress later federationAddress a st)
                    else (None, st)
                | _ \<Rightarrow> (None, st))))"

section \<open>Payment templates\<close>

record payment_template =
  pt_id :: jsval
  pt_label :: string
  pt_destination :: "string option"
  pt_amount :: "string option"
  pt_assetCode :: "string option"
  pt_memo :: "string option"
  pt_createdAt :: jsnum
  pt_updatedAt :: jsnum

definition optionalString :: "jsval \<Rightarrow> string option" where
  "optionalString value =
     (case value of
        JString s \<Rightarrow> if trim s \<noteq> [] then Some (trim s) else None
      | _ \<Rightarrow> None)"

text \<open>\<open>fresh\<close> is the id made from the time and a random number.\<close>

definition makeTemplate :: "string \<Rightarrow> int \<Rightarrow> jsval \<Rightarrow> payment_template option" where
  "makeTemplate fresh now raw =
     (let label = trimmed_string (jprop raw ''label'')
      in if label = [] then None
         else Some \<lparr>pt_id = or_else (jprop raw ''id'') (JString fresh), pt_label = label,
           pt_destination = optionalString (jprop raw ''destination''),
           pt_amount = optionalString (jprop raw ''amount''),
           pt_assetCode = optionalString (jprop raw ''assetCode''),
           pt_memo = optionalString (jprop raw ''memo''),
           pt_createdAt = number_or (ms now) (jprop raw ''createdAt''),
           pt_updatedAt = number_or (ms now) (jprop raw ''updatedAt'')\<rparr>)"

definition dedupeTemplates :: "payment_template list \<Rightarrow> payment_template list" where
  "dedupeTemplates templates = unseen pt_id [] templates"

definition option_js :: "string option \<Rightarrow> jsval" where
  "option_js x = (case x of None \<Rightarrow> JUndefined | Some s \<Rightarrow> JString s)"

definition template_fields :: "payment_template \<Rightarrow> (string \<times> jsval) list" where
  "template_fields t = [(''id'', pt_id t), (''label'', JString (pt_label t)),
     (''destination'', option_js (pt_destination t)), (''amount'', option_js (pt_amount t)),
     (''assetCode'', option_js (pt_assetCode t)), (''memo'', option_js (pt_memo t)),
     (''createdAt'', JNumber (pt_createdAt t)), (''updatedAt'', JNumber (pt_updatedAt t))]"

text \<open>The spread \<open>{...a, ...b}\<close>.\<close>

definition spread :: "(string \<times> jsval) list \<Rightarrow> (string \<times> jsval) list \<Rightarrow> (string \<times> jsval) list" where
  "spread a b = foldl (\<lambda>d (k, v). d_set k v d) a b"

text \<open>An empty label throws (\<open>Inl\<close>).\<close>

definition upsertPaymentTemplate ::
  "string \<Rightarrow> int \<Rightarrow> (string \<times> jsval) list \<Rightarrow> (payment_template, 'k) store_state
     \<Rightarrow> string + payment_template list \<times> (payment_template, 'k) store_state" where
  "upsertPaymentTemplate fresh now input st =
     (if trimmed_string (jprop (JObject input) ''label'') = []
      then Inl ''Enter a label for this template.''
      else
        (let templates = load st;
             i = jprop (JObject input) ''id'';
             existingIndex = (if truthy i then find_index (\<lambda>t. pt_id t = i) templates else None);
             templates' =
               (case existingIndex of
                  Some n \<Rightarrow>
                    (case makeTemplate fresh now (JObject (spread (spread (template_fields (templates ! n)) input)
                            [(''updatedAt'', JNumber (ms now))])) of
                       None \<Rightarrow> templates
                     | Some t \<Rightarrow> templates[n := t])
                | None \<Rightarrow>
                    (case makeTemplate fresh now (JObject (spread input
                            [(''createdAt'', JNumber (ms now)), (''updatedAt'', JNumber (ms now))])) of
                       None \<Rightarrow> templates
                     | Some t \<Rightarrow> t # templates))
         in Inr (templates', save templates' st)))"

definition deletePaymentTemplate ::
  "jsval \<Rightarrow> (payment_template, 'k) store_state \<Rightarrow> payment_template list \<times> (payment_template, 'k) store_state" where
  "deletePaymentTemplate i st =
     (let templates = filter (\<lambda>t. pt_id t \<noteq> i) (load st) in (templates, save templates st))"

section \<open>The interface instances\<close>

interpretation book: first_wins ab_id dedupeContacts
  unfolding dedupeContacts_def by unfold_locales (simp_all add: unseen_first_wins)

interpretation federation: first_wins fe_federationAddress dedupeFederationEntries
  unfolding dedupeFederationEntries_def by unfold_locales (simp_all add: unseen_first_wins)

interpretation templates: first_wins pt_id dedupeTemplates
  unfolding dedupeTemplates_def by unfold_locales (simp_all add: unseen_first_wins)

lemma load_save [simp]: "load (save items st) = items"
  by (auto simp: save_def load_def persist_def Let_def split: option.splits)

section \<open>The federation cache answers\<close>

lemma is_space_code: "is_space c \<longleftrightarrow> of_char c \<in> {9::nat, 10, 11, 12, 13, 32, 160}"
proof -
  have eq: "c = d \<longleftrightarrow> (of_char c :: nat) = of_char d" for d by simp
  show ?thesis by (simp add: is_space_def eq del: of_char_eq_iff)
qed

lemma lower_char_code: "of_char (lower_char c) =
    (let n = of_char c :: nat
     in if (65 \<le> n \<and> n \<le> 90) \<or> (192 \<le> n \<and> n \<le> 222 \<and> n \<noteq> 215) then n + 32 else n)"
  by (auto simp: lower_char_def Let_def)

lemma is_space_lower [simp]: "is_space (lower_char c) = is_space c"
  by (auto simp: is_space_code lower_char_code Let_def)

lemma trim_to_lower: "trim (to_lower s) = to_lower (trim s)"
  by (simp add: trim_def trim_left_def to_lower_def dropWhile_map comp_def rev_map)

lemma normalise_idem [simp]:
  "normaliseFederationAddress (normaliseFederationAddress a) = normaliseFederationAddress a"
  by (simp add: normaliseFederationAddress_def trim_to_lower) (simp add: to_lower_def)

lemma find_other:
  "k \<noteq> key \<Longrightarrow> List.find (\<lambda>x. f x = k) (filter (\<lambda>x. f x \<noteq> key) xs) = List.find (\<lambda>x. f x = k) xs"
  by (induction xs) auto

text \<open>A resolution is remembered for a day and for no other name: after storing a valid
address, every spelling of the same name (case, surrounding space) resolves to it until 24 hours
have passed and to nothing afterwards, while every other name resolves as before.\<close>

lemma federation_cache_answers:
  assumes "normaliseFederationAddress name \<noteq> []" and "isValidStellarAddress (trim address)"
  shows "getCachedFederationAddress later other (setCachedFederationAddress t name address st) =
    (if normaliseFederationAddress other = normaliseFederationAddress name
     then if later - t > FEDERATION_CACHE_TTL_MS then None else Some (trim address)
     else getCachedFederationAddress later other st)"
proof -
  have diff: "num_sub (ms later) (ms t) = ms (later - t)" by simp
  show ?thesis
    using assms
    by (simp add: setCachedFederationAddress_def makeFederationEntry_def trimmed_string_def number_or_def
        getCachedFederationAddress_def Let_def find_other diff del: num_sub.simps of_int_diff)
qed

definition sample_address :: string where
  "sample_address = CHR ''G'' # replicate 55 CHR ''A''"

theorem federation_cache_answers_example:
  "getCachedFederationAddress 100 ''BOB*x.org''
     (setCachedFederationAddress 0 ''bob*x.org'' sample_address (new_store [])) = Some sample_address"
proof -
  have trimmed: "trim sample_address = sample_address"
    by (simp add: sample_address_def trim_def trim_left_def is_space_def numeral_eq_Suc)
  have "isValidStellarAddress (trim sample_address)"
    unfolding trimmed
    by (simp add: sample_address_def isValidStellarAddress_def upper_or_digit_def list_all_iff)
  moreover have "normaliseFederationAddress ''bob*x.org'' \<noteq> []"
    "normaliseFederationAddress ''BOB*x.org'' = normaliseFederationAddress ''bob*x.org''"
    by code_simp+
  ultimately show ?thesis
    using federation_cache_answers [of "''bob*x.org''" sample_address 100 "''BOB*x.org''" 0 "new_store []"]
    by (simp add: trimmed FEDERATION_CACHE_TTL_MS_def)
qed

section \<open>Templates\<close>

text \<open>An update keeps the place of the template and every other template.\<close>

lemma find_index_Some: "find_index P xs = Some n \<Longrightarrow> n < length xs \<and> P (xs ! n)"
  by (induction xs arbitrary: n) (auto split: if_splits)

lemma upsert_in_place:
  assumes "upsertPaymentTemplate fresh now input st = Inr (ts, st')"
    and "find_index (\<lambda>t. pt_id t = jprop (JObject input) ''id'') (load st) = Some n"
    and "truthy (jprop (JObject input) ''id'')"
  shows "load st' = ts \<and> length ts = length (load st) \<and> (\<forall>m. m \<noteq> n \<longrightarrow> ts ! m = load st ! m)"
  using assms by (auto simp: upsertPaymentTemplate_def Let_def split: if_splits option.splits)

lemma delete_template: "load (snd (deletePaymentTemplate i st)) = filter (\<lambda>t. pt_id t \<noteq> i) (load st)"
  by (simp add: deletePaymentTemplate_def Let_def)

section \<open>The address book survives\<close>

lemma book_survives:
  assumes "\<forall>c \<in> set cs. makeContact now (contact_js c) = Some c" "distinct (map ab_id cs)"
  shows "survives (address_book enc dec now) cs"
  using assms book.dedupe_fixed [of cs]
  by (simp add: survives_def address_book_def applyDedupe_def)

lemma makeContact_json:
  assumes "makeContact t raw = Some c"
  shows "makeContact now (contact_js c) = Some c"
proof -
  have "ab_id c \<noteq> []" "trim (ab_id c) = ab_id c" "ab_nickname c \<noteq> []" "trim (ab_nickname c) = ab_nickname c"
    "isValidStellarAddress (ab_address c)" "trim (ab_address c) = ab_address c"
    using assms by (auto simp: makeContact_def trimmed_string_def Let_def split: if_splits jsval.splits)
  then show ?thesis by (simp add: makeContact_def contact_js_def trimmed_string_def number_or_def)
qed

text \<open>Contacts that were ever read from storage, with distinct ids, are loaded unchanged by the next
session of the wallet after they were saved.\<close>

lemma address_book_roundtrip:
  assumes "es_key st = Some key" "es_owner st = Some owner" "owner \<noteq> []"
    and "decrypts (address_book enc dec now) key cs"
    and "\<forall>c \<in> set cs. \<exists>t raw. makeContact t raw = Some c" "distinct (map ab_id cs)"
  shows "loadAddressBookContacts (unlock (address_book enc dec now) key owner (lock
      (settle (address_book enc dec now) (saveAddressBookContacts cs st)))) = cs"
proof -
  have ok: "survives (address_book enc dec now) cs"
    using assms(5,6) makeContact_json by (intro book_survives) blast+
  show ?thesis
    unfolding loadAddressBookContacts_def saveAddressBookContacts_def
    by (rule session_roundtrip [OF assms(1-4) ok]) (simp add: address_book_def)
qed

end
