(* ===== verification/Portfolio.thy ===== *)
theory Portfolio
  imports JsDict JsNet "HOL-Library.List_Lexorder" "HOL-Library.Char_ord"
begin

text \<open>
  \<open>frontend/lib/portfolio.ts\<close>: the custom tokens, the fiat preference, the price snapshots with
  their five-minute cache, and the daily value history with the profit and loss computed from it.
  What local storage holds under a key is absent, no JSON, or a value; writes succeed. The Date
  arithmetic gives the day keys, which are arguments; the profit is computed on exact numbers,
  where the program rounds to doubles. The holdings of an account come from the network and the
  SDK and are left out.
\<close>

section \<open>Custom tokens\<close>

datatype stored_text = Absent | NoJson | Json jsval

record custom_token =
  tk_contractId :: string
  tk_addedAt :: jsnum

definition CUSTOM_TOKENS_STORAGE_VERSION :: int where
  "CUSTOM_TOKENS_STORAGE_VERSION = 1"

definition base32_char :: "char \<Rightarrow> bool" where
  "base32_char c =
     (let n = of_char c :: nat in (65 \<le> n \<and> n \<le> 90) \<or> (50 \<le> n \<and> n \<le> 55))"

definition isValidContractId :: "string \<Rightarrow> bool" where
  "isValidContractId i = (length i = 56 \<and> hd i = CHR ''C'' \<and> list_all base32_char (tl i))"

definition num_nonneg :: "jsnum \<Rightarrow> bool" where
  "num_nonneg n = (case n of Fin r \<Rightarrow> r \<ge> 0 | _ \<Rightarrow> False)"

text \<open>\<open>prim\<close> converts an object to a number, as in \<open>number_of\<close>.\<close>

definition reviveCustomToken :: "(jsval \<Rightarrow> jsnum) \<Rightarrow> jsval \<Rightarrow> custom_token option" where
  "reviveCustomToken prim value =
     (case value of
        JObject fs \<Rightarrow>
          (let contractId = (case jprop value ''contractId'' of JString s \<Rightarrow> trim s | _ \<Rightarrow> []);
               addedAt = number_of prim (jprop value ''addedAt'')
           in if \<not> isValidContractId contractId then None
              else Some \<lparr>tk_contractId = contractId,
                tk_addedAt = (if num_nonneg addedAt then addedAt else Fin 0)\<rparr>)
      | _ \<Rightarrow> None)"

definition token_js :: "custom_token \<Rightarrow> jsval" where
  "token_js t = JObject [(''contractId'', JString (tk_contractId t)), (''addedAt'', JNumber (tk_addedAt t))]"

definition token_payload :: "custom_token list \<Rightarrow> jsval" where
  "token_payload ts = JObject [(''version'', JNumber (ms CUSTOM_TOKENS_STORAGE_VERSION)),
     (''tokens'', JArray (map token_js ts))]"

definition saveCustomTokens :: "custom_token list \<Rightarrow> stored_text" where
  "saveCustomTokens ts = Json (token_payload ts)"

definition isCurrentTokenPayload :: "jsval \<Rightarrow> custom_token list \<Rightarrow> bool" where
  "isCurrentTokenPayload value ts =
     (case value of
        JObject fs \<Rightarrow> jprop value ''version'' = JNumber (ms CUSTOM_TOKENS_STORAGE_VERSION) \<and>
          jprop value ''tokens'' = JArray (map token_js ts)
      | _ \<Rightarrow> False)"

text \<open>\<open>new Map(...).values()\<close>: one value a key, the last one, at the place of the first.\<close>

definition dedupe_tokens :: "custom_token list \<Rightarrow> custom_token list" where
  "dedupe_tokens ts = map snd (d_entries (foldl (\<lambda>m t. d_set (tk_contractId t) t m) [] ts))"

definition token_source :: "jsval \<Rightarrow> jsval list" where
  "token_source parsed =
     (case parsed of
        JArray xs \<Rightarrow> xs
      | _ \<Rightarrow> if jprop parsed ''version'' = JNumber (ms CUSTOM_TOKENS_STORAGE_VERSION)
            then (case jprop parsed ''tokens'' of JArray xs \<Rightarrow> xs | _ \<Rightarrow> []) else [])"

text \<open>Reading a property of a stored \<open>null\<close> throws, which resets the list.\<close>

definition loadCustomTokens :: "(jsval \<Rightarrow> jsnum) \<Rightarrow> stored_text \<Rightarrow> custom_token list \<times> stored_text" where
  "loadCustomTokens prim ls =
     (case ls of
        Absent \<Rightarrow> ([], ls)
      | NoJson \<Rightarrow> ([], saveCustomTokens [])
      | Json parsed \<Rightarrow>
          if parsed = JNull then ([], saveCustomTokens [])
          else
            (let source = token_source parsed;
                 deduped = dedupe_tokens (List.map_filter (reviveCustomToken prim) source);
                 shouldPersist = (\<not> (\<exists>xs. parsed = JArray xs) \<and> length source = 0) \<or>
                   \<not> isCurrentTokenPayload parsed deduped
             in (deduped, if shouldPersist then saveCustomTokens deduped else ls)))"

definition addCustomToken ::
  "(jsval \<Rightarrow> jsnum) \<Rightarrow> int \<Rightarrow> string \<Rightarrow> stored_text \<Rightarrow> (string + custom_token list) \<times> stored_text" where
  "addCustomToken prim now contractId ls =
     (let trimmed = trim contractId in
      if \<not> isValidContractId trimmed then (Inl ''Invalid Soroban contract ID'', ls)
      else
        (case loadCustomTokens prim ls of
           (existing, ls1) \<Rightarrow>
             if list_ex (\<lambda>t. tk_contractId t = trimmed) existing then (Inr existing, ls1)
             else
               (let updated = existing @ [\<lparr>tk_contractId = trimmed, tk_addedAt = ms now\<rparr>]
                in (Inr updated, saveCustomTokens updated))))"

definition removeCustomToken ::
  "(jsval \<Rightarrow> jsnum) \<Rightarrow> string \<Rightarrow> stored_text \<Rightarrow> custom_token list \<times> stored_text" where
  "removeCustomToken prim contractId ls =
     (let updated = filter (\<lambda>t. tk_contractId t \<noteq> contractId) (fst (loadCustomTokens prim ls))
      in (updated, saveCustomTokens updated))"

section \<open>Fiat preference\<close>

datatype fiat_currency = USD | EUR | GBP

fun fiat_code :: "fiat_currency \<Rightarrow> string" where
  "fiat_code USD = ''USD''" | "fiat_code EUR = ''EUR''" | "fiat_code GBP = ''GBP''"

fun vs_currency :: "fiat_currency \<Rightarrow> string" where
  "vs_currency USD = ''usd''" | "vs_currency EUR = ''eur''" | "vs_currency GBP = ''gbp''"

definition SUPPORTED_FIAT_CURRENCIES :: "fiat_currency list" where
  "SUPPORTED_FIAT_CURRENCIES = [USD, EUR, GBP]"

definition getPreferredFiatCurrency :: "string option \<Rightarrow> fiat_currency" where
  "getPreferredFiatCurrency stored =
     (case List.find (\<lambda>c. Some (fiat_code c) = stored) SUPPORTED_FIAT_CURRENCIES of
        Some c \<Rightarrow> c | None \<Rightarrow> USD)"

definition setPreferredFiatCurrency :: "fiat_currency \<Rightarrow> string option" where
  "setPreferredFiatCurrency c = Some (fiat_code c)"

section \<open>Prices\<close>

record price_snapshot =
  sn_prices :: "(fiat_currency, jsval) dict"
  sn_change :: "(fiat_currency, jsval) dict"

definition COINGECKO_ID_MAP :: "(string, string) dict" where
  "COINGECKO_ID_MAP = [(''XLM'', ''stellar''), (''USDC'', ''usd-coin'')]"

definition defined_prop :: "jsval \<Rightarrow> string \<Rightarrow> 'k \<Rightarrow> ('k, jsval) dict \<Rightarrow> ('k, jsval) dict" where
  "defined_prop entry field k d = (if jprop entry field \<noteq> JUndefined then d_set k (jprop entry field) d else d)"

definition read_snapshot :: "jsval \<Rightarrow> price_snapshot" where
  "read_snapshot entry =
     \<lparr>sn_prices = foldl (\<lambda>d f. defined_prop entry (vs_currency f) f d) [] SUPPORTED_FIAT_CURRENCIES,
      sn_change = foldl (\<lambda>d f. defined_prop entry (vs_currency f @ ''_24h_change'') f d) []
        SUPPORTED_FIAT_CURRENCIES\<rparr>"

definition read_prices :: "string list \<Rightarrow> jsval \<Rightarrow> (string, price_snapshot) dict" where
  "read_prices codes data =
     foldl (\<lambda>result code.
       (case d_get COINGECKO_ID_MAP code of
          None \<Rightarrow> result
        | Some geckoId \<Rightarrow>
            if truthy (jprop data geckoId) then d_set code (read_snapshot (jprop data geckoId)) result
            else result)) [] codes"

text \<open>\<open>Inl\<close> carries the message thrown.\<close>

definition fetchTokenPrices ::
  "string list \<Rightarrow> fetch_result \<Rightarrow> string + (string, price_snapshot) dict" where
  "fetchTokenPrices codes answer =
     (if List.map_filter (d_get COINGECKO_ID_MAP) codes = [] then Inr []
      else case answer of
        FetchThrows m \<Rightarrow> Inl m
      | Responded r \<Rightarrow>
          if \<not> resp_ok r then Inl (''CoinGecko request failed: '' @ show_int (resp_status r))
          else case resp_json r of
            None \<Rightarrow> Inl ''Unexpected token''
          | Some data \<Rightarrow> if nullish data then Inl ''Cannot read properties of null''
                         else Inr (read_prices codes data))"

record price_cache =
  ph_prices :: "(string, price_snapshot) dict"
  ph_cachedAt :: int

definition PRICE_CACHE_TTL_MS :: int where
  "PRICE_CACHE_TTL_MS = 5 * 60 * 1000"

definition price_fresh :: "int \<Rightarrow> price_cache \<Rightarrow> bool" where
  "price_fresh now c = (now - ph_cachedAt c < PRICE_CACHE_TTL_MS)"

interpretation price_ttl: expiring ph_cachedAt price_fresh PRICE_CACHE_TTL_MS
  by unfold_locales (simp add: price_fresh_def)

text \<open>The cache that could be read (\<open>None\<close> otherwise); the flag of the result is \<open>stale\<close>.\<close>

definition fetchTokenPricesCached ::
  "int \<Rightarrow> int \<Rightarrow> string list \<Rightarrow> fetch_result \<Rightarrow> price_cache option
     \<Rightarrow> (string + (string, price_snapshot) dict \<times> bool) \<times> price_cache option" where
  "fetchTokenPricesCached now later codes answer cached =
     (case cached of
        Some c \<Rightarrow>
          if price_fresh now c then (Inr (ph_prices c, False), cached)
          else
            (case fetchTokenPrices codes answer of
               Inr prices \<Rightarrow> (Inr (prices, False), Some \<lparr>ph_prices = prices, ph_cachedAt = later\<rparr>)
             | Inl m \<Rightarrow> (Inr (ph_prices c, True), cached))
      | None \<Rightarrow>
          (case fetchTokenPrices codes answer of
             Inr prices \<Rightarrow> (Inr (prices, False), Some \<lparr>ph_prices = prices, ph_cachedAt = later\<rparr>)
           | Inl m \<Rightarrow> (Inl m, None)))"

section \<open>Profit and loss\<close>

record value_snapshot =
  vs_date :: string
  vs_totalValue :: rat

definition MAX_HISTORY_DAYS :: nat where
  "MAX_HISTORY_DAYS = 90"

definition revive_value :: "jsval \<Rightarrow> value_snapshot option" where
  "revive_value s =
     (case (jprop s ''date'', jprop s ''totalValue'') of
        (JString d, JNumber (Fin v)) \<Rightarrow> Some \<lparr>vs_date = d, vs_totalValue = v\<rparr>
      | _ \<Rightarrow> None)"

definition loadPortfolioHistory :: "stored_text \<Rightarrow> value_snapshot list" where
  "loadPortfolioHistory ls =
     (case ls of Json (JArray xs) \<Rightarrow> List.map_filter revive_value xs | _ \<Rightarrow> [])"

definition value_js :: "value_snapshot \<Rightarrow> jsval" where
  "value_js s = JObject [(''date'', JString (vs_date s)), (''totalValue'', JNumber (Fin (vs_totalValue s)))]"

definition recordPortfolioValueSnapshot ::
  "(string \<Rightarrow> string \<Rightarrow> jsnum) \<Rightarrow> string \<Rightarrow> rat \<Rightarrow> stored_text \<Rightarrow> stored_text" where
  "recordPortfolioValueSnapshot localeCompare today totalValue ls =
     (let history = loadPortfolioHistory ls;
          withoutToday = filter (\<lambda>s. vs_date s \<noteq> today) history;
          sorted = js_sort (\<lambda>a b. localeCompare (vs_date a) (vs_date b))
            (withoutToday @ [\<lparr>vs_date = today, vs_totalValue = totalValue\<rparr>]);
          updated = drop (length sorted - MAX_HISTORY_DAYS) sorted
      in Json (JArray (map value_js updated)))"

record pnl_result =
  pn_absolute :: rat
  pn_percent :: "rat option"

definition calculatePnL :: "rat \<Rightarrow> string \<Rightarrow> stored_text \<Rightarrow> pnl_result" where
  "calculatePnL currentValue cutoffKey ls =
     (let history = loadPortfolioHistory ls in
      if length history = 0 then \<lparr>pn_absolute = 0, pn_percent = None\<rparr>
      else case List.find (\<lambda>s. vs_date s \<le> cutoffKey) (rev history) of
        None \<Rightarrow> \<lparr>pn_absolute = 0, pn_percent = None\<rparr>
      | Some baseline \<Rightarrow>
          (let absolute = currentValue - vs_totalValue baseline
           in \<lparr>pn_absolute = absolute,
               pn_percent = (if vs_totalValue baseline > 0
                             then Some (absolute / vs_totalValue baseline * 100) else None)\<rparr>))"

section \<open>The token list heals itself\<close>

definition token_ok :: "custom_token \<Rightarrow> bool" where
  "token_ok t = (isValidContractId (tk_contractId t) \<and> trim (tk_contractId t) = tk_contractId t \<and>
     num_nonneg (tk_addedAt t))"

lemma reviveCustomToken_ok: "reviveCustomToken prim v = Some t \<Longrightarrow> token_ok t"
  by (cases "jprop v ''contractId''")
    (auto simp: reviveCustomToken_def token_ok_def Let_def num_nonneg_def split: jsval.splits if_splits)

lemma revive_token_js: "token_ok t \<Longrightarrow> reviveCustomToken prim (token_js t) = Some t"
  by (simp add: token_ok_def reviveCustomToken_def token_js_def)

lemma dedupe_tokens_fold:
  "d_ok m \<Longrightarrow> (\<forall>(k, t) \<in> set m. tk_contractId t = k \<and> P t) \<Longrightarrow> (\<forall>t \<in> set ts. P t) \<Longrightarrow>
    d_ok (foldl (\<lambda>m t. d_set (tk_contractId t) t m) m ts) \<and>
    (\<forall>(k, t) \<in> set (foldl (\<lambda>m t. d_set (tk_contractId t) t m) m ts). tk_contractId t = k \<and> P t)"
proof (induction ts arbitrary: m)
  case (Cons t ts)
  have ok: "d_ok (d_set (tk_contractId t) t m)" using Cons.prems(1) by (rule dict.ok_set)
  have "\<forall>(k, u) \<in> set (d_set (tk_contractId t) t m). tk_contractId u = k \<and> P u"
  proof clarify
    fix k u assume "(k, u) \<in> set (d_set (tk_contractId t) t m)"
    with ok have "d_get (d_set (tk_contractId t) t m) k = Some u"
      using dict.entries_get [of "d_set (tk_contractId t) t m" k u] by (simp add: d_entries_def)
    then show "tk_contractId u = k \<and> P u"
      using Cons.prems dict.entries_get [of m k u]
      by (auto simp: dict_get d_entries_def split: if_splits)
  qed
  with Cons.IH [OF ok] Cons.prems(3) show ?case by simp
qed simp

lemma dedupe_tokens_ok:
  assumes "\<forall>t \<in> set ts. P t"
  shows "distinct (map tk_contractId (dedupe_tokens ts)) \<and> (\<forall>t \<in> set (dedupe_tokens ts). P t)"
proof -
  let ?m = "foldl (\<lambda>m t. d_set (tk_contractId t) t m) [] ts"
  have m: "d_ok ?m" "\<forall>(k, t) \<in> set ?m. tk_contractId t = k \<and> P t"
    using dedupe_tokens_fold [of "[]" P ts] assms by simp_all
  then have eq: "map (tk_contractId \<circ> snd) ?m = map fst ?m" by (auto simp: case_prod_beta)
  have "distinct (map tk_contractId (map snd ?m))"
    unfolding map_map eq using m(1) by (simp add: d_ok_def)
  with m(2) show ?thesis
    by (auto simp: dedupe_tokens_def d_entries_def)
qed

lemma dedupe_tokens_fixed:
  assumes "distinct (map tk_contractId ts)"
  shows "dedupe_tokens ts = ts"
proof -
  have "foldl (\<lambda>m t. d_set (tk_contractId t) t m) m ts = m @ map (\<lambda>t. (tk_contractId t, t)) ts"
    if "distinct (map fst m @ map tk_contractId ts)" for m
    using that
  proof (induction ts arbitrary: m)
    case (Cons t ts)
    have "d_set (tk_contractId t) t m = m @ [(tk_contractId t, t)]"
      using Cons.prems unfolding d_set_def by (induction m) auto
    with Cons.IH [of "m @ [(tk_contractId t, t)]"] Cons.prems show ?case by auto
  qed simp
  from this [of "[]"] assms show ?thesis by (simp add: dedupe_tokens_def d_entries_def comp_def)
qed

lemma load_saved_tokens:
  assumes "distinct (map tk_contractId ts)" "\<forall>t \<in> set ts. token_ok t"
  shows "loadCustomTokens prim (saveCustomTokens ts) = (ts, saveCustomTokens ts)"
proof -
  have "List.map_filter (reviveCustomToken prim) (map token_js ts) = ts"
    using assms(2) by (induction ts) (simp_all add: List.map_filter_simps revive_token_js)
  moreover have "dedupe_tokens ([] :: custom_token list) = []"
    by (simp add: dedupe_tokens_def d_entries_def)
  ultimately show ?thesis
    by (simp add: loadCustomTokens_def saveCustomTokens_def token_payload_def token_source_def
        dedupe_tokens_fixed [OF assms(1)] isCurrentTokenPayload_def Let_def)
qed

text \<open>Loading the custom tokens repairs whatever was stored: the list has valid, trimmed
contract ids without repetition, and loading again from the storage it leaves gives the same list
and leaves the storage alone, whether it was absent, broken, of another version or of the old shape.\<close>

lemma custom_tokens_heal:
  assumes "loadCustomTokens prim ls = (ts, ls')"
  shows "distinct (map tk_contractId ts) \<and> (\<forall>t \<in> set ts. token_ok t) \<and>
    loadCustomTokens prim ls' = (ts, ls')"
proof -
  have ok: "distinct (map tk_contractId (dedupe_tokens (List.map_filter (reviveCustomToken prim) xs))) \<and>
      (\<forall>t \<in> set (dedupe_tokens (List.map_filter (reviveCustomToken prim) xs)). token_ok t)" for xs
    by (rule dedupe_tokens_ok) (auto simp: List.map_filter_def intro!: reviveCustomToken_ok)
  have "ls' = saveCustomTokens ts \<or> ls' = ls"
    and ts: "distinct (map tk_contractId ts) \<and> (\<forall>t \<in> set ts. token_ok t)"
    using assms ok by (auto simp: loadCustomTokens_def Let_def split: stored_text.splits if_splits)
  with assms load_saved_tokens [of ts prim] show ?thesis by auto
qed

theorem custom_tokens_heal_example:
  "loadCustomTokens (\<lambda>_. JsNaN) (saveCustomTokens []) = ([], saveCustomTokens [])"
proof -
  have "loadCustomTokens (\<lambda>_. JsNaN) NoJson = ([], saveCustomTokens [])"
    by (simp add: loadCustomTokens_def)
  from custom_tokens_heal [OF this] show ?thesis by simp
qed

section \<open>The value history\<close>

lemma load_values: "loadPortfolioHistory (Json (JArray (map value_js ss))) = ss"
proof -
  have "revive_value (value_js s) = Some s" for s
    by (simp add: revive_value_def value_js_def)
  then have "List.map_filter revive_value (map value_js ss) = ss"
    by (induction ss) (simp_all add: List.map_filter_simps)
  then show ?thesis by (simp add: loadPortfolioHistory_def)
qed

text \<open>Where \<open>localeCompare\<close> orders the dates as strings, as it does for day keys, the history is
the ninety latest days, each once, today's value replacing an earlier one of today.\<close>

lemma record_history:
  assumes "\<And>a b. num_positive (localeCompare a b) \<longleftrightarrow> b < a"
  shows "loadPortfolioHistory (recordPortfolioValueSnapshot localeCompare today v ls) =
    (let s = sort_key vs_date (filter (\<lambda>s. vs_date s \<noteq> today) (loadPortfolioHistory ls) @
         [\<lparr>vs_date = today, vs_totalValue = v\<rparr>])
     in drop (length s - MAX_HISTORY_DAYS) s)"
proof -
  have sort: "js_sort (\<lambda>a b. localeCompare (vs_date a) (vs_date b)) xs = sort_key vs_date xs"
    for xs :: "value_snapshot list"
    by (rule js_sort_key) (simp add: assms)
  show ?thesis by (simp only: recordPortfolioValueSnapshot_def Let_def load_values sort)
qed

lemma record_history_bound:
  "length (loadPortfolioHistory (recordPortfolioValueSnapshot localeCompare today v ls)) \<le> MAX_HISTORY_DAYS"
  by (simp only: recordPortfolioValueSnapshot_def Let_def load_values) simp

lemma find_last_le:
  fixes f :: "'a \<Rightarrow> 'b::linorder"
  assumes "sorted (map f xs)" "List.find (\<lambda>x. f x \<le> k) (rev xs) = Some b"
  shows "b \<in> set xs \<and> f b \<le> k \<and> (\<forall>x \<in> set xs. f x \<le> k \<longrightarrow> f x \<le> f b)"
  using assms
proof (induction xs rule: rev_induct)
  case (snoc x xs)
  then show ?case by (auto simp: sorted_append split: if_splits)
qed simp

lemma pnl_baseline:
  assumes "sorted (map vs_date (loadPortfolioHistory ls))"
    and "List.find (\<lambda>s. vs_date s \<le> cutoff) (rev (loadPortfolioHistory ls)) = Some b"
  shows "pn_absolute (calculatePnL value cutoff ls) = value - vs_totalValue b \<and>
    (\<forall>s \<in> set (loadPortfolioHistory ls). vs_date s \<le> cutoff \<longrightarrow> vs_date s \<le> vs_date b)"
  using find_last_le [OF assms] assms(2) by (auto simp: calculatePnL_def Let_def)

end
