(* ===== verification/PriceAlerts.thy ===== *)
theory PriceAlerts
  imports Portfolio
begin

text \<open>
  \<open>frontend/lib/priceAlerts.ts\<close>: the stored alerts, their operations, and one tick of the poller.
  A tick reads the alerts, waits for the prices and then evaluates them, so it is two steps with
  the storage free to change between. Ids and times are arguments; the notification itself is
  browser work, and the model records that it was fired.
\<close>

datatype alert_condition = Above | Below

datatype notification_preference = Browser | InApp | Both

record price_alert =
  pa_id :: string
  pa_asset :: string
  pa_condition :: alert_condition
  pa_threshold :: jsnum
  pa_preference :: notification_preference
  pa_createdAt :: string
  pa_triggeredAt :: "string option"
  pa_triggeredPrice :: "jsnum option"
  pa_active :: bool

text \<open>The stored list; \<open>None\<close> is a key that is absent or no JSON.\<close>

type_synonym alert_store = "price_alert list option"

definition loadAlerts :: "alert_store \<Rightarrow> price_alert list" where
  "loadAlerts ls = (case ls of None \<Rightarrow> [] | Some alerts \<Rightarrow> alerts)"

definition saveAlerts :: "price_alert list \<Rightarrow> alert_store" where
  "saveAlerts alerts = Some alerts"

definition createAlert ::
  "string \<Rightarrow> string \<Rightarrow> string \<Rightarrow> alert_condition \<Rightarrow> jsnum \<Rightarrow> notification_preference \<Rightarrow> alert_store
     \<Rightarrow> price_alert \<times> alert_store" where
  "createAlert fresh now asset condition threshold preference ls =
     (let alert = \<lparr>pa_id = fresh, pa_asset = asset, pa_condition = condition, pa_threshold = threshold,
            pa_preference = preference, pa_createdAt = now, pa_triggeredAt = None,
            pa_triggeredPrice = None, pa_active = True\<rparr>
      in (alert, saveAlerts (loadAlerts ls @ [alert])))"

definition deleteAlert :: "string \<Rightarrow> alert_store \<Rightarrow> alert_store" where
  "deleteAlert i ls = saveAlerts (filter (\<lambda>a. pa_id a \<noteq> i) (loadAlerts ls))"

fun alert_index :: "string \<Rightarrow> price_alert list \<Rightarrow> nat option" where
  "alert_index i [] = None"
| "alert_index i (a # as) = (if pa_id a = i then Some 0 else map_option Suc (alert_index i as))"

definition triggered :: "string \<Rightarrow> jsnum \<Rightarrow> price_alert \<Rightarrow> price_alert" where
  "triggered now price a = a\<lparr>pa_active := False, pa_triggeredAt := Some now, pa_triggeredPrice := Some price\<rparr>"

definition triggerAlert :: "string \<Rightarrow> string \<Rightarrow> jsnum \<Rightarrow> alert_store \<Rightarrow> price_alert option \<times> alert_store" where
  "triggerAlert now i price ls =
     (let alerts = loadAlerts ls
      in case alert_index i alerts of
           None \<Rightarrow> (None, ls)
         | Some idx \<Rightarrow>
             (let updated = triggered now price (alerts ! idx)
              in (Some updated, saveAlerts (alerts[idx := updated]))))"

text \<open>\<open>fetchPrices\<close>: the prices of the assets that have an id; \<open>Inl\<close> throws.\<close>

definition fetchPrices :: "string list \<Rightarrow> fetch_result \<Rightarrow> string + (string, jsval) dict" where
  "fetchPrices assets answer =
     (if List.map_filter (d_get COINGECKO_ID_MAP) assets = [] then Inr []
      else case answer of
        FetchThrows m \<Rightarrow> Inl m
      | Responded r \<Rightarrow>
          if \<not> resp_ok r then Inl (''CoinGecko request failed: '' @ show_int (resp_status r))
          else case resp_json r of
            None \<Rightarrow> Inl ''Unexpected token''
          | Some data \<Rightarrow>
              if nullish data then Inl ''Cannot read properties of null''
              else Inr (foldl (\<lambda>result asset.
                (case d_get COINGECKO_ID_MAP asset of
                   None \<Rightarrow> result
                 | Some g \<Rightarrow>
                     if jprop (jprop data g) ''usd'' \<noteq> JUndefined
                     then d_set asset (jprop (jprop data g) ''usd'') result else result)) [] assets))"

section \<open>A tick\<close>

text \<open>A price that is no number compares like NaN.\<close>

definition price_number :: "jsval \<Rightarrow> jsnum" where
  "price_number v = (case v of JNumber n \<Rightarrow> n | _ \<Rightarrow> JsNaN)"

definition crossed :: "price_alert \<Rightarrow> jsnum \<Rightarrow> bool" where
  "crossed a price =
     ((pa_condition a = Above \<and> num_less (pa_threshold a) price) \<or>
      (pa_condition a = Below \<and> num_less price (pa_threshold a)))"

text \<open>What a tick does to the outside: the browser notifications and the callbacks, in order.\<close>

datatype alert_event = Notified price_alert jsnum | Called price_alert jsnum

definition poll_start :: "alert_store \<Rightarrow> price_alert list" where
  "poll_start ls = filter pa_active (loadAlerts ls)"

definition notifies :: "price_alert \<Rightarrow> bool" where
  "notifies a = (pa_preference a = Browser \<or> pa_preference a = Both)"

fun evaluate ::
  "string \<Rightarrow> (string, jsval) dict \<Rightarrow> price_alert list \<Rightarrow> alert_store \<Rightarrow> alert_event list \<times> alert_store" where
  "evaluate now prices [] ls = ([], ls)"
| "evaluate now prices (a # as) ls =
     (case d_get prices (pa_asset a) of
        None \<Rightarrow> evaluate now prices as ls
      | Some v \<Rightarrow>
          if crossed a (price_number v)
          then (case triggerAlert now (pa_id a) (price_number v) ls of
                  (None, ls1) \<Rightarrow> evaluate now prices as ls1
                | (Some updated, ls1) \<Rightarrow>
                    (case evaluate now prices as ls1 of
                       (es, ls2) \<Rightarrow>
                         ((if notifies a then [Notified a (price_number v)] else []) @
                            Called updated (price_number v) # es, ls2)))
          else evaluate now prices as ls)"

definition poll_finish ::
  "string \<Rightarrow> fetch_result \<Rightarrow> price_alert list \<Rightarrow> alert_store \<Rightarrow> alert_event list \<times> alert_store" where
  "poll_finish now answer alerts ls =
     (if alerts = [] then ([], ls)
      else case fetchPrices (remdups (map pa_asset alerts)) answer of
        Inl m \<Rightarrow> ([], ls)
      | Inr prices \<Rightarrow> evaluate now prices alerts ls)"

definition poll :: "string \<Rightarrow> fetch_result \<Rightarrow> alert_store \<Rightarrow> alert_event list \<times> alert_store" where
  "poll now answer ls = poll_finish now answer (poll_start ls) ls"

section \<open>What a tick does\<close>

fun called :: "alert_event list \<Rightarrow> string list" where
  "called [] = []"
| "called (Called a p # es) = pa_id a # called es"
| "called (Notified a p # es) = called es"

lemma called_append [simp]: "called (xs @ ys) = called xs @ called ys"
  by (induction xs rule: called.induct) simp_all

definition hit :: "(string, jsval) dict \<Rightarrow> price_alert \<Rightarrow> bool" where
  "hit prices a = (case d_get prices (pa_asset a) of None \<Rightarrow> False | Some v \<Rightarrow> crossed a (price_number v))"

definition after_tick :: "string \<Rightarrow> (string, jsval) dict \<Rightarrow> string set \<Rightarrow> price_alert \<Rightarrow> price_alert" where
  "after_tick now prices ids a =
     (if pa_id a \<in> ids then triggered now (price_number (the (d_get prices (pa_asset a)))) a else a)"

lemma alert_index_map:
  assumes "distinct (map pa_id as)" "a \<in> set as"
  shows "\<exists>n. alert_index (pa_id a) as = Some n \<and> n < length as \<and> as ! n = a"
  using assms
proof (induction as)
  case (Cons b as)
  show ?case
  proof (cases "pa_id b = pa_id a")
    case True
    then have "b = a" using Cons.prems by (metis distinct.simps(2) image_eqI list.set_map list.simps(9) set_ConsD)
    then show ?thesis by simp
  next
    case False
    with Cons obtain n where "alert_index (pa_id a) as = Some n \<and> n < length as \<and> as ! n = a" by auto
    with False show ?thesis by auto
  qed
qed simp

lemma list_update_map:
  assumes "distinct (map pa_id as)" "n < length as"
  shows "as[n := f (as ! n)] = map (\<lambda>b. if pa_id b = pa_id (as ! n) then f b else b) as"
proof (rule nth_equalityI)
  fix i assume i: "i < length (as[n := f (as ! n)])"
  then have "pa_id (as ! i) = pa_id (as ! n) \<longleftrightarrow> i = n"
    using assms by (metis length_list_update length_map nth_eq_iff_index_eq nth_map)
  with i assms(2) show "as[n := f (as ! n)] ! i =
      map (\<lambda>b. if pa_id b = pa_id (as ! n) then f b else b) as ! i"
    by (cases "i = n") auto
qed simp

lemma triggerAlert_map:
  assumes "distinct (map pa_id as)" "a \<in> set as"
  shows "triggerAlert now (pa_id a) p (Some as) =
    (Some (triggered now p a), Some (map (\<lambda>b. if pa_id b = pa_id a then triggered now p b else b) as))"
proof -
  from alert_index_map [OF assms] obtain n where
    n: "alert_index (pa_id a) as = Some n" "n < length as" "as ! n = a" by blast
  with list_update_map [OF assms(1) n(2), of "triggered now p"] show ?thesis
    by (simp add: triggerAlert_def loadAlerts_def saveAlerts_def Let_def)
qed

lemma triggered_id [simp]: "pa_id (triggered now p a) = pa_id a" "pa_asset (triggered now p a) = pa_asset a"
  "\<not> pa_active (triggered now p a)"
  by (simp_all add: triggered_def)

lemma evaluate_spec:
  assumes "distinct (map pa_id stored)" "distinct (map pa_id as)" "set as \<subseteq> set stored"
  shows "called (fst (evaluate now prices as (Some stored))) = map pa_id (filter (hit prices) as) \<and>
    snd (evaluate now prices as (Some stored)) =
      Some (map (after_tick now prices (pa_id ` set (filter (hit prices) as))) stored)"
  using assms
proof (induction as arbitrary: stored)
  case Nil
  have "after_tick now prices {} = id" by (simp add: fun_eq_iff after_tick_def)
  then show ?case by simp
next
  case (Cons a as)
  show ?case
  proof (cases "hit prices a")
    case False
    with Cons show ?thesis by (auto simp: hit_def split: option.splits)
  next
    case True
    then obtain v where v: "d_get prices (pa_asset a) = Some v" "crossed a (price_number v)"
      by (auto simp: hit_def split: option.splits)
    let ?p = "price_number v"
    let ?stored = "map (\<lambda>b. if pa_id b = pa_id a then triggered now ?p b else b) stored"
    have trig: "triggerAlert now (pa_id a) ?p (Some stored) = (Some (triggered now ?p a), Some ?stored)"
      using Cons.prems by (intro triggerAlert_map) auto
    have ids: "map pa_id ?stored = map pa_id stored" by simp
    have others: "pa_id b \<noteq> pa_id a" if "b \<in> set as" for b
      using that Cons.prems(2) by auto (metis image_eqI)
    then have sub: "set as \<subseteq> set ?stored"
      using Cons.prems(3) by (force simp: image_iff)
    have IH: "called (fst (evaluate now prices as (Some ?stored))) = map pa_id (filter (hit prices) as)"
      "snd (evaluate now prices as (Some ?stored)) =
        Some (map (after_tick now prices (pa_id ` set (filter (hit prices) as))) ?stored)"
      using Cons.IH [of ?stored] Cons.prems ids sub by (metis distinct.simps(2) list.simps(9))+
    have same: "b = a" if "b \<in> set stored" "pa_id b = pa_id a" for b
      using that Cons.prems by (metis distinct_map inj_onD list.set_intros(1) subsetD)
    have price: "d_get prices (pa_asset b) = Some v" if "b \<in> set stored" "pa_id b = pa_id a" for b
      using same [OF that] v(1) by simp
    have "pa_id a \<notin> pa_id ` set (filter (hit prices) as)"
      by (fastforce dest: others)
    then have "map (after_tick now prices (pa_id ` set (filter (hit prices) as))) ?stored =
        map (after_tick now prices (pa_id ` set (filter (hit prices) (a # as)))) stored"
      using True price by (auto simp: after_tick_def)
    with IH True v trig show ?thesis
      by (simp add: split_beta del: map_map)
  qed
qed

lemma triggerAlert_id: "triggerAlert now i p ls = (Some u, ls1) \<Longrightarrow> pa_id u = i"
proof -
  have "alert_index i as = Some n \<Longrightarrow> pa_id (as ! n) = i" for as n
    by (induction as arbitrary: n) (auto split: if_splits)
  moreover assume "triggerAlert now i p ls = (Some u, ls1)"
  ultimately show ?thesis by (auto simp: triggerAlert_def Let_def split: option.splits)
qed

lemma evaluate_called: "set (called (fst (evaluate now prices bs ls))) \<subseteq> pa_id ` set bs"
proof (induction bs arbitrary: ls)
  case (Cons b bs)
  show ?case
  proof (cases "hit prices b")
    case False
    with Cons [of ls] show ?thesis by (auto simp: hit_def split: option.splits)
  next
    case True
    then obtain v where v: "d_get prices (pa_asset b) = Some v" "crossed b (price_number v)"
      by (auto simp: hit_def split: option.splits)
    obtain r ls1 where t: "triggerAlert now (pa_id b) (price_number v) ls = (r, ls1)"
      by (cases "triggerAlert now (pa_id b) (price_number v) ls")
    show ?thesis
    proof (cases r)
      case None
      with v t Cons [of ls1] show ?thesis by auto
    next
      case (Some u)
      with triggerAlert_id t have "pa_id u = pa_id b" by blast
      with v t Some Cons [of ls1] show ?thesis by (auto simp: split_beta)
    qed
  qed
qed simp

text \<open>A tick that nothing interrupts fires each alert once and for all: the callback runs for
exactly the active alerts whose price crossed their threshold, in the order of the list; these are
deactivated and every other alert stays as it was, so a later tick calls none of them again.\<close>

lemma poll_fires_once:
  assumes "distinct (map pa_id stored)" and "fetchPrices (remdups (map pa_asset (filter pa_active stored))) answer = Inr prices"
    and "poll now answer (Some stored) = (es, ls')"
  shows "called es = map pa_id (filter (\<lambda>a. pa_active a \<and> hit prices a) stored) \<and>
    ls' = Some (map (after_tick now prices (set (called es))) stored) \<and>
    set (called es) \<inter> set (called (fst (poll later answer' ls'))) = {}"
proof -
  let ?as = "filter pa_active stored"
  have ev: "poll now answer (Some stored) = evaluate now prices ?as (Some stored)"
    using assms(2) by (simp add: poll_def poll_start_def poll_finish_def loadAlerts_def)
  have hits: "filter (hit prices) ?as = filter (\<lambda>a. pa_active a \<and> hit prices a) stored"
    by (simp add: conj_commute)
  have "distinct (map pa_id ?as)" using assms(1) by (simp add: distinct_map_filter)
  note spec = evaluate_spec [OF assms(1) this, of now prices]
  have 1: "called es = map pa_id (filter (\<lambda>a. pa_active a \<and> hit prices a) stored)"
    using spec assms(3) ev hits by simp
  have 2: "ls' = Some (map (after_tick now prices (set (called es))) stored)"
    using spec assms(3) ev hits 1 by simp
  have "pa_id b \<notin> set (called es)" if "b \<in> set (poll_start ls')" for b
    using that unfolding 2 by (auto simp: poll_start_def loadAlerts_def after_tick_def split: if_splits)
  moreover have "set (called (fst (poll_finish now'' ans bs ls))) \<subseteq> pa_id ` set bs"
    for now'' ans bs ls
    using evaluate_called [of now'' _ bs ls] by (auto simp: poll_finish_def split: sum.splits)
  ultimately have "set (called es) \<inter> set (called (fst (poll later answer' ls'))) = {}"
    unfolding poll_def by fastforce
  with 1 2 show ?thesis by blast
qed

definition sample_alert :: price_alert where
  "sample_alert = \<lparr>pa_id = ''a'', pa_asset = ''XLM'', pa_condition = Above, pa_threshold = Fin 1,
     pa_preference = InApp, pa_createdAt = [], pa_triggeredAt = None, pa_triggeredPrice = None,
     pa_active = True\<rparr>"

definition sample_answer :: fetch_result where
  "sample_answer = Responded \<lparr>resp_ok = True, resp_status = 200, resp_statusText = [],
     resp_json = Some (JObject [(''stellar'', JObject [(''usd'', JNumber (Fin 2))])])\<rparr>"

lemma sample_prices: "fetchPrices [''XLM''] sample_answer = Inr [(''XLM'', JNumber (Fin 2))]"
  by (simp add: fetchPrices_def sample_answer_def COINGECKO_ID_MAP_def d_get_def d_set_def List.map_filter_simps)

lemma sample_fires: "evaluate now [(''XLM'', JNumber (Fin 2))] [sample_alert] (Some [b]) =
    (if pa_id b = ''a'' then ([Called (triggered now (Fin 2) b) (Fin 2)], Some [triggered now (Fin 2) b])
     else ([], Some [b]))"
  by (simp add: sample_alert_def d_get_def crossed_def price_number_def triggerAlert_def loadAlerts_def
      saveAlerts_def notifies_def Let_def)

theorem poll_fires_once_example:
  "called (fst (poll ''t'' sample_answer (Some [sample_alert]))) = [''a'']"
proof -
  have "fetchPrices (remdups (map pa_asset (filter pa_active [sample_alert]))) sample_answer =
      Inr [(''XLM'', JNumber (Fin 2))]"
    using sample_prices by (simp add: sample_alert_def)
  from poll_fires_once [OF _ this surjective_pairing, of "''t''"] show ?thesis
    by (simp add: hit_def sample_alert_def d_get_def crossed_def price_number_def)
qed

text \<open>Two ticks that overlap, the second starting while the first waits for its prices, both hold the
alert and both call back: triggering does not look at whether the alert is still active.\<close>

lemma overlapping_ticks_fire_twice:
  "let alerts = poll_start (Some [sample_alert]);
       (es1, ls1) = poll_finish ''t'' sample_answer alerts (Some [sample_alert]);
       (es2, ls2) = poll_finish ''u'' sample_answer alerts ls1
   in called es1 = [''a''] \<and> called es2 = [''a'']"
proof -
  have "poll_start (Some [sample_alert]) = [sample_alert]" "map pa_asset [sample_alert] = [''XLM'']"
    by (simp_all add: poll_start_def loadAlerts_def sample_alert_def)
  moreover have "pa_id sample_alert = ''a''" by (simp add: sample_alert_def)
  ultimately show ?thesis
    by (simp add: poll_finish_def sample_prices sample_fires del: evaluate.simps)
qed

end
