(* ===== verification/PathFinder.thy ===== *)
theory PathFinder
  imports JsNet
begin

text \<open>
  \<open>frontend/lib/pathFinder.ts\<close>: the path lookup of the swap page. An asset of the SDK is native or
  a code with an issuer; the record list is what Horizon answered. The route shown is kept as the
  labels the arrow joins. The price impact and the slippage are arithmetic on doubles rounded by
  \<open>toFixed\<close> and are left out.
\<close>

section \<open>Data\<close>

datatype stellar_asset = Native | Credit string string

datatype asset_type = TypeNative | TypeAlphanum4 | TypeAlphanum12

record path_asset =
  pth_type :: asset_type
  pth_code :: "string option"
  pth_issuer :: "string option"

record payment_path =
  pp_source_amount :: string
  pp_destination_amount :: string
  pp_path :: "path_asset list"

record path_result =
  rs_paths :: "payment_path list"
  rs_bestPath :: "payment_path option"
  rs_routeDisplay :: "string list"
  rs_sourceAmount :: string
  rs_destinationAmount :: string

section \<open>Helpers\<close>

definition assetToParams :: "stellar_asset \<Rightarrow> string \<Rightarrow> (string \<times> string) list" where
  "assetToParams asset side =
     (case asset of
        Native \<Rightarrow> [(side @ ''_asset_type'', ''native'')]
      | Credit code issuer \<Rightarrow>
          [(side @ ''_asset_type'', if length code \<le> 4 then ''credit_alphanum4'' else ''credit_alphanum12''),
           (side @ ''_asset_code'', code), (side @ ''_asset_issuer'', issuer)])"

definition formatPathAsset :: "path_asset \<Rightarrow> string" where
  "formatPathAsset a =
     (if pth_type a = TypeNative then ''XLM''
      else case pth_code a of None \<Rightarrow> ''???'' | Some c \<Rightarrow> c)"

definition asset_label :: "stellar_asset \<Rightarrow> string" where
  "asset_label a = (case a of Native \<Rightarrow> ''XLM'' | Credit code issuer \<Rightarrow> code)"

definition buildRouteDisplay :: "payment_path \<Rightarrow> stellar_asset \<Rightarrow> stellar_asset \<Rightarrow> string list" where
  "buildRouteDisplay path sourceAsset destAsset =
     (if length (pp_path path) = 0 then [asset_label sourceAsset, asset_label destAsset]
      else asset_label sourceAsset # map formatPathAsset (pp_path path) @ [asset_label destAsset])"

section \<open>Lookups\<close>

text \<open>What the request came to: a body whose records were read (none if absent), or an error
status; \<open>fetch\<close> itself may throw.\<close>

datatype path_answer = PathThrows string | PathStatus int string | PathRecords "payment_path list"

definition strict_send_params ::
  "stellar_asset \<Rightarrow> string \<Rightarrow> stellar_asset \<Rightarrow> string option \<Rightarrow> (string \<times> string) list" where
  "strict_send_params sourceAsset sourceAmount destAsset account =
     assetToParams sourceAsset ''source'' @ [(''source_amount'', sourceAmount)] @
     assetToParams destAsset ''destination'' @
     (case account of None \<Rightarrow> [] | Some a \<Rightarrow> if a \<noteq> [] then [(''destination_account'', a)] else [])"

definition strict_receive_params ::
  "stellar_asset \<Rightarrow> stellar_asset \<Rightarrow> string \<Rightarrow> string option \<Rightarrow> (string \<times> string) list" where
  "strict_receive_params sourceAsset destAsset destAmount account =
     assetToParams sourceAsset ''source'' @ assetToParams destAsset ''destination'' @
     [(''destination_amount'', destAmount)] @
     (case account of None \<Rightarrow> [] | Some a \<Rightarrow> if a \<noteq> [] then [(''source_account'', a)] else [])"

definition route_of :: "payment_path option \<Rightarrow> stellar_asset \<Rightarrow> stellar_asset \<Rightarrow> string list" where
  "route_of best sourceAsset destAsset =
     (case best of
        Some b \<Rightarrow> buildRouteDisplay b sourceAsset destAsset
      | None \<Rightarrow> [asset_label sourceAsset, asset_label destAsset])"

definition head_option :: "'a list \<Rightarrow> 'a option" where
  "head_option xs = (case xs of [] \<Rightarrow> None | x # _ \<Rightarrow> Some x)"

definition findStrictSendPaths ::
  "(((string \<times> string) list) \<Rightarrow> path_answer) \<Rightarrow> stellar_asset \<Rightarrow> string \<Rightarrow> stellar_asset \<Rightarrow> string option
     \<Rightarrow> string + path_result" where
  "findStrictSendPaths lookup sourceAsset sourceAmount destAsset account =
     (case lookup (strict_send_params sourceAsset sourceAmount destAsset account) of
        PathThrows m \<Rightarrow> Inl m
      | PathStatus status statusText \<Rightarrow>
          if status = 404
          then Inr \<lparr>rs_paths = [], rs_bestPath = None, rs_routeDisplay = [],
                 rs_sourceAmount = sourceAmount, rs_destinationAmount = ''0''\<rparr>
          else Inl (''Horizon strict-send path lookup failed: '' @ show_int status @ '' '' @ statusText)
      | PathRecords records \<Rightarrow>
          (let sorted = js_sort (\<lambda>a b. num_sub (parseFloat (pp_destination_amount b))
                 (parseFloat (pp_destination_amount a))) records;
               best = head_option sorted
           in Inr \<lparr>rs_paths = sorted, rs_bestPath = best,
                rs_routeDisplay = route_of best sourceAsset destAsset,
                rs_sourceAmount = sourceAmount,
                rs_destinationAmount = (case best of None \<Rightarrow> ''0'' | Some b \<Rightarrow> pp_destination_amount b)\<rparr>))"

definition findStrictReceivePaths ::
  "(((string \<times> string) list) \<Rightarrow> path_answer) \<Rightarrow> stellar_asset \<Rightarrow> stellar_asset \<Rightarrow> string \<Rightarrow> string option
     \<Rightarrow> string + path_result" where
  "findStrictReceivePaths lookup sourceAsset destAsset destAmount account =
     (case lookup (strict_receive_params sourceAsset destAsset destAmount account) of
        PathThrows m \<Rightarrow> Inl m
      | PathStatus status statusText \<Rightarrow>
          if status = 404
          then Inr \<lparr>rs_paths = [], rs_bestPath = None, rs_routeDisplay = [],
                 rs_sourceAmount = ''0'', rs_destinationAmount = destAmount\<rparr>
          else Inl (''Horizon strict-receive path lookup failed: '' @ show_int status @ '' '' @ statusText)
      | PathRecords records \<Rightarrow>
          (let sorted = js_sort (\<lambda>a b. num_sub (parseFloat (pp_source_amount a))
                 (parseFloat (pp_source_amount b))) records;
               best = head_option sorted
           in Inr \<lparr>rs_paths = sorted, rs_bestPath = best,
                rs_routeDisplay = route_of best sourceAsset destAsset,
                rs_sourceAmount = (case best of None \<Rightarrow> ''0'' | Some b \<Rightarrow> pp_source_amount b),
                rs_destinationAmount = destAmount\<rparr>))"

definition pathAssetsToStellarAssets :: "path_asset list \<Rightarrow> stellar_asset list" where
  "pathAssetsToStellarAssets ps =
     map (\<lambda>p. if pth_type p = TypeNative then Native else Credit (the (pth_code p)) (the (pth_issuer p))) ps"

section \<open>The best path\<close>

lemma sort_key_head:
  assumes "head_option (sort_key f xs) = Some b"
  shows "b \<in> set xs \<and> (\<forall>x \<in> set xs. f b \<le> (f x :: 'b::linorder))"
proof -
  obtain ys where ys: "sort_key f xs = b # ys"
    using assms by (auto simp: head_option_def split: list.splits)
  then have "set xs = insert b (set ys)" by (metis list.set(2) set_sort)
  moreover have "\<forall>y \<in> set ys. f b \<le> f y"
    using sorted_sort_key [of f xs] ys by simp
  ultimately show ?thesis by auto
qed

text \<open>The path selected is the best one Horizon offered: with readable amounts, a strict-send
lookup selects a record no other pays out more than, and a strict-receive lookup one no other
charges less than; all records are kept, and the amount reported is the selected record's.\<close>

lemma best_path_selected:
  assumes "\<forall>p \<in> set records. parseFloat (pp_destination_amount p) = Fin (dst p) \<and>
      parseFloat (pp_source_amount p) = Fin (src p)"
    and "records \<noteq> []" and "\<And>params. lookup params = PathRecords records"
  shows "(\<exists>r b. findStrictSendPaths lookup a amount d account = Inr r \<and> rs_bestPath r = Some b \<and>
      b \<in> set records \<and> (\<forall>p \<in> set records. dst p \<le> dst b) \<and>
      rs_destinationAmount r = pp_destination_amount b \<and> mset (rs_paths r) = mset records) \<and>
    (\<exists>r b. findStrictReceivePaths lookup a d amount account = Inr r \<and> rs_bestPath r = Some b \<and>
      b \<in> set records \<and> (\<forall>p \<in> set records. src b \<le> src p) \<and>
      rs_sourceAmount r = pp_source_amount b \<and> mset (rs_paths r) = mset records)"
proof -
  have head: "\<exists>b. head_option (sort_key f records) = Some b" for f :: "payment_path \<Rightarrow> rat"
    using assms(2) by (cases "sort_key f records") (auto simp: head_option_def dest: arg_cong [where f = length])
  have send: "js_sort (\<lambda>a b. num_sub (parseFloat (pp_destination_amount b))
      (parseFloat (pp_destination_amount a))) records = sort_key (\<lambda>p. - dst p) records"
    by (rule js_sort_key) (simp add: assms(1))
  have receive: "js_sort (\<lambda>a b. num_sub (parseFloat (pp_source_amount a))
      (parseFloat (pp_source_amount b))) records = sort_key src records"
    by (rule js_sort_numbers) (simp add: assms(1))
  obtain b where b: "head_option (sort_key (\<lambda>p. - dst p) records) = Some b" using head by blast
  obtain c where c: "head_option (sort_key src records) = Some c" using head by blast
  from sort_key_head [OF b] sort_key_head [OF c] show ?thesis
    by (auto simp: findStrictSendPaths_def findStrictReceivePaths_def assms(3) send receive b c Let_def)
qed

definition sample_path :: payment_path where
  "sample_path = \<lparr>pp_source_amount = ''1'', pp_destination_amount = ''2'', pp_path = []\<rparr>"

theorem best_path_selected_example:
  "\<exists>r. findStrictSendPaths (\<lambda>_. PathRecords [sample_path]) Native ''1'' Native None = Inr r \<and>
     rs_bestPath r = Some sample_path"
proof -
  have "parseFloat (pp_destination_amount sample_path) = Fin 2" "parseFloat (pp_source_amount sample_path) = Fin 1"
    by (simp_all add: sample_path_def parseFloat_def trim_left_def is_space_def scan_signed_def
        starts_with_def scan_decimal_def is_digit_def scan_exponent_def Let_def)
  then have "\<forall>p \<in> set [sample_path]. parseFloat (pp_destination_amount p) = Fin 2 \<and>
      parseFloat (pp_source_amount p) = Fin 1" by simp
  from best_path_selected [OF this, of "\<lambda>_. PathRecords [sample_path]" Native "''1''" Native None]
  show ?thesis by auto
qed

end
