(* ===== verification/PaymentURI.thy ===== *)
theory PaymentURI
  imports JsText
begin

text \<open>
  \<open>frontend/lib/sep0007.ts\<close>: reading a payment request from a SEP-0007 URI or the app's deep link.
  The decoding of a query string into its parameters is the browser's and an argument.
\<close>

section \<open>Data\<close>

datatype memo_type = MEMO_TEXT | MEMO_ID | MEMO_HASH | MEMO_RETURN

record parsed_uri =
  pu_destination :: string
  pu_amount :: "string option"
  pu_assetCode :: "string option"
  pu_assetIssuer :: "string option"
  pu_memo :: "string option"
  pu_memoType :: "memo_type option"
  pu_msg :: "string option"
  pu_networkPassphrase :: "string option"
  pu_originDomain :: "string option"
  pu_signature :: "string option"
  pu_callback :: "string option"

text \<open>An error message, or the data with the flag \<open>isExternal\<close>.\<close>

type_synonym uri_result = "string + parsed_uri \<times> bool"

section \<open>Parsing\<close>

definition line_char :: "char \<Rightarrow> bool" where
  "line_char c = (c \<noteq> CHR 0x0A \<and> c \<noteq> CHR 0x0D)"

text \<open>The group of \<open>/^scheme(.+)$/\<close>.\<close>

definition after_scheme :: "string \<Rightarrow> string \<Rightarrow> string option" where
  "after_scheme scheme uri =
     (let rest = drop (length scheme) uri
      in if starts_with uri scheme \<and> rest \<noteq> [] \<and> list_all line_char rest then Some rest else None)"

definition first_match :: "'a option \<Rightarrow> 'a option \<Rightarrow> 'a option" where
  "first_match a b = (case a of None \<Rightarrow> b | Some x \<Rightarrow> Some x)"

definition stellar_match :: "string \<Rightarrow> string option" where
  "stellar_match uri = first_match (after_scheme ''web+stellar:pay?'' uri) (after_scheme ''stellar:pay?'' uri)"

definition micro_pay_match :: "string \<Rightarrow> string option" where
  "micro_pay_match uri = after_scheme ''stellarfinchippay://pay?'' uri"

text \<open>\<open>replace(/(^|&)to=/g, "$1destination=")\<close>.\<close>

definition rewrite_to :: "string \<Rightarrow> string" where
  "rewrite_to q =
     join ''&'' (map (\<lambda>p. if starts_with p ''to='' then ''destination='' @ drop 3 p else p) (split_char CHR ''&'' q))"

text \<open>\<open>params.get(k) || undefined\<close>.\<close>

definition param :: "(string \<times> string) list \<Rightarrow> string \<Rightarrow> string option" where
  "param ps k = (case map_of ps k of Some v \<Rightarrow> if v \<noteq> [] then Some v else None | None \<Rightarrow> None)"

definition read_memo_type :: "string option \<Rightarrow> memo_type option" where
  "read_memo_type v =
     (if v = Some ''MEMO_TEXT'' then Some MEMO_TEXT else if v = Some ''MEMO_ID'' then Some MEMO_ID
      else if v = Some ''MEMO_HASH'' then Some MEMO_HASH else if v = Some ''MEMO_RETURN'' then Some MEMO_RETURN
      else None)"

text \<open>The later check of the memo type can never fail on a value that was just read.\<close>

definition memo_type_listed :: "memo_type \<Rightarrow> bool" where
  "memo_type_listed t = (t \<in> {MEMO_TEXT, MEMO_ID, MEMO_HASH, MEMO_RETURN})"

definition bad_amount :: "string option \<Rightarrow> bool" where
  "bad_amount a =
     (case a of
        None \<Rightarrow> False
      | Some s \<Rightarrow> (let n = parseFloat s in n = JsNaN \<or> num_less n (Fin 0) \<or> n = Fin 0))"

definition parseStellarURI :: "(string \<Rightarrow> (string \<times> string) list) \<Rightarrow> string \<Rightarrow> uri_result" where
  "parseStellarURI decode uri =
     (case first_match (stellar_match uri) (micro_pay_match uri) of
        None \<Rightarrow> Inl ''Invalid Stellar URI format. Expected stellar:pay, web+stellar:pay, or stellarfinchippay://pay''
      | Some q \<Rightarrow>
          (let params = decode (if micro_pay_match uri \<noteq> None then rewrite_to q else q);
               destination = param params ''destination'';
               amount = param params ''amount'';
               assetCode = param params ''asset_code'';
               assetIssuer = param params ''asset_issuer'';
               memo = param params ''memo'';
               memoType = read_memo_type (param params ''memo_type'')
           in if destination = None then Inl ''Missing required parameter: destination''
              else if \<not> starts_with (the destination) ''G'' \<or> length (the destination) \<noteq> 56
              then Inl ''Invalid destination address format''
              else if memo \<noteq> None \<and> memoType \<noteq> None \<and> \<not> memo_type_listed (the memoType)
              then Inl ''Invalid memo_type. Must be one of: MEMO_TEXT, MEMO_ID, MEMO_HASH, MEMO_RETURN''
              else if bad_amount amount then Inl ''Invalid amount. Must be a positive number''
              else if assetCode \<noteq> None \<and> assetCode \<noteq> Some ''XLM'' \<and> assetIssuer = None
              then Inl ''asset_issuer is required when asset_code is not XLM''
              else Inr (\<lparr>pu_destination = the destination, pu_amount = amount, pu_assetCode = assetCode,
                pu_assetIssuer = assetIssuer, pu_memo = memo, pu_memoType = memoType,
                pu_msg = param params ''msg'', pu_networkPassphrase = param params ''network_passphrase'',
                pu_originDomain = param params ''origin_domain'', pu_signature = param params ''signature'',
                pu_callback = param params ''callback''\<rparr>, starts_with uri ''web+stellar:'')))"

text \<open>The page's own \<open>uri\<close> parameter, if it has one.\<close>

definition getStellarURIFromURL ::
  "(string \<Rightarrow> (string \<times> string) list) \<Rightarrow> string \<Rightarrow> uri_result option" where
  "getStellarURIFromURL decode search =
     (case param (decode search) ''uri'' of None \<Rightarrow> None | Some u \<Rightarrow> Some (parseStellarURI decode u))"

definition uriToPrefillData :: "parsed_uri \<Rightarrow> string \<times> string \<times> string" where
  "uriToPrefillData p =
     (pu_destination p, case pu_amount p of None \<Rightarrow> [] | Some a \<Rightarrow> a,
      case pu_memo p of None \<Rightarrow> [] | Some m \<Rightarrow> m)"

section \<open>What an accepted URI guarantees\<close>

lemma memo_type_never_rejected: "memo_type_listed t"
  by (cases t) (simp_all add: memo_type_listed_def)

text \<open>An accepted URI is safe to prefill: whatever its parameters, the destination is 56
characters starting with G, an amount reads as a positive number, a token other than XLM names
its issuer, and it counts as external exactly when it came with the web scheme. The error for an
unknown memo type is never returned: such a type is dropped.\<close>

lemma accepted_uri_valid:
  assumes "parseStellarURI decode uri = Inr (p, external)"
  shows "length (pu_destination p) = 56 \<and> hd (pu_destination p) = CHR ''G'' \<and>
    (\<forall>a. pu_amount p = Some a \<longrightarrow> num_less (Fin 0) (parseFloat a)) \<and>
    (\<forall>c. pu_assetCode p = Some c \<and> c \<noteq> ''XLM'' \<longrightarrow> pu_assetIssuer p \<noteq> None) \<and>
    external = starts_with uri ''web+stellar:''"
proof -
  obtain q where q: "first_match (stellar_match uri) (micro_pay_match uri) = Some q"
    using assms by (cases "first_match (stellar_match uri) (micro_pay_match uri)")
      (auto simp: parseStellarURI_def)
  let ?ps = "decode (if micro_pay_match uri \<noteq> None then rewrite_to q else q)"
  have dest: "param ?ps ''destination'' = Some (pu_destination p)" "starts_with (pu_destination p) ''G''"
    "length (pu_destination p) = 56"
    and amount: "pu_amount p = param ?ps ''amount''" "\<not> bad_amount (pu_amount p)"
    and asset: "pu_assetCode p = param ?ps ''asset_code''" "pu_assetIssuer p = param ?ps ''asset_issuer''"
      "\<not> (pu_assetCode p \<noteq> None \<and> pu_assetCode p \<noteq> Some ''XLM'' \<and> pu_assetIssuer p = None)"
    and ext: "external = starts_with uri ''web+stellar:''"
    using assms q unfolding parseStellarURI_def Let_def
    by (simp_all split: if_splits) (elim conjE, force)+
  have "num_less (Fin 0) (parseFloat a)" if "pu_amount p = Some a" for a
    using amount(2) that by (cases "parseFloat a") (auto simp: bad_amount_def Let_def)
  moreover have "hd (pu_destination p) = CHR ''G''"
    using dest(2,3) by (auto simp: starts_with_iff)
  ultimately show ?thesis using dest(3) asset(3) ext by auto
qed

definition sample_destination :: string where
  "sample_destination = CHR ''G'' # replicate 55 CHR ''A''"

theorem accepted_uri_valid_example:
  "\<exists>p. parseStellarURI (\<lambda>_. [(''destination'', sample_destination)]) ''stellar:pay?x'' = Inr (p, False) \<and>
     length (pu_destination p) = 56"
proof -
  let ?d = "\<lambda>_. [(''destination'', sample_destination)]"
  have "stellar_match ''stellar:pay?x'' = Some ''x''" "micro_pay_match ''stellar:pay?x'' = None"
    by (simp_all add: stellar_match_def micro_pay_match_def after_scheme_def first_match_def starts_with_def
        line_char_def Let_def)
  then have "\<exists>p. parseStellarURI ?d ''stellar:pay?x'' = Inr (p, starts_with ''stellar:pay?x'' ''web+stellar:'')"
    by (simp add: parseStellarURI_def first_match_def param_def read_memo_type_def bad_amount_def
        sample_destination_def starts_with_def Let_def)
  then obtain p where p: "parseStellarURI ?d ''stellar:pay?x'' = Inr (p, False)"
    by (auto simp: starts_with_def)
  from accepted_uri_valid [OF p] p show ?thesis by blast
qed

end
