(* ===== verification/Spec2Isabelle.thy ===== *)
theory Spec2Isabelle
  imports ExecutorClaims WebhookOverlap TokenClaims OrderBook PaymentHistory HorizonRetry Usernames ApiKeys Tips Anchors EventIndexer MailNotices OfflineDrain OfflineConcurrency LegacyQueue PaymentLinks Fees Treasury EscrowManager
    TransactionSearch SearchIndex ContactsFile ContactsDB EncryptedStore SavedData Portfolio
    PriceAlerts PathFinder PaymentURI
begin

text \<open>
  Finchippay: the logic of the browser client and of the back end.

  The program is a wallet for Stellar: a Next.js front end (\<open>frontend/\<close>), a Node back end
  (\<open>backend/\<close>), Soroban contracts in Rust (\<open>contracts/\<close>) and a TypeScript client of the contract
  (\<open>sdk/\<close>). This development models the modules of \<open>frontend/lib/\<close> that keep state or decide what
  happens to money and data on the device, and the services of \<open>backend/src/\<close> that schedule
  payments, deliver webhooks, keep sessions, price orders and list payments, with the handlers and
  middleware their requests go through.

  Shared vocabulary. \<open>JsBase\<close>: JavaScript values, numbers with NaN and infinities over exact
  rationals, the stable sort, string methods. \<open>JsText\<close>: \<open>Number\<close>, \<open>parseFloat\<close>, \<open>toFixed\<close>, JSON
  string literals. \<open>JsDict\<close>: plain objects and \<open>Map\<close> as dictionaries in insertion order (locale
  \<open>dictionary\<close>), values with a time to live (locale \<open>expiring\<close>). \<open>ObjectStore\<close>: IndexedDB stores in
  key order (locale \<open>object_store\<close>). \<open>JsNet\<close>: what \<open>fetch\<close> answers. \<open>JsDate\<close>: the UTC calendar.
  \<open>JsResult\<close>: exceptions as values. \<open>SqlTable\<close>: tables with a primary key. Every locale is
  interpreted on the model's own definitions in the theory that provides them.

  The client (\<open>frontend/lib/\<close>), with the files modelled.
  \<^item> \<open>OfflineQueue\<close>, \<open>OfflineDrain\<close>, \<open>OfflineConcurrency\<close> (\<open>offlineQueue.ts\<close>, generic layer):
    coercion of stored records, enqueue, dequeue, claim, retry rules, and \<open>processGenericQueue\<close>.
    A drain refines a specification on the map from ids to entries (what each eligible entry
    becomes, that nothing else changes, that the counters add up). In \<open>OfflineConcurrency\<close> pages and
    service workers (\<open>drainGenericQueue\<close> of \<open>public/sw.js\<close>) drain one store, each transaction a step:
    two submit one entry together only after a reset by the recovery of stuck entries or with a
    service worker, and both happen.
  \<^item> \<open>LegacyQueue\<close> (same file): schema upgrades, the signed transaction queue and its replay, the
    action log. The replay is specified record by record; a record left in submitting is lost.
  \<^item> \<open>PaymentLinks\<close> (\<open>paymentLinks.ts\<close>): links, their ids (FNV-1a on 32-bit words), the local
    records and the redemption markers in a storage that may refuse a write: round trip, canonical
    ids, the day-long block of a marker that was kept, the invariant of the record store.
  \<^item> \<open>Fees\<close> (\<open>fees.ts\<close>, resource simulation of \<open>soroban.ts\<close>): statistics cache, estimate, exact
    rendering of stroops.
  \<^item> \<open>Treasury\<close> (\<open>treasury.ts\<close>) and \<open>EscrowManager\<close> (\<open>escrowManager.ts\<close>): batched reads of the
    contract proved equal to reading one by one, caches, orders, categories.
  \<^item> \<open>TransactionSearch\<close>, \<open>SearchIndex\<close> (\<open>transactionSearch.ts\<close>, \<open>transactionSearchIndex.ts\<close>):
    query operators, scores and highlights (the highlighting loop is a partial function, proved to
    return for every search), the inverted index, its bounds and its copy in IndexedDB.
  \<^item> \<open>ContactsFile\<close>, \<open>ContactsDB\<close> (\<open>contactImportExport.ts\<close>, \<open>contactsDB.ts\<close>): CSV and vCard codecs
    with the CSV round trip, the two stores with their unique indexes as an invariant of every
    reachable state, import, and group deletion.
  \<^item> \<open>EncryptedStore\<close>, \<open>SavedData\<close> (\<open>encryptedStorage.ts\<close>, \<open>addressBook.ts\<close>,
    \<open>paymentTemplates.ts\<close>): the encrypted collection as a state with a write queue whose writes are
    steps of their own; saved data returns in the next session, a cleared collection can come back,
    a second wallet overwrites the first. The three deduplications interpret \<open>first_wins\<close>.
  \<^item> \<open>Portfolio\<close>, \<open>PriceAlerts\<close>, \<open>PathFinder\<close>, \<open>PaymentURI\<close> (\<open>portfolio.ts\<close>, \<open>priceAlerts.ts\<close>,
    \<open>pathFinder.ts\<close>, \<open>sep0007.ts\<close>): stored tokens and prices, the alert poller, route selection,
    payment URIs.

  The back end (\<open>backend/src/\<close>).
  \<^item> \<open>ScheduledTransactions\<close> (\<open>services/scheduledTransactionService.js\<close>, creation in
    \<open>routes/scheduledTransactions.js\<close>): schedules, cron jobs and pending executions. The database is
    well typed in every reachable state, the executor's writes and restarts included, a pending execution is submitted at most once however
    requests interleave, and the endpoint that creates schedules refuses every request.
  \<^item> \<open>ScheduledExecutor\<close>, \<open>ExecutorLiveness\<close>, \<open>ExecutorClaims\<close> (\<open>services/scheduledExecutor.js\<close>):
    claims with leases, retries, cycles. Workers over one database never hold one claim together
    while leases last, a run is executed once however often its schedule is found due at the same
    time, every execution is resolved in the end.
  \<^item> \<open>WebhookDelivery\<close>, \<open>WebhookClaims\<close>, \<open>WebhookOverlap\<close> (\<open>services/webhookService.js\<close>,
    \<open>jobs/webhookDeliveryWorker.js\<close>): registration, delivery, retries, dead letters, replay and the
    second worker. What duplicate receipts of an event send with each database driver, the shared count of
    failures, where replay and the worker lose deliveries. Handlers are one step each in
    \<open>WebhookClaims\<close>, where a delivered row does not change and a driver that counted rows would give
    one delivery for each event; \<open>WebhookOverlap\<close> splits a delivery at its request, where a retry can
    overtake it and a delivered row is reopened.
  \<^item> \<open>RefreshTokens\<close>, \<open>TokenClaims\<close> (\<open>services/tokenService.js\<close>, \<open>routes/auth.js\<close>): refresh tokens in
    a table and in memory, proved to answer alike; rotation, replay detection, and what breaks them.
  \<^item> \<open>OrderBook\<close> (\<open>services/sep/orderBookService.js\<close>): asset identifiers, the weighted price of an
    order, with the rounding of the doubles as an argument; its bounds hold for exact arithmetic.
  \<^item> \<open>Pagination\<close> (\<open>utils/paginate.js\<close>, \<open>middleware/pagination.js\<close>): cursors as base64url JSON, the
    keyset predicate as a lexicographic order, pages. The locale \<open>paging\<close> states what a seek and a
    page promise and proves that following the cursors visits every row and ends; it is interpreted
    for keyset queries and for paging in memory.
  \<^item> \<open>PaymentHistory\<close>, \<open>HorizonRetry\<close> (\<open>services/stellarService.js\<close>, \<open>services/analyticsService.js\<close>,
    \<open>controllers/paymentController.js\<close>): accounts, payments and their pages, statistics, and the loop
    around the calls to Horizon, which makes at most four attempts.
  \<^item> \<open>RequestText\<close>, \<open>Usernames\<close> (\<open>middleware/sanitization.js\<close>, \<open>services/usernameService.js\<close>,
    \<open>controllers/federationController.js\<close>, \<open>controllers/accountController.js\<close>): what a handler sees of
    an account or a name, registration and the federation protocol; a registered name resolves to
    its account both ways.
  \<^item> \<open>ApiKeys\<close> (\<open>services/apiKeyService.js\<close>, \<open>routes/apiKeys.js\<close>, \<open>middleware/auth.js\<close> and its
    variants): keys by their digest, requests let through for one account, revocation.
  \<^item> \<open>Tips\<close> (\<open>services/tipsService.js\<close>, \<open>controllers/tipsController.js\<close>, \<open>utils/asset.js\<close>): tips
    recorded once, listed in full, and summed up.
  \<^item> \<open>CacheService\<close> (\<open>services/cacheService.js\<close>, tickets of \<open>routes/stream.js\<close>): Redis as a parameter
    with its laws, the map of each process with its bound, and what the second copy leads to.
  \<^item> \<open>InboundWebhooks\<close>, \<open>Anchors\<close> (\<open>services/inboundWebhookSecretService.js\<close>,
    \<open>middleware/verifyInboundWebhookSignature.js\<close>, \<open>services/sep/sep24Service.js\<close>): secrets, the check of a
    callback, deposits and withdrawals. Only a signed callback changes anything, a revoked secret
    never returns; a captured callback can be replayed and an expired secret can be revived.
  \<^item> \<open>Mailing\<close>, \<open>MailNotices\<close> (\<open>services/notificationService.js\<close>, \<open>services/emailTrackingService.js\<close>,
    \<open>services/emailVerificationService.js\<close>, \<open>routes/emails.js\<close>): the send queue, unsubscribing, bounces,
    verified addresses and notices. The locale \<open>mail_invariant\<close> states once what an invariant of all
    operations has to survive. The rate limit holds in every hour; a queued message is sent only
    to an address whose own unsubscribe link was followed with a category.
  \<^item> \<open>EventIndexer\<close> (\<open>services/eventIndexer.js\<close>, \<open>services/eventParser.js\<close>): calls with retries, parsing,
    storage and the cursor, which passes events over only when the server answers with an error in
    the body, and which can stop for good.

  Conventions. A definition has the name of the function it models. Time is an argument: one
  reading of the clock for each call of \<open>Date.now()\<close> the code makes in that step. What comes from
  outside (the network, the wallet, the contract client, the cipher, digests and signatures, JSON
  of foreign values, the browser's URL and locale functions) is an argument or a field of an
  environment record, and a theorem that relies on it says so in its hypotheses. A throw is \<open>Inl\<close> or
  \<open>None\<close>, a promise that never settles a value of its own. IndexedDB transactions and single SQL
  statements are atomic; a handler of the back end is one step except where a theorem is about two
  of them overlapping, whose reads and writes are then steps of their own. Loops over data are
  structural; batched loops, text scanners and retries terminate by a measure. The only budget is
  that of \<open>follow_pages\<close>, the number of requests a client is willing to make; any number above that
  of the rows is enough.

  Idealisations. Numbers are exact where the program has doubles, which agree on the integers
  below two to the 53 that clocks, counters and stroops are; amounts parsed from text are the
  rationals they denote. Only the order book, whose results depend on rounding, takes it as an argument. Strings hold code units up to 255. Events and subscriptions carry no
  state and are left out, as are console output, traces, metrics and downloads.

  Not modelled: the React components, pages and hooks (rendering); the Stellar SDK calls of
  \<open>lib/stellar.ts\<close>, \<open>lib/soroban.ts\<close> and the hardware and browser wallets (third-party protocols);
  \<open>lib/contract-bindings\<close> and \<open>sdk/\<close> (encoding of contract calls for the SDK); of the back end the
  push, SEP-12, turret and health services, the e-mail templates, which
  are mostly input and output through libraries, and the wiring of routes and configuration; the
  contracts, which are in Rust. Next in the plan: the error catalogue (\<open>lib/handleError.ts\<close>), the
  formatting utilities (\<open>utils/\<close>), onboarding and feature flags, then the pure parts of
  \<open>lib/stellar.ts\<close>, and the back-end services above that keep state of their own.
\<close>

end
